(* ===== verification/Prelude.thy ===== *)
theory Prelude
  imports Main "HOL-Library.List_Lexorder" "HOL-Library.Char_ord" "HOL-Library.Multiset"
begin

text \<open>
  Shared vocabulary of the development: Go's integer conversions and truncating division, the
  string helpers of the standard library the portal uses (on byte strings; the white-space and
  letter-case helpers are the ASCII ones), Go's stable sort, and the generic list lemmas the
  component theories share. Strings are ordered lexicographically by bytes, as Go orders them
  (List_Lexorder over Char_ord), so stored dates are compared as the code compares them.
\<close>

named_theorems go_const \<open>definitions of the string constants of the portal\<close>
named_theorems go_op \<open>definitions of small operations that proofs unfold together\<close>

type_synonym instant = int
type_synonym 'a result = "string + 'a"

section \<open>Integers\<close>

definition wrap64 :: "int \<Rightarrow> int" where
  "wrap64 x = (x + 2 ^ 63) mod 2 ^ 64 - 2 ^ 63"

definition wrap32 :: "int \<Rightarrow> int" where
  "wrap32 x = (x + 2 ^ 31) mod 2 ^ 32 - 2 ^ 31"

definition go_quot :: "int \<Rightarrow> int \<Rightarrow> int" where
  "go_quot a b = (if (a < 0) = (b < 0) then \<bar>a\<bar> div \<bar>b\<bar> else - (\<bar>a\<bar> div \<bar>b\<bar>))"

lemma wrap64_id [simp]: "- (2 ^ 63) \<le> x \<Longrightarrow> x < 2 ^ 63 \<Longrightarrow> wrap64 x = x"
  by (simp add: wrap64_def)

lemma wrap32_id [simp]: "- (2 ^ 31) \<le> x \<Longrightarrow> x < 2 ^ 31 \<Longrightarrow> wrap32 x = x"
  by (simp add: wrap32_def)

lemma wrap32_range: "- (2 ^ 31) \<le> wrap32 x \<and> wrap32 x < 2 ^ 31"
proof -
  have "0 \<le> (x + 2 ^ 31) mod 2 ^ 32" and "(x + 2 ^ 31) mod 2 ^ 32 < 2 ^ 32"
    by (simp_all add: pos_mod_bound pos_mod_sign)
  then show ?thesis by (simp add: wrap32_def)
qed

lemma go_quot_nonneg [simp]: "0 \<le> a \<Longrightarrow> 0 < b \<Longrightarrow> go_quot a b = a div b"
  by (simp add: go_quot_def)

lemma go_quot_neg: "a < 0 \<Longrightarrow> 0 < b \<Longrightarrow> go_quot a b = - ((- a) div b)"
  by (simp add: go_quot_def)

lemma int_le_div_iff:
  assumes "0 < (c :: int)"
  shows "(k \<le> a div c) = (k * c \<le> a)"
proof
  assume "k \<le> a div c"
  then have "k * c \<le> a div c * c" using assms by simp
  also have "\<dots> \<le> a" using div_mult_mod_eq [of a c] pos_mod_sign [OF assms, of a] by linarith
  finally show "k * c \<le> a" .
next
  assume "k * c \<le> a"
  then have "k * c div c \<le> a div c" using assms by (rule zdiv_mono1)
  then show "k \<le> a div c" using assms by simp
qed

lemma int_div_less_iff: "0 < (c :: int) \<Longrightarrow> (a div c < k) = (a < k * c)"
  using int_le_div_iff [of c k a] by (auto simp: not_le)

section \<open>Lexicographic order on equal-length prefixes\<close>

lemma append_less_append:
  "length a = length c \<Longrightarrow> (a @ b < c @ d) = (a < c \<or> a = c \<and> b < (d :: 'a :: linorder list))"
  by (induction a c rule: list_induct2) auto

lemma append_le_append:
  "length a = length c \<Longrightarrow> (a @ b \<le> c @ d) = (a < c \<or> a = c \<and> b \<le> (d :: 'a :: linorder list))"
  by (auto simp: le_less append_less_append)

section \<open>Byte strings\<close>

definition is_digit :: "char \<Rightarrow> bool" where
  "is_digit c \<longleftrightarrow> 48 \<le> (of_char c :: nat) \<and> (of_char c :: nat) \<le> 57"

definition digit_val :: "char \<Rightarrow> int" where
  "digit_val c = int (of_char c :: nat) - 48"

definition digit_char :: "int \<Rightarrow> char" where
  "digit_char n = char_of (nat n + 48)"

lemma of_digit_char: "0 \<le> n \<Longrightarrow> n \<le> 9 \<Longrightarrow> (of_char (digit_char n) :: nat) = nat n + 48"
  by (simp add: digit_char_def)

lemma digit_char_is_digit [simp]: "0 \<le> n \<Longrightarrow> n \<le> 9 \<Longrightarrow> is_digit (digit_char n)"
  by (simp add: is_digit_def of_digit_char)

lemma digit_val_digit_char [simp]: "0 \<le> n \<Longrightarrow> n \<le> 9 \<Longrightarrow> digit_val (digit_char n) = n"
  by (simp add: digit_val_def of_digit_char)

lemma digit_char_less:
  assumes "0 \<le> a" "a \<le> 9" "0 \<le> b" "b \<le> 9"
  shows "(digit_char a < digit_char b) = (a < b)"
  using assms of_digit_char [of a] of_digit_char [of b] by (auto simp add: less_char_def)

lemma digit_char_eq:
  assumes "0 \<le> a" "a \<le> 9" "0 \<le> b" "b \<le> 9"
  shows "(digit_char a = digit_char b) = (a = b)"
  using assms digit_val_digit_char by metis

fun pad :: "nat \<Rightarrow> int \<Rightarrow> string" where
  "pad 0 n = []"
| "pad (Suc w) n = pad w (n div 10) @ [digit_char (n mod 10)]"

fun digits_val :: "string \<Rightarrow> int \<Rightarrow> int" where
  "digits_val [] acc = acc"
| "digits_val (c # cs) acc = digits_val cs (10 * acc + digit_val c)"

definition all_digits :: "string \<Rightarrow> bool" where
  "all_digits s \<longleftrightarrow> list_all is_digit s"

lemma length_pad [simp]: "length (pad w n) = w"
  by (induction w arbitrary: n) auto

lemma digit_mod_bounds: "0 \<le> n mod (10 :: int)" "n mod (10 :: int) \<le> 9"
  by (simp, presburger)

lemma all_digits_pad [simp]: "all_digits (pad w n)"
  by (induction w arbitrary: n) (simp_all add: all_digits_def digit_mod_bounds)

lemma digits_val_append: "digits_val (xs @ ys) acc = digits_val ys (digits_val xs acc)"
  by (induction xs arbitrary: acc) auto

lemma digits_val_pad: "0 \<le> n \<Longrightarrow> n < 10 ^ w \<Longrightarrow> digits_val (pad w n) 0 = n"
proof (induction w arbitrary: n)
  case 0
  then show ?case by simp
next
  case (Suc w)
  have "0 \<le> n div 10" and "n div 10 < 10 ^ w"
    using Suc.prems by (simp_all add: pos_imp_zdiv_nonneg_iff div_less_iff_less_mult algebra_simps)
  then have "digits_val (pad w (n div 10)) 0 = n div 10" by (rule Suc.IH)
  then show ?case by (simp add: digits_val_append digit_mod_bounds)
qed

lemma decimal_less:
  "0 \<le> r \<Longrightarrow> r \<le> 9 \<Longrightarrow> 0 \<le> t \<Longrightarrow> t \<le> 9 \<Longrightarrow>
   (a < b \<or> a = b \<and> r < t) = (10 * a + r < 10 * b + (t :: int))"
  by linarith

lemma pad_less:
  assumes "0 \<le> n" "n < 10 ^ w" "0 \<le> m" "m < 10 ^ w"
  shows "(pad w n < pad w m) = (n < m)"
  using assms
proof (induction w arbitrary: n m)
  case 0
  then show ?case by simp
next
  case (Suc w)
  have b: "0 \<le> n div 10" "n div 10 < 10 ^ w" "0 \<le> m div 10" "m div 10 < 10 ^ w"
    using Suc.prems by (simp_all add: pos_imp_zdiv_nonneg_iff div_less_iff_less_mult algebra_simps)
  have eq: "(pad w (n div 10) = pad w (m div 10)) = (n div 10 = m div 10)"
    using digits_val_pad [of "n div 10" w] digits_val_pad [of "m div 10" w] b by metis
  have "(pad (Suc w) n < pad (Suc w) m) =
        (n div 10 < m div 10 \<or> n div 10 = m div 10 \<and> n mod 10 < m mod 10)"
    using Suc.IH [OF b] eq
    by (simp add: append_less_append digit_char_less digit_mod_bounds)
  also have "\<dots> = (n < m)"
    using decimal_less [of "n mod 10" "m mod 10" "n div 10" "m div 10"] digit_mod_bounds [of n]
      digit_mod_bounds [of m] by simp
  finally show ?case .
qed

lemma pad_eq:
  assumes "0 \<le> n" "n < 10 ^ w" "0 \<le> m" "m < 10 ^ w"
  shows "(pad w n = pad w m) = (n = m)"
  using assms digits_val_pad by metis

definition is_space :: "char \<Rightarrow> bool" where
  "is_space c \<longleftrightarrow> (of_char c :: nat) \<in> {9, 10, 11, 12, 13, 32}"

definition trim_space :: "string \<Rightarrow> string" where
  "trim_space s = rev (dropWhile is_space (rev (dropWhile is_space s)))"

definition lower_char :: "char \<Rightarrow> char" where
  "lower_char c = (let n = (of_char c :: nat) in if 65 \<le> n \<and> n \<le> 90 then char_of (n + 32) else c)"

definition to_lower :: "string \<Rightarrow> string" where
  "to_lower s = map lower_char s"

definition has_prefix :: "string \<Rightarrow> string \<Rightarrow> bool" where
  "has_prefix s p \<longleftrightarrow> take (length p) s = p"

text \<open>Decimal rendering of an integer (\<open>strconv.Itoa\<close>), one digit per division.\<close>

fun nat_digits :: "nat \<Rightarrow> string" where
  "nat_digits n = (if n < 10 then [digit_char (int n)]
                   else nat_digits (n div 10) @ [digit_char (int (n mod 10))])"

declare nat_digits.simps [simp del]

definition itoa :: "int \<Rightarrow> string" where
  "itoa n = (if n < 0 then CHR ''-'' # nat_digits (nat (- n)) else nat_digits (nat n))"

text \<open>\<open>strconv.Atoi\<close>: an optional sign, at least one digit, no overflow of 64 bits.\<close>

definition atoi :: "string \<Rightarrow> int option" where
  "atoi s = (let (neg, ds) = (case s of CHR ''-'' # r \<Rightarrow> (True, r)
                                      | CHR ''+'' # r \<Rightarrow> (False, r) | _ \<Rightarrow> (False, s));
                 v = digits_val ds 0; n = (if neg then - v else v)
             in if ds \<noteq> [] \<and> all_digits ds \<and> - (2 ^ 63) \<le> n \<and> n < 2 ^ 63 then Some n else None)"

section \<open>Decimals\<close>

lemma nat_digits_read: "nat_digits n \<noteq> [] \<and> all_digits (nat_digits n) \<and> digits_val (nat_digits n) 0 = int n"
proof (induction n rule: nat_digits.induct)
  case (1 n)
  show ?case
  proof (cases "n < 10")
    case True
    then show ?thesis by (subst (1 2 3) nat_digits.simps) (simp add: all_digits_def)
  next
    case False
    have "n mod 10 \<le> 9" by presburger
    then have m: "0 \<le> int (n mod 10)" "int (n mod 10) \<le> 9" by simp_all
    have "10 * int (n div 10) + int (n mod 10) = int n" by presburger
    then show ?thesis using False 1 m
      by (subst (1 2 3) nat_digits.simps) (simp add: all_digits_def digits_val_append)
  qed
qed

lemma digits_unsigned: "all_digits (c # cs) \<Longrightarrow> c \<noteq> CHR ''-'' \<and> c \<noteq> CHR ''+'' \<and> \<not> is_space c"
  by (auto simp: all_digits_def is_digit_def is_space_def)

lemma unsigned_case:
  assumes "c \<noteq> CHR ''-''" "c \<noteq> CHR ''+''"
  shows "(case c # cs of CHR ''-'' # r \<Rightarrow> (True, r) | CHR ''+'' # r \<Rightarrow> (False, r) | _ \<Rightarrow> (False, c # cs))
    = (False, c # cs)"
  using assms by (cases c) (auto split: bool.splits)

lemma atoi_itoa [simp]: "- (2 ^ 63) \<le> n \<Longrightarrow> n < 2 ^ 63 \<Longrightarrow> atoi (itoa n) = Some n"
proof (cases "n < 0")
  case True
  moreover assume "- (2 ^ 63) \<le> n" "n < 2 ^ 63"
  ultimately show ?thesis using nat_digits_read [of "nat (- n)"] by (simp add: atoi_def itoa_def)
next
  case False
  moreover assume "- (2 ^ 63) \<le> n" "n < 2 ^ 63"
  moreover obtain c cs where "nat_digits (nat n) = c # cs" using nat_digits_read [of "nat n"] by (cases "nat_digits (nat n)") auto
  ultimately show ?thesis using nat_digits_read [of "nat n"] digits_unsigned [of c cs]
      unsigned_case [of c cs] by (simp add: atoi_def itoa_def)
qed

lemma trim_space_none: "\<forall>c\<in>set s. \<not> is_space c \<Longrightarrow> trim_space s = s"
proof -
  assume s: "\<forall>c\<in>set s. \<not> is_space c"
  have "dropWhile is_space xs = xs" if "\<forall>c\<in>set xs. \<not> is_space c" for xs
    using that by (cases xs) auto
  from this [of s] this [of "rev s"] show ?thesis using s by (simp add: trim_space_def)
qed

lemma digits_not_space: "all_digits s \<Longrightarrow> c \<in> set s \<Longrightarrow> \<not> is_space c"
  by (auto simp: all_digits_def is_digit_def is_space_def list_all_iff)

lemma trim_space_itoa [simp]: "trim_space (itoa n) = itoa n"
  using nat_digits_read [of "nat n"] nat_digits_read [of "nat (- n)"] digits_not_space
  by (intro trim_space_none) (auto simp: itoa_def is_space_def)

section \<open>Stable sorting\<close>

text \<open>
  \<open>sort.SliceStable\<close> with a caller-supplied \<open>lt\<close>: insertion from the right, each element placed
  before the first element that is not smaller. The locale states the contract the Go library asks
  of \<open>lt\<close> (a strict weak order); each component interprets it on the comparison its code passes.
\<close>

fun ins_by :: "('a \<Rightarrow> 'a \<Rightarrow> bool) \<Rightarrow> 'a \<Rightarrow> 'a list \<Rightarrow> 'a list" where
  "ins_by lt x [] = [x]"
| "ins_by lt x (y # ys) = (if lt y x then y # ins_by lt x ys else x # y # ys)"

definition stable_sort :: "('a \<Rightarrow> 'a \<Rightarrow> bool) \<Rightarrow> 'a list \<Rightarrow> 'a list" where
  "stable_sort lt xs = foldr (ins_by lt) xs []"

lemma stable_sort_simps [simp]:
  "stable_sort lt [] = []"
  "stable_sort lt (x # xs) = ins_by lt x (stable_sort lt xs)"
  by (simp_all add: stable_sort_def)

lemma mset_ins_by [simp]: "mset (ins_by lt x xs) = add_mset x (mset xs)"
  by (induction xs) auto

lemma mset_stable_sort [simp]: "mset (stable_sort lt xs) = mset xs"
  by (induction xs) auto

lemma set_stable_sort [simp]: "set (stable_sort lt xs) = set xs"
  by (metis mset_stable_sort set_mset_mset)

lemma length_stable_sort [simp]: "length (stable_sort lt xs) = length xs"
  by (metis mset_stable_sort size_mset)

lemma distinct_stable_sort [simp]: "distinct (stable_sort lt xs) = distinct xs"
  by (metis mset_eq_imp_distinct_iff mset_stable_sort)

lemma sorted_wrt_unique:
  assumes "mset xs = mset ys" "sorted_wrt (\<lambda>x y. \<not> lt y x) xs" "sorted_wrt (\<lambda>x y. \<not> lt y x) ys"
    and "\<forall>x\<in>set xs. \<forall>y\<in>set xs. x \<noteq> y \<longrightarrow> lt x y \<or> lt y x"
  shows "xs = ys"
  using assms
proof (induction xs arbitrary: ys)
  case Nil
  then show ?case by simp
next
  case (Cons x xs)
  then obtain y zs where ys: "ys = y # zs" by (cases ys) auto
  have in_y: "y \<in> set (x # xs)" and in_x: "x \<in> set ys"
    using Cons.prems(1) ys by (metis list.set_intros(1) set_mset_mset)+
  have "x = y"
  proof (rule ccontr)
    assume "x \<noteq> y"
    then have "\<not> lt y x" and "\<not> lt x y"
      using Cons.prems(2,3) in_x in_y ys by auto
    then show False using Cons.prems(4) in_y \<open>x \<noteq> y\<close> by auto
  qed
  then show ?case using Cons.IH [of zs] Cons.prems ys by auto
qed

locale go_less =
  fixes lt :: "'a \<Rightarrow> 'a \<Rightarrow> bool"
  assumes asym: "lt x y \<Longrightarrow> \<not> lt y x"
    and neg_trans: "\<not> lt x y \<Longrightarrow> \<not> lt y z \<Longrightarrow> \<not> lt x z"
begin

lemma sorted_ins_by:
  "sorted_wrt (\<lambda>x y. \<not> lt y x) ys \<Longrightarrow> sorted_wrt (\<lambda>x y. \<not> lt y x) (ins_by lt x ys)"
proof (induction ys)
  case Nil
  then show ?case by simp
next
  case (Cons y ys)
  have set_ins: "set (ins_by lt x ys) = insert x (set ys)"
    by (metis mset_ins_by set_mset_add_mset_insert set_mset_mset)
  show ?case
  proof (cases "lt y x")
    case True
    then show ?thesis using Cons asym set_ins by auto
  next
    case False
    then show ?thesis using Cons.prems neg_trans by auto
  qed
qed

lemma sorted_stable_sort: "sorted_wrt (\<lambda>x y. \<not> lt y x) (stable_sort lt xs)"
  by (induction xs) (auto simp: sorted_ins_by)

lemma less_trans: "lt x y \<Longrightarrow> lt y z \<Longrightarrow> lt x z"
  using asym neg_trans by blast

lemma stable_sort_cong_mset:
  "mset xs = mset ys \<Longrightarrow> \<forall>x\<in>set xs. \<forall>y\<in>set xs. x \<noteq> y \<longrightarrow> lt x y \<or> lt y x \<Longrightarrow>
   stable_sort lt xs = stable_sort lt ys"
  by (rule sorted_wrt_unique [where lt = lt]) (simp_all add: sorted_stable_sort)

lemma filter_ins_by:
  "\<not> P x \<Longrightarrow> filter P (ins_by lt x ys) = filter P ys"
  by (induction ys) auto

lemma stable_ins_by:
  "P x \<Longrightarrow> \<forall>y\<in>set ys. P y \<longrightarrow> \<not> lt y x \<Longrightarrow> filter P (ins_by lt x ys) = x # filter P ys"
  by (induction ys) auto

lemma stable_sort_stable:
  "\<forall>x y. P x \<longrightarrow> P y \<longrightarrow> \<not> lt x y \<Longrightarrow> filter P (stable_sort lt xs) = filter P xs"
proof (induction xs)
  case Nil
  then show ?case by simp
next
  case (Cons x xs)
  then show ?case
    using filter_ins_by [of P x] stable_ins_by [of P x] by (cases "P x") auto
qed

end

lemma takeWhile_find:
  "List.find P xs = (case dropWhile (\<lambda>x. \<not> P x) xs of [] \<Rightarrow> None | y # _ \<Rightarrow> Some y)"
  by (induction xs) auto

text \<open>What every step of a loop keeps, the loop keeps.\<close>

lemma fold_keeps:
  "\<forall>x\<in>set xs. \<forall>s. P s \<longrightarrow> P (f x s) \<Longrightarrow> P s \<Longrightarrow> P (fold f xs s)"
  by (induction xs arbitrary: s) auto

text \<open>What every step keeps and one step establishes holds after the loop.\<close>

lemma fold_reaches:
  assumes "x \<in> set xs" "\<forall>s. P (f x s)" "\<forall>y\<in>set xs. \<forall>s. P s \<longrightarrow> P (f y s)"
  shows "P (fold f xs s)"
  using assms
proof (induction xs arbitrary: s)
  case (Cons y ys)
  show ?case
  proof (cases "x = y")
    case True
    then have "P (f y s)" using Cons.prems(2) by simp
    then show ?thesis using Cons.prems(3) by (simp add: fold_keeps)
  next
    case False
    then show ?thesis using Cons by simp
  qed
qed simp

end
