(* ===== verification/Calendar.thy ===== *)
theory Calendar
  imports Prelude "HOL-Library.Monad_Syntax"
begin

text \<open>
  The part of Go's \<open>time\<close> package the portal's forecast code uses. An instant is the number of
  nanoseconds since 1970-01-01T00:00:00Z; \<open>zero_time\<close> is \<open>time.Time{}\<close>. A civil day is the number of
  days since 1970-01-01. The exchange zone (\<open>chinaZone\<close>, Asia/Shanghai) is the fixed offset
  UTC+8 it has had since September 1991; earlier instants are outside the model. Dates travel as
  the strings the code stores (\<open>YYYY-MM-DD\<close>) and instants as RFC3339 strings, so parsing and
  formatting are modelled and their round trips and order properties proved: string order on
  formatted dates is calendar order for the years 0 to 9999.
\<close>

section \<open>Civil dates\<close>

definition is_leap :: "int \<Rightarrow> bool" where
  "is_leap y \<longleftrightarrow> y mod 4 = 0 \<and> (y mod 100 \<noteq> 0 \<or> y mod 400 = 0)"

definition year_start :: "int \<Rightarrow> int" where
  "year_start y = 365 * y + (y + 3) div 4 - (y + 99) div 100 + (y + 399) div 400"

definition year_len :: "int \<Rightarrow> int" where
  "year_len y = (if is_leap y then 366 else 365)"

definition month_start :: "bool \<Rightarrow> int \<Rightarrow> int" where
  "month_start leap m =
     (if m \<le> 1 then 0 else if m = 2 then 31 else
      (if leap then 1 else 0) +
      (if m = 3 then 59 else if m = 4 then 90 else if m = 5 then 120 else if m = 6 then 151
       else if m = 7 then 181 else if m = 8 then 212 else if m = 9 then 243
       else if m = 10 then 273 else if m = 11 then 304 else if m = 12 then 334 else 365))"

definition month_len :: "bool \<Rightarrow> int \<Rightarrow> int" where
  "month_len leap m = month_start leap (m + 1) - month_start leap m"

definition epoch_days :: int where
  "epoch_days = 719528"

text \<open>\<open>time.Date\<close> on a date: months outside 1..12 and days outside the month roll over.\<close>

definition day_number :: "int \<Rightarrow> int \<Rightarrow> int \<Rightarrow> int" where
  "day_number y m d =
     (let y' = y + (m - 1) div 12; m' = (m - 1) mod 12 + 1
      in year_start y' + month_start (is_leap y') m' + (d - 1) - epoch_days)"

lemma ceil_div_step:
  assumes "0 < (k :: int)" and j: "j = k - 1"
  shows "(y + k) div k = (y + j) div k + (if y mod k = 0 then 1 else 0)"
  unfolding j
proof -
  define q r where "q = y div k" and "r = y mod k"
  have y: "y = k * q + r" and r: "0 \<le> r" "r < k" using assms by (simp_all add: q_def r_def)
  have "(y + k) div k = q + 1" using assms by (simp add: q_def div_add_self2)
  moreover have "(y + (k - 1)) div k = (if r = 0 then q else q + 1)"
  proof (cases "r = 0")
    case True
    then show ?thesis using y assms by (simp add: int_div_pos_eq [of _ k q "k - 1"])
  next
    case False
    then show ?thesis using y r assms
      by (simp add: int_div_pos_eq [of _ k "q + 1" "r - 1"] algebra_simps)
  qed
  ultimately show "(y + k) div k = (y + (k - 1)) div k + (if y mod k = 0 then 1 else 0)"
    by (simp add: r_def)
qed

lemma leap_sum:
  "(Q \<Longrightarrow> P) \<Longrightarrow> (R \<Longrightarrow> Q) \<Longrightarrow>
   365 * y + 365 + (A + (if P then 1 else 0)) - (B + (if Q then 1 else 0))
     + (C + (if R then 1 else 0)) =
   365 * y + A - B + C + (if P \<and> (\<not> Q \<or> R) then 366 else (365 :: int))"
  by (cases P; cases Q; cases R) simp_all

lemma mod_zero_dvd: "k dvd m \<Longrightarrow> y mod m = 0 \<Longrightarrow> y mod k = (0 :: int)"
  by (meson dvd_imp_mod_0 dvd_trans mod_0_imp_dvd)

lemma year_start_Suc: "year_start (y + 1) = year_start y + year_len y"
proof -
  have step: "(y + 4) div 4 = (y + 3) div 4 + (if y mod 4 = 0 then 1 else 0)"
    "(y + 100) div 100 = (y + 99) div 100 + (if y mod 100 = 0 then 1 else 0)"
    "(y + 400) div 400 = (y + 399) div 400 + (if y mod 400 = 0 then 1 else 0)"
    by (rule ceil_div_step; simp)+
  have i: "y mod 100 = 0 \<Longrightarrow> y mod 4 = 0" "y mod 400 = 0 \<Longrightarrow> y mod 100 = 0"
    by (rule mod_zero_dvd [rotated], assumption, simp)+
  define A B C where "A = (y + 3) div 4" and "B = (y + 99) div 100" and "C = (y + 399) div 400"
  have 1: "year_start y = 365 * y + A - B + C" by (simp add: year_start_def A_def B_def C_def)
  have "year_start (y + 1) = 365 * (y + 1) + (y + 4) div 4 - (y + 100) div 100 + (y + 400) div 400"
    by (simp only: year_start_def add.assoc) simp
  also have "\<dots> = 365 * y + 365 + (A + (if y mod 4 = 0 then 1 else 0))
      - (B + (if y mod 100 = 0 then 1 else 0)) + (C + (if y mod 400 = 0 then 1 else 0))"
    unfolding step A_def B_def C_def by (simp only: distrib_left mult_1_right)
  finally show ?thesis
    unfolding 1 year_len_def is_leap_def by (simp only: leap_sum [OF i])
qed

lemma year_len_bounds: "365 \<le> year_len y" "year_len y \<le> 366"
  by (auto simp: year_len_def)

lemma year_start_mono_nat: "year_start y + 365 * int k \<le> year_start (y + int k)"
proof (induction k)
  case 0
  then show ?case by simp
next
  case (Suc k)
  have "year_start (y + int (Suc k)) = year_start (y + int k) + year_len (y + int k)"
    using year_start_Suc [of "y + int k"] by (simp add: algebra_simps)
  then show ?case using Suc year_len_bounds [of "y + int k"] by simp
qed

lemma year_start_less: "y < z \<Longrightarrow> year_start y + year_len y \<le> year_start z"
  using year_start_mono_nat [of "y + 1" "nat (z - (y + 1))"] year_start_Suc [of y] by simp

lemma year_start_le_366: "0 \<le> y \<Longrightarrow> year_start y \<le> 366 * y"
proof -
  have "year_start (int k) \<le> 366 * int k" for k
  proof (induction k)
    case 0
    then show ?case by (simp add: year_start_def)
  next
    case (Suc k)
    then show ?case
      using year_start_Suc [of "int k"] year_len_bounds [of "int k"] by (simp add: algebra_simps)
  qed
  from this [of "nat y"] show "0 \<le> y \<Longrightarrow> year_start y \<le> 366 * y" by simp
qed

lemma year_start_period: "year_start (y + 400 * c) = year_start y + 146097 * c"
proof -
  have d: "(y + 400 * c + 3) div 4 = (y + 3) div 4 + 100 * c"
    "(y + 400 * c + 99) div 100 = (y + 99) div 100 + 4 * c"
    "(y + 400 * c + 399) div 400 = (y + 399) div 400 + c"
    using div_mult_self1 [of 4 "y + 3" "100 * c"] div_mult_self1 [of 100 "y + 99" "4 * c"]
      div_mult_self1 [of 400 "y + 399" c] by (simp_all add: ac_simps)
  define A B C where "A = (y + 3) div 4" and "B = (y + 99) div 100" and "C = (y + 399) div 400"
  show ?thesis
    unfolding year_start_def d A_def [symmetric] B_def [symmetric] C_def [symmetric] by simp
qed

text \<open>Reading a day number back: a 400-year cycle, then a scan over at most a few years.\<close>

function year_scan :: "int \<Rightarrow> int \<Rightarrow> int" where
  "year_scan r y = (if year_start (y + 1) \<le> r then year_scan r (y + 1) else y)"
  by pat_completeness auto
termination
proof (relation "measure (\<lambda>(r, y). nat (r - year_start y))")
  fix r y
  assume "year_start (y + 1) \<le> r"
  then show "((r, y + 1), (r, y)) \<in> measure (\<lambda>(r, y). nat (r - year_start y))"
    using year_start_Suc [of y] year_len_bounds [of y] by simp
qed simp

declare year_scan.simps [simp del]

definition civil_year :: "int \<Rightarrow> int" where
  "civil_year n = (let z = n + epoch_days; c = z div 146097; r = z mod 146097
                   in 400 * c + year_scan r (r div 366))"

lemma year_scan_bounds:
  "year_start y \<le> r \<Longrightarrow> year_start (year_scan r y) \<le> r \<and> r < year_start (year_scan r y + 1)"
  by (induction r y rule: year_scan.induct)
    (subst (1 2) year_scan.simps, simp)

lemma civil_year_bounds:
  "year_start (civil_year n) \<le> n + epoch_days \<and> n + epoch_days < year_start (civil_year n + 1)"
proof -
  define z c r where "z = n + epoch_days" and "c = z div 146097" and "r = z mod 146097"
  have z: "z = 146097 * c + r" by (simp add: c_def r_def)
  have r: "0 \<le> r" by (simp add: r_def)
  have "year_start (r div 366) \<le> 366 * (r div 366)"
    using r by (intro year_start_le_366) (simp add: pos_imp_zdiv_nonneg_iff)
  also have "\<dots> \<le> r" by simp
  finally have *: "year_start (year_scan r (r div 366)) \<le> r \<and> r < year_start (year_scan r (r div 366) + 1)"
    by (rule year_scan_bounds)
  have "civil_year n = year_scan r (r div 366) + 400 * c"
    by (simp add: civil_year_def Let_def z_def c_def r_def)
  then show ?thesis
    using * z year_start_period [of "year_scan r (r div 366)" c]
      year_start_period [of "year_scan r (r div 366) + 1" c]
    by (simp add: z_def algebra_simps)
qed

lemma civil_year_unique:
  assumes "year_start y \<le> n + epoch_days" "n + epoch_days < year_start y + year_len y"
  shows "civil_year n = y"
proof (rule ccontr)
  assume "civil_year n \<noteq> y"
  then consider "civil_year n < y" | "y < civil_year n" by linarith
  then show False
    using civil_year_bounds [of n] year_start_less [of "civil_year n" y]
      year_start_less [of y "civil_year n"] year_start_Suc [of "civil_year n"] assms
    by cases auto
qed

definition year_day :: "int \<Rightarrow> int" where
  "year_day n = n + epoch_days - year_start (civil_year n)"

lemma year_day_bounds: "0 \<le> year_day n" "year_day n < year_len (civil_year n)"
  using civil_year_bounds [of n] year_start_Suc [of "civil_year n"] by (auto simp: year_day_def)

fun month_scan :: "bool \<Rightarrow> int \<Rightarrow> int list \<Rightarrow> int" where
  "month_scan leap d [] = 12"
| "month_scan leap d (m # ms) = (if d < month_start leap (m + 1) then m else month_scan leap d ms)"

definition civil_month :: "int \<Rightarrow> int" where
  "civil_month n = month_scan (is_leap (civil_year n)) (year_day n) [1, 2, 3, 4, 5, 6, 7, 8, 9, 10, 11]"

definition civil_day :: "int \<Rightarrow> int" where
  "civil_day n = year_day n - month_start (is_leap (civil_year n)) (civil_month n) + 1"

text \<open>\<open>Weekday\<close>: 0 is Sunday, 6 is Saturday.\<close>

definition weekday :: "int \<Rightarrow> int" where
  "weekday n = (n + 4) mod 7"

definition is_weekend :: "int \<Rightarrow> bool" where
  "is_weekend n \<longleftrightarrow> weekday n = 0 \<or> weekday n = 6"

definition add_date :: "int \<Rightarrow> int \<Rightarrow> int \<Rightarrow> int \<Rightarrow> int" where
  "add_date n y m d = day_number (civil_year n + y) (civil_month n + m) (civil_day n + d)"

definition valid_civil :: "int \<Rightarrow> int \<Rightarrow> int \<Rightarrow> bool" where
  "valid_civil y m d \<longleftrightarrow> 1 \<le> m \<and> m \<le> 12 \<and> 1 \<le> d \<and> d \<le> month_len (is_leap y) m"

lemma months_cases:
  assumes "1 \<le> m" "m \<le> (12 :: int)"
  shows "m \<in> {1, 2, 3, 4, 5, 6, 7, 8, 9, 10, 11, 12}"
proof -
  have "m \<in> set [1 .. 12]" using assms by simp
  also have "[1 .. 12 :: int] = [1, 2, 3, 4, 5, 6, 7, 8, 9, 10, 11, 12]" by (simp add: upto.simps)
  finally show ?thesis by simp
qed

lemma month_start_step:
  assumes "1 \<le> m" "m \<le> 12"
  shows "month_start leap m < month_start leap (m + 1)"
  using months_cases [OF assms] by (auto simp: month_start_def)

lemma month_start_mono:
  assumes "1 \<le> a" "a \<le> b" "b \<le> 13"
  shows "month_start leap a \<le> month_start leap b"
  using assms(2,3)
proof (induction b rule: int_ge_induct)
  case base
  then show ?case by simp
next
  case (step b)
  then show ?case using month_start_step [of b leap] assms(1) by simp
qed

lemma month_scan_upto:
  "1 \<le> k \<Longrightarrow> k \<le> 12 \<Longrightarrow> month_start leap k \<le> d \<Longrightarrow> d < month_start leap 13 \<Longrightarrow>
   m = month_scan leap d [k..11] \<Longrightarrow>
   k \<le> m \<and> m \<le> 12 \<and> month_start leap m \<le> d \<and> d < month_start leap (m + 1)"
proof (induction "nat (12 - k)" arbitrary: k)
  case 0
  then have "k = 12" by simp
  then show ?case using 0 by simp
next
  case (Suc j)
  then have "k \<le> 11" by linarith
  then have l: "[k..11] = k # [k + 1..11]" by (rule upto_rec1)
  show ?case
  proof (cases "d < month_start leap (k + 1)")
    case True
    then show ?thesis using Suc.prems l \<open>k \<le> 11\<close> by simp
  next
    case False
    have "k + 1 \<le> m \<and> m \<le> 12 \<and> month_start leap m \<le> d \<and> d < month_start leap (m + 1)"
      by (rule Suc.hyps(1)) (use Suc.prems Suc.hyps(2) False l \<open>k \<le> 11\<close> in simp_all)
    then show ?thesis by simp
  qed
qed

lemma month_list: "[1, 2, 3, 4, 5, 6, 7, 8, 9, 10, 11 :: int] = [1 .. 11]"
  by (simp add: upto.simps)

lemma month_start_ends [simp]: "month_start leap 1 = 0"
  "month_start leap 13 = (if leap then 366 else 365)"
  by (simp_all add: month_start_def)

lemma month_scan_bounds:
  assumes "0 \<le> d" "d < (if leap then 366 else 365)"
    and m: "m = month_scan leap d [1, 2, 3, 4, 5, 6, 7, 8, 9, 10, 11]"
  shows "1 \<le> m \<and> m \<le> 12 \<and> month_start leap m \<le> d \<and> d < month_start leap (m + 1)"
  using assms unfolding month_list by (intro month_scan_upto) auto

lemma month_scan_unique:
  assumes "1 \<le> m" "m \<le> 12" "month_start leap m \<le> d" "d < month_start leap (m + 1)"
  shows "month_scan leap d [1, 2, 3, 4, 5, 6, 7, 8, 9, 10, 11] = m"
proof -
  define k where "k = month_scan leap d [1, 2, 3, 4, 5, 6, 7, 8, 9, 10, 11]"
  have "0 \<le> d" using month_start_mono [of 1 m leap] assms by simp
  moreover have "month_start leap (m + 1) \<le> month_start leap 13"
    using assms by (intro month_start_mono) auto
  then have "d < (if leap then 366 else 365)" using assms by simp
  ultimately have k: "1 \<le> k \<and> k \<le> 12 \<and> month_start leap k \<le> d \<and> d < month_start leap (k + 1)"
    using k_def by (rule month_scan_bounds)
  show ?thesis
  proof (rule ccontr)
    assume "month_scan leap d [1, 2, 3, 4, 5, 6, 7, 8, 9, 10, 11] \<noteq> m"
    then consider "k + 1 \<le> m" | "m + 1 \<le> k" unfolding k_def by linarith
    then show False
      using k assms month_start_mono [of "k + 1" m leap] month_start_mono [of "m + 1" k leap]
      by cases auto
  qed
qed

lemma civil_month_bounds:
  "1 \<le> civil_month n \<and> civil_month n \<le> 12 \<and>
   month_start (is_leap (civil_year n)) (civil_month n) \<le> year_day n \<and>
   year_day n < month_start (is_leap (civil_year n)) (civil_month n + 1)"
  using year_day_bounds [of n] month_scan_bounds [of "year_day n" "is_leap (civil_year n)"]
  by (simp add: civil_month_def year_len_def)

lemma valid_civil_of: "valid_civil (civil_year n) (civil_month n) (civil_day n)"
  using civil_month_bounds [of n] by (simp add: valid_civil_def month_len_def civil_day_def)

lemma month_norm [simp]: "1 \<le> m \<Longrightarrow> m \<le> 12 \<Longrightarrow> (m - 1) div 12 = (0 :: int)"
  "1 \<le> m \<Longrightarrow> m \<le> 12 \<Longrightarrow> (m - 1) mod 12 = m - (1 :: int)"
  by simp_all

lemma day_number_normal:
  "1 \<le> m \<Longrightarrow> m \<le> 12 \<Longrightarrow>
   day_number y m d = year_start y + month_start (is_leap y) m + (d - 1) - epoch_days"
  unfolding day_number_def Let_def month_norm by simp

lemma day_number_civil [simp]: "day_number (civil_year n) (civil_month n) (civil_day n) = n"
  using civil_month_bounds [of n]
  by (simp add: day_number_normal civil_day_def year_day_def)

lemma month_start_bounds:
  assumes "1 \<le> m" "m \<le> 12"
  shows "0 \<le> month_start leap m" "month_start leap (m + 1) \<le> (if leap then 366 else 365)"
  using months_cases [OF assms] by (auto simp: month_start_def)

lemma civil_of_day_number:
  assumes "valid_civil y m d"
  shows "civil_year (day_number y m d) = y" "civil_month (day_number y m d) = m"
    "civil_day (day_number y m d) = d"
proof -
  have m: "1 \<le> m" "m \<le> 12" and d: "1 \<le> d" "d \<le> month_len (is_leap y) m"
    using assms by (auto simp: valid_civil_def)
  have n: "day_number y m d + epoch_days = year_start y + (month_start (is_leap y) m + (d - 1))"
    using m by (simp add: day_number_normal)
  have b: "0 \<le> month_start (is_leap y) m + (d - 1)"
    "month_start (is_leap y) m + (d - 1) < year_len y"
    using month_start_bounds [OF m, of "is_leap y"] d by (auto simp: month_len_def year_len_def)
  show y: "civil_year (day_number y m d) = y"
    using n b by (intro civil_year_unique) auto
  have yd: "year_day (day_number y m d) = month_start (is_leap y) m + (d - 1)"
    using n y by (simp add: year_day_def)
  show mm: "civil_month (day_number y m d) = m"
    unfolding civil_month_def y yd
    using m d by (intro month_scan_unique) (auto simp: month_len_def)
  show "civil_day (day_number y m d) = d"
    unfolding civil_day_def y mm yd by simp
qed

section \<open>Dates as strings\<close>

definition year_string :: "int \<Rightarrow> string" where
  "year_string y = (if 0 \<le> y \<and> y < 10000 then pad 4 y else itoa y)"

definition format_date :: "int \<Rightarrow> string" where
  "format_date n = year_string (civil_year n) @ ''-'' @ pad 2 (civil_month n) @ ''-'' @ pad 2 (civil_day n)"

definition date_of :: "string \<Rightarrow> string \<Rightarrow> string \<Rightarrow> int option" where
  "date_of ys ms ds =
     (let y = digits_val ys 0; m = digits_val ms 0; d = digits_val ds 0
      in if all_digits ys \<and> all_digits ms \<and> all_digits ds \<and> valid_civil y m d
         then Some (day_number y m d) else None)"

definition parse_date :: "string \<Rightarrow> int option" where
  "parse_date s = (case s of
     [y1, y2, y3, y4, s1, m1, m2, s2, d1, d2] \<Rightarrow>
       (if s1 = CHR ''-'' \<and> s2 = CHR ''-'' then date_of [y1, y2, y3, y4] [m1, m2] [d1, d2] else None)
   | _ \<Rightarrow> None)"

definition in_years :: "int \<Rightarrow> bool" where
  "in_years n \<longleftrightarrow> 0 \<le> civil_year n \<and> civil_year n < 10000"

lemma civil_pad_bounds:
  "0 \<le> civil_month n" "civil_month n < 10 ^ 2" "0 \<le> civil_day n" "civil_day n < 10 ^ 2"
proof -
  have "valid_civil (civil_year n) (civil_month n) (civil_day n)" by (rule valid_civil_of)
  then have m: "1 \<le> civil_month n" "civil_month n \<le> 12" and d: "1 \<le> civil_day n"
    "civil_day n \<le> month_len (is_leap (civil_year n)) (civil_month n)"
    by (auto simp: valid_civil_def)
  have "month_len l (civil_month n) \<le> 31" for l
    using months_cases [OF m] by (auto simp: month_len_def month_start_def)
  from this [of "is_leap (civil_year n)"] show "0 \<le> civil_month n" "civil_month n < 10 ^ 2"
    "0 \<le> civil_day n" "civil_day n < 10 ^ 2"
    using m d by simp_all
qed

lemma length_two: "length s = Suc (Suc 0) \<Longrightarrow> \<exists>a b. s = [a, b]"
  by (cases s; cases "tl s") auto

lemma length_four: "length s = 4 \<Longrightarrow> \<exists>a b c d. s = [a, b, c, d]"
  by (auto simp: eval_nat_numeral length_Suc_conv)

lemma parse_date_parts:
  "length ys = 4 \<Longrightarrow> length ms = 2 \<Longrightarrow> length ds = 2 \<Longrightarrow>
   parse_date (ys @ ''-'' @ ms @ ''-'' @ ds) = date_of ys ms ds"
  by (auto simp: parse_date_def numeral_2_eq_2 dest!: length_two length_four)

lemma parse_format_date [simp]: "in_years n \<Longrightarrow> parse_date (format_date n) = Some n"
proof -
  assume y: "in_years n"
  have "parse_date (format_date n) =
        date_of (pad 4 (civil_year n)) (pad 2 (civil_month n)) (pad 2 (civil_day n))"
    using y unfolding format_date_def year_string_def
    by (simp add: in_years_def parse_date_parts del: pad.simps append.simps)
  also have "\<dots> = Some n"
    using y civil_pad_bounds [of n] valid_civil_of [of n]
    by (simp add: date_of_def digits_val_pad in_years_def del: pad.simps)
  finally show ?thesis .
qed

lemma civil_year_mono: "n \<le> m \<Longrightarrow> civil_year n \<le> civil_year m"
  using civil_year_bounds [of n] civil_year_bounds [of m] year_start_Suc [of "civil_year m"]
    year_start_less [of "civil_year m" "civil_year n"]
  by (cases "civil_year m < civil_year n") auto

lemma civil_month_mono:
  assumes "n \<le> m" "civil_year n = civil_year m"
  shows "civil_month n \<le> civil_month m"
proof (rule ccontr)
  assume "\<not> civil_month n \<le> civil_month m"
  then have "month_start (is_leap (civil_year n)) (civil_month m + 1)
             \<le> month_start (is_leap (civil_year n)) (civil_month n)"
    using civil_month_bounds [of n] civil_month_bounds [of m] by (intro month_start_mono) auto
  moreover have "year_day n \<le> year_day m" using assms by (simp add: year_day_def)
  ultimately show False
    using civil_month_bounds [of n] civil_month_bounds [of m] assms(2) by simp
qed

lemma length_format_date [simp]: "in_years n \<Longrightarrow> length (format_date n) = 10"
  by (simp add: format_date_def year_string_def in_years_def)

lemma format_date_mono:
  assumes "in_years n" "in_years m" "n < m"
  shows "format_date n < format_date m"
proof -
  have y: "civil_year n < civil_year m \<or> civil_year n = civil_year m"
    using civil_year_mono [of n m] assms(3) by auto
  have m: "civil_month n < civil_month m \<or> civil_month n = civil_month m"
    if "civil_year n = civil_year m"
    using civil_month_mono [of n m] assms(3) that by auto
  have d: "civil_day n < civil_day m"
    if "civil_year n = civil_year m" "civil_month n = civil_month m"
    using that assms(3) by (simp add: civil_day_def year_day_def)
  have b: "0 \<le> civil_year n" "civil_year n < 10 ^ 4" "0 \<le> civil_year m" "civil_year m < 10 ^ 4"
    using assms by (simp_all add: in_years_def)
  show ?thesis
    using y m d b civil_pad_bounds [of n] civil_pad_bounds [of m]
    unfolding format_date_def year_string_def
    by (auto simp: append_less_append pad_less simp del: pad.simps)
qed

lemma format_date_less:
  "in_years n \<Longrightarrow> in_years m \<Longrightarrow> (format_date n < format_date m) = (n < m)"
  using format_date_mono [of n m] format_date_mono [of m n]
  by (metis less_imp_not_less linorder_neqE not_less_iff_gr_or_eq)

lemma format_date_le:
  "in_years n \<Longrightarrow> in_years m \<Longrightarrow> (format_date n \<le> format_date m) = (n \<le> m)"
  using format_date_less [of m n] by (metis not_less)

lemma format_date_eq:
  "in_years n \<Longrightarrow> in_years m \<Longrightarrow> (format_date n = format_date m) = (n = m)"
  by (metis option.inject parse_format_date)

section \<open>Instants\<close>

definition second :: int where
  "second = 1000000000"

definition minutes :: "int \<Rightarrow> int" where
  "minutes k = k * 60 * second"

definition hours :: "int \<Rightarrow> int" where
  "hours k = k * 3600 * second"

definition zero_time :: instant where
  "zero_time = -62135596800 * second"

definition unix_secs :: "instant \<Rightarrow> int" where
  "unix_secs t = t div second"

definition utc_day :: "instant \<Rightarrow> int" where
  "utc_day t = unix_secs t div 86400"

definition utc_at :: "int \<Rightarrow> int \<Rightarrow> instant" where
  "utc_at day secs = (day * 86400 + secs) * second"

definition china_secs :: "instant \<Rightarrow> int" where
  "china_secs t = unix_secs t + 28800"

definition china_day :: "instant \<Rightarrow> int" where
  "china_day t = china_secs t div 86400"

definition china_minute :: "instant \<Rightarrow> int" where
  "china_minute t = china_secs t mod 86400 div 60"

definition china_date :: "instant \<Rightarrow> string" where
  "china_date t = format_date (china_day t)"

text \<open>\<open>time.Date(y, m, d, 0, minute, 0, 0, chinaZone)\<close>.\<close>

definition china_at :: "int \<Rightarrow> int \<Rightarrow> instant" where
  "china_at day minute = (day * 86400 + minute * 60 - 28800) * second"

lemma second_pos [simp]: "0 < second" "second \<noteq> 0"
  by (simp_all add: second_def)

lemma le_div_second: "(k \<le> t div second) = (k * second \<le> t)"
  by (rule int_le_div_iff) simp

lemma china_at_le: "(china_at day minute \<le> t) = (day * 86400 + minute * 60 \<le> china_secs t)"
  unfolding china_at_def china_secs_def unix_secs_def
  by (metis (no_types, opaque_lifting) add.commute diff_le_eq le_div_second)

lemma china_day_at: "0 \<le> m \<Longrightarrow> m < 1440 \<Longrightarrow> china_day (china_at day m) = day"
proof -
  assume m: "0 \<le> m" "m < 1440"
  have "china_secs (china_at day m) = day * 86400 + m * 60"
    by (simp add: china_secs_def unix_secs_def china_at_def)
  then show ?thesis using m by (simp add: china_day_def)
qed

text \<open>An instant is before a close on its own civil day exactly when its minute is before it.\<close>

lemma before_own_minute:
  assumes "0 \<le> m" "m \<le> 1440"
  shows "(t < china_at (china_day t) m) = (china_minute t < m)"
proof -
  define s where "s = china_secs t"
  have s: "s = s div 86400 * 86400 + s mod 86400" by simp
  have "(t < china_at (china_day t) m) = (\<not> china_at (china_day t) m \<le> t)" by auto
  also have "\<dots> = (s mod 86400 < m * 60)"
    unfolding china_at_le china_day_def s_def [symmetric] using s by linarith
  also have "\<dots> = (s mod 86400 div 60 < m)"
    using int_div_less_iff [of 60 "s mod 86400" m] by simp
  finally show ?thesis by (simp add: china_minute_def s_def)
qed

lemma china_at_less_iff:
  "(china_at d m < china_at d' m') = (d * 86400 + m * 60 < d' * 86400 + m' * 60)"
  by (simp add: china_at_def)

lemma china_at_mono: "d \<le> d' \<Longrightarrow> china_at d m \<le> china_at d' m"
  by (simp add: china_at_def)

lemma china_day_le: "china_at (china_day t) 0 \<le> t"
proof -
  define s where "s = china_secs t"
  have "s div 86400 * 86400 \<le> s" using div_mult_mod_eq [of s 86400] by simp
  then show ?thesis unfolding china_at_le china_day_def s_def [symmetric] by simp
qed

lemma china_day_gt: "t < china_at (china_day t + 1) 0"
  using before_own_minute [of 1440 t] int_div_less_iff [of 60 "china_secs t mod 86400" 1440]
  by (simp add: china_minute_def china_at_def algebra_simps)

text \<open>An instant lies before minute \<open>m\<close> of day \<open>n\<close> if its civil day is earlier, or its own minute is.\<close>

lemma before_minute:
  assumes "0 \<le> m" "m \<le> 1440"
  shows "(t < china_at n m) = (china_day t < n \<or> china_day t = n \<and> china_minute t < m)"
proof -
  consider "china_day t < n" | "china_day t = n" | "n < china_day t" by linarith
  then show ?thesis
  proof cases
    case 1
    then have "china_at (china_day t + 1) 0 \<le> china_at n m"
      using assms by (simp add: china_at_def)
    with china_day_gt [of t] 1 show ?thesis by simp
  next
    case 2
    then show ?thesis using before_own_minute [OF assms, of t] by simp
  next
    case 3
    then have "china_at n m \<le> china_at (china_day t) 0"
      using assms by (simp add: china_at_def)
    with china_day_le [of t] 3 show ?thesis by simp
  qed
qed

lemma in_years_between: "in_years a \<Longrightarrow> in_years b \<Longrightarrow> a \<le> c \<Longrightarrow> c \<le> b \<Longrightarrow> in_years c"
  using civil_year_mono [of a c] civil_year_mono [of c b] by (simp add: in_years_def)

lemma format_date_nonempty [simp]: "format_date n \<noteq> []"
  by (simp add: format_date_def)

section \<open>RFC3339 instants\<close>

text \<open>
  \<open>time.Parse(time.RFC3339, s)\<close>: the hour may have one digit, a fraction of the second is accepted
  although the layout has none, the offset may be \<open>Z\<close> or a signed \<open>hh:mm\<close> with the package's own
  range test (hours up to 24, minutes up to 60), and nothing may follow it.
\<close>

definition lit :: "char \<Rightarrow> string \<Rightarrow> string option" where
  "lit c s = (case s of [] \<Rightarrow> None | d # r \<Rightarrow> (if d = c then Some r else None))"

definition num2 :: "string \<Rightarrow> (int \<times> string) option" where
  "num2 s = (case s of a # b # r \<Rightarrow>
      (if is_digit a \<and> is_digit b then Some (10 * digit_val a + digit_val b, r) else None)
    | _ \<Rightarrow> None)"

definition num12 :: "string \<Rightarrow> (int \<times> string) option" where
  "num12 s = (case s of [] \<Rightarrow> None | a # r \<Rightarrow>
      (if \<not> is_digit a then None
       else (case r of [] \<Rightarrow> Some (digit_val a, [])
             | b # r' \<Rightarrow> (if is_digit b then Some (10 * digit_val a + digit_val b, r')
                         else Some (digit_val a, b # r')))))"

definition frac_part :: "string \<Rightarrow> int \<times> string" where
  "frac_part s = (case s of p # d # r \<Rightarrow>
      (if (p = CHR ''.'' \<or> p = CHR '','') \<and> is_digit d
       then (let ds = take 9 (takeWhile is_digit (d # r))
             in (digits_val ds 0 * 10 ^ (9 - length ds), dropWhile is_digit (d # r)))
       else (0, s))
    | _ \<Rightarrow> (0, s))"

definition zone_part :: "string \<Rightarrow> (int \<times> string) option" where
  "zone_part s = (case s of [] \<Rightarrow> None | c # r \<Rightarrow>
      (if c = CHR ''Z'' then Some (0, r)
       else if c = CHR ''+'' \<or> c = CHR ''-'' then do {
         (h, r1) \<leftarrow> num2 r;
         r2 \<leftarrow> lit CHR '':'' r1;
         (m, r3) \<leftarrow> num2 r2;
         if h \<le> 24 \<and> m \<le> 60
           then Some ((if c = CHR ''-'' then -1 else 1) * (h * 3600 + m * 60), r3) else None }
       else None))"

definition parse_rfc3339 :: "string \<Rightarrow> instant option" where
  "parse_rfc3339 s = do {
     day \<leftarrow> parse_date (take 10 s);
     r1 \<leftarrow> lit CHR ''T'' (drop 10 s);
     (h, r2) \<leftarrow> num12 r1;
     r3 \<leftarrow> lit CHR '':'' r2;
     (mi, r4) \<leftarrow> num2 r3;
     r5 \<leftarrow> lit CHR '':'' r4;
     (se, r6) \<leftarrow> num2 r5;
     (ns, r7) \<leftarrow> Some (frac_part r6);
     (off, r8) \<leftarrow> zone_part r7;
     if h < 24 \<and> mi < 60 \<and> se < 60 \<and> r8 = []
       then Some (utc_at day (h * 3600 + mi * 60 + se - off) + ns) else None }"

definition clock_string :: "int \<Rightarrow> string" where
  "clock_string secs = pad 2 (secs div 3600) @ '':'' @ pad 2 (secs mod 3600 div 60)
     @ '':'' @ pad 2 (secs mod 60)"

text \<open>\<open>t.UTC().Format(time.RFC3339)\<close>: whole seconds.\<close>

definition format_rfc3339 :: "instant \<Rightarrow> string" where
  "format_rfc3339 t = format_date (utc_day t) @ ''T'' @ clock_string (unix_secs t mod 86400) @ ''Z''"

lemma pad2: "pad 2 n = [digit_char (n div 10 mod 10), digit_char (n mod 10)]"
  by (simp add: numeral_2_eq_2)

lemma num_pad [simp]:
  assumes "0 \<le> n" "n < 100"
  shows "num2 (pad 2 n @ r) = Some (n, r)" "num12 (pad 2 n @ r) = Some (n, r)"
proof -
  have d: "0 \<le> n div 10 mod 10" "n div 10 mod 10 \<le> 9" "0 \<le> n mod 10" "n mod 10 \<le> 9"
    using digit_mod_bounds by auto
  have "n div 10 < 10" "0 \<le> n div 10" using assms by simp_all
  then have "n div 10 mod 10 = n div 10" by simp
  then show "num2 (pad 2 n @ r) = Some (n, r)" "num12 (pad 2 n @ r) = Some (n, r)"
    using d unfolding pad2 by (simp_all add: num2_def num12_def)
qed

lemma clock_bounds:
  assumes "0 \<le> s" "s < (86400 :: int)"
  shows "0 \<le> s div 3600" "s div 3600 < 24" "0 \<le> s mod 3600 div 60" "s mod 3600 div 60 < 60"
    "0 \<le> s mod 60" "s mod 60 < 60"
    "s div 3600 * 3600 + s mod 3600 div 60 * 60 + s mod 60 = s"
proof -
  show "s div 3600 < 24" using assms int_div_less_iff [of 3600 s 24] by simp
  have "s mod 3600 < 3600" by simp
  then show "s mod 3600 div 60 < 60" using int_div_less_iff [of 60 "s mod 3600" 60] by simp
  have m: "s mod 60 = s mod 3600 mod 60" by (rule mod_mod_cancel [symmetric]) simp
  show "s div 3600 * 3600 + s mod 3600 div 60 * 60 + s mod 60 = s"
    unfolding m add.assoc div_mult_mod_eq ..
qed (use assms in \<open>simp_all add: pos_imp_zdiv_nonneg_iff\<close>)

lemma parse_rfc3339_parts:
  assumes "in_years n" "0 \<le> h" "h < 24" "0 \<le> mi" "mi < 60" "0 \<le> se" "se < 60"
  shows "parse_rfc3339 (format_date n @ ''T'' @ pad 2 h @ '':'' @ pad 2 mi @ '':'' @ pad 2 se @ ''Z'')
         = Some (utc_at n (h * 3600 + mi * 60 + se))"
proof -
  have t: "take 10 (format_date n @ r) = format_date n" "drop 10 (format_date n @ r) = r" for r
    using assms(1) by simp_all
  have l: "lit c (c # r) = Some r" for c r by (simp add: lit_def)
  have "frac_part ''Z'' = (0, ''Z'')" by (simp add: frac_part_def)
  moreover have "zone_part ''Z'' = Some (0, [])" by (simp add: zone_part_def)
  moreover have "num2 (pad 2 x @ r) = Some (x, r)" "num12 (pad 2 x @ r) = Some (x, r)"
    if "0 \<le> x" "x < 60" for x r using that by simp_all
  ultimately show ?thesis
    unfolding parse_rfc3339_def t append_Cons append_Nil
    using assms by (simp add: l del: pad.simps)
qed

lemma secs_split: "unix_secs t div 86400 * 86400 + unix_secs t mod 86400 = unix_secs t"
  by simp

theorem parse_format_rfc3339:
  assumes "in_years (utc_day t)"
  shows "parse_rfc3339 (format_rfc3339 t) = Some (unix_secs t * second)"
proof -
  define s where "s = unix_secs t mod 86400"
  have s: "0 \<le> s" "s < 86400" by (simp_all add: s_def)
  have "parse_rfc3339 (format_rfc3339 t) = Some (utc_at (utc_day t) s)"
    using parse_rfc3339_parts [OF assms clock_bounds(1-6) [OF s]] clock_bounds(7) [OF s]
    unfolding format_rfc3339_def clock_string_def s_def [symmetric]
    by (simp only: append_assoc)
  then show ?thesis using secs_split [of t] by (simp add: utc_at_def utc_day_def s_def)
qed

lemma hms_less:
  fixes h m s h' m' s' :: int
  assumes "0 \<le> m" "m < 60" "0 \<le> s" "s < 60" "0 \<le> m'" "m' < 60" "0 \<le> s'" "s' < 60"
  shows "(h < h' \<or> h = h' \<and> (m < m' \<or> m = m' \<and> s < s')) =
         (h * 3600 + m * 60 + s < h' * 3600 + m' * 60 + s')"
  using assms by linarith

lemma clock_string_less:
  assumes "0 \<le> a" "a < 86400" "0 \<le> b" "b < 86400"
  shows "(clock_string a < clock_string b) = (a < b)"
proof -
  note A = clock_bounds [OF assms(1,2)] and B = clock_bounds [OF assms(3,4)]
  have pads: "(pad 2 x < pad 2 y) = (x < y)" "(pad 2 x = pad 2 y) = (x = y)"
    if "0 \<le> x" "x < 60" "0 \<le> y" "y < 60" for x y
    using that by (simp_all add: pad_less pad_eq del: pad.simps)
  have h: "x < 24 \<Longrightarrow> x < (60 :: int)" for x by simp
  have "(clock_string a < clock_string b) =
        (a div 3600 < b div 3600 \<or> a div 3600 = b div 3600 \<and>
          (a mod 3600 div 60 < b mod 3600 div 60 \<or> a mod 3600 div 60 = b mod 3600 div 60 \<and>
            a mod 60 < b mod 60))"
    unfolding clock_string_def
    by (simp only: append_less_append length_pad length_append list.size append_Cons append_Nil
        pads A(1,3,4,5,6) B(1,3,4,5,6) h [OF A(2)] h [OF B(2)] Cons_less_Cons less_irrefl simp_thms)
  also have "\<dots> = (a < b)"
    using hms_less [OF A(3-6) B(3-6), of "a div 3600" "b div 3600"] unfolding A(7) B(7) .
  finally show ?thesis .
qed

lemma length_clock_string [simp]: "length (clock_string s) = 8"
  by (simp add: clock_string_def)

text \<open>Stored RFC3339 strings order as the instants they were written from, to the second.\<close>

theorem format_rfc3339_less:
  assumes "in_years (utc_day t)" "in_years (utc_day u)"
  shows "(format_rfc3339 t < format_rfc3339 u) = (unix_secs t < unix_secs u)"
proof -
  define a b where "a = unix_secs t mod 86400" and "b = unix_secs u mod 86400"
  have ab: "0 \<le> a" "a < 86400" "0 \<le> b" "b < 86400" by (simp_all add: a_def b_def)
  have "(format_rfc3339 t < format_rfc3339 u) =
        (utc_day t < utc_day u \<or> utc_day t = utc_day u \<and> a < b)"
    using assms ab unfolding format_rfc3339_def a_def [symmetric] b_def [symmetric]
    by (simp add: append_less_append format_date_less format_date_eq clock_string_less)
  also have "\<dots> = (unix_secs t < unix_secs u)"
    using secs_split [of t] secs_split [of u] ab unfolding utc_day_def a_def b_def by linarith
  finally show ?thesis .
qed

lemma format_rfc3339_nonempty: "format_rfc3339 t \<noteq> []"
  by (simp add: format_rfc3339_def)

end
