(* ===== verification/Forecast_Types.thy ===== *)
theory Forecast_Types
  imports Calendar
begin

text \<open>
  The closed vocabulary of the forecast ledger (forecast_vocab.go) and the rows and series its
  evaluator passes around (forecast_eval_store.go, forecast_eval.go, quote.go). A Go pointer that
  may be nil is an option; every string and integer column keeps its type.
\<close>

section \<open>Vocabulary\<close>

definition predCheckpoints :: "string list" where [go_const]:
  "predCheckpoints = [''d5'', ''d20'', ''d60'', ''d120'', ''h12'']"

definition predCheckpointSessions :: "string \<rightharpoonup> int" where [go_const]:
  "predCheckpointSessions cp =
     (if cp = ''d5'' then Some 5 else if cp = ''d20'' then Some 20
      else if cp = ''d60'' then Some 60 else if cp = ''d120'' then Some 120 else None)"

definition predMarkCheckpoints :: "bool \<Rightarrow> string list" where
  "predMarkCheckpoints horizonStd = filter (\<lambda>cp. \<not> (cp = ''h12'' \<and> \<not> horizonStd)) predCheckpoints"

definition predStateAbsent :: string where [go_const]: "predStateAbsent = ''absent''"
definition predStateRejected :: string where [go_const]: "predStateRejected = ''rejected''"
definition predStateBacktest :: string where [go_const]: "predStateBacktest = ''backtest''"
definition predStateAccepted :: string where [go_const]: "predStateAccepted = ''accepted''"
definition predStateTest :: string where [go_const]: "predStateTest = ''test''"

definition markPending :: string where [go_const]: "markPending = ''pending''"
definition markRefused :: string where [go_const]: "markRefused = ''refused''"
definition markRefusedFinal :: string where [go_const]: "markRefusedFinal = ''refused_final''"
definition markResolved :: string where [go_const]: "markResolved = ''resolved''"

definition baseCheckPending :: string where [go_const]: "baseCheckPending = ''pending''"
definition baseMatch :: string where [go_const]: "baseMatch = ''match''"
definition baseMismatch :: string where [go_const]: "baseMismatch = ''mismatch''"
definition baseRefused :: string where [go_const]: "baseRefused = ''refused''"
definition baseRefusedFinal :: string where [go_const]: "baseRefusedFinal = ''refused_final''"

definition predReferenceLagDays :: int where "predReferenceLagDays = 10"
definition predRetryDeadlineTicks :: int where "predRetryDeadlineTicks = 10"
definition predSessionCloseMinute :: int where "predSessionCloseMinute = 15 * 60"
definition predSessionStampMinute :: int where "predSessionStampMinute = 15 * 60 + 30"
definition predFinalMinAttempts :: int where "predFinalMinAttempts = 4"

lemmas pred_minutes = predSessionCloseMinute_def predSessionStampMinute_def

section \<open>Rows\<close>

record forecastMark =
  fm_ID :: int
  fm_Checkpoint :: string
  fm_Status :: string
  fm_Attempts :: int
  fm_Refusal :: string
  fm_NextAttemptAt :: string
  fm_SessionDate :: string

record forecastWorkSet =
  ws_SetID :: int
  ws_Symbol :: string
  ws_Market :: string
  ws_MadeOn :: string
  ws_MadeAt :: string
  ws_HorizonEnd :: string
  ws_HorizonStd :: bool
  ws_BenchCode :: string
  ws_BaseCheck :: string
  ws_S0Date :: string
  ws_BaseDate :: string
  ws_S0Fen :: "int option"
  ws_EmitFen :: "int option"
  ws_Marks :: "forecastMark list"

record QuoteBar =
  qb_Date :: string
  qb_Open :: int
  qb_High :: int
  qb_Low :: int
  qb_Close :: int
  qb_Volume :: int

record forecastSeries =
  fs_Bars :: "QuoteBar list"
  fs_ExDates :: "string list"
  fs_Kind :: string
  fs_AsOf :: string
  fs_UnverifiableDate :: string
  fs_Source :: string
  fs_Market :: string
  fs_Code :: string

record markResult =
  mr_Status :: string
  mr_Refusal :: string
  mr_Session :: string
  mr_BarDate :: string
  mr_Halted :: bool
  mr_CorpAction :: bool
  mr_CloseFen :: "int option"
  mr_LowFen :: "int option"
  mr_HighFen :: "int option"
  mr_RetBp :: "int option"
  mr_BenchRetBp :: "int option"
  mr_Attempts :: int
  mr_Source :: string

text \<open>The columns a set and a claim are inserted with (forecast_ingest.go).\<close>

record predSetRow =
  pr_Symbol :: string
  pr_Rtype :: string
  pr_Version :: string
  pr_Title :: string
  pr_ReportDate :: string
  pr_MadeAt :: string
  pr_MadeOn :: string
  pr_Cohort :: string
  pr_Zone :: string
  pr_State :: string
  pr_Errors :: string
  pr_Payload :: string
  pr_Truncated :: int
  pr_PayloadSHA :: string
  pr_BodySHA :: string
  pr_EmitterApp :: string
  pr_EmitterVersion :: string
  pr_Calculator :: string
  pr_SchemaName :: string
  pr_PolicyVersion :: string
  pr_ProbabilityMethod :: string
  pr_ProbabilityTransform :: string
  pr_ScenarioBasis :: string
  pr_DecisionStatus :: string
  pr_DecisionQuality :: string
  pr_InformationCutoff :: string
  pr_AttributedOU :: "int option"
  pr_HorizonEnd :: string
  pr_HorizonStd :: int
  pr_EmittedBaseFen :: "int option"
  pr_EmittedBaseAsOf :: string
  pr_EmittedBaseSrc :: string
  pr_BenchCode :: string

record predClaimRow =
  pc_ClaimKey :: string
  pc_Kind :: string
  pc_Stance :: string
  pc_Label :: string
  pc_PriceFen :: "int option"
  pc_ProbBp :: "int option"
  pc_WeightBp :: "int option"

section \<open>Refusal classes\<close>

definition refusalMarkSpecific :: string where [go_const]: "refusalMarkSpecific = ''mark''"
definition refusalSource :: string where [go_const]: "refusalSource = ''source''"

definition predRefusalClass :: "(string \<times> string) list" where
  "predRefusalClass =
     [(''no_bar'', refusalMarkSpecific), (''stale_bar'', refusalMarkSpecific),
      (''unverifiable'', refusalMarkSpecific), (''anchor_mismatch'', refusalMarkSpecific),
      (''calendar_mismatch'', refusalMarkSpecific), (''bad_window'', refusalMarkSpecific),
      (''no_base'', refusalMarkSpecific), (''no_schedule'', refusalMarkSpecific),
      (''fetch_failed'', refusalSource), (''not_index'', refusalSource),
      (''calendar_bad'', refusalSource), (''no_bench'', refusalSource),
      (''no_source'', refusalSource), (''calendar_lag'', refusalSource)]"

definition refusalClassOf :: "string \<Rightarrow> string" where
  "refusalClassOf code =
     (case map_of predRefusalClass code of Some c \<Rightarrow> c | None \<Rightarrow> refusalSource)"

lemma refusal_class_cases: "refusalClassOf code = refusalMarkSpecific \<or> refusalClassOf code = refusalSource"
proof (cases "map_of predRefusalClass code")
  case None
  then show ?thesis by (simp add: refusalClassOf_def)
next
  case (Some c)
  then have "(code, c) \<in> set predRefusalClass" by (rule map_of_SomeD)
  then have "c = refusalMarkSpecific \<or> c = refusalSource" by (auto simp: predRefusalClass_def)
  with Some show ?thesis by (simp add: refusalClassOf_def)
qed

text \<open>The statuses a mark can leave, and the ones it cannot.\<close>

definition open_status :: "string \<Rightarrow> bool" where
  "open_status s \<longleftrightarrow> s = markPending \<or> s = markRefused"

definition terminal_status :: "string \<Rightarrow> bool" where
  "terminal_status s \<longleftrightarrow> s = markResolved \<or> s = markRefusedFinal"

lemma open_not_terminal [simp]: "open_status s \<Longrightarrow> \<not> terminal_status s"
  by (auto simp: open_status_def terminal_status_def go_const)

end
