(* ===== verification/Forecast_Schedule.thy ===== *)
theory Forecast_Schedule
  imports Forecast_Types
begin

text \<open>
  Checkpoint scheduling (forecast_schedule.go, with shiftDays and addMonths of forecast_eval.go):
  the start session of a set, the session each checkpoint settles on, the weekday projection that
  decides when a set is next looked at, and the wake times. The lemmas show that the start session
  is the first one that closes after the receipt, that dN is the Nth session after it, and that the
  projected wake never lies after the real due session's close.
\<close>

section \<open>Date arithmetic on stored dates\<close>

definition shiftDays :: "string \<Rightarrow> int \<Rightarrow> string" where
  "shiftDays date days = (case parse_date date of None \<Rightarrow> date | Some n \<Rightarrow> format_date (n + days))"

definition addMonths :: "string \<Rightarrow> int \<Rightarrow> string" where
  "addMonths date months =
     (case parse_date date of None \<Rightarrow> date | Some n \<Rightarrow> format_date (add_date n 0 months 0))"

section \<open>The start session\<close>

fun predS0_scan :: "string \<Rightarrow> bool \<Rightarrow> string list \<Rightarrow> string option" where
  "predS0_scan d beforeClose [] = None"
| "predS0_scan d beforeClose (s # ss) =
     (if s < d then predS0_scan d beforeClose ss
      else if s = d then (if beforeClose then Some d else predS0_scan d beforeClose ss)
      else Some s)"

definition predS0 :: "instant \<Rightarrow> string list \<Rightarrow> string option" where
  "predS0 madeAt sessions =
     predS0_scan (china_date madeAt)
       (madeAt < china_at (china_day madeAt) predSessionCloseMinute) sessions"

fun indexOfDate_from :: "int \<Rightarrow> string list \<Rightarrow> string \<Rightarrow> int" where
  "indexOfDate_from i [] date = -1"
| "indexOfDate_from i (d # ds) date =
     (if d = date then i else if date < d then -1 else indexOfDate_from (i + 1) ds date)"

definition indexOfDate :: "string list \<Rightarrow> string \<Rightarrow> int" where
  "indexOfDate dates date = indexOfDate_from 0 dates date"

record predSchedule =
  sch_S0 :: string
  sch_Record :: string
  sch_Due :: string
  sch_Known :: bool

definition no_schedule :: predSchedule where
  "no_schedule = \<lparr>sch_S0 = [], sch_Record = [], sch_Due = [], sch_Known = False\<rparr>"

text \<open>The checkpoint arithmetic once the start session and its index are decided.\<close>

definition scheduleFrom :: "string \<Rightarrow> string \<Rightarrow> bool \<Rightarrow> string \<Rightarrow> int \<Rightarrow> string list \<Rightarrow> predSchedule" where
  "scheduleFrom cp madeOn horizonStd s0 i0 sessions =
     (if cp = ''h12'' then
        (if \<not> horizonStd then no_schedule
         else (let target = addMonths madeOn 12 in
           case find (\<lambda>s. target \<le> s) (drop (nat i0) sessions) of
             Some s \<Rightarrow> \<lparr>sch_S0 = s0, sch_Record = s, sch_Due = s, sch_Known = True\<rparr>
           | None \<Rightarrow> \<lparr>sch_S0 = s0, sch_Record = target, sch_Due = target, sch_Known = False\<rparr>))
      else (case predCheckpointSessions cp of
          None \<Rightarrow> no_schedule\<lparr>sch_S0 := s0\<rparr>
        | Some n \<Rightarrow>
            (if int (length sessions) \<le> i0 + n then no_schedule\<lparr>sch_S0 := s0\<rparr>
             else (let d = sessions ! nat (i0 + n) in
               \<lparr>sch_S0 = s0, sch_Record = d, sch_Due = d, sch_Known = True\<rparr>))))"

definition predScheduleFor ::
  "string \<Rightarrow> instant \<Rightarrow> bool \<Rightarrow> string \<Rightarrow> string list \<Rightarrow> predSchedule" where
  "predScheduleFor cp madeAt horizonStd frozenS0 sessions =
     (case (if frozenS0 = [] then predS0 madeAt sessions else Some frozenS0) of
        None \<Rightarrow> no_schedule
      | Some s0 \<Rightarrow>
          (let i0 = indexOfDate sessions s0;
               (s1, i1) =
                 (if i0 < 0 \<and> frozenS0 \<noteq> []
                  then (case predS0 madeAt sessions of
                          Some alt \<Rightarrow> (alt, indexOfDate sessions alt) | None \<Rightarrow> (s0, i0))
                  else (s0, i0))
           in if i1 < 0 then no_schedule
              else scheduleFrom cp (china_date madeAt) horizonStd s1 i1 sessions))"

section \<open>Weekday projection and wakes\<close>

text \<open>The loop of \<open>predProjectSessions\<close>: \<open>k\<close> dates still to collect, day \<open>n\<close> next.\<close>

function project_days :: "int \<Rightarrow> nat \<Rightarrow> int list" where
  "project_days n 0 = []"
| "project_days n (Suc k) =
     (if is_weekend n then project_days (n + 1) (Suc k) else n # project_days (n + 1) k)"
  by pat_completeness auto

definition weekend_left :: "int \<Rightarrow> nat" where
  "weekend_left n = (if weekday n = 6 then 2 else if weekday n = 0 then 1 else 0)"

lemma weekday_range: "0 \<le> weekday n" "weekday n < 7"
  by (simp_all add: weekday_def)

lemma weekday_Suc: "weekday (n + 1) = (if weekday n = 6 then 0 else weekday n + 1)"
proof -
  have "weekday (n + 1) = (weekday n + 1) mod 7"
    unfolding weekday_def by (metis add.assoc add.commute mod_add_left_eq)
  then show ?thesis using weekday_range [of n] by auto
qed

lemma weekend_left_decreases: "is_weekend n \<Longrightarrow> weekend_left (n + 1) < weekend_left n"
  by (auto simp: is_weekend_def weekend_left_def weekday_Suc)

termination project_days
  by (relation "measures [\<lambda>(n, k). k, \<lambda>(n, k). weekend_left n]")
    (auto simp: weekend_left_decreases)

definition predProjectSessions :: "string \<Rightarrow> int \<Rightarrow> string list" where
  "predProjectSessions from n =
     (if n \<le> 0 then [] else
       (case parse_date from of None \<Rightarrow> [] | Some d \<Rightarrow> map format_date (project_days d (nat n))))"

definition projectedS0 :: "instant \<Rightarrow> string" where
  "projectedS0 madeAt =
     (let from = (if madeAt < china_at (china_day madeAt) predSessionCloseMinute
                  then china_date madeAt else shiftDays (china_date madeAt) 1)
      in case predProjectSessions from 1 of [] \<Rightarrow> [] | p # _ \<Rightarrow> p)"

definition setMadeAt :: "forecastWorkSet \<Rightarrow> instant option" where
  "setMadeAt ws =
     (case parse_rfc3339 (ws_MadeAt ws) of Some t \<Rightarrow> Some t
      | None \<Rightarrow> (case parse_date (ws_MadeOn ws) of Some n \<Rightarrow> Some (china_at n (12 * 60)) | None \<Rightarrow> None))"

definition dateAtClose :: "string \<Rightarrow> instant" where
  "dateAtClose date =
     (case parse_date date of None \<Rightarrow> zero_time | Some n \<Rightarrow> china_at n predSessionStampMinute)"

definition projectedDue :: "forecastWorkSet \<Rightarrow> string \<Rightarrow> string \<Rightarrow> string" where
  "projectedDue ws s0 cp =
     (if cp = ''h12'' then
        (case predProjectSessions (addMonths (ws_MadeOn ws) 12) 1 of [] \<Rightarrow> [] | p # _ \<Rightarrow> p)
      else (case predCheckpointSessions cp of None \<Rightarrow> []
            | Some n \<Rightarrow> (let p = predProjectSessions (shiftDays s0 1) n
                        in if n \<le> int (length p) then p ! nat (n - 1) else [])))"

definition predWakeAt :: "forecastWorkSet \<Rightarrow> string \<Rightarrow> instant" where
  "predWakeAt ws cp =
     (case setMadeAt ws of None \<Rightarrow> zero_time
      | Some madeAt \<Rightarrow>
          (let s0 = (if ws_S0Date ws = [] then projectedS0 madeAt else ws_S0Date ws) in
           if s0 = [] then zero_time
           else if cp = ''h12'' \<and> \<not> ws_HorizonStd ws then zero_time
           else (let due = projectedDue ws s0 cp in
                 if due = [] then zero_time
                 else (let wake = dateAtClose due; w = dateAtClose s0 in
                       if (ws_BaseCheck ws = baseCheckPending \<or> ws_BaseCheck ws = baseRefused) \<and> w < wake
                       then w else wake))))"

function skip_weekend :: "int \<Rightarrow> int" where
  "skip_weekend n = (if is_weekend n then skip_weekend (n + 1) else n)"
  by pat_completeness auto
termination
  by (relation "measure weekend_left") (auto simp: weekend_left_decreases)

declare skip_weekend.simps [simp del]

definition predNotYetShown :: "instant \<Rightarrow> instant" where
  "predNotYetShown now =
     (let hour = china_minute now div 60 in
      if hour < 18 then
        (if hour = 9 then china_at (china_day now) (15 * 60 + 30) else now + minutes 10)
      else china_at (skip_weekend (china_day now + 1)) (9 * 60))"

definition predSessionStamp :: "instant \<Rightarrow> bool" where
  "predSessionStamp now \<longleftrightarrow> \<not> now < china_at (china_day now) predSessionStampMinute"

definition readSessionCompleted :: "string \<Rightarrow> instant \<Rightarrow> bool" where
  "readSessionCompleted date now \<longleftrightarrow>
     date < china_date now \<or> date = china_date now \<and> predSessionStamp now"

section \<open>The start session is the first to close after the receipt\<close>

lemma predS0_scan_find: "predS0_scan d b ss = find (\<lambda>s. d < s \<or> s = d \<and> b) ss"
  by (induction ss) auto

lemma find_map: "find P (map f xs) = map_option f (find (\<lambda>x. P (f x)) xs)"
  by (induction xs) auto

lemma find_cong_on: "(\<And>x. x \<in> set xs \<Longrightarrow> P x = Q x) \<Longrightarrow> find P xs = find Q xs"
  by (induction xs) auto

lemma predS0_days:
  assumes "in_years (china_day madeAt)" "\<forall>n\<in>set ns. in_years n"
  shows "predS0 madeAt (map format_date ns) =
         map_option format_date (find (\<lambda>n. madeAt < china_at n predSessionCloseMinute) ns)"
  unfolding predS0_def predS0_scan_find find_map china_date_def
  using assms
  by (intro arg_cong [where f = "map_option format_date"] find_cong_on)
    (auto simp: format_date_less format_date_eq before_minute pred_minutes)

section \<open>dN is the Nth session after the start\<close>

lemma indexOfDate_from_split:
  "sorted_wrt (<) (xs @ d # ys) \<Longrightarrow> indexOfDate_from i (xs @ d # ys) d = i + int (length xs)"
  by (induction xs arbitrary: i) auto

lemma indexOfDate_split:
  "sorted_wrt (<) (xs @ d # ys) \<Longrightarrow> indexOfDate (xs @ d # ys) d = int (length xs)"
  by (simp add: indexOfDate_def indexOfDate_from_split)

lemma indexOfDate_from_absent: "d \<notin> set xs \<Longrightarrow> indexOfDate_from i xs d = -1"
  by (induction xs arbitrary: i) auto

lemma filter_after_split:
  assumes "sorted_wrt (<) (xs @ d # ys)"
  shows "filter (\<lambda>s. d < s) (xs @ d # ys) = (ys :: 'a :: linorder list)"
proof -
  have "filter (\<lambda>s. d < s) xs = []"
    using assms less_not_sym by (fastforce simp: sorted_wrt_append filter_empty_conv)
  moreover have "filter (\<lambda>s. d < s) ys = ys"
    using assms by (simp add: sorted_wrt_append filter_id_conv)
  ultimately show ?thesis by simp
qed

lemma checkpoint_sessions_pos: "predCheckpointSessions cp = Some n \<Longrightarrow> 0 < n \<and> cp \<noteq> ''h12''"
  by (auto simp: predCheckpointSessions_def split: if_splits)

lemma scheduleFrom_session:
  assumes "predCheckpointSessions cp = Some n"
  shows "scheduleFrom cp madeOn hs s0 i0 sessions =
         (if int (length sessions) \<le> i0 + n then no_schedule\<lparr>sch_S0 := s0\<rparr>
          else \<lparr>sch_S0 = s0, sch_Record = sessions ! nat (i0 + n), sch_Due = sessions ! nat (i0 + n),
                sch_Known = True\<rparr>)"
  using assms checkpoint_sessions_pos [OF assms] by (simp add: scheduleFrom_def Let_def)

lemma predS0_some_in:
  "predS0 madeAt sessions = Some s \<Longrightarrow> s \<in> set sessions"
  unfolding predS0_def predS0_scan_find by (metis find_Some_iff nth_mem)

text \<open>The start used for scheduling: the stored one if the calendar has it, else the receipt rule.\<close>

definition scheduleStart :: "instant \<Rightarrow> string \<Rightarrow> string list \<Rightarrow> string option" where
  "scheduleStart madeAt frozenS0 sessions =
     (if frozenS0 \<in> set sessions then Some frozenS0 else predS0 madeAt sessions)"

lemma predScheduleFor_start:
  assumes "sorted_wrt (<) sessions" "[] \<notin> set sessions"
  shows "predScheduleFor cp madeAt hs frozenS0 sessions =
         (case scheduleStart madeAt frozenS0 sessions of
            None \<Rightarrow> no_schedule
          | Some s0 \<Rightarrow> scheduleFrom cp (china_date madeAt) hs s0 (indexOfDate sessions s0) sessions)"
proof -
  have pos: "0 \<le> indexOfDate sessions s" if "s \<in> set sessions" for s
    using that assms(1) by (auto dest!: split_list simp: indexOfDate_split)
  have neg: "indexOfDate sessions s < 0" if "s \<notin> set sessions" for s
    using that by (simp add: indexOfDate_def indexOfDate_from_absent)
  show ?thesis
  proof (cases "frozenS0 \<in> set sessions")
    case True
    then have "frozenS0 \<noteq> []" "\<not> indexOfDate sessions frozenS0 < 0"
      using assms(2) pos [OF True] by auto
    then show ?thesis using True by (simp add: predScheduleFor_def scheduleStart_def)
  next
    case False
    show ?thesis
    proof (cases "predS0 madeAt sessions")
      case None
      then show ?thesis using False neg [OF False]
        by (simp add: predScheduleFor_def scheduleStart_def)
    next
      case (Some s)
      then have "\<not> indexOfDate sessions s < 0" using pos [OF predS0_some_in] by (simp add: not_less)
      then show ?thesis using False Some neg [OF False]
        by (simp add: predScheduleFor_def scheduleStart_def)
    qed
  qed
qed

lemma schedule_nth_session:
  assumes sorted: "sorted_wrt (<) sessions" and ne: "[] \<notin> set sessions"
    and n: "predCheckpointSessions cp = Some n"
    and start: "scheduleStart madeAt frozenS0 sessions = Some s0"
  shows "predScheduleFor cp madeAt hs frozenS0 sessions =
         (let later = filter (\<lambda>s. s0 < s) sessions in
          if n \<le> int (length later)
          then \<lparr>sch_S0 = s0, sch_Record = later ! nat (n - 1), sch_Due = later ! nat (n - 1),
                sch_Known = True\<rparr>
          else no_schedule\<lparr>sch_S0 := s0\<rparr>)"
proof -
  have "s0 \<in> set sessions"
    using start predS0_some_in by (auto simp: scheduleStart_def split: if_splits)
  then obtain xs ys where s: "sessions = xs @ s0 # ys" by (auto dest: split_list)
  have n0: "0 < n" using checkpoint_sessions_pos [OF n] by simp
  have later: "filter (\<lambda>s. s0 < s) sessions = ys"
    using sorted unfolding s by (rule filter_after_split)
  have i: "indexOfDate sessions s0 = int (length xs)"
    using sorted unfolding s by (rule indexOfDate_split)
  have len: "(int (length sessions) \<le> int (length xs) + n) = (\<not> n \<le> int (length ys))"
    unfolding s by auto
  have nth: "sessions ! nat (int (length xs) + n) = ys ! nat (n - 1)"
    using n0 unfolding s by (simp add: nth_append nat_add_distrib nth_Cons' nat_diff_distrib)
  show ?thesis
    unfolding predScheduleFor_start [OF sorted ne] start later Let_def option.case
      scheduleFrom_session [OF n] i len nth by simp
qed

section \<open>The projection never runs past the real calendar\<close>

declare project_days.simps(2) [simp del]

lemma project_days_step:
  "is_weekend n \<Longrightarrow> project_days n (Suc k) = project_days (n + 1) (Suc k)"
  "\<not> is_weekend n \<Longrightarrow> project_days n (Suc k) = n # project_days (n + 1) k"
  by (simp_all add: project_days.simps(2) [of n k])

lemma length_project_days [simp]: "length (project_days n k) = k"
proof (induction n k rule: project_days.induct)
  case (2 n k)
  then show ?case by (cases "is_weekend n") (simp_all add: project_days_step)
qed simp

lemma project_days_ge: "d \<in> set (project_days n k) \<Longrightarrow> n \<le> d \<and> \<not> is_weekend d"
proof (induction n k rule: project_days.induct)
  case (2 n k)
  show ?case
  proof (cases "is_weekend n")
    case True
    then show ?thesis using "2.IH"(1) "2.prems" by (simp add: project_days_step)
  next
    case False
    then have "d = n \<or> d \<in> set (project_days (n + 1) k)" using "2.prems" by (simp add: project_days_step)
    then show ?thesis using "2.IH"(2) [OF False] False by auto
  qed
qed simp

text \<open>A trading calendar: strictly increasing weekdays that print as four-digit years.\<close>

definition trading_days :: "int list \<Rightarrow> bool" where
  "trading_days ns \<longleftrightarrow> sorted_wrt (<) ns \<and> (\<forall>n\<in>set ns. in_years n \<and> \<not> is_weekend n)"

lemma project_days_le:
  "sorted_wrt (<) ds \<Longrightarrow> \<forall>d\<in>set ds. n \<le> d \<and> \<not> is_weekend d \<Longrightarrow> i < k \<Longrightarrow> i < length ds \<Longrightarrow>
   project_days n k ! i \<le> ds ! i"
proof (induction n k arbitrary: ds i rule: project_days.induct)
  case (1 n)
  then show ?case by simp
next
  case (2 n k)
  show ?case
  proof (cases "is_weekend n")
    case True
    then have "\<forall>d\<in>set ds. n + 1 \<le> d \<and> \<not> is_weekend d"
      using "2.prems"(2) by (metis order_le_imp_less_or_eq zless_imp_add1_zle)
    then show ?thesis using True "2.IH"(1) [OF True "2.prems"(1)] "2.prems" by (simp add: project_days_step)
  next
    case False
    show ?thesis
    proof (cases ds)
      case Nil
      then show ?thesis using "2.prems" by simp
    next
      case (Cons d es)
      then have es: "sorted_wrt (<) es" "\<forall>d\<in>set es. n + 1 \<le> d \<and> \<not> is_weekend d"
        using "2.prems"(1,2) by fastforce+
      show ?thesis
        using Cons "2.prems" "2.IH"(2) [OF False es, of "i - 1"]
        by (cases i) (auto simp: project_days_step(2) [OF False])
    qed
  qed
qed

lemma sorted_map_format:
  "trading_days ns \<Longrightarrow> sorted_wrt (<) (map format_date ns)"
  unfolding trading_days_def sorted_wrt_map
  by (elim conjE sorted_wrt_mono_rel [rotated]) (simp add: format_date_less)

lemma filter_map_format:
  assumes "trading_days ns" "in_years a"
  shows "filter (\<lambda>s. format_date a < s) (map format_date ns) = map format_date (filter (\<lambda>n. a < n) ns)"
  unfolding filter_map comp_def
  using assms by (intro arg_cong [where f = "map format_date"] filter_cong)
    (auto simp: trading_days_def format_date_less)

lemma dateAtClose_format [simp]:
  "in_years n \<Longrightarrow> dateAtClose (format_date n) = china_at n predSessionStampMinute"
  by (simp add: dateAtClose_def)

text \<open>The first civil day that can be the start session of a receipt.\<close>

definition start_from :: "instant \<Rightarrow> int" where
  "start_from madeAt = (if madeAt < china_at (china_day madeAt) predSessionCloseMinute
                        then china_day madeAt else china_day madeAt + 1)"

lemma start_from_le: "madeAt < china_at n predSessionCloseMinute \<Longrightarrow> start_from madeAt \<le> n"
proof -
  have m: "0 \<le> predSessionCloseMinute" "predSessionCloseMinute \<le> 1440"
    by (simp_all add: predSessionCloseMinute_def)
  assume "madeAt < china_at n predSessionCloseMinute"
  then show ?thesis unfolding start_from_def before_minute [OF m] by auto
qed

lemma start_from_ge: "china_day madeAt \<le> start_from madeAt"
  by (simp add: start_from_def)

lemma project_one: "\<exists>d. project_days n 1 = [d]"
  by (metis One_nat_def length_0_conv length_Suc_conv length_project_days)

lemma projectedS0_start:
  assumes "in_years (china_day madeAt)" "in_years (start_from madeAt)"
  shows "projectedS0 madeAt = format_date (project_days (start_from madeAt) 1 ! 0)"
proof -
  have "(if madeAt < china_at (china_day madeAt) predSessionCloseMinute then china_date madeAt
         else shiftDays (china_date madeAt) 1) = format_date (start_from madeAt)"
    unfolding china_date_def shiftDays_def start_from_def
    unfolding parse_format_date [OF assms(1)] option.case if_distrib [of format_date] ..
  moreover note project_one [of "start_from madeAt"]
  ultimately show ?thesis using assms(2) by (auto simp: projectedS0_def predProjectSessions_def)
qed

lemma schedule_start_days:
  assumes ns: "trading_days ns" and y: "in_years (china_day madeAt)"
    and frozen: "frozenS0 = [] \<or> frozenS0 \<in> set (map format_date ns)"
    and start: "scheduleStart madeAt frozenS0 (map format_date ns) = Some s0"
  obtains a z where "a \<in> set ns" "s0 = format_date a" "z \<le> a" "in_years z"
    "(if frozenS0 = [] then projectedS0 madeAt else frozenS0) = format_date z"
proof (cases "frozenS0 = []")
  case False
  then have "frozenS0 \<in> set (map format_date ns)" using frozen by simp
  then obtain a where a: "a \<in> set ns" "frozenS0 = format_date a" by auto
  then have "s0 = format_date a" using start frozen False by (simp add: scheduleStart_def)
  then show ?thesis using that [of a a] a False ns by (simp add: trading_days_def)
next
  case True
  have "\<forall>n\<in>set ns. in_years n" using ns by (simp add: trading_days_def)
  moreover have "[] \<notin> set (map format_date ns)" by (metis format_date_nonempty ex_map_conv)
  ultimately have "map_option format_date (find (\<lambda>n. madeAt < china_at n predSessionCloseMinute) ns) = Some s0"
    using start True predS0_days [OF y] by (simp add: scheduleStart_def)
  then obtain a where f: "find (\<lambda>n. madeAt < china_at n predSessionCloseMinute) ns = Some a"
    and s0: "s0 = format_date a" by auto
  then have a: "a \<in> set ns" "madeAt < china_at a predSessionCloseMinute"
    by (metis find_Some_iff nth_mem)+
  have yr: "in_years a" "\<not> is_weekend a" using ns a by (simp_all add: trading_days_def)
  let ?z = "project_days (start_from madeAt) 1 ! 0"
  have sf: "start_from madeAt \<le> a" using a(2) by (rule start_from_le)
  have z: "?z \<le> a" using project_days_le [of "[a]" "start_from madeAt" 0 1] sf yr by simp
  have "?z \<in> set (project_days (start_from madeAt) 1)" by (metis length_project_days less_one nth_mem)
  then have "start_from madeAt \<le> ?z" using project_days_ge by blast
  moreover have "in_years (start_from madeAt)"
    using in_years_between [OF y yr(1) start_from_ge sf] .
  ultimately have "in_years ?z" using in_years_between yr(1) z by blast
  then show ?thesis
    using that [of a ?z] a s0 z True projectedS0_start [OF y \<open>in_years (start_from madeAt)\<close>] by simp
qed

lemma project_nth_sessions:
  assumes "in_years b" "0 < n"
  shows "predProjectSessions (format_date b) n = map format_date (project_days b (nat n))"
  using assms by (simp add: predProjectSessions_def)

text \<open>The projected close of the Nth weekday after \<open>z\<close> is no later than the Nth session's.\<close>

lemma projected_nth_le:
  assumes ns: "trading_days ns" and z: "in_years z" "z \<le> a" "a \<in> set ns"
    and n: "0 < n" "n \<le> int (length (filter (\<lambda>d. a < d) ns))"
  shows "let p = predProjectSessions (shiftDays (format_date z) 1) n in
         n \<le> int (length p) \<and> p ! nat (n - 1) \<noteq> [] \<and>
         dateAtClose (p ! nat (n - 1)) \<le> china_at (filter (\<lambda>d. a < d) ns ! nat (n - 1)) predSessionStampMinute"
proof -
  let ?later = "filter (\<lambda>d. a < d) ns" and ?i = "nat (n - 1)"
  have i: "?i < length ?later" "?i < nat n" using n by auto
  then have mem: "?later ! ?i \<in> set ?later" by (meson nth_mem)
  then have due: "in_years (?later ! ?i)" "a < ?later ! ?i" using ns by (auto simp: trading_days_def)
  have z1: "in_years (z + 1)" using in_years_between [OF z(1) due(1), of "z + 1"] due(2) z(2) by simp
  have "\<forall>d\<in>set ?later. z + 1 \<le> d \<and> \<not> is_weekend d" using ns z(2) by (auto simp: trading_days_def)
  moreover have "sorted_wrt (<) ?later" using ns by (simp add: trading_days_def sorted_wrt_filter)
  ultimately have le: "project_days (z + 1) (nat n) ! ?i \<le> ?later ! ?i"
    using i by (intro project_days_le)
  have "project_days (z + 1) (nat n) ! ?i \<in> set (project_days (z + 1) (nat n))"
    using i by (intro nth_mem) simp
  then have "z + 1 \<le> project_days (z + 1) (nat n) ! ?i" using project_days_ge by blast
  then have "in_years (project_days (z + 1) (nat n) ! ?i)"
    using in_years_between [OF z1 due(1)] le by blast
  then show ?thesis
    using i n le by (simp add: shiftDays_def z(1) project_nth_sessions [OF z1 n(1)] china_at_mono)
qed

lemma map_option_head:
  "map_option f (case xs of [] \<Rightarrow> None | y # _ \<Rightarrow> Some y) =
   (case xs of [] \<Rightarrow> None | y # _ \<Rightarrow> Some (f y))"
  by (cases xs) simp_all

lemma dropWhile_later:
  "sorted_wrt (<) ns \<Longrightarrow> dropWhile P ns = a # later \<Longrightarrow> filter (\<lambda>d. a < d) ns = (later :: int list)"
  by (metis filter_after_split takeWhile_dropWhile_id)

lemma format_sessions_ok:
  "trading_days ns \<Longrightarrow> sorted_wrt (<) (map format_date ns) \<and> [] \<notin> set (map format_date ns)"
  using sorted_map_format format_date_nonempty by (metis ex_map_conv)

text \<open>
  Property C15. On a trading calendar, a checkpoint of N sessions is due on the Nth session after the
  first session that closes (15:00 in China) after the receipt; if no session closes after the
  receipt there is no schedule, and if fewer than N follow, the start is known and the due session
  is not.
\<close>

theorem checkpoint_due_session:
  assumes "trading_days ns" "in_years (china_day madeAt)" "predCheckpointSessions cp = Some n"
  shows "predScheduleFor cp madeAt hs [] (map format_date ns) =
         (case dropWhile (\<lambda>d. \<not> madeAt < china_at d predSessionCloseMinute) ns of
            [] \<Rightarrow> no_schedule
          | a # later \<Rightarrow>
              (if n \<le> int (length later)
               then \<lparr>sch_S0 = format_date a, sch_Record = format_date (later ! nat (n - 1)),
                     sch_Due = format_date (later ! nat (n - 1)), sch_Known = True\<rparr>
               else no_schedule\<lparr>sch_S0 := format_date a\<rparr>))"
proof -
  note ok = format_sessions_ok [OF assms(1)]
  have ns: "sorted_wrt (<) ns" "\<forall>n\<in>set ns. in_years n" using assms(1) by (auto simp: trading_days_def)
  have n0: "0 < n" using checkpoint_sessions_pos [OF assms(3)] by simp
  have start: "scheduleStart madeAt [] (map format_date ns) =
      (case dropWhile (\<lambda>d. \<not> madeAt < china_at d predSessionCloseMinute) ns of
         [] \<Rightarrow> None | a # _ \<Rightarrow> Some (format_date a))"
    using ok unfolding scheduleStart_def predS0_days [OF assms(2) ns(2)] takeWhile_find
      map_option_head by simp
  show ?thesis
  proof (cases "dropWhile (\<lambda>d. \<not> madeAt < china_at d predSessionCloseMinute) ns")
    case Nil
    then have none: "scheduleStart madeAt [] (map format_date ns) = None" unfolding start Nil by simp
    show ?thesis
      unfolding Nil predScheduleFor_start [OF conjunct1 [OF ok] conjunct2 [OF ok]] none by simp
  next
    case (Cons a later)
    have "a \<in> set ns" using Cons by (metis list.set_intros(1) set_dropWhileD)
    then have later: "filter (\<lambda>s. format_date a < s) (map format_date ns) = map format_date later"
      using filter_map_format [OF assms(1)] dropWhile_later [OF ns(1) Cons] ns(2) by metis
    have "scheduleStart madeAt [] (map format_date ns) = Some (format_date a)"
      using start Cons by simp
    from schedule_nth_session [OF conjunct1 [OF ok] conjunct2 [OF ok] assms(3) this] later n0
    show ?thesis unfolding Cons list.case Let_def by auto
  qed
qed

lemma checkpoint_due_session_witness:
  "predScheduleFor ''d5'' (china_at 20458 (16 * 60)) True []
     (map format_date [20458, 20459, 20460, 20461, 20462, 20465, 20466, 20467]) =
   \<lparr>sch_S0 = ''2026-01-06'', sch_Record = ''2026-01-13'', sch_Due = ''2026-01-13'', sch_Known = True\<rparr>"
  by (subst checkpoint_due_session [where n = 5]) code_simp+

lemma scheduled_start:
  assumes ns: "trading_days ns" and y: "in_years (china_day madeAt)"
    and frozen: "frozenS0 = [] \<or> frozenS0 \<in> set (map format_date ns)"
    and known: "sch_Known (predScheduleFor cp madeAt hs frozenS0 (map format_date ns))"
  obtains a z where "a \<in> set ns" "z \<le> a" "in_years z"
    "scheduleStart madeAt frozenS0 (map format_date ns) = Some (format_date a)"
    "(if frozenS0 = [] then projectedS0 madeAt else frozenS0) = format_date z"
proof -
  obtain s0 where s0: "scheduleStart madeAt frozenS0 (map format_date ns) = Some s0"
    using known format_sessions_ok [OF ns]
    by (auto simp: predScheduleFor_start no_schedule_def split: option.splits)
  show ?thesis
    using schedule_start_days [OF ns y frozen s0] that s0 by metis
qed

text \<open>The due date of a known schedule, and the projected one, at day level.\<close>

lemma projected_due_le:
  assumes ns: "trading_days ns" and y: "in_years (china_day madeAt)"
    and made_on: "ws_MadeOn ws = china_date madeAt"
    and year: "in_years (add_date (china_day madeAt) 0 12 0)"
    and known: "sch_Known (predScheduleFor cp madeAt hs frozenS0 (map format_date ns))"
    and a: "a \<in> set ns" "z \<le> a" "in_years z"
      "scheduleStart madeAt frozenS0 (map format_date ns) = Some (format_date a)"
  shows "projectedDue ws (format_date z) cp \<noteq> [] \<and>
         dateAtClose (projectedDue ws (format_date z) cp) \<le>
         dateAtClose (sch_Due (predScheduleFor cp madeAt hs frozenS0 (map format_date ns))) \<and>
         (cp = ''h12'' \<longrightarrow> hs)"
proof (cases "cp = ''h12''")
  case False
  note ok = format_sessions_ok [OF ns]
  have az: "in_years a" using ns a(1) by (simp add: trading_days_def)
  obtain n where n: "predCheckpointSessions cp = Some n"
    using known False ok a(4)
    by (cases "predCheckpointSessions cp")
      (auto simp: predScheduleFor_start scheduleFrom_def no_schedule_def)
  have n0: "0 < n" using checkpoint_sessions_pos [OF n] by simp
  note sched = schedule_nth_session [OF conjunct1 [OF ok] conjunct2 [OF ok] n a(4), of hs,
      unfolded filter_map_format [OF ns az] Let_def]
  have len: "n \<le> int (length (filter (\<lambda>d. a < d) ns))"
    using known unfolding sched by (auto simp: no_schedule_def split: if_splits)
  then have i: "nat (n - 1) < length (filter (\<lambda>d. a < d) ns)" using n0 by auto
  then have "filter (\<lambda>d. a < d) ns ! nat (n - 1) \<in> set ns"
    by (metis filter_is_subset nth_mem subsetD)
  then have "in_years (filter (\<lambda>d. a < d) ns ! nat (n - 1))" using ns by (simp add: trading_days_def)
  then have "dateAtClose (sch_Due (predScheduleFor cp madeAt hs frozenS0 (map format_date ns))) =
             china_at (filter (\<lambda>d. a < d) ns ! nat (n - 1)) predSessionStampMinute"
    using len i unfolding sched by simp
  then show ?thesis
    using projected_nth_le [OF ns a(3) a(2) a(1) n0 len] False n by (auto simp: projectedDue_def Let_def)
next
  case True
  note ok = format_sessions_ok [OF ns]
  let ?t = "add_date (china_day madeAt) 0 12 0"
  have target: "addMonths (china_date madeAt) 12 = format_date ?t"
    using y by (simp add: addMonths_def china_date_def)
  note sched = predScheduleFor_start [OF conjunct1 [OF ok] conjunct2 [OF ok], of cp madeAt hs frozenS0]
  obtain s where f: "find (\<lambda>s. format_date ?t \<le> s)
        (drop (nat (indexOfDate (map format_date ns) (format_date a))) (map format_date ns)) = Some s"
    and hs: "hs" and due: "sch_Due (predScheduleFor cp madeAt hs frozenS0 (map format_date ns)) = s"
    using known True a(4) unfolding sched
    by (auto simp: scheduleFrom_def target Let_def no_schedule_def split: if_splits option.splits)
  have "s \<in> set (map format_date ns)" "format_date ?t \<le> s"
    using f by (metis find_Some_iff nth_mem in_set_dropD)+
  then obtain b where b: "b \<in> set ns" "s = format_date b" "?t \<le> b"
    using ns year by (auto simp: trading_days_def format_date_le)
  have yb: "in_years b" "\<not> is_weekend b" using ns b by (simp_all add: trading_days_def)
  let ?p = "project_days ?t 1 ! 0"
  have le: "?p \<le> b" using project_days_le [of "[b]" ?t 0 1] yb b(3) by simp
  have "?p \<in> set (project_days ?t 1)" by (metis length_project_days less_one nth_mem)
  then have "in_years ?p" using in_years_between [OF year yb(1)] project_days_ge le by blast
  moreover have "projectedDue ws (format_date z) cp = format_date ?p"
    using year True project_one [of ?t]
    by (auto simp: projectedDue_def made_on target predProjectSessions_def)
  ultimately show ?thesis using hs due b yb le by (simp add: china_at_mono)
qed

text \<open>
  The wake the store keeps for an undecided checkpoint is never after the close of the
  session it is really due on: whatever holidays the exchange's calendar has, the weekday
  projection only comes early, so no mark is looked at late.
\<close>

theorem wake_not_after_due:
  assumes "trading_days ns" "setMadeAt ws = Some madeAt" "ws_MadeOn ws = china_date madeAt"
    and "in_years (china_day madeAt)" "in_years (add_date (china_day madeAt) 0 12 0)"
    and "ws_S0Date ws = [] \<or> ws_S0Date ws \<in> set (map format_date ns)"
    and "sch_Known (predScheduleFor cp madeAt (ws_HorizonStd ws) (ws_S0Date ws) (map format_date ns))"
  shows "predWakeAt ws cp \<le>
         dateAtClose (sch_Due (predScheduleFor cp madeAt (ws_HorizonStd ws) (ws_S0Date ws) (map format_date ns)))"
proof -
  obtain a z where az: "a \<in> set ns" "z \<le> a" "in_years z"
    "scheduleStart madeAt (ws_S0Date ws) (map format_date ns) = Some (format_date a)"
    and s0: "(if ws_S0Date ws = [] then projectedS0 madeAt else ws_S0Date ws) = format_date z"
    using scheduled_start [OF assms(1,4,6,7)] by metis
  show ?thesis
    using projected_due_le [OF assms(1,4,3,5,7) az] format_date_nonempty [of z]
    unfolding predWakeAt_def assms(2) option.case s0 Let_def by auto
qed

lemma wake_not_after_due_witness:
  "predWakeAt
     \<lparr>ws_SetID = 1, ws_Symbol = ''600519'', ws_Market = ''sh'', ws_MadeOn = ''2026-01-05'',
      ws_MadeAt = ''2026-01-05T16:00:00+08:00'', ws_HorizonEnd = [], ws_HorizonStd = True,
      ws_BenchCode = ''000300'', ws_BaseCheck = ''match'', ws_S0Date = [], ws_BaseDate = [],
      ws_S0Fen = None, ws_EmitFen = None, ws_Marks = []\<rparr> ''d5''
   \<le> dateAtClose (sch_Due (predScheduleFor ''d5'' (china_at 20458 (16 * 60)) True []
        (map format_date [20458, 20459, 20461, 20462, 20465, 20466, 20467])))"
  by (rule wake_not_after_due [where madeAt = "china_at 20458 (16 * 60)" and cp = "''d5''" and
        ns = "[20458, 20459, 20461, 20462, 20465, 20466, 20467]" and
        ws = "\<lparr>ws_SetID = 1, ws_Symbol = ''600519'', ws_Market = ''sh'', ws_MadeOn = ''2026-01-05'',
          ws_MadeAt = ''2026-01-05T16:00:00+08:00'', ws_HorizonEnd = [], ws_HorizonStd = True,
          ws_BenchCode = ''000300'', ws_BaseCheck = ''match'', ws_S0Date = [], ws_BaseDate = [],
          ws_S0Fen = None, ws_EmitFen = None, ws_Marks = []\<rparr>",
        unfolded forecastWorkSet.simps]) code_simp+

section \<open>The retry of a reading not yet shown\<close>

lemma skip_weekend_bounds: "n \<le> skip_weekend n \<and> skip_weekend n \<le> n + int (weekend_left n) \<and> \<not> is_weekend (skip_weekend n)"
proof (induction n rule: skip_weekend.induct)
  case (1 n)
  show ?case
  proof (cases "is_weekend n")
    case True
    then show ?thesis using "1.IH" weekend_left_decreases [OF True]
      by (simp add: skip_weekend.simps [of n])
  next
    case False
    then show ?thesis by (simp add: skip_weekend.simps [of n])
  qed
qed

lemma not_shown_evening:
  assumes "1080 \<le> china_minute now"
  shows "\<exists>d. china_day now < d \<and> \<not> is_weekend d \<and> predNotYetShown now = china_at d (9 * 60) \<and>
             now < china_at d (9 * 60) \<and> china_at d (9 * 60) \<le> now + hours 63"
proof -
  define d where "d = skip_weekend (china_day now + 1)"
  have d: "china_day now + 1 \<le> d" "d \<le> china_day now + 3" "\<not> is_weekend d"
    using skip_weekend_bounds [of "china_day now + 1"]
    by (auto simp: d_def weekend_left_def split: if_splits)
  have hour: "\<not> china_minute now div 60 < 18" using assms by (simp add: int_div_less_iff)
  have "china_at (china_day now) 1080 \<le> now"
    using before_own_minute [of 1080 now] assms by auto
  moreover have "china_at d (9 * 60) \<le> china_at (china_day now) 1080 + hours 63"
    using d(2) by (simp add: china_at_def hours_def second_def)
  moreover have "china_at (china_day now + 1) 0 \<le> china_at d (9 * 60)"
    using d(1) by (simp add: china_at_def)
  ultimately have "now < china_at d (9 * 60)" "china_at d (9 * 60) \<le> now + hours 63"
    using china_day_gt [of now] by linarith+
  then show ?thesis using d hour
    by (intro exI [of _ d]) (simp add: predNotYetShown_def d_def Let_def)
qed

lemma not_shown_daytime:
  assumes "china_minute now < 1080"
  shows "now < predNotYetShown now \<and> predNotYetShown now \<le> now + hours 63"
proof (cases "china_minute now div 60 = 9")
  case True
  then have "china_minute now < 600" using int_div_less_iff [of 60 "china_minute now" 10] by simp
  then have "now < china_at (china_day now) 930" using before_own_minute [of 930 now] by simp
  moreover have "china_at (china_day now) 930 \<le> china_at (china_day now) 0 + hours 63"
    by (simp add: china_at_def hours_def second_def)
  ultimately show ?thesis using True china_day_le [of now] by (simp add: predNotYetShown_def)
next
  case False
  have "china_minute now div 60 < 18" using assms by (simp add: int_div_less_iff)
  then show ?thesis using False by (simp add: predNotYetShown_def minutes_def hours_def)
qed

lemma not_shown_future: "now < predNotYetShown now"
  using not_shown_evening [of now] not_shown_daytime [of now]
  by (cases "1080 \<le> china_minute now") auto

text \<open>
  The next attempt at a session the vendor does not show yet is always strictly in the
  future and at most 63 hours away, and once the evening has come it falls at 09:00 of a later day
  that is not a weekend day.
\<close>

theorem not_shown_retry_bounds:
  "now < predNotYetShown now \<and> predNotYetShown now \<le> now + hours 63 \<and>
   (if 1080 \<le> china_minute now
    then \<exists>d. china_day now < d \<and> \<not> is_weekend d \<and> predNotYetShown now = china_at d (9 * 60)
    else china_day (predNotYetShown now) = china_day now \<or> predNotYetShown now = now + minutes 10)"
proof (cases "1080 \<le> china_minute now")
  case True
  then show ?thesis using not_shown_evening [OF True] by auto
next
  case False
  then have "china_minute now div 60 < 18" by (simp add: int_div_less_iff)
  then show ?thesis using False not_shown_daytime [of now]
    by (auto simp: predNotYetShown_def Let_def china_day_at)
qed

end
