(* ===== verification/Forecast_Series.thy ===== *)
theory Forecast_Series
  imports Complex_Main Forecast_Schedule
begin

text \<open>
  The series helpers of forecast_eval.go: which bar a date picks, the traded range of a window, the
  completed sessions, the start bar of a set, the basis-point return and the corporate-action
  evidence. Prices are 64-bit fen; arithmetic wraps as Go's does. The lemmas characterise each scan
  by what it selects, so the settlement theory never unfolds a loop.
\<close>

section \<open>Scans for a bar\<close>

text \<open>
  The three loops that keep the latest eligible bar (\<open>lastBarAtOrBefore\<close>, \<open>lastBarInWindow\<close>,
  \<open>barBefore\<close>) differ only in the eligibility test; a tie keeps the earlier element.
\<close>

fun latest_bar :: "(QuoteBar \<Rightarrow> bool) \<Rightarrow> QuoteBar list \<Rightarrow> QuoteBar option \<Rightarrow> QuoteBar option" where
  "latest_bar ok [] best = best"
| "latest_bar ok (b # bs) best =
     (if ok b \<and> (case best of None \<Rightarrow> True | Some c \<Rightarrow> qb_Date c < qb_Date b)
      then latest_bar ok bs (Some b) else latest_bar ok bs best)"

definition lastBarAtOrBefore :: "QuoteBar list \<Rightarrow> string \<Rightarrow> QuoteBar option" where
  "lastBarAtOrBefore bars date = latest_bar (\<lambda>b. qb_Date b \<le> date) bars None"

definition lastBarInWindow :: "QuoteBar list \<Rightarrow> string \<Rightarrow> string \<Rightarrow> QuoteBar option" where
  "lastBarInWindow bars lo before =
     latest_bar (\<lambda>b. \<not> (before \<le> qb_Date b \<or> lo \<noteq> [] \<and> qb_Date b < lo)) bars None"

definition barBefore :: "QuoteBar list \<Rightarrow> string \<Rightarrow> QuoteBar option" where
  "barBefore bars date = latest_bar (\<lambda>b. qb_Date b < date) bars None"

definition barOn :: "QuoteBar list \<Rightarrow> string \<Rightarrow> QuoteBar option" where
  "barOn bars date = find (\<lambda>b. qb_Date b = date) bars"

fun containsDate :: "string list \<Rightarrow> string \<Rightarrow> bool" where
  "containsDate [] date = False"
| "containsDate (d # ds) date =
     (if d = date then True else if date < d then False else containsDate ds date)"

fun lowHigh_scan :: "string \<Rightarrow> string \<Rightarrow> QuoteBar list \<Rightarrow> (int \<times> int) option \<Rightarrow> (int \<times> int) option" where
  "lowHigh_scan from to [] acc = acc"
| "lowHigh_scan from to (b # bs) acc =
     (if qb_Date b \<le> from \<or> to < qb_Date b then lowHigh_scan from to bs acc
      else lowHigh_scan from to bs
        (case acc of
           None \<Rightarrow> Some (qb_Low b, qb_High b)
         | Some (lo, hi) \<Rightarrow> Some (if qb_Low b < lo then qb_Low b else lo,
                                  if hi < qb_High b then qb_High b else hi)))"

definition lowHighBetween :: "QuoteBar list \<Rightarrow> string \<Rightarrow> string \<Rightarrow> (int \<times> int) option" where
  "lowHighBetween bars from to = lowHigh_scan from to bars None"

definition hasZeroVolumeBar :: "QuoteBar list \<Rightarrow> bool" where
  "hasZeroVolumeBar bars = list_ex (\<lambda>b. qb_Volume b \<le> 0) bars"

section \<open>Sessions\<close>

definition completedSessions :: "forecastSeries \<Rightarrow> instant \<Rightarrow> string list" where
  "completedSessions cal now =
     (let today = china_date now; stamp = predSessionStamp now in
      sort (map qb_Date (filter (\<lambda>b. \<not> (today < qb_Date b) \<and> \<not> (qb_Date b = today \<and> \<not> stamp)) (fs_Bars cal))))"

definition sessionsPastDue :: "string list \<Rightarrow> string \<Rightarrow> int" where
  "sessionsPastDue sessions due = int (length (filter (\<lambda>s. due < s) sessions))"

section \<open>The start bar\<close>

datatype startError = NoSessionYet | NoBaseInWindow

record startBar =
  sb_S0 :: string
  sb_BaseDate :: string
  sb_S0Fen :: int
  sb_Err :: "startError option"

definition resolveStartBar ::
  "QuoteBar list \<Rightarrow> forecastWorkSet \<Rightarrow> instant \<Rightarrow> string list \<Rightarrow> startBar" where
  "resolveStartBar stock ws madeAt sessions =
     (case (if ws_S0Date ws = [] then predS0 madeAt sessions else Some (ws_S0Date ws)) of
        None \<Rightarrow> \<lparr>sb_S0 = [], sb_BaseDate = [], sb_S0Fen = 0, sb_Err = Some NoSessionYet\<rparr>
      | Some s0 \<Rightarrow>
          (case barOn stock s0 of
             Some bar \<Rightarrow> \<lparr>sb_S0 = s0, sb_BaseDate = s0, sb_S0Fen = qb_Close bar, sb_Err = None\<rparr>
           | None \<Rightarrow>
               (let lo = (if ws_MadeOn ws \<noteq> [] then shiftDays (ws_MadeOn ws) (- predReferenceLagDays) else [])
                in case lastBarInWindow stock lo s0 of
                     Some bar \<Rightarrow> \<lparr>sb_S0 = s0, sb_BaseDate = qb_Date bar, sb_S0Fen = qb_Close bar, sb_Err = None\<rparr>
                   | None \<Rightarrow> \<lparr>sb_S0 = s0, sb_BaseDate = [], sb_S0Fen = 0, sb_Err = Some NoBaseInWindow\<rparr>)))"

section \<open>Fixed-width price arithmetic\<close>

definition bpFromRatio :: "int \<Rightarrow> int \<Rightarrow> int" where
  "bpFromRatio to from =
     (if from = 0 then 0
      else (let num = wrap64 (wrap64 (to - from) * 10000); half = go_quot from 2 in
            if 0 \<le> num then wrap32 (go_quot (wrap64 (num + half)) from)
            else wrap32 (go_quot (wrap64 (num - half)) from)))"

definition roundHalfUp :: "int \<Rightarrow> int \<Rightarrow> int" where
  "roundHalfUp num den =
     (if den \<le> 0 then 0
      else if 0 \<le> num then go_quot (wrap64 (num + go_quot den 2)) den
      else go_quot (wrap64 (num - go_quot den 2)) den)"

definition beyondLimitPrice :: "int \<Rightarrow> int \<Rightarrow> int \<Rightarrow> bool" where
  "beyondLimitPrice prevFen closeFen limitBp =
     (let up = roundHalfUp (wrap64 (prevFen * wrap64 (10000 + limitBp))) 10000;
          down = roundHalfUp (wrap64 (prevFen * wrap64 (10000 - limitBp))) 10000
      in closeFen > wrap64 (up + 1) \<or> closeFen < wrap64 (down - 1))"

definition abs64 :: "int \<Rightarrow> int" where
  "abs64 v = (if v < 0 then wrap64 (- v) else v)"

definition adjustRatioChanged :: "int \<Rightarrow> int \<Rightarrow> int \<Rightarrow> int \<Rightarrow> bool" where
  "adjustRatioChanged q1 p1 q2 p2 =
     (if p1 \<le> 0 \<or> p2 \<le> 0 \<or> q1 \<le> 0 \<or> q2 \<le> 0 then False
      else (let diff = abs64 (wrap64 (wrap64 (q1 * p2) - wrap64 (q2 * p1)));
                bound = wrap64 (go_quot (wrap64 (q1 + p1 + q2 + p2)) 2 + 1)
            in diff > bound))"

section \<open>Corporate actions\<close>

definition marketPrefix :: "string \<Rightarrow> string" where
  "marketPrefix code =
     (if length code \<noteq> 6 \<or> \<not> all_digits code then []
      else if hd code = CHR ''6'' then ''sh''
      else if hd code \<in> {CHR ''0'', CHR ''2'', CHR ''3''} then ''sz''
      else if hd code \<in> {CHR ''4'', CHR ''8'', CHR ''9''} then ''bj''
      else [])"

definition predDailyLimitBp :: "string \<Rightarrow> int" where
  "predDailyLimitBp symbol =
     (if has_prefix symbol ''300'' \<or> has_prefix symbol ''301'' \<or> has_prefix symbol ''688'' \<or>
         has_prefix symbol ''689'' then 2000
      else if marketPrefix symbol = ''bj'' then 3000 else 1000)"

fun gap_scan :: "string \<Rightarrow> QuoteBar list \<Rightarrow> string \<Rightarrow> string \<Rightarrow> bool \<Rightarrow> nat \<Rightarrow> QuoteBar list \<Rightarrow> bool" where
  "gap_scan symbol stock from to listing i [] = False"
| "gap_scan symbol stock from to listing i (b # bs) =
     (if qb_Date b \<le> from \<or> to < qb_Date b then gap_scan symbol stock from to listing (Suc i) bs
      else if listing \<and> i < 5 then gap_scan symbol stock from to listing (Suc i) bs
      else if (case barBefore stock (qb_Date b) of None \<Rightarrow> False
               | Some prev \<Rightarrow> 0 < qb_Close prev \<and>
                   beyondLimitPrice (qb_Close prev) (qb_Close b) (predDailyLimitBp symbol))
      then True else gap_scan symbol stock from to listing (Suc i) bs)"

text \<open>The index series is a parameter of the Go function that its body never reads.\<close>

definition corporateActionBetween ::
  "string \<Rightarrow> QuoteBar list \<Rightarrow> QuoteBar list \<Rightarrow> string list \<Rightarrow> string \<Rightarrow> string \<Rightarrow> string \<Rightarrow> bool" where
  "corporateActionBetween symbol stock index exDates from to seriesFrom =
     (if list_ex (\<lambda>d. from < d \<and> d \<le> to) exDates then True
      else (let listing = (seriesFrom \<noteq> [] \<and> stock \<noteq> [] \<and> seriesFrom \<le> qb_Date (hd stock))
            in gap_scan symbol stock from to listing 0 stock))"

section \<open>What the scans select\<close>

lemma latest_bar_Some:
  assumes "latest_bar ok bs best = Some c" "\<And>b. best = Some b \<Longrightarrow> ok b"
  shows "ok c \<and> (c \<in> set bs \<or> best = Some c) \<and>
         (\<forall>b\<in>set bs. ok b \<longrightarrow> qb_Date b \<le> qb_Date c) \<and>
         (\<forall>b. best = Some b \<longrightarrow> qb_Date b \<le> qb_Date c)"
  using assms
proof (induction ok bs best rule: latest_bar.induct)
  case (1 ok best)
  then show ?case by simp
next
  case (2 ok b bs best)
  show ?case
  proof (cases "ok b \<and> (case best of None \<Rightarrow> True | Some c \<Rightarrow> qb_Date c < qb_Date b)")
    case True
    then have "ok c \<and> (c \<in> set bs \<or> b = c) \<and> (\<forall>b\<in>set bs. ok b \<longrightarrow> qb_Date b \<le> qb_Date c) \<and>
               qb_Date b \<le> qb_Date c"
      using "2.IH"(1) [OF True] "2.prems" by auto
    then show ?thesis using True by (auto split: option.splits)
  next
    case False
    then have ih: "ok c \<and> (c \<in> set bs \<or> best = Some c) \<and>
        (\<forall>b\<in>set bs. ok b \<longrightarrow> qb_Date b \<le> qb_Date c) \<and> (\<forall>b. best = Some b \<longrightarrow> qb_Date b \<le> qb_Date c)"
      using "2.IH"(2) [OF False] "2.prems" by auto
    then have "ok b \<longrightarrow> qb_Date b \<le> qb_Date c"
      using False by (auto split: option.splits)
    then show ?thesis using ih by auto
  qed
qed

lemma latest_bar_None: "latest_bar ok bs best = None \<longleftrightarrow> best = None \<and> (\<forall>b\<in>set bs. \<not> ok b)"
  by (induction ok bs best rule: latest_bar.induct) (auto split: option.splits)

lemma lastBarAtOrBefore_Some:
  assumes "lastBarAtOrBefore bars date = Some c"
  shows "c \<in> set bars \<and> qb_Date c \<le> date \<and> (\<forall>b\<in>set bars. qb_Date b \<le> date \<longrightarrow> qb_Date b \<le> qb_Date c)"
  using latest_bar_Some [OF assms [unfolded lastBarAtOrBefore_def]] by auto

lemma lastBarAtOrBefore_None:
  "lastBarAtOrBefore bars date = None \<longleftrightarrow> (\<forall>b\<in>set bars. date < qb_Date b)"
  by (auto simp: lastBarAtOrBefore_def latest_bar_None not_le)

lemma barBefore_Some:
  assumes "barBefore bars date = Some c"
  shows "c \<in> set bars \<and> qb_Date c < date \<and> (\<forall>b\<in>set bars. qb_Date b < date \<longrightarrow> qb_Date b \<le> qb_Date c)"
  using latest_bar_Some [OF assms [unfolded barBefore_def]] by auto

lemma lastBarInWindow_Some:
  assumes "lastBarInWindow bars lo before = Some c"
  shows "c \<in> set bars \<and> qb_Date c < before \<and> lo \<le> qb_Date c \<and>
         (\<forall>b\<in>set bars. lo \<le> qb_Date b \<and> qb_Date b < before \<longrightarrow> qb_Date b \<le> qb_Date c)"
  using latest_bar_Some [OF assms [unfolded lastBarInWindow_def]] by (auto simp: not_le not_less)

lemma lastBarInWindow_None:
  "lastBarInWindow bars lo before = None \<longleftrightarrow>
   (\<forall>b\<in>set bars. before \<le> qb_Date b \<or> qb_Date b < lo)"
  by (auto simp: lastBarInWindow_def latest_bar_None)

lemma barOn_Some: "barOn bars date = Some b \<Longrightarrow> b \<in> set bars \<and> qb_Date b = date"
  unfolding barOn_def by (metis (mono_tags, lifting) find_Some_iff nth_mem)

lemma barOn_None: "barOn bars date = None \<longleftrightarrow> date \<notin> qb_Date ` set bars"
  by (auto simp: barOn_def find_None_iff)

lemma containsDate_sorted: "sorted ds \<Longrightarrow> containsDate ds d \<longleftrightarrow> d \<in> set ds"
  by (induction ds) (auto simp: not_less dest: order.antisym leD)

lemma sorted_completedSessions [simp]: "sorted (completedSessions cal now)"
  by (simp add: completedSessions_def Let_def)

lemma set_completedSessions:
  "set (completedSessions cal now) =
   {d \<in> qb_Date ` set (fs_Bars cal). readSessionCompleted d now}"
  by (auto simp: completedSessions_def Let_def readSessionCompleted_def not_less le_less)

section \<open>Rounding\<close>

lemma round_nearest:
  assumes "0 < (m :: int)"
  shows "2 * \<bar>(n + m div 2) div m * m - n\<bar> \<le> m"
proof -
  define q r where "q = (n + m div 2) div m" and "r = (n + m div 2) mod m"
  have "n + m div 2 = q * m + r" by (simp add: q_def r_def)
  then have e: "q * m - n = m div 2 - r" by linarith
  have "0 \<le> r" "r < m" using assms by (simp_all add: r_def)
  moreover have "2 * (m div 2) \<le> m" "m \<le> 2 * (m div 2) + 1" by linarith+
  ultimately have "2 * \<bar>m div 2 - r\<bar> \<le> m" by (auto simp: abs_if)
  then show ?thesis unfolding q_def [symmetric] e .
qed

text \<open>The nearest integer to \<open>n / m\<close>, a tie away from zero.\<close>

definition nearest :: "int \<Rightarrow> int \<Rightarrow> int" where
  "nearest n m = (if 0 \<le> n then (n + m div 2) div m else - ((- n + m div 2) div m))"

lemma nearest_error: "0 < m \<Longrightarrow> 2 * \<bar>nearest n m * m - n\<bar> \<le> m"
  using round_nearest [of m n] round_nearest [of m "- n"] unfolding nearest_def
  by (auto simp: abs_if algebra_simps split: if_splits)

lemma nearest_le: "0 < m \<Longrightarrow> n \<le> k * m \<Longrightarrow> nearest n m \<le> k"
proof (rule ccontr)
  assume m: "0 < m" "n \<le> k * m" and "\<not> nearest n m \<le> k"
  then have "(k + 1) * m \<le> nearest n m * m" by (simp add: mult_right_mono)
  then show False using nearest_error [OF m(1), of n] m by (simp add: algebra_simps)
qed

lemma nearest_ge: "0 < m \<Longrightarrow> k * m \<le> n \<Longrightarrow> k \<le> nearest n m"
proof (rule ccontr)
  assume m: "0 < m" "k * m \<le> n" and "\<not> k \<le> nearest n m"
  then have "nearest n m * m \<le> (k - 1) * m" by (simp add: mult_right_mono)
  then show False using nearest_error [OF m(1), of n] m by (simp add: algebra_simps)
qed

text \<open>Two 64-bit bounds under which no intermediate of the price arithmetic overflows.\<close>

lemma roundHalfUp_nearest:
  assumes "0 \<le> n" "n \<le> 2 ^ 62"
  shows "roundHalfUp n 10000 = nearest n 10000"
  using assms by (simp add: roundHalfUp_def nearest_def)

lemma half_bounds: "0 < (m :: int) \<Longrightarrow> 0 \<le> m div 2 \<and> m div 2 < m"
  by linarith

lemma bpFromRatio_nearest:
  assumes "0 < from" "from \<le> 2 ^ 48" "0 \<le> to" "to \<le> 2 ^ 48"
  shows "bpFromRatio to from = wrap32 (nearest ((to - from) * 10000) from)"
proof -
  let ?n = "(to - from) * 10000"
  have h: "0 \<le> from div 2" "from div 2 < from" using half_bounds [OF assms(1)] by auto
  have w: "wrap64 (to - from) = to - from" "wrap64 ?n = ?n"
    "wrap64 (?n + from div 2) = ?n + from div 2" "wrap64 (?n - from div 2) = ?n - from div 2"
    using assms h by (simp_all add: wrap64_id)
  show ?thesis
  proof (cases "0 \<le> ?n")
    case True
    then show ?thesis using assms h by (simp add: bpFromRatio_def Let_def w nearest_def)
  next
    case False
    then have "?n - from div 2 < 0" using h by simp
    then have "go_quot (?n - from div 2) from = - ((- ?n + from div 2) div from)"
      using assms(1) by (simp add: go_quot_neg algebra_simps)
    then show ?thesis using False assms by (simp add: bpFromRatio_def Let_def w nearest_def)
  qed
qed

text \<open>
  The stored return is the exact return in basis points rounded to the nearest integer:
  for prices that fit 48 bits and a rise of less than 200000 times, twice the rounding error is at
  most the start price, so no overflow, truncation or sign error enters it, and a loss is never more
  than 10000 basis points.
\<close>

theorem return_is_nearest_bp:
  assumes "0 < from" "from \<le> 2 ^ 48" "0 \<le> to" "to \<le> 2 ^ 48" "to \<le> 200000 * from"
  shows "2 * \<bar>bpFromRatio to from * from - (to - from) * 10000\<bar> \<le> from \<and> - 10000 \<le> bpFromRatio to from"
proof -
  have "nearest ((to - from) * 10000) from \<le> 2000000000"
    using assms by (intro nearest_le) auto
  moreover have ge: "- 10000 \<le> nearest ((to - from) * 10000) from"
    using assms by (intro nearest_ge) auto
  ultimately have "bpFromRatio to from = nearest ((to - from) * 10000) from"
    using assms by (simp add: bpFromRatio_nearest wrap32_id)
  then show ?thesis using nearest_error [OF assms(1)] ge by simp
qed

lemma return_is_nearest_bp_witness:
  "2 * \<bar>bpFromRatio 10733 10100 * 10100 - (10733 - 10100) * 10000\<bar> \<le> 10100 \<and>
   - 10000 \<le> bpFromRatio 10733 10100"
  by (rule return_is_nearest_bp) simp_all

text \<open>
  The daily-limit backstop flags no legal move and misses no large one: a close within
  the board's percentage of the previous close is never called a corporate action, and a close that
  exceeds it by more than one and a half fen always is.
\<close>

theorem limit_backstop_exact:
  assumes "0 \<le> prev" "prev \<le> 2 ^ 40" "0 \<le> limitBp" "limitBp \<le> 10000"
  shows "(10000 * \<bar>close - prev\<bar> \<le> limitBp * prev \<longrightarrow> \<not> beyondLimitPrice prev close limitBp) \<and>
         (limitBp * prev + 15000 < 10000 * \<bar>close - prev\<bar> \<longrightarrow> beyondLimitPrice prev close limitBp)"
proof -
  define u d where "u = prev * (10000 + limitBp)" and "d = prev * (10000 - limitBp)"
  have "prev * limitBp \<le> 2 ^ 40 * 10000" using assms by (intro mult_mono) auto
  moreover have "0 \<le> prev * limitBp" "prev * limitBp \<le> prev * 10000" using assms by (auto intro: mult_left_mono)
  ultimately have b: "0 \<le> d" "d \<le> u" "u \<le> 2 ^ 62" using assms by (auto simp: u_def d_def algebra_simps)
  have w: "wrap64 (10000 + limitBp) = 10000 + limitBp" "wrap64 (10000 - limitBp) = 10000 - limitBp"
    "wrap64 u = u" "wrap64 d = d" using assms b by (simp_all add: wrap64_id)
  let ?up = "nearest u 10000" and ?down = "nearest d 10000"
  have e: "2 * \<bar>?up * 10000 - u\<bar> \<le> 10000" "2 * \<bar>?down * 10000 - d\<bar> \<le> 10000"
    by (rule nearest_error, simp)+
  have "0 \<le> ?up" "0 \<le> ?down" "?up \<le> 2 ^ 62" "?down \<le> 2 ^ 62"
    using b by (auto intro!: nearest_ge nearest_le)
  then have "wrap64 (?up + 1) = ?up + 1" "wrap64 (?down - 1) = ?down - 1" by simp_all
  then have "beyondLimitPrice prev close limitBp \<longleftrightarrow> close > ?up + 1 \<or> close < ?down - 1"
    using b by (simp add: beyondLimitPrice_def Let_def w u_def [symmetric] d_def [symmetric] roundHalfUp_nearest)
  then show ?thesis using e by (auto simp: u_def d_def algebra_simps abs_if split: if_splits)
qed

lemma limit_backstop_exact_witness:
  "\<not> beyondLimitPrice 100 110 1000 \<and> beyondLimitPrice 100 130 1000"
  using limit_backstop_exact [of 100 1000 110] limit_backstop_exact [of 100 1000 130] by simp

lemma half_step: "2 * d \<le> s + 1 \<Longrightarrow> d \<le> s div 2 + (1 :: int)"
  by linarith

lemma product_rounding:
  fixes q1 p2 Q1 P2 :: real
  assumes "\<bar>q1 - Q1\<bar> \<le> 1 / 2" "\<bar>p2 - P2\<bar> \<le> 1 / 2" "0 \<le> q1" "0 \<le> p2"
  shows "\<bar>q1 * p2 - Q1 * P2\<bar> \<le> (q1 + p2) / 2 + 1 / 4"
proof -
  have e: "q1 * p2 - Q1 * P2 = q1 * (p2 - P2) + (q1 - Q1) * p2 - (q1 - Q1) * (p2 - P2)"
    by (simp add: algebra_simps)
  have "\<bar>q1 * (p2 - P2)\<bar> \<le> q1 * (1 / 2)" "\<bar>(q1 - Q1) * p2\<bar> \<le> (1 / 2) * p2"
    "\<bar>(q1 - Q1) * (p2 - P2)\<bar> \<le> (1 / 2) * (1 / 2)"
    using assms by (simp_all only: abs_mult) (intro mult_mono; simp)+
  moreover have "\<bar>x + y - z\<bar> \<le> X + Y + Z" if "\<bar>x\<bar> \<le> X" "\<bar>y\<bar> \<le> Y" "\<bar>z\<bar> \<le> Z"
    for x y z X Y Z :: real using that by linarith
  ultimately have "\<bar>q1 * p2 - Q1 * P2\<bar> \<le> q1 * (1 / 2) + (1 / 2) * p2 + (1 / 2) * (1 / 2)"
    unfolding e by blast
  then show ?thesis by (simp add: field_simps)
qed

text \<open>
  The adjustment check has no false positive from rounding: if four real prices have the
  same adjusted-to-raw ratio on both dates, then their fen-rounded values are never reported as a
  changed ratio.
\<close>

theorem equal_ratio_not_flagged:
  fixes Q1 P1 Q2 P2 :: real
    and q1 p1 q2 p2 :: int
  assumes "Q1 * P2 = Q2 * P1"
    and "\<bar>of_int q1 - Q1\<bar> \<le> 1 / 2" "\<bar>of_int p1 - P1\<bar> \<le> 1 / 2"
        "\<bar>of_int q2 - Q2\<bar> \<le> 1 / 2" "\<bar>of_int p2 - P2\<bar> \<le> 1 / 2"
    and "q1 < 2 ^ 31" "p1 < 2 ^ 31" "q2 < 2 ^ 31" "p2 < 2 ^ 31"
  shows "\<not> adjustRatioChanged q1 p1 q2 p2"
proof (cases "p1 \<le> 0 \<or> p2 \<le> 0 \<or> q1 \<le> 0 \<or> q2 \<le> 0")
  case True
  then show ?thesis by (simp add: adjustRatioChanged_def)
next
  case False
  have r: "\<bar>real_of_int q1 * p2 - Q1 * P2\<bar> \<le> (real_of_int q1 + p2) / 2 + 1 / 4"
    "\<bar>real_of_int q2 * p1 - Q2 * P1\<bar> \<le> (real_of_int q2 + p1) / 2 + 1 / 4"
    using product_rounding [OF assms(2,5)] product_rounding [OF assms(4,3)] False by auto
  moreover have "\<bar>x - y\<bar> \<le> A + B" if "\<bar>x - t\<bar> \<le> A" "\<bar>y - t\<bar> \<le> B"
    for x y t A B :: real using that by linarith
  ultimately have "\<bar>real_of_int q1 * p2 - real_of_int q2 * p1\<bar> \<le>
      (real_of_int q1 + p2) / 2 + 1 / 4 + ((real_of_int q2 + p1) / 2 + 1 / 4)"
    using assms(1) by metis
  then have "real_of_int (2 * \<bar>q1 * p2 - q2 * p1\<bar>) \<le> real_of_int (q1 + p1 + q2 + p2 + 1)"
    by (simp add: field_simps)
  then have diff: "2 * \<bar>q1 * p2 - q2 * p1\<bar> \<le> q1 + p1 + q2 + p2 + 1" by (simp only: of_int_le_iff)
  have "q1 * p2 \<le> 2 ^ 31 * 2 ^ 31" "q2 * p1 \<le> 2 ^ 31 * 2 ^ 31"
    using assms(6-9) False by (intro mult_mono; linarith)+
  moreover have "0 < q1 * p2" "0 < q2 * p1" using False by auto
  ultimately have w: "wrap64 (q1 * p2) = q1 * p2" "wrap64 (q2 * p1) = q2 * p1"
    "wrap64 (q1 * p2 - q2 * p1) = q1 * p2 - q2 * p1" "wrap64 (- (q1 * p2 - q2 * p1)) = - (q1 * p2 - q2 * p1)"
    by simp_all
  have "0 \<le> (q1 + p1 + q2 + p2) div 2" "(q1 + p1 + q2 + p2) div 2 \<le> q1 + p1 + q2 + p2"
    using False by linarith+
  then have "wrap64 (q1 + p1 + q2 + p2) = q1 + p1 + q2 + p2"
    "wrap64 ((q1 + p1 + q2 + p2) div 2 + 1) = (q1 + p1 + q2 + p2) div 2 + 1"
    using assms False by simp_all
  moreover have "abs64 (q1 * p2 - q2 * p1) = \<bar>q1 * p2 - q2 * p1\<bar>" using w by (simp add: abs64_def)
  moreover have "\<bar>q1 * p2 - q2 * p1\<bar> \<le> (q1 + p1 + q2 + p2) div 2 + 1" using diff by (rule half_step)
  moreover have "go_quot (q1 + p1 + q2 + p2) 2 = (q1 + p1 + q2 + p2) div 2" using False by simp
  ultimately show ?thesis using False
    unfolding adjustRatioChanged_def Let_def by (simp only: w) (simp add: not_less)
qed

lemma equal_ratio_not_flagged_witness: "\<not> adjustRatioChanged 1001 2003 500 1001"
  by (rule equal_ratio_not_flagged [where ?Q1.0 = "10013 / 10" and ?P1.0 = "20026 / 10" and
        ?Q2.0 = "5003 / 10" and ?P2.0 = "10006 / 10"]) simp_all

end
