(* ===== verification/Forecast_Settle.thy ===== *)
theory Forecast_Settle
  imports Forecast_Series
begin

text \<open>
  The settlement rules of forecast_settle.go: whether the newest bar of a body may be believed,
  whether a set's emitted baseline is a price the market printed, and what one due checkpoint
  becomes. Every early return of the Go functions is a branch here; nothing reads a store or a clock
  except through the arguments.
\<close>

section \<open>The vendor's stamp\<close>

definition stamp_time :: "string \<Rightarrow> instant option" where
  "stamp_time asOf = parse_rfc3339 (trim_space asOf)"

definition stampProvesCurrent :: "string \<Rightarrow> string \<Rightarrow> bool" where
  "stampProvesCurrent asOf session =
     (case stamp_time asOf of
        None \<Rightarrow> False
      | Some t \<Rightarrow>
          (let d = china_date t in
           if session < d then True
           else if d < session then False
           else \<not> t < china_at (china_day t) predSessionCloseMinute))"

definition asOfDate :: "string \<Rightarrow> string" where
  "asOfDate asOf = (case stamp_time asOf of None \<Rightarrow> [] | Some t \<Rightarrow> china_date t)"

text \<open>The result pair is (final, unverifiable).\<close>

definition newestBarFinal :: "QuoteBar \<Rightarrow> string \<Rightarrow> instant \<Rightarrow> bool \<times> bool" where
  "newestBarFinal b asOf now =
     (let today = china_date now; st = asOfDate asOf in
      if st = [] then
        (if qb_Date b = today then (False, True) else (qb_Date b < today, False))
      else if qb_Date b < st then (True, False)
      else if st < qb_Date b then (False, False)
      else (case stamp_time asOf of
              None \<Rightarrow> (qb_Date b < today, False)
            | Some t \<Rightarrow>
                (\<not> t < china_at (china_day t) predSessionCloseMinute \<and> \<not> now < dateAtClose (qb_Date b),
                 False)))"

section \<open>Session lookups\<close>

fun dateKnownNotSession_scan :: "string list \<Rightarrow> string list \<Rightarrow> string \<Rightarrow> bool" where
  "dateKnownNotSession_scan sessions [] date = False"
| "dateKnownNotSession_scan sessions (s # ss) date =
     (if date < s then \<not> containsDate sessions date else dateKnownNotSession_scan sessions ss date)"

definition dateKnownNotSession :: "string list \<Rightarrow> string \<Rightarrow> bool" where
  "dateKnownNotSession sessions date = dateKnownNotSession_scan sessions sessions date"

definition lastSessionBefore :: "string list \<Rightarrow> string \<Rightarrow> string" where
  "lastSessionBefore sessions date = foldl (\<lambda>last s. if s < date then s else last) [] sessions"

definition lastSessionAtOrBefore :: "string list \<Rightarrow> string \<Rightarrow> string" where
  "lastSessionAtOrBefore sessions date = foldl (\<lambda>last s. if s \<le> date then s else last) [] sessions"

definition stockDatesNotIndexed :: "QuoteBar list \<Rightarrow> QuoteBar list \<Rightarrow> string \<Rightarrow> string \<Rightarrow> bool" where
  "stockDatesNotIndexed stock index from to =
     list_ex (\<lambda>b. \<not> (qb_Date b < from \<or> to < qb_Date b) \<and> barOn index (qb_Date b) = None) stock"

section \<open>The baseline check\<close>

definition close_at :: "QuoteBar list \<Rightarrow> string \<Rightarrow> int \<Rightarrow> bool" where
  "close_at stock l e =
     (case lastBarAtOrBefore stock l of None \<Rightarrow> False | Some b \<Rightarrow> qb_Close b = e)"

text \<open>\<open>Some c\<close> is a ready verdict, \<open>None\<close> the Go result that is not ready yet.\<close>

definition predBaseCheck ::
  "instant \<Rightarrow> int option \<Rightarrow> QuoteBar list \<Rightarrow> string list \<Rightarrow> string \<Rightarrow> string option" where
  "predBaseCheck madeAt emittedFen stock sessions unverifiableDate =
     (case emittedFen of
        None \<Rightarrow> Some baseMismatch
      | Some e \<Rightarrow>
          (let d = china_date madeAt; minute = china_minute madeAt;
               intraday = (9 * 60 + 30 \<le> minute \<and> minute < predSessionCloseMinute) in
           if intraday \<and> \<not> dateKnownNotSession sessions d then
             (if \<not> containsDate sessions d then None
              else if unverifiableDate = d then None
              else if (case barOn stock d of None \<Rightarrow> False | Some b \<Rightarrow> qb_Low b \<le> e \<and> e \<le> qb_High b)
                then Some baseMatch
              else (let p = lastSessionBefore sessions d in
                    if p \<noteq> [] \<and> close_at stock p e then Some baseMatch else Some baseMismatch))
           else if predSessionCloseMinute \<le> minute \<and> \<not> containsDate sessions d \<and>
                   \<not> dateKnownNotSession sessions d then None
           else (let l = (if intraday \<or> minute < 9 * 60 + 30 then lastSessionBefore sessions d
                          else lastSessionAtOrBefore sessions d) in
                 if l = [] then Some baseMismatch
                 else if unverifiableDate \<noteq> [] \<and> unverifiableDate = l then None
                 else (case lastBarAtOrBefore stock l of
                         None \<Rightarrow> Some baseMismatch
                       | Some b \<Rightarrow>
                           (if qb_Close b = e then Some baseMatch
                            else (let p = lastSessionBefore sessions l in
                                  if p \<noteq> [] \<and> close_at stock p e then Some baseMatch
                                  else Some baseMismatch))))))"

section \<open>Settling a checkpoint\<close>

record settleInput =
  si_Set :: forecastWorkSet
  si_Mark :: forecastMark
  si_Stock :: "QuoteBar list"
  si_Index :: "QuoteBar list"
  si_ExDates :: "string list"
  si_AsOf :: string
  si_UnverifiableDate :: string
  si_Source :: string
  si_Sessions :: "string list"
  si_S0 :: string
  si_BaseDate :: string
  si_S0Fen :: int
  si_Session :: string
  si_SeriesFrom :: string
  si_Adj :: "string \<rightharpoonup> int"
  si_AdjChecked :: bool
  si_Now :: instant
  si_Valve :: bool

definition settle_start :: "settleInput \<Rightarrow> markResult" where
  "settle_start inp =
     \<lparr>mr_Status = markResolved, mr_Refusal = [], mr_Session = si_Session inp, mr_BarDate = [],
      mr_Halted = False, mr_CorpAction = False, mr_CloseFen = None, mr_LowFen = None,
      mr_HighFen = None, mr_RetBp = None, mr_BenchRetBp = None,
      mr_Attempts = fm_Attempts (si_Mark inp), mr_Source = si_Source inp\<rparr>"

definition refuse_mark :: "string \<Rightarrow> markResult \<Rightarrow> markResult" where
  "refuse_mark code res = res\<lparr>mr_Status := markRefused, mr_Refusal := code\<rparr>"

text \<open>
  The halt decision once the last stock bar is known: \<open>Inl code\<close> refuses the mark, \<open>Inr h\<close> goes on
  with the halt flag \<open>h\<close>.
\<close>

definition settle_halt :: "settleInput \<Rightarrow> QuoteBar \<Rightarrow> string + bool" where
  "settle_halt inp bar =
     (if qb_Date bar < si_Session inp then
        (let evidence = stampProvesCurrent (si_AsOf inp) (si_Session inp);
             confirmed = 3 \<le> sessionsPastDue (si_Sessions inp) (si_Session inp) in
         if evidence then Inr True
         else if confirmed \<and> \<not> si_Valve inp then Inr True
         else if si_Valve inp then Inl ''calendar_lag''
         else Inl ''stale_bar'')
      else Inr False)"

text \<open>The adjusted-price leg: \<open>Inl code\<close> refuses, \<open>Inr c\<close> says whether the ratio moved.\<close>

definition settle_adjust :: "settleInput \<Rightarrow> QuoteBar \<Rightarrow> string + bool" where
  "settle_adjust inp bar =
     (if si_AdjChecked inp then
        (case (si_Adj inp (si_BaseDate inp), si_Adj inp (qb_Date bar)) of
           (Some qBase, Some qS) \<Rightarrow>
             (case barOn (si_Stock inp) (si_BaseDate inp) of
                None \<Rightarrow> Inr False
              | Some pBase \<Rightarrow> Inr (adjustRatioChanged qBase (qb_Close pBase) qS (qb_Close bar)))
         | _ \<Rightarrow> Inl ''fetch_failed'')
      else Inr False)"

definition settle_prices :: "settleInput \<Rightarrow> QuoteBar \<Rightarrow> int \<Rightarrow> int \<Rightarrow> bool \<Rightarrow> markResult" where
  "settle_prices inp bar sessClose s0Close halted =
     (let lh = lowHighBetween (si_Stock inp) (si_BaseDate inp) (si_Session inp) in
      (settle_start inp)\<lparr>
        mr_BarDate := qb_Date bar, mr_Halted := halted, mr_CloseFen := Some (qb_Close bar),
        mr_LowFen := map_option fst lh, mr_HighFen := map_option snd lh,
        mr_RetBp := (if 0 < si_S0Fen inp then Some (bpFromRatio (qb_Close bar) (si_S0Fen inp)) else None),
        mr_BenchRetBp := Some (bpFromRatio sessClose s0Close)\<rparr>)"

definition settleMark :: "settleInput \<Rightarrow> markResult" where
  "settleMark inp =
     (let res = settle_start inp in
      if si_UnverifiableDate inp \<noteq> [] \<and> si_Session inp = si_UnverifiableDate inp
      then refuse_mark ''unverifiable'' res
      else (case (barOn (si_Index inp) (si_S0 inp), barOn (si_Index inp) (si_Session inp)) of
        (Some s0Bar, Some sessBar) \<Rightarrow>
          (if qb_Close s0Bar \<le> 0 then refuse_mark ''unverifiable'' res
           else (case lastBarAtOrBefore (si_Stock inp) (si_Session inp) of
             None \<Rightarrow> refuse_mark ''no_bar'' res
           | Some bar \<Rightarrow>
               (if qb_Date bar < si_BaseDate inp then refuse_mark ''no_bar'' res
                else if (case barOn (si_Stock inp) (si_BaseDate inp) of
                           None \<Rightarrow> False | Some b \<Rightarrow> qb_Close b \<noteq> si_S0Fen inp)
                  then refuse_mark ''anchor_mismatch'' res
                else if stockDatesNotIndexed (si_Stock inp) (si_Index inp) (si_BaseDate inp) (si_Session inp)
                  then refuse_mark ''calendar_mismatch'' res
                else (case settle_halt inp bar of
                        Inl code \<Rightarrow> refuse_mark code (res\<lparr>mr_BarDate := qb_Date bar\<rparr>)
                      | Inr halted \<Rightarrow>
                          (let priced = settle_prices inp bar (qb_Close sessBar) (qb_Close s0Bar) halted in
                           case settle_adjust inp bar of
                             Inl code \<Rightarrow> refuse_mark code priced
                           | Inr moved \<Rightarrow>
                               priced\<lparr>mr_CorpAction := (moved \<or>
                                 corporateActionBetween (ws_Symbol (si_Set inp)) (si_Stock inp) (si_Index inp)
                                   (si_ExDates inp) (si_BaseDate inp) (si_Session inp) (si_SeriesFrom inp))\<rparr>)))))
      | _ \<Rightarrow> refuse_mark ''unverifiable'' res))"

section \<open>Lemmas on the lookups\<close>

lemma foldl_last: "foldl (\<lambda>last s. if P s then s else last) a ss = last (a # filter P ss)"
  by (induction ss arbitrary: a) auto

lemma lastSessionBefore_last: "lastSessionBefore ss d = last ([] # filter (\<lambda>s. s < d) ss)"
  by (simp only: lastSessionBefore_def foldl_last)

lemma lastSessionAtOrBefore_last: "lastSessionAtOrBefore ss d = last ([] # filter (\<lambda>s. s \<le> d) ss)"
  by (simp only: lastSessionAtOrBefore_def foldl_last)

lemma lastSessionBefore_less: "lastSessionBefore ss d \<noteq> [] \<Longrightarrow> lastSessionBefore ss d < d"
  using last_in_set [of "filter (\<lambda>s. s < d) ss"] by (auto simp: lastSessionBefore_last split: if_splits)

lemma lastSessionAtOrBefore_le: "lastSessionAtOrBefore ss d \<noteq> [] \<Longrightarrow> lastSessionAtOrBefore ss d \<le> d"
  using last_in_set [of "filter (\<lambda>s. s \<le> d) ss"] by (auto simp: lastSessionAtOrBefore_last split: if_splits)

lemma dateKnownNotSession_scan:
  "dateKnownNotSession_scan sessions ss d \<longleftrightarrow> (\<exists>s\<in>set ss. d < s) \<and> \<not> containsDate sessions d"
  by (induction ss) auto

lemma dateKnownNotSession_iff:
  "dateKnownNotSession ss d \<longleftrightarrow> (\<exists>s\<in>set ss. d < s) \<and> \<not> containsDate ss d"
  by (simp add: dateKnownNotSession_def dateKnownNotSession_scan)

lemma close_at_bar:
  "close_at stock l e \<Longrightarrow> \<exists>b\<in>set stock. qb_Date b \<le> l \<and> qb_Close b = e"
  by (auto simp: close_at_def split: option.splits dest!: lastBarAtOrBefore_Some)

definition in_window :: "string \<Rightarrow> string \<Rightarrow> QuoteBar \<Rightarrow> bool" where
  "in_window from to b \<longleftrightarrow> from < qb_Date b \<and> qb_Date b \<le> to"

text \<open>The accumulator of the low/high loop is the range of what it has seen.\<close>

definition range_of :: "QuoteBar list \<Rightarrow> (int \<times> int) option" where
  "range_of bs = (if bs = [] then None
                  else Some (Min (qb_Low ` set bs), Max (qb_High ` set bs)))"

lemma if_min_max:
  "(if x < y then x else y) = min x (y :: int)" "(if y < x then x else y) = max x (y :: int)"
  by (auto simp: min_def max_def)

lemma range_of_snoc:
  "range_of (bs @ [b]) =
   (case range_of bs of None \<Rightarrow> Some (qb_Low b, qb_High b)
    | Some (lo, hi) \<Rightarrow> Some (if qb_Low b < lo then qb_Low b else lo,
                            if hi < qb_High b then qb_High b else hi))"
  unfolding if_min_max by (cases "bs = []") (simp_all add: range_of_def)

lemma lowHigh_scan_range:
  "lowHigh_scan from to bs (range_of seen) = range_of (seen @ filter (in_window from to) bs)"
proof (induction bs arbitrary: seen)
  case Nil
  then show ?case by simp
next
  case (Cons b bs)
  show ?case
  proof (cases "in_window from to b")
    case True
    then have "lowHigh_scan from to (b # bs) (range_of seen) = lowHigh_scan from to bs (range_of (seen @ [b]))"
      by (auto simp: in_window_def range_of_snoc)
    then show ?thesis using Cons.IH [of "seen @ [b]"] True by simp
  next
    case False
    then show ?thesis using Cons.IH [of seen] by (auto simp: in_window_def not_less not_le)
  qed
qed

lemma lowHighBetween_range: "lowHighBetween bars from to = range_of (filter (in_window from to) bars)"
  using lowHigh_scan_range [of "from" "to" bars "[]"] by (simp add: lowHighBetween_def range_of_def)

section \<open>What a settled mark records\<close>

lemma settle_start_fields [simp]:
  "mr_Status (settle_start inp) = markResolved" "mr_Session (settle_start inp) = si_Session inp"
  by (simp_all add: settle_start_def)

lemma refuse_mark_fields [simp]:
  "mr_Status (refuse_mark code res) = markRefused" "mr_Refusal (refuse_mark code res) = code"
  by (simp_all add: refuse_mark_def)

lemma refused_not_resolved [simp]: "markRefused \<noteq> markResolved" "markResolved \<noteq> markRefused"
  by (simp_all add: go_const)

lemma settle_prices_fields [simp]:
  "mr_Status (settle_prices inp bar c s h) = markResolved"
  "mr_Session (settle_prices inp bar c s h) = si_Session inp"
  "mr_BarDate (settle_prices inp bar c s h) = qb_Date bar"
  "mr_Halted (settle_prices inp bar c s h) = h"
  "mr_CloseFen (settle_prices inp bar c s h) = Some (qb_Close bar)"
  "mr_RetBp (settle_prices inp bar c s h) =
     (if 0 < si_S0Fen inp then Some (bpFromRatio (qb_Close bar) (si_S0Fen inp)) else None)"
  "mr_BenchRetBp (settle_prices inp bar c s h) = Some (bpFromRatio c s)"
  by (simp_all add: settle_prices_def Let_def)

lemma settle_resolved_cases:
  assumes "mr_Status (settleMark inp) = markResolved"
  obtains s0Bar sessBar bar halted moved where
    "barOn (si_Index inp) (si_S0 inp) = Some s0Bar" "barOn (si_Index inp) (si_Session inp) = Some sessBar"
    "0 < qb_Close s0Bar" "lastBarAtOrBefore (si_Stock inp) (si_Session inp) = Some bar"
    "si_BaseDate inp \<le> qb_Date bar"
    "\<And>b. barOn (si_Stock inp) (si_BaseDate inp) = Some b \<Longrightarrow> qb_Close b = si_S0Fen inp"
    "\<not> stockDatesNotIndexed (si_Stock inp) (si_Index inp) (si_BaseDate inp) (si_Session inp)"
    "settle_halt inp bar = Inr halted" "settle_adjust inp bar = Inr moved"
    "\<not> (si_UnverifiableDate inp \<noteq> [] \<and> si_Session inp = si_UnverifiableDate inp)"
    "settleMark inp = (settle_prices inp bar (qb_Close sessBar) (qb_Close s0Bar) halted)\<lparr>mr_CorpAction :=
        (moved \<or> corporateActionBetween (ws_Symbol (si_Set inp)) (si_Stock inp) (si_Index inp)
           (si_ExDates inp) (si_BaseDate inp) (si_Session inp) (si_SeriesFrom inp))\<rparr>"
  using assms unfolding settleMark_def Let_def
  by (auto split: if_splits option.splits sum.splits simp: not_less not_le)

lemma settle_halt_Inr:
  "settle_halt inp bar = Inr h \<Longrightarrow>
   h = (qb_Date bar < si_Session inp) \<and>
   (h \<longrightarrow> stampProvesCurrent (si_AsOf inp) (si_Session inp) \<or>
          3 \<le> sessionsPastDue (si_Sessions inp) (si_Session inp) \<and> \<not> si_Valve inp)"
  by (auto simp: settle_halt_def Let_def split: if_splits)

lemma not_indexed_iff:
  "\<not> stockDatesNotIndexed stock index from to \<longleftrightarrow>
   (\<forall>b\<in>set stock. from \<le> qb_Date b \<and> qb_Date b \<le> to \<longrightarrow> qb_Date b \<in> qb_Date ` set index)"
  by (auto simp: stockDatesNotIndexed_def list_ex_iff barOn_None not_less)

text \<open>
  Property C14. A resolved mark is backed by evidence on every count: the close it stores is the
  stock's last close at or before the due session and not before the base date, the base bar still
  prints the stored start price, every stock bar of the window is a session of the index, the index
  leg runs from the start session to the due session, the halt flag is set exactly when the stock did
  not trade on the due session, and a halt is only recorded on the vendor's own stamp or after three
  further sessions with no feed-wide lag.
\<close>

theorem resolved_mark_sound:
  assumes "mr_Status (settleMark inp) = markResolved"
  shows "\<exists>bar s0Bar sessBar.
    lastBarAtOrBefore (si_Stock inp) (si_Session inp) = Some bar \<and>
    barOn (si_Index inp) (si_S0 inp) = Some s0Bar \<and> barOn (si_Index inp) (si_Session inp) = Some sessBar \<and>
    si_BaseDate inp \<le> qb_Date bar \<and> qb_Date bar \<le> si_Session inp \<and> 0 < qb_Close s0Bar \<and>
    (\<forall>b. barOn (si_Stock inp) (si_BaseDate inp) = Some b \<longrightarrow> qb_Close b = si_S0Fen inp) \<and>
    (\<forall>b\<in>set (si_Stock inp). si_BaseDate inp \<le> qb_Date b \<and> qb_Date b \<le> si_Session inp \<longrightarrow>
       qb_Date b \<in> qb_Date ` set (si_Index inp)) \<and>
    mr_Session (settleMark inp) = si_Session inp \<and> mr_BarDate (settleMark inp) = qb_Date bar \<and>
    mr_CloseFen (settleMark inp) = Some (qb_Close bar) \<and>
    mr_BenchRetBp (settleMark inp) = Some (bpFromRatio (qb_Close sessBar) (qb_Close s0Bar)) \<and>
    (0 < si_S0Fen inp \<longrightarrow> mr_RetBp (settleMark inp) = Some (bpFromRatio (qb_Close bar) (si_S0Fen inp))) \<and>
    mr_Halted (settleMark inp) = (qb_Date bar < si_Session inp) \<and>
    (mr_Halted (settleMark inp) \<longrightarrow> stampProvesCurrent (si_AsOf inp) (si_Session inp) \<or>
       3 \<le> sessionsPastDue (si_Sessions inp) (si_Session inp) \<and> \<not> si_Valve inp)"
proof -
  from settle_resolved_cases [OF assms] obtain s0Bar sessBar bar halted moved where
    r: "barOn (si_Index inp) (si_S0 inp) = Some s0Bar" "barOn (si_Index inp) (si_Session inp) = Some sessBar"
    "0 < qb_Close s0Bar" "lastBarAtOrBefore (si_Stock inp) (si_Session inp) = Some bar"
    "si_BaseDate inp \<le> qb_Date bar"
    "\<And>b. barOn (si_Stock inp) (si_BaseDate inp) = Some b \<Longrightarrow> qb_Close b = si_S0Fen inp"
    "\<not> stockDatesNotIndexed (si_Stock inp) (si_Index inp) (si_BaseDate inp) (si_Session inp)"
    and h: "settle_halt inp bar = Inr halted"
    and m: "settleMark inp = (settle_prices inp bar (qb_Close sessBar) (qb_Close s0Bar) halted)\<lparr>mr_CorpAction :=
        (moved \<or> corporateActionBetween (ws_Symbol (si_Set inp)) (si_Stock inp) (si_Index inp)
           (si_ExDates inp) (si_BaseDate inp) (si_Session inp) (si_SeriesFrom inp))\<rparr>"
    by metis
  have "qb_Date bar \<le> si_Session inp" using lastBarAtOrBefore_Some [OF r(4)] by simp
  then show ?thesis
    using r(1-6) r(7) [unfolded not_indexed_iff] settle_halt_Inr [OF h] m
    by (intro exI [of _ bar] exI [of _ s0Bar] exI [of _ sessBar]) simp
qed

text \<open>A suspended stock whose vendor body is stamped on a later session.\<close>

definition demo_bar :: "string \<Rightarrow> int \<Rightarrow> QuoteBar" where
  "demo_bar d c = \<lparr>qb_Date = d, qb_Open = c, qb_High = c + 5, qb_Low = c - 5, qb_Close = c, qb_Volume = 100\<rparr>"

definition demo_mark :: forecastMark where
  "demo_mark = \<lparr>fm_ID = 7, fm_Checkpoint = ''d5'', fm_Status = ''pending'', fm_Attempts = 0,
     fm_Refusal = [], fm_NextAttemptAt = [], fm_SessionDate = []\<rparr>"

definition demo_set :: forecastWorkSet where
  "demo_set = \<lparr>ws_SetID = 1, ws_Symbol = ''600519'', ws_Market = ''sh'', ws_MadeOn = ''2026-01-05'',
     ws_MadeAt = ''2026-01-05T10:00:00+08:00'', ws_HorizonEnd = [], ws_HorizonStd = True,
     ws_BenchCode = ''000300'', ws_BaseCheck = ''match'', ws_S0Date = ''2026-01-05'',
     ws_BaseDate = ''2026-01-05'', ws_S0Fen = Some 10000, ws_EmitFen = Some 10000, ws_Marks = [demo_mark]\<rparr>"

definition demo_settle :: settleInput where
  "demo_settle = \<lparr>si_Set = demo_set, si_Mark = demo_mark,
     si_Stock = [demo_bar ''2026-01-05'' 10000, demo_bar ''2026-01-06'' 10100],
     si_Index = map (\<lambda>d. demo_bar d 40000) [''2026-01-05'', ''2026-01-06'', ''2026-01-07''],
     si_ExDates = [], si_AsOf = ''2026-01-08T15:30:00+08:00'', si_UnverifiableDate = [],
     si_Source = ''tencent'', si_Sessions = [''2026-01-05'', ''2026-01-06'', ''2026-01-07''],
     si_S0 = ''2026-01-05'', si_BaseDate = ''2026-01-05'', si_S0Fen = 10000, si_Session = ''2026-01-07'',
     si_SeriesFrom = ''2025-12-26'', si_Adj = Map.empty, si_AdjChecked = False,
     si_Now = china_at 20461 1000, si_Valve = True\<rparr>"

lemma resolved_mark_sound_witness:
  "mr_Status (settleMark demo_settle) = markResolved \<and>
   (\<exists>bar. lastBarAtOrBefore (si_Stock demo_settle) (si_Session demo_settle) = Some bar \<and>
      mr_Halted (settleMark demo_settle) = (qb_Date bar < si_Session demo_settle))"
proof -
  have "mr_Status (settleMark demo_settle) = markResolved" by code_simp
  then show ?thesis using resolved_mark_sound [of demo_settle] by blast
qed

text \<open>
  A mark that does not resolve is refused with one of seven codes, each of a known
  refusal class, and a tripped feed-wide valve is never recorded as a fact about the stock: with the
  valve up a missing bar without vendor evidence is refused \<open>calendar_lag\<close>, which is source class.
\<close>

theorem settle_refusals_classified:
  "mr_Status (settleMark inp) \<in> {markResolved, markRefused} \<and>
   (mr_Status (settleMark inp) = markRefused \<longrightarrow>
     mr_Refusal (settleMark inp) \<in> {''unverifiable'', ''no_bar'', ''anchor_mismatch'', ''calendar_mismatch'',
       ''calendar_lag'', ''stale_bar'', ''fetch_failed''} \<and>
     mr_Refusal (settleMark inp) \<in> fst ` set predRefusalClass \<and>
     (si_Valve inp \<longrightarrow> mr_Refusal (settleMark inp) \<noteq> ''stale_bar''))"
proof -
  have halt: "settle_halt inp bar = Inl code \<Longrightarrow>
      code \<in> {''calendar_lag'', ''stale_bar''} \<and> (si_Valve inp \<longrightarrow> code \<noteq> ''stale_bar'')" for bar code
    by (auto simp: settle_halt_def Let_def split: if_splits)
  have adj: "settle_adjust inp bar = Inl code \<Longrightarrow> code = ''fetch_failed''" for bar code
    by (auto simp: settle_adjust_def split: if_splits option.splits)
  define codes where "codes = {''unverifiable'', ''no_bar'', ''anchor_mismatch'', ''calendar_mismatch'',
       ''calendar_lag'', ''stale_bar'', ''fetch_failed''}"
  define good where "good r \<longleftrightarrow> mr_Status r = markResolved \<or>
      mr_Status r = markRefused \<and> mr_Refusal r \<in> codes \<and> (si_Valve inp \<longrightarrow> mr_Refusal r \<noteq> ''stale_bar'')" for r :: markResult
  have refused: "good (refuse_mark code res)" if "code \<in> codes" "si_Valve inp \<longrightarrow> code \<noteq> ''stale_bar''"
    for code and res :: markResult using that by (simp add: good_def)
  have literal: "good (refuse_mark ''unverifiable'' res)" "good (refuse_mark ''no_bar'' res)"
    "good (refuse_mark ''anchor_mismatch'' res)" "good (refuse_mark ''calendar_mismatch'' res)"
    for res by (rule refused; simp add: codes_def)+
  have halted: "good (refuse_mark code res)" if "settle_halt inp bar = Inl code" for code bar and res :: markResult
    using halt [OF that] by (intro refused) (auto simp: codes_def)
  have adjusted: "good (refuse_mark code res)" if "settle_adjust inp bar = Inl code" for code bar and res :: markResult
    using adj [OF that] by (intro refused) (auto simp: codes_def)
  have resolved: "good ((settle_prices inp bar c s h)\<lparr>mr_CorpAction := x\<rparr>)" for bar c s h x
    by (simp add: good_def)
  have "good (settleMark inp)"
    unfolding settleMark_def Let_def
    by (simp add: literal resolved halted adjusted split: option.splits sum.splits)
  then show ?thesis by (auto simp: good_def codes_def predRefusalClass_def)
qed

lemma settle_refusals_classified_witness:
  "mr_Refusal (settleMark (demo_settle\<lparr>si_AsOf := []\<rparr>)) = ''calendar_lag'' \<and>
   mr_Refusal (settleMark (demo_settle\<lparr>si_AsOf := []\<rparr>)) \<in> fst ` set predRefusalClass"
proof -
  have r: "mr_Status (settleMark (demo_settle\<lparr>si_AsOf := []\<rparr>)) = markRefused"
    "mr_Refusal (settleMark (demo_settle\<lparr>si_AsOf := []\<rparr>)) = ''calendar_lag''" by code_simp+
  then show ?thesis
    using settle_refusals_classified [of "demo_settle\<lparr>si_AsOf := []\<rparr>"] by blast
qed

section \<open>The baseline verdict\<close>

lemma printed_close:
  "close_at stock l e \<Longrightarrow> l \<le> d \<Longrightarrow> \<exists>b\<in>set stock. qb_Date b \<le> d \<and> qb_Close b = e"
  using close_at_bar [of stock l e] by force

text \<open>
  A baseline is called a match only against a price the market had already printed: the
  emitted price is the close of some bar dated no later than the receipt day, or lies inside the
  range of the receipt day's own bar; a missing price never matches.
\<close>

theorem base_match_is_printed:
  assumes "predBaseCheck madeAt emittedFen stock sessions unverifiableDate = Some baseMatch"
  shows "\<exists>e. emittedFen = Some e \<and>
    (\<exists>b\<in>set stock. qb_Date b \<le> china_date madeAt \<and>
       (qb_Close b = e \<or> qb_Date b = china_date madeAt \<and> qb_Low b \<le> e \<and> e \<le> qb_High b))"
proof -
  let ?d = "china_date madeAt"
  have ne: "baseMismatch \<noteq> baseMatch" by (simp add: go_const)
  obtain e where e: "emittedFen = Some e"
    using assms ne by (cases emittedFen) (auto simp: predBaseCheck_def)
  have before: "lastSessionBefore sessions d \<noteq> [] \<Longrightarrow> lastSessionBefore sessions d \<le> d" for d
    using lastSessionBefore_less [of sessions d] by simp
  have "(\<exists>b. barOn stock ?d = Some b \<and> qb_Low b \<le> e \<and> e \<le> qb_High b) \<or>
        (\<exists>l. l \<le> ?d \<and> close_at stock l e)" (is "?range \<or> ?close")
    using assms ne unfolding e predBaseCheck_def Let_def option.case
    by (auto split: if_splits option.splits simp: close_at_def
        dest!: before lastSessionAtOrBefore_le intro: order.trans)
  then have "\<exists>b\<in>set stock. qb_Date b \<le> ?d \<and>
      (qb_Close b = e \<or> qb_Date b = ?d \<and> qb_Low b \<le> e \<and> e \<le> qb_High b)"
  proof
    assume ?range
    then show ?thesis using barOn_Some [of stock ?d] by (metis order_refl)
  next
    assume ?close
    then show ?thesis using printed_close [of stock _ e ?d] by metis
  qed
  then show ?thesis by (simp add: e)
qed

text \<open>
  The wait for a baseline ends: once the calendar shows any session after the receipt
  day and the body vouches for all its bars, the check has a verdict.
\<close>

theorem base_check_ready:
  assumes "sorted sessions" "\<exists>s\<in>set sessions. china_date madeAt < s"
  shows "predBaseCheck madeAt emittedFen stock sessions [] \<noteq> None"
proof -
  have known: "containsDate sessions (china_date madeAt) \<or> dateKnownNotSession sessions (china_date madeAt)"
    using assms(2) by (auto simp: dateKnownNotSession_iff)
  have d: "china_date madeAt \<noteq> []" by (simp add: china_date_def)
  show ?thesis
  proof (cases emittedFen)
    case None
    then show ?thesis by (simp add: predBaseCheck_def)
  next
    case (Some e)
    then show ?thesis using known d
      by (auto simp: predBaseCheck_def Let_def split: option.splits)
  qed
qed

lemma base_check_ready_witness:
  "predBaseCheck (china_at 20458 600) (Some 10002) [demo_bar ''2026-01-05'' 10000]
     [''2026-01-05'', ''2026-01-06''] [] \<noteq> None"
  by (rule base_check_ready) code_simp+

lemma base_match_is_printed_witness:
  "\<exists>e. Some 10002 = Some e \<and>
    (\<exists>b\<in>set [demo_bar ''2026-01-05'' 10000]. qb_Date b \<le> china_date (china_at 20458 600) \<and>
       (qb_Close b = e \<or> qb_Date b = china_date (china_at 20458 600) \<and> qb_Low b \<le> e \<and> e \<le> qb_High b))"
  by (rule base_match_is_printed [where sessions = "[''2026-01-05'', ''2026-01-06'']" and
        unverifiableDate = "[]"]) code_simp

section \<open>Whether today's bar may be believed\<close>

text \<open>
  A bar dated today is final only when both clocks say its session is over: the wall
  clock has passed 15:30 and the vendor's own stamp has reached the close of that day, unless the
  vendor stamps a later day. A bar the body cannot vouch for is dated today and is not final.
\<close>

theorem todays_bar_final_needs_both_clocks:
  "(fst (newestBarFinal b asOf now) \<and> qb_Date b = china_date now \<and> asOfDate asOf \<le> china_date now \<longrightarrow>
     dateAtClose (qb_Date b) \<le> now \<and> stampProvesCurrent asOf (qb_Date b)) \<and>
   (snd (newestBarFinal b asOf now) \<longrightarrow>
     qb_Date b = china_date now \<and> asOfDate asOf = [] \<and> \<not> fst (newestBarFinal b asOf now))"
proof (cases "stamp_time asOf")
  case None
  then show ?thesis by (auto simp: newestBarFinal_def asOfDate_def Let_def)
next
  case (Some t)
  then show ?thesis
    by (auto simp: newestBarFinal_def asOfDate_def stampProvesCurrent_def Let_def china_date_def not_less
        split: if_splits)
qed

lemma todays_bar_final_needs_both_clocks_witness:
  "dateAtClose ''2026-01-05'' \<le> china_at 20458 (15 * 60 + 40)"
proof -
  have f: "fst (newestBarFinal (demo_bar ''2026-01-05'' 10000) ''2026-01-05T15:05:00+08:00''
             (china_at 20458 (15 * 60 + 40)))"
    "qb_Date (demo_bar ''2026-01-05'' 10000) = china_date (china_at 20458 (15 * 60 + 40))"
    "asOfDate ''2026-01-05T15:05:00+08:00'' \<le> china_date (china_at 20458 (15 * 60 + 40))"
    "qb_Date (demo_bar ''2026-01-05'' 10000) = ''2026-01-05''"
    by code_simp+
  then show ?thesis
    using todays_bar_final_needs_both_clocks [of "demo_bar ''2026-01-05'' 10000"
        "''2026-01-05T15:05:00+08:00''" "china_at 20458 (15 * 60 + 40)"] by metis
qed

end
