(* ===== verification/Row_Table.thy ===== *)
theory Row_Table
  imports Prelude
begin

text \<open>
  A table as a list of rows and the two interfaces its users rely on: a guarded UPDATE, whose WHERE
  clause excludes frozen rows and whose SET clause keeps the key, and a column update, which moves
  one observation of a row by a known amount. The ledger's statements interpret them on their own
  guards and assignments, so that immutability is proved once, for all of them.
\<close>

definition update_where :: "('r \<Rightarrow> bool) \<Rightarrow> ('r \<Rightarrow> 'r) \<Rightarrow> 'r list \<Rightarrow> 'r list" where
  "update_where P f rows = map (\<lambda>r. if P r then f r else r) rows"

lemma length_update_where [simp]: "length (update_where P f rows) = length rows"
  by (simp add: update_where_def)

lemma update_where_Nil [simp]: "update_where P f [] = []"
  by (simp add: update_where_def)

lemma update_where_none: "\<forall>r\<in>set rows. \<not> P r \<Longrightarrow> update_where P f rows = rows"
  by (simp add: update_where_def map_idI)

text \<open>What survives a sequence of writes: the keys in order, and every frozen row whole.\<close>

definition row_kept :: "('r \<Rightarrow> bool) \<Rightarrow> ('r \<Rightarrow> 'k) \<Rightarrow> 'r \<Rightarrow> 'r \<Rightarrow> bool" where
  "row_kept frozen key r r' \<longleftrightarrow> key r' = key r \<and> (frozen r \<longrightarrow> r' = r)"

definition rows_kept :: "('r \<Rightarrow> bool) \<Rightarrow> ('r \<Rightarrow> 'k) \<Rightarrow> 'r list \<Rightarrow> 'r list \<Rightarrow> bool" where
  "rows_kept frozen key rows rows' \<longleftrightarrow>
     (\<exists>old new. rows' = old @ new \<and> list_all2 (row_kept frozen key) rows old)"

lemma row_kept_refl [simp]: "row_kept frozen key r r"
  by (simp add: row_kept_def)

lemma row_kept_trans: "row_kept frozen key a b \<Longrightarrow> row_kept frozen key b c \<Longrightarrow> row_kept frozen key a c"
  by (auto simp: row_kept_def)

lemma rows_keptI: "list_all2 (row_kept frozen key) rows old \<Longrightarrow> rows_kept frozen key rows (old @ new)"
  unfolding rows_kept_def by blast

lemma rows_keptE:
  assumes "rows_kept frozen key rows rows'"
  obtains old new where "rows' = old @ new" "list_all2 (row_kept frozen key) rows old"
  using assms unfolding rows_kept_def by blast

lemma rows_kept_refl [simp, intro]: "rows_kept frozen key rows rows"
  using rows_keptI [of frozen key rows rows "[]"] by (simp add: list.rel_refl)

lemma rows_kept_trans [trans]:
  assumes "rows_kept frozen key a b" "rows_kept frozen key b c"
  shows "rows_kept frozen key a c"
proof -
  obtain old new where b: "b = old @ new" "list_all2 (row_kept frozen key) a old"
    using assms(1) by (rule rows_keptE)
  obtain old' new' where c: "c = old' @ new'" "list_all2 (row_kept frozen key) b old'"
    using assms(2) by (rule rows_keptE)
  obtain o1 o2 where o: "old' = o1 @ o2" "list_all2 (row_kept frozen key) old o1"
    using c(2) unfolding b(1) by (auto simp: list_all2_append1)
  have "list_all2 (row_kept frozen key) a o1"
    using row_kept_trans b(2) o(2) by (rule list_all2_trans)
  then have "rows_kept frozen key a (o1 @ (o2 @ new'))" by (rule rows_keptI)
  then show ?thesis by (simp add: c(1) o(1))
qed

lemma rows_kept_frozen:
  assumes "rows_kept frozen key rows rows'" "r \<in> set rows" "frozen r"
  shows "r \<in> set rows'"
proof -
  obtain old new where "rows' = old @ new" and l: "list_all2 (row_kept frozen key) rows old"
    using assms(1) by (rule rows_keptE)
  moreover have "r \<in> set old"
    using l assms(2,3) by (auto simp: in_set_conv_nth list_all2_conv_all_nth row_kept_def)
  ultimately show ?thesis by simp
qed

lemma rows_kept_key:
  assumes "rows_kept frozen key rows rows'" "r \<in> set rows"
  shows "\<exists>r'\<in>set rows'. key r' = key r"
proof -
  obtain old new where "rows' = old @ new" and l: "list_all2 (row_kept frozen key) rows old"
    using assms(1) by (rule rows_keptE)
  moreover have "\<exists>r'\<in>set old. key r' = key r"
    using l assms(2) by (fastforce simp: in_set_conv_nth list_all2_conv_all_nth row_kept_def)
  ultimately show ?thesis by auto
qed

locale guarded_update =
  fixes guard :: "'r \<Rightarrow> bool" and assign :: "'r \<Rightarrow> 'r"
    and frozen :: "'r \<Rightarrow> bool" and key :: "'r \<Rightarrow> 'k"
  assumes guard_open: "guard r \<Longrightarrow> \<not> frozen r"
    and key_assign: "key (assign r) = key r"
begin

lemma kept: "rows_kept frozen key rows (update_where guard assign rows)"
proof -
  have "list_all2 (row_kept frozen key) rows (update_where guard assign rows)"
    using guard_open key_assign
    by (auto simp: update_where_def list_all2_conv_all_nth row_kept_def)
  from rows_keptI [OF this, of "[]"] show ?thesis by simp
qed

lemma map_key: "map key (update_where guard assign rows) = map key rows"
  by (simp add: update_where_def key_assign)

end

text \<open>A column the update leaves alone on every row.\<close>

locale column_keeping =
  fixes guard :: "'r \<Rightarrow> bool" and assign :: "'r \<Rightarrow> 'r" and column :: "'r \<Rightarrow> 'c"
  assumes column_assign: "guard r \<Longrightarrow> column (assign r) = column r"
begin

lemma map_column: "map column (update_where guard assign rows) = map column rows"
  by (simp add: update_where_def column_assign)

end

end
