(* ===== verification/Forecast_Store.thy ===== *)
theory Forecast_Store
  imports Forecast_Settle Row_Table "HOL-Library.Product_Lexorder" "HOL-Library.AList"
begin

text \<open>
  The ledger's tables and every statement that writes them (forecast_store.go,
  forecast_eval_store.go): inserting a set with its claims and pending marks, selecting due work,
  applying an evaluator plan in one transaction, and the one-shot repair of premature refusals. A
  statement is a function of the tables; a transaction returns the new tables or an error, which is
  the rollback. The WHERE guards are interpreted as guarded updates, and the ledger is a step
  relation whose reachable states keep the invariant and never change a terminal mark.
\<close>

section \<open>Tables\<close>

record markRow =
  pm_id :: int
  pm_set_id :: int
  pm_checkpoint :: string
  pm_status :: string
  pm_refusal :: string
  pm_attempts :: int
  pm_next_attempt_at :: string
  pm_session_date :: string
  pm_bar_date :: string
  pm_halted :: int
  pm_corp_action :: int
  pm_close_fen :: "int option"
  pm_low_fen :: "int option"
  pm_high_fen :: "int option"
  pm_ret_bp :: "int option"
  pm_bench_ret_bp :: "int option"
  pm_bench_code :: string
  pm_resolved_at :: string
  pm_source :: string

record setRow =
  ps_id :: int
  ps_report_id :: "int option"
  ps_row :: predSetRow
  ps_s0_date :: string
  ps_base_date :: string
  ps_s0_fen :: "int option"
  ps_base_check :: string

record claimRow =
  cl_set_id :: int
  cl_row :: predClaimRow

record ledger =
  lg_sets :: "setRow list"
  lg_claims :: "claimRow list"
  lg_marks :: "markRow list"
  lg_next_set :: int
  lg_next_mark :: int
  lg_meta :: "string \<rightharpoonup> string"

definition open_mark :: "markRow \<Rightarrow> bool" where
  "open_mark r \<longleftrightarrow> pm_status r = markPending \<or> pm_status r = markRefused"

definition terminal_mark :: "markRow \<Rightarrow> bool" where
  "terminal_mark r \<longleftrightarrow> pm_status r = markResolved \<or> pm_status r = markRefusedFinal"

definition mark_key :: "markRow \<Rightarrow> int \<times> int \<times> string" where
  "mark_key r = (pm_id r, pm_set_id r, pm_checkpoint r)"

lemma open_not_terminal_mark: "open_mark r \<Longrightarrow> \<not> terminal_mark r"
  by (auto simp: open_mark_def terminal_mark_def go_const)

section \<open>Inserting a set\<close>

definition pending_mark :: "int \<Rightarrow> int \<Rightarrow> string \<Rightarrow> string \<Rightarrow> markRow" where
  "pending_mark mid sid cp bench =
     \<lparr>pm_id = mid, pm_set_id = sid, pm_checkpoint = cp, pm_status = markPending, pm_refusal = [],
      pm_attempts = 0, pm_next_attempt_at = [], pm_session_date = [], pm_bar_date = [],
      pm_halted = 0, pm_corp_action = 0, pm_close_fen = None, pm_low_fen = None, pm_high_fen = None,
      pm_ret_bp = None, pm_bench_ret_bp = None, pm_bench_code = bench, pm_resolved_at = [], pm_source = []\<rparr>"

fun pending_marks :: "int \<Rightarrow> int \<Rightarrow> string \<Rightarrow> string list \<Rightarrow> markRow list" where
  "pending_marks mid sid bench [] = []"
| "pending_marks mid sid bench (cp # cps) = pending_mark mid sid cp bench # pending_marks (mid + 1) sid bench cps"

definition marks_for :: "predSetRow \<Rightarrow> string list" where
  "marks_for row = (if pr_State row = predStateAccepted then predMarkCheckpoints (pr_HorizonStd row = 1) else [])"

text \<open>
  The result pair is the set's id and whether the payload was already stored. Two claims with one key
  break the table's unique index, and the transaction rolls back.
\<close>

definition InsertPredictionSet ::
  "int \<Rightarrow> predSetRow \<Rightarrow> predClaimRow list \<Rightarrow> ledger \<Rightarrow> string + ((int \<times> bool) \<times> ledger)" where
  "InsertPredictionSet reportID row claims l =
     (case find (\<lambda>r. ps_report_id r = Some reportID \<and> pr_PayloadSHA (ps_row r) = pr_PayloadSHA row) (lg_sets l) of
        Some r \<Rightarrow> Inr ((ps_id r, True), l)
      | None \<Rightarrow>
          (if \<not> distinct (map pc_ClaimKey claims) then Inl ''unique''
           else (let sid = lg_next_set l;
                     new = \<lparr>ps_id = sid, ps_report_id = Some reportID, ps_row = row, ps_s0_date = [],
                            ps_base_date = [], ps_s0_fen = None, ps_base_check = baseCheckPending\<rparr>;
                     cps = marks_for row in
                 Inr ((sid, False),
                   l\<lparr>lg_sets := lg_sets l @ [new],
                     lg_claims := lg_claims l @ map (\<lambda>c. \<lparr>cl_set_id = sid, cl_row = c\<rparr>) claims,
                     lg_marks := lg_marks l @ pending_marks (lg_next_mark l) sid (pr_BenchCode row) cps,
                     lg_next_set := sid + 1,
                     lg_next_mark := lg_next_mark l + int (length cps)\<rparr>))))"

section \<open>Selecting due work\<close>

definition checkpoint_order :: "string \<Rightarrow> int" where
  "checkpoint_order cp = (case map_of (zip predCheckpoints [0, 1, 2, 3, 4]) cp of Some i \<Rightarrow> i | None \<Rightarrow> 99)"

definition work_mark :: "markRow \<Rightarrow> forecastMark" where
  "work_mark r = \<lparr>fm_ID = pm_id r, fm_Checkpoint = pm_checkpoint r, fm_Status = pm_status r,
     fm_Attempts = pm_attempts r, fm_Refusal = pm_refusal r, fm_NextAttemptAt = pm_next_attempt_at r,
     fm_SessionDate = pm_session_date r\<rparr>"

definition forecastWorkMarks :: "ledger \<Rightarrow> int \<Rightarrow> forecastMark list" where
  "forecastWorkMarks l sid =
     map work_mark (sort_key (\<lambda>r. checkpoint_order (pm_checkpoint r))
       (filter (\<lambda>r. pm_set_id r = sid \<and> open_mark r) (lg_marks l)))"

definition due_mark :: "string \<Rightarrow> markRow \<Rightarrow> bool" where
  "due_mark nowStr r \<longleftrightarrow> open_mark r \<and> (pm_next_attempt_at r = [] \<or> pm_next_attempt_at r \<le> nowStr)"

definition work_set :: "ledger \<Rightarrow> setRow \<Rightarrow> forecastWorkSet" where
  "work_set l r = (let p = ps_row r; mk = marketPrefix (pr_Symbol p) in
     \<lparr>ws_SetID = ps_id r, ws_Symbol = pr_Symbol p, ws_Market = (if mk = [] then ''sh'' else mk),
      ws_MadeOn = pr_MadeOn p, ws_MadeAt = pr_MadeAt p, ws_HorizonEnd = pr_HorizonEnd p,
      ws_HorizonStd = (pr_HorizonStd p = 1), ws_BenchCode = pr_BenchCode p,
      ws_BaseCheck = ps_base_check r, ws_S0Date = ps_s0_date r, ws_BaseDate = ps_base_date r,
      ws_S0Fen = ps_s0_fen r, ws_EmitFen = pr_EmittedBaseFen p, ws_Marks = forecastWorkMarks l (ps_id r)\<rparr>)"

definition predEvalBatch :: int where "predEvalBatch = 50"

definition ForecastSetsDue :: "ledger \<Rightarrow> instant \<Rightarrow> int \<Rightarrow> forecastWorkSet list" where
  "ForecastSetsDue l now limit =
     (let n = (if limit \<le> 0 then predEvalBatch else limit); nowStr = format_rfc3339 now;
          due = filter (\<lambda>r. pr_State (ps_row r) = predStateAccepted \<and>
                  list_ex (\<lambda>m. pm_set_id m = ps_id r \<and> due_mark nowStr m) (lg_marks l)) (lg_sets l)
      in map (work_set l) (take (nat n) (sort_key (\<lambda>r. (pr_MadeOn (ps_row r), ps_id r)) due)))"

section \<open>Plans\<close>

record forecastBaseline =
  fb_S0 :: string
  fb_BaseDate :: string
  fb_S0Fen :: int
  fb_Check :: string
  fb_Index :: "QuoteBar list"

record forecastDeferGroup =
  dg_marks :: "forecastMark list"
  dg_code :: string
  dg_session :: string

record forecastPlan =
  pl_setID :: int
  pl_wakes :: "(int \<times> instant) list"
  pl_defers :: "forecastDeferGroup list"
  pl_settles :: "(int \<times> markResult) list"
  pl_finals :: "(int \<times> string) list"
  pl_baseline :: "forecastBaseline option"
  pl_terminalBaseline :: bool

definition empty_plan :: "int \<Rightarrow> forecastPlan" where
  "empty_plan sid = \<lparr>pl_setID = sid, pl_wakes = [], pl_defers = [], pl_settles = [], pl_finals = [],
     pl_baseline = None, pl_terminalBaseline = False\<rparr>"

fun defer_into :: "forecastMark \<Rightarrow> string \<Rightarrow> string \<Rightarrow> forecastDeferGroup list \<Rightarrow> forecastDeferGroup list" where
  "defer_into m code session [] = [\<lparr>dg_marks = [m], dg_code = code, dg_session = session\<rparr>]"
| "defer_into m code session (g # gs) =
     (if dg_code g = code \<and> dg_session g = session then g\<lparr>dg_marks := dg_marks g @ [m]\<rparr> # gs
      else g # defer_into m code session gs)"

definition deferMark :: "forecastMark \<Rightarrow> string \<Rightarrow> string \<Rightarrow> forecastPlan \<Rightarrow> forecastPlan" where
  "deferMark m code session p = p\<lparr>pl_defers := defer_into m code session (pl_defers p)\<rparr>"

text \<open>A key of the wakes map, set once per mark.\<close>

definition set_wake :: "int \<Rightarrow> instant \<Rightarrow> forecastPlan \<Rightarrow> forecastPlan" where
  "set_wake mid t p = p\<lparr>pl_wakes := AList.update mid t (pl_wakes p)\<rparr>"

section \<open>The statements of a plan\<close>

definition predRetryBackoff :: "int \<Rightarrow> int" where
  "predRetryBackoff attempts =
     (if attempts \<le> 1 then hours 1 else if attempts = 2 then hours 6 else hours 24)"

definition by_id :: "int \<Rightarrow> markRow \<Rightarrow> bool" where
  "by_id mid r \<longleftrightarrow> pm_id r = mid \<and> open_mark r"

definition defer_assign :: "string \<Rightarrow> string \<Rightarrow> instant \<Rightarrow> forecastMark \<Rightarrow> markRow \<Rightarrow> markRow" where
  "defer_assign code session now m r =
     (let class = refusalClassOf code;
          next = (if class = refusalMarkSpecific then now + predRetryBackoff (fm_Attempts m + 1)
                  else if fm_Refusal m \<noteq> code then now + minutes 10 else now + hours 1)
      in r\<lparr>pm_status := markRefused, pm_refusal := code, pm_session_date := session,
           pm_attempts := (if class = refusalMarkSpecific then pm_attempts r + 1 else pm_attempts r),
           pm_next_attempt_at := format_rfc3339 next\<rparr>)"

fun DeferForecastMarks ::
  "forecastMark list \<Rightarrow> string \<Rightarrow> string \<Rightarrow> instant \<Rightarrow> markRow list \<Rightarrow> markRow list" where
  "DeferForecastMarks [] code session now rows = rows"
| "DeferForecastMarks (m # ms) code session now rows =
     DeferForecastMarks ms code session now
       (update_where (by_id (fm_ID m)) (defer_assign code session now m) rows)"

definition quoteSourceTencent :: string where "quoteSourceTencent = ''tencent''"

definition sourceOr :: "string \<Rightarrow> string" where
  "sourceOr source = (if source = [] then quoteSourceTencent else source)"

definition boolInt :: "bool \<Rightarrow> int" where
  "boolInt b = (if b then 1 else 0)"

definition not_terminal_id :: "int \<Rightarrow> markRow \<Rightarrow> bool" where
  "not_terminal_id mid r \<longleftrightarrow>
     pm_id r = mid \<and> pm_status r \<noteq> markResolved \<and> pm_status r \<noteq> markRefusedFinal"

definition settle_assign :: "markResult \<Rightarrow> instant \<Rightarrow> markRow \<Rightarrow> markRow" where
  "settle_assign res now r =
     r\<lparr>pm_status := mr_Status res, pm_refusal := mr_Refusal res, pm_session_date := mr_Session res,
       pm_bar_date := mr_BarDate res, pm_halted := boolInt (mr_Halted res),
       pm_corp_action := boolInt (mr_CorpAction res), pm_close_fen := mr_CloseFen res,
       pm_low_fen := mr_LowFen res, pm_high_fen := mr_HighFen res, pm_ret_bp := mr_RetBp res,
       pm_bench_ret_bp := mr_BenchRetBp res, pm_resolved_at := format_rfc3339 now,
       pm_source := sourceOr (mr_Source res)\<rparr>"

definition SettleForecastMark :: "int \<Rightarrow> markResult \<Rightarrow> instant \<Rightarrow> markRow list \<Rightarrow> markRow list" where
  "SettleForecastMark mid res now rows = update_where (not_terminal_id mid) (settle_assign res now) rows"

definition final_assign :: "string \<Rightarrow> instant \<Rightarrow> markRow \<Rightarrow> markRow" where
  "final_assign code now r =
     r\<lparr>pm_status := markRefusedFinal, pm_refusal := code, pm_attempts := pm_attempts r + 1,
       pm_resolved_at := format_rfc3339 now\<rparr>"

definition MarkRefusedFinal :: "int \<Rightarrow> string \<Rightarrow> instant \<Rightarrow> markRow list \<Rightarrow> markRow list" where
  "MarkRefusedFinal mid code now rows = update_where (by_id mid) (final_assign code now) rows"

definition wake_assign :: "instant \<Rightarrow> markRow \<Rightarrow> markRow" where
  "wake_assign wake r = r\<lparr>pm_next_attempt_at := format_rfc3339 wake\<rparr>"

definition wakeMark :: "int \<Rightarrow> instant \<Rightarrow> markRow list \<Rightarrow> markRow list" where
  "wakeMark mid wake rows = update_where (by_id mid) (wake_assign wake) rows"

definition baseline_open :: "int \<Rightarrow> setRow \<Rightarrow> bool" where
  "baseline_open sid r \<longleftrightarrow>
     ps_id r = sid \<and> (ps_base_check r = baseCheckPending \<or> ps_base_check r = baseRefused)"

definition finishForecastBaselineTx :: "int \<Rightarrow> forecastBaseline \<Rightarrow> ledger \<Rightarrow> bool \<times> ledger" where
  "finishForecastBaselineTx sid b l =
     (let check = (if fb_Check b = []
                   then (if barOn (fb_Index b) (fb_S0 b) \<noteq> None then baseMatch else baseMismatch)
                   else fb_Check b)
      in (list_ex (baseline_open sid) (lg_sets l),
          l\<lparr>lg_sets := update_where (baseline_open sid)
              (\<lambda>r. r\<lparr>ps_s0_date := fb_S0 b, ps_base_date := fb_BaseDate b, ps_s0_fen := Some (fb_S0Fen b),
                     ps_base_check := check\<rparr>) (lg_sets l)\<rparr>))"

definition terminal_assign :: "instant \<Rightarrow> markRow \<Rightarrow> markRow" where
  "terminal_assign now r =
     r\<lparr>pm_status := markRefusedFinal, pm_refusal := ''no_base'', pm_resolved_at := format_rfc3339 now\<rparr>"

definition finishForecastBaselineTerminalTx :: "int \<Rightarrow> instant \<Rightarrow> ledger \<Rightarrow> ledger" where
  "finishForecastBaselineTerminalTx sid now l =
     l\<lparr>lg_sets := update_where (baseline_open sid) (\<lambda>r. r\<lparr>ps_base_check := baseRefusedFinal\<rparr>) (lg_sets l),
       lg_marks := update_where (\<lambda>r. pm_set_id r = sid \<and> open_mark r) (terminal_assign now) (lg_marks l)\<rparr>"

section \<open>Applying a plan in one transaction\<close>

text \<open>
  \<open>hook\<close> is the store's \<open>onForecastApply\<close>: it is called before each statement with the statement's
  number and may fail it. A failed statement, or a baseline another pass wrote, aborts the
  transaction, so the caller keeps the tables it had.
\<close>

fun run_ops :: "(int \<Rightarrow> string option) \<Rightarrow> int \<Rightarrow> (ledger \<Rightarrow> string + ledger) list \<Rightarrow> ledger \<Rightarrow> string + ledger" where
  "run_ops hook k [] l = Inr l"
| "run_ops hook k (f # fs) l =
     (case hook k of
        Some e \<Rightarrow> Inl e
      | None \<Rightarrow> (case f l of Inl e \<Rightarrow> Inl e | Inr l' \<Rightarrow> run_ops hook (k + 1) fs l'))"

definition on_marks :: "(markRow list \<Rightarrow> markRow list) \<Rightarrow> ledger \<Rightarrow> string + ledger" where
  "on_marks f l = Inr (l\<lparr>lg_marks := f (lg_marks l)\<rparr>)"

definition errForecastBaselineRaced :: string where
  "errForecastBaselineRaced = ''forecast: baseline was written by another pass''"

definition baseline_op :: "int \<Rightarrow> forecastBaseline \<Rightarrow> ledger \<Rightarrow> string + ledger" where
  "baseline_op sid b l =
     (case finishForecastBaselineTx sid b l of
        (written, l') \<Rightarrow> if written then Inr l' else Inl errForecastBaselineRaced)"

definition plan_mark_ops :: "forecastPlan \<Rightarrow> instant \<Rightarrow> (markRow list \<Rightarrow> markRow list) list" where
  "plan_mark_ops p now =
     map (\<lambda>d. DeferForecastMarks (dg_marks d) (dg_code d) (dg_session d) now) (pl_defers p) @
     map (\<lambda>(mid, res). SettleForecastMark mid res now) (pl_settles p) @
     map (\<lambda>(mid, code). MarkRefusedFinal mid code now) (pl_finals p) @
     map (\<lambda>(mid, wake). wakeMark mid wake) (pl_wakes p)"

definition plan_ops :: "forecastPlan \<Rightarrow> instant \<Rightarrow> (ledger \<Rightarrow> string + ledger) list" where
  "plan_ops p now =
     (case pl_baseline p of None \<Rightarrow> [] | Some b \<Rightarrow> [baseline_op (pl_setID p) b]) @
     map on_marks (plan_mark_ops p now) @
     (if pl_terminalBaseline p then [\<lambda>l. Inr (finishForecastBaselineTerminalTx (pl_setID p) now l)] else [])"

definition ApplyForecastPlan ::
  "(int \<Rightarrow> string option) \<Rightarrow> forecastPlan \<Rightarrow> instant \<Rightarrow> ledger \<Rightarrow> string + ledger" where
  "ApplyForecastPlan hook p now l = run_ops hook 1 (plan_ops p now) l"

section \<open>The one-shot repair\<close>

definition setForecastRepairPremature :: string where
  "setForecastRepairPremature = ''forecast_state_repair_premature''"

definition premature :: "markRow \<Rightarrow> bool" where
  "premature r \<longleftrightarrow> pm_status r = markRefused \<and> pm_refusal r = ''no_bar'' \<and> pm_session_date r = [] \<and>
     pm_resolved_at r = []"

definition heal_assign :: "markRow \<Rightarrow> markRow" where
  "heal_assign r = r\<lparr>pm_status := markPending, pm_attempts := 0, pm_refusal := [], pm_next_attempt_at := []\<rparr>"

text \<open>\<open>GetSetting\<close>; the order of the set ids of the repair is the one \<open>SELECT DISTINCT\<close> left open.\<close>

definition get_setting :: "(string \<rightharpoonup> string) \<Rightarrow> string \<Rightarrow> string \<Rightarrow> string" where
  "get_setting m k d = (case m k of None \<Rightarrow> d | Some v \<Rightarrow> v)"

definition healPrematureRefusals :: "ledger \<Rightarrow> (int \<times> int list) \<times> ledger" where
  "healPrematureRefusals l =
     (if get_setting (lg_meta l) setForecastRepairPremature [] \<noteq> [] then ((0, []), l)
      else (let hit = filter premature (lg_marks l); n = int (length hit) in
        ((n, remdups (map pm_set_id hit)),
         l\<lparr>lg_marks := update_where premature heal_assign (lg_marks l),
           lg_meta := (lg_meta l)(setForecastRepairPremature \<mapsto> itoa n)\<rparr>)))"

section \<open>The guards\<close>

interpretation defer_upd: guarded_update "by_id mid" "defer_assign code session now m" terminal_mark mark_key
  for mid code session now m
  by unfold_locales
    (auto simp: by_id_def open_not_terminal_mark defer_assign_def Let_def mark_key_def)

interpretation settle_upd: guarded_update "not_terminal_id mid" "settle_assign res now" terminal_mark mark_key
  for mid res now
  by unfold_locales (auto simp: not_terminal_id_def terminal_mark_def settle_assign_def mark_key_def)

interpretation final_upd: guarded_update "by_id mid" "final_assign code now" terminal_mark mark_key
  for mid code now
  by unfold_locales (auto simp: by_id_def open_not_terminal_mark final_assign_def mark_key_def)

interpretation wake_upd: guarded_update "by_id mid" "wake_assign wake" terminal_mark mark_key
  for mid wake
  by unfold_locales (auto simp: by_id_def open_not_terminal_mark wake_assign_def mark_key_def)

interpretation terminal_upd: guarded_update "\<lambda>r. pm_set_id r = sid \<and> open_mark r" "terminal_assign now"
  terminal_mark mark_key for sid now
  by unfold_locales (auto simp: open_not_terminal_mark terminal_assign_def mark_key_def)

interpretation heal_upd: guarded_update premature heal_assign terminal_mark mark_key
  by unfold_locales (auto simp: premature_def terminal_mark_def heal_assign_def mark_key_def go_const)

text \<open>A set's evaluator columns are frozen once its baseline check is terminal.\<close>

definition baseline_settled :: "setRow \<Rightarrow> bool" where
  "baseline_settled r \<longleftrightarrow> ps_base_check r \<noteq> baseCheckPending \<and> ps_base_check r \<noteq> baseRefused"

definition set_key :: "setRow \<Rightarrow> int \<times> int option \<times> predSetRow" where
  "set_key r = (ps_id r, ps_report_id r, ps_row r)"

interpretation baseline_upd: guarded_update "baseline_open sid"
  "\<lambda>r. r\<lparr>ps_s0_date := d, ps_base_date := b, ps_s0_fen := f, ps_base_check := c\<rparr>" baseline_settled set_key
  for sid d b f c
  by unfold_locales (auto simp: baseline_open_def baseline_settled_def set_key_def)

interpretation refuse_base_upd: guarded_update "baseline_open sid" "\<lambda>r. r\<lparr>ps_base_check := c\<rparr>"
  baseline_settled set_key for sid c
  by unfold_locales (auto simp: baseline_open_def baseline_settled_def set_key_def)

text \<open>Columns a statement does not touch.\<close>

interpretation source_defer: column_keeping "by_id mid"
  "defer_assign code session now m" "\<lambda>r. if refusalClassOf code = refusalMarkSpecific then 0 else pm_attempts r"
  for mid code session now m
  by unfold_locales (auto simp: defer_assign_def Let_def)

interpretation settle_attempts: column_keeping "not_terminal_id mid" "settle_assign res now" pm_attempts
  for mid res now
  by unfold_locales (auto simp: settle_assign_def)

interpretation wake_attempts: column_keeping "by_id mid" "wake_assign wake" pm_attempts for mid wake
  by unfold_locales (auto simp: wake_assign_def)

interpretation terminal_attempts: column_keeping "\<lambda>r. pm_set_id r = sid \<and> open_mark r" "terminal_assign now"
  pm_attempts for sid now
  by unfold_locales (auto simp: terminal_assign_def)

section \<open>What every transaction keeps\<close>

definition ledger_kept :: "ledger \<Rightarrow> ledger \<Rightarrow> bool" where
  "ledger_kept l l' \<longleftrightarrow>
     rows_kept terminal_mark mark_key (lg_marks l) (lg_marks l') \<and>
     rows_kept baseline_settled set_key (lg_sets l) (lg_sets l')"

lemma ledger_kept_refl [simp, intro]: "ledger_kept l l"
  by (simp add: ledger_kept_def)

lemma ledger_kept_trans: "ledger_kept a b \<Longrightarrow> ledger_kept b c \<Longrightarrow> ledger_kept a c"
  unfolding ledger_kept_def by (auto intro: rows_kept_trans)

lemma defers_kept: "rows_kept terminal_mark mark_key rows (DeferForecastMarks ms code session now rows)"
  by (induction ms code session now rows rule: DeferForecastMarks.induct)
    (auto intro: rows_kept_trans defer_upd.kept)

lemma plan_mark_ops_kept:
  "f \<in> set (plan_mark_ops p now) \<Longrightarrow> rows_kept terminal_mark mark_key rows (f rows)"
  by (auto simp: plan_mark_ops_def SettleForecastMark_def MarkRefusedFinal_def wakeMark_def
      defers_kept settle_upd.kept final_upd.kept wake_upd.kept)

text \<open>A committed transaction relates its ends by anything each statement does.\<close>

lemma run_ops_rel:
  assumes refl: "\<And>a. R a a" and trans: "\<And>a b c. R a b \<Longrightarrow> R b c \<Longrightarrow> R a c"
    and ops: "\<forall>f\<in>set fs. \<forall>a b. f a = Inr b \<longrightarrow> R a b" and run: "run_ops hook k fs l = Inr l'"
  shows "R l l'"
  using ops run
proof (induction fs arbitrary: k l)
  case Nil
  then show ?case using refl by simp
next
  case (Cons f fs)
  obtain m where m: "f l = Inr m" "run_ops hook (k + 1) fs m = Inr l'"
    using Cons.prems(2) by (auto split: option.splits sum.splits)
  have "R l m" using Cons.prems(1) m(1) by simp
  moreover have "R m l'" using Cons.IH [OF _ m(2)] Cons.prems(1) by simp
  ultimately show ?case by (rule trans)
qed

lemma baseline_op_kept: "baseline_op sid b l = Inr l' \<Longrightarrow> ledger_kept l l'"
  using baseline_upd.kept
  by (auto simp: baseline_op_def finishForecastBaselineTx_def Let_def ledger_kept_def split: if_splits)

lemma terminal_op_kept: "ledger_kept l (finishForecastBaselineTerminalTx sid now l)"
  by (simp add: finishForecastBaselineTerminalTx_def ledger_kept_def terminal_upd.kept refuse_base_upd.kept)

lemma plan_ops_kept: "f \<in> set (plan_ops p now) \<Longrightarrow> f a = Inr b \<Longrightarrow> ledger_kept a b"
  by (auto simp: plan_ops_def on_marks_def ledger_kept_def plan_mark_ops_kept baseline_op_kept [unfolded ledger_kept_def]
      terminal_op_kept [unfolded ledger_kept_def] split: option.splits if_splits)

lemma apply_kept: "ApplyForecastPlan hook p now l = Inr l' \<Longrightarrow> ledger_kept l l'"
  unfolding ApplyForecastPlan_def
  by (rule run_ops_rel [where R = ledger_kept]) (auto intro: plan_ops_kept ledger_kept_trans)

lemma rows_kept_append [simp]: "rows_kept frozen key rows (rows @ new)"
  by (rule rows_keptI) (simp add: list.rel_refl)

lemma insert_kept: "InsertPredictionSet rid row claims l = Inr (r, l') \<Longrightarrow> ledger_kept l l'"
  by (auto simp: InsertPredictionSet_def ledger_kept_def Let_def split: option.splits if_splits)

lemma heal_kept: "healPrematureRefusals l = (r, l') \<Longrightarrow> ledger_kept l l'"
  by (auto simp: healPrematureRefusals_def ledger_kept_def Let_def heal_upd.kept split: if_splits)

section \<open>The ledger as a state machine\<close>

inductive ledger_step :: "ledger \<Rightarrow> ledger \<Rightarrow> bool" where
  step_insert: "InsertPredictionSet rid row claims l = Inr (r, l') \<Longrightarrow> ledger_step l l'"
| step_apply: "ApplyForecastPlan hook p now l = Inr l' \<Longrightarrow> ledger_step l l'"
| step_heal: "healPrematureRefusals l = (r, l') \<Longrightarrow> ledger_step l l'"

inductive_cases ledger_stepE: "ledger_step l l'"

lemma ledger_step_kept: "ledger_step l l' \<Longrightarrow> ledger_kept l l'"
  by (erule ledger_stepE) (auto intro: insert_kept apply_kept heal_kept)

lemma ledger_steps_kept: "ledger_step\<^sup>*\<^sup>* l l' \<Longrightarrow> ledger_kept l l'"
  by (induction rule: rtranclp_induct) (auto intro: ledger_kept_trans ledger_step_kept)

text \<open>
  Property C2. Conclusions are permanent: whatever sequence of ingests, evaluator plans and repairs
  the ledger goes through, a mark that is resolved or refused for good keeps its whole row, and a set
  whose baseline check is terminal keeps its start session, base date and start price.
\<close>

theorem terminal_rows_immutable:
  assumes "ledger_step\<^sup>*\<^sup>* l l'"
  shows "(\<forall>r\<in>set (lg_marks l). terminal_mark r \<longrightarrow> r \<in> set (lg_marks l')) \<and>
         (\<forall>r\<in>set (lg_sets l). baseline_settled r \<longrightarrow> r \<in> set (lg_sets l'))"
  using ledger_steps_kept [OF assms] unfolding ledger_kept_def by (auto intro: rows_kept_frozen)

section \<open>The ledger's invariant\<close>

definition marks_fit :: "setRow list \<Rightarrow> markRow \<Rightarrow> bool" where
  "marks_fit ss r \<longleftrightarrow> (\<exists>s\<in>set ss. ps_id s = pm_set_id r \<and> pm_checkpoint r \<in> set (marks_for (ps_row s)))"

definition ledger_inv :: "ledger \<Rightarrow> bool" where
  "ledger_inv l \<longleftrightarrow>
     distinct (map ps_id (lg_sets l)) \<and> (\<forall>s\<in>set (lg_sets l). ps_id s < lg_next_set l) \<and>
     distinct (map (\<lambda>s. (ps_report_id s, pr_PayloadSHA (ps_row s))) (lg_sets l)) \<and>
     distinct (map pm_id (lg_marks l)) \<and> (\<forall>r\<in>set (lg_marks l). pm_id r < lg_next_mark l) \<and>
     distinct (map (\<lambda>r. (pm_set_id r, pm_checkpoint r)) (lg_marks l)) \<and>
     (\<forall>r\<in>set (lg_marks l). marks_fit (lg_sets l) r)"

text \<open>The invariant reads a mark only through its key and a set only through its key.\<close>

lemma ledger_inv_keys:
  "ledger_inv l \<longleftrightarrow>
     (let sk = map set_key (lg_sets l); mk = map mark_key (lg_marks l) in
      distinct (map fst sk) \<and> (\<forall>s\<in>set sk. fst s < lg_next_set l) \<and>
      distinct (map (\<lambda>(i, rid, row). (rid, pr_PayloadSHA row)) sk) \<and>
      distinct (map fst mk) \<and> (\<forall>m\<in>set mk. fst m < lg_next_mark l) \<and>
      distinct (map snd mk) \<and>
      (\<forall>(i, sid, cp)\<in>set mk. \<exists>(j, rid, row)\<in>set sk. j = sid \<and> cp \<in> set (marks_for row)))"
proof -
  have "map fst (map set_key (lg_sets l)) = map ps_id (lg_sets l)"
    "map fst (map mark_key (lg_marks l)) = map pm_id (lg_marks l)"
    "map (\<lambda>(i, rid, row). (rid, pr_PayloadSHA row)) (map set_key (lg_sets l)) =
       map (\<lambda>s. (ps_report_id s, pr_PayloadSHA (ps_row s))) (lg_sets l)"
    "map snd (map mark_key (lg_marks l)) = map (\<lambda>r. (pm_set_id r, pm_checkpoint r)) (lg_marks l)"
    by (simp_all add: set_key_def mark_key_def)
  then show ?thesis
    unfolding ledger_inv_def Let_def
    by (auto simp: marks_fit_def mark_key_def set_key_def simp del: map_map)
qed

lemma ledger_inv_cong:
  "map set_key (lg_sets l') = map set_key (lg_sets l) \<Longrightarrow>
   map mark_key (lg_marks l') = map mark_key (lg_marks l) \<Longrightarrow>
   lg_next_set l' = lg_next_set l \<Longrightarrow> lg_next_mark l' = lg_next_mark l \<Longrightarrow> ledger_inv l \<Longrightarrow> ledger_inv l'"
  unfolding ledger_inv_keys by simp

definition same_keys :: "ledger \<Rightarrow> ledger \<Rightarrow> bool" where
  "same_keys l l' \<longleftrightarrow>
     map set_key (lg_sets l') = map set_key (lg_sets l) \<and> map mark_key (lg_marks l') = map mark_key (lg_marks l) \<and>
     lg_next_set l' = lg_next_set l \<and> lg_next_mark l' = lg_next_mark l"

lemma defers_keys: "map mark_key (DeferForecastMarks ms code session now rows) = map mark_key rows"
  by (induction ms code session now rows rule: DeferForecastMarks.induct) (simp_all add: defer_upd.map_key)

lemma plan_mark_ops_keys: "f \<in> set (plan_mark_ops p now) \<Longrightarrow> map mark_key (f rows) = map mark_key rows"
  by (auto simp: plan_mark_ops_def SettleForecastMark_def MarkRefusedFinal_def wakeMark_def
      defers_keys settle_upd.map_key final_upd.map_key wake_upd.map_key simp del: map_map)

lemma plan_ops_keys: "f \<in> set (plan_ops p now) \<Longrightarrow> f a = Inr b \<Longrightarrow> same_keys a b"
  by (auto simp: plan_ops_def on_marks_def same_keys_def plan_mark_ops_keys baseline_op_def
      finishForecastBaselineTx_def finishForecastBaselineTerminalTx_def Let_def
      baseline_upd.map_key refuse_base_upd.map_key terminal_upd.map_key
      split: option.splits if_splits simp del: map_map)

lemma apply_inv:
  assumes "ApplyForecastPlan hook p now l = Inr l'" "ledger_inv l"
  shows "ledger_inv l'"
proof -
  have "same_keys l l'"
    by (rule run_ops_rel [where R = same_keys, OF _ _ _ assms(1) [unfolded ApplyForecastPlan_def]])
      (auto simp: same_keys_def dest: plan_ops_keys [unfolded same_keys_def])
  then show ?thesis using assms(2) by (auto simp: same_keys_def intro: ledger_inv_cong)
qed

lemma heal_inv: "healPrematureRefusals l = (r, l') \<Longrightarrow> ledger_inv l \<Longrightarrow> ledger_inv l'"
  by (rule ledger_inv_cong [where l = l])
    (auto simp: healPrematureRefusals_def Let_def heal_upd.map_key split: if_splits simp del: map_map)

lemma pending_marks_keys:
  "r \<in> set (pending_marks mid sid bench cps) \<Longrightarrow>
   pm_set_id r = sid \<and> pm_checkpoint r \<in> set cps \<and> mid \<le> pm_id r \<and> pm_id r < mid + int (length cps)"
  by (induction mid sid bench cps rule: pending_marks.induct) (auto simp: pending_mark_def)

lemma pending_marks_checkpoints: "map pm_checkpoint (pending_marks mid sid bench cps) = cps"
  by (induction mid sid bench cps rule: pending_marks.induct) (auto simp: pending_mark_def)

lemma pending_marks_ids: "distinct (map pm_id (pending_marks mid sid bench cps))"
proof (induction mid sid bench cps rule: pending_marks.induct)
  case (2 mid sid bench cp cps)
  then show ?case using pending_marks_keys [of _ "mid + 1" sid bench cps]
    by (fastforce simp: pending_mark_def)
qed simp

lemma distinct_marks_for: "distinct (marks_for row)"
  by (simp add: marks_for_def predMarkCheckpoints_def predCheckpoints_def)

lemma insert_inv:
  assumes "InsertPredictionSet rid row claims l = Inr (r, l')" "ledger_inv l"
  shows "ledger_inv l'"
proof (cases "find (\<lambda>r. ps_report_id r = Some rid \<and> pr_PayloadSHA (ps_row r) = pr_PayloadSHA row) (lg_sets l)")
  case (Some x)
  then show ?thesis using assms by (auto simp: InsertPredictionSet_def)
next
  case None
  define sid where "sid = lg_next_set l"
  define new where "new = \<lparr>ps_id = sid, ps_report_id = Some rid, ps_row = row, ps_s0_date = [],
      ps_base_date = [], ps_s0_fen = None, ps_base_check = baseCheckPending\<rparr>"
  define ms where "ms = pending_marks (lg_next_mark l) sid (pr_BenchCode row) (marks_for row)"
  have l': "lg_sets l' = lg_sets l @ [new]" "lg_marks l' = lg_marks l @ ms"
    "lg_next_set l' = sid + 1" "lg_next_mark l' = lg_next_mark l + int (length (marks_for row))"
    using assms(1) None by (auto simp: InsertPredictionSet_def Let_def sid_def new_def ms_def split: if_splits)
  have old: "\<forall>m\<in>set (lg_marks l). pm_id m < lg_next_mark l \<and> pm_set_id m < sid"
    using assms(2) by (fastforce simp: ledger_inv_def marks_fit_def sid_def)
  have ms: "\<forall>m\<in>set ms. pm_set_id m = sid \<and> pm_checkpoint m \<in> set (marks_for row) \<and>
      lg_next_mark l \<le> pm_id m \<and> pm_id m < lg_next_mark l + int (length (marks_for row))"
    unfolding ms_def using pending_marks_keys by blast
  have "distinct (map pm_checkpoint ms)"
    unfolding ms_def pending_marks_checkpoints by (rule distinct_marks_for)
  then have "distinct (map (\<lambda>r. (pm_set_id r, pm_checkpoint r)) ms)"
    by (auto simp: distinct_map inj_on_def)
  moreover have "distinct (map pm_id ms)" unfolding ms_def by (rule pending_marks_ids)
  moreover have "\<forall>s\<in>set (lg_sets l). (ps_report_id s, pr_PayloadSHA (ps_row s)) \<noteq> (Some rid, pr_PayloadSHA row)"
    using None by (auto simp: find_None_iff)
  moreover have "\<forall>m\<in>set ms. marks_fit (lg_sets l') m"
    using ms by (auto simp: marks_fit_def l' new_def)
  moreover have "\<forall>m\<in>set (lg_marks l). marks_fit (lg_sets l') m"
    using assms(2) by (auto simp: ledger_inv_def marks_fit_def l')
  ultimately show ?thesis
    using assms(2) old ms unfolding ledger_inv_def l'
    by (fastforce simp: new_def sid_def)
qed

lemma ledger_step_inv: "ledger_step l l' \<Longrightarrow> ledger_inv l \<Longrightarrow> ledger_inv l'"
  by (erule ledger_stepE) (auto intro: insert_inv apply_inv heal_inv)

definition empty_ledger :: ledger where
  "empty_ledger = \<lparr>lg_sets = [], lg_claims = [], lg_marks = [], lg_next_set = 1, lg_next_mark = 1, lg_meta = Map.empty\<rparr>"

lemma ledger_reachable_inv: "ledger_step\<^sup>*\<^sup>* empty_ledger l \<Longrightarrow> ledger_inv l"
proof (induction rule: rtranclp_induct)
  case base
  then show ?case by (simp add: ledger_inv_def empty_ledger_def)
next
  case (step y z)
  then show ?case by (blast intro: ledger_step_inv)
qed


section \<open>A small ledger\<close>

definition demo_row :: predSetRow where
  "demo_row = \<lparr>pr_Symbol = ''600519'', pr_Rtype = [], pr_Version = [], pr_Title = [], pr_ReportDate = [],
     pr_MadeAt = ''2026-01-05T02:00:00Z'', pr_MadeOn = ''2026-01-05'', pr_Cohort = ''2026-01'',
     pr_Zone = ''Asia/Shanghai'', pr_State = ''accepted'', pr_Errors = [], pr_Payload = [], pr_Truncated = 0,
     pr_PayloadSHA = ''ab'', pr_BodySHA = [], pr_EmitterApp = [], pr_EmitterVersion = [], pr_Calculator = [],
     pr_SchemaName = [], pr_PolicyVersion = [], pr_ProbabilityMethod = [], pr_ProbabilityTransform = [],
     pr_ScenarioBasis = [], pr_DecisionStatus = [], pr_DecisionQuality = [], pr_InformationCutoff = [],
     pr_AttributedOU = None, pr_HorizonEnd = ''2026-06-30'', pr_HorizonStd = 0, pr_EmittedBaseFen = Some 10000,
     pr_EmittedBaseAsOf = [], pr_EmittedBaseSrc = [], pr_BenchCode = ''sh000852''\<rparr>"

definition demo_ledger :: ledger where
  "demo_ledger = (case InsertPredictionSet 9 demo_row [] empty_ledger of Inr (_, l) \<Rightarrow> l | Inl _ \<Rightarrow> empty_ledger)"

definition demo_final :: ledger where
  "demo_final = (case ApplyForecastPlan (\<lambda>_. None) ((empty_plan 1)\<lparr>pl_finals := [(1, ''no_bar'')]\<rparr>) 0 demo_ledger of
     Inr l \<Rightarrow> l | Inl _ \<Rightarrow> demo_ledger)"

lemma demo_reach: "ledger_step\<^sup>*\<^sup>* empty_ledger demo_ledger"
proof -
  have "\<exists>r. InsertPredictionSet 9 demo_row [] empty_ledger = Inr (r, demo_ledger)"
    by (intro exI [of _ "(1, False)"])
      (simp add: demo_ledger_def InsertPredictionSet_def empty_ledger_def Let_def)
  then show ?thesis by (blast intro: step_insert)
qed


lemma terminal_rows_immutable_witness:
  "hd (lg_marks demo_final) \<in> set (lg_marks (snd (healPrematureRefusals demo_final)))"
proof -
  have "ledger_step\<^sup>*\<^sup>* demo_final (snd (healPrematureRefusals demo_final))"
    by (metis prod.collapse r_into_rtranclp step_heal)
  moreover have "hd (lg_marks demo_final) \<in> set (lg_marks demo_final) \<and> terminal_mark (hd (lg_marks demo_final))"
    by code_simp
  ultimately show ?thesis using terminal_rows_immutable by blast
qed

section \<open>Attempts\<close>

definition mark_class :: "string \<Rightarrow> bool" where
  "mark_class code \<longleftrightarrow> refusalClassOf code = refusalMarkSpecific"

lemma defers_source_attempts:
  "\<not> mark_class code \<Longrightarrow>
   map pm_attempts (DeferForecastMarks ms code session now rows) = map pm_attempts rows"
  using source_defer.map_column [where code = code]
  by (induction ms code session now rows rule: DeferForecastMarks.induct)
    (simp_all add: mark_class_def)

text \<open>
  A source failure never counts toward finality: a committed plan whose deferrals all
  carry source-class codes and that finalises no mark leaves the attempt counter of every mark of the
  ledger as it was.
\<close>

theorem source_failures_cost_no_attempt:
  assumes "ApplyForecastPlan hook p now l = Inr l'"
    and "\<forall>d\<in>set (pl_defers p). refusalClassOf (dg_code d) = refusalSource" "pl_finals p = []"
  shows "map pm_attempts (lg_marks l') = map pm_attempts (lg_marks l)"
proof -
  have ne: "refusalSource \<noteq> refusalMarkSpecific" by (simp add: go_const)
  let ?R = "\<lambda>a b. map pm_attempts (lg_marks b) = map pm_attempts (lg_marks a)"
  have "\<forall>f\<in>set (plan_mark_ops p now). \<forall>rows. map pm_attempts (f rows) = map pm_attempts rows"
    using assms(2,3) ne
    by (auto simp: plan_mark_ops_def SettleForecastMark_def wakeMark_def mark_class_def
        defers_source_attempts settle_attempts.map_column wake_attempts.map_column simp del: map_map)
  then have "\<forall>f\<in>set (plan_ops p now). \<forall>a b. f a = Inr b \<longrightarrow> ?R a b"
    by (auto simp: plan_ops_def on_marks_def baseline_op_def finishForecastBaselineTx_def Let_def
        finishForecastBaselineTerminalTx_def terminal_attempts.map_column
        split: option.splits if_splits simp del: map_map)
  then show ?thesis
    by (rule run_ops_rel [where R = ?R, OF _ _ _ assms(1) [unfolded ApplyForecastPlan_def], rotated 2]) auto
qed

lemma source_failures_cost_no_attempt_witness:
  "\<exists>l'. ApplyForecastPlan (\<lambda>_. None) (deferMark demo_mark ''fetch_failed'' [] (empty_plan 1)) 0 demo_ledger = Inr l' \<and>
        map pm_attempts (lg_marks l') = map pm_attempts (lg_marks demo_ledger)"
proof -
  let ?p = "deferMark demo_mark ''fetch_failed'' [] (empty_plan 1)"
  have "\<forall>d\<in>set (pl_defers ?p). refusalClassOf (dg_code d) = refusalSource" "pl_finals ?p = []"
    by code_simp+
  moreover obtain l' where "ApplyForecastPlan (\<lambda>_. None) ?p 0 demo_ledger = Inr l'"
    by (simp add: ApplyForecastPlan_def plan_ops_def plan_mark_ops_def deferMark_def empty_plan_def on_marks_def)
  ultimately show ?thesis using source_failures_cost_no_attempt by blast
qed

section \<open>All or nothing\<close>

lemma run_ops_prefix:
  "run_ops hook k fs l = Inr l' \<Longrightarrow> \<forall>i<length fs. hook (k + int i) = None"
proof (induction fs arbitrary: k l)
  case (Cons f fs)
  obtain m where m: "hook k = None" "run_ops hook (k + 1) fs m = Inr l'"
    using Cons.prems by (auto split: option.splits sum.splits)
  show ?case
  proof (intro allI impI)
    fix i assume "i < length (f # fs)"
    then show "hook (k + int i) = None"
      using m(1) Cons.IH [OF m(2)] by (cases i) (auto simp: algebra_simps)
  qed
qed simp

text \<open>The tables after the statements of a plan that all run.\<close>

definition plan_effect :: "forecastPlan \<Rightarrow> instant \<Rightarrow> ledger \<Rightarrow> ledger" where
  "plan_effect p now l =
     (let l1 = (case pl_baseline p of None \<Rightarrow> l | Some b \<Rightarrow> snd (finishForecastBaselineTx (pl_setID p) b l));
          l2 = l1\<lparr>lg_marks := fold (\<lambda>f. f) (plan_mark_ops p now) (lg_marks l1)\<rparr>
      in if pl_terminalBaseline p then finishForecastBaselineTerminalTx (pl_setID p) now l2 else l2)"

lemma run_mark_ops:
  "\<forall>i<length fs. hook (k + int i) = None \<Longrightarrow>
   run_ops hook k (map on_marks fs @ gs) l =
   run_ops hook (k + int (length fs)) gs (l\<lparr>lg_marks := fold (\<lambda>f. f) fs (lg_marks l)\<rparr>)"
proof (induction fs arbitrary: k l)
  case (Cons f fs)
  have h0: "hook k = None" using Cons.prems by (metis add_0_right length_greater_0_conv list.distinct(1) of_nat_0)
  have "\<forall>i<length fs. hook (k + 1 + int i) = None"
  proof (intro allI impI)
    fix i assume "i < length fs"
    then show "hook (k + 1 + int i) = None"
      using Cons.prems [rule_format, of "Suc i"] by (simp add: algebra_simps)
  qed
  from Cons.IH [OF this] h0 show ?case by (simp add: on_marks_def algebra_simps)
qed simp

lemma apply_all_pass:
  assumes "\<forall>k. hook k = None"
  shows "ApplyForecastPlan hook p now l =
    (if pl_baseline p \<noteq> None \<and> \<not> list_ex (baseline_open (pl_setID p)) (lg_sets l)
     then Inl errForecastBaselineRaced else Inr (plan_effect p now l))"
proof -
  have "run_ops hook k (map on_marks (plan_mark_ops p now) @
          (if pl_terminalBaseline p then [\<lambda>l. Inr (finishForecastBaselineTerminalTx (pl_setID p) now l)] else [])) m =
        Inr (let l2 = m\<lparr>lg_marks := fold (\<lambda>f. f) (plan_mark_ops p now) (lg_marks m)\<rparr>
             in if pl_terminalBaseline p then finishForecastBaselineTerminalTx (pl_setID p) now l2 else l2)" for k m
    using assms run_mark_ops [of "plan_mark_ops p now" hook k] by (simp add: Let_def)
  then show ?thesis
    using assms
    by (cases "pl_baseline p")
      (simp_all add: ApplyForecastPlan_def plan_ops_def plan_effect_def baseline_op_def
        finishForecastBaselineTx_def Let_def)
qed

lemma run_ops_hook_cong:
  "\<forall>i<length fs. hook (k + int i) = None \<Longrightarrow> run_ops hook k fs l = run_ops (\<lambda>_. None) k fs l"
proof (induction fs arbitrary: k l)
  case (Cons f fs)
  have h0: "hook k = None" using Cons.prems by (metis add_0_right length_greater_0_conv list.distinct(1) of_nat_0)
  have "\<forall>i<length fs. hook (k + 1 + int i) = None"
  proof (intro allI impI)
    fix i assume "i < length fs"
    then show "hook (k + 1 + int i) = None"
      using Cons.prems [rule_format, of "Suc i"] by (simp add: algebra_simps)
  qed
  from Cons.IH [OF this] h0 show ?case by (simp split: sum.splits)
qed simp

text \<open>
  A plan is applied whole or not at all: it commits exactly when no statement of it
  fails and the baseline it would write, if any, is still open; then the tables are those of all its
  statements in order, and otherwise the transaction is an error and the caller keeps the old tables.
\<close>

theorem plan_commits_whole:
  "ApplyForecastPlan hook p now l = Inr l' \<longleftrightarrow>
     (\<forall>i<length (plan_ops p now). hook (1 + int i) = None) \<and>
     (pl_baseline p \<noteq> None \<longrightarrow> list_ex (baseline_open (pl_setID p)) (lg_sets l)) \<and>
     l' = plan_effect p now l"
proof (cases "\<forall>i<length (plan_ops p now). hook (1 + int i) = None")
  case True
  then have "ApplyForecastPlan hook p now l = ApplyForecastPlan (\<lambda>_. None) p now l"
    unfolding ApplyForecastPlan_def by (rule run_ops_hook_cong)
  then show ?thesis using True apply_all_pass [of "\<lambda>_. None" p now l] by auto
next
  case False
  then show ?thesis using run_ops_prefix [of hook 1 "plan_ops p now" l l']
    unfolding ApplyForecastPlan_def by blast
qed

lemma plan_commits_whole_witness:
  "\<nexists>l'. ApplyForecastPlan (\<lambda>k. if k = 3 then Some ''disk full'' else None)
     ((empty_plan 1)\<lparr>pl_finals := [(1, ''no_bar''), (2, ''no_bar'')], pl_wakes := [(3, 0)]\<rparr>) 0 demo_ledger = Inr l'"
proof
  let ?p = "(empty_plan 1)\<lparr>pl_finals := [(1, ''no_bar''), (2, ''no_bar'')], pl_wakes := [(3, 0 :: int)]\<rparr>"
  let ?hook = "\<lambda>k. if k = (3 :: int) then Some ''disk full'' else None"
  assume "\<exists>l'. ApplyForecastPlan ?hook ?p 0 demo_ledger = Inr l'"
  then obtain l' where "ApplyForecastPlan ?hook ?p 0 demo_ledger = Inr l'" ..
  from iffD1 [OF plan_commits_whole this]
  have "\<forall>i<length (plan_ops ?p 0). ?hook (1 + int i) = None" by (rule conjunct1)
  moreover have "2 < length (plan_ops ?p 0)" by (simp add: plan_ops_def plan_mark_ops_def empty_plan_def)
  ultimately have "?hook (1 + int 2) = None" by (metis (no_types, lifting))
  then show False by simp
qed

section \<open>The wakes map has no order\<close>

lemma wakes_as_map:
  "distinct (map fst ws) \<Longrightarrow>
   fold (\<lambda>f. f) (map (\<lambda>(mid, wake). wakeMark mid wake) ws) rows =
   map (\<lambda>r. case map_of ws (pm_id r) of
          Some wake \<Rightarrow> if open_mark r then wake_assign wake r else r | None \<Rightarrow> r) rows"
proof (induction ws arbitrary: rows)
  case Nil
  then show ?case by simp
next
  case (Cons w ws)
  obtain mid wake where w: "w = (mid, wake)" by (cases w)
  have nid: "map_of ws mid = None" using Cons.prems w by (simp add: map_of_eq_None_iff)
  have keep: "pm_id (wake_assign wake r) = pm_id r" for r by (simp add: wake_assign_def)
  have "fold (\<lambda>f. f) (map (\<lambda>(mid, wake). wakeMark mid wake) (w # ws)) rows =
        fold (\<lambda>f. f) (map (\<lambda>(mid, wake). wakeMark mid wake) ws) (wakeMark mid wake rows)"
    by (simp add: w)
  also have "\<dots> = map (\<lambda>r. case map_of ws (pm_id r) of
          Some wake \<Rightarrow> if open_mark r then wake_assign wake r else r | None \<Rightarrow> r) (wakeMark mid wake rows)"
    using Cons.IH Cons.prems w by simp
  also have "\<dots> = map (\<lambda>r. case map_of (w # ws) (pm_id r) of
          Some wake \<Rightarrow> if open_mark r then wake_assign wake r else r | None \<Rightarrow> r) rows"
    using nid keep by (auto simp: w wakeMark_def update_where_def by_id_def split: option.splits)
  finally show ?case .
qed

lemma fold_append_ops: "fold (\<lambda>f. f) (fs @ gs) rows = fold (\<lambda>f. f) gs (fold (\<lambda>f. f) fs rows)"
  by simp

text \<open>
  The order in which the map of wakes is walked does not matter: two plans that differ
  only in the order of their wakes, one wake per mark, leave the same tables.
\<close>

theorem wake_order_irrelevant:
  assumes "mset (pl_wakes p) = mset ws" "distinct (map fst (pl_wakes p))"
  shows "ApplyForecastPlan (\<lambda>_. None) p now l = ApplyForecastPlan (\<lambda>_. None) (p\<lparr>pl_wakes := ws\<rparr>) now l"
proof -
  have d: "distinct (map fst ws)" using assms by (metis mset_eq_imp_distinct_iff mset_map)
  have "map_of (pl_wakes p) = map_of ws"
    using assms d by (metis map_of_eqI map_of_inject_set set_mset_mset)
  then have "fold (\<lambda>f. f) (plan_mark_ops p now) rows = fold (\<lambda>f. f) (plan_mark_ops (p\<lparr>pl_wakes := ws\<rparr>) now) rows"
    for rows
    unfolding plan_mark_ops_def fold_append_ops using wakes_as_map [OF d] wakes_as_map [OF assms(2)] by simp
  then have "plan_effect p now l = plan_effect (p\<lparr>pl_wakes := ws\<rparr>) now l"
    by (cases "pl_baseline p") (simp_all add: plan_effect_def Let_def)
  then show ?thesis by (simp add: apply_all_pass)
qed

lemma wake_order_irrelevant_witness:
  "ApplyForecastPlan (\<lambda>_. None) ((empty_plan 1)\<lparr>pl_wakes := [(1, 5), (2, 7)]\<rparr>) 0 demo_ledger =
   ApplyForecastPlan (\<lambda>_. None) (((empty_plan 1)\<lparr>pl_wakes := [(1, 5), (2, 7)]\<rparr>)\<lparr>pl_wakes := [(2, 7), (1, 5)]\<rparr>) 0 demo_ledger"
  by (rule wake_order_irrelevant) (simp_all add: add_mset_commute)

section \<open>Inserting twice\<close>

lemma find_same_None: "find P xs = None \<Longrightarrow> find P (xs @ [x]) = (if P x then Some x else None)"
  by (induction xs) (auto split: if_splits)

text \<open>
  Ingest is idempotent on (report, payload hash): storing a payload a second time, with
  whatever claims the retry carries, answers the id of the first store, reports a duplicate, and
  changes nothing; the first store creates one pending mark per checkpoint of an accepted set and
  none otherwise.
\<close>

theorem insert_idempotent:
  assumes "InsertPredictionSet rid row claims l = Inr ((sid, dup), l')" "pr_PayloadSHA row' = pr_PayloadSHA row"
  shows "InsertPredictionSet rid row' claims' l' = Inr ((sid, True), l') \<and>
         (\<not> dup \<longrightarrow> map pm_checkpoint (drop (length (lg_marks l)) (lg_marks l')) =
           (if pr_State row = predStateAccepted then predMarkCheckpoints (pr_HorizonStd row = 1) else []))"
proof (cases "find (\<lambda>r. ps_report_id r = Some rid \<and> pr_PayloadSHA (ps_row r) = pr_PayloadSHA row) (lg_sets l)")
  case (Some x)
  then show ?thesis using assms by (auto simp: InsertPredictionSet_def)
next
  case None
  then show ?thesis
    using assms find_same_None [OF None] pending_marks_checkpoints
    by (auto simp: InsertPredictionSet_def Let_def marks_for_def split: if_splits)
qed

lemma insert_idempotent_witness:
  "InsertPredictionSet 9 demo_row [] demo_ledger = Inr ((1, True), demo_ledger)"
proof -
  have "InsertPredictionSet 9 demo_row [] empty_ledger = Inr ((1, False), demo_ledger)"
    by (simp add: demo_ledger_def InsertPredictionSet_def empty_ledger_def Let_def)
  from insert_idempotent [OF this refl] show ?thesis by blast
qed

section \<open>The repair runs once\<close>

lemma nat_digits_nonempty: "nat_digits n \<noteq> []"
  by (subst nat_digits.simps) simp

lemma itoa_nonempty: "itoa n \<noteq> []"
  by (simp add: itoa_def nat_digits_nonempty)

lemma premature_open: "premature r \<Longrightarrow> pm_status r = markRefused"
  by (simp add: premature_def)

text \<open>
  The repair of premature refusals runs once: its first run puts exactly the rows with
  the pre-P1 signature back to pending with no attempts, leaves every other row alone and records its
  count; a second run, on whatever rows the ledger holds by then, changes nothing.
\<close>

theorem repair_runs_once:
  assumes "healPrematureRefusals l = ((n, ids), l')"
  shows "healPrematureRefusals (l'\<lparr>lg_marks := rows\<rparr>) = ((0, []), l'\<lparr>lg_marks := rows\<rparr>) \<and>
         (get_setting (lg_meta l) setForecastRepairPremature [] = [] \<longrightarrow>
            n = int (length (filter premature (lg_marks l))) \<and>
            lg_marks l' = map (\<lambda>r. if premature r then heal_assign r else r) (lg_marks l) \<and>
            filter premature (lg_marks l') = [])"
proof -
  have "\<not> premature (heal_assign r)" for r
    by (simp add: premature_def heal_assign_def go_const)
  then show ?thesis
    using assms itoa_nonempty
    by (auto simp: healPrematureRefusals_def Let_def get_setting_def update_where_def filter_empty_conv
        split: if_splits)
qed

lemma repair_runs_once_witness:
  "\<exists>l'. healPrematureRefusals demo_ledger = ((0, []), l') \<and> healPrematureRefusals (l'\<lparr>lg_marks := []\<rparr>) = ((0, []), l'\<lparr>lg_marks := []\<rparr>)"
proof -
  have "fst (healPrematureRefusals demo_ledger) = (0, [])" by code_simp
  then obtain l' where "healPrematureRefusals demo_ledger = ((0, []), l')" by (metis prod.collapse)
  then show ?thesis using repair_runs_once by blast
qed

section \<open>Due work, oldest first\<close>

definition due_set :: "ledger \<Rightarrow> instant \<Rightarrow> setRow \<Rightarrow> bool" where
  "due_set l now r \<longleftrightarrow> r \<in> set (lg_sets l) \<and> pr_State (ps_row r) = predStateAccepted \<and>
     (\<exists>m\<in>set (lg_marks l). pm_set_id m = ps_id r \<and> due_mark (format_rfc3339 now) m)"

lemma take_sorted_before:
  assumes "sorted (map f xs)" "x \<in> set xs" "x \<notin> set (take n xs)" "y \<in> set (take n xs)"
  shows "f y \<le> (f x :: 'b :: linorder)"
proof -
  have "sorted (map f (take n xs @ drop n xs))" using assms(1) by simp
  moreover have "x \<in> set (drop n xs)" using assms(2,3) by (metis Un_iff append_take_drop_id set_append)
  ultimately show ?thesis using assms(4) unfolding map_append sorted_append by auto
qed

text \<open>
  Due work is served oldest first and nothing starves: at most the batch size is
  returned, every returned set is accepted and has a mark whose backoff has expired, and a due set is
  left out only when a full batch of sets received no later than it is returned.
\<close>

theorem due_oldest_first:
  assumes "limit' = (if limit \<le> 0 then predEvalBatch else limit)"
  shows "int (length (ForecastSetsDue l now limit)) \<le> limit' \<and>
    (\<forall>w\<in>set (ForecastSetsDue l now limit). \<exists>r. due_set l now r \<and> w = work_set l r) \<and>
    (\<forall>r. due_set l now r \<and> work_set l r \<notin> set (ForecastSetsDue l now limit) \<longrightarrow>
       int (length (ForecastSetsDue l now limit)) = limit' \<and>
       (\<forall>w\<in>set (ForecastSetsDue l now limit).
          (ws_MadeOn w, ws_SetID w) \<le> (pr_MadeOn (ps_row r), ps_id r)))"
proof -
  define due where "due = sort_key (\<lambda>r. (pr_MadeOn (ps_row r), ps_id r))
    (filter (\<lambda>r. pr_State (ps_row r) = predStateAccepted \<and>
       list_ex (\<lambda>m. pm_set_id m = ps_id r \<and> due_mark (format_rfc3339 now) m) (lg_marks l)) (lg_sets l))"
  have F: "ForecastSetsDue l now limit = map (work_set l) (take (nat limit') due)"
    using assms by (simp add: ForecastSetsDue_def due_def Let_def)
  have S: "set due = {r. due_set l now r}" by (auto simp: due_def due_set_def list_ex_iff)
  have sorted: "sorted (map (\<lambda>r. (pr_MadeOn (ps_row r), ps_id r)) due)" by (simp add: due_def)
  have pos: "0 \<le> limit'" using assms by (simp add: predEvalBatch_def)
  have key: "ws_MadeOn (work_set l y) = pr_MadeOn (ps_row y)" "ws_SetID (work_set l y) = ps_id y" for y
    by (simp_all add: work_set_def Let_def)
  have left: "int (length (take (nat limit') due)) = limit' \<and>
        (\<forall>y\<in>set (take (nat limit') due). (pr_MadeOn (ps_row y), ps_id y) \<le> (pr_MadeOn (ps_row r), ps_id r))"
    if r: "due_set l now r" and out: "work_set l r \<notin> work_set l ` set (take (nat limit') due)" for r
  proof -
    have out': "r \<notin> set (take (nat limit') due)" and "r \<in> set due" using out r S by auto
    then have "nat limit' < length due" by (metis not_le take_all)
    then show ?thesis using pos take_sorted_before [OF sorted _ out'] \<open>r \<in> set due\<close> by auto
  qed
  have "\<forall>w\<in>set (map (work_set l) (take (nat limit') due)). \<exists>r. due_set l now r \<and> w = work_set l r"
    using S by (auto dest: in_set_takeD)
  moreover have "int (length (take (nat limit') due)) \<le> limit'" using pos by auto
  ultimately show ?thesis using left unfolding F set_map length_map
    by (auto simp add: key simp del: length_take set_map)
qed

lemma due_oldest_first_witness:
  "int (length (ForecastSetsDue demo_ledger 0 0)) \<le> 50 \<and> ForecastSetsDue demo_ledger 0 0 \<noteq> []"
proof -
  have "ForecastSetsDue demo_ledger 0 0 \<noteq> []" by code_simp
  then show ?thesis using due_oldest_first [of 50 0 demo_ledger 0] by (simp add: predEvalBatch_def)
qed

end
