(* ===== verification/Forecast_Eval.thy ===== *)
theory Forecast_Eval
  imports Forecast_Store
begin

text \<open>
  The evaluator's planning (forecast_eval.go): which sets can be slept on without a fetch, what makes
  a benchmark body unusable, and what one pass plans for one set. The vendor's answers are arguments
  (\<open>evalEnv\<close>), so a plan is a function of the rows, the bodies and the clock; the counters, the log
  and the failure backlog the Go code also feeds are not modelled. The Go map of wakes is an
  association list with one entry per mark.
\<close>

section \<open>Fetch errors and the vendor\<close>

text \<open>A ledger refusal carries a code; a deferral asks the pass to wait for its vendor budget.\<close>

datatype fetchErr = LedgerRefusal string | VendorDeferred | OtherErr

definition ledgerFetchRefusal :: "fetchErr \<Rightarrow> string" where
  "ledgerFetchRefusal err =
     (case err of
        LedgerRefusal code \<Rightarrow> if map_of predRefusalClass code \<noteq> None then code else ''fetch_failed''
      | _ \<Rightarrow> ''fetch_failed'')"

datatype adjAnswer = AdjDeferred | AdjFailed | AdjBars "string \<rightharpoonup> int"

record evalEnv =
  ev_wideStock :: "fetchErr + forecastSeries"
  ev_wideIndex :: "fetchErr + forecastSeries"
  ev_adjust :: "string \<Rightarrow> string \<Rightarrow> adjAnswer"

section \<open>Sets that need no fetch\<close>

text \<open>\<open>None\<close> is the Go result that is not handled: some mark could be due.\<close>

fun wakeOnly_marks :: "forecastWorkSet \<Rightarrow> instant \<Rightarrow> forecastMark list \<Rightarrow> forecastPlan \<Rightarrow> forecastPlan option" where
  "wakeOnly_marks ws now [] plan = Some plan"
| "wakeOnly_marks ws now (m # ms) plan =
     (if fm_Status m = markResolved \<or> fm_Status m = markRefusedFinal then wakeOnly_marks ws now ms plan
      else if fm_Status m = markRefused \<and> fm_NextAttemptAt m \<noteq> [] then
        (case parse_rfc3339 (fm_NextAttemptAt m) of
           None \<Rightarrow> None
         | Some t \<Rightarrow> if \<not> now < t then None else wakeOnly_marks ws now ms (set_wake (fm_ID m) t plan))
      else (let wake = predWakeAt ws (fm_Checkpoint m) in
            if wake = zero_time \<or> \<not> now < wake then None
            else wakeOnly_marks ws now ms (set_wake (fm_ID m) wake plan)))"

definition wakeOnlyPlan :: "forecastWorkSet \<Rightarrow> instant \<Rightarrow> forecastPlan option" where
  "wakeOnlyPlan ws now = wakeOnly_marks ws now (ws_Marks ws) (empty_plan (ws_SetID ws))"

section \<open>Pass-wide checks\<close>

definition storedS0Reproduced :: "string \<Rightarrow> instant \<Rightarrow> string list \<Rightarrow> bool" where
  "storedS0Reproduced stored madeAt sessions =
     (if stored = [] then True
      else (case predS0 madeAt sessions of None \<Rightarrow> True | Some want \<Rightarrow> want = stored))"

text \<open>A stock body that failed to arrive is an \<open>Inl\<close>.\<close>

definition staleValve :: "(fetchErr + forecastSeries) list \<Rightarrow> string list \<Rightarrow> bool" where
  "staleValve stocks sessions =
     (if sessions = [] \<or> stocks = [] then False
      else (let newest = last sessions;
                bodies = concat (map (\<lambda>s. case s of Inl _ \<Rightarrow> [] | Inr b \<Rightarrow> if fs_Bars b = [] then [] else [b]) stocks);
                valid = length bodies;
                stale = length (filter (\<lambda>b. qb_Date (last (fs_Bars b)) < newest) bodies)
            in 0 < valid \<and> stale * 5 > valid))"

definition quoteKindIndex :: string where "quoteKindIndex = ''index''"

text \<open>The usability of a benchmark body: \<open>None\<close> is usable, \<open>Some\<close> the fault's refusal code.\<close>

definition benchFault :: "fetchErr + forecastSeries \<Rightarrow> string option" where
  "benchFault answer =
     (case answer of
        Inl err \<Rightarrow> Some (ledgerFetchRefusal err)
      | Inr series \<Rightarrow>
          (if fs_Bars series = [] then Some ''no_bench''
           else if fs_Kind series \<noteq> quoteKindIndex then Some ''not_index''
           else if hasZeroVolumeBar (fs_Bars series) then Some ''calendar_bad''
           else None))"

fun add_to_group :: "forecastWorkSet \<Rightarrow> (string \<times> forecastWorkSet list) list \<Rightarrow> (string \<times> forecastWorkSet list) list" where
  "add_to_group ws [] = [(ws_BenchCode ws, [ws])]"
| "add_to_group ws ((c, wss) # gs) =
     (if c = ws_BenchCode ws then (c, wss @ [ws]) # gs else (c, wss) # add_to_group ws gs)"

definition groupSetsByBench :: "forecastWorkSet list \<Rightarrow> (string \<times> forecastWorkSet list) list" where
  "groupSetsByBench sets = foldl (\<lambda>gs ws. add_to_group ws gs) [] sets"

definition quoteWindowMaxDays :: int where "quoteWindowMaxDays = 3660"

definition quoteWindowOK :: "string \<Rightarrow> string \<Rightarrow> bool" where
  "quoteWindowOK from0 to0 =
     (let f = trim_space from0; t = trim_space to0 in
      if f = [] \<and> t = [] then True
      else if f = [] \<or> t = [] then False
      else (case parse_date f of None \<Rightarrow> False
            | Some start \<Rightarrow> (case parse_date t of None \<Rightarrow> False
                | Some stop \<Rightarrow> \<not> stop < start \<and> \<not> quoteWindowMaxDays < stop - start)))"

definition defer_all :: "string \<Rightarrow> string \<Rightarrow> forecastMark list \<Rightarrow> forecastPlan \<Rightarrow> forecastPlan" where
  "defer_all code session ms plan = fold (\<lambda>m. deferMark m code session) ms plan"

text \<open>The sets kept, and the plans of the quarantined ones.\<close>

definition quarantineBadWindows ::
  "instant \<Rightarrow> forecastWorkSet list \<Rightarrow> forecastWorkSet list \<times> (forecastWorkSet \<times> forecastPlan) list" where
  "quarantineBadWindows now sets =
     (let ok = (\<lambda>ws. quoteWindowOK (shiftDays (ws_MadeOn ws) (- predReferenceLagDays)) (china_date now))
      in (filter ok sets,
          map (\<lambda>ws. (ws, defer_all ''bad_window'' [] (ws_Marks ws) (empty_plan (ws_SetID ws))))
            (filter (\<lambda>ws. \<not> ok ws) sets)))"

section \<open>Planning one set\<close>

definition future_wake :: "forecastWorkSet \<Rightarrow> instant \<Rightarrow> forecastMark \<Rightarrow> bool" where
  "future_wake ws now m \<longleftrightarrow>
     predWakeAt ws (fm_Checkpoint m) \<noteq> zero_time \<and> now < predWakeAt ws (fm_Checkpoint m)"

definition wake_or_defer :: "forecastWorkSet \<Rightarrow> instant \<Rightarrow> string \<Rightarrow> forecastPlan \<Rightarrow> forecastPlan" where
  "wake_or_defer ws now code plan =
     fold (\<lambda>m p. if future_wake ws now m then set_wake (fm_ID m) (predWakeAt ws (fm_Checkpoint m)) p
                 else deferMark m code [] p) (ws_Marks ws) plan"

definition wait_baseline :: "forecastWorkSet \<Rightarrow> instant \<Rightarrow> forecastPlan \<Rightarrow> forecastPlan" where
  "wait_baseline ws now plan =
     fold (\<lambda>m p. set_wake (fm_ID m)
        (if future_wake ws now m then predWakeAt ws (fm_Checkpoint m) else predNotYetShown now) p)
       (ws_Marks ws) plan"

definition add_final :: "int \<Rightarrow> string \<Rightarrow> forecastPlan \<Rightarrow> forecastPlan" where
  "add_final mid code p = p\<lparr>pl_finals := pl_finals p @ [(mid, code)]\<rparr>"

text \<open>A mark that is not due: an unschedulable one is final, a due-looking one waits for the calendar.\<close>

definition not_due :: "forecastWorkSet \<Rightarrow> instant \<Rightarrow> forecastMark \<Rightarrow> forecastPlan \<Rightarrow> forecastPlan" where
  "not_due ws now m p =
     (let wake = predWakeAt ws (fm_Checkpoint m) in
      if wake = zero_time then add_final (fm_ID m) ''no_schedule'' p
      else if \<not> now < wake then set_wake (fm_ID m) (predNotYetShown now) p
      else set_wake (fm_ID m) wake p)"

record baseCtx =
  bc_S0 :: string
  bc_BaseDate :: string
  bc_S0Fen :: int
  bc_Err :: "startError option"
  bc_Stock :: "QuoteBar list"
  bc_Index :: "QuoteBar list"
  bc_ExDates :: "string list"
  bc_AsOf :: string
  bc_Source :: string
  bc_Unverifiable :: string
  bc_SeriesFrom :: string
  bc_Baseline :: "forecastBaseline option"

datatype baseStage = BaseNotReady | BaseFetchFailed string | BaseDone baseCtx

definition base_terminal :: "forecastWorkSet \<Rightarrow> bool" where
  "base_terminal ws \<longleftrightarrow>
     ws_BaseCheck ws = baseMatch \<or> ws_BaseCheck ws = baseMismatch \<or> ws_BaseCheck ws = baseRefusedFinal"

definition ctx_of :: "startBar \<Rightarrow> QuoteBar list \<Rightarrow> forecastSeries \<Rightarrow> string \<Rightarrow> string \<Rightarrow> baseCtx" where
  "ctx_of sb index body seriesFrom check =
     \<lparr>bc_S0 = sb_S0 sb, bc_BaseDate = sb_BaseDate sb, bc_S0Fen = sb_S0Fen sb, bc_Err = sb_Err sb,
      bc_Stock = fs_Bars body, bc_Index = index, bc_ExDates = fs_ExDates body, bc_AsOf = fs_AsOf body,
      bc_Source = fs_Source body, bc_Unverifiable = fs_UnverifiableDate body, bc_SeriesFrom = seriesFrom,
      bc_Baseline = (if sb_Err sb = None
        then Some \<lparr>fb_S0 = sb_S0 sb, fb_BaseDate = sb_BaseDate sb, fb_S0Fen = sb_S0Fen sb, fb_Check = check,
                   fb_Index = index\<rparr>
        else None)\<rparr>"

definition stored_ctx :: "forecastWorkSet \<Rightarrow> forecastSeries \<Rightarrow> forecastSeries \<Rightarrow> baseCtx" where
  "stored_ctx ws index stock =
     \<lparr>bc_S0 = ws_S0Date ws, bc_BaseDate = ws_BaseDate ws,
      bc_S0Fen = (case ws_S0Fen ws of None \<Rightarrow> 0 | Some f \<Rightarrow> f), bc_Err = None,
      bc_Stock = fs_Bars stock, bc_Index = fs_Bars index, bc_ExDates = fs_ExDates stock,
      bc_AsOf = fs_AsOf stock, bc_Source = fs_Source stock, bc_Unverifiable = fs_UnverifiableDate stock,
      bc_SeriesFrom = shiftDays (ws_MadeOn ws) (- predReferenceLagDays), bc_Baseline = None\<rparr>"

text \<open>
  The one bounded look-back: the wide stock body replaces the narrow one only when the base is found
  in it, while a wide index body that arrives is always used.
\<close>

definition look_back ::
  "evalEnv \<Rightarrow> forecastWorkSet \<Rightarrow> forecastSeries \<Rightarrow> forecastSeries \<Rightarrow> instant \<Rightarrow> string list \<Rightarrow> string \<Rightarrow> startBar \<Rightarrow> baseStage" where
  "look_back env ws index stock madeAt sessions check sb =
     (case ev_wideStock env of
        Inl err \<Rightarrow> BaseFetchFailed (ledgerFetchRefusal err)
      | Inr wide \<Rightarrow>
          (let idx = (case ev_wideIndex env of Inl _ \<Rightarrow> fs_Bars index | Inr w \<Rightarrow> fs_Bars w);
               wideOn = shiftDays (ws_MadeOn ws) (- 400);
               sb' = resolveStartBar (fs_Bars wide) (ws\<lparr>ws_S0Date := sb_S0 sb, ws_MadeOn := wideOn\<rparr>) madeAt sessions
           in if sb_Err sb' = None
              then BaseDone (ctx_of sb' idx (stock\<lparr>fs_Bars := fs_Bars wide, fs_ExDates := fs_ExDates wide,
                     fs_AsOf := fs_AsOf wide, fs_Source := fs_Source wide,
                     fs_UnverifiableDate := fs_UnverifiableDate wide\<rparr>) wideOn check)
              else BaseDone (ctx_of sb' idx stock (shiftDays (ws_MadeOn ws) (- predReferenceLagDays)) check)))"

definition base_stage ::
  "evalEnv \<Rightarrow> forecastWorkSet \<Rightarrow> forecastSeries \<Rightarrow> forecastSeries \<Rightarrow> instant \<Rightarrow> string list \<Rightarrow> baseStage" where
  "base_stage env ws index stock madeAt sessions =
     (if base_terminal ws then BaseDone (stored_ctx ws index stock)
      else (case predBaseCheck madeAt (ws_EmitFen ws) (fs_Bars stock) sessions (fs_UnverifiableDate stock) of
              None \<Rightarrow> BaseNotReady
            | Some check \<Rightarrow>
                (let sb = resolveStartBar (fs_Bars stock) ws madeAt sessions in
                 if sb_Err sb = Some NoBaseInWindow then look_back env ws index stock madeAt sessions check sb
                 else BaseDone (ctx_of sb (fs_Bars index) stock
                        (shiftDays (ws_MadeOn ws) (- predReferenceLagDays)) check))))"

definition min_attempts :: "forecastMark list \<Rightarrow> int" where
  "min_attempts ms = foldl (\<lambda>a m. if fm_Attempts m + 1 < a then fm_Attempts m + 1 else a)
     (fm_Attempts (hd ms) + 1) (tl ms)"

text \<open>The start session exists but carries no price: an attempt, final after the fixed clock.\<close>

definition no_base_plan :: "forecastWorkSet \<Rightarrow> string list \<Rightarrow> string \<Rightarrow> startError \<Rightarrow> forecastPlan \<Rightarrow> forecastPlan" where
  "no_base_plan ws sessions s0 err plan =
     (let code = (if err \<noteq> NoBaseInWindow then ''no_bar'' else ''no_base'');
          p = defer_all code s0 (ws_Marks ws) plan
      in if s0 \<noteq> [] \<and> predRetryDeadlineTicks \<le> sessionsPastDue sessions s0 \<and> ws_Marks ws \<noteq> [] \<and>
            predFinalMinAttempts \<le> min_attempts (ws_Marks ws)
         then p\<lparr>pl_terminalBaseline := True\<rparr> else p)"

definition waiting_backoff :: "instant \<Rightarrow> forecastMark \<Rightarrow> instant option" where
  "waiting_backoff now m =
     (if fm_Status m = markRefused \<and> fm_NextAttemptAt m \<noteq> [] then
        (case parse_rfc3339 (fm_NextAttemptAt m) of
           None \<Rightarrow> None | Some t \<Rightarrow> if now < t then Some t else None)
      else None)"

definition mark_terminal :: "forecastMark \<Rightarrow> bool" where
  "mark_terminal m \<longleftrightarrow> fm_Status m = markResolved \<or> fm_Status m = markRefusedFinal"

definition mark_schedule :: "forecastWorkSet \<Rightarrow> instant \<Rightarrow> string list \<Rightarrow> forecastMark \<Rightarrow> predSchedule" where
  "mark_schedule ws madeAt sessions m =
     predScheduleFor (fm_Checkpoint m) madeAt (ws_HorizonStd ws) (ws_S0Date ws) sessions"

definition is_due :: "forecastWorkSet \<Rightarrow> instant \<Rightarrow> string list \<Rightarrow> forecastMark \<Rightarrow> bool" where
  "is_due ws madeAt sessions m \<longleftrightarrow>
     sch_Known (mark_schedule ws madeAt sessions m) \<and>
     containsDate sessions (sch_Due (mark_schedule ws madeAt sessions m))"

definition due_marks :: "forecastWorkSet \<Rightarrow> instant \<Rightarrow> instant \<Rightarrow> string list \<Rightarrow> (forecastMark \<times> string) list" where
  "due_marks ws madeAt now sessions =
     map (\<lambda>m. (m, sch_Due (mark_schedule ws madeAt sessions m)))
       (filter (\<lambda>m. \<not> mark_terminal m \<and> waiting_backoff now m = None \<and> is_due ws madeAt sessions m) (ws_Marks ws))"

definition needs_adjust :: "baseCtx \<Rightarrow> (forecastMark \<times> string) list \<Rightarrow> bool" where
  "needs_adjust c due =
     list_ex (\<lambda>(m, d). case lastBarAtOrBefore (bc_Stock c) d of
        None \<Rightarrow> False
      | Some bar \<Rightarrow> bc_BaseDate c \<le> qb_Date bar \<and> barOn (bc_Index c) (bc_BaseDate c) \<noteq> None \<and>
          barOn (bc_Index c) d \<noteq> None) due"

definition settle_input ::
  "baseCtx \<Rightarrow> forecastWorkSet \<Rightarrow> string list \<Rightarrow> (string \<rightharpoonup> int) option \<Rightarrow> instant \<Rightarrow> bool \<Rightarrow> forecastMark \<Rightarrow> string \<Rightarrow> settleInput" where
  "settle_input c ws sessions adj now valve m session =
     \<lparr>si_Set = ws, si_Mark = m, si_Stock = bc_Stock c, si_Index = bc_Index c, si_ExDates = bc_ExDates c,
      si_AsOf = bc_AsOf c, si_UnverifiableDate = bc_Unverifiable c, si_Source = bc_Source c,
      si_Sessions = sessions, si_S0 = bc_S0 c, si_BaseDate = bc_BaseDate c, si_S0Fen = bc_S0Fen c,
      si_Session = session, si_SeriesFrom = bc_SeriesFrom c,
      si_Adj = (case adj of None \<Rightarrow> Map.empty | Some a \<Rightarrow> a), si_AdjChecked = (adj \<noteq> None),
      si_Now = now, si_Valve = valve\<rparr>"

definition add_settle :: "int \<Rightarrow> markResult \<Rightarrow> forecastPlan \<Rightarrow> forecastPlan" where
  "add_settle mid res p = p\<lparr>pl_settles := pl_settles p @ [(mid, res)]\<rparr>"

text \<open>One mark of the settling loop.\<close>

definition settle_step ::
  "baseCtx \<Rightarrow> forecastWorkSet \<Rightarrow> instant \<Rightarrow> string list \<Rightarrow> (string \<rightharpoonup> int) option \<Rightarrow> instant \<Rightarrow> bool \<Rightarrow> forecastMark \<Rightarrow> forecastPlan \<Rightarrow> forecastPlan" where
  "settle_step c ws madeAt sessions adj now valve m p =
     (if mark_terminal m then p
      else (case waiting_backoff now m of
        Some t \<Rightarrow> set_wake (fm_ID m) t p
      | None \<Rightarrow>
          (if \<not> is_due ws madeAt sessions m then not_due ws now m p
           else (let sch = mark_schedule ws madeAt sessions m;
                     res = settleMark (settle_input c ws sessions adj now valve m (sch_Record sch)) in
                 if mr_Status res = markResolved then add_settle (fm_ID m) res p
                 else if refusalClassOf (mr_Refusal res) = refusalMarkSpecific \<and>
                         predFinalMinAttempts \<le> fm_Attempts m + 1 \<and>
                         predRetryDeadlineTicks \<le> sessionsPastDue sessions (sch_Due sch)
                   then add_final (fm_ID m) (mr_Refusal res) p
                 else deferMark m (mr_Refusal res) (sch_Due sch) p))))"

text \<open>From here on the baseline is resolved, stored or written in this pass.\<close>

definition based :: "forecastWorkSet \<Rightarrow> string \<Rightarrow> forecastWorkSet" where
  "based ws s0 = ws\<lparr>ws_S0Date := s0, ws_BaseCheck := baseMatch\<rparr>"

datatype evalOut = EvalPlan forecastPlan | EvalNoMadeAt | EvalDeferred

definition settle_stage ::
  "evalEnv \<Rightarrow> baseCtx \<Rightarrow> forecastWorkSet \<Rightarrow> instant \<Rightarrow> string list \<Rightarrow> instant \<Rightarrow> bool \<Rightarrow> forecastPlan \<Rightarrow> evalOut" where
  "settle_stage env c ws madeAt sessions now valve plan =
     (let ws' = based ws (bc_S0 c);
          due = due_marks ws' madeAt now sessions;
          loop = (\<lambda>adj. fold (settle_step c ws' madeAt sessions adj now valve) (ws_Marks ws) plan)
      in if \<not> needs_adjust c due then EvalPlan (loop None)
         else (let latest = foldl (\<lambda>l (m, d). if l < d then d else l) (snd (hd due)) due in
               case ev_adjust env (bc_BaseDate c) latest of
                 AdjDeferred \<Rightarrow> EvalDeferred
               | AdjFailed \<Rightarrow> EvalPlan (fold (\<lambda>(m, d). deferMark m ''fetch_failed'' d) due plan)
               | AdjBars adj \<Rightarrow> EvalPlan (loop (Some adj))))"

definition base_stage_plan ::
  "evalEnv \<Rightarrow> baseStage \<Rightarrow> forecastWorkSet \<Rightarrow> instant \<Rightarrow> string list \<Rightarrow> instant \<Rightarrow> bool \<Rightarrow> evalOut" where
  "base_stage_plan env stage ws madeAt sessions now valve =
     (let plan = empty_plan (ws_SetID ws) in
      case stage of
        BaseNotReady \<Rightarrow> EvalPlan (wait_baseline ws now plan)
      | BaseFetchFailed code \<Rightarrow> EvalPlan (defer_all code [] (ws_Marks ws) plan)
      | BaseDone c \<Rightarrow>
          (let plan1 = plan\<lparr>pl_baseline := bc_Baseline c\<rparr> in
           case bc_Err c of
             Some err \<Rightarrow>
               (if bc_S0 c = [] then EvalPlan (fold (not_due ws now) (ws_Marks ws) plan1)
                else EvalPlan (no_base_plan ws sessions (bc_S0 c) err plan1))
           | None \<Rightarrow> settle_stage env c ws madeAt sessions now valve plan1))"

definition evaluateSet ::
  "evalEnv \<Rightarrow> forecastWorkSet \<Rightarrow> forecastSeries \<Rightarrow> string option \<Rightarrow> fetchErr + forecastSeries \<Rightarrow> bool \<Rightarrow> instant \<Rightarrow> evalOut" where
  "evaluateSet env ws index fault stockAnswer valve now =
     (let plan = empty_plan (ws_SetID ws) in
      case fault of
        Some code \<Rightarrow> EvalPlan (wake_or_defer ws now code plan)
      | None \<Rightarrow>
          (case stockAnswer of
             Inl err \<Rightarrow> EvalPlan (wake_or_defer ws now (ledgerFetchRefusal err) plan)
           | Inr stock \<Rightarrow>
               (if fs_Bars stock = [] \<and> fs_UnverifiableDate stock = []
                then EvalPlan (wake_or_defer ws now ''fetch_failed'' plan)
                else (let sessions = completedSessions index now in
                  case setMadeAt ws of
                    None \<Rightarrow> EvalNoMadeAt
                  | Some madeAt \<Rightarrow>
                      (if hasZeroVolumeBar (fs_Bars index) \<or> \<not> storedS0Reproduced (ws_S0Date ws) madeAt sessions
                       then EvalPlan (wake_or_defer ws now ''calendar_bad'' plan)
                       else base_stage_plan env (base_stage env ws index stock madeAt sessions)
                              ws madeAt sessions now valve)))))"

section \<open>What the planning steps add\<close>

lemma update_mem: "w \<in> set (AList.update k v al) \<Longrightarrow> w = (k, v) \<or> w \<in> set al"
  by (induction al) (auto split: if_splits)

lemma set_wake_wakes: "w \<in> set (pl_wakes (set_wake mid t p)) \<Longrightarrow> w = (mid, t) \<or> w \<in> set (pl_wakes p)"
  using update_mem [of w mid t "pl_wakes p"] by (simp add: set_wake_def)

lemma plan_field_simps [simp]:
  "pl_finals (set_wake mid t p) = pl_finals p" "pl_settles (set_wake mid t p) = pl_settles p"
  "pl_defers (set_wake mid t p) = pl_defers p"
  "pl_terminalBaseline (set_wake mid t p) = pl_terminalBaseline p"
  "pl_baseline (set_wake mid t p) = pl_baseline p"
  "pl_finals (deferMark m code session p) = pl_finals p" "pl_settles (deferMark m code session p) = pl_settles p"
  "pl_wakes (deferMark m code session p) = pl_wakes p"
  "pl_terminalBaseline (deferMark m code session p) = pl_terminalBaseline p"
  "pl_baseline (deferMark m code session p) = pl_baseline p"
  "pl_finals (add_final mid code p) = pl_finals p @ [(mid, code)]"
  "pl_settles (add_final mid code p) = pl_settles p" "pl_wakes (add_final mid code p) = pl_wakes p"
  "pl_defers (add_final mid code p) = pl_defers p"
  "pl_terminalBaseline (add_final mid code p) = pl_terminalBaseline p"
  "pl_settles (add_settle mid res p) = pl_settles p @ [(mid, res)]"
  "pl_finals (add_settle mid res p) = pl_finals p" "pl_wakes (add_settle mid res p) = pl_wakes p"
  "pl_terminalBaseline (add_settle mid res p) = pl_terminalBaseline p"
  by (simp_all add: set_wake_def deferMark_def add_final_def add_settle_def)

lemma empty_plan_simps [simp]:
  "pl_finals (empty_plan sid) = []" "pl_settles (empty_plan sid) = []" "pl_wakes (empty_plan sid) = []"
  "pl_defers (empty_plan sid) = []" "\<not> pl_terminalBaseline (empty_plan sid)" "pl_baseline (empty_plan sid) = None"
  by (simp_all add: empty_plan_def)

text \<open>
  The folds over a set's marks. A property of plans kept by deferring any mark and by the wakes and
  finals a fold adds is kept by the fold.
\<close>

lemma defer_all_keeps:
  "(\<And>m q. P q \<Longrightarrow> P (deferMark m code session q)) \<Longrightarrow> P p \<Longrightarrow> P (defer_all code session ms p)"
  unfolding defer_all_def by (rule fold_keeps) auto

lemma wake_or_defer_keeps:
  "(\<And>m q. P q \<Longrightarrow> P (deferMark m code [] q)) \<Longrightarrow>
   (\<And>m q. P q \<Longrightarrow> future_wake ws now m \<Longrightarrow> P (set_wake (fm_ID m) (predWakeAt ws (fm_Checkpoint m)) q)) \<Longrightarrow>
   P p \<Longrightarrow> P (wake_or_defer ws now code p)"
  unfolding wake_or_defer_def by (rule fold_keeps) auto

lemma wait_baseline_keeps:
  assumes "\<And>mid t q. P q \<Longrightarrow> now < t \<Longrightarrow> P (set_wake mid t q)" "P p"
  shows "P (wait_baseline ws now p)"
proof -
  have t: "now < (if future_wake ws now m then predWakeAt ws (fm_Checkpoint m) else predNotYetShown now)" for m
    by (simp add: future_wake_def not_shown_future)
  show ?thesis unfolding wait_baseline_def
  proof (rule fold_keeps [where P = P], intro ballI allI impI)
    fix x s assume "P s"
    then show "P (set_wake (fm_ID x) (if future_wake ws now x then predWakeAt ws (fm_Checkpoint x)
        else predNotYetShown now) s)" by (rule assms(1) [OF _ t])
  qed (rule assms(2))
qed

lemma not_due_keeps:
  assumes "\<And>q. P q \<Longrightarrow> P (add_final (fm_ID m) ''no_schedule'' q)"
    and "\<And>t q. P q \<Longrightarrow> now < t \<Longrightarrow> P (set_wake (fm_ID m) t q)" "P p"
  shows "P (not_due ws now m p)"
  using assms by (simp add: not_due_def Let_def not_shown_future)

lemma settle_step_keeps:
  assumes final: "\<And>q. P q \<Longrightarrow> P (add_final (fm_ID m) ''no_schedule'' q)"
    and wake: "\<And>t q. P q \<Longrightarrow> now < t \<Longrightarrow> P (set_wake (fm_ID m) t q)"
    and again: "\<And>code session q. P q \<Longrightarrow> P (deferMark m code session q)"
    and settle: "\<And>res q. \<not> mark_terminal m \<Longrightarrow> waiting_backoff now m = None \<Longrightarrow> is_due ws madeAt sessions m \<Longrightarrow>
        res = settleMark (settle_input c ws sessions adj now valve m (sch_Record (mark_schedule ws madeAt sessions m))) \<Longrightarrow>
        mr_Status res = markResolved \<Longrightarrow> P q \<Longrightarrow> P (add_settle (fm_ID m) res q)"
    and late: "\<And>code q. refusalClassOf code = refusalMarkSpecific \<Longrightarrow> predFinalMinAttempts \<le> fm_Attempts m + 1 \<Longrightarrow>
        predRetryDeadlineTicks \<le> sessionsPastDue sessions (sch_Due (mark_schedule ws madeAt sessions m)) \<Longrightarrow>
        is_due ws madeAt sessions m \<Longrightarrow> P q \<Longrightarrow> P (add_final (fm_ID m) code q)"
    and p: "P p"
  shows "P (settle_step c ws madeAt sessions adj now valve m p)"
proof (cases "mark_terminal m")
  case True
  then show ?thesis using p by (simp add: settle_step_def)
next
  case nt: False
  show ?thesis
  proof (cases "waiting_backoff now m")
    case (Some t)
    then have "now < t" by (auto simp: waiting_backoff_def split: if_splits option.splits)
    then show ?thesis using nt Some wake p by (simp add: settle_step_def)
  next
    case None
    show ?thesis
    proof (cases "is_due ws madeAt sessions m")
      case False
      then show ?thesis using nt None not_due_keeps [of P m now p ws] final wake p by (simp add: settle_step_def)
    next
      case True
      then show ?thesis
        using nt None settle [OF nt None True refl _ p] late [OF _ _ _ True p] again [OF p]
        by (simp add: settle_step_def Let_def)
    qed
  qed
qed

section \<open>What one evaluation may plan\<close>

text \<open>The due session of a mark once the set starts on \<open>s0\<close>.\<close>

definition due_session :: "forecastWorkSet \<Rightarrow> string list \<Rightarrow> forecastMark \<Rightarrow> string \<Rightarrow> bool" where
  "due_session ws sessions m d \<longleftrightarrow>
     (\<exists>s0 madeAt. setMadeAt ws = Some madeAt \<and> is_due (based ws s0) madeAt sessions m \<and>
        d = sch_Due (mark_schedule (based ws s0) madeAt sessions m))"

definition final_ok :: "forecastWorkSet \<Rightarrow> string list \<Rightarrow> int \<times> string \<Rightarrow> bool" where
  "final_ok ws sessions f \<longleftrightarrow>
     (\<exists>m\<in>set (ws_Marks ws). fm_ID m = fst f \<and>
        (snd f = ''no_schedule'' \<or>
         refusalClassOf (snd f) = refusalMarkSpecific \<and> predFinalMinAttempts \<le> fm_Attempts m + 1 \<and>
         (\<exists>d. due_session ws sessions m d \<and> predRetryDeadlineTicks \<le> sessionsPastDue sessions d)))"

definition settle_ok :: "forecastWorkSet \<Rightarrow> instant \<Rightarrow> string list \<Rightarrow> int \<times> markResult \<Rightarrow> bool" where
  "settle_ok ws now sessions st \<longleftrightarrow>
     (\<exists>m\<in>set (ws_Marks ws). fm_ID m = fst st \<and> \<not> mark_terminal m \<and> waiting_backoff now m = None \<and>
        mr_Status (snd st) = markResolved \<and> due_session ws sessions m (mr_Session (snd st)) \<and>
        (\<exists>inp. si_Mark inp = m \<and> si_Sessions inp = sessions \<and> snd st = settleMark inp))"

definition plan_sound :: "forecastWorkSet \<Rightarrow> instant \<Rightarrow> string list \<Rightarrow> forecastPlan \<Rightarrow> bool" where
  "plan_sound ws now sessions p \<longleftrightarrow>
     (\<forall>w\<in>set (pl_wakes p). now < snd w) \<and> (\<forall>f\<in>set (pl_finals p). final_ok ws sessions f) \<and>
     (\<forall>st\<in>set (pl_settles p). settle_ok ws now sessions st)"

lemma plan_sound_empty [simp]: "plan_sound ws now sessions (empty_plan sid)"
  by (simp add: plan_sound_def)

lemma plan_sound_defer [simp]: "plan_sound ws now sessions (deferMark m code session p) = plan_sound ws now sessions p"
  by (simp add: plan_sound_def)

lemma plan_sound_wake: "plan_sound ws now sessions p \<Longrightarrow> now < t \<Longrightarrow> plan_sound ws now sessions (set_wake mid t p)"
  by (auto simp: plan_sound_def dest: set_wake_wakes)

lemma plan_sound_no_schedule:
  "plan_sound ws now sessions p \<Longrightarrow> m \<in> set (ws_Marks ws) \<Longrightarrow>
   plan_sound ws now sessions (add_final (fm_ID m) ''no_schedule'' p)"
  by (auto simp: plan_sound_def final_ok_def)

lemma known_record_due: "sch_Known (predScheduleFor cp madeAt hs s0 ss) \<Longrightarrow>
  sch_Record (predScheduleFor cp madeAt hs s0 ss) = sch_Due (predScheduleFor cp madeAt hs s0 ss)"
  by (auto simp: predScheduleFor_def scheduleFrom_def no_schedule_def Let_def split: option.splits if_splits)

lemma settle_session: "mr_Status (settleMark inp) = markResolved \<Longrightarrow> mr_Session (settleMark inp) = si_Session inp"
  by (elim settle_resolved_cases) simp

lemma settle_step_sound:
  assumes m: "m \<in> set (ws_Marks ws)" and madeAt: "setMadeAt ws = Some madeAt" and p: "plan_sound ws now sessions p"
  shows "plan_sound ws now sessions (settle_step c (based ws s0) madeAt sessions adj now valve m p)"
proof (rule settle_step_keeps [where P = "plan_sound ws now sessions"])
  fix q res
  assume nt: "\<not> mark_terminal m" "waiting_backoff now m = None" and due: "is_due (based ws s0) madeAt sessions m"
    and r: "res = settleMark (settle_input c (based ws s0) sessions adj now valve m
        (sch_Record (mark_schedule (based ws s0) madeAt sessions m)))"
    and res: "mr_Status res = markResolved" and q: "plan_sound ws now sessions q"
  have "mr_Session res = sch_Due (mark_schedule (based ws s0) madeAt sessions m)"
    using res settle_session due unfolding r
    by (simp add: settle_input_def is_due_def mark_schedule_def known_record_due)
  then have "due_session ws sessions m (mr_Session res)" using due madeAt unfolding due_session_def by blast
  moreover have "\<exists>inp. si_Mark inp = m \<and> si_Sessions inp = sessions \<and> res = settleMark inp"
    unfolding r
    by (rule exI [of _ "settle_input c (based ws s0) sessions adj now valve m
        (sch_Record (mark_schedule (based ws s0) madeAt sessions m))"]) (simp add: settle_input_def)
  ultimately have "settle_ok ws now sessions (fm_ID m, res)"
    using m nt res by (auto simp: settle_ok_def)
  then show "plan_sound ws now sessions (add_settle (fm_ID m) res q)" using q by (auto simp: plan_sound_def)
next
  fix code q
  assume late: "refusalClassOf code = refusalMarkSpecific" "predFinalMinAttempts \<le> fm_Attempts m + 1"
    "predRetryDeadlineTicks \<le> sessionsPastDue sessions (sch_Due (mark_schedule (based ws s0) madeAt sessions m))"
    and due: "is_due (based ws s0) madeAt sessions m" and q: "plan_sound ws now sessions q"
  have "due_session ws sessions m (sch_Due (mark_schedule (based ws s0) madeAt sessions m))"
    using due madeAt unfolding due_session_def by blast
  then have "final_ok ws sessions (fm_ID m, code)" using late m unfolding final_ok_def by force
  then show "plan_sound ws now sessions (add_final (fm_ID m) code q)" using q by (auto simp: plan_sound_def)
qed (use m p in \<open>auto intro: plan_sound_wake plan_sound_no_schedule\<close>)

lemma settle_stage_sound:
  assumes "setMadeAt ws = Some madeAt" "plan_sound ws now sessions plan"
    and "settle_stage env c ws madeAt sessions now valve plan = EvalPlan p"
  shows "plan_sound ws now sessions p"
proof -
  have loop: "plan_sound ws now sessions
      (fold (settle_step c (based ws (bc_S0 c)) madeAt sessions adj now valve) (ws_Marks ws) plan)" for adj
    using assms(1,2)
    by (intro fold_keeps [where P = "plan_sound ws now sessions"]) (auto intro: settle_step_sound)
  have defers: "plan_sound ws now sessions (fold (\<lambda>(m, d). deferMark m ''fetch_failed'' d) due plan)" for due
    using assms(2) by (intro fold_keeps [where P = "plan_sound ws now sessions"]) auto
  let ?due = "due_marks (based ws (bc_S0 c)) madeAt now sessions"
  show ?thesis
  proof (cases "needs_adjust c ?due")
    case False
    then show ?thesis using assms(3) loop by (auto simp add: settle_stage_def Let_def)
  next
    case True
    then show ?thesis using assms(3) loop defers
      by (cases "ev_adjust env (bc_BaseDate c)
            (foldl (\<lambda>l (m, d). if l < d then d else l) (snd (hd ?due)) ?due)")
        (auto simp add: settle_stage_def Let_def)
  qed
qed

lemma evaluateSet_sound:
  assumes "evaluateSet env ws index fault answer valve now = EvalPlan p"
  shows "plan_sound ws now (completedSessions index now) p"
proof -
  let ?s = "completedSessions index now"
  have wod: "plan_sound ws now ?s (wake_or_defer ws now code (empty_plan (ws_SetID ws)))" for code
    by (rule wake_or_defer_keeps) (auto intro: plan_sound_wake simp: future_wake_def)
  have base: "plan_sound ws now ?s q"
    if m: "setMadeAt ws = Some madeAt" and e: "base_stage_plan env stage ws madeAt ?s now valve = EvalPlan q"
    for stage madeAt q
  proof -
    have b: "plan_sound ws now ?s ((empty_plan (ws_SetID ws))\<lparr>pl_baseline := x\<rparr>)" for x
      by (simp add: plan_sound_def)
    have t: "plan_sound ws now ?s (r\<lparr>pl_terminalBaseline := x\<rparr>) = plan_sound ws now ?s r" for r x
      by (simp add: plan_sound_def)
    have da: "plan_sound ws now ?s r \<Longrightarrow> plan_sound ws now ?s (defer_all code d ms r)" for code d ms r
      by (rule defer_all_keeps) auto
    have nd: "plan_sound ws now ?s r \<Longrightarrow> plan_sound ws now ?s (fold (not_due ws now) (ws_Marks ws) r)" for r
      by (rule fold_keeps [where P = "plan_sound ws now ?s"])
        (auto intro!: not_due_keeps [where P = "plan_sound ws now ?s"] plan_sound_wake plan_sound_no_schedule)
    have wb: "plan_sound ws now ?s (wait_baseline ws now (empty_plan (ws_SetID ws)))"
      by (rule wait_baseline_keeps) (auto intro: plan_sound_wake)
    show ?thesis
    proof (cases stage)
      case BaseNotReady
      then show ?thesis using e wb by (auto simp add: base_stage_plan_def)
    next
      case (BaseFetchFailed code)
      then show ?thesis using e da [of "empty_plan (ws_SetID ws)"] by (auto simp add: base_stage_plan_def)
    next
      case (BaseDone c)
      show ?thesis
      proof (cases "bc_Err c")
        case None
        then show ?thesis using e BaseDone settle_stage_sound [OF m b] by (simp add: base_stage_plan_def Let_def)
      next
        case (Some err)
        then show ?thesis using e BaseDone nd [OF b] da [OF b] t
          by (auto simp add: base_stage_plan_def no_base_plan_def Let_def split: if_splits)
      qed
    qed
  qed
  show ?thesis
    using assms wod base unfolding evaluateSet_def Let_def
    by (auto split: option.splits sum.splits if_splits)
qed

section \<open>Finality\<close>

lemma min_attempts_le: "m \<in> set ms \<Longrightarrow> min_attempts ms \<le> fm_Attempts m + 1"
proof -
  have le: "foldl (\<lambda>a m. if fm_Attempts m + 1 < a then fm_Attempts m + 1 else a) a0 xs \<le> a0 \<and>
      (\<forall>m\<in>set xs. foldl (\<lambda>a m. if fm_Attempts m + 1 < a then fm_Attempts m + 1 else a) a0 xs \<le> fm_Attempts m + 1)"
    for a0 and xs :: "forecastMark list"
    by (induction xs arbitrary: a0) (fastforce intro: order.trans)+
  assume "m \<in> set ms"
  then show ?thesis using le [of "fm_Attempts (hd ms) + 1" "tl ms"]
    by (cases ms) (auto simp: min_attempts_def)
qed

lemma defer_all_terminal [simp]: "pl_terminalBaseline (defer_all code d ms p) = pl_terminalBaseline p"
  unfolding defer_all_def by (induction ms arbitrary: p) simp_all

lemma settle_step_terminal: "pl_terminalBaseline (settle_step c ws madeAt sessions adj now valve m p) = pl_terminalBaseline p"
  by (simp add: settle_step_def not_due_def Let_def split: option.splits)

lemma fold_terminal:
  "(\<And>m q. pl_terminalBaseline (f m q) = pl_terminalBaseline q) \<Longrightarrow>
   pl_terminalBaseline (fold f ms p) = pl_terminalBaseline p"
  by (induction ms arbitrary: p) simp_all

lemma settle_stage_terminal:
  assumes "settle_stage env c ws madeAt sessions now valve plan = EvalPlan p" "\<not> pl_terminalBaseline plan"
  shows "\<not> pl_terminalBaseline p"
proof -
  let ?due = "due_marks (based ws (bc_S0 c)) madeAt now sessions"
  have "pl_terminalBaseline (fold (\<lambda>(m, d). deferMark m ''fetch_failed'' d) xs q) = pl_terminalBaseline q" for xs q
    by (rule fold_terminal) auto
  moreover have "pl_terminalBaseline (fold (settle_step c ws' madeAt sessions adj now valve) ms q) = pl_terminalBaseline q"
    for adj ms q ws' by (rule fold_terminal) (rule settle_step_terminal)
  ultimately show ?thesis
    using assms
    by (cases "ev_adjust env (bc_BaseDate c)
          (foldl (\<lambda>l (m, d). if l < d then d else l) (snd (hd ?due)) ?due)")
      (auto simp: settle_stage_def Let_def split: if_splits)
qed

lemma not_due_terminal: "pl_terminalBaseline (not_due ws now m p) = pl_terminalBaseline p"
  by (simp add: not_due_def Let_def)

lemma evaluateSet_terminal:
  assumes "evaluateSet env ws index fault answer valve now = EvalPlan p" "pl_terminalBaseline p"
  shows "ws_Marks ws \<noteq> [] \<and> (\<forall>m\<in>set (ws_Marks ws). predFinalMinAttempts \<le> fm_Attempts m + 1) \<and>
         (\<exists>s0. predRetryDeadlineTicks \<le> sessionsPastDue (completedSessions index now) s0)"
proof -
  have wod: "\<not> pl_terminalBaseline (wake_or_defer ws now code (empty_plan sid))" for code sid
    unfolding wake_or_defer_def by (subst fold_terminal) simp_all
  have wb: "\<not> pl_terminalBaseline (wait_baseline ws now (empty_plan sid))" for sid
    unfolding wait_baseline_def by (subst fold_terminal) simp_all
  have nd: "\<not> pl_terminalBaseline (fold (not_due ws now) ms ((empty_plan sid)\<lparr>pl_baseline := b\<rparr>))" for ms sid b
    by (subst fold_terminal) (simp_all add: not_due_terminal)
  have e: "\<not> pl_terminalBaseline ((empty_plan sid)\<lparr>pl_baseline := b\<rparr>)" for sid b by simp
  have base: "?thesis" if b: "base_stage_plan env stage ws madeAt (completedSessions index now) now valve = EvalPlan p"
    for stage madeAt
  proof (cases stage)
    case BaseNotReady
    then show ?thesis using b wb assms(2) by (auto simp: base_stage_plan_def)
  next
    case (BaseFetchFailed code)
    then show ?thesis using b assms(2) by (auto simp: base_stage_plan_def)
  next
    case (BaseDone c)
    show ?thesis
    proof (cases "bc_Err c")
      case None
      then show ?thesis using b BaseDone settle_stage_terminal [OF _ e] assms(2)
        by (auto simp: base_stage_plan_def Let_def)
    next
      case (Some err)
      then show ?thesis using b BaseDone nd assms(2) min_attempts_le order.trans
        by (fastforce simp: base_stage_plan_def no_base_plan_def Let_def split: if_splits)
    qed
  qed
  show ?thesis
    using assms wod base unfolding evaluateSet_def Let_def
    by (auto split: option.splits sum.splits if_splits)
qed


lemma due_session_completed:
  "due_session ws (completedSessions index now) m d \<Longrightarrow>
   d \<in> qb_Date ` set (fs_Bars index) \<and> readSessionCompleted d now"
  using set_completedSessions [of index now]
  by (auto simp: due_session_def is_due_def containsDate_sorted)

text \<open>
  A conclusion is only ever drawn from a finished session: every mark an evaluation
  settles was open, its backoff had expired, and the session it is settled on is a bar of the
  benchmark whose session is over by the clock (before today, or today after 15:30), so no intraday
  bar is frozen into the record.
\<close>

theorem settles_only_completed_sessions:
  assumes "evaluateSet env ws index fault answer valve now = EvalPlan p" "(mid, res) \<in> set (pl_settles p)"
  shows "mr_Status res = markResolved \<and> mr_Session res \<in> qb_Date ` set (fs_Bars index) \<and>
         readSessionCompleted (mr_Session res) now \<and>
         (\<exists>m\<in>set (ws_Marks ws). fm_ID m = mid \<and> \<not> mark_terminal m \<and> waiting_backoff now m = None)"
proof -
  have "settle_ok ws now (completedSessions index now) (mid, res)"
    using evaluateSet_sound [OF assms(1)] assms(2) by (auto simp: plan_sound_def)
  then show ?thesis using due_session_completed by (fastforce simp: settle_ok_def)
qed

section \<open>No mark is lost\<close>

definition planned :: "int \<Rightarrow> forecastPlan \<Rightarrow> bool" where
  "planned mid p \<longleftrightarrow>
     mid \<in> fst ` set (pl_wakes p) \<or> mid \<in> fst ` set (pl_finals p) \<or> mid \<in> fst ` set (pl_settles p) \<or>
     (\<exists>g\<in>set (pl_defers p). \<exists>m\<in>set (dg_marks g). fm_ID m = mid)"

lemma update_keys: "fst ` set (AList.update k v al) = insert k (fst ` set al)"
  by (induction al) auto

lemma planned_wake [simp]: "planned mid (set_wake m t p) \<longleftrightarrow> mid = m \<or> planned mid p"
  unfolding planned_def by (auto simp: set_wake_def update_keys)

lemma defer_into_ids:
  "(\<exists>g\<in>set (defer_into m code d gs). \<exists>x\<in>set (dg_marks g). fm_ID x = mid) \<longleftrightarrow>
   mid = fm_ID m \<or> (\<exists>g\<in>set gs. \<exists>x\<in>set (dg_marks g). fm_ID x = mid)"
  by (induction gs) auto

lemma planned_defer [simp]: "planned mid (deferMark m code d p) \<longleftrightarrow> mid = fm_ID m \<or> planned mid p"
  using defer_into_ids [where gs = "pl_defers p"] unfolding planned_def
  by (auto simp: deferMark_def)

lemma planned_final [simp]: "planned mid (add_final m code p) \<longleftrightarrow> mid = m \<or> planned mid p"
  by (auto simp: planned_def add_final_def)

lemma planned_settle [simp]: "planned mid (add_settle m res p) \<longleftrightarrow> mid = m \<or> planned mid p"
  by (auto simp: planned_def add_settle_def)

lemma planned_terminal [simp]: "planned mid (p\<lparr>pl_terminalBaseline := b\<rparr>) = planned mid p"
  by (simp add: planned_def)

lemma not_due_planned: "planned mid (not_due ws now m p) \<longleftrightarrow> mid = fm_ID m \<or> planned mid p"
  by (auto simp: not_due_def Let_def)

lemma settle_step_planned:
  "planned mid (settle_step c ws madeAt sessions adj now valve m p) \<longleftrightarrow>
   (mid = fm_ID m \<and> \<not> mark_terminal m) \<or> planned mid p"
  by (auto simp: settle_step_def Let_def not_due_planned split: option.splits)

lemma fold_planned:
  assumes "m \<in> set ms" "\<And>q. planned (fm_ID m) (f m q)"
    and "\<And>x q mid. planned mid q \<Longrightarrow> planned mid (f x q)"
  shows "planned (fm_ID m) (fold f ms p)"
  using assms by (intro fold_reaches [where x = m and P = "planned (fm_ID m)"]) auto

lemma wake_or_defer_planned:
  "m \<in> set (ws_Marks ws) \<Longrightarrow> planned (fm_ID m) (wake_or_defer ws now code p)"
  unfolding wake_or_defer_def by (erule fold_planned) auto

lemma defer_all_planned: "m \<in> set ms \<Longrightarrow> planned (fm_ID m) (defer_all code d ms p)"
  unfolding defer_all_def by (erule fold_planned) auto

lemma wait_baseline_planned:
  "m \<in> set (ws_Marks ws) \<Longrightarrow> planned (fm_ID m) (wait_baseline ws now p)"
  unfolding wait_baseline_def by (erule fold_planned) auto

lemma not_due_all_planned:
  "m \<in> set ms \<Longrightarrow> planned (fm_ID m) (fold (not_due ws now) ms p)"
  by (erule fold_planned) (auto simp: not_due_planned)

lemma settle_all_planned:
  "m \<in> set ms \<Longrightarrow> \<not> mark_terminal m \<Longrightarrow>
   planned (fm_ID m) (fold (settle_step c ws madeAt sessions adj now valve) ms p)"
  by (erule fold_planned) (auto simp: settle_step_planned)


section \<open>A small pass\<close>

definition demo_days :: "string list" where
  "demo_days = [''2026-01-05'', ''2026-01-06'', ''2026-01-07'', ''2026-01-08'', ''2026-01-09'', ''2026-01-12'',
     ''2026-01-13'', ''2026-01-14'', ''2026-01-15'', ''2026-01-16'', ''2026-01-19'', ''2026-01-20'',
     ''2026-01-21'', ''2026-01-22'', ''2026-01-23'', ''2026-01-26'']"

definition demo_index :: forecastSeries where
  "demo_index = \<lparr>fs_Bars = map (\<lambda>d. demo_bar d 40000) demo_days, fs_ExDates = [], fs_Kind = ''index'',
     fs_AsOf = [], fs_UnverifiableDate = [], fs_Source = ''tencent'', fs_Market = ''sh'', fs_Code = ''000852''\<rparr>"

definition demo_stock :: "int \<Rightarrow> forecastSeries" where
  "demo_stock c = demo_index\<lparr>fs_Bars := map (\<lambda>d. demo_bar d c) demo_days, fs_Kind := ''stock''\<rparr>"

definition demo_env :: evalEnv where
  "demo_env = \<lparr>ev_wideStock = Inl OtherErr, ev_wideIndex = Inl OtherErr, ev_adjust = (\<lambda>_ _. AdjBars (\<lambda>_. Some 10000))\<rparr>"

definition demo_now :: instant where "demo_now = china_at 20479 (17 * 60)"

text \<open>One pass settles the demonstration mark; with a moved anchor and three failures it is final.\<close>

lemma demo_settles:
  "\<exists>p res. evaluateSet demo_env demo_set demo_index None (Inr (demo_stock 10000)) False demo_now = EvalPlan p \<and>
     (7, res) \<in> set (pl_settles p)"
proof -
  have "(case evaluateSet demo_env demo_set demo_index None (Inr (demo_stock 10000)) False demo_now of
      EvalPlan p \<Rightarrow> map fst (pl_settles p) | _ \<Rightarrow> []) = [7]" by code_simp
  then show ?thesis by (auto split: evalOut.splits simp: Cons_eq_map_conv)
qed

definition demo_failed :: forecastWorkSet where
  "demo_failed = demo_set\<lparr>ws_Marks := [demo_mark\<lparr>fm_Attempts := 3\<rparr>]\<rparr>"

lemma demo_finalises:
  "\<exists>p. evaluateSet demo_env demo_failed demo_index None (Inr (demo_stock 9000)) False demo_now = EvalPlan p \<and>
     pl_finals p = [(7, ''anchor_mismatch'')]"
proof -
  have "(case evaluateSet demo_env demo_failed demo_index None (Inr (demo_stock 9000)) False demo_now of
      EvalPlan p \<Rightarrow> pl_finals p | _ \<Rightarrow> []) = [(7, ''anchor_mismatch'')]" by code_simp
  then show ?thesis by (auto split: evalOut.splits)
qed


lemma settles_only_completed_sessions_witness:
  "\<exists>p res. evaluateSet demo_env demo_set demo_index None (Inr (demo_stock 10000)) False demo_now = EvalPlan p \<and>
     (7, res) \<in> set (pl_settles p) \<and> readSessionCompleted (mr_Session res) demo_now"
proof -
  obtain p res where e: "evaluateSet demo_env demo_set demo_index None (Inr (demo_stock 10000)) False demo_now = EvalPlan p"
    and r: "(7, res) \<in> set (pl_settles p)" using demo_settles by blast
  show ?thesis using settles_only_completed_sessions [OF e r] e r by blast
qed


section \<open>The rest of a pass\<close>

record quoteResp =
  qr_Bars :: "QuoteBar list"
  qr_ExDates :: "string list"
  qr_Kind :: string
  qr_AsOf :: string
  qr_BarsSource :: string
  qr_Source :: string

text \<open>
  \<open>rangeBars\<close> after the vendor call: the newest bar is dropped unless it is final, and remembered when
  the body could not vouch for it. The pass's own reuse of bodies is the vendor parameter's business.
\<close>

definition rangeBars :: "string \<Rightarrow> string \<Rightarrow> instant \<Rightarrow> fetchErr + quoteResp option \<Rightarrow> fetchErr + forecastSeries" where
  "rangeBars market code now answer =
     (case answer of
        Inl err \<Rightarrow> Inl err
      | Inr None \<Rightarrow> Inl OtherErr
      | Inr (Some r) \<Rightarrow>
          (let src = (if qr_BarsSource r = [] then qr_Source r else qr_BarsSource r);
               final = (qr_Bars r \<noteq> [] \<and> fst (newestBarFinal (last (qr_Bars r)) (qr_AsOf r) now));
               unver = (qr_Bars r \<noteq> [] \<and> snd (newestBarFinal (last (qr_Bars r)) (qr_AsOf r) now))
           in Inr \<lparr>fs_Bars = (if final then qr_Bars r else butlast (qr_Bars r)),
                   fs_ExDates = qr_ExDates r, fs_Kind = qr_Kind r, fs_AsOf = qr_AsOf r,
                   fs_UnverifiableDate = (if unver then qb_Date (last (qr_Bars r)) else []),
                   fs_Source = src, fs_Market = market, fs_Code = code\<rparr>))"

record benchSpec =
  bs_Code :: string
  bs_Market :: string
  bs_Sym :: string

definition forecastBenchAllowlist :: "string \<rightharpoonup> benchSpec" where
  "forecastBenchAllowlist = map_of (map (\<lambda>(m, y). (m @ y, \<lparr>bs_Code = m @ y, bs_Market = m, bs_Sym = y\<rparr>))
     [(''sh'', ''000300''), (''sh'', ''000905''), (''sh'', ''000852''), (''sh'', ''000906'')])"

definition benchSpecFor :: "string \<Rightarrow> benchSpec option" where
  "benchSpecFor code = forecastBenchAllowlist (trim_space code)"

text \<open>The vendor as a pass sees it: market, code, start date, and the adjusted closes.\<close>

record vendor =
  vn_range :: "string \<Rightarrow> string \<Rightarrow> string \<Rightarrow> fetchErr + quoteResp option"
  vn_adjust :: "string \<Rightarrow> string \<Rightarrow> string \<Rightarrow> string \<Rightarrow> adjAnswer"

definition fetch_range :: "vendor \<Rightarrow> instant \<Rightarrow> string \<Rightarrow> string \<Rightarrow> string \<Rightarrow> fetchErr + forecastSeries" where
  "fetch_range v now market code from = rangeBars market code now (vn_range v market code from)"

definition earliest_made :: "forecastWorkSet list \<Rightarrow> string" where
  "earliest_made wss = foldl (\<lambda>d w. if ws_MadeOn w < d then ws_MadeOn w else d) (ws_MadeOn (hd wss)) wss"

definition indexCalendar :: "vendor \<Rightarrow> instant \<Rightarrow> benchSpec \<Rightarrow> forecastWorkSet list \<Rightarrow> fetchErr + forecastSeries" where
  "indexCalendar v now spec wss =
     fetch_range v now (bs_Market spec) (bs_Sym spec) (shiftDays (earliest_made wss) (- predReferenceLagDays))"

definition env_for :: "vendor \<Rightarrow> instant \<Rightarrow> forecastSeries \<Rightarrow> forecastWorkSet \<Rightarrow> evalEnv" where
  "env_for v now index ws =
     \<lparr>ev_wideStock = fetch_range v now (ws_Market ws) (ws_Symbol ws) (shiftDays (ws_MadeOn ws) (- 400)),
      ev_wideIndex = fetch_range v now (fs_Market index) (fs_Code index) (shiftDays (ws_MadeOn ws) (- 400)),
      ev_adjust = vn_adjust v (ws_Market ws) (ws_Symbol ws)\<rparr>"

text \<open>
  A pass is a list of plans to apply in order and a flag that the vendor budget ended it. A set whose
  receipt cannot be read is logged and left for the next pass.
\<close>

type_synonym passOut = "(forecastWorkSet \<times> forecastPlan) list \<times> bool"

fun evaluate_all ::
  "vendor \<Rightarrow> instant \<Rightarrow> forecastSeries \<Rightarrow> string option \<Rightarrow> bool \<Rightarrow> (forecastWorkSet \<times> (fetchErr + forecastSeries)) list \<Rightarrow> passOut" where
  "evaluate_all v now index fault valve [] = ([], False)"
| "evaluate_all v now index fault valve ((ws, answer) # rest) =
     (case evaluateSet (env_for v now index ws) ws index fault answer valve now of
        EvalDeferred \<Rightarrow> ([], True)
      | EvalNoMadeAt \<Rightarrow> evaluate_all v now index fault valve rest
      | EvalPlan p \<Rightarrow> (case evaluate_all v now index fault valve rest of (ps, stop) \<Rightarrow> ((ws, p) # ps, stop)))"

definition empty_series :: forecastSeries where
  "empty_series = \<lparr>fs_Bars = [], fs_ExDates = [], fs_Kind = [], fs_AsOf = [], fs_UnverifiableDate = [],
     fs_Source = [], fs_Market = [], fs_Code = []\<rparr>"

definition fetched_group :: "vendor \<Rightarrow> instant \<Rightarrow> benchSpec \<Rightarrow> forecastWorkSet list \<Rightarrow> passOut" where
  "fetched_group v now spec need =
     (let answer = indexCalendar v now spec need; fault = benchFault answer;
          index = (case answer of Inl _ \<Rightarrow> empty_series | Inr b \<Rightarrow> b)
      in if answer = Inl VendorDeferred then ([], True)
         else (case fault of
           Some code \<Rightarrow> evaluate_all v now index fault False (map (\<lambda>w. (w, Inr empty_series)) need)
         | None \<Rightarrow>
             (let stocks = map (\<lambda>w. fetch_range v now (ws_Market w) (ws_Symbol w)
                                      (shiftDays (ws_MadeOn w) (- predReferenceLagDays))) need
              in if list_ex (\<lambda>a. a = Inl VendorDeferred) stocks then ([], True)
                 else evaluate_all v now index None
                        (staleValve stocks (completedSessions index now)) (zip need stocks))))"

definition group_pass :: "vendor \<Rightarrow> instant \<Rightarrow> string \<times> forecastWorkSet list \<Rightarrow> passOut" where
  "group_pass v now g =
     (let asleep = concat (map (\<lambda>w. case wakeOnlyPlan w now of
                      None \<Rightarrow> [] | Some p \<Rightarrow> if pl_wakes p = [] then [] else [(w, p)]) (snd g));
          need = filter (\<lambda>w. wakeOnlyPlan w now = None) (snd g)
      in if need = [] then (asleep, False)
         else (case benchSpecFor (fst g) of
           None \<Rightarrow> (asleep @ map (\<lambda>w. (w, defer_all ''no_bench'' [] (ws_Marks w) (empty_plan (ws_SetID w)))) need, False)
         | Some spec \<Rightarrow> (case fetched_group v now spec need of (ps, stop) \<Rightarrow> (asleep @ ps, stop))))"

fun group_passes :: "vendor \<Rightarrow> instant \<Rightarrow> (string \<times> forecastWorkSet list) list \<Rightarrow> (forecastWorkSet \<times> forecastPlan) list" where
  "group_passes v now [] = []"
| "group_passes v now (g # gs) =
     (case group_pass v now g of (ps, stop) \<Rightarrow> if stop then ps else ps @ group_passes v now gs)"

definition tick_plans :: "vendor \<Rightarrow> instant \<Rightarrow> forecastWorkSet list \<Rightarrow> (forecastWorkSet \<times> forecastPlan) list" where
  "tick_plans v now sets =
     (case quarantineBadWindows now sets of
        (ok, bad) \<Rightarrow> bad @ group_passes v now (groupSetsByBench ok))"

section \<open>Applying a pass\<close>

text \<open>The switch (forecast_ops.go): off, dry or on, anything else is off.\<close>

definition forecastMode :: "string \<Rightarrow> string" where
  "forecastMode v = (let t = trim_space v in if t = ''1'' then ''1'' else if t = ''dry'' then ''dry'' else ''0'')"

definition planWrites :: "string \<Rightarrow> (string \<Rightarrow> bool) \<Rightarrow> string \<Rightarrow> bool" where
  "planWrites passMode gate benchCode =
     (if passMode = [] then True else if passMode = ''1'' then gate benchCode else False)"

text \<open>The one write door: a plan that may not be written is dropped, a failed one is logged.\<close>

definition applyPlan ::
  "string \<Rightarrow> (string \<Rightarrow> bool) \<Rightarrow> (int \<Rightarrow> string option) \<Rightarrow> instant \<Rightarrow> forecastWorkSet \<times> forecastPlan \<Rightarrow> ledger \<Rightarrow> ledger" where
  "applyPlan mode gate hook now wp l =
     (if \<not> planWrites mode gate (ws_BenchCode (fst wp)) then l
      else (case ApplyForecastPlan hook (snd wp) now l of Inl _ \<Rightarrow> l | Inr l' \<Rightarrow> l'))"

definition tick :: "string \<Rightarrow> (string \<Rightarrow> bool) \<Rightarrow> (int \<Rightarrow> string option) \<Rightarrow> vendor \<Rightarrow> instant \<Rightarrow> ledger \<Rightarrow> ledger" where
  "tick mode gate hook v now l =
     fold (applyPlan mode gate hook now) (tick_plans v now (ForecastSetsDue l now predEvalBatch)) l"

text \<open>One loop iteration; \<open>running\<close> is the single-flight guard, \<open>manual\<close> tells the manual route.\<close>

definition step :: "string \<Rightarrow> bool \<Rightarrow> bool \<Rightarrow> (string \<Rightarrow> bool) \<Rightarrow> (int \<Rightarrow> string option) \<Rightarrow> vendor \<Rightarrow> instant \<Rightarrow> ledger \<Rightarrow> ledger" where
  "step setting manual running gate hook v now l =
     (let mode = forecastMode setting in
      if mode = ''0'' then l
      else if mode = ''dry'' \<and> \<not> manual then l
      else if running then l
      else tick mode gate hook v now l)"

lemma applyPlan_steps: "ledger_step\<^sup>*\<^sup>* l (applyPlan mode gate hook now wp l)"
  by (auto simp: applyPlan_def intro: step_apply split: sum.splits)

lemma tick_steps: "ledger_step\<^sup>*\<^sup>* l (tick mode gate hook v now l)"
  unfolding tick_def
  by (rule fold_keeps [where P = "\<lambda>l'. ledger_step\<^sup>*\<^sup>* l l'"])
    (auto intro: rtranclp_trans applyPlan_steps)

lemma step_steps: "ledger_step\<^sup>*\<^sup>* l (step setting manual running gate hook v now l)"
  by (simp add: step_def Let_def tick_steps)

lemma forecastMode_cases: "forecastMode v \<in> {''0'', ''dry'', ''1''}"
  by (simp add: forecastMode_def Let_def)

text \<open>
  Only the on mode writes, and only for benchmarks whose dry run was checked by hand:
  in any other mode an iteration leaves the ledger as it was, and in the on mode with no benchmark
  gated it does too.
\<close>

theorem only_gated_live_passes_write:
  assumes "step setting manual running gate hook v now l \<noteq> l"
  shows "forecastMode setting = ''1'' \<and> \<not> running \<and>
         (\<exists>ws p. (ws, p) \<in> set (tick_plans v now (ForecastSetsDue l now predEvalBatch)) \<and> gate (ws_BenchCode ws))"
proof -
  let ?mode = "forecastMode setting"
  have "tick ?mode gate hook v now l = l"
    if "\<forall>wp\<in>set (tick_plans v now (ForecastSetsDue l now predEvalBatch)).
          \<not> planWrites ?mode gate (ws_BenchCode (fst wp))"
    unfolding tick_def using that
    by (intro fold_keeps [where P = "\<lambda>l'. l' = l"]) (auto simp: applyPlan_def)
  then obtain wp where w: "wp \<in> set (tick_plans v now (ForecastSetsDue l now predEvalBatch))"
    "planWrites ?mode gate (ws_BenchCode (fst wp))" and m: "?mode \<noteq> ''0''" "\<not> running"
    using assms unfolding step_def Let_def by (metis (full_types))
  have "(fst wp, snd wp) \<in> set (tick_plans v now (ForecastSetsDue l now predEvalBatch))" using w(1) by simp
  moreover have "?mode = ''1'' \<and> gate (ws_BenchCode (fst wp))"
    using w(2) m(1) forecastMode_cases [of setting] by (auto simp: planWrites_def split: if_splits)
  ultimately show ?thesis using m(2) by blast
qed

definition down_vendor :: vendor where
  "down_vendor = \<lparr>vn_range = (\<lambda>_ _ _. Inl OtherErr), vn_adjust = (\<lambda>_ _ _ _. AdjFailed)\<rparr>"

text \<open>A set whose receipt date cannot build a vendor window is quarantined before any fetch.\<close>

definition demo_one :: ledger where
  "demo_one = empty_ledger\<lparr>
     lg_sets := [\<lparr>ps_id = 1, ps_report_id = Some 9, ps_row = demo_row\<lparr>pr_MadeOn := ''bad''\<rparr>, ps_s0_date = [],
                  ps_base_date = [], ps_s0_fen = None, ps_base_check = baseCheckPending\<rparr>],
     lg_marks := [pending_mark 1 1 ''d5'' ''sh000852'']\<rparr>"

lemma only_gated_live_passes_write_witness:
  "forecastMode '' 1 '' = ''1'' \<and>
   step '' 1 '' False False (\<lambda>_. True) (\<lambda>_. None) down_vendor demo_now demo_one \<noteq> demo_one"
proof -
  have "map pm_status (lg_marks (step '' 1 '' False False (\<lambda>_. True) (\<lambda>_. None) down_vendor demo_now demo_one))
        \<noteq> map pm_status (lg_marks demo_one)" by code_simp
  then have "step '' 1 '' False False (\<lambda>_. True) (\<lambda>_. None) down_vendor demo_now demo_one \<noteq> demo_one" by metis
  then show ?thesis using only_gated_live_passes_write by blast
qed

section \<open>Grouping and the feed-wide valve\<close>

lemma concat_add_group: "mset (concat (map snd (add_to_group ws gs))) = add_mset ws (mset (concat (map snd gs)))"
  by (induction ws gs rule: add_to_group.induct) auto

lemma add_group_keys: "distinct (map fst gs) \<Longrightarrow> distinct (map fst (add_to_group ws gs)) \<and>
  set (map fst (add_to_group ws gs)) = insert (ws_BenchCode ws) (set (map fst gs))"
  by (induction ws gs rule: add_to_group.induct) auto

lemma add_group_codes:
  "\<forall>(c, wss)\<in>set gs. \<forall>w\<in>set wss. ws_BenchCode w = c \<Longrightarrow>
   \<forall>(c, wss)\<in>set (add_to_group ws gs). \<forall>w\<in>set wss. ws_BenchCode w = c"
  by (induction ws gs rule: add_to_group.induct) auto

text \<open>
  Grouping by benchmark loses and duplicates no set and never mixes two: the groups
  together hold exactly the due sets, each benchmark code has one group, and every set of a group is
  frozen with that group's code.
\<close>

theorem groups_partition_by_benchmark:
  "mset (concat (map snd (groupSetsByBench sets))) = mset sets \<and>
   distinct (map fst (groupSetsByBench sets)) \<and>
   (\<forall>(c, wss)\<in>set (groupSetsByBench sets). \<forall>w\<in>set wss. ws_BenchCode w = c)"
proof (induction sets rule: rev_induct)
  case Nil
  then show ?case by (simp add: groupSetsByBench_def)
next
  case (snoc w sets)
  have "groupSetsByBench (sets @ [w]) = add_to_group w (groupSetsByBench sets)"
    by (simp add: groupSetsByBench_def)
  then show ?case
    using snoc concat_add_group [of w "groupSetsByBench sets"] add_group_keys [of "groupSetsByBench sets" w]
      add_group_codes [of "groupSetsByBench sets" w] by simp
qed

lemma groups_partition_by_benchmark_witness:
  "length (concat (map snd (groupSetsByBench [demo_set, demo_failed]))) = 2"
proof -
  have "mset (concat (map snd (groupSetsByBench [demo_set, demo_failed]))) = mset [demo_set, demo_failed]"
    using groups_partition_by_benchmark [of "[demo_set, demo_failed]"] by (rule conjunct1)
  then have "size (mset (concat (map snd (groupSetsByBench [demo_set, demo_failed])))) = 2" by simp
  then show ?thesis by simp
qed

end
