(* ===== verification/Forecast_Ingest.thy ===== *)
theory Forecast_Ingest
  imports Forecast_Store
begin

text \<open>
  The ingest classifier (forecast_ingest.go): what a payload means and which rows it writes. The JSON
  decoder, the error marshaller and SHA-256 are arguments (\<open>codec\<close>); a raw JSON value is its byte
  string, empty when the field is absent. A refusal keeps its reason and path; the human-readable
  detail is not modelled. White space is trimmed as ASCII.
\<close>

section \<open>Vocabulary\<close>

definition predictionRtype :: string where
  "predictionRtype = [CHR 0xE6, CHR 0x8A, CHR 0x95, CHR 0xE8, CHR 0xB5, CHR 0x84, CHR 0xE5, CHR 0x86, CHR 0xB3,
     CHR 0xE7, CHR 0xAD, CHR 0x96, CHR 0xE5, CHR 0xBB, CHR 0xBA, CHR 0xE8, CHR 0xAE, CHR 0xAE]"

definition predictionCovered :: "string \<Rightarrow> bool" where
  "predictionCovered rtype \<longleftrightarrow> rtype = predictionRtype"

definition predSchemaV1 :: string where "predSchemaV1 = ''predictions.v1''"
definition predPayloadMax :: nat where "predPayloadMax = 65536"
definition predZone :: string where "predZone = ''Asia/Shanghai''"
definition predStdHorizonTol :: int where "predStdHorizonTol = 7"
definition predBacktestSlack :: int where "predBacktestSlack = hours 72"

definition predDecisionStatuses :: "string list" where
  "predDecisionStatuses = [''eligible'', ''no_trade'']"
definition predDecisionQualities :: "string list" where
  "predDecisionQualities = [''normal'', ''degraded'', ''repaired'']"
definition predProbabilityMethods :: "string list" where
  "predProbabilityMethods = [''approved_valuation_source'', ''approved_policy_default'', ''subjective_committee'',
     ''unavailable'', ''evidence_based_uncalibrated'', ''evidence_based_calibrated'']"
definition predClaimKinds :: "string list" where
  "predClaimKinds = [''stance'', ''terminal_value'', ''scenario'', ''entry_price'', ''stop_loss'']"
definition predStances :: "string list" where "predStances = [''long'', ''no_position'']"
definition predLabels :: "string list" where "predLabels = [''bull'', ''base'', ''bear'']"
definition predScenarioBases :: "string list" where "predScenarioBases = [''estimated'']"
definition predAdoptions :: "string list" where "predAdoptions = [''quote'', ''locator'']"
definition predRunModes :: "string list" where "predRunModes = [''production'', ''test'']"

definition kindStance :: string where [go_const]: "kindStance = ''stance''"
definition kindTerminal :: string where [go_const]: "kindTerminal = ''terminal_value''"
definition kindScenario :: string where [go_const]: "kindScenario = ''scenario''"
definition kindEntry :: string where [go_const]: "kindEntry = ''entry_price''"
definition kindStopLoss :: string where [go_const]: "kindStopLoss = ''stop_loss''"

definition reasonNotObject :: string where [go_const]: "reasonNotObject = ''not_object''"
definition reasonTooLarge :: string where [go_const]: "reasonTooLarge = ''too_large''"
definition reasonBadSchema :: string where [go_const]: "reasonBadSchema = ''bad_schema''"
definition reasonBadEnum :: string where [go_const]: "reasonBadEnum = ''bad_enum''"
definition reasonBadPrice :: string where [go_const]: "reasonBadPrice = ''bad_price''"
definition reasonBadProbability :: string where [go_const]: "reasonBadProbability = ''bad_probability''"
definition reasonProbabilitySum :: string where [go_const]: "reasonProbabilitySum = ''probability_sum''"
definition reasonMissingClaim :: string where [go_const]: "reasonMissingClaim = ''missing_claim''"
definition reasonDuplicateKey :: string where [go_const]: "reasonDuplicateKey = ''duplicate_key''"
definition reasonStopLevel :: string where [go_const]: "reasonStopLevel = ''stop_loss_level''"
definition reasonHorizon :: string where [go_const]: "reasonHorizon = ''horizon_not_future''"
definition reasonSymbolScope :: string where [go_const]: "reasonSymbolScope = ''symbol_out_of_scope''"
definition reasonBadDate :: string where [go_const]: "reasonBadDate = ''bad_date''"

section \<open>The wire shape\<close>

record predError =
  pe_Reason :: string
  pe_Path :: string

record predInput =
  in_Raw :: string
  in_Rtype :: string
  in_Symbol :: string
  in_MadeAt :: instant
  in_BodySHA :: string
  in_BenchCode :: string

record predClaimWire =
  cw_Key :: string
  cw_Kind :: string
  cw_Stance :: string
  cw_Label :: string
  cw_Price :: string
  cw_PProfit :: string
  cw_Probability :: string
  cw_TargetW :: string

record predPayloadWire =
  pw_Schema :: string
  pw_EmitterApp :: string
  pw_EmitterVersion :: string
  pw_EmitterCalculator :: string
  pw_EmitterSchema :: string
  pw_PolicyVersion :: string
  pw_ProbabilityMethod :: string
  pw_ProbabilityTransform :: string
  pw_ScenarioBasis :: string
  pw_ScenarioProvenance :: string
  pw_DecisionStatus :: string
  pw_DecisionQuality :: string
  pw_InformationCutoff :: string
  pw_BaselinePrice :: string
  pw_BaselineAsOf :: string
  pw_BaselineSource :: string
  pw_HorizonEnd :: string
  pw_Claims :: "predClaimWire list"
  pw_RunMode :: string

text \<open>
  The standard library the classifier calls: \<open>json.Unmarshal\<close> into a string, \<open>json.Valid\<close>, the strict
  payload decoder, the provenance decoder (which answers the adoption field), the error marshaller
  and the SHA-256 of the stored bytes.
\<close>

record codec =
  cd_string :: "string \<Rightarrow> string option"
  cd_valid :: "string \<Rightarrow> bool"
  cd_payload :: "string \<Rightarrow> predPayloadWire option"
  cd_provenance :: "string \<Rightarrow> string option"
  cd_errors :: "predError list \<Rightarrow> string"
  cd_sha256 :: "string \<Rightarrow> string"

section \<open>Numbers\<close>

text \<open>The regular expression for a price: 1 to 7 digits, then optionally a point and 1 or 2 digits.\<close>

definition rePrice :: "string \<Rightarrow> (string \<times> string) option" where
  "rePrice s =
     (let whole = takeWhile is_digit s; rest = dropWhile is_digit s in
      if whole = [] \<or> 7 < length whole then None
      else (case rest of
              [] \<Rightarrow> Some (whole, [])
            | c # dec \<Rightarrow> if c = CHR ''.'' \<and> all_digits dec \<and> (length dec = 1 \<or> length dec = 2)
                         then Some (whole, dec) else None))"

text \<open>A probability: \<open>0\<close> with up to four decimals (first group) or \<open>1\<close> with up to four zeros (second).\<close>

definition reProb :: "string \<Rightarrow> (string \<times> string) option" where
  "reProb s =
     (case s of
        [] \<Rightarrow> None
      | d # rest \<Rightarrow>
          (if d = CHR ''0'' then
             (case rest of [] \<Rightarrow> Some ([], [])
              | p # dec \<Rightarrow> if p = CHR ''.'' \<and> all_digits dec \<and> 1 \<le> length dec \<and> length dec \<le> 4
                           then Some (dec, []) else None)
           else if d = CHR ''1'' then
             (case rest of [] \<Rightarrow> Some ([], [])
              | p # dec \<Rightarrow> if p = CHR ''.'' \<and> list_all (\<lambda>c. c = CHR ''0'') dec \<and> 1 \<le> length dec \<and> length dec \<le> 4
                           then Some ([], dec) else None)
           else None))"

definition atoiDigits :: "string \<Rightarrow> int" where
  "atoiDigits s = digits_val s 0"

definition pad_right :: "nat \<Rightarrow> string \<Rightarrow> string" where
  "pad_right n s = s @ replicate (n - length s) CHR ''0''"

definition price_value :: "string \<Rightarrow> int option" where
  "price_value s = (case rePrice s of None \<Rightarrow> None
     | Some (whole, dec) \<Rightarrow> Some (atoiDigits whole * 100 + atoiDigits (pad_right 2 dec)))"

definition prob_value :: "string \<Rightarrow> int option" where
  "prob_value s = (case reProb s of None \<Rightarrow> None
     | Some (dec, zeros) \<Rightarrow>
         if zeros \<noteq> [] \<or> s = ''1'' then Some 10000 else Some (atoiDigits (pad_right 4 dec)))"

definition priceString :: "codec \<Rightarrow> string \<Rightarrow> string option" where
  "priceString cd raw =
     (let t = trim_space raw in
      if t = [] \<or> hd t \<noteq> CHR 0x22 then None else map_option trim_space (cd_string cd t))"

definition parseFen :: "codec \<Rightarrow> string \<Rightarrow> int option" where
  "parseFen cd raw = (case priceString cd raw of None \<Rightarrow> None | Some s \<Rightarrow> price_value s)"

definition parseBp :: "codec \<Rightarrow> string \<Rightarrow> int option" where
  "parseBp cd raw = (case priceString cd raw of None \<Rightarrow> None | Some s \<Rightarrow> prob_value s)"

definition fenString :: "int \<Rightarrow> string" where
  "fenString fen = itoa (fen div 100) @ ''.'' @ pad 2 (fen mod 100)"

section \<open>Dates and symbols\<close>

definition validReportDate :: "string \<Rightarrow> bool" where
  "validReportDate s \<longleftrightarrow> parse_date s \<noteq> None"

definition asOfShanghaiDate :: "string \<Rightarrow> string option" where
  "asOfShanghaiDate s = (if validReportDate s then Some s else map_option china_date (parse_rfc3339 s))"

definition parseRFC3339 :: "string \<Rightarrow> instant option" where
  "parseRFC3339 s = (if s = [] then None else parse_rfc3339 s)"

definition predictionsSymbolIsScorable :: "string \<Rightarrow> bool" where
  "predictionsSymbolIsScorable symbol =
     (if length symbol \<noteq> 6 \<or> \<not> all_digits symbol then False
      else if marketPrefix symbol = ''sh'' then \<not> has_prefix symbol ''900''
      else if marketPrefix symbol = ''sz'' then \<not> has_prefix symbol ''200''
      else False)"

section \<open>Unwrapping and the skeleton\<close>

definition unwrapStringEncodedObject :: "codec \<Rightarrow> string \<Rightarrow> string" where
  "unwrapStringEncodedObject cd raw =
     (let t = trim_space raw in
      if t = [] \<or> hd t \<noteq> CHR 0x22 then raw
      else (case cd_string cd t of
              None \<Rightarrow> raw
            | Some s \<Rightarrow>
                (let inner = trim_space s in
                 if inner = ''null'' then ''null''
                 else if inner = [] \<or> hd inner \<noteq> CHR ''{'' \<or> \<not> cd_valid cd inner then raw
                 else inner)))"

text \<open>The columns a payload supplies start empty. A zero receipt time has no date to take a month of.\<close>

definition setSkeleton :: "codec \<Rightarrow> predInput \<Rightarrow> predSetRow" where
  "setSkeleton cd inp = (let madeOn = china_date (in_MadeAt inp) in
     \<lparr>pr_Symbol = in_Symbol inp, pr_Rtype = in_Rtype inp, pr_Version = [], pr_Title = [], pr_ReportDate = [],
      pr_MadeAt = format_rfc3339 (in_MadeAt inp), pr_MadeOn = madeOn, pr_Cohort = take 7 madeOn,
      pr_Zone = predZone, pr_State = [], pr_Errors = [], pr_Payload = in_Raw inp, pr_Truncated = 0,
      pr_PayloadSHA = cd_sha256 cd (in_Raw inp), pr_BodySHA = in_BodySHA inp, pr_EmitterApp = [],
      pr_EmitterVersion = [], pr_Calculator = [], pr_SchemaName = [], pr_PolicyVersion = [],
      pr_ProbabilityMethod = [], pr_ProbabilityTransform = [], pr_ScenarioBasis = [], pr_DecisionStatus = [],
      pr_DecisionQuality = [], pr_InformationCutoff = [], pr_AttributedOU = None, pr_HorizonEnd = [],
      pr_HorizonStd = 0, pr_EmittedBaseFen = None, pr_EmittedBaseAsOf = [], pr_EmittedBaseSrc = [],
      pr_BenchCode = in_BenchCode inp\<rparr>)"

definition absentSet :: "codec \<Rightarrow> predInput \<Rightarrow> predSetRow" where
  "absentSet cd inp = (setSkeleton cd inp)\<lparr>pr_State := predStateAbsent\<rparr>"

text \<open>\<open>Nothing\<close> writes no row; \<open>Panics\<close> is the slice of an empty date.\<close>

datatype classified = Nothing | Panics | Rows predSetRow "predClaimRow list" "predError list"

definition perr :: "string \<Rightarrow> string \<Rightarrow> predError" where
  "perr reason path = \<lparr>pe_Reason = reason, pe_Path = path\<rparr>"

definition rejected :: "codec \<Rightarrow> predSetRow \<Rightarrow> string \<Rightarrow> string \<Rightarrow> classified" where
  "rejected cd base reason path =
     (let errs = [perr reason path] in
      Rows (base\<lparr>pr_State := predStateRejected, pr_Errors := cd_errors cd errs\<rparr>) [] errs)"

definition checkScenarioProvenance :: "codec \<Rightarrow> string \<Rightarrow> predError option" where
  "checkScenarioProvenance cd raw =
     (let t = trim_space raw in
      if t = [] \<or> t = ''null'' then None
      else if hd t \<noteq> CHR ''{'' then Some (perr reasonNotObject ''scenario_provenance'')
      else (case cd_provenance cd t of
              None \<Rightarrow> Some (perr reasonBadSchema ''scenario_provenance'')
            | Some adoption \<Rightarrow>
                (if adoption \<noteq> [] \<and> adoption \<notin> set predAdoptions
                 then Some (perr reasonBadEnum ''scenario_provenance.evidence.adoption'') else None)))"

section \<open>Claims\<close>

record claimLoop =
  lp_errs :: "predError list"
  lp_out :: "predClaimRow list"
  lp_seen :: "string list"
  lp_kinds :: "string list"
  lp_bp :: int
  lp_labels :: "string list"

definition claim_err :: "string \<Rightarrow> string \<Rightarrow> claimLoop \<Rightarrow> claimLoop" where
  "claim_err reason path st = st\<lparr>lp_errs := lp_errs st @ [perr reason path]\<rparr>"

text \<open>An optional field: absent, or parsed, or an error.\<close>

definition opt_field :: "(string \<Rightarrow> int option) \<Rightarrow> string \<Rightarrow> int option option" where
  "opt_field parse raw = (if raw = [] then Some None else map_option Some (parse raw))"

definition claim_values :: "codec \<Rightarrow> string \<Rightarrow> predClaimWire \<Rightarrow> predClaimRow \<Rightarrow> claimLoop \<Rightarrow> claimLoop" where
  "claim_values cd path c row st =
     (if cw_Kind c = kindStopLoss \<and> cw_Price c = [] then claim_err reasonBadPrice (path @ ''.price'') st
      else (case opt_field (parseFen cd) (cw_Price c) of
        None \<Rightarrow> claim_err reasonBadPrice (path @ ''.price'') st
      | Some fen \<Rightarrow>
          (if cw_Kind c = kindStopLoss \<and> fen = Some 0 then claim_err reasonBadPrice (path @ ''.price'') st
           else (case opt_field (parseBp cd) (cw_Probability c) of
             None \<Rightarrow> claim_err reasonBadProbability (path @ ''.probability'') st
           | Some prob \<Rightarrow>
               (let st1 = (case prob of
                      Some bp \<Rightarrow> (if cw_Kind c = kindScenario
                                  then st\<lparr>lp_bp := wrap32 (lp_bp st + bp), lp_labels := lp_labels st @ [cw_Label c]\<rparr>
                                  else st)
                    | None \<Rightarrow> st) in
                case opt_field (parseBp cd) (cw_PProfit c) of
                  None \<Rightarrow> claim_err reasonBadProbability (path @ ''.p_profit'') st1
                | Some profit \<Rightarrow>
                    (case opt_field (parseBp cd) (cw_TargetW c) of
                       None \<Rightarrow> claim_err reasonBadProbability (path @ ''.target_weight'') st1
                     | Some weight \<Rightarrow>
                         st1\<lparr>lp_out := lp_out st1 @ [row\<lparr>pc_PriceFen := fen,
                               pc_ProbBp := (case profit of None \<Rightarrow> prob | Some p \<Rightarrow> Some p),
                               pc_WeightBp := weight\<rparr>]\<rparr>))))))"

definition claim_step :: "codec \<Rightarrow> int \<Rightarrow> predClaimWire \<Rightarrow> claimLoop \<Rightarrow> claimLoop" where
  "claim_step cd i c st =
     (let path = ''claims['' @ itoa i @ '']'' in
      if cw_Key c = [] then claim_err reasonBadSchema (path @ ''.key'') st
      else if cw_Key c \<in> set (lp_seen st) then claim_err reasonDuplicateKey (path @ ''.key'') st
      else (let st1 = st\<lparr>lp_seen := lp_seen st @ [cw_Key c]\<rparr> in
        if cw_Kind c \<notin> set predClaimKinds then claim_err reasonBadEnum (path @ ''.kind'') st1
        else if cw_Kind c \<in> set (lp_kinds st1) \<and> cw_Kind c \<noteq> kindScenario
          then claim_err reasonDuplicateKey (path @ ''.kind'') st1
        else (let st2 = st1\<lparr>lp_kinds := lp_kinds st1 @ [cw_Kind c]\<rparr> in
          if cw_Stance c \<noteq> [] \<and> cw_Stance c \<notin> set predStances
            then claim_err reasonBadEnum (path @ ''.stance'') st2
          else if cw_Label c \<noteq> [] \<and> cw_Label c \<notin> set predLabels
            then claim_err reasonBadEnum (path @ ''.label'') st2
          else claim_values cd path c
            \<lparr>pc_ClaimKey = cw_Key c, pc_Kind = cw_Kind c, pc_Stance = cw_Stance c, pc_Label = cw_Label c,
             pc_PriceFen = None, pc_ProbBp = None, pc_WeightBp = None\<rparr> st2)))"

fun claim_loop :: "codec \<Rightarrow> int \<Rightarrow> predClaimWire list \<Rightarrow> claimLoop \<Rightarrow> claimLoop" where
  "claim_loop cd i [] st = st"
| "claim_loop cd i (c # cs) st = claim_loop cd (i + 1) cs (claim_step cd i c st)"

definition loop_start :: claimLoop where
  "loop_start = \<lparr>lp_errs = [], lp_out = [], lp_seen = [], lp_kinds = [], lp_bp = 0, lp_labels = []\<rparr>"

definition claim_key_less :: "predClaimRow \<Rightarrow> predClaimRow \<Rightarrow> bool" where
  "claim_key_less a b \<longleftrightarrow> pc_ClaimKey a < pc_ClaimKey b"

definition required_errs :: "claimLoop \<Rightarrow> predError list" where
  "required_errs st =
     (if kindStance \<notin> set (lp_kinds st) then [perr reasonMissingClaim ''claims''] else []) @
     (if kindTerminal \<notin> set (lp_kinds st) then [perr reasonMissingClaim ''claims''] else []) @
     map (\<lambda>_. perr reasonMissingClaim ''claims'') (filter (\<lambda>l. l \<notin> set (lp_labels st)) predLabels) @
     (if length (lp_labels st) = length predLabels \<and> lp_bp st \<noteq> 10000
      then [perr reasonProbabilitySum ''claims''] else [])"

definition parseClaims :: "codec \<Rightarrow> predClaimWire list \<Rightarrow> predClaimRow list \<times> predError list" where
  "parseClaims cd ws =
     (let st = claim_loop cd 0 ws loop_start
      in (stable_sort claim_key_less (lp_out st), lp_errs st @ required_errs st))"

definition last_price :: "string \<Rightarrow> predClaimRow list \<Rightarrow> int option" where
  "last_price kind claims =
     foldl (\<lambda>p c. if pc_Kind c = kind then pc_PriceFen c else p) None claims"

definition checkStopLevel :: "predClaimRow list \<Rightarrow> int option \<Rightarrow> predError list" where
  "checkStopLevel claims baseFen =
     (case last_price kindStopLoss claims of
        None \<Rightarrow> []
      | Some stop \<Rightarrow>
          (case baseFen of Some b \<Rightarrow> if b \<le> stop then [perr reasonStopLevel ''claims''] else [] | None \<Rightarrow> []) @
          (case last_price kindEntry claims of
             Some entry \<Rightarrow> if entry \<le> stop then [perr reasonStopLevel ''claims''] else [] | None \<Rightarrow> []))"

section \<open>The classifier\<close>

definition enum_errs :: "predPayloadWire \<Rightarrow> predError list" where
  "enum_errs w =
     (if pw_DecisionStatus w \<notin> set predDecisionStatuses then [perr reasonBadEnum ''decision_status''] else []) @
     (if pw_DecisionQuality w \<noteq> [] \<and> pw_DecisionQuality w \<notin> set predDecisionQualities
      then [perr reasonBadEnum ''decision_quality''] else []) @
     (if pw_ProbabilityMethod w \<noteq> [] \<and> pw_ProbabilityMethod w \<notin> set predProbabilityMethods
      then [perr reasonBadEnum ''probability_method''] else []) @
     (if pw_ScenarioBasis w \<noteq> [] \<and> pw_ScenarioBasis w \<notin> set predScenarioBases
      then [perr reasonBadEnum ''scenario_basis''] else []) @
     (let m = trim_space (pw_RunMode w) in
      if m \<noteq> [] \<and> m \<notin> set predRunModes then [perr reasonBadEnum ''run_mode''] else [])"

definition baseline_as_of :: "predPayloadWire \<Rightarrow> string" where
  "baseline_as_of w = (if pw_BaselineAsOf w = [] then []
     else (case asOfShanghaiDate (pw_BaselineAsOf w) of Some d \<Rightarrow> d | None \<Rightarrow> []))"

definition date_errs :: "predPayloadWire \<Rightarrow> predError list" where
  "date_errs w =
     (if \<not> validReportDate (pw_HorizonEnd w) then [perr reasonBadDate ''horizon_end''] else []) @
     (if pw_BaselineAsOf w \<noteq> [] \<and> asOfShanghaiDate (pw_BaselineAsOf w) = None
      then [perr reasonBadDate ''baseline.as_of''] else []) @
     (if pw_InformationCutoff w \<noteq> [] \<and> parseRFC3339 (pw_InformationCutoff w) = None
      then [perr reasonBadDate ''information_cutoff''] else [])"

text \<open>The horizon against the receipt's civil date: the errors, and 1 for a standard twelve months.\<close>

definition horizon_check :: "string \<Rightarrow> int \<Rightarrow> predError list \<times> int" where
  "horizon_check horizonEnd today =
     (case parse_date horizonEnd of
        None \<Rightarrow> ([], 0)
      | Some he \<Rightarrow>
          (if \<not> today < he then ([perr reasonHorizon ''horizon_end''], 0)
           else if \<bar>he - add_date today 1 0 0\<bar> \<le> predStdHorizonTol then ([], 1) else ([], 0)))"

definition payload_errs :: "codec \<Rightarrow> predInput \<Rightarrow> predPayloadWire \<Rightarrow> predError list" where
  "payload_errs cd inp w =
     enum_errs w @
     (case checkScenarioProvenance cd (pw_ScenarioProvenance w) of None \<Rightarrow> [] | Some e \<Rightarrow> [e]) @
     date_errs w @
     (case parseFen cd (pw_BaselinePrice w) of None \<Rightarrow> [perr reasonBadPrice ''baseline.price''] | Some _ \<Rightarrow> []) @
     fst (horizon_check (pw_HorizonEnd w) (china_day (in_MadeAt inp))) @
     snd (parseClaims cd (pw_Claims w)) @
     checkStopLevel (fst (parseClaims cd (pw_Claims w))) (parseFen cd (pw_BaselinePrice w)) @
     (if \<not> predictionsSymbolIsScorable (in_Symbol inp) then [perr reasonSymbolScope ''symbol''] else [])"

definition accepted_state :: "predInput \<Rightarrow> predPayloadWire \<Rightarrow> string" where
  "accepted_state inp w =
     (if trim_space (pw_RunMode w) = predStateTest then predStateTest
      else (case parseRFC3339 (pw_InformationCutoff w) of
              Some cutoff \<Rightarrow> if cutoff < in_MadeAt inp - predBacktestSlack then predStateBacktest else predStateAccepted
            | None \<Rightarrow> predStateAccepted))"

definition classify_wire :: "codec \<Rightarrow> predInput \<Rightarrow> predPayloadWire \<Rightarrow> classified" where
  "classify_wire cd inp w =
     (let base = setSkeleton cd inp; errs = payload_errs cd inp w;
          std = snd (horizon_check (pw_HorizonEnd w) (china_day (in_MadeAt inp))) in
      if errs = [] then
        Rows (base\<lparr>pr_PolicyVersion := pw_PolicyVersion w, pr_ProbabilityMethod := pw_ProbabilityMethod w,
            pr_ProbabilityTransform := pw_ProbabilityTransform w, pr_ScenarioBasis := pw_ScenarioBasis w,
            pr_DecisionStatus := pw_DecisionStatus w, pr_DecisionQuality := pw_DecisionQuality w,
            pr_InformationCutoff := pw_InformationCutoff w, pr_HorizonEnd := pw_HorizonEnd w,
            pr_HorizonStd := std, pr_EmittedBaseFen := parseFen cd (pw_BaselinePrice w),
            pr_EmittedBaseAsOf := baseline_as_of w, pr_EmittedBaseSrc := pw_BaselineSource w,
            pr_EmitterApp := pw_EmitterApp w, pr_EmitterVersion := pw_EmitterVersion w,
            pr_Calculator := pw_EmitterCalculator w, pr_SchemaName := pw_EmitterSchema w,
            pr_State := accepted_state inp w\<rparr>)
          (fst (parseClaims cd (pw_Claims w))) []
      else
        Rows (base\<lparr>pr_EmitterApp := pw_EmitterApp w, pr_EmitterVersion := pw_EmitterVersion w,
            pr_Calculator := pw_EmitterCalculator w, pr_SchemaName := pw_EmitterSchema w,
            pr_DecisionStatus := pw_DecisionStatus w, pr_DecisionQuality := pw_DecisionQuality w,
            pr_PolicyVersion := pw_PolicyVersion w, pr_ProbabilityMethod := pw_ProbabilityMethod w,
            pr_ScenarioBasis := pw_ScenarioBasis w, pr_HorizonEnd := pw_HorizonEnd w, pr_HorizonStd := std,
            pr_State := predStateRejected, pr_Errors := cd_errors cd errs\<rparr>) [] errs)"

definition classifyPredictions :: "codec \<Rightarrow> predInput \<Rightarrow> classified" where
  "classifyPredictions cd inp0 =
     (let inp = inp0\<lparr>in_Raw := unwrapStringEncodedObject cd (in_Raw inp0)\<rparr>;
          trimmed = trim_space (in_Raw inp) in
      if (trimmed = [] \<or> trimmed = ''null'') \<and> \<not> predictionCovered (in_Rtype inp) then Nothing
      else if in_MadeAt inp = zero_time then Panics
      else if trimmed = [] \<or> trimmed = ''null'' then Rows (absentSet cd inp) [] []
      else (let base = setSkeleton cd inp in
        if predPayloadMax < length (in_Raw inp) then
          Rows (base\<lparr>pr_Payload := take predPayloadMax (in_Raw inp), pr_Truncated := 1\<rparr>) []
            [perr reasonTooLarge []]
        else if hd trimmed \<noteq> CHR ''{'' then rejected cd base reasonNotObject []
        else (case cd_payload cd (in_Raw inp) of
                None \<Rightarrow> rejected cd base reasonBadSchema []
              | Some w \<Rightarrow>
                  (if pw_Schema w \<noteq> predSchemaV1 then rejected cd base reasonBadSchema ''schema''
                   else classify_wire cd inp w))))"

definition predStatusValue :: "string \<Rightarrow> predSetRow option \<Rightarrow> string" where
  "predStatusValue status row =
     (if status \<noteq> [] then status else (case row of None \<Rightarrow> ''none'' | Some r \<Rightarrow> pr_State r))"

section \<open>Exact numbers\<close>

lemma digits_val_acc: "digits_val s acc = acc * 10 ^ length s + digits_val s 0"
proof (induction s arbitrary: acc)
  case (Cons c s)
  show ?case using Cons [of "10 * acc + digit_val c"] Cons [of "digit_val c"]
    by (simp add: algebra_simps)
qed simp

lemma digit_val_bounds: "is_digit c \<Longrightarrow> 0 \<le> digit_val c \<and> digit_val c \<le> 9"
  by (auto simp: is_digit_def digit_val_def)

lemma digits_val_bounds: "all_digits s \<Longrightarrow> 0 \<le> digits_val s 0 \<and> digits_val s 0 < 10 ^ length s"
proof (induction s)
  case (Cons c s)
  have d: "0 \<le> digit_val c" "digit_val c \<le> 9" using Cons.prems digit_val_bounds by (auto simp: all_digits_def)
  have ih: "0 \<le> digits_val s 0" "digits_val s 0 < 10 ^ length s" using Cons by (auto simp: all_digits_def)
  have a: "digit_val c * 10 ^ length s \<le> 9 * 10 ^ length s" using d by (intro mult_right_mono) auto
  have b: "0 \<le> digit_val c * 10 ^ length s" using d by simp
  have e: "digits_val (c # s) 0 = digit_val c * 10 ^ length s + digits_val s 0"
    using digits_val_acc [of s "digit_val c"] by simp
  have "(10 :: int) ^ length (c # s) = 10 * 10 ^ length s" by simp
  then show ?case unfolding e using a b ih by linarith
qed simp

lemma all_digits_pad_right: "all_digits s \<Longrightarrow> all_digits (pad_right n s)"
  by (auto simp: all_digits_def pad_right_def list_all_iff is_digit_def)

lemma length_pad_right: "length s \<le> n \<Longrightarrow> length (pad_right n s) = n"
  by (simp add: pad_right_def)

lemma rePrice_parts:
  "rePrice s = Some (whole, dec) \<Longrightarrow>
   all_digits whole \<and> whole \<noteq> [] \<and> length whole \<le> 7 \<and> all_digits dec \<and> length dec \<le> 2"
  by (auto simp: rePrice_def Let_def all_digits_def list_all_iff dest: set_takeWhileD split: list.splits if_splits)

lemma price_value_bounds: "price_value s = Some n \<Longrightarrow> 0 \<le> n \<and> n \<le> 999999999"
proof -
  assume "price_value s = Some n"
  then obtain whole dec where m: "rePrice s = Some (whole, dec)"
    and n: "n = atoiDigits whole * 100 + atoiDigits (pad_right 2 dec)"
    by (auto simp: price_value_def split: option.splits)
  note parts = rePrice_parts [OF m]
  have "digits_val (pad_right 2 dec) 0 < 10 ^ 2" "0 \<le> digits_val (pad_right 2 dec) 0"
    using digits_val_bounds [OF all_digits_pad_right [of dec 2]] length_pad_right [of dec 2] parts by auto
  moreover have "digits_val whole 0 < 10 ^ length whole" "0 \<le> digits_val whole 0"
    using digits_val_bounds [of whole] parts by auto
  moreover have "(10 :: int) ^ length whole \<le> 10 ^ 7" using parts by (intro power_increasing) auto
  ultimately show ?thesis unfolding n atoiDigits_def by simp
qed

lemma reProb_parts:
  "reProb s = Some (dec, zeros) \<Longrightarrow> all_digits dec \<and> length dec \<le> 4"
  by (auto simp: reProb_def all_digits_def split: list.splits if_splits)

lemma prob_value_bounds: "prob_value s = Some n \<Longrightarrow> 0 \<le> n \<and> n \<le> 10000"
proof -
  assume "prob_value s = Some n"
  then obtain dec zeros where m: "reProb s = Some (dec, zeros)"
    and n: "n = (if zeros \<noteq> [] \<or> s = ''1'' then 10000 else atoiDigits (pad_right 4 dec))"
    by (auto simp: prob_value_def split: option.splits if_splits)
  note parts = reProb_parts [OF m]
  have "digits_val (pad_right 4 dec) 0 < 10 ^ 4" "0 \<le> digits_val (pad_right 4 dec) 0"
    using digits_val_bounds [OF all_digits_pad_right [of dec 4]] length_pad_right [of dec 4] parts by auto
  then show ?thesis unfolding n atoiDigits_def by simp
qed

lemma digits_nat: "all_digits (nat_digits n) \<and> nat_digits n \<noteq> [] \<and> digits_val (nat_digits n) 0 = int n \<and>
  (\<forall>k. 0 < k \<longrightarrow> n < 10 ^ k \<longrightarrow> length (nat_digits n) \<le> k)"
proof (induction n rule: nat_digits.induct)
  case (1 n)
  show ?case
  proof (cases "n < 10")
    case True
    then show ?thesis
      by (subst (1 2 3 4) nat_digits.simps) (auto simp: all_digits_def)
  next
    case False
    have d: "nat_digits n = nat_digits (n div 10) @ [digit_char (int (n mod 10))]"
      using False by (simp add: nat_digits.simps [of n])
    have m: "0 \<le> int (n mod 10)" "int (n mod 10) \<le> 9" by (simp, presburger)
    have len: "length (nat_digits n) \<le> k" if "0 < k" "n < 10 ^ k" for k
    proof (cases k)
      case (Suc j)
      have "n div 10 < 10 ^ j" using that(2) Suc by (simp add: less_mult_imp_div_less mult.commute)
      moreover have "0 < j" using False that(2) Suc by (cases j) auto
      ultimately show ?thesis using 1 [OF False] Suc by (simp add: d)
    qed (use that in simp)
    have "digits_val (nat_digits n) 0 = 10 * digits_val (nat_digits (n div 10)) 0 + int (n mod 10)"
      unfolding d digits_val_append digits_val.simps digit_val_digit_char [OF m] ..
    also have "\<dots> = 10 * int (n div 10) + int (n mod 10)" using 1 [OF False] by simp
    also have "\<dots> = int (10 * (n div 10) + n mod 10)" by (simp only: of_nat_add of_nat_mult of_nat_numeral)
    also have "\<dots> = int n" by (simp only: mult_div_mod_eq)
    finally have v: "digits_val (nat_digits n) 0 = int n" .
    have "all_digits (nat_digits n)" using 1 [OF False] m by (auto simp: d all_digits_def)
    then show ?thesis using v len d by simp
  qed
qed

text \<open>
  Property C39. A price survives the ledger's spelling of it: printing any amount of fen below
  10,000,000 yuan and reading it back with the ingest parser gives the same integer, and the parser
  accepts no price outside that range.
\<close>

theorem price_roundtrip:
  "(0 \<le> n \<and> n \<le> 999999999 \<longrightarrow> price_value (fenString n) = Some n) \<and>
   (price_value s = Some m \<longrightarrow> 0 \<le> m \<and> m \<le> 999999999)"
proof -
  have "price_value (fenString n) = Some n" if n: "0 \<le> n" "n \<le> 999999999"
  proof -
    define q where "q = nat (n div 100)"
    have q: "int q = n div 100" "q < 10 ^ 7" using n by (simp_all add: q_def)
    have it: "itoa (n div 100) = nat_digits q" using n by (simp add: itoa_def q_def)
    note dn = digits_nat [of q]
    have dots: "\<not> is_digit CHR ''.''" by (simp add: is_digit_def)
    have tw: "takeWhile is_digit (nat_digits q @ ''.'' @ pad 2 (n mod 100)) = nat_digits q"
      "dropWhile is_digit (nat_digits q @ ''.'' @ pad 2 (n mod 100)) = CHR ''.'' # pad 2 (n mod 100)"
      using dn dots by (auto simp: takeWhile_append dropWhile_append all_digits_def list_all_iff)
    have "length (nat_digits q) \<le> 7" using dn q(2) by simp
    then have "rePrice (fenString n) = Some (nat_digits q, pad 2 (n mod 100))"
      using dn unfolding rePrice_def fenString_def it tw Let_def
      by (simp del: pad.simps)
    moreover have "digits_val (pad 2 (n mod 100)) 0 = n mod 100"
      by (rule digits_val_pad) simp_all
    ultimately show ?thesis
      using dn q(1) by (simp add: price_value_def atoiDigits_def pad_right_def del: pad.simps)
  qed
  then show ?thesis using price_value_bounds by blast
qed

lemma price_roundtrip_witness: "price_value (fenString 86500) = Some 86500 \<and> fenString 86500 = ''865.00''"
proof -
  have "price_value (fenString 86500) = Some 86500" using price_roundtrip [of 86500 "[]" 0] by simp
  moreover have "fenString 86500 = ''865.00''" by code_simp
  ultimately show ?thesis ..
qed


section \<open>The claim loop\<close>

definition claim_row_ok :: "predClaimRow \<Rightarrow> bool" where
  "claim_row_ok r \<longleftrightarrow>
     pc_ClaimKey r \<noteq> [] \<and> pc_Kind r \<in> set predClaimKinds \<and>
     (pc_Stance r = [] \<or> pc_Stance r \<in> set predStances) \<and>
     (pc_Label r = [] \<or> pc_Label r \<in> set predLabels) \<and>
     pred_option (\<lambda>p. 0 \<le> p \<and> p \<le> 999999999) (pc_PriceFen r) \<and>
     pred_option (\<lambda>p. 0 \<le> p \<and> p \<le> 10000) (pc_ProbBp r) \<and>
     pred_option (\<lambda>p. 0 \<le> p \<and> p \<le> 10000) (pc_WeightBp r) \<and>
     (pc_Kind r \<noteq> kindStopLoss \<or> (pc_PriceFen r \<noteq> None \<and> pc_PriceFen r \<noteq> Some 0))"

lemma claim_err_simps [simp]:
  "lp_errs (claim_err reason path st) \<noteq> []"
  by (simp add: claim_err_def)

lemma parseFen_bounds: "parseFen cd raw = Some n \<Longrightarrow> 0 \<le> n \<and> n \<le> 999999999"
  by (auto simp: parseFen_def price_value_bounds split: option.splits)

lemma parseBp_bounds: "parseBp cd raw = Some n \<Longrightarrow> 0 \<le> n \<and> n \<le> 10000"
  by (auto simp: parseBp_def prob_value_bounds split: option.splits)

lemma opt_field_bounds:
  "opt_field (parseFen cd) raw = Some v \<Longrightarrow> pred_option (\<lambda>p. 0 \<le> p \<and> p \<le> 999999999) v"
  "opt_field (parseBp cd) raw = Some v \<Longrightarrow> pred_option (\<lambda>p. 0 \<le> p \<and> p \<le> 10000) v"
  by (auto simp: opt_field_def pred_option_def parseFen_bounds parseBp_bounds split: if_splits)

lemma opt_field_some: "opt_field parse raw = Some v \<Longrightarrow> (v = None) = (raw = [])"
  by (auto simp: opt_field_def split: if_splits)

definition scored :: "predClaimRow \<Rightarrow> bool" where
  "scored r \<longleftrightarrow> pc_Kind r = kindScenario \<and> pc_ProbBp r \<noteq> None"

text \<open>What one accepted claim does to the loop's tally of scenario probabilities.\<close>

definition tally_step :: "predClaimWire \<Rightarrow> predClaimRow \<Rightarrow> claimLoop \<Rightarrow> claimLoop \<Rightarrow> bool" where
  "tally_step c row st st' \<longleftrightarrow>
     (if lp_labels st' = lp_labels st
      then lp_bp st' = lp_bp st \<and> (scored row \<longrightarrow> cw_PProfit c \<noteq> [])
      else lp_labels st' = lp_labels st @ [pc_Label row] \<and> scored row \<and>
           (\<exists>bp. lp_bp st' = wrap32 (lp_bp st + bp) \<and> (cw_PProfit c = [] \<longrightarrow> pc_ProbBp row = Some bp)))"

lemma claim_values_ok:
  assumes "lp_errs (claim_values cd path c row st) = []"
    and "pc_Kind row = cw_Kind c" "pc_Label row = cw_Label c"
    and "claim_row_ok (row\<lparr>pc_PriceFen := Some 1, pc_ProbBp := None, pc_WeightBp := None\<rparr>)"
  obtains r where "lp_errs st = []" "lp_out (claim_values cd path c row st) = lp_out st @ [r]"
    "claim_row_ok r" "pc_ClaimKey r = pc_ClaimKey row" "pc_Kind r = pc_Kind row"
    "lp_seen (claim_values cd path c row st) = lp_seen st"
    "lp_kinds (claim_values cd path c row st) = lp_kinds st"
    "tally_step c r st (claim_values cd path c row st)"
proof -
  obtain fen prob profit weight where
    f: "opt_field (parseFen cd) (cw_Price c) = Some fen"
    and b: "opt_field (parseBp cd) (cw_Probability c) = Some prob"
    and p: "opt_field (parseBp cd) (cw_PProfit c) = Some profit"
    and w: "opt_field (parseBp cd) (cw_TargetW c) = Some weight"
    and stop: "cw_Kind c \<noteq> kindStopLoss \<or> (cw_Price c \<noteq> [] \<and> fen \<noteq> Some 0)"
    using assms(1) by (auto simp: claim_values_def Let_def split: if_splits option.splits)
  let ?r = "row\<lparr>pc_PriceFen := fen, pc_ProbBp := (case profit of None \<Rightarrow> prob | Some p \<Rightarrow> Some p),
    pc_WeightBp := weight\<rparr>"
  let ?st1 = "(case prob of Some bp \<Rightarrow> (if cw_Kind c = kindScenario
      then st\<lparr>lp_bp := wrap32 (lp_bp st + bp), lp_labels := lp_labels st @ [cw_Label c]\<rparr> else st) | None \<Rightarrow> st)"
  have eq: "claim_values cd path c row st = ?st1\<lparr>lp_out := lp_out ?st1 @ [?r]\<rparr>"
    using stop by (auto simp: claim_values_def Let_def f b p w)
  have ok: "claim_row_ok ?r"
    using assms(2,4) stop opt_field_some [OF f] opt_field_bounds(1) [OF f] opt_field_bounds(2) [OF b]
      opt_field_bounds(2) [OF p] opt_field_bounds(2) [OF w]
    by (auto simp: claim_row_ok_def split: option.splits)
  have tally: "tally_step c ?r st (claim_values cd path c row st)"
    using assms(2,3) opt_field_some [OF p] unfolding eq
    by (auto simp: tally_step_def scored_def split: option.splits)
  show thesis
    by (rule that [of ?r])
      (use assms(1) ok tally in \<open>auto simp: eq split: option.splits if_splits\<close>)
qed

lemma claim_step_ok:
  assumes "lp_errs (claim_step cd i c st) = []"
  obtains r where "lp_errs st = []" "lp_out (claim_step cd i c st) = lp_out st @ [r]"
    "claim_row_ok r" "pc_ClaimKey r = cw_Key c" "pc_Kind r = cw_Kind c"
    "lp_seen (claim_step cd i c st) = lp_seen st @ [cw_Key c]" "cw_Key c \<notin> set (lp_seen st)"
    "lp_kinds (claim_step cd i c st) = lp_kinds st @ [cw_Kind c]"
    "cw_Kind c \<in> set (lp_kinds st) \<Longrightarrow> cw_Kind c = kindScenario"
    "tally_step c r st (claim_step cd i c st)"
proof -
  let ?path = "''claims['' @ itoa i @ '']''"
  let ?row = "\<lparr>pc_ClaimKey = cw_Key c, pc_Kind = cw_Kind c, pc_Stance = cw_Stance c, pc_Label = cw_Label c,
     pc_PriceFen = None, pc_ProbBp = None, pc_WeightBp = None\<rparr>"
  let ?st2 = "st\<lparr>lp_seen := lp_seen st @ [cw_Key c], lp_kinds := lp_kinds st @ [cw_Kind c]\<rparr>"
  have g: "cw_Key c \<noteq> []" "cw_Key c \<notin> set (lp_seen st)" "cw_Kind c \<in> set predClaimKinds"
    "cw_Kind c \<in> set (lp_kinds st) \<Longrightarrow> cw_Kind c = kindScenario"
    "cw_Stance c = [] \<or> cw_Stance c \<in> set predStances" "cw_Label c = [] \<or> cw_Label c \<in> set predLabels"
    and eq: "claim_step cd i c st = claim_values cd ?path c ?row ?st2"
    using assms by (auto simp: claim_step_def Let_def split: if_splits)
  have ok: "claim_row_ok (?row\<lparr>pc_PriceFen := Some 1, pc_ProbBp := None, pc_WeightBp := None\<rparr>)"
    using g by (simp add: claim_row_ok_def)
  obtain r where "lp_errs ?st2 = []" "lp_out (claim_values cd ?path c ?row ?st2) = lp_out ?st2 @ [r]"
    "claim_row_ok r" "pc_ClaimKey r = pc_ClaimKey ?row" "pc_Kind r = pc_Kind ?row"
    "lp_seen (claim_values cd ?path c ?row ?st2) = lp_seen ?st2"
    "lp_kinds (claim_values cd ?path c ?row ?st2) = lp_kinds ?st2"
    "tally_step c r ?st2 (claim_values cd ?path c ?row ?st2)"
    by (rule claim_values_ok [OF assms [unfolded eq] _ _ ok]) simp_all
  then show thesis using g unfolding eq [symmetric] by (intro that [of r]) (simp_all add: tally_step_def cong: if_cong)
qed

text \<open>
  The invariant of a loop that has reported nothing: the seen keys and kinds are those of the rows
  kept, no kind but \<open>scenario\<close> repeats, and every label counted belongs to a scored row.
\<close>

definition loop_inv :: "claimLoop \<Rightarrow> bool" where
  "loop_inv st \<longleftrightarrow>
     lp_seen st = map pc_ClaimKey (lp_out st) \<and> lp_kinds st = map pc_Kind (lp_out st) \<and>
     distinct (lp_seen st) \<and> distinct (filter (\<lambda>k. k \<noteq> kindScenario) (lp_kinds st)) \<and>
     list_all claim_row_ok (lp_out st) \<and> set (lp_labels st) \<subseteq> pc_Label ` (set (filter scored (lp_out st)))"

definition bp_of :: "predClaimRow \<Rightarrow> int" where
  "bp_of r = (case pc_ProbBp r of None \<Rightarrow> 0 | Some b \<Rightarrow> b)"

definition tally_inv :: "claimLoop \<Rightarrow> bool" where
  "tally_inv st \<longleftrightarrow> lp_labels st = map pc_Label (filter scored (lp_out st)) \<and>
     lp_bp st = wrap32 (sum_list (map bp_of (filter scored (lp_out st))))"

definition plain_scenarios :: "predClaimWire list \<Rightarrow> bool" where
  "plain_scenarios ws = list_all (\<lambda>c. cw_Kind c \<noteq> kindScenario \<or> cw_PProfit c = []) ws"

lemma loop_start_inv: "loop_inv loop_start" "tally_inv loop_start"
  by (simp_all add: loop_inv_def tally_inv_def loop_start_def)

lemma claim_step_inv:
  "lp_errs (claim_step cd i c st) = [] \<Longrightarrow> loop_inv st \<Longrightarrow> loop_inv (claim_step cd i c st)"
  by (erule claim_step_ok) (auto simp: loop_inv_def tally_step_def split: if_splits)

lemma wrap32_add: "wrap32 (wrap32 a + b) = wrap32 (a + b)"
  by (simp add: wrap32_def mod_simps algebra_simps)

lemma claim_step_tally:
  assumes "lp_errs (claim_step cd i c st) = []" "tally_inv st" "cw_Kind c \<noteq> kindScenario \<or> cw_PProfit c = []"
  shows "tally_inv (claim_step cd i c st)"
proof -
  obtain r where r: "lp_out (claim_step cd i c st) = lp_out st @ [r]" "pc_Kind r = cw_Kind c"
    "tally_step c r st (claim_step cd i c st)"
    by (rule claim_step_ok [OF assms(1)])
  show ?thesis
  proof (cases "scored r")
    case True
    then have "cw_PProfit c = []" using assms(3) r(2) by (auto simp: scored_def)
    then show ?thesis using r True assms(2)
      by (auto simp: tally_inv_def tally_step_def bp_of_def wrap32_add split: if_splits)
  next
    case False
    then show ?thesis using r assms(2) by (auto simp: tally_inv_def tally_step_def split: if_splits)
  qed
qed

lemma claim_step_errs: "lp_errs (claim_step cd i c st) = [] \<Longrightarrow> lp_errs st = []"
  by (erule claim_step_ok)

lemma claim_loop_errs: "lp_errs (claim_loop cd i cs st) = [] \<Longrightarrow> lp_errs st = []"
  by (induction cs arbitrary: i st) (auto dest: claim_step_errs)

lemma claim_loop_inv:
  "lp_errs (claim_loop cd i cs st) = [] \<Longrightarrow> loop_inv st \<Longrightarrow> loop_inv (claim_loop cd i cs st)"
  by (induction cs arbitrary: i st) (auto dest: claim_loop_errs intro: claim_step_inv)

lemma claim_loop_tally:
  "lp_errs (claim_loop cd i cs st) = [] \<Longrightarrow> tally_inv st \<Longrightarrow> plain_scenarios cs \<Longrightarrow>
   tally_inv (claim_loop cd i cs st)"
  by (induction cs arbitrary: i st) (auto simp: plain_scenarios_def dest: claim_loop_errs intro: claim_step_tally)

lemma claim_loop_length:
  "lp_errs (claim_loop cd i cs st) = [] \<Longrightarrow> length (lp_out (claim_loop cd i cs st)) = length (lp_out st) + length cs"
proof (induction cs arbitrary: i st)
  case (Cons c cs)
  then have "lp_errs (claim_step cd i c st) = []" by (auto dest: claim_loop_errs)
  then obtain r where "lp_out (claim_step cd i c st) = lp_out st @ [r]" by (rule claim_step_ok)
  then show ?case using Cons by simp
qed simp

interpretation claim_order: go_less claim_key_less
  by unfold_locales (auto simp: claim_key_less_def)

lemma sorted_by_key: "sorted_wrt (\<lambda>x y. \<not> claim_key_less y x) cs \<Longrightarrow> sorted (map pc_ClaimKey cs)"
  by (simp add: sorted_map claim_key_less_def not_less)

definition one_of :: "string \<Rightarrow> predClaimRow list \<Rightarrow> bool" where
  "one_of kind cs = (length (filter (\<lambda>r. pc_Kind r = kind) cs) = 1)"

definition at_most_one :: "string \<Rightarrow> predClaimRow list \<Rightarrow> bool" where
  "at_most_one kind cs = (length (filter (\<lambda>r. pc_Kind r = kind) cs) \<le> 1)"

lemma length_filter_mset: "mset xs = mset ys \<Longrightarrow> length (filter P xs) = length (filter P ys)"
  by (metis mset_filter size_mset)

lemma distinct_kinds_at_most_one:
  "distinct (filter (\<lambda>k. k \<noteq> s) (map pc_Kind cs)) \<Longrightarrow> kind \<noteq> s \<Longrightarrow>
   length (filter (\<lambda>r. pc_Kind r = kind) cs) \<le> 1"
proof (induction cs)
  case (Cons c cs)
  show ?case
  proof (cases "pc_Kind c = kind")
    case True
    then have "kind \<notin> pc_Kind ` set cs" using Cons.prems by auto
    then have "filter (\<lambda>r. pc_Kind r = kind) cs = []" by (auto simp: filter_empty_conv)
    then show ?thesis using True by simp
  next
    case False
    then show ?thesis using Cons by (simp split: if_splits)
  qed
qed simp

text \<open>What \<open>parseClaims\<close> promises of the rows it returns without an error.\<close>

definition claims_sound :: "predClaimRow list \<Rightarrow> bool" where
  "claims_sound cs \<longleftrightarrow>
     list_all claim_row_ok cs \<and> distinct (map pc_ClaimKey cs) \<and> sorted (map pc_ClaimKey cs) \<and>
     one_of kindStance cs \<and> one_of kindTerminal cs \<and> at_most_one kindEntry cs \<and> at_most_one kindStopLoss cs \<and>
     list_all (\<lambda>l. l \<in> pc_Label ` set (filter scored cs)) predLabels"

lemma required_errs_empty:
  "required_errs st = [] \<Longrightarrow>
   kindStance \<in> set (lp_kinds st) \<and> kindTerminal \<in> set (lp_kinds st) \<and> set predLabels \<subseteq> set (lp_labels st) \<and>
   (length (lp_labels st) \<noteq> 3 \<or> lp_bp st = 10000)"
  by (auto simp: required_errs_def filter_empty_conv predLabels_def split: if_splits)

lemma one_of_intro:
  "length (filter (\<lambda>r. pc_Kind r = kind) cs) \<le> 1 \<Longrightarrow> kind \<in> pc_Kind ` set cs \<Longrightarrow> one_of kind cs"
proof -
  assume a: "length (filter (\<lambda>r. pc_Kind r = kind) cs) \<le> 1" "kind \<in> pc_Kind ` set cs"
  then have "filter (\<lambda>r. pc_Kind r = kind) cs \<noteq> []" by (auto simp: filter_empty_conv)
  then have "length (filter (\<lambda>r. pc_Kind r = kind) cs) \<noteq> 0" by simp
  then show ?thesis using a(1) unfolding one_of_def by linarith
qed

lemma parseClaims_state:
  assumes "parseClaims cd ws = (cs, [])"
  obtains st where "st = claim_loop cd 0 ws loop_start" "cs = stable_sort claim_key_less (lp_out st)"
    "lp_errs st = []" "required_errs st = []" "loop_inv st"
  using assms claim_loop_inv [OF _ loop_start_inv(1)] by (auto simp: parseClaims_def Let_def)

lemma parseClaims_sound:
  assumes "parseClaims cd ws = (cs, [])"
  shows "claims_sound cs"
proof -
  obtain st where st: "cs = stable_sort claim_key_less (lp_out st)" "required_errs st = []" "loop_inv st"
    by (rule parseClaims_state [OF assms])
  have ms: "mset cs = mset (lp_out st)" and set: "set cs = set (lp_out st)" by (simp_all add: st(1))
  note req = required_errs_empty [OF st(2)]
  note inv = st(3) [unfolded loop_inv_def]
  have kinds: "length (filter (\<lambda>r. pc_Kind r = k) cs) \<le> 1" if "k \<noteq> kindScenario" for k
    unfolding length_filter_mset [OF ms] using inv that by (intro distinct_kinds_at_most_one [where s = kindScenario]) auto
  have ne: "kindStance \<noteq> kindScenario" "kindTerminal \<noteq> kindScenario" "kindEntry \<noteq> kindScenario"
    "kindStopLoss \<noteq> kindScenario" by (simp_all add: go_const)
  have "distinct (map pc_ClaimKey cs)"
    using inv mset_eq_imp_distinct_iff [of "map pc_ClaimKey cs" "map pc_ClaimKey (lp_out st)"] ms by auto
  moreover have "sorted (map pc_ClaimKey cs)"
    unfolding st(1) by (rule sorted_by_key [OF claim_order.sorted_stable_sort])
  moreover have "one_of kindStance cs" "one_of kindTerminal cs"
    using req inv set kinds ne by (auto intro!: one_of_intro)
  moreover have "at_most_one kindEntry cs" "at_most_one kindStopLoss cs"
    using kinds ne by (simp_all add: at_most_one_def)
  moreover have "list_all (\<lambda>l. l \<in> pc_Label ` set (filter scored cs)) predLabels"
    using req inv set by (auto simp: list_all_iff)
  ultimately show ?thesis using inv set by (simp add: claims_sound_def list_all_iff)
qed

lemma last_price_unique:
  assumes "at_most_one kind cs" "r \<in> set cs" "pc_Kind r = kind"
  shows "last_price kind cs = pc_PriceFen r"
proof -
  have f: "foldl (\<lambda>p c. if pc_Kind c = kind then pc_PriceFen c else p) a cs =
    foldl (\<lambda>p c. pc_PriceFen c) a (filter (\<lambda>r. pc_Kind r = kind) cs)" for a
    by (induction cs arbitrary: a) auto
  have "r \<in> set (filter (\<lambda>r. pc_Kind r = kind) cs)" using assms by simp
  then have "filter (\<lambda>r. pc_Kind r = kind) cs = [r]"
    using assms(1) unfolding at_most_one_def by (cases "filter (\<lambda>r. pc_Kind r = kind) cs") auto
  then show ?thesis by (simp add: last_price_def f)
qed

text \<open>The one stop of a sound claim list is below the base price and below the one entry price.\<close>

definition stop_sound :: "predClaimRow list \<Rightarrow> int option \<Rightarrow> bool" where
  "stop_sound cs base \<longleftrightarrow>
     list_all (\<lambda>s. pc_Kind s \<noteq> kindStopLoss \<or>
       (pred_option (\<lambda>b. the (pc_PriceFen s) < b) base \<and>
        list_all (\<lambda>e. pc_Kind e \<noteq> kindEntry \<or> pred_option (\<lambda>p. the (pc_PriceFen s) < p) (pc_PriceFen e)) cs)) cs"

lemma checkStopLevel_sound:
  assumes "checkStopLevel cs base = []" "claims_sound cs"
  shows "stop_sound cs base"
proof -
  have uniq: "at_most_one kindStopLoss cs" "at_most_one kindEntry cs" and ok: "list_all claim_row_ok cs"
    using assms(2) by (simp_all add: claims_sound_def)
  have "pred_option (\<lambda>b. the (pc_PriceFen s) < b) base \<and>
      pred_option (\<lambda>p. the (pc_PriceFen s) < p) (last_price kindEntry cs)"
    if s: "s \<in> set cs" "pc_Kind s = kindStopLoss" for s
  proof -
    obtain p where p: "pc_PriceFen s = Some p" using ok s by (auto simp: list_all_iff claim_row_ok_def)
    have "last_price kindStopLoss cs = Some p" using last_price_unique [OF uniq(1) s] p by simp
    then show ?thesis using assms(1) p by (auto simp: checkStopLevel_def split: option.splits if_splits)
  qed
  then show ?thesis using last_price_unique [OF uniq(2)]
    unfolding stop_sound_def list_all_iff by (metis (no_types, lifting))
qed

section \<open>What the classifier promises\<close>

lemma classify_wire_accepts:
  assumes "classify_wire cd inp w = Rows row cs []"
  shows "payload_errs cd inp w = []" "cs = fst (parseClaims cd (pw_Claims w))"
    "pr_EmittedBaseFen row = parseFen cd (pw_BaselinePrice w)" "pr_HorizonEnd row = pw_HorizonEnd w"
    "pr_Symbol row = in_Symbol inp" "pr_State row = accepted_state inp w"
  using assms by (auto simp: classify_wire_def Let_def setSkeleton_def split: if_splits)

lemma accepted_state_values: "accepted_state inp w \<in> {predStateAccepted, predStateBacktest, predStateTest}"
  by (auto simp: accepted_state_def split: option.splits)

lemma payload_errs_empty:
  assumes "payload_errs cd inp w = []"
  shows "parseFen cd (pw_BaselinePrice w) \<noteq> None" "snd (parseClaims cd (pw_Claims w)) = []"
    "checkStopLevel (fst (parseClaims cd (pw_Claims w))) (parseFen cd (pw_BaselinePrice w)) = []"
    "predictionsSymbolIsScorable (in_Symbol inp)"
    "\<exists>he. parse_date (pw_HorizonEnd w) = Some he \<and> china_day (in_MadeAt inp) < he"
  using assms
  by (auto simp: payload_errs_def date_errs_def horizon_check_def validReportDate_def split: option.splits if_splits)

text \<open>The row-producing branches of \<open>classifyPredictions\<close>, each with its condition.\<close>

lemma classify_cases:
  assumes "classifyPredictions cd inp0 = Rows row cs errs"
  obtains (absent) inp where "row = absentSet cd inp" "cs = []" "errs = []"
    "trim_space (unwrapStringEncodedObject cd (in_Raw inp0)) \<in> {[], ''null''}"
  | (oversized) "pr_State row = []" "cs = []" "errs \<noteq> []" "pr_Truncated row = 1"
    "predPayloadMax < length (unwrapStringEncodedObject cd (in_Raw inp0))"
    "trim_space (unwrapStringEncodedObject cd (in_Raw inp0)) \<notin> {[], ''null''}"
  | (refused) "pr_State row = predStateRejected" "cs = []" "errs \<noteq> []"
    "length (unwrapStringEncodedObject cd (in_Raw inp0)) \<le> predPayloadMax"
    "trim_space (unwrapStringEncodedObject cd (in_Raw inp0)) \<notin> {[], ''null''}"
  | (wire) inp w where "classify_wire cd inp w = Rows row cs errs"
    "inp = inp0\<lparr>in_Raw := unwrapStringEncodedObject cd (in_Raw inp0)\<rparr>" "cd_payload cd (in_Raw inp) = Some w"
    "length (in_Raw inp) \<le> predPayloadMax"
    "trim_space (unwrapStringEncodedObject cd (in_Raw inp0)) \<notin> {[], ''null''}"
  using assms
  by (auto simp: classifyPredictions_def Let_def rejected_def setSkeleton_def not_less split: if_splits option.splits)

text \<open>
  Property C1. An accepted payload is scorable: when the classifier answers without an error and the
  set is not \<open>absent\<close>, its state is accepted, backtest or test; its claims have distinct keys, stored
  in key order, every value in range, exactly one stance and one terminal value, at most one entry
  and one stop, and a scenario with a probability for each of the three labels; the stop lies below
  the base price and below the entry price; the base price is present, the horizon ends after the
  receipt day, and the symbol is one a vendor prices daily.
\<close>

theorem accepted_payload_sound:
  assumes "classifyPredictions cd inp = Rows row cs []" "pr_State row \<noteq> predStateAbsent"
  shows "pr_State row \<in> {predStateAccepted, predStateBacktest, predStateTest} \<and>
    claims_sound cs \<and> stop_sound cs (pr_EmittedBaseFen row) \<and> pr_EmittedBaseFen row \<noteq> None \<and>
    predictionsSymbolIsScorable (pr_Symbol row) \<and>
    (\<exists>he. parse_date (pr_HorizonEnd row) = Some he \<and> china_day (in_MadeAt inp) < he)"
  using assms(1)
proof (cases rule: classify_cases)
  case (absent i)
  then show ?thesis using assms(2) by (simp add: absentSet_def)
next
  case (wire i w)
  note acc = classify_wire_accepts [OF wire(1)]
  note ok = payload_errs_empty [OF acc(1)]
  have pc: "parseClaims cd (pw_Claims w) = (cs, [])" using acc(2) ok(2) by (simp add: prod_eq_iff)
  have "claims_sound cs" by (rule parseClaims_sound [OF pc])
  moreover from this have "stop_sound cs (pr_EmittedBaseFen row)"
    using ok(3) pc acc(3) by (intro checkStopLevel_sound) simp_all
  ultimately show ?thesis using acc ok accepted_state_values [of i w] wire(2) by simp
qed simp_all

text \<open>
  What the state of a written row says: it is \<open>absent\<close> only for an empty payload and then
  without an error, \<open>rejected\<close> exactly when a payload within the size limit has errors, one of
  accepted, backtest and test when it has none, and the empty string, no state of the vocabulary,
  exactly for a payload above the size limit. Only a row in one of the three scored states carries claims.
\<close>

theorem written_row_state:
  assumes "classifyPredictions cd inp = Rows row cs errs"
  shows "(pr_State row = predStateAbsent) = (trim_space (unwrapStringEncodedObject cd (in_Raw inp)) \<in> {[], ''null''}) \<and>
    (pr_State row = []) = (predPayloadMax < length (unwrapStringEncodedObject cd (in_Raw inp)) \<and>
      pr_State row \<noteq> predStateAbsent) \<and>
    (pr_State row = predStateRejected) = (errs \<noteq> [] \<and>
      length (unwrapStringEncodedObject cd (in_Raw inp)) \<le> predPayloadMax) \<and>
    (pr_State row \<in> {predStateAccepted, predStateBacktest, predStateTest} \<or> cs = [])"
  using assms
proof (cases rule: classify_cases)
  case (wire i w)
  show ?thesis
  proof (cases "errs = []")
    case True
    have "pr_State row \<in> {predStateAccepted, predStateBacktest, predStateTest}"
      using classify_wire_accepts(6) wire(1) True accepted_state_values by metis
    then show ?thesis using wire(2,4,5) True by (auto simp: go_const)
  next
    case False
    then have "pr_State row = predStateRejected" "cs = []"
      using wire(1) by (auto simp: classify_wire_def Let_def split: if_splits)
    then show ?thesis using wire(2,4,5) False by (auto simp: go_const)
  qed
qed (auto simp: absentSet_def go_const)

section \<open>A payload\<close>

definition quoted :: "string \<Rightarrow> string" where
  "quoted s = CHR 0x22 # s @ [CHR 0x22]"

definition demo_claim :: "string \<Rightarrow> string \<Rightarrow> string \<Rightarrow> string \<Rightarrow> string \<Rightarrow> string \<Rightarrow> predClaimWire" where
  "demo_claim key kind stance label price prob =
     \<lparr>cw_Key = key, cw_Kind = kind, cw_Stance = stance, cw_Label = label,
      cw_Price = (if price = [] then [] else quoted price), cw_PProfit = [],
      cw_Probability = (if prob = [] then [] else quoted prob), cw_TargetW = []\<rparr>"

definition demo_claims :: "predClaimWire list" where
  "demo_claims = [demo_claim ''stance'' ''stance'' ''long'' [] [] [], demo_claim ''tv'' ''terminal_value'' [] [] ''10.50'' [],
     demo_claim ''s1'' ''scenario'' [] ''bull'' ''12'' ''0.25'', demo_claim ''s2'' ''scenario'' [] ''base'' ''10.5'' ''0.5'',
     demo_claim ''s3'' ''scenario'' [] ''bear'' ''8'' ''0.2500'', demo_claim ''e'' ''entry_price'' [] [] ''10'' [],
     demo_claim ''sl'' ''stop_loss'' [] [] ''9.00'' []]"

definition demo_wire :: "predClaimWire list \<Rightarrow> predPayloadWire" where
  "demo_wire claims =
     \<lparr>pw_Schema = ''predictions.v1'', pw_EmitterApp = [], pw_EmitterVersion = [], pw_EmitterCalculator = [],
      pw_EmitterSchema = [], pw_PolicyVersion = [], pw_ProbabilityMethod = [], pw_ProbabilityTransform = [],
      pw_ScenarioBasis = [], pw_ScenarioProvenance = [], pw_DecisionStatus = ''eligible'', pw_DecisionQuality = [],
      pw_InformationCutoff = [], pw_BaselinePrice = quoted ''10.20'', pw_BaselineAsOf = ''2026-01-05'',
      pw_BaselineSource = [], pw_HorizonEnd = ''2027-01-08'', pw_Claims = claims, pw_RunMode = []\<rparr>"

text \<open>A decoder that answers one fixed payload, whatever the bytes.\<close>

definition demo_codec :: "predClaimWire list \<Rightarrow> codec" where
  "demo_codec claims =
     \<lparr>cd_string = (\<lambda>t. Some (butlast (tl t))), cd_valid = (\<lambda>_. True), cd_payload = (\<lambda>_. Some (demo_wire claims)),
      cd_provenance = (\<lambda>_. Some []), cd_errors = (\<lambda>_. ''errors''), cd_sha256 = (\<lambda>b. b)\<rparr>"

definition demo_input :: predInput where
  "demo_input = \<lparr>in_Raw = ''{}'', in_Rtype = predictionRtype, in_Symbol = ''600519'',
     in_MadeAt = china_at 20458 (10 * 60), in_BodySHA = [], in_BenchCode = ''sh000852''\<rparr>"

definition rows_where :: "(predSetRow \<Rightarrow> predClaimRow list \<Rightarrow> predError list \<Rightarrow> bool) \<Rightarrow> classified \<Rightarrow> bool" where
  "rows_where P c = (case c of Rows r cs es \<Rightarrow> P r cs es | _ \<Rightarrow> False)"

lemma rows_whereE: "rows_where P c \<Longrightarrow> (\<And>r cs es. c = Rows r cs es \<Longrightarrow> P r cs es \<Longrightarrow> thesis) \<Longrightarrow> thesis"
  by (auto simp: rows_where_def split: classified.splits)

lemma demo_parse: "snd (parseClaims (demo_codec demo_claims) demo_claims) = [] \<and>
  map pc_ClaimKey (fst (parseClaims (demo_codec demo_claims) demo_claims)) = [''e'', ''s1'', ''s2'', ''s3'', ''sl'', ''stance'', ''tv'']"
  by code_simp

lemma demo_no_errors: "payload_errs (demo_codec demo_claims) demo_input (demo_wire demo_claims) = []"
  by code_simp

lemma demo_values:
  "accepted_state demo_input (demo_wire demo_claims) = predStateAccepted"
  "parseFen (demo_codec demo_claims) (pw_BaselinePrice (demo_wire demo_claims)) = Some 1020"
  "unwrapStringEncodedObject (demo_codec demo_claims) (in_Raw demo_input) = ''{}''"
  "trim_space ''{}'' = ''{}''" "in_MadeAt demo_input \<noteq> zero_time"
  by code_simp+

lemma demo_classified:
  "classifyPredictions (demo_codec demo_claims) demo_input =
   classify_wire (demo_codec demo_claims) (demo_input\<lparr>in_Raw := ''{}''\<rparr>) (demo_wire demo_claims)"
  using demo_values by (simp add: classifyPredictions_def Let_def predPayloadMax_def demo_codec_def demo_wire_def
      predSchemaV1_def)

lemma demo_accepted:
  "rows_where (\<lambda>r cs es. es = [] \<and> pr_State r = predStateAccepted \<and> pr_EmittedBaseFen r = Some 1020)
     (classifyPredictions (demo_codec demo_claims) demo_input)"
proof -
  have i: "demo_input\<lparr>in_Raw := ''{}''\<rparr> = demo_input" by (simp add: demo_input_def)
  show ?thesis unfolding demo_classified i
    by (simp add: classify_wire_def Let_def demo_no_errors rows_where_def demo_values)
qed

lemma accepted_payload_sound_witness:
  "rows_where (\<lambda>r cs es. claims_sound cs \<and> stop_sound cs (Some 1020) \<and> predictionsSymbolIsScorable (pr_Symbol r))
     (classifyPredictions (demo_codec demo_claims) demo_input)"
proof (rule rows_whereE [OF demo_accepted])
  fix r cs es
  assume c: "classifyPredictions (demo_codec demo_claims) demo_input = Rows r cs es"
    and p: "es = [] \<and> pr_State r = predStateAccepted \<and> pr_EmittedBaseFen r = Some 1020"
  have c': "classifyPredictions (demo_codec demo_claims) demo_input = Rows r cs []" using c p by simp
  have n: "pr_State r \<noteq> predStateAbsent" using p by (simp add: go_const)
  show ?thesis using accepted_payload_sound [OF c' n] p by (simp add: c' rows_where_def)
qed

definition oversized_input :: predInput where
  "oversized_input = demo_input\<lparr>in_Raw := CHR ''{'' # replicate 65536 CHR ''x''\<rparr>"

lemma dropWhile_replicate: "\<not> P c \<Longrightarrow> dropWhile P (replicate n c @ ys) = replicate n c @ (if n = 0 then dropWhile P ys else ys)"
  by (cases n) auto

lemma oversized_rows:
  "rows_where (\<lambda>r cs es. pr_State r = [] \<and> pr_Truncated r = 1 \<and> es \<noteq> [])
     (classifyPredictions (demo_codec []) oversized_input)"
proof -
  have t: "trim_space (CHR ''{'' # replicate 65536 CHR ''x'') = CHR ''{'' # replicate 65536 CHR ''x''"
    by (simp add: trim_space_def is_space_def dropWhile_replicate)
  have len: "length (replicate 65536 CHR ''x'') = 65536" by (rule length_replicate)
  have m: "china_at 20458 (10 * 60) \<noteq> zero_time" by code_simp
  show ?thesis
    using t len m
    by (simp add: classifyPredictions_def unwrapStringEncodedObject_def oversized_input_def demo_input_def Let_def
        rows_where_def setSkeleton_def predPayloadMax_def)
qed

lemma written_row_state_witness:
  "rows_where (\<lambda>r cs es. cs = []) (classifyPredictions (demo_codec []) oversized_input)"
proof (rule rows_whereE [OF oversized_rows])
  fix r cs es
  assume c: "classifyPredictions (demo_codec []) oversized_input = Rows r cs es"
    and p: "pr_State r = [] \<and> pr_Truncated r = 1 \<and> es \<noteq> []"
  show ?thesis using written_row_state [OF c] p by (simp add: c rows_where_def go_const)
qed

section \<open>The probabilities of the scenarios\<close>

lemma same_labels:
  "set xs \<subseteq> set ys \<Longrightarrow> distinct xs \<Longrightarrow> length xs = length ys \<Longrightarrow> mset xs = mset ys"
proof -
  assume a: "set xs \<subseteq> set ys" "distinct xs" "length xs = length ys"
  have "card (set ys) \<le> card (set xs)" using card_length [of ys] a by (simp add: distinct_card)
  then have e: "set xs = set ys" using a(1) by (simp add: card_seteq)
  then have "distinct ys" using a by (metis card_distinct distinct_card)
  then show ?thesis using e a(2) by (simp add: set_eq_iff_mset_eq_distinct)
qed

text \<open>
  When no scenario claim carries a \<open>p_profit\<close>, an accepted claim list with exactly three
  scored scenarios names each of bull, base and bear once, and their stored probabilities sum to
  exactly 10,000 basis points.
\<close>

theorem three_scenarios_are_a_distribution:
  assumes "parseClaims cd ws = (cs, [])" "plain_scenarios ws" "length (filter scored cs) = 3"
  shows "sum_list (map bp_of (filter scored cs)) = 10000 \<and>
         mset (map pc_Label (filter scored cs)) = mset predLabels"
proof -
  obtain st where st: "st = claim_loop cd 0 ws loop_start" "cs = stable_sort claim_key_less (lp_out st)"
    "lp_errs st = []" "required_errs st = []" "loop_inv st"
    by (rule parseClaims_state [OF assms(1)])
  have tally: "tally_inv st" using claim_loop_tally [OF _ loop_start_inv(2) assms(2)] st(1,3) by simp
  have ms: "mset (filter scored cs) = mset (filter scored (lp_out st))" by (simp add: st(2))
  have labels: "lp_labels st = map pc_Label (filter scored (lp_out st))"
    and bp: "lp_bp st = wrap32 (sum_list (map bp_of (filter scored (lp_out st))))"
    using tally by (simp_all add: tally_inv_def)
  have len: "length (filter scored (lp_out st)) = 3" using assms(3) mset_eq_length [OF ms] by simp
  have sum: "sum_list (map bp_of (filter scored cs)) = sum_list (map bp_of (filter scored (lp_out st)))"
    using ms by (metis mset_map sum_mset_sum_list)
  have "lp_bp st = 10000" using required_errs_empty [OF st(4)] labels len by simp
  have range: "\<forall>r\<in>set (filter scored (lp_out st)). 0 \<le> bp_of r \<and> bp_of r \<le> 10000"
    using st(5) by (auto simp: loop_inv_def list_all_iff claim_row_ok_def bp_of_def scored_def)
  obtain a b c where abc: "filter scored (lp_out st) = [a, b, c]"
    using len by (auto simp: length_Suc_conv eval_nat_numeral)
  have "0 \<le> bp_of a + bp_of b + bp_of c \<and> bp_of a + bp_of b + bp_of c \<le> 30000"
    using range abc by auto
  then have "sum_list (map bp_of (filter scored cs)) = 10000"
    using bp \<open>lp_bp st = 10000\<close> abc by (simp add: sum)
  moreover have "mset (map pc_Label (filter scored cs)) = mset predLabels"
  proof -
    have "set predLabels \<subseteq> set (lp_labels st)" using required_errs_empty [OF st(4)] by blast
    moreover have "distinct predLabels" "length predLabels = length (lp_labels st)"
      using labels len by (simp_all add: predLabels_def)
    ultimately have "mset predLabels = mset (lp_labels st)" by (rule same_labels)
    then show ?thesis using labels ms by simp
  qed
  ultimately show ?thesis ..
qed

lemma three_scenarios_are_a_distribution_witness:
  "sum_list (map bp_of (filter scored (fst (parseClaims (demo_codec demo_claims) demo_claims)))) = 10000"
proof -
  let ?cs = "fst (parseClaims (demo_codec demo_claims) demo_claims)"
  have e: "parseClaims (demo_codec demo_claims) demo_claims = (?cs, [])"
    using demo_parse by (simp add: prod_eq_iff)
  have l: "length (filter scored ?cs) = 3" by code_simp
  have p: "plain_scenarios demo_claims" by code_simp
  show ?thesis using three_scenarios_are_a_distribution [OF e p l] by simp
qed

text \<open>
  The sum is only compared when exactly three scenario probabilities were counted: a fourth scenario
  claim with a repeated label switches the check off, and a list whose probabilities sum to 200
  percent is accepted.
\<close>

definition four_claims :: "predClaimWire list" where
  "four_claims = [demo_claim ''stance'' ''stance'' ''long'' [] [] [], demo_claim ''tv'' ''terminal_value'' [] [] ''10.50'' [],
     demo_claim ''s1'' ''scenario'' [] ''bull'' ''12'' ''0.5'', demo_claim ''s2'' ''scenario'' [] ''base'' ''10.5'' ''0.5'',
     demo_claim ''s3'' ''scenario'' [] ''bear'' ''8'' ''0.5'', demo_claim ''s4'' ''scenario'' [] ''bear'' ''7'' ''0.5'']"

lemma fourth_scenario_skips_the_sum:
  "snd (parseClaims (demo_codec four_claims) four_claims) = [] \<and>
   sum_list (map bp_of (filter scored (fst (parseClaims (demo_codec four_claims) four_claims)))) = 20000"
  by code_simp

text \<open>
  The sum is over \<open>probability\<close>, but the stored value is the \<open>p_profit\<close> of a claim that has both.
\<close>

definition profit_claims :: "predClaimWire list" where
  "profit_claims = map (\<lambda>c. if cw_Key c = ''s1'' then c\<lparr>cw_PProfit := quoted ''0.9''\<rparr> else c) demo_claims"

lemma profit_replaces_scenario_probability:
  "snd (parseClaims (demo_codec profit_claims) profit_claims) = [] \<and>
   sum_list (map bp_of (filter scored (fst (parseClaims (demo_codec profit_claims) profit_claims)))) = 16500"
  by code_simp

text \<open>
  Where the guarantee on three plain scenarios stops: a fourth scenario claim with a
  repeated label is accepted although the probabilities then sum to 20,000 basis points, and a
  scenario claim with a \<open>p_profit\<close> of its own is accepted with stored values that sum to 16,500.
\<close>

theorem scenario_sum_unchecked:
  "(\<exists>ws. snd (parseClaims (demo_codec ws) ws) = [] \<and> plain_scenarios ws \<and>
     sum_list (map bp_of (filter scored (fst (parseClaims (demo_codec ws) ws)))) = 20000) \<and>
   (\<exists>ws. snd (parseClaims (demo_codec ws) ws) = [] \<and>
     length (filter scored (fst (parseClaims (demo_codec ws) ws))) = 3 \<and>
     sum_list (map bp_of (filter scored (fst (parseClaims (demo_codec ws) ws)))) = 16500)"
proof -
  have "plain_scenarios four_claims" "length (filter scored (fst (parseClaims (demo_codec profit_claims) profit_claims))) = 3"
    by code_simp+
  then show ?thesis using fourth_scenario_skips_the_sum profit_replaces_scenario_probability by blast
qed

section \<open>Ingest into the ledger\<close>

text \<open>
  What the classifier accepts, the ledger can store: inserting the row and the claims of
  an accepted payload never breaks the unique index on claim keys, whatever the ledger holds.
\<close>

theorem accepted_payload_inserts:
  assumes "classifyPredictions cd inp = Rows row cs errs"
  shows "\<exists>sid dup l'. InsertPredictionSet rid row cs l = Inr ((sid, dup), l')"
proof -
  have "distinct (map pc_ClaimKey cs)"
    using assms
  proof (cases rule: classify_cases)
    case (wire i w)
    show ?thesis
    proof (cases "errs = []")
      case True
      note acc = classify_wire_accepts [OF wire(1) [unfolded True]]
      have "parseClaims cd (pw_Claims w) = (cs, [])"
        using acc(2) payload_errs_empty(2) [OF acc(1)] by (simp add: prod_eq_iff)
      then show ?thesis using parseClaims_sound by (auto simp: claims_sound_def)
    next
      case False
      then show ?thesis using wire(1) by (auto simp: classify_wire_def Let_def split: if_splits)
    qed
  qed simp_all
  then show ?thesis by (auto simp: InsertPredictionSet_def Let_def split: option.splits)
qed

lemma accepted_payload_inserts_witness:
  "rows_where (\<lambda>r cs es. \<exists>sid dup l'. InsertPredictionSet 7 r cs empty_ledger = Inr ((sid, dup), l'))
     (classifyPredictions (demo_codec demo_claims) demo_input)"
proof (rule rows_whereE [OF demo_accepted])
  fix r cs es
  assume c: "classifyPredictions (demo_codec demo_claims) demo_input = Rows r cs es"
  show ?thesis using accepted_payload_inserts [OF c, of 7 empty_ledger] by (simp add: c rows_where_def)
qed

end
