(* ===== verification/OU_Graph.thy ===== *)
theory OU_Graph
  imports Prelude "HOL-Library.AList"
begin

text \<open>
  The organizational-unit tree (ou_graph.go, ou_lifecycle.go): nodes read from the user_groups rows, the
  actual chain from an OU to its root, the policy chain that ends at the Default OU, and the subtree
  walk. A Go map of nodes is an association list with distinct keys; every operation answers the same
  for every order of it. An error value is a constructor of \<open>ouErr\<close>.
\<close>

section \<open>Nodes and graphs\<close>

datatype ouErr = DefaultErr | DanglingErr | CyclicErr

record ouNode =
  nd_parent :: int
  nd_isDefault :: bool
  nd_name :: string
  nd_description :: string
  nd_created :: string

type_synonym ouNodes = "(int \<times> ouNode) list"

record ouGraph =
  g_nodes :: ouNodes
  g_children :: "int \<Rightarrow> int list"
  g_defaultID :: int
  g_defaultErr :: bool

text \<open>The parent column of a node, 0 for a missing one as Go's zero value.\<close>

definition parent_of :: "ouNodes \<Rightarrow> int \<Rightarrow> int" where
  "parent_of nodes u = (case map_of nodes u of None \<Rightarrow> 0 | Some n \<Rightarrow> nd_parent n)"

definition defaults_of :: "ouNodes \<Rightarrow> int list" where
  "defaults_of nodes = map fst (filter (\<lambda>(i, n). nd_isDefault n) nodes)"

definition children_of :: "ouNodes \<Rightarrow> int \<Rightarrow> int list" where
  "children_of nodes p = (if p = 0 then [] else sort (map fst (filter (\<lambda>(i, n). nd_parent n = p) nodes)))"

definition newOUGraph :: "ouNodes \<Rightarrow> ouGraph" where
  "newOUGraph nodes =
     (let ok = (case defaults_of nodes of [d] \<Rightarrow> parent_of nodes d = 0 | _ \<Rightarrow> False)
      in \<lparr>g_nodes = nodes, g_children = children_of nodes,
          g_defaultID = (if ok then hd (defaults_of nodes) else 0), g_defaultErr = \<not> ok\<rparr>)"

section \<open>Chains\<close>

text \<open>\<open>k\<close> is what is left of the 64 steps the walk allows itself.\<close>

fun chain_walk :: "ouNodes \<Rightarrow> nat \<Rightarrow> int list \<Rightarrow> int \<Rightarrow> ouErr + int list" where
  "chain_walk nodes 0 out u = (if u = 0 then Inr out else Inl CyclicErr)"
| "chain_walk nodes (Suc k) out u =
     (if u = 0 then Inr out
      else if u \<in> set out then Inl CyclicErr
      else (case map_of nodes u of
              None \<Rightarrow> Inl DanglingErr
            | Some n \<Rightarrow> if u < 0 then Inl DanglingErr else chain_walk nodes k (out @ [u]) (nd_parent n)))"

definition ouMaxDepth :: nat where "ouMaxDepth = 64"

definition actualChain :: "ouGraph \<Rightarrow> int \<Rightarrow> ouErr + int list" where
  "actualChain g leaf = (if g_defaultErr g then Inl DefaultErr else chain_walk (g_nodes g) ouMaxDepth [] leaf)"

definition policyChain :: "ouGraph \<Rightarrow> int \<Rightarrow> ouErr + int list" where
  "policyChain g leaf =
     (case actualChain g leaf of
        Inl e \<Rightarrow> Inl e
      | Inr chain \<Rightarrow> if chain = [] then Inr []
          else if last chain \<noteq> g_defaultID g then Inr (chain @ [g_defaultID g]) else Inr chain)"

section \<open>Subtrees\<close>

text \<open>The children of one node are checked one by one before the next node is taken.\<close>

definition first_err :: "ouGraph \<Rightarrow> int list \<Rightarrow> ouErr option" where
  "first_err g ids = foldr (\<lambda>c rest. case actualChain g c of Inl e \<Rightarrow> Some e | Inr _ \<Rightarrow> rest) ids None"

text \<open>The breadth-first queue; every turn takes one node, and \<open>k\<close> bounds the turns.\<close>

fun subtree_walk :: "nat \<Rightarrow> ouGraph \<Rightarrow> int list \<Rightarrow> int list \<Rightarrow> (ouErr + int list) option" where
  "subtree_walk k g out [] = Some (Inr out)"
| "subtree_walk 0 g out (u # queue) = None"
| "subtree_walk (Suc k) g out (u # queue) =
     (case first_err g (g_children g u) of
        Some e \<Rightarrow> Some (Inl e)
      | None \<Rightarrow> subtree_walk k g (out @ [u]) (queue @ g_children g u))"

definition subtree :: "ouGraph \<Rightarrow> int \<Rightarrow> (ouErr + int list) option" where
  "subtree g root =
     (case actualChain g root of
        Inl e \<Rightarrow> Some (Inl e)
      | Inr _ \<Rightarrow>
          (if root = 0 then Some (Inr [])
           else map_option (map_sum (\<lambda>e. e) sort) (subtree_walk (length (g_nodes g)) g [] [root])))"

section \<open>Topology report\<close>

datatype issueCode = InvalidDefault | LegacyRoot | DanglingParent | CycleOrDepth

definition node_issues :: "ouGraph \<Rightarrow> int \<Rightarrow> ouNode \<Rightarrow> (int \<times> issueCode) list" where
  "node_issues g u n =
     (if \<not> nd_isDefault n \<and> nd_parent n = 0 then [(u, LegacyRoot)] else []) @
     (case actualChain g u of
        Inl CyclicErr \<Rightarrow> [(u, CycleOrDepth)] | Inl DanglingErr \<Rightarrow> [(u, DanglingParent)] | _ \<Rightarrow> [])"

definition issues :: "ouGraph \<Rightarrow> (int \<times> issueCode) list" where
  "issues g =
     (if g_defaultErr g then [(0, InvalidDefault)] else []) @
     concat (map (\<lambda>i. case map_of (g_nodes g) i of None \<Rightarrow> [] | Some n \<Rightarrow> node_issues g i n)
                 (sort (map fst (g_nodes g))))"

section \<open>What a chain is\<close>

text \<open>The specification: a list of positive ids that follows the parent column up to 0.\<close>

fun ou_path :: "ouNodes \<Rightarrow> int \<Rightarrow> int list \<Rightarrow> bool" where
  "ou_path nodes u [] \<longleftrightarrow> u = 0"
| "ou_path nodes u (x # xs) \<longleftrightarrow> u = x \<and> 0 < x \<and>
     (case map_of nodes x of None \<Rightarrow> False | Some n \<Rightarrow> ou_path nodes (nd_parent n) xs)"

lemma ou_path_unique: "ou_path nodes u xs \<Longrightarrow> ou_path nodes u ys \<Longrightarrow> xs = ys"
proof (induction xs arbitrary: u ys)
  case Nil
  then show ?case by (cases ys) auto
next
  case (Cons x xs)
  then show ?case by (cases ys) (auto split: option.splits)
qed

lemma ou_path_member:
  "ou_path nodes u xs \<Longrightarrow> y \<in> set xs \<Longrightarrow> \<exists>ps qs. xs = ps @ qs \<and> ou_path nodes y qs \<and> qs \<noteq> [] \<and> y \<notin> set ps"
proof (induction xs arbitrary: u)
  case (Cons x xs)
  show ?case
  proof (cases "y = x")
    case True
    then show ?thesis using Cons.prems by (intro exI [of _ "[]"] exI [of _ "x # xs"]) auto
  next
    case False
    then obtain n where "map_of nodes x = Some n" "ou_path nodes (nd_parent n) xs" "y \<in> set xs"
      using Cons.prems by (auto split: option.splits)
    from Cons.IH [OF this(2,3)] obtain ps qs where "xs = ps @ qs" "ou_path nodes y qs" "qs \<noteq> []" "y \<notin> set ps"
      by blast
    then show ?thesis using False by (intro exI [of _ "x # ps"] exI [of _ qs]) auto
  qed
qed simp

lemma ou_path_distinct: "ou_path nodes u xs \<Longrightarrow> distinct xs"
proof (induction xs arbitrary: u)
  case (Cons x xs)
  then obtain n where n: "map_of nodes x = Some n" "ou_path nodes (nd_parent n) xs" by (auto split: option.splits)
  have "x \<notin> set xs"
  proof
    assume "x \<in> set xs"
    then obtain ps qs where q: "xs = ps @ qs" "ou_path nodes x qs" using ou_path_member [OF n(2)] by blast
    moreover have "ou_path nodes x (x # xs)" using Cons.prems by auto
    ultimately have "qs = x # xs" using ou_path_unique by blast
    then show False using q(1) by (metis append_eq_conv_conj length_append length_Cons not_add_less2 lessI)
  qed
  then show ?case using Cons.IH [OF n(2)] by simp
qed simp

lemma chain_walk_path:
  "distinct out \<Longrightarrow>
   chain_walk nodes k out u = Inr r \<longleftrightarrow>
     (\<exists>xs. r = out @ xs \<and> ou_path nodes u xs \<and> length xs \<le> k \<and> set xs \<inter> set out = {})"
proof (induction nodes k out u arbitrary: r rule: chain_walk.induct)
  case (1 nodes out u)
  then show ?case by auto
next
  case (2 nodes k out u)
  consider "u = 0" | "u \<noteq> 0" "u \<in> set out" | "u \<noteq> 0" "u \<notin> set out" "map_of nodes u = None \<or> u < 0"
    | n where "u \<noteq> 0" "u \<notin> set out" "map_of nodes u = Some n" "0 < u" by fastforce
  then show ?case
  proof cases
    case 1
    then show ?thesis by (auto, case_tac xs, auto)
  next
    case 2
    then show ?thesis by (auto, case_tac xs, auto)
  next
    case 3
    then show ?thesis by (auto split: option.splits, (case_tac xs, auto)+)
  next
    case 4
    then have IH: "chain_walk nodes k (out @ [u]) (nd_parent n) = Inr r \<longleftrightarrow>
      (\<exists>xs. r = (out @ [u]) @ xs \<and> ou_path nodes (nd_parent n) xs \<and> length xs \<le> k \<and> set xs \<inter> set (out @ [u]) = {})"
      using 2 by simp
    have nin: "u \<notin> set xs" if "ou_path nodes (nd_parent n) xs" for xs
      using ou_path_distinct [of nodes u "u # xs"] that 4 by simp
    have "(\<exists>xs. r = (out @ [u]) @ xs \<and> ou_path nodes (nd_parent n) xs \<and> length xs \<le> k \<and> set xs \<inter> set (out @ [u]) = {})
      \<longleftrightarrow> (\<exists>ys. r = out @ ys \<and> ou_path nodes u ys \<and> length ys \<le> Suc k \<and> set ys \<inter> set out = {})" (is "?L \<longleftrightarrow> ?R")
    proof
      assume ?L
      then obtain xs where x: "r = (out @ [u]) @ xs" "ou_path nodes (nd_parent n) xs" "length xs \<le> k"
        "set xs \<inter> set (out @ [u]) = {}" by blast
      then show ?R using 4 by (intro exI [of _ "u # xs"]) auto
    next
      assume ?R
      then obtain ys where y: "r = out @ ys" "ou_path nodes u ys" "length ys \<le> Suc k" "set ys \<inter> set out = {}" by blast
      then obtain xs where "ys = u # xs" "ou_path nodes (nd_parent n) xs" using 4 by (cases ys) auto
      then show ?L using y nin by (intro exI [of _ xs]) auto
    qed
    then show ?thesis using IH 4 by simp
  qed
qed

lemma actualChain_path:
  "actualChain g leaf = Inr xs \<longleftrightarrow> \<not> g_defaultErr g \<and> ou_path (g_nodes g) leaf xs \<and> length xs \<le> ouMaxDepth"
  using chain_walk_path [of "[]" "g_nodes g" ouMaxDepth leaf xs] by (auto simp: actualChain_def)

section \<open>What a subtree is\<close>

text \<open>The rows of user_groups have distinct positive ids.\<close>

definition wf_nodes :: "ouNodes \<Rightarrow> bool" where
  "wf_nodes nodes \<longleftrightarrow> distinct (map fst nodes) \<and> list_all (\<lambda>i. 0 < i) (map fst nodes)"

definition descends :: "ouGraph \<Rightarrow> int \<Rightarrow> int \<Rightarrow> bool" where
  "descends g root x = (case actualChain g x of Inl _ \<Rightarrow> False | Inr xs \<Rightarrow> root \<in> set xs)"

lemma descendsD: "descends g root x \<Longrightarrow> \<exists>xs. actualChain g x = Inr xs \<and> root \<in> set xs"
  by (auto simp: descends_def split: sum.splits)

lemma children_of_iff:
  "distinct (map fst nodes) \<Longrightarrow>
   c \<in> set (children_of nodes p) \<longleftrightarrow> p \<noteq> 0 \<and> (\<exists>n. map_of nodes c = Some n \<and> nd_parent n = p)"
  by (force simp: children_of_def)

lemma distinct_filter_fst: "distinct (map fst xs) \<Longrightarrow> distinct (map fst (filter P xs))"
  by (induction xs) auto

lemma distinct_children: "distinct (map fst nodes) \<Longrightarrow> distinct (children_of nodes p)"
  by (simp add: children_of_def distinct_filter_fst)

lemma first_err_None: "first_err g us = None \<longleftrightarrow> (\<forall>c\<in>set us. \<exists>xs. actualChain g c = Inr xs)"
  unfolding first_err_def by (induction us) (auto split: sum.splits)

text \<open>What the walk keeps: processed and queued nodes are distinct descendants, whose parents (but for
  the root's) are processed, and every child of a processed node was queued.\<close>

definition walk_inv :: "ouGraph \<Rightarrow> int \<Rightarrow> int list \<Rightarrow> int list \<Rightarrow> bool" where
  "walk_inv g root out queue \<longleftrightarrow>
     distinct (out @ queue) \<and> root \<in> set (out @ queue) \<and>
     (\<forall>x\<in>set (out @ queue). descends g root x \<and> (x = root \<or> parent_of (g_nodes g) x \<in> set out)) \<and>
     (\<forall>x\<in>set out. set (g_children g x) \<subseteq> set (out @ queue))"

lemma path_positive: "ou_path nodes u xs \<Longrightarrow> y \<in> set xs \<Longrightarrow> 0 < y \<and> (\<exists>n. map_of nodes y = Some n)"
  by (induction xs arbitrary: u) (auto split: option.splits)

lemma descends_key: "descends g root x \<Longrightarrow> root \<noteq> 0 \<Longrightarrow> \<exists>n. map_of (g_nodes g) x = Some n"
proof -
  assume "descends g root x" "root \<noteq> 0"
  then obtain xs where xs: "ou_path (g_nodes g) x xs" "root \<in> set xs"
    by (auto simp: actualChain_path dest!: descendsD)
  then show ?thesis by (cases xs) (auto split: option.splits)
qed

lemma child_descends:
  assumes wf: "wf_nodes (g_nodes g)" and d: "descends g root u"
    and c: "map_of (g_nodes g) c = Some n" "nd_parent n = u" and ok: "actualChain g c = Inr ys"
  shows "descends g root c \<and> c \<noteq> root"
proof -
  obtain xs where xs: "actualChain g u = Inr xs" "root \<in> set xs" using descendsD [OF d] by blast
  have pos: "0 < c" using wf c(1) by (auto simp: wf_nodes_def list_all_iff dest!: map_of_SomeD)
  have path: "ou_path (g_nodes g) c (c # xs)" using xs(1) c pos by (simp add: actualChain_path)
  have e: "ys = c # xs" using ok path by (auto simp: actualChain_path intro: ou_path_unique)
  have "c \<notin> set xs" using ou_path_distinct [OF path] by simp
  then show ?thesis using ok e xs(2) by (auto simp: descends_def)
qed

lemma walk_step:
  assumes wf: "wf_nodes (g_nodes g)" and ch: "g_children g = children_of (g_nodes g)"
    and inv: "walk_inv g root out (u # queue)" and ok: "first_err g (g_children g u) = None"
  shows "walk_inv g root (out @ [u]) (queue @ g_children g u)"
proof -
  have dk: "distinct (map fst (g_nodes g))" using wf by (simp add: wf_nodes_def)
  have new: "descends g root c \<and> c \<noteq> root \<and> parent_of (g_nodes g) c = u"
    if m: "c \<in> set (g_children g u)" for c
  proof -
    obtain n where n: "map_of (g_nodes g) c = Some n" "nd_parent n = u"
      using m unfolding ch children_of_iff [OF dk] by blast
    obtain ys where "actualChain g c = Inr ys" using ok m by (auto simp: first_err_None)
    then show ?thesis using child_descends [OF wf _ n] inv n by (auto simp: walk_inv_def parent_of_def)
  qed
  have fresh: "c \<notin> set (out @ u # queue)" if "c \<in> set (g_children g u)" for c
    using new [OF that] inv by (auto simp: walk_inv_def)
  have "distinct (g_children g u)" using distinct_children [OF dk] by (simp add: ch)
  then have "distinct ((out @ [u]) @ queue @ g_children g u)"
    using inv fresh by (auto simp: walk_inv_def)
  moreover have "\<forall>x\<in>set (out @ [u]). set (g_children g x) \<subseteq> set ((out @ [u]) @ queue @ g_children g u)"
    using inv by (auto simp: walk_inv_def)
  moreover have "\<forall>x\<in>set ((out @ [u]) @ queue @ g_children g u). descends g root x \<and>
      (x = root \<or> parent_of (g_nodes g) x \<in> set (out @ [u]))"
    using inv new by (auto simp: walk_inv_def)
  ultimately show ?thesis using inv unfolding walk_inv_def by auto
qed

lemma walk_size:
  assumes "walk_inv g root out queue" "root \<noteq> 0" "distinct (map fst (g_nodes g))"
  shows "length out + length queue \<le> length (g_nodes g)"
proof -
  have "set (out @ queue) \<subseteq> fst ` set (g_nodes g)"
  proof
    fix x assume "x \<in> set (out @ queue)"
    then have "descends g root x" using assms(1) unfolding walk_inv_def by blast
    then obtain n where "map_of (g_nodes g) x = Some n" using descends_key assms(2) by blast
    then show "x \<in> fst ` set (g_nodes g)" using map_of_SomeD by (metis image_eqI fst_conv)
  qed
  then have "card (set (out @ queue)) \<le> card (fst ` set (g_nodes g))" by (intro card_mono) auto
  moreover have "card (set (out @ queue)) = length (out @ queue)"
    using assms(1) by (intro distinct_card) (simp add: walk_inv_def)
  moreover have "card (fst ` set (g_nodes g)) \<le> length (g_nodes g)"
    by (metis card_length length_map list.set_map)
  ultimately show ?thesis by simp
qed

lemma walk_complete:
  assumes inv: "walk_inv g root out []" and ch: "g_children g = children_of (g_nodes g)"
    and dk: "distinct (map fst (g_nodes g))" and x: "descends g root x"
  shows "x \<in> set out"
proof -
  obtain xs where xs: "ou_path (g_nodes g) x xs" "root \<in> set xs"
    using descendsD [OF x] by (auto simp: actualChain_path)
  then show ?thesis
  proof (induction xs arbitrary: x)
    case (Cons y ys)
    show ?case
    proof (cases "x = root")
      case True
      then show ?thesis using inv by (simp add: walk_inv_def)
    next
      case False
      then obtain n where n: "map_of (g_nodes g) x = Some n" "ou_path (g_nodes g) (nd_parent n) ys" "root \<in> set ys"
        using Cons.prems by (auto split: option.splits)
      have p: "nd_parent n \<in> set out" by (rule Cons.IH [OF n(2,3)])
      have "nd_parent n \<noteq> 0" using n(2,3) by (cases ys) auto
      then have "x \<in> set (g_children g (nd_parent n))" using n(1) by (simp add: ch children_of_iff [OF dk])
      then show ?thesis using inv p by (auto simp: walk_inv_def)
    qed
  qed simp
qed

lemma walk_final:
  assumes inv: "walk_inv g root out []" and ch: "g_children g = children_of (g_nodes g)"
    and dk: "distinct (map fst (g_nodes g))"
  shows "distinct out \<and> set out = {x. descends g root x}"
proof -
  have "\<forall>x\<in>set out. descends g root x" using inv by (simp add: walk_inv_def)
  then show ?thesis using inv walk_complete [OF inv ch dk] by (auto simp: walk_inv_def)
qed

lemma subtree_walk_correct:
  assumes wf: "wf_nodes (g_nodes g)" and ch: "g_children g = children_of (g_nodes g)" and r: "root \<noteq> 0"
    and dk: "distinct (map fst (g_nodes g))"
  shows "walk_inv g root out queue \<Longrightarrow> length (g_nodes g) \<le> k + length out \<Longrightarrow>
    \<exists>res. subtree_walk k g out queue = Some res \<and>
      (\<forall>ids. res = Inr ids \<longrightarrow> distinct ids \<and> set ids = {x. descends g root x})"
proof (induction k arbitrary: out queue)
  case 0
  have "queue = []" using walk_size [OF 0(1) r dk] 0(2) by (cases queue) auto
  then show ?case using walk_final [OF _ ch dk] 0(1) by simp
next
  case (Suc k)
  show ?case
  proof (cases queue)
    case Nil
    then show ?thesis using walk_final [OF _ ch dk] Suc.prems(1) by simp
  next
    case (Cons u q)
    show ?thesis
    proof (cases "first_err g (g_children g u)")
      case None
      have "walk_inv g root (out @ [u]) (q @ g_children g u)"
        using walk_step [OF wf ch _ None] Suc.prems(1) Cons by simp
      from Suc.IH [OF this] show ?thesis using Suc.prems(2) Cons None by simp
    next
      case (Some e)
      then show ?thesis using Cons by simp
    qed
  qed
qed

lemma newOUGraph_simps [simp]:
  "g_nodes (newOUGraph nodes) = nodes" "g_children (newOUGraph nodes) = children_of nodes"
  by (simp_all add: newOUGraph_def Let_def)

text \<open>
  Property C35. The chain walk of an OU graph is the parent path: it answers a list exactly when the graph
  has its one parentless Default OU and the list follows the parent column from the OU to a root, in at
  most 64 steps; such a list never repeats an OU. Every other tree (a missing parent, a cycle, a deeper
  chain) is an error, so a truncated chain is never used for a policy.
\<close>

theorem chain_is_parent_path:
  "(actualChain (newOUGraph nodes) leaf = Inr xs) =
     (\<not> g_defaultErr (newOUGraph nodes) \<and> ou_path nodes leaf xs \<and> distinct xs \<and> length xs \<le> 64)"
  using actualChain_path [of "newOUGraph nodes" leaf xs] ou_path_distinct [of nodes leaf xs]
  by (auto simp: ouMaxDepth_def)

lemma subtree_answers:
  assumes "wf_nodes nodes" "root \<noteq> 0"
  shows "\<exists>res. subtree (newOUGraph nodes) root = Some res \<and>
     (\<forall>ids. res = Inr ids \<longrightarrow>
        sorted ids \<and> distinct ids \<and> set ids = {x. descends (newOUGraph nodes) root x})"
proof (cases "actualChain (newOUGraph nodes) root")
  case (Inl e)
  then show ?thesis by (simp add: subtree_def)
next
  case (Inr xs)
  let ?g = "newOUGraph nodes"
  have "root \<in> set xs" using Inr assms(2) by (cases xs) (auto simp: actualChain_path)
  then have "walk_inv ?g root [] [root]" using Inr by (simp add: walk_inv_def descends_def)
  then obtain res where res: "subtree_walk (length nodes) ?g [] [root] = Some res"
    "\<forall>ids. res = Inr ids \<longrightarrow> distinct ids \<and> set ids = {x. descends ?g root x}"
    using subtree_walk_correct [of ?g root "[]" "[root]" "length nodes"] assms by (auto simp: wf_nodes_def)
  then show ?thesis using Inr assms(2) by (cases res) (auto simp: subtree_def)
qed

lemma subtree_descends:
  "wf_nodes nodes \<Longrightarrow> root \<noteq> 0 \<Longrightarrow> subtree (newOUGraph nodes) root = Some (Inr ids) \<Longrightarrow> x \<in> set ids \<Longrightarrow>
   descends (newOUGraph nodes) root x"
  using subtree_answers [of nodes root] by auto


section \<open>A small tree\<close>

definition demo_node :: "int \<Rightarrow> bool \<Rightarrow> ouNode" where
  "demo_node p d = \<lparr>nd_parent = p, nd_isDefault = d, nd_name = [], nd_description = [], nd_created = []\<rparr>"

text \<open>OU 1 is the Default, 2 and 3 hang below it, 4 below 3; 5 and 6 form a cycle.\<close>

definition demo_nodes :: ouNodes where
  "demo_nodes = [(1, demo_node 0 True), (2, demo_node 1 False), (3, demo_node 1 False), (4, demo_node 3 False),
     (5, demo_node 6 False), (6, demo_node 5 False)]"

lemma demo_tree:
  "actualChain (newOUGraph demo_nodes) 4 = Inr [4, 3, 1]" "actualChain (newOUGraph demo_nodes) 5 = Inl CyclicErr"
  "subtree (newOUGraph demo_nodes) 1 = Some (Inr [1, 2, 3, 4])" "wf_nodes demo_nodes"
  by code_simp+


end
