(* ===== verification/OU_Policy.thy ===== *)
theory OU_Policy
  imports OU_Graph
begin

text \<open>
  Policy resolution over the OU tree (ou_policy.go, the policy half of ou_graph.go) and the error-free
  views on it. A pointer that may be nil is an option; a nullable column is read into one. The
  resolved record carries, per policy, the OU's own value, the effective value and where it came from.
\<close>

section \<open>One policy along a chain\<close>

record 'a ouPolicyResult =
  op_Own :: "'a option"
  op_Effective :: 'a
  op_SourceOU :: int
  op_Inherited :: bool
  op_Available :: bool

definition nearestOUPolicy :: "int list \<Rightarrow> 'a \<Rightarrow> (int \<Rightarrow> 'a option) \<Rightarrow> 'a ouPolicyResult" where
  "nearestOUPolicy chain baseline read =
     (case chain of
        [] \<Rightarrow> \<lparr>op_Own = None, op_Effective = baseline, op_SourceOU = 0, op_Inherited = False, op_Available = True\<rparr>
      | leaf # _ \<Rightarrow>
          (case find (\<lambda>u. read u \<noteq> None) chain of
             Some u \<Rightarrow> \<lparr>op_Own = read leaf, op_Effective = the (read u), op_SourceOU = u,
                         op_Inherited = (u \<noteq> leaf), op_Available = True\<rparr>
           | None \<Rightarrow> \<lparr>op_Own = read leaf, op_Effective = baseline, op_SourceOU = 0,
                       op_Inherited = (1 < length chain), op_Available = True\<rparr>))"

definition stickyOUPolicy :: "int list \<Rightarrow> (int \<Rightarrow> bool option) \<Rightarrow> bool ouPolicyResult" where
  "stickyOUPolicy chain read =
     (case chain of
        [] \<Rightarrow> \<lparr>op_Own = None, op_Effective = False, op_SourceOU = 0, op_Inherited = False, op_Available = True\<rparr>
      | leaf # _ \<Rightarrow>
          (case find (\<lambda>u. read u = Some True) chain of
             Some u \<Rightarrow> \<lparr>op_Own = read leaf, op_Effective = True, op_SourceOU = u,
                         op_Inherited = (u \<noteq> leaf), op_Available = True\<rparr>
           | None \<Rightarrow> \<lparr>op_Own = read leaf, op_Effective = False, op_SourceOU = 0,
                       op_Inherited = (read leaf = None \<and> 1 < length chain), op_Available = True\<rparr>))"

text \<open>
  Both rules answer from one read function along the chain. \<open>policy_rule\<close> states what the callers of
  such a rule rely on: the value is the baseline unless an OU of the chain has one that counts, and
  then it comes from the nearest such OU.
\<close>

locale policy_rule =
  fixes rule :: "int list \<Rightarrow> (int \<Rightarrow> 'a option) \<Rightarrow> 'a ouPolicyResult"
    and baseline :: 'a
    and counts :: "'a option \<Rightarrow> bool"
  assumes none_counts: "\<forall>u\<in>set chain. \<not> counts (read u) \<Longrightarrow> op_Effective (rule chain read) = baseline"
    and nearest_counts: "\<forall>u\<in>set ps. \<not> counts (read u) \<Longrightarrow> counts (read u) \<Longrightarrow>
      op_Effective (rule (ps @ u # qs) read) = the (read u) \<and> op_SourceOU (rule (ps @ u # qs) read) = u"
begin

lemma split_first: "\<exists>u\<in>set chain. counts (read u) \<Longrightarrow>
  \<exists>ps u qs. chain = ps @ u # qs \<and> counts (read u) \<and> (\<forall>v\<in>set ps. \<not> counts (read v))"
  by (rule split_list_first_prop)

lemma effective_cases:
  "(\<forall>u\<in>set chain. \<not> counts (read u)) \<and> op_Effective (rule chain read) = baseline \<or>
   (\<exists>u\<in>set chain. counts (read u) \<and> op_Effective (rule chain read) = the (read u) \<and>
      op_SourceOU (rule chain read) = u)"
proof (cases "\<exists>u\<in>set chain. counts (read u)")
  case True
  then obtain ps u qs where s: "chain = ps @ u # qs" "counts (read u)" "\<forall>v\<in>set ps. \<not> counts (read v)"
    using split_first [of chain read] by blast
  then show ?thesis using nearest_counts [of ps read u qs] by auto
next
  case False
  then show ?thesis using none_counts [of chain read] by blast
qed

text \<open>An OU that decides for itself shields its chain from everything above it.\<close>

lemma prefix_decides:
  "\<exists>u\<in>set ps. counts (read u) \<Longrightarrow> op_Effective (rule (ps @ qs) read) = op_Effective (rule ps read)"
proof -
  assume "\<exists>u\<in>set ps. counts (read u)"
  then obtain as u bs where s: "ps = as @ u # bs" "counts (read u)" "\<forall>v\<in>set as. \<not> counts (read v)"
    using split_first [of ps read] by blast
  then show ?thesis using nearest_counts [of as read u bs] nearest_counts [of as read u "bs @ qs"] by simp
qed

end

lemma find_append_first: "\<forall>x\<in>set ps. \<not> P x \<Longrightarrow> P u \<Longrightarrow> find P (ps @ u # qs) = Some u"
  by (induction ps) auto

lemma find_none: "\<forall>x\<in>set xs. \<not> P x \<Longrightarrow> find P xs = None"
  by (induction xs) auto

interpretation nearest: policy_rule "\<lambda>chain. nearestOUPolicy chain baseline" baseline "\<lambda>v. v \<noteq> None"
  for baseline
proof unfold_locales
  show "op_Effective (nearestOUPolicy chain baseline read) = baseline" if "\<forall>u\<in>set chain. \<not> read u \<noteq> None"
    for chain and read :: "int \<Rightarrow> 'a option"
    using that find_none [of chain "\<lambda>u. read u \<noteq> None"] by (auto simp: nearestOUPolicy_def split: list.split)
  show "op_Effective (nearestOUPolicy (ps @ u # qs) baseline read) = the (read u) \<and>
      op_SourceOU (nearestOUPolicy (ps @ u # qs) baseline read) = u"
    if "\<forall>u\<in>set ps. \<not> read u \<noteq> None" "read u \<noteq> None" for ps u qs and read :: "int \<Rightarrow> 'a option"
    using find_append_first [of ps "\<lambda>u. read u \<noteq> None" u qs] that
    by (cases "ps @ u # qs") (simp_all add: nearestOUPolicy_def)
qed

interpretation sticky: policy_rule stickyOUPolicy False "\<lambda>v. v = Some True"
proof unfold_locales
  show "op_Effective (stickyOUPolicy chain read) = False" if "\<forall>u\<in>set chain. read u \<noteq> Some True" for chain read
    using that find_none [of chain "\<lambda>u. read u = Some True"] by (auto simp: stickyOUPolicy_def split: list.split)
  show "op_Effective (stickyOUPolicy (ps @ u # qs) read) = the (read u) \<and>
      op_SourceOU (stickyOUPolicy (ps @ u # qs) read) = u"
    if "\<forall>u\<in>set ps. read u \<noteq> Some True" "read u = Some True" for ps u qs read
    using find_append_first [of ps "\<lambda>u. read u = Some True" u qs] that
    by (cases "ps @ u # qs") (simp_all add: stickyOUPolicy_def)
qed

lemma sticky_effective: "op_Effective (stickyOUPolicy chain read) \<longleftrightarrow> (\<exists>u\<in>set chain. read u = Some True)"
  using sticky.effective_cases [of chain read] by auto

section \<open>Policies of an OU\<close>

record ouRunQuota =
  rq_Limit :: int
  rq_Period :: string

definition QuotaDay :: string where [go_const]: "QuotaDay = ''day''"
definition QuotaWeek :: string where [go_const]: "QuotaWeek = ''week''"
definition QuotaMonth :: string where [go_const]: "QuotaMonth = ''month''"
definition QuotaTotal :: string where [go_const]: "QuotaTotal = ''total''"

definition validQuotaPeriod :: "string \<Rightarrow> bool" where
  "validQuotaPeriod p \<longleftrightarrow> p \<in> {QuotaDay, QuotaWeek, QuotaMonth, QuotaTotal}"

record ouPolicyValues =
  pv_weight :: "int option"
  pv_maxQueued :: "int option"
  pv_urgent :: "bool option"
  pv_allowUrgent :: "bool option"
  pv_restricted :: "bool option"
  pv_runWindow :: "string option"
  pv_priority :: "string option"
  pv_scope :: "string option"
  pv_quota :: "ouRunQuota option"
  pv_totp :: "bool option"
  pv_passkey :: "bool option"
  pv_require2FA :: "bool option"
  pv_exportAllowed :: "bool option"
  pv_exportMax :: "int option"
  pv_exportDailyQuota :: "int option"

definition empty_values :: ouPolicyValues where
  "empty_values = \<lparr>pv_weight = None, pv_maxQueued = None, pv_urgent = None, pv_allowUrgent = None,
     pv_restricted = None, pv_runWindow = None, pv_priority = None, pv_scope = None, pv_quota = None,
     pv_totp = None, pv_passkey = None, pv_require2FA = None, pv_exportAllowed = None, pv_exportMax = None,
     pv_exportDailyQuota = None\<rparr>"

record ouPolicySnapshot =
  sn_graph :: ouGraph
  sn_values :: "(int \<times> ouPolicyValues) list"

text \<open>A missing key reads as the zero value of the struct, every field nil.\<close>

definition values_of :: "ouPolicySnapshot \<Rightarrow> int \<Rightarrow> ouPolicyValues" where
  "values_of s u = (case map_of (sn_values s) u of None \<Rightarrow> empty_values | Some v \<Rightarrow> v)"

text \<open>The quota columns: an unknown stored period counts as a day.\<close>

definition row_quota :: "int option \<Rightarrow> string option \<Rightarrow> ouRunQuota option" where
  "row_quota limit period = map_option (\<lambda>n. \<lparr>rq_Limit = n, rq_Period =
     (case period of None \<Rightarrow> QuotaDay | Some p \<Rightarrow> if validQuotaPeriod p then p else QuotaDay)\<rparr>) limit"

type_synonym ouGroupRow = "int \<times> ouNode \<times> ouPolicyValues"

definition loadOUPolicySnapshot :: "ouGroupRow list \<Rightarrow> ouPolicySnapshot" where
  "loadOUPolicySnapshot rows = \<lparr>sn_graph = newOUGraph (map (\<lambda>(u, n, v). (u, n)) rows),
     sn_values = map (\<lambda>(u, n, v). (u, v)) rows\<rparr>"

record ouResolvedPolicies =
  rp_Weight :: "int ouPolicyResult"
  rp_UrgentUnlimited :: "bool ouPolicyResult"
  rp_AllowUrgent :: "bool ouPolicyResult"
  rp_MaxQueued :: "int ouPolicyResult"
  rp_RunWindow :: "string ouPolicyResult"
  rp_Restricted :: "bool ouPolicyResult"
  rp_Quota :: "ouRunQuota ouPolicyResult"
  rp_TOTP :: "bool ouPolicyResult"
  rp_Passkey :: "bool ouPolicyResult"
  rp_Require2FA :: "bool ouPolicyResult"
  rp_ForecastScope :: "string ouPolicyResult"
  rp_ExportAllowed :: "bool ouPolicyResult"
  rp_ExportMax :: "int ouPolicyResult"
  rp_ExportQuota :: "int ouPolicyResult"

definition scopeAll :: string where [go_const]: "scopeAll = ''all''"
definition scopeOwn :: string where [go_const]: "scopeOwn = ''own''"
definition scopeNone :: string where [go_const]: "scopeNone = ''none''"

definition known_scope :: "string \<Rightarrow> bool" where
  "known_scope v \<longleftrightarrow> v = scopeAll \<or> v = scopeOwn \<or> v = scopeNone"

definition defaultExportMaxReports :: int where "defaultExportMaxReports = 200"
definition defaultExportDailyQuota :: int where "defaultExportDailyQuota = 1000"

definition resolve_chain :: "ouPolicySnapshot \<Rightarrow> int list \<Rightarrow> ouResolvedPolicies" where
  "resolve_chain s chain =
     (let scope = nearestOUPolicy chain scopeNone (\<lambda>u. pv_scope (values_of s u)) in
      \<lparr>rp_Weight = nearestOUPolicy chain 0 (\<lambda>u. pv_weight (values_of s u)),
       rp_UrgentUnlimited = nearestOUPolicy chain False (\<lambda>u. pv_urgent (values_of s u)),
       rp_AllowUrgent = nearestOUPolicy chain True (\<lambda>u. pv_allowUrgent (values_of s u)),
       rp_MaxQueued = nearestOUPolicy chain 0 (\<lambda>u. pv_maxQueued (values_of s u)),
       rp_RunWindow = nearestOUPolicy chain [] (\<lambda>u. pv_runWindow (values_of s u)),
       rp_Restricted = stickyOUPolicy chain (\<lambda>u. pv_restricted (values_of s u)),
       rp_Quota = nearestOUPolicy chain \<lparr>rq_Limit = 0, rq_Period = QuotaDay\<rparr> (\<lambda>u. pv_quota (values_of s u)),
       rp_TOTP = nearestOUPolicy chain True (\<lambda>u. pv_totp (values_of s u)),
       rp_Passkey = nearestOUPolicy chain True (\<lambda>u. pv_passkey (values_of s u)),
       rp_Require2FA = stickyOUPolicy chain (\<lambda>u. pv_require2FA (values_of s u)),
       rp_ForecastScope = (if known_scope (op_Effective scope) then scope else scope\<lparr>op_Effective := scopeNone\<rparr>),
       rp_ExportAllowed = nearestOUPolicy chain False (\<lambda>u. pv_exportAllowed (values_of s u)),
       rp_ExportMax = nearestOUPolicy chain defaultExportMaxReports (\<lambda>u. pv_exportMax (values_of s u)),
       rp_ExportQuota = nearestOUPolicy chain defaultExportDailyQuota (\<lambda>u. pv_exportDailyQuota (values_of s u))\<rparr>)"

definition resolve :: "ouPolicySnapshot \<Rightarrow> int \<Rightarrow> ouErr + ouResolvedPolicies" where
  "resolve s leaf =
     (case policyChain (sn_graph s) leaf of
        Inl e \<Rightarrow> Inl e
      | Inr chain \<Rightarrow> if chain = [] then Inl DanglingErr else Inr (resolve_chain s chain))"

record GroupSettings =
  gs_Weight :: int
  gs_UrgentUnlimited :: bool
  gs_AllowUrgent :: bool
  gs_MaxQueued :: int
  gs_RunWindow :: string
  gs_Restricted :: bool
  gs_DailyRunQuota :: int
  gs_QuotaPeriod :: string

definition governance :: "ouResolvedPolicies \<Rightarrow> GroupSettings" where
  "governance p = \<lparr>gs_Weight = op_Effective (rp_Weight p), gs_UrgentUnlimited = op_Effective (rp_UrgentUnlimited p),
     gs_AllowUrgent = op_Effective (rp_AllowUrgent p), gs_MaxQueued = op_Effective (rp_MaxQueued p),
     gs_RunWindow = op_Effective (rp_RunWindow p), gs_Restricted = op_Effective (rp_Restricted p),
     gs_DailyRunQuota = rq_Limit (op_Effective (rp_Quota p)), gs_QuotaPeriod = rq_Period (op_Effective (rp_Quota p))\<rparr>"

record SecuritySettings =
  ss_TOTPAllowed :: bool
  ss_PasskeyAllowed :: bool
  ss_Require2FA :: bool

definition security :: "ouResolvedPolicies \<Rightarrow> SecuritySettings" where
  "security p = \<lparr>ss_TOTPAllowed = op_Effective (rp_TOTP p), ss_PasskeyAllowed = op_Effective (rp_Passkey p),
     ss_Require2FA = op_Effective (rp_Require2FA p)\<rparr>"

section \<open>Accounts\<close>

record userRow =
  us_username :: string
  us_role :: string
  us_group :: int
  us_restricted :: bool
  us_active :: bool
  us_created :: string

record ouSubject =
  sb_Username :: string
  sb_AssignedOU :: int
  sb_EffectiveOU :: int
  sb_Role :: string
  sb_Restricted :: bool
  sb_Active :: bool
  sb_Created :: string

datatype subjErr = NoSuchUser | TreeErr ouErr | DbErr

definition find_user :: "userRow list \<Rightarrow> string \<Rightarrow> userRow option" where
  "find_user users name = find (\<lambda>u. us_username u = name) users"

definition loadOUPolicySubject :: "userRow list \<Rightarrow> ouGroupRow list \<Rightarrow> string \<Rightarrow> subjErr + (ouSubject \<times> ouPolicySnapshot)" where
  "loadOUPolicySubject users rows name =
     (case find_user users name of
        None \<Rightarrow> Inl NoSuchUser
      | Some u \<Rightarrow>
          (let snap = loadOUPolicySnapshot rows in
           Inr (\<lparr>sb_Username = us_username u, sb_AssignedOU = us_group u,
                 sb_EffectiveOU = (if us_group u = 0 then g_defaultID (sn_graph snap) else us_group u),
                 sb_Role = us_role u, sb_Restricted = us_restricted u, sb_Active = us_active u,
                 sb_Created = us_created u\<rparr>, snap)))"

definition EffectiveGroupSettingsErr :: "userRow list \<Rightarrow> ouGroupRow list \<Rightarrow> string \<Rightarrow> subjErr + GroupSettings" where
  "EffectiveGroupSettingsErr users rows name =
     (case loadOUPolicySubject users rows name of
        Inl e \<Rightarrow> Inl e
      | Inr (sub, snap) \<Rightarrow> (case resolve snap (sb_EffectiveOU sub) of Inl e \<Rightarrow> Inl (TreeErr e) | Inr p \<Rightarrow> Inr (governance p)))"

text \<open>The value-only view: an unreadable policy answers a restricted account and nothing else.\<close>

definition EffectiveGroupSettings :: "userRow list \<Rightarrow> ouGroupRow list \<Rightarrow> string \<Rightarrow> GroupSettings" where
  "EffectiveGroupSettings users rows name =
     (case EffectiveGroupSettingsErr users rows name of
        Inr g \<Rightarrow> g
      | Inl _ \<Rightarrow> \<lparr>gs_Weight = 0, gs_UrgentUnlimited = False, gs_AllowUrgent = False, gs_MaxQueued = 0,
                   gs_RunWindow = [], gs_Restricted = True, gs_DailyRunQuota = 0, gs_QuotaPeriod = []\<rparr>)"

section \<open>What resolution promises\<close>

lemma policyChain_cases:
  "policyChain g leaf = Inr chain \<Longrightarrow>
   (\<exists>xs. actualChain g leaf = Inr xs \<and> (chain = xs \<or> chain = xs @ [g_defaultID g]))"
  by (auto simp: policyChain_def split: sum.splits if_splits)

text \<open>The policy chain of an ancestor is a suffix of the chain of everything below it.\<close>

lemma policyChain_suffix:
  assumes "policyChain g leaf = Inr chain" "a \<in> set chain" "a \<noteq> g_defaultID g"
  shows "\<exists>ps qs. chain = ps @ qs \<and> policyChain g a = Inr qs \<and> qs \<noteq> []"
proof -
  obtain xs where xs: "actualChain g leaf = Inr xs" "chain = xs \<or> chain = xs @ [g_defaultID g]"
    using policyChain_cases [OF assms(1)] by blast
  then have "a \<in> set xs" using assms(2,3) by auto
  then obtain ps qs where q: "xs = ps @ qs" "ou_path (g_nodes g) a qs" "qs \<noteq> []"
    using ou_path_member xs(1) by (metis actualChain_path)
  have ac: "actualChain g a = Inr qs" using q xs(1) by (auto simp: actualChain_path)
  have "last xs = last qs" using q by simp
  then have "policyChain g a = Inr (if last xs \<noteq> g_defaultID g then qs @ [g_defaultID g] else qs)"
    using ac q(3) by (simp add: policyChain_def)
  moreover have "chain = (if last xs \<noteq> g_defaultID g then xs @ [g_defaultID g] else xs)"
    using assms(1) xs(1) q by (auto simp: policyChain_def split: if_splits)
  ultimately show ?thesis using q by auto
qed

lemma resolve_okD:
  assumes "resolve s leaf = Inr p"
  obtains chain where "policyChain (sn_graph s) leaf = Inr chain" "chain \<noteq> []" "p = resolve_chain s chain"
  using assms by (auto simp: resolve_def split: sum.splits if_splits)

lemma resolve_restricted:
  "resolve s leaf = Inr p \<Longrightarrow> policyChain (sn_graph s) leaf = Inr chain \<Longrightarrow>
   op_Effective (rp_Restricted p) = (\<exists>u\<in>set chain. pv_restricted (values_of s u) = Some True)"
  by (erule resolve_okD) (simp add: resolve_chain_def Let_def sticky_effective)

lemma resolve_require2FA:
  "resolve s leaf = Inr p \<Longrightarrow> policyChain (sn_graph s) leaf = Inr chain \<Longrightarrow>
   op_Effective (rp_Require2FA p) = (\<exists>u\<in>set chain. pv_require2FA (values_of s u) = Some True)"
  by (erule resolve_okD) (simp add: resolve_chain_def Let_def sticky_effective)

text \<open>
  Restrictions and second-factor mandates are sticky: when both an OU and an ancestor on
  its policy chain resolve, whatever the ancestor is bound by (its own flag or one above it) also
  binds the OU, whatever the OU itself stores.
\<close>

theorem mandates_are_sticky:
  assumes "resolve s leaf = Inr p" "policyChain (sn_graph s) leaf = Inr chain" "a \<in> set chain"
    "a \<noteq> g_defaultID (sn_graph s)"
  shows "\<exists>pa. resolve s a = Inr pa \<and>
    (op_Effective (rp_Restricted pa) \<longrightarrow> op_Effective (rp_Restricted p)) \<and>
    (op_Effective (rp_Require2FA pa) \<longrightarrow> op_Effective (rp_Require2FA p))"
proof -
  obtain ps qs where q: "chain = ps @ qs" "policyChain (sn_graph s) a = Inr qs" "qs \<noteq> []"
    using policyChain_suffix [OF assms(2-4)] by blast
  then have ra: "resolve s a = Inr (resolve_chain s qs)" by (simp add: resolve_def)
  show ?thesis
    using resolve_restricted [OF ra q(2)] resolve_restricted [OF assms(1,2)]
      resolve_require2FA [OF ra q(2)] resolve_require2FA [OF assms(1,2)] q(1) ra by auto
qed

definition demo_rows :: "ouGroupRow list" where
  "demo_rows = map (\<lambda>(u, n). (u, n, if u = 3 then empty_values\<lparr>pv_restricted := Some True, pv_scope := Some ''own''\<rparr>
     else if u = 4 then empty_values\<lparr>pv_restricted := Some False\<rparr> else empty_values)) demo_nodes"

lemma demo_policy_chain: "policyChain (sn_graph (loadOUPolicySnapshot demo_rows)) 4 = Inr [4, 3, 1]"
  "g_defaultID (sn_graph (loadOUPolicySnapshot demo_rows)) = 1"
  by code_simp+

lemma mandates_are_sticky_witness:
  "\<exists>p. resolve (loadOUPolicySnapshot demo_rows) 4 = Inr p \<and> op_Own (rp_Restricted p) = Some False \<and>
     op_Effective (rp_Restricted p)"
proof -
  let ?s = "loadOUPolicySnapshot demo_rows"
  have r4: "resolve ?s 4 = Inr (resolve_chain ?s [4, 3, 1])" by (simp add: resolve_def demo_policy_chain)
  have "policyChain (sn_graph ?s) 3 = Inr [3, 1]" by code_simp
  then have r3: "resolve ?s 3 = Inr (resolve_chain ?s [3, 1])" by (simp add: resolve_def)
  have e: "op_Effective (rp_Restricted (resolve_chain ?s [3, 1]))"
    "op_Own (rp_Restricted (resolve_chain ?s [4, 3, 1])) = Some False" by code_simp+
  show ?thesis
    using mandates_are_sticky [OF r4 demo_policy_chain(1), of 3] demo_policy_chain(2) r3 r4 e by auto
qed

end
