(* ===== verification/Access.thy ===== *)
theory Access
  imports OU_Policy "HOL-Library.Product_Lexorder"
begin

text \<open>
  Who may read what: roles (roles.go), the forecast scope of a reader (ou_index.go, forecast_access.go,
  forecast_groups_metadata.go, forecast_refusal.go) and the report scope of an external reader
  (ou_report_scope.go, ou_version_grants.go, report_owner.go). A SQL fragment with its arguments is the
  predicate it evaluates to; SHA-256 of the population key is an argument.
\<close>

section \<open>Roles\<close>

definition PermManage :: string where [go_const]: "PermManage = ''manage''"
definition PermRunBatch :: string where [go_const]: "PermRunBatch = ''run_batch''"
definition PermEditReport :: string where [go_const]: "PermEditReport = ''report_edit''"

definition roleRegistry :: "(string \<times> string list) list" where
  "roleRegistry = [(''admin'', [PermManage, PermRunBatch, PermEditReport]), (''operator'', [PermRunBatch]),
     (''editor'', [PermEditReport]), (''user'', [])]"

definition roleByCode :: "string \<Rightarrow> string list option" where
  "roleByCode code = map_of roleRegistry code"

definition validRole :: "string \<Rightarrow> string" where
  "validRole code = (if roleByCode code \<noteq> None then code else ''user'')"

definition can :: "string \<Rightarrow> string \<Rightarrow> bool" where
  "can role perm = (case roleByCode role of Some ps \<Rightarrow> perm \<in> set ps | None \<Rightarrow> False)"

lemma only_admin_manages: "can role PermManage \<longleftrightarrow> role = ''admin''"
  by (auto simp: can_def roleByCode_def roleRegistry_def go_const)

section \<open>The forecast index\<close>

record ouRow =
  or_parent :: int
  or_restricted :: bool
  or_scope :: "string option"

record ouIndex =
  ix_defaultID :: int
  ix_ous :: "(int \<times> ouRow) list"
  ix_topology :: "ouGraph option"

definition loadOUIndex :: "ouGroupRow list \<Rightarrow> ouIndex" where
  "loadOUIndex rows =
     (let s = loadOUPolicySnapshot rows in
      \<lparr>ix_defaultID = g_defaultID (sn_graph s),
       ix_ous = map (\<lambda>(u, n). (u, \<lparr>or_parent = nd_parent n,
          or_restricted = (pv_restricted (values_of s u) = Some True), or_scope = pv_scope (values_of s u)\<rparr>))
         (g_nodes (sn_graph s)),
       ix_topology = Some (sn_graph s)\<rparr>)"

definition ix_graph :: "ouIndex \<Rightarrow> ouGraph" where
  "ix_graph ix = (case ix_topology ix of Some g \<Rightarrow> g
     | None \<Rightarrow> newOUGraph (map (\<lambda>(u, r). (u, \<lparr>nd_parent = or_parent r, nd_isDefault = (u = ix_defaultID ix),
         nd_name = [], nd_description = [], nd_created = []\<rparr>)) (ix_ous ix)))"

definition ix_chain :: "ouIndex \<Rightarrow> int \<Rightarrow> ouErr + int list" where
  "ix_chain ix leaf = policyChain (ix_graph ix) leaf"

definition ix_row :: "ouIndex \<Rightarrow> int \<Rightarrow> ouRow" where
  "ix_row ix u = (case map_of (ix_ous ix) u of Some r \<Rightarrow> r
     | None \<Rightarrow> \<lparr>or_parent = 0, or_restricted = False, or_scope = None\<rparr>)"

definition ix_restrictedEffective :: "ouIndex \<Rightarrow> int \<Rightarrow> ouErr + bool" where
  "ix_restrictedEffective ix u =
     (case ix_chain ix u of Inl e \<Rightarrow> Inl e | Inr us \<Rightarrow> Inr (list_ex (\<lambda>i. or_restricted (ix_row ix i)) us))"

definition ix_subtree :: "ouIndex \<Rightarrow> int \<Rightarrow> int list" where
  "ix_subtree ix root = (case subtree (ix_graph ix) root of Some (Inr us) \<Rightarrow> us | _ \<Rightarrow> [])"

text \<open>The nearest stored scope; a value outside the vocabulary, or none at all, reads as \<open>none\<close>.\<close>

definition ix_effectiveScope :: "ouIndex \<Rightarrow> int \<Rightarrow> ouErr + string" where
  "ix_effectiveScope ix u =
     (case ix_chain ix u of
        Inl e \<Rightarrow> Inl e
      | Inr us \<Rightarrow> (case find (\<lambda>i. or_scope (ix_row ix i) \<noteq> None) us of
          None \<Rightarrow> Inr scopeNone
        | Some i \<Rightarrow> (let v = the (or_scope (ix_row ix i)) in Inr (if known_scope v then v else scopeNone))))"

section \<open>The forecast decision\<close>

record forecastSubject =
  fj_User :: string
  fj_Admin :: bool
  fj_RestrictedAccount :: bool
  fj_GroupID :: int

record forecastDecision =
  dc_Scope :: string
  dc_External :: bool
  dc_Leaf :: int
  dc_Subtree :: "int list"
  dc_Source :: int
  dc_Reason :: string

definition loadForecastSubject :: "userRow list \<Rightarrow> ouGroupRow list \<Rightarrow> string \<Rightarrow> (forecastSubject \<times> ouIndex) option" where
  "loadForecastSubject users rows user =
     (case find_user users user of
        None \<Rightarrow> None
      | Some u \<Rightarrow>
          (if \<not> us_active u then None
           else Some (\<lparr>fj_User = user, fj_Admin = can (us_role u) PermManage,
                       fj_RestrictedAccount = us_restricted u, fj_GroupID = us_group u\<rparr>, loadOUIndex rows)))"

definition deny :: "string \<Rightarrow> forecastDecision" where
  "deny reason = \<lparr>dc_Scope = scopeNone, dc_External = False, dc_Leaf = 0, dc_Subtree = [], dc_Source = 0,
     dc_Reason = reason\<rparr>"

definition decide_on_chain :: "ouIndex \<Rightarrow> int \<Rightarrow> bool \<Rightarrow> int list \<Rightarrow> forecastDecision" where
  "decide_on_chain ix leaf restricted chain =
     (let external = restricted \<or> list_ex (\<lambda>i. or_restricted (ix_row ix i)) chain in
      case find (\<lambda>i. or_scope (ix_row ix i) \<noteq> None) chain of
        None \<Rightarrow> \<lparr>dc_Scope = scopeNone, dc_External = external, dc_Leaf = leaf, dc_Subtree = [], dc_Source = 0,
                 dc_Reason = ''default_null''\<rparr>
      | Some i \<Rightarrow>
          (let v = the (or_scope (ix_row ix i)) in
           if known_scope v
           then \<lparr>dc_Scope = v, dc_External = external, dc_Leaf = leaf,
                 dc_Subtree = (if v = scopeOwn then ix_subtree ix leaf else []), dc_Source = i, dc_Reason = ''ou''\<rparr>
           else deny ''unknown_value''))"

definition resolveForecastScope :: "forecastSubject \<Rightarrow> ouIndex \<Rightarrow> forecastDecision" where
  "resolveForecastScope sub ix =
     (if fj_User sub = [] then deny ''anonymous''
      else if fj_Admin sub then (deny ''admin'')\<lparr>dc_Scope := scopeAll\<rparr>
      else (let leaf = (if fj_GroupID sub = 0 then ix_defaultID ix else fj_GroupID sub) in
        if map_of (ix_ous ix) leaf = None then deny ''dangling_group''
        else (case ix_chain ix leaf of
                Inl CyclicErr \<Rightarrow> deny ''cyclic_chain''
              | Inl _ \<Rightarrow> deny ''dangling_group''
              | Inr chain \<Rightarrow>
                  (if list_ex (\<lambda>i. map_of (ix_ous ix) i = None) chain then deny ''dangling_group''
                   else decide_on_chain ix leaf (fj_RestrictedAccount sub) chain))))"

definition forecastAccess :: "userRow list \<Rightarrow> ouGroupRow list \<Rightarrow> string \<Rightarrow> forecastDecision" where
  "forecastAccess users rows user =
     (if user = [] then deny ''anonymous''
      else (case loadForecastSubject users rows user of
              None \<Rightarrow> deny ''error'' | Some (sub, ix) \<Rightarrow> resolveForecastScope sub ix))"

record forecastCapabilities =
  fc_Monthly :: bool
  fc_Custom :: bool
  fc_Members :: bool

definition forecastCapabilitiesFor :: "forecastDecision \<Rightarrow> forecastCapabilities" where
  "forecastCapabilitiesFor d =
     (let allowed = (dc_Scope d = scopeAll \<or> dc_Scope d = scopeOwn) in
      \<lparr>fc_Monthly = allowed, fc_Custom = (allowed \<and> \<not> dc_External d), fc_Members = allowed\<rparr>)"

definition forecastRefusalReason :: "forecastDecision \<Rightarrow> string" where
  "forecastRefusalReason d = (if dc_Reason d = ''ou'' then ''ou_none'' else dc_Reason d)"

text \<open>The gate of a forecast request: the code of a refusal, or the decision.\<close>

definition requireForecastAccess :: "forecastDecision \<Rightarrow> bool \<Rightarrow> string + forecastDecision" where
  "requireForecastAccess d custom =
     (let caps = forecastCapabilitiesFor d in
      if \<not> fc_Monthly caps then Inl ''forecast_unavailable''
      else if \<not> fc_Custom caps \<and> custom then Inl ''forecast_custom_not_allowed''
      else Inr d)"

text \<open>\<open>None\<close> is the whole ledger (a nil slice), \<open>Some []\<close> an empty population.\<close>

record forecastPopulation =
  fp_Key :: string
  fp_OUs :: "int list option"

fun join_with :: "string \<Rightarrow> string list \<Rightarrow> string" where
  "join_with sep [] = []"
| "join_with sep [x] = x"
| "join_with sep (x # y # ys) = x @ sep @ join_with sep (y # ys)"

definition populationFor :: "(string \<Rightarrow> string) \<Rightarrow> forecastDecision \<Rightarrow> forecastPopulation" where
  "populationFor sha256hex d =
     (if dc_Scope d = scopeAll then \<lparr>fp_Key = ''all'', fp_OUs = None\<rparr>
      else (let us = sort (if dc_Scope d = scopeOwn then dc_Subtree d else []) in
        \<lparr>fp_Key = ''ou:'' @ sha256hex (join_with '','' (map itoa us)), fp_OUs = Some us\<rparr>))"

text \<open>The sets of a population: a set without an attributed OU belongs to the whole ledger only.\<close>

definition in_population :: "forecastPopulation \<Rightarrow> int option \<Rightarrow> bool" where
  "in_population pop ou = (case fp_OUs pop of None \<Rightarrow> True
     | Some us \<Rightarrow> (case ou of None \<Rightarrow> False | Some u \<Rightarrow> u \<in> set us))"

section \<open>The report scope of a reader\<close>

definition groupPrincipal :: "int \<Rightarrow> string" where "groupPrincipal u = ''g:'' @ itoa u"
definition userPrincipal :: "string \<Rightarrow> string" where "userPrincipal name = ''u:'' @ to_lower (trim_space name)"

definition VisibilityAll :: string where [go_const]: "VisibilityAll = ''all''"
definition VisibilityGroup :: string where [go_const]: "VisibilityGroup = ''group''"
definition VisibilityOwner :: string where [go_const]: "VisibilityOwner = ''owner''"

record versionRow =
  rv_name :: string
  rv_ord :: "int option"
  rv_visibility :: "string option"

text \<open>The tables one read transaction sees; a grant pairs a principal with a version.\<close>

record accessDb =
  db_users :: "userRow list"
  db_groups :: "ouGroupRow list"
  db_grants :: "(string \<times> string) list"
  db_versions :: "versionRow list"

definition version_ord :: "accessDb \<Rightarrow> string \<Rightarrow> int" where
  "version_ord db v = (case find (\<lambda>r. rv_name r = v) (db_versions db) of
     None \<Rightarrow> 0 | Some r \<Rightarrow> (case rv_ord r of None \<Rightarrow> 0 | Some n \<Rightarrow> n))"

definition granted_to :: "accessDb \<Rightarrow> string \<Rightarrow> string list" where
  "granted_to db pr =
     map snd (sort_key (\<lambda>(p, v). (version_ord db v, v)) (filter (\<lambda>(p, v). p = pr) (db_grants db)))"

definition grantedVersionsFrom :: "accessDb \<Rightarrow> ouSubject \<Rightarrow> ouPolicySnapshot \<Rightarrow> ouErr + string list" where
  "grantedVersionsFrom db sub snap =
     (case policyChain (sn_graph snap) (sb_EffectiveOU sub) of
        Inl e \<Rightarrow> Inl e
      | Inr chain \<Rightarrow>
          (let own = granted_to db (userPrincipal (sb_Username sub)) in
           Inr (if own \<noteq> [] then own
                else op_Effective (nearestOUPolicy chain [] (\<lambda>u.
                       let v = granted_to db (groupPrincipal u) in if v = [] then None else Some v)))))"

record ownerScope =
  os_denyAll :: bool
  os_self :: string
  os_principals :: "string list"
  os_versAll :: "string list"
  os_versGroup :: "string list"
  os_versOwner :: "string list"

definition deny_scope :: ownerScope where
  "deny_scope = \<lparr>os_denyAll = True, os_self = [], os_principals = [], os_versAll = [], os_versGroup = [], os_versOwner = []\<rparr>"

definition scope_principals :: "ouPolicySnapshot \<Rightarrow> string \<Rightarrow> int list \<Rightarrow> ouErr + string list" where
  "scope_principals snap self chain =
     (let d = g_defaultID (sn_graph snap) in
      foldr (\<lambda>u rest. if u = d then rest
               else (case resolve snap u of
                 Inl e \<Rightarrow> Inl e
               | Inr p \<Rightarrow> (if op_Effective (rp_Restricted p)
                           then map_sum (\<lambda>e. e) (\<lambda>ps. groupPrincipal u # ps) rest else rest)))
        chain (Inr []))"

definition visible_as :: "accessDb \<Rightarrow> string list \<Rightarrow> (string \<Rightarrow> bool) \<Rightarrow> string list" where
  "visible_as db versions want =
     map rv_name (filter (\<lambda>r. rv_name r \<in> set versions \<and>
       want (case rv_visibility r of None \<Rightarrow> VisibilityOwner | Some v \<Rightarrow> v)) (db_versions db))"

definition scoped_reader :: "accessDb \<Rightarrow> string \<Rightarrow> ouSubject \<Rightarrow> ouPolicySnapshot \<Rightarrow> ouErr + ownerScope" where
  "scoped_reader db user sub snap =
     (case policyChain (sn_graph snap) (sb_EffectiveOU sub) of
        Inl e \<Rightarrow> Inl e
      | Inr chain \<Rightarrow>
          (let self = userPrincipal user in
           case scope_principals snap self chain of
             Inl e \<Rightarrow> Inl e
           | Inr restricted \<Rightarrow>
               (case grantedVersionsFrom db sub snap of
                  Inl e \<Rightarrow> Inl e
                | Inr versions \<Rightarrow>
                    Inr \<lparr>os_denyAll = False, os_self = self,
                         os_principals = [self, groupPrincipal (g_defaultID (sn_graph snap))] @ restricted,
                         os_versAll = visible_as db versions (\<lambda>v. v = VisibilityAll),
                         os_versGroup = visible_as db versions (\<lambda>v. v = VisibilityGroup),
                         os_versOwner = visible_as db versions (\<lambda>v. v \<noteq> VisibilityAll \<and> v \<noteq> VisibilityGroup)\<rparr>)))"

definition viewerScopeSnapshot :: "accessDb \<Rightarrow> string \<Rightarrow> subjErr + ownerScope option" where
  "viewerScopeSnapshot db user =
     (case loadOUPolicySubject (db_users db) (db_groups db) user of
        Inl e \<Rightarrow> Inl e
      | Inr (sub, snap) \<Rightarrow>
          (if can (sb_Role sub) PermManage then Inr None
           else (case resolve snap (sb_EffectiveOU sub) of
             Inl e \<Rightarrow> Inl (TreeErr e)
           | Inr policies \<Rightarrow>
               (if \<not> sb_Restricted sub \<and> \<not> op_Effective (rp_Restricted policies) then Inr None
                else map_sum TreeErr Some (scoped_reader db user sub snap)))))"

definition viewerScope :: "accessDb \<Rightarrow> string \<Rightarrow> ownerScope option" where
  "viewerScope db user =
     (if user = [] then None
      else (case viewerScopeSnapshot db user of Inl _ \<Rightarrow> Some deny_scope | Inr sc \<Rightarrow> sc))"

text \<open>\<open>where\<close>: the disjunction of up to three IN-lists over a report's id and version.\<close>

definition scope_admits :: "ownerScope option \<Rightarrow> (int \<times> string) list \<Rightarrow> int \<Rightarrow> string \<Rightarrow> bool" where
  "scope_admits scope viewers rid ver =
     (case scope of
        None \<Rightarrow> True
      | Some sc \<Rightarrow>
          (if os_denyAll sc then False
           else ver \<in> set (os_versAll sc) \<or>
             (ver \<in> set (os_versGroup sc) \<and> list_ex (\<lambda>(r, p). r = rid \<and> p \<in> set (os_principals sc)) viewers) \<or>
             (ver \<in> set (os_versOwner sc) \<and> list_ex (\<lambda>(r, p). r = rid \<and> p = os_self sc) viewers)))"

section \<open>What the forecast decision promises\<close>

lemma known_scope_none [simp]: "known_scope scopeNone"
  by (simp add: known_scope_def)

lemma scope_distinct [simp]: "scopeAll \<noteq> scopeNone" "scopeOwn \<noteq> scopeNone" "scopeAll \<noteq> scopeOwn"
  "scopeNone \<noteq> scopeAll" "scopeNone \<noteq> scopeOwn" "scopeOwn \<noteq> scopeAll"
  by (simp_all add: go_const)

lemma find_split: "find P xs = Some x \<Longrightarrow> \<exists>ps qs. xs = ps @ x # qs \<and> P x \<and> (\<forall>y\<in>set ps. \<not> P y)"
  by (induction xs) (auto split: if_splits, metis append_Nil empty_iff list.set(1), metis append_Cons set_ConsD)

lemma decision_cases:
  assumes "dc_Scope (resolveForecastScope sub ix) \<noteq> scopeNone" "\<not> fj_Admin sub"
  obtains leaf chain where "leaf = (if fj_GroupID sub = 0 then ix_defaultID ix else fj_GroupID sub)"
    "ix_chain ix leaf = Inr chain" "resolveForecastScope sub ix = decide_on_chain ix leaf (fj_RestrictedAccount sub) chain"
  using assms by (auto simp: resolveForecastScope_def deny_def Let_def split: sum.splits ouErr.splits if_splits)

lemma decide_scope:
  assumes "dc_Scope (decide_on_chain ix leaf r chain) \<noteq> scopeNone"
  shows "\<exists>ps i qs. chain = ps @ i # qs \<and> (\<forall>j\<in>set ps. or_scope (ix_row ix j) = None) \<and>
    or_scope (ix_row ix i) = Some (dc_Scope (decide_on_chain ix leaf r chain)) \<and>
    known_scope (dc_Scope (decide_on_chain ix leaf r chain)) \<and>
    dc_Leaf (decide_on_chain ix leaf r chain) = leaf \<and>
    (dc_Scope (decide_on_chain ix leaf r chain) = scopeOwn \<longrightarrow>
       dc_Subtree (decide_on_chain ix leaf r chain) = ix_subtree ix leaf)"
proof (cases "find (\<lambda>i. or_scope (ix_row ix i) \<noteq> None) chain")
  case None
  then show ?thesis using assms by (simp add: decide_on_chain_def Let_def)
next
  case (Some i)
  obtain ps qs where s: "chain = ps @ i # qs" "or_scope (ix_row ix i) \<noteq> None"
    "\<forall>j\<in>set ps. \<not> or_scope (ix_row ix j) \<noteq> None" using find_split [OF Some] by blast
  then obtain v where v: "or_scope (ix_row ix i) = Some v" by blast
  then have k: "known_scope v" using assms Some by (auto simp: decide_on_chain_def Let_def deny_def split: if_splits)
  have d: "dc_Scope (decide_on_chain ix leaf r chain) = v" "dc_Leaf (decide_on_chain ix leaf r chain) = leaf"
    "dc_Subtree (decide_on_chain ix leaf r chain) = (if v = scopeOwn then ix_subtree ix leaf else [])"
    using Some v k by (simp_all add: decide_on_chain_def Let_def)
  show ?thesis unfolding d using s v k by auto
qed

lemma map_of_map_snd: "map_of (map (\<lambda>(u, n). (u, f u n)) xs) j = map_option (f j) (map_of xs j)"
  by (induction xs) auto

lemma ix_row_scope: "or_scope (ix_row (loadOUIndex rows) j) = pv_scope (values_of (loadOUPolicySnapshot rows) j)"
proof -
  let ?s = "loadOUPolicySnapshot rows"
  have n: "g_nodes (sn_graph ?s) = map (\<lambda>(u, n, v). (u, n)) rows" by (simp add: loadOUPolicySnapshot_def)
  have "map_of (g_nodes (sn_graph ?s)) j = None \<Longrightarrow> map_of (sn_values ?s) j = None"
    unfolding n by (force simp: loadOUPolicySnapshot_def map_of_eq_None_iff)
  then have "map_of (g_nodes (sn_graph ?s)) j = None \<Longrightarrow> pv_scope (values_of ?s j) = None"
    by (simp add: values_of_def empty_values_def)
  then show ?thesis
    by (cases "map_of (g_nodes (sn_graph ?s)) j") (simp_all add: ix_row_def loadOUIndex_def Let_def map_of_map_snd)
qed

lemma loadOUIndex_simps [simp]:
  "ix_graph (loadOUIndex rows) = sn_graph (loadOUPolicySnapshot rows)"
  "ix_defaultID (loadOUIndex rows) = g_defaultID (sn_graph (loadOUPolicySnapshot rows))"
  by (simp_all add: ix_graph_def loadOUIndex_def Let_def)

definition own_ou :: "ouGroupRow list \<Rightarrow> userRow \<Rightarrow> int" where
  "own_ou rows u = (if us_group u = 0 then g_defaultID (sn_graph (loadOUPolicySnapshot rows)) else us_group u)"

definition stored_scope :: "ouGroupRow list \<Rightarrow> int \<Rightarrow> string option" where
  "stored_scope rows u = pv_scope (values_of (loadOUPolicySnapshot rows) u)"

lemma populationFor_member:
  "in_population (populationFor h d) ou \<Longrightarrow>
   dc_Scope d = scopeAll \<or> (dc_Scope d = scopeOwn \<and> (\<exists>x. ou = Some x \<and> x \<in> set (dc_Subtree d)))"
  by (auto simp: populationFor_def in_population_def Let_def split: if_splits option.splits)

lemma ix_subtree_descends:
  assumes "wf_nodes (map (\<lambda>(u, n, v). (u, n)) rows)" "x \<in> set (ix_subtree (loadOUIndex rows) root)" "root \<noteq> 0"
  shows "descends (sn_graph (loadOUPolicySnapshot rows)) root x"
proof -
  let ?g = "newOUGraph (map (\<lambda>(u, n, v). (u, n)) rows)"
  have g: "sn_graph (loadOUPolicySnapshot rows) = ?g" by (simp add: loadOUPolicySnapshot_def)
  obtain us where "subtree ?g root = Some (Inr us)" "x \<in> set us"
    using assms(2) unfolding ix_subtree_def loadOUIndex_simps g
    by (cases "subtree ?g root") (auto split: sum.splits)
  then show ?thesis using subtree_descends [OF assms(1,3)] by (simp add: g)
qed

lemma known_index_positive: "map_of (ix_ous (loadOUIndex rows)) leaf \<noteq> None \<Longrightarrow>
  wf_nodes (map (\<lambda>(u, n, v). (u, n)) rows) \<Longrightarrow> leaf \<noteq> 0"
  by (force simp: loadOUIndex_def Let_def map_of_map_snd loadOUPolicySnapshot_def wf_nodes_def list_all_iff
      dest!: map_of_SomeD)

text \<open>
  A forecast reader's population is bounded by the tree. When a set attributed to \<open>ou\<close> (or
  to nobody) is in the population of a reader, the reader is an active account that is an administrator,
  or the nearest OU on the reader's policy chain that stores a scope stores \<open>all\<close>, or it stores \<open>own\<close>
  and \<open>ou\<close> is the reader's own OU or below it. A broken chain, an unknown stored value, an inactive or
  unknown account therefore reads nothing.
\<close>

theorem forecast_population_bounded:
  assumes "in_population (populationFor h (forecastAccess users rows user)) ou"
    and "wf_nodes (map (\<lambda>(u, n, v). (u, n)) rows)"
  shows "\<exists>u. find_user users user = Some u \<and> us_active u \<and> (can (us_role u) PermManage \<or>
    (\<exists>ps i qs. policyChain (sn_graph (loadOUPolicySnapshot rows)) (own_ou rows u) = Inr (ps @ i # qs) \<and>
       (\<forall>j\<in>set ps. stored_scope rows j = None) \<and>
       (stored_scope rows i = Some scopeAll \<or> (stored_scope rows i = Some scopeOwn \<and>
         (\<exists>x. ou = Some x \<and> descends (sn_graph (loadOUPolicySnapshot rows)) (own_ou rows u) x)))))"
proof -
  let ?d = "forecastAccess users rows user"
  note pop = populationFor_member [OF assms(1)]
  then have "dc_Scope ?d \<noteq> scopeNone" by auto
  then obtain u where u: "find_user users user = Some u" "us_active u" "user \<noteq> []"
    and d: "?d = resolveForecastScope \<lparr>fj_User = user, fj_Admin = can (us_role u) PermManage,
      fj_RestrictedAccount = us_restricted u, fj_GroupID = us_group u\<rparr> (loadOUIndex rows)"
    by (auto simp: forecastAccess_def loadForecastSubject_def deny_def split: if_splits option.splits)
  show ?thesis
  proof (cases "can (us_role u) PermManage")
    case True
    then show ?thesis using u by blast
  next
    case False
    let ?ix = "loadOUIndex rows" and ?leaf = "own_ou rows u"
    obtain chain where c: "ix_chain ?ix ?leaf = Inr chain" "?d = decide_on_chain ?ix ?leaf (us_restricted u) chain"
      "map_of (ix_ous ?ix) ?leaf \<noteq> None"
      using \<open>dc_Scope ?d \<noteq> scopeNone\<close> False u(3) unfolding d
      by (auto simp: resolveForecastScope_def deny_def Let_def own_ou_def split: sum.splits ouErr.splits if_splits)
    obtain ps i qs where s: "chain = ps @ i # qs" "\<forall>j\<in>set ps. or_scope (ix_row ?ix j) = None"
      "or_scope (ix_row ?ix i) = Some (dc_Scope ?d)"
      "dc_Scope ?d = scopeOwn \<longrightarrow> dc_Subtree ?d = ix_subtree ?ix ?leaf"
      using decide_scope [of ?ix ?leaf "us_restricted u" chain] \<open>dc_Scope ?d \<noteq> scopeNone\<close> c(2) by auto
    have sub: "descends (sn_graph (loadOUPolicySnapshot rows)) ?leaf x" if "x \<in> set (dc_Subtree ?d)" "dc_Scope ?d = scopeOwn" for x
      using ix_subtree_descends [OF assms(2)] known_index_positive [OF c(3) assms(2)] s(4) that by simp
    have "policyChain (sn_graph (loadOUPolicySnapshot rows)) ?leaf = Inr (ps @ i # qs)"
      using c(1) s(1) by (simp add: ix_chain_def)
    moreover have "\<forall>j\<in>set ps. stored_scope rows j = None" "stored_scope rows i = Some (dc_Scope ?d)"
      using s(2,3) by (simp_all add: stored_scope_def ix_row_scope)
    ultimately show ?thesis using pop sub u by fastforce
  qed
qed

definition demo_user :: "string \<Rightarrow> int \<Rightarrow> userRow" where
  "demo_user name ou = \<lparr>us_username = name, us_role = ''user'', us_group = ou, us_restricted = False,
     us_active = True, us_created = []\<rparr>"

lemma forecast_population_bounded_witness:
  "descends (newOUGraph demo_nodes) 4 4 \<and> \<not> can ''user'' PermManage"
proof -
  let ?us = "[demo_user ''ann'' 4]"
  have i: "in_population (populationFor (\<lambda>b. b) (forecastAccess ?us demo_rows ''ann'')) (Some 4)" by code_simp
  have w: "wf_nodes (map (\<lambda>(u, n, v). (u, n)) demo_rows)" by code_simp
  have f: "find_user ?us ''ann'' = Some (demo_user ''ann'' 4)" by (simp add: find_user_def demo_user_def)
  have c: "\<not> can ''user'' PermManage" by code_simp
  have l: "own_ou demo_rows (demo_user ''ann'' 4) = 4" by (simp add: own_ou_def demo_user_def)
  have "stored_scope demo_rows j \<noteq> Some scopeAll" for j
  proof -
    have "stored_scope demo_rows j = (if j = 3 then Some ''own'' else None)"
      by (simp add: stored_scope_def values_of_def demo_rows_def loadOUPolicySnapshot_def demo_nodes_def empty_values_def)
    then show ?thesis by (simp add: go_const)
  qed
  moreover have "sn_graph (loadOUPolicySnapshot demo_rows) = newOUGraph demo_nodes"
    by (simp add: loadOUPolicySnapshot_def demo_rows_def demo_nodes_def)
  ultimately show ?thesis
    using forecast_population_bounded [OF i w] f c l by (auto simp: demo_user_def)
qed

section \<open>What a report scope promises\<close>

lemma scope_principals_restricted:
  "scope_principals snap self chain = Inr ps \<Longrightarrow> pr \<in> set ps \<Longrightarrow>
   \<exists>u\<in>set chain. \<exists>q. pr = groupPrincipal u \<and> u \<noteq> g_defaultID (sn_graph snap) \<and> resolve snap u = Inr q \<and>
     op_Effective (rp_Restricted q)"
proof (induction chain arbitrary: ps)
  case Nil
  then show ?case by (simp add: scope_principals_def Let_def)
next
  case (Cons u us)
  show ?case
  proof (cases "u = g_defaultID (sn_graph snap)")
    case True
    then have "scope_principals snap self us = Inr ps" using Cons.prems(1) by (simp add: scope_principals_def Let_def)
    then show ?thesis using Cons.IH Cons.prems(2) by auto
  next
    case False
    then obtain q where q: "resolve snap u = Inr q"
      using Cons.prems(1) by (auto simp: scope_principals_def Let_def split: sum.splits)
    show ?thesis
    proof (cases "op_Effective (rp_Restricted q)")
      case True
      then obtain rest where "scope_principals snap self us = Inr rest" "ps = groupPrincipal u # rest"
        using Cons.prems(1) False q
        by (cases "scope_principals snap self us") (auto simp: scope_principals_def Let_def)
      then show ?thesis using Cons.IH [of rest] Cons.prems(2) False q True by auto
    next
      case nr: False
      then have "scope_principals snap self us = Inr ps" using Cons.prems(1) False q by (simp add: scope_principals_def Let_def)
      then show ?thesis using Cons.IH Cons.prems(2) by auto
    qed
  qed
qed

lemma visible_as_granted: "v \<in> set (visible_as db versions want) \<Longrightarrow> v \<in> set versions"
  by (auto simp: visible_as_def)

lemma scoped_reader_parts:
  assumes "scoped_reader db user sub snap = Inr sc"
  obtains chain restricted versions where "policyChain (sn_graph snap) (sb_EffectiveOU sub) = Inr chain"
    "scope_principals snap (userPrincipal user) chain = Inr restricted" "grantedVersionsFrom db sub snap = Inr versions"
    "os_denyAll sc = False" "os_self sc = userPrincipal user"
    "os_principals sc = [userPrincipal user, groupPrincipal (g_defaultID (sn_graph snap))] @ restricted"
    "os_versAll sc = visible_as db versions (\<lambda>v. v = VisibilityAll)"
    "os_versGroup sc = visible_as db versions (\<lambda>v. v = VisibilityGroup)"
    "os_versOwner sc = visible_as db versions (\<lambda>v. v \<noteq> VisibilityAll \<and> v \<noteq> VisibilityGroup)"
  using assms by (auto simp: scoped_reader_def Let_def split: sum.splits)

text \<open>A reader the portal does not scope: an administrator, or nobody restricted on the chain.\<close>

definition unscoped :: "ouSubject \<Rightarrow> ouPolicySnapshot \<Rightarrow> bool" where
  "unscoped sub snap \<longleftrightarrow> can (sb_Role sub) PermManage \<or>
     (\<not> sb_Restricted sub \<and>
      (case resolve snap (sb_EffectiveOU sub) of Inl _ \<Rightarrow> False | Inr p \<Rightarrow> \<not> op_Effective (rp_Restricted p)))"

text \<open>Who put the report within reach: nobody needs to for an open version, otherwise a viewer row for
  the reader, for the everyone principal, or for a restricted OU on the reader's chain.\<close>

definition shared_with :: "accessDb \<Rightarrow> string \<Rightarrow> ouSubject \<Rightarrow> ouPolicySnapshot \<Rightarrow> string \<Rightarrow> bool" where
  "shared_with db user sub snap pr \<longleftrightarrow>
     pr = userPrincipal user \<or> pr = groupPrincipal (g_defaultID (sn_graph snap)) \<or>
     (\<exists>chain q u. policyChain (sn_graph snap) (sb_EffectiveOU sub) = Inr chain \<and> u \<in> set chain \<and>
        pr = groupPrincipal u \<and> resolve snap u = Inr q \<and> op_Effective (rp_Restricted q))"

text \<open>
  Property C3. A report is shown to a signed-in browser reader only if its account could be read and the
  reader is unscoped (an administrator, or neither the account nor any OU of the chain is restricted), or
  the report's version is granted to the reader and either that version is open to all its grantees or a
  viewer row of this very report names the reader, everyone, or a restricted OU on the reader's chain.
  A failed read of the account, the tree or a policy therefore shows nothing.
\<close>

theorem report_read_needs_grant:
  assumes "scope_admits (viewerScope db user) viewers rid ver" "user \<noteq> []"
  shows "\<exists>sub snap. loadOUPolicySubject (db_users db) (db_groups db) user = Inr (sub, snap) \<and>
    (unscoped sub snap \<or>
     (\<exists>versions. grantedVersionsFrom db sub snap = Inr versions \<and> ver \<in> set versions \<and>
       (ver \<in> set (visible_as db versions (\<lambda>v. v = VisibilityAll)) \<or>
        (\<exists>pr. (rid, pr) \<in> set viewers \<and> shared_with db user sub snap pr))))"
proof -
  obtain res where res: "viewerScopeSnapshot db user = Inr res" and adm: "scope_admits res viewers rid ver"
    using assms by (auto simp: viewerScope_def scope_admits_def deny_scope_def split: sum.splits)
  obtain sub snap where l: "loadOUPolicySubject (db_users db) (db_groups db) user = Inr (sub, snap)"
    using res by (auto simp: viewerScopeSnapshot_def split: sum.splits)
  show ?thesis
  proof (cases res)
    case None
    then have "unscoped sub snap" using res l
      by (auto simp: viewerScopeSnapshot_def unscoped_def split: sum.splits if_splits)
        (auto simp: map_sum_def split: sum.splits)
    then show ?thesis using l by blast
  next
    case (Some sc)
    then have "scoped_reader db user sub snap = Inr sc" using res l
      by (auto simp: viewerScopeSnapshot_def split: sum.splits if_splits)
        (cases "scoped_reader db user sub snap"; auto)+
    then obtain chain restricted versions where sc: "policyChain (sn_graph snap) (sb_EffectiveOU sub) = Inr chain"
      "scope_principals snap (userPrincipal user) chain = Inr restricted" "grantedVersionsFrom db sub snap = Inr versions"
      "os_denyAll sc = False" "os_self sc = userPrincipal user"
      "os_principals sc = [userPrincipal user, groupPrincipal (g_defaultID (sn_graph snap))] @ restricted"
      "os_versAll sc = visible_as db versions (\<lambda>v. v = VisibilityAll)"
      "os_versGroup sc = visible_as db versions (\<lambda>v. v = VisibilityGroup)"
      "os_versOwner sc = visible_as db versions (\<lambda>v. v \<noteq> VisibilityAll \<and> v \<noteq> VisibilityGroup)"
      by (rule scoped_reader_parts)
    have shared: "shared_with db user sub snap pr" if "pr \<in> set (os_principals sc)" for pr
      using that scope_principals_restricted [OF sc(2), of pr] sc(1,6) by (auto simp: shared_with_def)
    have "ver \<in> set versions" using adm Some sc visible_as_granted by (auto simp: scope_admits_def)
    moreover have "ver \<in> set (visible_as db versions (\<lambda>v. v = VisibilityAll)) \<or>
        (\<exists>pr. (rid, pr) \<in> set viewers \<and> shared_with db user sub snap pr)"
      using adm Some sc shared by (auto simp: scope_admits_def list_ex_iff)
    ultimately show ?thesis using l sc(3) by blast
  qed
qed

definition demo_access :: accessDb where
  "demo_access = \<lparr>db_users = [demo_user ''ann'' 4], db_groups = demo_rows, db_grants = [(''g:3'', ''v1'')],
     db_versions = [\<lparr>rv_name = ''v1'', rv_ord = None, rv_visibility = Some ''group''\<rparr>]\<rparr>"

lemma report_read_needs_grant_witness:
  "\<exists>sub snap. loadOUPolicySubject (db_users demo_access) (db_groups demo_access) ''ann'' = Inr (sub, snap) \<and>
     (unscoped sub snap \<or> (\<exists>versions. grantedVersionsFrom demo_access sub snap = Inr versions \<and> ''v1'' \<in> set versions))"
proof -
  have "scope_admits (viewerScope demo_access ''ann'') [(7, ''g:4'')] 7 ''v1''" by code_simp
  from report_read_needs_grant [OF this] show ?thesis by blast
qed

end
