(* ===== verification/Batch_Engine.thy ===== *)
theory Batch_Engine
  imports Prelude
begin

text \<open>
  The batch engine (internal/batch): the outcome vocabulary and the provider contract (provider.go),
  one item with its retry policy (engine.go) and the declarative manifest provider (manifest.go). A
  provider is the list of its answers, one per call: \<open>prov k\<close> is the answer of call number k, an error
  with its retry classification or a result. The context is a predicate on call numbers: \<open>gone k\<close> says
  that \<open>ctx.Err()\<close> is set after call k. Waiting between calls is only a time and has no other effect.
\<close>

section \<open>Outcomes and errors (provider.go)\<close>

datatype Outcome = Failed | Partial | Ok | Untracked

definition Outcome_String :: "Outcome \<Rightarrow> string" where
  "Outcome_String o' = (case o' of Ok \<Rightarrow> ''ok'' | Partial \<Rightarrow> ''partial'' | Untracked \<Rightarrow> ''untracked'' | Failed \<Rightarrow> ''failed'')"

record RunResult =
  rr_RunID :: string
  rr_Status :: Outcome
  rr_Detail :: string
  rr_Raw :: string

text \<open>An error is its message and, when it has one, its answer to \<open>Transient()\<close>.\<close>

record runError =
  re_msg :: string
  re_transient :: "bool option"

definition transientErr :: "string \<Rightarrow> runError" where
  "transientErr msg = \<lparr>re_msg = msg, re_transient = Some True\<rparr>"

definition permanentErr :: "string \<Rightarrow> runError" where
  "permanentErr msg = \<lparr>re_msg = msg, re_transient = Some False\<rparr>"

definition IsTransient :: "runError \<Rightarrow> bool" where
  "IsTransient err = (case re_transient err of Some t \<Rightarrow> t | None \<Rightarrow> False)"

type_synonym provider = "nat \<Rightarrow> runError + RunResult"

section \<open>One item (engine.go)\<close>

definition failed_result :: "runError \<Rightarrow> RunResult" where
  "failed_result err = \<lparr>rr_RunID = [], rr_Status = Failed, rr_Detail = re_msg err, rr_Raw = []\<rparr>"

function run_attempts :: "provider \<Rightarrow> (nat \<Rightarrow> bool) \<Rightarrow> int \<Rightarrow> nat \<Rightarrow> RunResult \<times> nat" where
  "run_attempts prov gone maxRetries done =
     (let attempts = Suc done in
      case prov attempts of
        Inr res \<Rightarrow> (res, attempts)
      | Inl err \<Rightarrow>
          if IsTransient err \<and> int attempts \<le> maxRetries \<and> \<not> gone attempts
          then run_attempts prov gone maxRetries attempts
          else (failed_result err, attempts))"
  by pat_completeness auto
termination
  by (relation "measure (\<lambda>(_, _, maxRetries, done). nat (maxRetries - int done))") auto

declare run_attempts.simps [simp del]

definition RunItem :: "provider \<Rightarrow> (nat \<Rightarrow> bool) \<Rightarrow> int \<Rightarrow> RunResult \<times> nat" where
  "RunItem prov gone maxRetries = run_attempts prov gone maxRetries 0"

text \<open>The wait before a retry in nanoseconds: a shift of an \<open>int64\<close>, which wraps.\<close>

definition defaultBackoff :: "nat \<Rightarrow> int" where
  "defaultBackoff attempt =
     (let d = wrap64 (1000000000 * 2 ^ (attempt - 1))
      in if 30000000000 < d \<or> d \<le> 0 then 30000000000 else d)"

text \<open>What the attempts of an item satisfy: all but the last were retried for a reason.\<close>

definition retried :: "provider \<Rightarrow> (nat \<Rightarrow> bool) \<Rightarrow> nat \<Rightarrow> bool" where
  "retried prov gone k \<longleftrightarrow> (\<exists>err. prov k = Inl err \<and> IsTransient err) \<and> \<not> gone k"

lemma run_attempts_run:
  "run_attempts prov gone maxRetries done = (res, n) \<Longrightarrow>
   done < n \<and> int n \<le> max (int done) maxRetries + 1 \<and>
   (\<forall>k. done < k \<longrightarrow> k < n \<longrightarrow> retried prov gone k) \<and>
   (prov n = Inr res \<or>
    (\<exists>err. prov n = Inl err \<and> res = failed_result err \<and>
           (\<not> IsTransient err \<or> maxRetries < int n \<or> gone n)))"
proof (induction prov gone maxRetries "done" rule: run_attempts.induct)
  case (1 prov gone maxRetries "done")
  show ?case
  proof (cases "prov (Suc done)")
    case (Inr r)
    then show ?thesis using 1(2) by (auto simp: run_attempts.simps [of prov])
  next
    case (Inl err)
    show ?thesis
    proof (cases "IsTransient err \<and> int (Suc done) \<le> maxRetries \<and> \<not> gone (Suc done)")
      case True
      then have "run_attempts prov gone maxRetries (Suc done) = (res, n)"
        using 1(2) Inl by (simp add: run_attempts.simps [of _ _ _ "done"])
      note ih = 1(1) [OF refl Inl True this]
      have now: "retried prov gone (Suc done)" using Inl True by (simp add: retried_def)
      have "retried prov gone k" if "done < k" "k < n" for k
        using ih now Suc_lessI [OF that(1)] that(2) by (cases "Suc done = k") auto
      then show ?thesis using ih True by auto
    next
      case False
      then show ?thesis using 1(2) Inl by (auto simp: run_attempts.simps [of prov])
    qed
  qed
qed

text \<open>
  Only a transient transport error is retried: an item makes between one and
  maxRetries + 1 attempts, every attempt but the last answered a transient error with the context
  alive, a result with no error is final on the spot, and an item is failed only on an error that is
  permanent, out of retries or cancelled.
\<close>

theorem only_transient_errors_retried:
  assumes "RunItem prov gone maxRetries = (res, n)"
  shows "1 \<le> n \<and> int n \<le> max 0 maxRetries + 1 \<and>
    (\<forall>k \<in> {1 ..< n}. retried prov gone k) \<and>
    (prov n = Inr res \<or>
     (\<exists>err. prov n = Inl err \<and> res = failed_result err \<and>
            (\<not> IsTransient err \<or> maxRetries < int n \<or> gone n)))"
  using run_attempts_run [OF assms [unfolded RunItem_def]] by auto

definition demo_prov :: provider where
  "demo_prov k = (if k < 3 then Inl (transientErr ''timeout'')
     else Inr \<lparr>rr_RunID = ''r'', rr_Status = Ok, rr_Detail = [], rr_Raw = []\<rparr>)"

lemma demo_run: "RunItem demo_prov (\<lambda>_. False) 5
    = (\<lparr>rr_RunID = ''r'', rr_Status = Ok, rr_Detail = [], rr_Raw = []\<rparr>, 3)"
  by (simp add: RunItem_def run_attempts.simps demo_prov_def IsTransient_def transientErr_def)

lemma only_transient_errors_retried_witness:
  "retried demo_prov (\<lambda>_. False) 1 \<and> retried demo_prov (\<lambda>_. False) 2"
  using only_transient_errors_retried [OF demo_run] by simp

text \<open>
  The backoff never leaves its cap, even where the shift overflows 64 bits: attempt n
  waits exactly the smaller of 2 to the n - 1 seconds and 30 seconds.
\<close>

theorem backoff_is_capped_doubling:
  "defaultBackoff (Suc n) = min (1000000000 * 2 ^ n) 30000000000"
proof (cases "n < 30")
  case True
  then have "(2 :: int) ^ n \<le> 2 ^ 29" by (intro power_increasing) auto
  then have "wrap64 (1000000000 * 2 ^ n) = 1000000000 * 2 ^ n"
    by (intro wrap64_id) (auto intro: order_trans [of _ 0])
  then show ?thesis by (auto simp: defaultBackoff_def Let_def)
next
  case False
  define d where "d = wrap64 (1000000000 * 2 ^ n)"
  have big: "(2 :: int) ^ 30 \<le> 2 ^ n" using False by (intro power_increasing) auto
  have "(2 :: int) ^ 30 dvd 2 ^ n" using False by (intro le_imp_power_dvd) simp
  then have "(2 :: int) ^ 39 dvd 1000000000 * 2 ^ n"
    using mult_dvd_mono [of "2 ^ 9 :: int" 1000000000 "2 ^ 30" "2 ^ n"] by (simp add: dvd_def)
  then have "(2 :: int) ^ 39 dvd d"
    unfolding d_def wrap64_def
    by (intro dvd_diff dvd_mod dvd_add le_imp_power_dvd) (simp_all add: dvd_power_le [of _ _ 39 63])
  then have "\<not> (0 < d \<and> d \<le> 30000000000)" using zdvd_imp_le [of "2 ^ 39" d] by fastforce
  then show ?thesis using big by (auto simp: defaultBackoff_def Let_def d_def min_def)
qed

section \<open>The declarative manifest provider (manifest.go)\<close>

text \<open>
  A decoded JSON value is Go's \<open>any\<close>: a number is carried as the text \<open>strconv.FormatFloat\<close> prints for
  it, an object as its members in some order. The record \<open>httpEnv\<close> holds the library calls the
  provider makes: the JSON codec, \<open>http.NewRequest\<close> (the error it answers, if any), the exchange
  itself (a connection error, or a status and a body) and \<open>fmt.Sprintf\<close> of an array or object.
\<close>

datatype gojson = JNull | JBool bool | JNum string | JStr string | JArr "gojson list"
  | JObj "(string \<times> gojson) list"

datatype httpAnswer = HttpErr string | HttpResp int string

record httpReq =
  hq_Method :: string
  hq_URL :: string
  hq_Headers :: "(string \<times> string) list"
  hq_Body :: string

record httpEnv =
  he_decode :: "string \<Rightarrow> string + gojson"
  he_encode :: "gojson \<Rightarrow> string"
  he_bad_request :: "httpReq \<Rightarrow> string option"
  he_do :: "httpReq \<Rightarrow> httpAnswer"
  he_sprint :: "gojson \<Rightarrow> string"

record InputDecl =
  in_Key :: string
  in_Required :: bool

record partialWhen =
  pw_Path :: string
  pw_Equals :: string

record responseSpec =
  rs_RunID :: string
  rs_Status :: string
  rs_Map :: "(string \<times> string) list"
  rs_PartialWhen :: "partialWhen option"
  rs_Detail :: string

record requestSpec =
  rq_Method :: string
  rq_URL :: string
  rq_Headers :: "(string \<times> string) list"
  rq_Body :: string

record Manifest =
  mf_inputs :: "InputDecl list"
  mf_request :: requestSpec
  mf_resp :: responseSpec

definition Compile :: "string + Manifest \<Rightarrow> string + Manifest" where
  "Compile parsed = (case parsed of
     Inl err \<Rightarrow> Inl (''manifest: invalid JSON: '' @ err)
   | Inr m \<Rightarrow>
       if trim_space (rq_URL (mf_request m)) = [] then Inl ''manifest: request.url is required''
       else let m' = (if rq_Method (mf_request m) = []
                      then m\<lparr>mf_request := (mf_request m)\<lparr>rq_Method := ''POST''\<rparr>\<rparr> else m)
            in if trim_space (rs_Status (mf_resp m')) = []
               then Inl ''manifest: response.status path is required'' else Inr m')"

definition parseOutcome :: "string \<Rightarrow> Outcome" where
  "parseOutcome s = (if to_lower s = ''ok'' then Ok else if to_lower s = ''partial'' then Partial else Failed)"

text \<open>\<open>strings.Split\<close> on one character and \<open>strings.ReplaceAll\<close> on a nonempty pattern.\<close>

fun split_on :: "char \<Rightarrow> string \<Rightarrow> string list" where
  "split_on sep [] = [[]]"
| "split_on sep (c # cs) =
     (if c = sep then [] # split_on sep cs
      else case split_on sep cs of [] \<Rightarrow> [[c]] | w # ws \<Rightarrow> (c # w) # ws)"

function replace_all :: "string \<Rightarrow> string \<Rightarrow> string \<Rightarrow> string" where
  "replace_all old new s = (case s of [] \<Rightarrow> [] | c # cs \<Rightarrow>
     if old \<noteq> [] \<and> has_prefix s old then new @ replace_all old new (drop (length old) s)
     else c # replace_all old new cs)"
  by pat_completeness auto
termination
  by (relation "measure (\<lambda>(_, _, s). length s)") (auto simp: has_prefix_def)

declare replace_all.simps [simp del]

fun extract_path :: "gojson \<Rightarrow> string list \<Rightarrow> gojson option" where
  "extract_path cur [] = Some cur"
| "extract_path (JObj m) (part # parts) =
     extract_path (case map_of m part of Some v \<Rightarrow> v | None \<Rightarrow> JNull) parts"
| "extract_path cur (part # parts) = None"

definition extractString :: "(gojson \<Rightarrow> string) \<Rightarrow> (string \<times> gojson) list \<Rightarrow> string \<Rightarrow> string" where
  "extractString sprint doc path =
     (if path = [] then []
      else case extract_path (JObj doc) (split_on (CHR ''.'') path) of
             None \<Rightarrow> []
           | Some v \<Rightarrow> (case v of JStr t \<Rightarrow> t | JNum t \<Rightarrow> t
                          | JBool b \<Rightarrow> if b then ''true'' else ''false''
                          | JNull \<Rightarrow> [] | _ \<Rightarrow> sprint v))"

definition mapStatus :: "(gojson \<Rightarrow> string) \<Rightarrow> responseSpec \<Rightarrow> (string \<times> gojson) list \<Rightarrow> Outcome" where
  "mapStatus sprint resp doc =
     (let out = (case map_of (rs_Map resp) (extractString sprint doc (rs_Status resp)) of
                   Some mapped \<Rightarrow> parseOutcome mapped | None \<Rightarrow> Failed)
      in case rs_PartialWhen resp of
           Some pw \<Rightarrow> if pw_Path pw \<noteq> [] \<and> extractString sprint doc (pw_Path pw) = pw_Equals pw
                      then Partial else out
         | None \<Rightarrow> out)"

definition subst_keys :: "string \<Rightarrow> (string \<times> string) list \<Rightarrow> string \<Rightarrow> string" where
  "subst_keys scope kvs tmpl =
     fold (\<lambda>(k, v) out. replace_all (''{{'' @ scope @ ''.'' @ k @ ''}}'') v out) kvs tmpl"

definition renderText :: "(string \<times> string) list \<Rightarrow> (string \<times> string) list \<Rightarrow> string \<Rightarrow> string" where
  "renderText config inputs tmpl = subst_keys ''inputs'' inputs (subst_keys ''config'' config tmpl)"

fun renderNode :: "(string \<times> string) list \<Rightarrow> (string \<times> string) list \<Rightarrow> gojson \<Rightarrow> gojson" where
  "renderNode config inputs (JStr v) =
     (if v = ''{{inputs}}'' then JObj (map (\<lambda>(k, t). (k, JStr t)) inputs)
      else JStr (renderText config inputs v))"
| "renderNode config inputs (JObj m) = JObj (map (\<lambda>(k, v). (k, renderNode config inputs v)) m)"
| "renderNode config inputs (JArr vs) = JArr (map (renderNode config inputs) vs)"
| "renderNode config inputs v = v"

definition renderBody :: "httpEnv \<Rightarrow> (string \<times> string) list \<Rightarrow> (string \<times> string) list \<Rightarrow> string \<Rightarrow> string + string" where
  "renderBody env config inputs raw =
     (if raw = [] then Inr ''{}''
      else case he_decode env raw of Inl err \<Rightarrow> Inl err
           | Inr tree \<Rightarrow> Inr (he_encode env (renderNode config inputs tree)))"

definition missing_input :: "Manifest \<Rightarrow> (string \<times> string) list \<Rightarrow> InputDecl option" where
  "missing_input m inputs =
     find (\<lambda>d. in_Required d \<and>
        trim_space (case map_of inputs (in_Key d) of Some v \<Rightarrow> v | None \<Rightarrow> []) = []) (mf_inputs m)"

definition read_response :: "httpEnv \<Rightarrow> Manifest \<Rightarrow> int \<Rightarrow> string \<Rightarrow> runError + RunResult" where
  "read_response env m status raw =
     (if 500 \<le> status \<or> status = 429 then Inl (transientErr (''manifest: backend status '' @ itoa status))
      else if 400 \<le> status then Inl (permanentErr (''manifest: backend status '' @ itoa status))
      else let result = (\<lambda>doc. Inr \<lparr>rr_RunID = extractString (he_sprint env) doc (rs_RunID (mf_resp m)),
                            rr_Status = mapStatus (he_sprint env) (mf_resp m) doc,
                            rr_Detail = extractString (he_sprint env) doc (rs_Detail (mf_resp m)),
                            rr_Raw = raw\<rparr>)
           in case he_decode env raw of
                Inl err \<Rightarrow> Inl (permanentErr (''manifest: response not JSON: '' @ err))
              | Inr (JObj doc) \<Rightarrow> result doc
              | Inr JNull \<Rightarrow> result []
              | Inr _ \<Rightarrow> Inl (permanentErr ''manifest: response not JSON: not an object''))"

definition manifest_request ::
  "httpEnv \<Rightarrow> Manifest \<Rightarrow> (string \<times> string) list \<Rightarrow> (string \<times> string) list \<Rightarrow> runError + httpReq" where
  "manifest_request env m config inputs =
     (case missing_input m inputs of
        Some d \<Rightarrow> Inl (permanentErr (''manifest: missing required input '' @ in_Key d))
      | None \<Rightarrow>
          case renderBody env config inputs (rq_Body (mf_request m)) of
            Inl err \<Rightarrow> Inl (permanentErr (''manifest: render body: '' @ err))
          | Inr body \<Rightarrow>
              let req = \<lparr>hq_Method = rq_Method (mf_request m),
                         hq_URL = renderText config inputs (rq_URL (mf_request m)),
                         hq_Headers = map (\<lambda>(k, v). (k, renderText config inputs v)) (rq_Headers (mf_request m)),
                         hq_Body = body\<rparr>
              in case he_bad_request env req of
                   Some err \<Rightarrow> Inl (permanentErr (''manifest: build request: '' @ err))
                 | None \<Rightarrow> Inr req)"

definition manifest_Run ::
  "httpEnv \<Rightarrow> Manifest \<Rightarrow> (string \<times> string) list \<Rightarrow> (string \<times> string) list \<Rightarrow> runError + RunResult" where
  "manifest_Run env m config inputs =
     (case manifest_request env m config inputs of
        Inl err \<Rightarrow> Inl err
      | Inr req \<Rightarrow> (case he_do env req of
            HttpErr err \<Rightarrow> Inl (transientErr (''manifest: request failed: '' @ err))
          | HttpResp status raw \<Rightarrow> read_response env m status raw))"

lemma manifest_request_cases:
  "case manifest_request env m config inputs of Inl err \<Rightarrow> \<exists>msg. err = permanentErr msg
   | Inr req \<Rightarrow> missing_input m inputs = None"
  by (auto simp: manifest_request_def Let_def split: option.splits sum.splits)

lemma mapStatus_cases:
  "mapStatus sprint resp doc \<noteq> Untracked"
  "mapStatus sprint resp doc = Ok \<Longrightarrow>
   \<exists>mapped. map_of (rs_Map resp) (extractString sprint doc (rs_Status resp)) = Some mapped \<and> to_lower mapped = ''ok''"
  by (auto simp: mapStatus_def parseOutcome_def Let_def split: option.splits if_splits)

lemma read_response_cases:
  "case read_response env m status raw of
     Inl err \<Rightarrow> (IsTransient err \<longleftrightarrow> 500 \<le> status \<or> status = 429) \<and> re_transient err \<noteq> None
   | Inr res \<Rightarrow> status < 400 \<and> rr_Status res \<noteq> Untracked \<and>
       (rr_Status res = Ok \<longrightarrow> (\<exists>mapped\<in>snd ` set (rs_Map (mf_resp m)). to_lower mapped = ''ok''))"
  by (auto simp: read_response_def transientErr_def permanentErr_def IsTransient_def Let_def mapStatus_cases
      split: sum.splits gojson.splits dest!: mapStatus_cases(2) map_of_SomeD intro: rev_bexI)

text \<open>
  Every way a manifest run fails is classified: a retryable error is a connection error or
  a status of 429 or at least 500, everything else the portal can decide (a missing input, a bad
  template, another 4xx, a body that is no JSON object) is permanent, and a response that is read
  never yields the untracked outcome and yields ok only through the manifest's own status map.
\<close>

theorem manifest_run_classified:
  "case manifest_Run env m config inputs of
     Inl err \<Rightarrow> re_transient err \<noteq> None \<and>
       (IsTransient err \<longrightarrow> missing_input m inputs = None \<and>
          (\<exists>req. manifest_request env m config inputs = Inr req \<and>
             ((\<exists>e. he_do env req = HttpErr e) \<or>
              (\<exists>status raw. he_do env req = HttpResp status raw \<and> (500 \<le> status \<or> status = 429)))))
   | Inr res \<Rightarrow> missing_input m inputs = None \<and> rr_Status res \<noteq> Untracked \<and>
       (rr_Status res = Ok \<longrightarrow> (\<exists>mapped\<in>snd ` set (rs_Map (mf_resp m)). to_lower mapped = ''ok''))"
proof (cases "manifest_request env m config inputs")
  case (Inl err)
  then show ?thesis
    using manifest_request_cases [where env = env and m = m and config = config and inputs = inputs]
    by (auto simp: manifest_Run_def permanentErr_def IsTransient_def)
next
  case (Inr req)
  then have none: "missing_input m inputs = None"
    using manifest_request_cases [where env = env and m = m and config = config and inputs = inputs] by simp
  show ?thesis
  proof (cases "he_do env req")
    case (HttpErr e)
    then show ?thesis using Inr none by (auto simp: manifest_Run_def transientErr_def)
  next
    case (HttpResp status raw)
    then show ?thesis using Inr none read_response_cases [where env = env and m = m and status = status and raw = raw]
      by (auto simp: manifest_Run_def split: sum.splits)
  qed
qed

definition demo_env :: httpEnv where
  "demo_env = \<lparr>he_decode = (\<lambda>s. if s = ''ok'' then Inr (JObj [(''data'', JObj [(''status'', JStr ''succeeded'')])])
       else Inl ''bad''), he_encode = (\<lambda>_. ''{}''), he_bad_request = (\<lambda>_. None),
     he_do = (\<lambda>req. if hq_URL req = ''up'' then HttpResp 200 ''ok'' else HttpResp 503 []), he_sprint = (\<lambda>_. [])\<rparr>"

definition demo_manifest :: "string \<Rightarrow> Manifest" where
  "demo_manifest url = \<lparr>mf_inputs = [\<lparr>in_Key = ''q'', in_Required = True\<rparr>],
     mf_request = \<lparr>rq_Method = ''POST'', rq_URL = url, rq_Headers = [], rq_Body = []\<rparr>,
     mf_resp = \<lparr>rs_RunID = ''id'', rs_Status = ''data.status'', rs_Map = [(''succeeded'', ''OK'')],
       rs_PartialWhen = None, rs_Detail = []\<rparr>\<rparr>"

lemma demo_manifest_run:
  "manifest_Run demo_env (demo_manifest ''{{inputs.q}}'') [] [(''q'', ''up'')]
     = Inr \<lparr>rr_RunID = [], rr_Status = Ok, rr_Detail = [], rr_Raw = ''ok''\<rparr>" by code_simp

lemma manifest_run_classified_witness:
  "missing_input (demo_manifest ''{{inputs.q}}'') [(''q'', ''up'')] = None \<and>
   (\<exists>mapped\<in>snd ` set (rs_Map (mf_resp (demo_manifest ''{{inputs.q}}''))). to_lower mapped = ''ok'')"
  using manifest_run_classified [where env = demo_env and m = "demo_manifest ''{{inputs.q}}''"
      and config = "[]" and inputs = "[(''q'', ''up'')]"]
  by (simp add: demo_manifest_run)

end
