(* ===== verification/Run_Targets.thy ===== *)
theory Run_Targets
  imports Access Batch_Engine Row_Table
begin

text \<open>
  Which targets a user may run and where: the surfaces of a target (internal/app/batch_store.go), the
  allow-list of an organizational unit and its inheritance (group_targets.go), the list the run form
  is given and the gate of a submit (batch_api.go), and the inputs, ownership and same-day reuse of a
  run (report_owner.go, version.go). Reading a field of a target's JSON config is an argument.
\<close>

section \<open>Surfaces\<close>

definition SurfaceRun :: string where [go_const]: "SurfaceRun = ''run''"
definition SurfaceBatch :: string where [go_const]: "SurfaceBatch = ''batch''"
definition SurfaceRecurring :: string where [go_const]: "SurfaceRecurring = ''recurring''"
definition SurfaceChat :: string where [go_const]: "SurfaceChat = ''chat''"

definition all_surfaces :: "string list" where
  "all_surfaces = [SurfaceRun, SurfaceBatch, SurfaceRecurring, SurfaceChat]"

definition TargetSurfaces :: "string \<Rightarrow> string list" where
  "TargetSurfaces surfaces =
     (let trimmed = trim_space surfaces
      in if trimmed = [] then all_surfaces
         else filter (\<lambda>part. part \<in> set all_surfaces) (map trim_space (split_on (CHR '','') trimmed)))"

definition AllowsSurface :: "string \<Rightarrow> string \<Rightarrow> bool" where
  "AllowsSurface surfaces surface = list_ex (\<lambda>s. s = surface) (TargetSurfaces surfaces)"

definition intersectSurfaces :: "string \<Rightarrow> string \<Rightarrow> string" where
  "intersectSurfaces target granted =
     (let out = filter (AllowsSurface granted) (TargetSurfaces target)
      in if out = [] then ''none'' else join_with '','' out)"

section \<open>Tables\<close>

record BatchTarget =
  bt_ID :: int
  bt_PluginSlug :: string
  bt_Name :: string
  bt_Config :: string
  bt_Surfaces :: string

record GroupTarget =
  gt_TargetID :: int
  gt_Surfaces :: string

text \<open>Targets in display order, the presence headers and the allow-list rows with their unit.\<close>

record targetDb =
  tg_targets :: "BatchTarget list"
  tg_headers :: "int list"
  tg_rows :: "(int \<times> GroupTarget) list"

definition GetTarget :: "targetDb \<Rightarrow> int \<Rightarrow> BatchTarget option" where
  "GetTarget db tid = find (\<lambda>t. bt_ID t = tid) (tg_targets db)"

definition SetTargetSurfaces :: "int \<Rightarrow> string list \<Rightarrow> targetDb \<Rightarrow> targetDb" where
  "SetTargetSurfaces tid surfaces db =
     (let valid = TargetSurfaces (join_with '','' surfaces);
          stored = (if length valid = 4 then [] else join_with '','' valid)
      in db\<lparr>tg_targets := update_where (\<lambda>t. bt_ID t = tid) (\<lambda>t. t\<lparr>bt_Surfaces := stored\<rparr>) (tg_targets db)\<rparr>)"

definition apiBatchTargetSurfaces :: "int \<Rightarrow> string list \<Rightarrow> targetDb \<Rightarrow> string + targetDb" where
  "apiBatchTargetSurfaces tid surfaces db =
     (case GetTarget db tid of
        None \<Rightarrow> Inl ''target not found''
      | Some _ \<Rightarrow>
          if surfaces = [] \<or> TargetSurfaces (join_with '','' surfaces) = []
          then Inl ''select at least one surface''
          else Inr (SetTargetSurfaces tid surfaces db))"

definition GroupTargets :: "targetDb \<Rightarrow> int \<Rightarrow> GroupTarget list" where
  "GroupTargets db ou = sort_key gt_TargetID (map snd (filter (\<lambda>(u, g). u = ou) (tg_rows db)))"

fun check_target_rows :: "targetDb \<Rightarrow> int list \<Rightarrow> GroupTarget list \<Rightarrow> string option" where
  "check_target_rows db seen [] = None"
| "check_target_rows db seen (g # gs) =
     (if gt_TargetID g \<in> set seen then Some (''duplicate target '' @ itoa (gt_TargetID g))
      else if GetTarget db (gt_TargetID g) = None then Some ''no rows''
      else if gt_Surfaces g \<noteq> [] \<and>
              \<not> list_all (\<lambda>s. trim_space s \<in> set all_surfaces) (split_on (CHR '','') (gt_Surfaces g))
      then Some ''invalid target surface''
      else check_target_rows db (gt_TargetID g # seen) gs)"

definition SetGroupTargets :: "int list \<Rightarrow> int \<Rightarrow> GroupTarget list \<Rightarrow> targetDb \<Rightarrow> string + targetDb" where
  "SetGroupTargets groups ou rows db =
     (if ou \<notin> set groups then Inl ''no rows''
      else case check_target_rows db [] rows of
        Some e \<Rightarrow> Inl e
      | None \<Rightarrow> Inr (db\<lparr>tg_headers := (if ou \<in> set (tg_headers db) then tg_headers db else tg_headers db @ [ou]),
            tg_rows := filter (\<lambda>(u, g). u \<noteq> ou) (tg_rows db) @
                       map (\<lambda>g. (ou, g\<lparr>gt_Surfaces := trim_space (gt_Surfaces g)\<rparr>)) rows\<rparr>))"

definition InheritGroupTargets :: "int list \<Rightarrow> int \<Rightarrow> targetDb \<Rightarrow> string + targetDb" where
  "InheritGroupTargets groups ou db =
     (if ou \<notin> set groups then Inl ''no rows''
      else Inr (db\<lparr>tg_headers := filter (\<lambda>u. u \<noteq> ou) (tg_headers db),
                   tg_rows := filter (\<lambda>(u, g). u \<noteq> ou) (tg_rows db)\<rparr>))"

definition DeleteTarget :: "int \<Rightarrow> targetDb \<Rightarrow> targetDb" where
  "DeleteTarget tid db =
     (let holders = remdups (map fst (filter (\<lambda>(u, g). gt_TargetID g = tid) (tg_rows db)))
      in db\<lparr>tg_headers := tg_headers db @ filter (\<lambda>u. u \<notin> set (tg_headers db)) holders,
            tg_rows := filter (\<lambda>(u, g). gt_TargetID g \<noteq> tid) (tg_rows db),
            tg_targets := filter (\<lambda>t. bt_ID t \<noteq> tid) (tg_targets db)\<rparr>)"

section \<open>The allow-list of a user\<close>

definition loadOUTargetPolicies :: "targetDb \<Rightarrow> int \<Rightarrow> GroupTarget list option" where
  "loadOUTargetPolicies db ou =
     (if ou \<in> set (tg_headers db) \<or> list_ex (\<lambda>(u, g). u = ou) (tg_rows db)
      then Some (GroupTargets db ou) else None)"

definition resolveOUTargetPolicy ::
  "int list \<Rightarrow> (int \<Rightarrow> GroupTarget list option) \<Rightarrow> GroupTarget list ouPolicyResult" where
  "resolveOUTargetPolicy chain policy_of = nearestOUPolicy chain [] policy_of"

definition resolveGroupTargetsErr :: "accessDb \<Rightarrow> targetDb \<Rightarrow> string \<Rightarrow> subjErr + GroupTarget list" where
  "resolveGroupTargetsErr adb db user =
     (case loadOUPolicySubject (db_users adb) (db_groups adb) user of
        Inl e \<Rightarrow> Inl e
      | Inr (sub, snap) \<Rightarrow>
          (case policyChain (sn_graph snap) (sb_EffectiveOU sub) of
             Inl e \<Rightarrow> Inl (TreeErr e)
           | Inr chain \<Rightarrow> Inr (op_Effective (resolveOUTargetPolicy chain (loadOUTargetPolicies db)))))"

definition resolveGroupTargets :: "accessDb \<Rightarrow> targetDb \<Rightarrow> string \<Rightarrow> GroupTarget list" where
  "resolveGroupTargets adb db user =
     (case resolveGroupTargetsErr adb db user of Inl _ \<Rightarrow> [] | Inr rows \<Rightarrow> rows)"

definition runAllowed :: "accessDb \<Rightarrow> targetDb \<Rightarrow> string \<Rightarrow> int \<Rightarrow> string \<Rightarrow> bool" where
  "runAllowed adb db user tid surface =
     (if viewerScope adb user = None then True
      else case find (\<lambda>g. gt_TargetID g = tid) (resolveGroupTargets adb db user) of
        None \<Rightarrow> False
      | Some g \<Rightarrow>
          if gt_Surfaces g \<noteq> [] \<and> \<not> AllowsSurface (gt_Surfaces g) surface then False
          else (case GetTarget db tid of None \<Rightarrow> False | Some t \<Rightarrow> AllowsSurface (bt_Surfaces t) surface))"

definition targetGranted :: "accessDb \<Rightarrow> targetDb \<Rightarrow> string \<Rightarrow> int \<Rightarrow> bool" where
  "targetGranted adb db user tid =
     (viewerScope adb user = None \<or> list_ex (\<lambda>g. gt_TargetID g = tid) (resolveGroupTargets adb db user))"

text \<open>The list of the run form: \<open>allowed\<close> is the map the handler fills, a later row replacing an earlier.\<close>

definition apiBatchTargets :: "accessDb \<Rightarrow> targetDb \<Rightarrow> string \<Rightarrow> BatchTarget list" where
  "apiBatchTargets adb db user =
     (if viewerScope adb user = None then tg_targets db
      else let allowed = map_of (rev (map (\<lambda>g. (gt_TargetID g, gt_Surfaces g)) (resolveGroupTargets adb db user)))
           in List.map_filter (\<lambda>t. case allowed (bt_ID t) of
                None \<Rightarrow> None
              | Some sub \<Rightarrow> Some (if sub = [] then t else t\<lparr>bt_Surfaces := intersectSurfaces (bt_Surfaces t) sub\<rparr>))
              (tg_targets db))"

section \<open>What is offered is what is allowed\<close>

lemma split_on_nonempty [simp]: "split_on sep s \<noteq> []"
  by (induction s) (auto split: list.splits)

lemma split_on_word: "sep \<notin> set w \<Longrightarrow> split_on sep w = [w]"
  by (induction w) auto

lemma split_on_app: "sep \<notin> set w \<Longrightarrow> split_on sep (w @ sep # s) = w # split_on sep s"
  by (induction w) auto

lemma split_join: "ws \<noteq> [] \<Longrightarrow> \<forall>w\<in>set ws. sep \<notin> set w \<Longrightarrow> split_on sep (join_with [sep] ws) = ws"
  by (induction "[sep]" ws rule: join_with.induct) (auto simp: split_on_word split_on_app)

lemma surface_facts:
  assumes "s \<in> set all_surfaces"
  shows "s \<noteq> []" "CHR '','' \<notin> set s" "\<not> is_space (hd s)" "\<not> is_space (last s)" "trim_space s = s"
  using assms by (auto simp: all_surfaces_def SurfaceRun_def SurfaceBatch_def SurfaceRecurring_def
      SurfaceChat_def trim_space_def is_space_def)

lemma join_ends:
  assumes "ws \<noteq> []" "\<forall>w\<in>set ws. w \<noteq> []"
  shows "join_with sep ws \<noteq> [] \<and> hd (join_with sep ws) = hd (hd ws) \<and> last (join_with sep ws) = last (last ws)"
  using assms by (induction sep ws rule: join_with.induct) auto

lemma trim_id: "s \<noteq> [] \<Longrightarrow> \<not> is_space (hd s) \<Longrightarrow> \<not> is_space (last s) \<Longrightarrow> trim_space s = s"
proof -
  assume "s \<noteq> []" "\<not> is_space (hd s)" "\<not> is_space (last s)"
  then have "dropWhile is_space s = s" "dropWhile is_space (rev s) = rev s"
    by (simp_all add: dropWhile_eq_self_iff hd_rev)
  then show ?thesis by (simp add: trim_space_def)
qed

text \<open>A joined list of surfaces reads back as that list.\<close>

lemma TargetSurfaces_join:
  assumes "ws \<noteq> []" "set ws \<subseteq> set all_surfaces"
  shows "TargetSurfaces (join_with '','' ws) = ws"
proof -
  have w: "\<forall>w\<in>set ws. w \<noteq> [] \<and> CHR '','' \<notin> set w" using assms(2) surface_facts by blast
  have e: "hd ws \<in> set all_surfaces" "last ws \<in> set all_surfaces" using assms by auto
  have "trim_space (join_with '','' ws) = join_with '','' ws"
    using join_ends [OF assms(1), of "'',''"] w surface_facts [OF e(1)] surface_facts [OF e(2)] by (intro trim_id) auto
  moreover have "map trim_space ws = ws" using assms(2) surface_facts(5) by (intro map_idI) blast
  moreover have "join_with '','' ws \<noteq> []" using join_ends [OF assms(1), of "'',''"] w by blast
  ultimately show ?thesis
    using split_join [OF assms(1), of "CHR '',''"] w assms(2) by (simp add: TargetSurfaces_def filter_id_conv subset_iff)
qed

lemma AllowsSurface_iff: "AllowsSurface surfaces s \<longleftrightarrow> s \<in> set (TargetSurfaces surfaces)"
  by (auto simp: AllowsSurface_def list_ex_iff)

lemma TargetSurfaces_valid: "set (TargetSurfaces surfaces) \<subseteq> set all_surfaces"
  by (auto simp: TargetSurfaces_def Let_def)

lemma TargetSurfaces_none: "TargetSurfaces ''none'' = []"
  by code_simp

lemma intersect_allows:
  "AllowsSurface (intersectSurfaces target granted) s \<longleftrightarrow> AllowsSurface target s \<and> AllowsSurface granted s"
proof (cases "filter (AllowsSurface granted) (TargetSurfaces target) = []")
  case True
  then show ?thesis
    by (auto simp: intersectSurfaces_def AllowsSurface_iff TargetSurfaces_none filter_empty_conv)
next
  case False
  then show ?thesis
    using TargetSurfaces_join [OF False subset_trans [OF filter_is_subset TargetSurfaces_valid]]
    by (auto simp: intersectSurfaces_def AllowsSurface_iff)
qed

lemma map_filter_ex:
  "list_ex P (List.map_filter f xs) \<longleftrightarrow> (\<exists>x\<in>set xs. \<exists>y. f x = Some y \<and> P y)"
  by (induction xs) (auto simp: List.map_filter_simps split: option.splits)

lemma find_by_key: "map_of (map (\<lambda>g. (key g, f g)) gs) k = map_option f (find (\<lambda>g. key g = k) gs)"
  by (induction gs) auto

text \<open>
  The run form is told exactly what the submit gate accepts: for a restricted reader a
  surface is offered for a target if and only if a submit of that target on that surface is allowed.
\<close>

theorem offered_is_allowed:
  assumes "viewerScope adb user \<noteq> None"
    and "distinct (map gt_TargetID (resolveGroupTargets adb db user))"
    and "distinct (map bt_ID (tg_targets db))"
    and "t \<in> set (tg_targets db)"
  shows "list_ex (\<lambda>o'. bt_ID o' = bt_ID t \<and> AllowsSurface (bt_Surfaces o') surface) (apiBatchTargets adb db user)
     = runAllowed adb db user (bt_ID t) surface"
proof -
  let ?rows = "resolveGroupTargets adb db user"
  let ?allowed = "map_of (map (\<lambda>g. (gt_TargetID g, gt_Surfaces g)) ?rows)"
  let ?offer = "\<lambda>t. case ?allowed (bt_ID t) of None \<Rightarrow> None
     | Some sub \<Rightarrow> Some (if sub = [] then t else t\<lparr>bt_Surfaces := intersectSurfaces (bt_Surfaces t) sub\<rparr>)"
  have "map_of (rev (map (\<lambda>g. (gt_TargetID g, gt_Surfaces g)) ?rows)) = ?allowed"
    using assms(2) by (intro map_of_inject_set [THEN iffD2]) (auto simp: o_def rev_map [symmetric])
  then have api: "apiBatchTargets adb db user = List.map_filter ?offer (tg_targets db)"
    using assms(1) by (auto simp: apiBatchTargets_def)
  have only: "x = t" if "x \<in> set (tg_targets db)" "bt_ID x = bt_ID t" for x
    using that assms(3,4) by (auto simp: distinct_map inj_on_def)
  have get: "GetTarget db (bt_ID t) = Some t"
  proof (cases "GetTarget db (bt_ID t)")
    case None
    then show ?thesis using assms(4) by (force simp: GetTarget_def find_None_iff)
  next
    case (Some x)
    then have "x \<in> set (tg_targets db)" "bt_ID x = bt_ID t"
      by (auto simp: GetTarget_def find_Some_iff)
    then show ?thesis using Some only by simp
  qed
  have keep: "bt_ID o' = bt_ID x" if "?offer x = Some o'" for x o'
    using that by (auto split: option.splits if_splits)
  note look = find_by_key [of gt_TargetID gt_Surfaces ?rows]
  have "list_ex (\<lambda>o'. bt_ID o' = bt_ID t \<and> AllowsSurface (bt_Surfaces o') surface) (apiBatchTargets adb db user)
      = (\<exists>o'. ?offer t = Some o' \<and> AllowsSurface (bt_Surfaces o') surface)"
  proof
    assume "list_ex (\<lambda>o'. bt_ID o' = bt_ID t \<and> AllowsSurface (bt_Surfaces o') surface) (apiBatchTargets adb db user)"
    then obtain x o' where x: "x \<in> set (tg_targets db)" "?offer x = Some o'" "bt_ID o' = bt_ID t"
      "AllowsSurface (bt_Surfaces o') surface"
      unfolding api map_filter_ex by blast
    have "x = t" by (rule only [OF x(1)]) (use keep [OF x(2)] x(3) in simp)
    then show "\<exists>o'. ?offer t = Some o' \<and> AllowsSurface (bt_Surfaces o') surface" using x by blast
  next
    assume "\<exists>o'. ?offer t = Some o' \<and> AllowsSurface (bt_Surfaces o') surface"
    then obtain o' where o': "?offer t = Some o'" "AllowsSurface (bt_Surfaces o') surface" by blast
    then show "list_ex (\<lambda>o'. bt_ID o' = bt_ID t \<and> AllowsSurface (bt_Surfaces o') surface) (apiBatchTargets adb db user)"
      unfolding api map_filter_ex using assms(4) keep [OF o'(1)] by blast
  qed
  also have "\<dots> = runAllowed adb db user (bt_ID t) surface"
    using assms(1) get by (auto simp: runAllowed_def look intersect_allows split: option.splits)
  finally show ?thesis .
qed

definition demo_targets :: targetDb where
  "demo_targets = \<lparr>tg_targets = [\<lparr>bt_ID = 9, bt_PluginSlug = ''dify'', bt_Name = ''daily'', bt_Config = [],
       bt_Surfaces = ''run, chat''\<rparr>],
     tg_headers = [3], tg_rows = [(3, \<lparr>gt_TargetID = 9, gt_Surfaces = ''run,batch''\<rparr>)]\<rparr>"

lemma demo_allowlist: "resolveGroupTargets demo_access demo_targets ''ann'' = [\<lparr>gt_TargetID = 9, gt_Surfaces = ''run,batch''\<rparr>]"
  by code_simp

lemma demo_scoped: "viewerScope demo_access ''ann'' \<noteq> None"
  by code_simp

lemma offered_is_allowed_witness:
  "runAllowed demo_access demo_targets ''ann'' 9 SurfaceRun \<and> \<not> runAllowed demo_access demo_targets ''ann'' 9 SurfaceChat"
proof -
  have o: "list_ex (\<lambda>t. bt_ID t = 9 \<and> AllowsSurface (bt_Surfaces t) SurfaceRun) (apiBatchTargets demo_access demo_targets ''ann'')"
    "\<not> list_ex (\<lambda>t. bt_ID t = 9 \<and> AllowsSurface (bt_Surfaces t) SurfaceChat) (apiBatchTargets demo_access demo_targets ''ann'')"
    by code_simp+
  have t: "bt_ID (hd (tg_targets demo_targets)) = 9" "hd (tg_targets demo_targets) \<in> set (tg_targets demo_targets)"
    "distinct (map bt_ID (tg_targets demo_targets))"
    by (simp_all add: demo_targets_def)
  have d: "distinct (map gt_TargetID (resolveGroupTargets demo_access demo_targets ''ann''))"
    by (simp add: demo_allowlist)
  show ?thesis
    using o offered_is_allowed [OF demo_scoped d t(3,2)] by (simp only: t(1)) blast
qed

section \<open>Deleting a target\<close>

lemma GroupTargets_delete:
  "GroupTargets (DeleteTarget tid db) ou = filter (\<lambda>g. gt_TargetID g \<noteq> tid) (GroupTargets db ou)"
proof -
  have "map snd (filter (\<lambda>(u, g). u = ou) (filter (\<lambda>(u, g). gt_TargetID g \<noteq> tid) rows))
      = filter (\<lambda>g. gt_TargetID g \<noteq> tid) (map snd (filter (\<lambda>(u, g). u = ou) rows))" for rows :: "(int \<times> GroupTarget) list"
    by (induction rows) auto
  then show ?thesis by (simp add: GroupTargets_def DeleteTarget_def Let_def filter_sort)
qed

lemma policies_delete:
  "loadOUTargetPolicies (DeleteTarget tid db) ou =
     map_option (filter (\<lambda>g. gt_TargetID g \<noteq> tid)) (loadOUTargetPolicies db ou)"
proof -
  have "(ou \<in> set (tg_headers (DeleteTarget tid db)) \<or> list_ex (\<lambda>(u, g). u = ou) (tg_rows (DeleteTarget tid db)))
      = (ou \<in> set (tg_headers db) \<or> list_ex (\<lambda>(u, g). u = ou) (tg_rows db))"
    by (force simp: DeleteTarget_def Let_def list_ex_iff)
  then show ?thesis by (simp add: loadOUTargetPolicies_def GroupTargets_delete)
qed

lemma nearest_map:
  assumes "f baseline = baseline"
  shows "op_Effective (nearestOUPolicy chain baseline (\<lambda>u. map_option f (policy_of u)))
    = f (op_Effective (nearestOUPolicy chain baseline policy_of))"
proof (cases chain)
  case (Cons leaf us)
  have e: "(\<lambda>u. map_option f (policy_of u) \<noteq> None) = (\<lambda>u. policy_of u \<noteq> None)" by simp
  show ?thesis
  proof (cases "find (\<lambda>u. policy_of u \<noteq> None) (leaf # us)")
    case None
    then show ?thesis by (simp add: nearestOUPolicy_def Cons assms e del: find.simps)
  next
    case (Some u)
    then have "policy_of u \<noteq> None" unfolding find_Some_iff by blast
    then show ?thesis using Some by (simp add: nearestOUPolicy_def Cons e option.map_sel del: find.simps)
  qed
qed (simp add: nearestOUPolicy_def assms)

text \<open>
  Deleting a target takes it off every allow-list and changes nothing else: an
  organizational unit whose list held only that target keeps an empty list of its own, and does not fall
  back to the wider list of a parent.
\<close>

theorem delete_target_never_widens:
  "resolveGroupTargetsErr adb (DeleteTarget tid db) user =
     map_sum (\<lambda>e. e) (filter (\<lambda>g. gt_TargetID g \<noteq> tid)) (resolveGroupTargetsErr adb db user)"
proof -
  have "loadOUTargetPolicies (DeleteTarget tid db) =
      (\<lambda>u. map_option (filter (\<lambda>g. gt_TargetID g \<noteq> tid)) (loadOUTargetPolicies db u))"
    by (rule ext) (rule policies_delete)
  then show ?thesis
    by (simp add: resolveGroupTargetsErr_def resolveOUTargetPolicy_def nearest_map split: sum.splits prod.splits)
qed

section \<open>The surfaces an administrator ticks\<close>

text \<open>
  Ticking the same surface four times opens every surface: the handler accepts the list,
  and the store takes four entries for all four surfaces.
\<close>

theorem duplicate_surfaces_widen:
  "let ticked = [SurfaceRun, SurfaceRun, SurfaceRun, SurfaceRun]
   in case apiBatchTargetSurfaces 9 ticked demo_targets of
        Inl _ \<Rightarrow> False
      | Inr db \<Rightarrow> (case GetTarget db 9 of None \<Rightarrow> False
          | Some t \<Rightarrow> AllowsSurface (bt_Surfaces t) SurfaceRecurring \<and> \<not> AllowsSurface ''run'' SurfaceRecurring)"
  by code_simp

end
