(* ===== verification/Time_Zone.thy ===== *)
theory Time_Zone
  imports Calendar
begin

text \<open>
  Go's locations and the wall-clock strings the portal stores. A location is its UTC offset in seconds
  as a function of the Unix second. \<open>time.Date\<close> in a location and the parsing and formatting of
  \<open>2006-01-02 15:04:05\<close> follow the library: the offset is looked up first at the wall clock read as
  UTC and then at the instant that gives. The round trip of a stored wall clock is proved for instants
  whose wall clock is not repeated.
\<close>

type_synonym location = "int \<Rightarrow> int"

definition local_secs :: "location \<Rightarrow> instant \<Rightarrow> int" where
  "local_secs loc t = unix_secs t + loc (unix_secs t)"

definition local_day :: "location \<Rightarrow> instant \<Rightarrow> int" where
  "local_day loc t = local_secs loc t div 86400"

definition local_hour :: "location \<Rightarrow> instant \<Rightarrow> int" where
  "local_hour loc t = local_secs loc t mod 86400 div 3600"

text \<open>\<open>time.Date\<close> on a day number and the seconds of that day.\<close>

definition unix_at :: "location \<Rightarrow> int \<Rightarrow> int" where
  "unix_at loc l = l - loc (l - loc l)"

definition date_in :: "location \<Rightarrow> int \<Rightarrow> int \<Rightarrow> instant" where
  "date_in loc day secs = unix_at loc (day * 86400 + secs) * second"

definition parse_local :: "location \<Rightarrow> string \<Rightarrow> instant option" where
  "parse_local loc s = do {
     day \<leftarrow> parse_date (take 10 s);
     r1 \<leftarrow> lit CHR '' '' (drop 10 s);
     (h, r2) \<leftarrow> num12 r1;
     r3 \<leftarrow> lit CHR '':'' r2;
     (mi, r4) \<leftarrow> num2 r3;
     r5 \<leftarrow> lit CHR '':'' r4;
     (se, r6) \<leftarrow> num2 r5;
     (ns, r7) \<leftarrow> Some (frac_part r6);
     if h < 24 \<and> mi < 60 \<and> se < 60 \<and> r7 = []
       then Some (date_in loc day (h * 3600 + mi * 60 + se) + ns) else None }"

definition format_local :: "location \<Rightarrow> instant \<Rightarrow> string" where
  "format_local loc t = format_date (local_day loc t) @ '' '' @ clock_string (local_secs loc t mod 86400)"

text \<open>No zone of the tz database is more than a day away from UTC.\<close>

definition sane_zone :: "location \<Rightarrow> bool" where
  "sane_zone loc \<longleftrightarrow> (\<forall>u. - 86400 < loc u \<and> loc u < 86400)"

lemma unix_at_bounds: "sane_zone loc \<Longrightarrow> l - 86400 < unix_at loc l \<and> unix_at loc l < l + 86400"
  unfolding sane_zone_def unix_at_def by (drule spec [of _ "l - loc l"]) linarith

lemma unix_at_fixed [simp]: "unix_at (\<lambda>_. off) l = l - off"
  by (simp add: unix_at_def)

lemma parse_local_parts:
  assumes "in_years n" "0 \<le> h" "h < 24" "0 \<le> mi" "mi < 60" "0 \<le> se" "se < 60"
  shows "parse_local loc (format_date n @ '' '' @ pad 2 h @ '':'' @ pad 2 mi @ '':'' @ pad 2 se)
         = Some (date_in loc n (h * 3600 + mi * 60 + se))"
proof -
  have t: "take 10 (format_date n @ r) = format_date n" "drop 10 (format_date n @ r) = r" for r
    using assms(1) by simp_all
  have l: "lit c (c # r) = Some r" for c r by (simp add: lit_def)
  have f: "frac_part [] = (0, [])" by (simp add: frac_part_def)
  have n: "num2 (pad 2 x @ r) = Some (x, r)" "num12 (pad 2 x @ r) = Some (x, r)"
    if "0 \<le> x" "x < 60" for x r using that by simp_all
  have n0: "num2 (pad 2 se) = Some (se, [])" using n(1) [OF assms(6,7), of "[]"] by simp
  show ?thesis
    unfolding parse_local_def t append_Cons append_Nil
    using assms by (simp add: l f n n0 del: pad.simps)
qed

text \<open>A stored wall clock reads back as the same instant wherever the location maps it back.\<close>

lemma parse_format_local:
  assumes "in_years (local_day loc t)" and "unix_at loc (local_secs loc t) = unix_secs t"
  shows "parse_local loc (format_local loc t) = Some (unix_secs t * second)"
proof -
  define s where "s = local_secs loc t mod 86400"
  have s: "0 \<le> s" "s < 86400" by (simp_all add: s_def)
  have split: "local_day loc t * 86400 + s = local_secs loc t" by (simp add: local_day_def s_def)
  have "parse_local loc (format_local loc t) = Some (date_in loc (local_day loc t) s)"
    using parse_local_parts [OF assms(1) clock_bounds(1-6) [OF s], of loc] clock_bounds(7) [OF s]
    unfolding format_local_def clock_string_def s_def [symmetric]
    by (simp only: append_assoc)
  then show ?thesis using assms(2) by (simp add: date_in_def split)
qed

end
