(* ===== verification/Report_Owner.thy ===== *)
theory Report_Owner
  imports Run_Targets Time_Zone
begin

text \<open>
  Ownership and reuse of reports: the inputs a run is sent, the owning unit of a report, its viewer
  list and the rule that a report generated today is handed back instead of running again
  (internal/app/report_owner.go, group_targets.go, version.go). The token's signature and the fields of
  a target's JSON config are arguments; a key that is absent reads as the empty string.
\<close>

section \<open>The inputs of a run\<close>

definition isReservedInput :: "string \<Rightarrow> bool" where
  "isReservedInput name = has_prefix name ''_rp_''"

definition ownerTokenInput :: string where [go_const]: "ownerTokenInput = ''_rp_owner_token''"

definition dropReservedInputs :: "(string \<times> string) list \<Rightarrow> (string \<times> string) list" where
  "dropReservedInputs ins = filter (\<lambda>(variable, type). \<not> isReservedInput variable) ins"

fun clean_names :: "string list \<Rightarrow> string list \<Rightarrow> string list" where
  "clean_names seen [] = []"
| "clean_names seen (n # ns) =
     (if isReservedInput n \<and> n \<notin> set seen then n # clean_names (n # seen) ns else clean_names seen ns)"

definition cleanReservedInputNames :: "string list \<Rightarrow> string list" where
  "cleanReservedInputNames ins = sort (clean_names [] ins)"

definition reservedInputNames :: "(string \<times> string) list \<Rightarrow> string list" where
  "reservedInputNames ins = cleanReservedInputNames (map fst (filter (\<lambda>(variable, type). isReservedInput variable) ins))"

definition OwnerGroupOf :: "accessDb \<Rightarrow> string \<Rightarrow> int" where
  "OwnerGroupOf adb user =
     (case loadOUPolicySubject (db_users adb) (db_groups adb) user of
        Inl _ \<Rightarrow> 0
      | Inr (sub, snap) \<Rightarrow>
          (case policyChain (sn_graph snap) (sb_EffectiveOU sub) of Inl _ \<Rightarrow> 0 | Inr _ \<Rightarrow> sb_EffectiveOU sub))"

definition runInputs ::
  "(int \<Rightarrow> string \<Rightarrow> string) \<Rightarrow> accessDb \<Rightarrow> string \<Rightarrow> (string \<rightharpoonup> string) \<Rightarrow> (string \<rightharpoonup> string)" where
  "runInputs mint adb createdBy inputs =
     (let out = (\<lambda>k. if isReservedInput k then None else inputs k)
      in if createdBy = [] then out
         else let tok = mint (OwnerGroupOf adb createdBy) createdBy
              in if tok \<noteq> [] then out(ownerTokenInput \<mapsto> tok) else out)"

section \<open>Reports and their viewers\<close>

record reportRow =
  re_ID :: int
  re_Symbol :: string
  re_RType :: string
  re_RDate :: string
  re_Version :: string
  re_Owner :: "int option"

record reportDb =
  rdb_reports :: "reportRow list"
  rdb_viewers :: "(string \<times> string \<times> int) list"

definition StampReportOwner :: "int \<Rightarrow> int \<Rightarrow> reportDb \<Rightarrow> bool \<times> reportDb" where
  "StampReportOwner rid ou db =
     (if ou = 0 then (False, db)
      else let P = (\<lambda>r. re_ID r = rid \<and> re_Owner r = None)
           in (list_ex P (rdb_reports db),
               db\<lparr>rdb_reports := update_where P (\<lambda>r. r\<lparr>re_Owner := Some ou\<rparr>) (rdb_reports db)\<rparr>))"

text \<open>The query has no ORDER BY: the first row is the first the table yields.\<close>

definition FindSameDayReport :: "reportDb \<Rightarrow> string \<Rightarrow> string \<Rightarrow> string \<Rightarrow> string \<Rightarrow> int option" where
  "FindSameDayReport db symbol subtype version panelToday =
     map_option re_ID (find (\<lambda>r. re_Symbol r = symbol \<and> re_RType r = subtype \<and> re_RDate r = panelToday \<and>
       re_Version r = version) (rdb_reports db))"

definition ouSharesGroup :: "accessDb \<Rightarrow> int \<Rightarrow> bool" where
  "ouSharesGroup adb ou =
     (case ix_restrictedEffective (loadOUIndex (db_groups adb)) ou of Inl _ \<Rightarrow> False | Inr b \<Rightarrow> b)"

definition AddReportViewer :: "accessDb \<Rightarrow> int \<Rightarrow> string \<Rightarrow> string \<Rightarrow> int \<Rightarrow> reportDb \<Rightarrow> reportDb" where
  "AddReportViewer adb rid rdate user ou db =
     (let principals = [userPrincipal user] @ (if ou \<noteq> 0 \<and> ouSharesGroup adb ou then [groupPrincipal ou] else [])
      in fold (\<lambda>p db. if (p, rdate, rid) \<in> set (rdb_viewers db) then db
                      else db\<lparr>rdb_viewers := rdb_viewers db @ [(p, rdate, rid)]\<rparr>) principals db)"

section \<open>Versions\<close>

definition defaultVersionName :: string where [go_const]: "defaultVersionName = ''default''"

definition resolveVersion :: "string \<Rightarrow> accessDb \<Rightarrow> string \<times> accessDb" where
  "resolveVersion name adb =
     (let v = trim_space name
      in if v = [] then (defaultVersionName, adb)
         else if list_ex (\<lambda>r. rv_name r = v) (db_versions adb) then (v, adb)
         else (v, adb\<lparr>db_versions := db_versions adb @
                 [\<lparr>rv_name = v, rv_ord = Some 100, rv_visibility = Some VisibilityOwner\<rparr>]\<rparr>))"

definition GrantedVersions :: "accessDb \<Rightarrow> string \<Rightarrow> string list" where
  "GrantedVersions adb user =
     (case loadOUPolicySubject (db_users adb) (db_groups adb) user of
        Inl _ \<Rightarrow> []
      | Inr (sub, snap) \<Rightarrow> (case grantedVersionsFrom adb sub snap of Inl _ \<Rightarrow> [] | Inr vs \<Rightarrow> vs))"

section \<open>Same-day reuse\<close>

text \<open>\<open>field config key\<close> is the string at that key of a JSON config.\<close>

definition targetOutputSubtype :: "(string \<Rightarrow> string \<Rightarrow> string) \<Rightarrow> string \<Rightarrow> string" where
  "targetOutputSubtype field config = trim_space (field config ''output_subtype'')"

definition targetOutputVersion :: "(string \<Rightarrow> string \<Rightarrow> string) \<Rightarrow> string \<Rightarrow> string" where
  "targetOutputVersion field config = trim_space (field config ''output_version'')"

definition targetSymbolInput :: "(string \<Rightarrow> string \<Rightarrow> string) \<Rightarrow> string \<Rightarrow> string" where
  "targetSymbolInput field config = trim_space (field config ''symbol_input'')"

text \<open>
  The reused report with its group key, and the tables left. \<open>today\<close> is the panel's civil date; reading
  the version registers it even when nothing is reused, as in the code.
\<close>

definition reuseSameDayReport ::
  "(string \<Rightarrow> string \<Rightarrow> string) \<Rightarrow> string \<Rightarrow> string \<Rightarrow> int \<Rightarrow> (string \<rightharpoonup> string) list \<Rightarrow> targetDb \<Rightarrow>
   accessDb \<Rightarrow> reportDb \<Rightarrow> (int \<times> string) option \<times> accessDb \<times> reportDb" where
  "reuseSameDayReport field today user tid rows tdb adb rdb =
     (case viewerScope adb user of
        None \<Rightarrow> (None, adb, rdb)
      | Some sc \<Rightarrow>
          if os_denyAll sc \<or> length rows \<noteq> 1 then (None, adb, rdb)
          else case GetTarget tdb tid of
            None \<Rightarrow> (None, adb, rdb)
          | Some t \<Rightarrow>
              let subtype = targetOutputSubtype field (bt_Config t); symbolKey = targetSymbolInput field (bt_Config t)
              in if subtype = [] \<or> symbolKey = [] then (None, adb, rdb)
                 else let symbol = trim_space (case hd rows symbolKey of None \<Rightarrow> [] | Some v \<Rightarrow> v)
                      in if symbol = [] then (None, adb, rdb)
                         else case resolveVersion (targetOutputVersion field (bt_Config t)) adb of
                           (version, adb1) \<Rightarrow>
                             if version \<notin> set (GrantedVersions adb1 user) then (None, adb1, rdb)
                             else case FindSameDayReport rdb symbol subtype version today of
                               None \<Rightarrow> (None, adb1, rdb)
                             | Some rid \<Rightarrow> (Some (rid, symbol @ ''|'' @ today), adb1,
                                 AddReportViewer adb1 rid today user (OwnerGroupOf adb1 user) rdb))"

section \<open>What a run is sent\<close>

text \<open>
  A run is sent its submitter's own inputs unchanged and no reserved one of them: the only
  reserved input it carries is the owner token the portal minted for the submitter and the unit the
  submitter belongs to.
\<close>

theorem run_inputs_reserved:
  "runInputs mint adb createdBy inputs k =
     (if \<not> isReservedInput k then inputs k
      else if k = ownerTokenInput \<and> createdBy \<noteq> [] \<and> mint (OwnerGroupOf adb createdBy) createdBy \<noteq> []
      then Some (mint (OwnerGroupOf adb createdBy) createdBy) else None)"
proof -
  have "isReservedInput ownerTokenInput" by code_simp
  then show ?thesis by (auto simp: runInputs_def Let_def)
qed

section \<open>A reused report can be read\<close>

lemma find_SomeE: "find P xs = Some x \<Longrightarrow> x \<in> set xs \<and> P x"
  by (induction xs) (auto split: if_splits)

lemma granted_to_set: "set (granted_to adb pr) = {v. (pr, v) \<in> set (db_grants adb)}"
  by (force simp: granted_to_def)

lemma GrantedVersions_cases:
  assumes "v \<in> set (GrantedVersions adb user)"
  obtains sub snap vs where "loadOUPolicySubject (db_users adb) (db_groups adb) user = Inr (sub, snap)"
    "grantedVersionsFrom adb sub snap = Inr vs" "v \<in> set vs"
proof (cases "loadOUPolicySubject (db_users adb) (db_groups adb) user")
  case (Inl e)
  then show ?thesis using assms by (simp add: GrantedVersions_def)
next
  case (Inr p)
  obtain sub snap where p: "p = (sub, snap)" by (cases p)
  show ?thesis
  proof (cases "grantedVersionsFrom adb sub snap")
    case (Inl e)
    then show ?thesis using assms Inr p by (simp add: GrantedVersions_def)
  next
    case inner: (Inr vs)
    then show ?thesis using assms Inr p that by (simp add: GrantedVersions_def)
  qed
qed

lemma scoped_reader_versions:
  assumes "scoped_reader adb user sub snap = Inr sc"
    and "db_users adb' = db_users adb" "db_groups adb' = db_groups adb" "db_grants adb' = db_grants adb"
    and "grantedVersionsFrom adb' sub snap = Inr versions"
  shows "\<exists>sc'. scoped_reader adb' user sub snap = Inr sc' \<and> \<not> os_denyAll sc' \<and> os_self sc' = userPrincipal user \<and>
    userPrincipal user \<in> set (os_principals sc') \<and>
    (\<forall>v. v \<in> set versions \<and> v \<in> rv_name ` set (db_versions adb') \<longrightarrow>
       v \<in> set (os_versAll sc') \<or> v \<in> set (os_versGroup sc') \<or> v \<in> set (os_versOwner sc'))"
proof -
  obtain chain restricted where c: "policyChain (sn_graph snap) (sb_EffectiveOU sub) = Inr chain"
    "scope_principals snap (userPrincipal user) chain = Inr restricted"
    using assms(1) by (rule scoped_reader_parts)
  then show ?thesis
    using assms(5) by (auto simp: scoped_reader_def visible_as_def Let_def)
qed

lemma resolveVersion_tables:
  assumes "resolveVersion name adb = (v, adb')"
  shows "db_users adb' = db_users adb" "db_groups adb' = db_groups adb" "db_grants adb' = db_grants adb"
    and "v = defaultVersionName \<or> v \<in> rv_name ` set (db_versions adb')"
    and "set (db_versions adb) \<subseteq> set (db_versions adb')"
  using assms by (auto simp: resolveVersion_def Let_def list_ex_iff split: if_splits)

lemma AddReportViewer_user:
  "(userPrincipal user, rdate, rid) \<in> set (rdb_viewers (AddReportViewer adb rid rdate user ou db))"
  by (simp add: AddReportViewer_def Let_def)

lemma AddReportViewer_reports [simp]: "rdb_reports (AddReportViewer adb rid rdate user ou db) = rdb_reports db"
  by (simp add: AddReportViewer_def Let_def)

definition viewers_of :: "reportDb \<Rightarrow> (int \<times> string) list" where
  "viewers_of db = map (\<lambda>(p, rdate, rid). (rid, p)) (rdb_viewers db)"

text \<open>
  A report handed back instead of a run is one the caller can read: it was written today
  for the symbol and subtype asked for, its version is granted to the caller, and after the call the
  caller's scope admits it. Nothing is handed to a caller whose restriction could not be read.
\<close>

theorem reuse_is_readable:
  assumes r: "reuseSameDayReport field today user tid rows tdb adb rdb = (Some (rid, key), adb', rdb')"
    and reg: "defaultVersionName \<in> rv_name ` set (db_versions adb)"
  shows "\<exists>t r. GetTarget tdb tid = Some t \<and> r \<in> set (rdb_reports rdb) \<and> re_ID r = rid \<and> re_RDate r = today \<and>
    re_RType r = targetOutputSubtype field (bt_Config t) \<and> key = re_Symbol r @ ''|'' @ today \<and>
    re_Version r \<in> set (GrantedVersions adb' user) \<and>
    scope_admits (viewerScope adb' user) (viewers_of rdb') rid (re_Version r)"
proof -
  obtain sc t version where sc: "viewerScope adb user = Some sc" "\<not> os_denyAll sc"
    and t: "GetTarget tdb tid = Some t"
    and v: "resolveVersion (targetOutputVersion field (bt_Config t)) adb = (version, adb')"
      "version \<in> set (GrantedVersions adb' user)"
    and f: "FindSameDayReport rdb (trim_space (case hd rows (targetSymbolInput field (bt_Config t)) of None \<Rightarrow> [] | Some v \<Rightarrow> v))
        (targetOutputSubtype field (bt_Config t)) version today = Some rid"
    and k: "key = trim_space (case hd rows (targetSymbolInput field (bt_Config t)) of None \<Rightarrow> [] | Some v \<Rightarrow> v) @ ''|'' @ today"
    and rdb': "rdb' = AddReportViewer adb' rid today user (OwnerGroupOf adb' user) rdb"
    using r unfolding reuseSameDayReport_def Let_def by (auto split: option.splits if_splits prod.splits)
  obtain row where row: "row \<in> set (rdb_reports rdb)" "re_ID row = rid" "re_RDate row = today" "re_Version row = version"
    "re_RType row = targetOutputSubtype field (bt_Config t)" "key = re_Symbol row @ ''|'' @ today"
    using f k by (auto simp: FindSameDayReport_def dest!: find_SomeE)
  note tables = resolveVersion_tables [OF v(1)]
  obtain sub snap vs where g: "loadOUPolicySubject (db_users adb') (db_groups adb') user = Inr (sub, snap)"
    "grantedVersionsFrom adb' sub snap = Inr vs" "version \<in> set vs"
    using v(2) by (rule GrantedVersions_cases)
  have snapshot: "viewerScopeSnapshot adb user = Inr (Some sc)"
    using sc by (auto simp: viewerScope_def deny_scope_def split: if_splits sum.splits)
  then have sr: "scoped_reader adb user sub snap = Inr sc"
    using g(1) tables(1,2) by (auto simp: viewerScopeSnapshot_def split: sum.splits if_splits)
      (cases "scoped_reader adb user sub snap"; auto)+
  have "user \<noteq> []" using sc(1) by (auto simp: viewerScope_def)
  obtain sc' where sc': "scoped_reader adb' user sub snap = Inr sc'" "\<not> os_denyAll sc'" "os_self sc' = userPrincipal user"
    "userPrincipal user \<in> set (os_principals sc')"
    "version \<in> rv_name ` set (db_versions adb') \<longrightarrow>
       version \<in> set (os_versAll sc') \<or> version \<in> set (os_versGroup sc') \<or> version \<in> set (os_versOwner sc')"
    using scoped_reader_versions [OF sr tables(1-3) g(2)] g(3) by blast
  have vis: "version \<in> rv_name ` set (db_versions adb')" using tables(4,5) reg by auto
  have scope: "viewerScope adb' user = Some sc'"
    using snapshot g(1) sc'(1) tables(1,2) \<open>user \<noteq> []\<close>
    by (auto simp: viewerScope_def viewerScopeSnapshot_def split: sum.splits if_splits)
  have "(rid, userPrincipal user) \<in> set (viewers_of rdb')"
    using AddReportViewer_user [of user today rid adb' "OwnerGroupOf adb' user" rdb] unfolding rdb' viewers_of_def by force
  then have "scope_admits (viewerScope adb' user) (viewers_of rdb') rid version"
    using sc' vis scope by (fastforce simp: scope_admits_def list_ex_iff)
  then show ?thesis using t row v(2) by blast
qed

definition demo_field :: "string \<Rightarrow> string \<Rightarrow> string" where
  "demo_field config key = (if key = ''output_subtype'' then ''stock'' else if key = ''output_version'' then '' v1 ''
     else ''code'')"

definition demo_reports :: reportDb where
  "demo_reports = \<lparr>rdb_reports = [\<lparr>re_ID = 7, re_Symbol = ''600519'', re_RType = ''stock'', re_RDate = ''2026-03-02'',
     re_Version = ''v1'', re_Owner = None\<rparr>], rdb_viewers = []\<rparr>"

definition demo_default_version :: accessDb where
  "demo_default_version = demo_access\<lparr>db_versions := db_versions demo_access @
     [\<lparr>rv_name = ''default'', rv_ord = None, rv_visibility = Some ''all''\<rparr>]\<rparr>"

lemma reuse_is_readable_witness:
  "case reuseSameDayReport demo_field ''2026-03-02'' ''ann'' 9 [[''code'' \<mapsto> ''600519 '']] demo_targets
          demo_default_version demo_reports of
     (answer, adb, rdb) \<Rightarrow> answer = Some (7, ''600519|2026-03-02'') \<and>
       scope_admits (viewerScope adb ''ann'') (viewers_of rdb) 7 ''v1''"
proof -
  let ?call = "reuseSameDayReport demo_field ''2026-03-02'' ''ann'' 9 [[''code'' \<mapsto> ''600519 '']] demo_targets
          demo_default_version demo_reports"
  have a: "fst ?call = Some (7, ''600519|2026-03-02'')" by code_simp
  obtain adb rdb where c: "?call = (Some (7, ''600519|2026-03-02''), adb, rdb)" using a by (cases ?call) auto
  have "defaultVersionName \<in> rv_name ` set (db_versions demo_default_version)"
    by (simp add: demo_default_version_def defaultVersionName_def)
  from reuse_is_readable [OF c this] have "scope_admits (viewerScope adb ''ann'') (viewers_of rdb) 7 ''v1''"
    by (auto simp: demo_reports_def)
  then show ?thesis using c by simp
qed

end
