(* ===== verification/Run_Preset.thy ===== *)
theory Run_Preset
  imports Time_Zone
begin

text \<open>
  Preset low-peak windows (internal/app/run_preset.go): the resolver of recurring windows, their union,
  the inverted polarity and the snapshot a job carries. Anchors are read in the panel's location, the
  stored strings in the server's own. \<open>time.AddDate\<close> and the day overflow of \<open>time.Date\<close> are those of
  Calendar. The occurrences are numbered relative to now as the code numbers them, from -1.
\<close>

section \<open>Anchors\<close>

record presetAnchor =
  pa_Weekday :: int
  pa_Month :: int
  pa_Day :: int
  pa_Time :: string

record presetInterval =
  pi_Start :: presetAnchor
  pi_Stop :: presetAnchor

text \<open>\<open>strings.SplitN(s, sep, 2)\<close>: two parts around the first separator, or one.\<close>

definition split2 :: "char \<Rightarrow> string \<Rightarrow> (string \<times> string) option" where
  "split2 sep s = (case dropWhile (\<lambda>c. c \<noteq> sep) s of [] \<Rightarrow> None
     | _ # rest \<Rightarrow> Some (takeWhile (\<lambda>c. c \<noteq> sep) s, rest))"

definition parseHHMM :: "string \<Rightarrow> (int \<times> int) option" where
  "parseHHMM s = (case split2 (CHR '':'') (trim_space s) of
     None \<Rightarrow> None
   | Some (a, b) \<Rightarrow>
       (case (atoi (trim_space a), atoi (trim_space b)) of
          (Some h, Some m) \<Rightarrow> if h < 0 \<or> 23 < h \<or> m < 0 \<or> 59 < m then None else Some (h, m)
        | _ \<Rightarrow> None))"

text \<open>\<open>AddDate\<close> keeps the wall clock and moves the local date.\<close>

definition add_days :: "location \<Rightarrow> instant \<Rightarrow> int \<Rightarrow> instant" where
  "add_days loc t n = date_in loc (local_day loc t + n) (local_secs loc t mod 86400)"

definition add_month :: "location \<Rightarrow> instant \<Rightarrow> int \<Rightarrow> instant" where
  "add_month loc t n = date_in loc (add_date (local_day loc t) 0 n 0) (local_secs loc t mod 86400)"

definition clock_on :: "location \<Rightarrow> instant \<Rightarrow> int \<times> int \<Rightarrow> instant" where
  "clock_on loc d = (\<lambda>(h, m). date_in loc (local_day loc d) (h * 3600 + m * 60))"

definition month_last :: "location \<Rightarrow> int \<Rightarrow> int \<Rightarrow> int" where
  "month_last loc y m = civil_day (local_day loc (date_in loc (day_number y (m + 1) 0) 0))"

definition atClamped :: "location \<Rightarrow> int \<Rightarrow> int \<Rightarrow> int \<Rightarrow> int \<times> int \<Rightarrow> instant" where
  "atClamped loc y m d = (\<lambda>(hh, mm).
     let last = month_last loc y m; d1 = (if last < d then last else d); d2 = (if d1 < 1 then 1 else d1)
     in date_in loc (day_number y m d2) (hh * 3600 + mm * 60))"

section \<open>Occurrences\<close>

text \<open>The end of an occurrence that does not lie after its start moves to the next period.\<close>

definition window :: "instant \<Rightarrow> instant \<Rightarrow> instant \<Rightarrow> instant \<times> instant" where
  "window s e later = (s, if e \<le> s then later else e)"

definition today :: "location \<Rightarrow> instant \<Rightarrow> instant" where
  "today loc now = date_in loc (local_day loc now) 0"

definition daily_at :: "location \<Rightarrow> instant \<Rightarrow> int \<times> int \<Rightarrow> int \<times> int \<Rightarrow> int \<Rightarrow> instant \<times> instant" where
  "daily_at loc now sc ec k =
     (let d = add_days loc (today loc now) k; e = clock_on loc d ec
      in window (clock_on loc d sc) e (add_days loc e 1))"

definition weekly_at ::
  "location \<Rightarrow> instant \<Rightarrow> int \<Rightarrow> int \<Rightarrow> int \<times> int \<Rightarrow> int \<times> int \<Rightarrow> int \<Rightarrow> instant \<times> instant" where
  "weekly_at loc now startWd stopWd sc ec k =
     (let day = today loc now; back = (weekday (local_day loc day) - startWd + 7) mod 7;
          base = add_days loc day (- back); span = (stopWd - startWd + 7) mod 7;
          d = add_days loc base (7 * k); e = clock_on loc (add_days loc d span) ec
      in window (clock_on loc d sc) e (add_days loc e 7))"

definition clamped_in :: "location \<Rightarrow> instant \<Rightarrow> int \<Rightarrow> int \<times> int \<Rightarrow> instant" where
  "clamped_in loc m d clock =
     atClamped loc (civil_year (local_day loc m)) (civil_month (local_day loc m)) d clock"

definition monthly_at ::
  "location \<Rightarrow> instant \<Rightarrow> int \<Rightarrow> int \<Rightarrow> int \<times> int \<Rightarrow> int \<times> int \<Rightarrow> int \<Rightarrow> instant \<times> instant" where
  "monthly_at loc now startDay stopDay sc ec k =
     (let n = local_day loc now;
          base = date_in loc (day_number (civil_year n) (civil_month n) 1) 0;
          m = add_month loc base k
      in window (clamped_in loc m startDay sc) (clamped_in loc m stopDay ec)
           (clamped_in loc (add_month loc m 1) stopDay ec))"

definition yearly_at ::
  "location \<Rightarrow> instant \<Rightarrow> presetAnchor \<Rightarrow> presetAnchor \<Rightarrow> int \<times> int \<Rightarrow> int \<times> int \<Rightarrow> int \<Rightarrow> instant \<times> instant" where
  "yearly_at loc now start stop sc ec k =
     (let y = civil_year (local_day loc now) + k
      in window (atClamped loc y (pa_Month start) (pa_Day start) sc)
           (atClamped loc y (pa_Month stop) (pa_Day stop) ec)
           (atClamped loc (y + 1) (pa_Month stop) (pa_Day stop) ec))"

definition in_range :: "int \<Rightarrow> int \<Rightarrow> int \<Rightarrow> bool" where
  "in_range lo hi x \<longleftrightarrow> lo \<le> x \<and> x \<le> hi"

definition windowAt ::
  "location \<Rightarrow> instant \<Rightarrow> string \<Rightarrow> presetAnchor \<Rightarrow> presetAnchor \<Rightarrow> (int \<Rightarrow> instant \<times> instant) option" where
  "windowAt loc now freq start stop =
     (case (parseHHMM (pa_Time start), parseHHMM (pa_Time stop)) of
        (Some sc, Some ec) \<Rightarrow>
          if freq = ''daily'' then Some (daily_at loc now sc ec)
          else if freq = ''weekly'' then
            (if in_range 0 6 (pa_Weekday start) \<and> in_range 0 6 (pa_Weekday stop)
             then Some (weekly_at loc now (pa_Weekday start) (pa_Weekday stop) sc ec) else None)
          else if freq = ''monthly'' then
            (if in_range 1 31 (pa_Day start) \<and> in_range 1 31 (pa_Day stop)
             then Some (monthly_at loc now (pa_Day start) (pa_Day stop) sc ec) else None)
          else if freq = ''yearly'' then
            (if in_range 1 12 (pa_Month start) \<and> in_range 1 12 (pa_Month stop) \<and>
                in_range 1 31 (pa_Day start) \<and> in_range 1 31 (pa_Day stop)
             then Some (yearly_at loc now start stop sc ec) else None)
          else None
      | _ \<Rightarrow> None)"

fun first_open :: "(int \<Rightarrow> instant \<times> instant) \<Rightarrow> instant \<Rightarrow> int \<Rightarrow> nat \<Rightarrow> (instant \<times> instant) option" where
  "first_open at now k 0 = None"
| "first_open at now k (Suc n) =
     (if now < snd (at k) then Some (at k) else first_open at now (k + 1) n)"

definition nextInterval ::
  "string \<Rightarrow> presetAnchor \<Rightarrow> presetAnchor \<Rightarrow> instant \<Rightarrow> location \<Rightarrow> (instant \<times> instant) option" where
  "nextInterval freq start stop now loc =
     (case windowAt loc now freq start stop of None \<Rightarrow> None | Some at \<Rightarrow> first_open at now (-1) 801)"

fun nextWindow ::
  "string \<Rightarrow> presetInterval list \<Rightarrow> instant \<Rightarrow> location \<Rightarrow> (instant \<times> instant) option \<Rightarrow>
   (instant \<times> instant) option" where
  "nextWindow freq [] now loc best = best"
| "nextWindow freq (iv # ivs) now loc best =
     nextWindow freq ivs now loc
       (case nextInterval freq (pi_Start iv) (pi_Stop iv) now loc of
          None \<Rightarrow> best
        | Some (s, e) \<Rightarrow> (case best of None \<Rightarrow> Some (s, e)
                          | Some (bs, be) \<Rightarrow> if e < be then Some (s, e) else Some (bs, be)))"

fun blockEnd :: "string \<Rightarrow> presetInterval list \<Rightarrow> instant \<Rightarrow> location \<Rightarrow> instant option \<Rightarrow> instant option" where
  "blockEnd freq [] now loc end = end"
| "blockEnd freq (iv # ivs) now loc end =
     blockEnd freq ivs now loc
       (case nextInterval freq (pi_Start iv) (pi_Stop iv) now loc of
          None \<Rightarrow> end
        | Some (s, e) \<Rightarrow>
            if s \<le> now \<and> now < e
            then (case end of None \<Rightarrow> Some e | Some b \<Rightarrow> if b < e then Some e else Some b)
            else end)"

section \<open>Snapshots\<close>

definition iso_week :: "int \<Rightarrow> int \<times> int" where
  "iso_week day = (let thursday = day + 3 - (weekday day + 6) mod 7
                   in (civil_year thursday, year_day thursday div 7 + 1))"

definition samePeriod :: "string \<Rightarrow> instant \<Rightarrow> instant \<Rightarrow> location \<Rightarrow> bool" where
  "samePeriod freq a b loc =
     (let x = local_day loc a; y = local_day loc b
      in if freq = ''weekly'' then iso_week x = iso_week y
         else if freq = ''monthly'' then civil_year x = civil_year y \<and> civil_month x = civil_month y
         else if freq = ''yearly'' then civil_year x = civil_year y
         else civil_year x = civil_year y \<and> year_day x = year_day y)"

record runPresetSnapshot =
  sn_Freq :: string
  sn_Intervals :: "presetInterval list"
  sn_OnOverrun :: string
  sn_Until :: string
  sn_Invert :: bool

text \<open>The column of a job: empty, a JSON document that does not parse, or a snapshot.\<close>

datatype presetCol = NoPreset | BadPreset | Preset runPresetSnapshot

definition invertBlocksNow :: "presetCol \<Rightarrow> instant \<Rightarrow> location \<Rightarrow> bool" where
  "invertBlocksNow runPreset now loc =
     (case runPreset of
        Preset snap \<Rightarrow> sn_Invert snap \<and> blockEnd (sn_Freq snap) (sn_Intervals snap) now loc None \<noteq> None
      | _ \<Rightarrow> False)"

definition resolvePresetWindow ::
  "string \<Rightarrow> presetInterval list \<Rightarrow> string \<Rightarrow> bool \<Rightarrow> instant \<Rightarrow> location \<Rightarrow> location \<Rightarrow>
   (string \<times> presetCol) option" where
  "resolvePresetWindow freq intervals onOverrun invert now loc local =
     (case nextWindow freq intervals now loc None of
        None \<Rightarrow> None
      | Some (s, e) \<Rightarrow>
          let snap = \<lparr>sn_Freq = freq, sn_Intervals = intervals, sn_OnOverrun = onOverrun,
                      sn_Until = [], sn_Invert = False\<rparr>
          in if invert
             then Some (case blockEnd freq intervals now loc None of None \<Rightarrow> [] | Some end \<Rightarrow> format_local local end,
                        Preset (snap\<lparr>sn_Invert := True\<rparr>))
             else Some (format_local local s, Preset (snap\<lparr>sn_Until := format_local local e\<rparr>)))"

section \<open>Recurrence\<close>

text \<open>
  What the resolver relies on: starts and nominal ends lie in consecutive periods, one of each per
  period, and now lies in period 0.
\<close>

definition recurring :: "(int \<Rightarrow> instant) \<Rightarrow> (int \<Rightarrow> instant) \<Rightarrow> (int \<Rightarrow> instant) \<Rightarrow> instant \<Rightarrow> bool" where
  "recurring P s e now \<longleftrightarrow> P 0 \<le> now \<and> now < P 1 \<and>
     (\<forall>k. P k \<le> s k \<and> s k < P (k + 1) \<and> P k \<le> e k \<and> e k < P (k + 1))"

definition occurrence :: "(int \<Rightarrow> instant) \<Rightarrow> (int \<Rightarrow> instant) \<Rightarrow> int \<Rightarrow> instant \<times> instant" where
  "occurrence s e k = window (s k) (e k) (e (k + 1))"

lemma recurring_step: "recurring P s e now \<Longrightarrow> s k < P (k + 1) \<and> P (k + 1) \<le> s (k + 1)"
  by (simp add: recurring_def)

lemma recurring_mono:
  assumes "recurring P s e now" "i \<le> j"
  shows "s i \<le> s j \<and> P i \<le> P j"
  using assms(2)
proof (induction j rule: int_ge_induct)
  case (step j)
  have "P j \<le> s j" "s j < P (j + 1)" "P (j + 1) \<le> s (j + 1)"
    using assms(1) by (simp_all add: recurring_def)
  then show ?case using step by linarith
qed simp

lemma occurrence_bounds:
  assumes "recurring P s e now"
  shows "s k < snd (occurrence s e k)" "snd (occurrence s e k) < P (k + 2)"
proof -
  note r = assms [unfolded recurring_def, THEN conjunct2, THEN conjunct2, rule_format]
  have two: "k + 1 + 1 = k + 2" by simp
  show "s k < snd (occurrence s e k)" "snd (occurrence s e k) < P (k + 2)"
    using r [of k] r [of "k + 1", unfolded two] by (auto simp: occurrence_def window_def)
qed

lemma first_open_Some:
  "first_open at now k n = Some w \<Longrightarrow>
   \<exists>j. k \<le> j \<and> j < k + int n \<and> w = at j \<and> now < snd (at j) \<and> (\<forall>i. k \<le> i \<and> i < j \<longrightarrow> snd (at i) \<le> now)"
proof (induction at now k n rule: first_open.induct)
  case (2 at now k n)
  show ?case
  proof (cases "now < snd (at k)")
    case True
    then show ?thesis using 2(2) by (intro exI [of _ k]) auto
  next
    case False
    then obtain j where "k + 1 \<le> j" "j < k + 1 + int n" "w = at j" "now < snd (at j)"
      "\<forall>i. k + 1 \<le> i \<and> i < j \<longrightarrow> snd (at i) \<le> now" using 2 by auto
    moreover have "snd (at i) \<le> now" if "k \<le> i" "i < j" for i
      using calculation(5) False that by (cases "i = k") auto
    ultimately show ?thesis by (intro exI [of _ j]) auto
  qed
qed simp

lemma first_open_None: "first_open at now k n = None \<Longrightarrow> k \<le> i \<Longrightarrow> i < k + int n \<Longrightarrow> snd (at i) \<le> now"
  by (induction at now k n rule: first_open.induct) (auto split: if_splits, smt (verit))

text \<open>The scan finds the occurrence that holds now, or the next one, and there always is one.\<close>

lemma first_open_recurring:
  assumes r: "recurring P s e now" and n: "801 = int n"
  obtains j where "first_open (occurrence s e) now (-1) n = Some (occurrence s e j)"
    "now < snd (occurrence s e j)"
    "s j \<le> now \<longleftrightarrow> (\<exists>k. s k \<le> now \<and> now < snd (occurrence s e k))"
    "\<forall>i<j. snd (occurrence s e i) \<le> now"
proof (cases "first_open (occurrence s e) now (-1) n")
  case None
  then have "snd (occurrence s e 1) \<le> now" using n by (elim first_open_None) simp_all
  moreover have "P 1 \<le> s 1" and "now < P 1" using r by (simp_all add: recurring_def)
  ultimately show ?thesis using occurrence_bounds(1) [OF r, of 1] by linarith
next
  case (Some w)
  then obtain j where j: "-1 \<le> j" "w = occurrence s e j" "now < snd (occurrence s e j)"
    and past: "\<forall>i. -1 \<le> i \<and> i < j \<longrightarrow> snd (occurrence s e i) \<le> now"
    using first_open_Some by metis
  have old: "snd (occurrence s e i) \<le> now" if "i < j" for i
  proof (cases "-1 \<le> i")
    case True
    then show ?thesis using past that by blast
  next
    case False
    then have "P (i + 2) \<le> P 0" using recurring_mono [OF r] by simp
    then show ?thesis using occurrence_bounds(2) [OF r, of i] r by (simp add: recurring_def)
  qed
  have "s j \<le> now" if "s k \<le> now" "now < snd (occurrence s e k)" for k
  proof -
    have "j \<le> k" using old [of k] that(2) by linarith
    then show ?thesis using recurring_mono [OF r, of j k] that(1) by linarith
  qed
  then show ?thesis using that [of j] Some j old by blast
qed

section \<open>The calendars recur\<close>

text \<open>
  A location with one offset, such as the panel's default zone. \<open>clock\<close> is what \<open>parseHHMM\<close> accepts.
\<close>

abbreviation zone :: "int \<Rightarrow> location" where "zone off \<equiv> (\<lambda>_. off)"

definition clock :: "int \<times> int \<Rightarrow> bool" where
  "clock hm \<longleftrightarrow> 0 \<le> fst hm \<and> fst hm \<le> 23 \<and> 0 \<le> snd hm \<and> snd hm \<le> 59"

definition clock_secs :: "int \<times> int \<Rightarrow> int" where
  "clock_secs hm = fst hm * 3600 + snd hm * 60"

lemma clock_secs_bounds: "clock hm \<Longrightarrow> 0 \<le> clock_secs hm \<and> clock_secs hm < 86400"
  by (auto simp: clock_def clock_secs_def)

lemma parseHHMM_clock: "parseHHMM s = Some hm \<Longrightarrow> clock hm"
  by (auto simp: parseHHMM_def clock_def split: option.splits if_splits)

lemma date_in_zone: "date_in (zone off) d secs = (d * 86400 + secs - off) * second"
  by (simp add: date_in_def)

lemma local_of_date [simp]:
  assumes "0 \<le> secs" "secs < 86400"
  shows "local_day (zone off) (date_in (zone off) d secs) = d"
    "local_secs (zone off) (date_in (zone off) d secs) mod 86400 = secs"
proof -
  have "local_secs (zone off) (date_in (zone off) d secs) = secs + d * 86400"
    by (simp add: local_secs_def date_in_zone unix_secs_def)
  then show "local_day (zone off) (date_in (zone off) d secs) = d"
    "local_secs (zone off) (date_in (zone off) d secs) mod 86400 = secs"
    using assms by (simp_all add: local_day_def)
qed

lemma date_in_less:
  assumes "0 \<le> a" "a < 86400" "0 \<le> b" "d < d'"
  shows "date_in (zone off) d a < date_in (zone off) d' b"
  using assms by (simp add: date_in_zone)

lemma date_in_le: "d \<le> d' \<Longrightarrow> 0 \<le> b \<Longrightarrow> date_in (zone off) d 0 \<le> date_in (zone off) d' b"
  by (simp add: date_in_zone)

lemma now_in_day: "date_in (zone off) (local_day (zone off) now) 0 \<le> now \<and>
  now < date_in (zone off) (local_day (zone off) now + 1) 0"
proof -
  define n where "n = local_day (zone off) now"
  define u where "u = unix_secs now"
  have n: "n = (u + off) div 86400" by (simp add: n_def local_day_def local_secs_def u_def)
  have "(u + off) div 86400 * 86400 + (u + off) mod 86400 = u + off" by simp
  moreover have "0 \<le> (u + off) mod 86400" "(u + off) mod 86400 < 86400" by simp_all
  ultimately have "n * 86400 \<le> u + off" "u + off < n * 86400 + 86400" unfolding n by linarith+
  then have "n * 86400 - off \<le> u" "u < (n + 1) * 86400 - off" by (simp_all add: algebra_simps)
  then have "(n * 86400 - off) * second \<le> now" "now < ((n + 1) * 86400 - off) * second"
    unfolding u_def unix_secs_def using le_div_second [of "n * 86400 - off" now]
      int_div_less_iff [of second now "(n + 1) * 86400 - off"] by simp_all
  then show ?thesis by (simp add: date_in_zone n_def)
qed

lemma add_days_zone [simp]:
  "0 \<le> secs \<Longrightarrow> secs < 86400 \<Longrightarrow>
   add_days (zone off) (date_in (zone off) d secs) n = date_in (zone off) (d + n) secs"
  by (simp add: add_days_def)

lemma clock_on_zone [simp]:
  "0 \<le> secs \<Longrightarrow> secs < 86400 \<Longrightarrow>
   clock_on (zone off) (date_in (zone off) d secs) hm = date_in (zone off) d (clock_secs hm)"
  by (cases hm) (simp add: clock_on_def clock_secs_def)

lemma daily_recurs:
  fixes off :: int and now :: instant
  assumes "clock sc" "clock ec"
  defines "n \<equiv> local_day (zone off) now"
  shows "daily_at (zone off) now sc ec = occurrence (\<lambda>k. date_in (zone off) (n + k) (clock_secs sc))
           (\<lambda>k. date_in (zone off) (n + k) (clock_secs ec))"
    and "recurring (\<lambda>k. date_in (zone off) (n + k) 0) (\<lambda>k. date_in (zone off) (n + k) (clock_secs sc))
           (\<lambda>k. date_in (zone off) (n + k) (clock_secs ec)) now"
  using clock_secs_bounds [OF assms(1)] clock_secs_bounds [OF assms(2)] now_in_day [of off now]
  by (auto simp: daily_at_def today_def occurrence_def recurring_def Let_def n_def date_in_less date_in_le
      add.assoc fun_eq_iff)

lemma weekly_recurs:
  fixes off a b :: int and now :: instant
  assumes "clock sc" "clock ec" "in_range 0 6 a" "in_range 0 6 b"
  defines "n \<equiv> local_day (zone off) now - (weekday (local_day (zone off) now) - a + 7) mod 7"
    and "span \<equiv> (b - a + 7) mod 7"
  shows "weekly_at (zone off) now a b sc ec =
           occurrence (\<lambda>k. date_in (zone off) (n + 7 * k) (clock_secs sc))
             (\<lambda>k. date_in (zone off) (n + 7 * k + span) (clock_secs ec))"
    and "recurring (\<lambda>k. date_in (zone off) (n + 7 * k) 0)
           (\<lambda>k. date_in (zone off) (n + 7 * k) (clock_secs sc))
           (\<lambda>k. date_in (zone off) (n + 7 * k + span) (clock_secs ec)) now"
proof -
  note c = clock_secs_bounds [OF assms(1)] clock_secs_bounds [OF assms(2)]
  have span: "0 \<le> span" "span < 7" by (simp_all add: span_def)
  show "weekly_at (zone off) now a b sc ec =
      occurrence (\<lambda>k. date_in (zone off) (n + 7 * k) (clock_secs sc))
        (\<lambda>k. date_in (zone off) (n + 7 * k + span) (clock_secs ec))"
    using c by (simp add: weekly_at_def today_def occurrence_def Let_def n_def span_def fun_eq_iff algebra_simps)
  have within: "n \<le> local_day (zone off) now" "local_day (zone off) now < n + 7"
    using pos_mod_sign [of 7 "weekday (local_day (zone off) now) - a + 7"]
      pos_mod_bound [of 7 "weekday (local_day (zone off) now) - a + 7"] by (simp_all add: n_def)
  have "date_in (zone off) n 0 \<le> now"
    using now_in_day [of off now] date_in_le [OF within(1), of 0 off] by linarith
  moreover have "now < date_in (zone off) (n + 7) 0"
    using now_in_day [of off now] date_in_le [of "local_day (zone off) now + 1" "n + 7" 0 off] within(2) by simp
  ultimately show "recurring (\<lambda>k. date_in (zone off) (n + 7 * k) 0)
      (\<lambda>k. date_in (zone off) (n + 7 * k) (clock_secs sc))
      (\<lambda>k. date_in (zone off) (n + 7 * k + span) (clock_secs ec)) now"
    using c span by (auto simp: recurring_def date_in_less date_in_le)
qed

text \<open>Months: the first day of the month k months on, and a clamped day inside it.\<close>

definition month_first :: "int \<Rightarrow> int \<Rightarrow> int" where
  "month_first y m = day_number y m 1"

definition norm_year :: "int \<Rightarrow> int \<Rightarrow> int" where "norm_year y m = y + (m - 1) div 12"
definition norm_month :: "int \<Rightarrow> int" where "norm_month m = (m - 1) mod 12 + 1"

lemma norm_month_bounds: "1 \<le> norm_month m" "norm_month m \<le> 12"
  using pos_mod_bound [of 12 "m - 1"] by (simp_all add: norm_month_def)

lemma day_number_norm: "day_number y m d = day_number (norm_year y m) (norm_month m) d"
  using norm_month_bounds [of m]
  by (simp add: day_number_normal) (simp add: day_number_def norm_year_def norm_month_def Let_def)

lemma day_number_first: "day_number y m d = month_first y m + d - 1"
  by (simp add: month_first_def day_number_def Let_def)

lemma norm_month_Suc:
  "norm_month m < 12 \<Longrightarrow> norm_year y (m + 1) = norm_year y m \<and> norm_month (m + 1) = norm_month m + 1"
  "\<not> norm_month m < 12 \<Longrightarrow> norm_year y (m + 1) = norm_year y m + 1 \<and> norm_month (m + 1) = 1"
proof -
  define q r where "q = (m - 1) div 12" and "r = (m - 1) mod 12"
  have m: "m = 12 * q + r + 1" and r: "0 \<le> r" "r < 12" by (simp_all add: q_def r_def)
  have 1: "r + 1 < 12 \<Longrightarrow> (m + 1 - 1) div 12 = q \<and> (m + 1 - 1) mod 12 = r + 1"
    using r by (simp add: m int_div_pos_eq [of _ 12 q "r + 1"] int_mod_pos_eq [of _ 12 q "r + 1"])
  have 2: "r = 11 \<Longrightarrow> (m + 1 - 1) div 12 = q + 1 \<and> (m + 1 - 1) mod 12 = 0"
    by (simp add: m int_div_pos_eq [of _ 12 "q + 1" 0] int_mod_pos_eq [of _ 12 "q + 1" 0])
  show "norm_month m < 12 \<Longrightarrow> norm_year y (m + 1) = norm_year y m \<and> norm_month (m + 1) = norm_month m + 1"
    using 1 by (simp add: norm_year_def norm_month_def q_def [symmetric] r_def [symmetric])
  show "\<not> norm_month m < 12 \<Longrightarrow> norm_year y (m + 1) = norm_year y m + 1 \<and> norm_month (m + 1) = 1"
    using 2 r by (simp add: norm_year_def norm_month_def q_def [symmetric] r_def [symmetric])
qed

lemma month_first_Suc:
  "month_first y (m + 1) = month_first y m + month_len (is_leap (norm_year y m)) (norm_month m)"
proof -
  define Y M where "Y = norm_year y m" and "M = norm_month m"
  have M: "1 \<le> M" "M \<le> 12" using norm_month_bounds [of m] by (simp_all add: M_def)
  have f: "month_first y m = year_start Y + month_start (is_leap Y) M - epoch_days"
    using M by (simp add: month_first_def day_number_norm [of y m] Y_def [symmetric] M_def [symmetric] day_number_normal)
  show ?thesis
  proof (cases "M < 12")
    case True
    then have "month_first y (m + 1) = year_start Y + month_start (is_leap Y) (M + 1) - epoch_days"
      using norm_month_Suc(1) [of m y] M
      by (simp add: month_first_def day_number_norm [of y "m + 1"] Y_def [symmetric] M_def [symmetric] day_number_normal)
    then show ?thesis using f by (simp add: month_len_def Y_def [symmetric] M_def [symmetric])
  next
    case False
    then have "M = 12" using M by simp
    then have "month_first y (m + 1) = year_start (Y + 1) - epoch_days"
      using norm_month_Suc(2) [of m y]
      by (simp add: month_first_def day_number_norm [of y "m + 1"] Y_def [symmetric] M_def [symmetric] day_number_normal)
    then show ?thesis using f \<open>M = 12\<close> year_start_Suc [of Y]
      by (simp add: month_len_def Y_def [symmetric] M_def [symmetric] year_len_def)
  qed
qed

lemma month_len_pos: "1 \<le> month_len (is_leap (norm_year y m)) (norm_month m)"
  using month_start_step [OF norm_month_bounds, of "is_leap (norm_year y m)" m] by (simp add: month_len_def)

lemma civil_of_first:
  "civil_year (month_first y m) = norm_year y m" "civil_month (month_first y m) = norm_month m"
  "civil_day (month_first y m) = 1"
proof -
  have "valid_civil (norm_year y m) (norm_month m) 1"
    using norm_month_bounds [of m] month_len_pos [of y m] by (simp add: valid_civil_def)
  from civil_of_day_number [OF this]
  show "civil_year (month_first y m) = norm_year y m" "civil_month (month_first y m) = norm_month m"
    "civil_day (month_first y m) = 1"
    by (simp_all add: month_first_def day_number_norm [of y m])
qed

lemma month_first_norm: "month_first (norm_year y m) (norm_month m + k) = month_first y (m + k)"
proof -
  have "(norm_month m + k - 1) div 12 = (m + k - 1) div 12 - (m - 1) div 12 \<and>
        (norm_month m + k - 1) mod 12 = (m + k - 1) mod 12"
  proof -
    define x q where "x = norm_month m + k - 1" and "q = (m - 1) div 12"
    have "m - 1 = q * 12 + (m - 1) mod 12" by (simp add: q_def)
    then have e: "m + k - 1 = x + q * 12" by (simp add: x_def norm_month_def)
    show ?thesis unfolding x_def [symmetric] q_def [symmetric] e by simp
  qed
  then show ?thesis by (simp add: month_first_def day_number_def norm_year_def Let_def)
qed

text \<open>A clamped day lies in its month.\<close>

lemma atClamped_zone:
  assumes "1 \<le> m" "m \<le> 12"
  obtains d where "1 \<le> d" "d \<le> month_len (is_leap y) m"
    "atClamped (zone off) y m day hm = date_in (zone off) (month_first y m + d - 1) (clock_secs hm)"
proof -
  have n: "norm_year y m = y" "norm_month m = m" using assms by (simp_all add: norm_year_def norm_month_def)
  have len: "1 \<le> month_len (is_leap y) m" using month_len_pos [of y m] by (simp add: n)
  have "day_number y (m + 1) 0 = day_number y m (month_len (is_leap y) m)"
    using month_first_Suc [of y m] by (simp add: day_number_first n)
  then have last: "month_last (zone off) y m = month_len (is_leap y) m"
    using civil_of_day_number(3) [of y m "month_len (is_leap y) m"] assms len
    by (simp add: month_last_def valid_civil_def)
  define d1 where "d1 = (if month_len (is_leap y) m < day then month_len (is_leap y) m else day)"
  show ?thesis
    by (rule that [of "if d1 < 1 then 1 else d1"])
      (use len in \<open>auto simp: atClamped_def last Let_def d1_def day_number_first clock_secs_def split: prod.splits\<close>)
qed

lemma month_first_mono: "m \<le> m' \<Longrightarrow> month_first y m \<le> month_first y m'"
proof (induction m' rule: int_ge_induct)
  case (step m')
  then show ?case using month_first_Suc [of y m'] month_len_pos [of y m'] by linarith
qed simp

lemma month_first_year: "month_first (y + 1) m = month_first y (m + 12)"
proof -
  have "m + 12 - 1 = (m - 1) + 1 * (12 :: int)" by simp
  then have "(m + 12 - 1) div 12 = (m - 1) div 12 + 1" "(m + 12 - 1) mod 12 = (m - 1) mod 12"
    by (simp_all only: div_mult_self1 mod_mult_self1)
  then show ?thesis by (simp only: month_first_def day_number_def Let_def) (simp add: ac_simps)
qed

text \<open>A clamped day of month m is inside the month, and so inside any span of months around it.\<close>

lemma atClamped_inside:
  assumes "1 \<le> m" "m \<le> 12" "clock hm"
  shows "date_in (zone off) (month_first y m) 0 \<le> atClamped (zone off) y m day hm"
    "atClamped (zone off) y m day hm < date_in (zone off) (month_first y (m + 1)) 0"
proof -
  obtain d where d: "1 \<le> d" "d \<le> month_len (is_leap y) m"
    and a: "atClamped (zone off) y m day hm = date_in (zone off) (month_first y m + d - 1) (clock_secs hm)"
    using assms(1,2) by (rule atClamped_zone)
  have n: "norm_year y m = y" "norm_month m = m" using assms by (simp_all add: norm_year_def norm_month_def)
  show "date_in (zone off) (month_first y m) 0 \<le> atClamped (zone off) y m day hm"
    "atClamped (zone off) y m day hm < date_in (zone off) (month_first y (m + 1)) 0"
    using d clock_secs_bounds [OF assms(3)] month_first_Suc [of y m]
    by (simp_all add: a n date_in_le date_in_less)
qed

lemma now_in_month:
  fixes off :: int and now :: instant
  defines "n \<equiv> local_day (zone off) now"
  shows "date_in (zone off) (month_first (civil_year n) (civil_month n)) 0 \<le> now"
    "now < date_in (zone off) (month_first (civil_year n) (civil_month n + 1)) 0"
proof -
  define y m where "y = civil_year n" and "m = civil_month n"
  have v: "1 \<le> m" "m \<le> 12" "1 \<le> civil_day n" "civil_day n \<le> month_len (is_leap y) m"
    using valid_civil_of [of n] by (auto simp: valid_civil_def y_def m_def)
  have "n = month_first y m + civil_day n - 1"
    using day_number_civil [of n] day_number_first [of y m "civil_day n"] by (simp add: y_def m_def)
  moreover have "norm_year y m = y" "norm_month m = m" using v by (simp_all add: norm_year_def norm_month_def)
  ultimately have "month_first y m \<le> n" "n + 1 \<le> month_first y (m + 1)"
    using v month_first_Suc [of y m] by simp_all
  then show "date_in (zone off) (month_first (civil_year n) (civil_month n)) 0 \<le> now"
    "now < date_in (zone off) (month_first (civil_year n) (civil_month n + 1)) 0"
    using now_in_day [of off now] date_in_le [of "month_first y m" n 0 off]
      date_in_le [of "n + 1" "month_first y (m + 1)" 0 off]
    unfolding n_def [symmetric] y_def [symmetric] m_def [symmetric] by linarith+
qed

definition month_day :: "int \<Rightarrow> int \<Rightarrow> int \<Rightarrow> int \<Rightarrow> int \<times> int \<Rightarrow> int \<Rightarrow> instant" where
  "month_day off y m day hm k = atClamped (zone off) (norm_year y (m + k)) (norm_month (m + k)) day hm"

lemma month_first_norm0: "month_first (norm_year y m) (norm_month m) = month_first y m"
  using month_first_norm [of y m 0] by simp

lemma monthly_recurs:
  fixes off :: int and now :: instant
  assumes "clock sc" "clock ec"
  defines "y \<equiv> civil_year (local_day (zone off) now)" and "m \<equiv> civil_month (local_day (zone off) now)"
  shows "monthly_at (zone off) now a b sc ec = occurrence (month_day off y m a sc) (month_day off y m b ec)"
    and "recurring (\<lambda>k. date_in (zone off) (month_first y (m + k)) 0)
           (month_day off y m a sc) (month_day off y m b ec) now"
proof -
  define base where "base = date_in (zone off) (month_first y m) 0"
  have add: "add_month (zone off) (date_in (zone off) (month_first y j) 0) k
      = date_in (zone off) (month_first y (j + k)) 0" for j k
    using month_first_norm [of y j k]
    by (simp add: add_month_def add_date_def civil_of_first month_first_def [symmetric])
  have "clamped_in (zone off) (date_in (zone off) (month_first y (m + k)) 0) day hm
      = month_day off y m day hm k" for k day hm
    by (simp add: clamped_in_def month_day_def civil_of_first)
  then show "monthly_at (zone off) now a b sc ec = occurrence (month_day off y m a sc) (month_day off y m b ec)"
    by (simp add: monthly_at_def occurrence_def Let_def y_def [symmetric] m_def [symmetric]
        month_first_def [symmetric] add fun_eq_iff add.assoc)
  have "date_in (zone off) (month_first y (m + k)) 0 \<le> month_day off y m day hm k \<and>
        month_day off y m day hm k < date_in (zone off) (month_first y (m + (k + 1))) 0"
    if "clock hm" for day hm k
    using atClamped_inside [OF norm_month_bounds that, of off "norm_year y (m + k)" "m + k" day]
      month_first_norm [of y "m + k" 1] by (simp add: month_day_def month_first_norm0 add.assoc)
  then show "recurring (\<lambda>k. date_in (zone off) (month_first y (m + k)) 0)
      (month_day off y m a sc) (month_day off y m b ec) now"
    using assms(1,2) now_in_month [where off = off and now = now] by (simp add: recurring_def y_def m_def)
qed

definition year_day_at :: "int \<Rightarrow> int \<Rightarrow> presetAnchor \<Rightarrow> int \<times> int \<Rightarrow> int \<Rightarrow> instant" where
  "year_day_at off y a hm k = atClamped (zone off) (y + k) (pa_Month a) (pa_Day a) hm"

lemma yearly_recurs:
  fixes off :: int and now :: instant
  assumes "clock sc" "clock ec" "in_range 1 12 (pa_Month a)" "in_range 1 12 (pa_Month b)"
  defines "y \<equiv> civil_year (local_day (zone off) now)"
  shows "yearly_at (zone off) now a b sc ec = occurrence (year_day_at off y a sc) (year_day_at off y b ec)"
    and "recurring (\<lambda>k. date_in (zone off) (month_first (y + k) 1) 0)
           (year_day_at off y a sc) (year_day_at off y b ec) now"
proof -
  show "yearly_at (zone off) now a b sc ec = occurrence (year_day_at off y a sc) (year_day_at off y b ec)"
    by (simp add: yearly_at_def occurrence_def year_day_at_def y_def Let_def fun_eq_iff add.assoc)
  have "date_in (zone off) (month_first (y + k) 1) 0 \<le> year_day_at off y c hm k \<and>
        year_day_at off y c hm k < date_in (zone off) (month_first (y + (k + 1)) 1) 0"
    if "clock hm" "in_range 1 12 (pa_Month c)" for c hm k
  proof -
    have m: "1 \<le> pa_Month c" "pa_Month c \<le> 12" using that(2) by (simp_all add: in_range_def)
    note i = atClamped_inside [OF m that(1), of off "y + k" "pa_Day c"]
    have "month_first (y + (k + 1)) 1 = month_first (y + k) 13"
      using month_first_year [of "y + k" 1] by (simp add: add.assoc)
    then have "date_in (zone off) (month_first (y + k) (pa_Month c + 1)) 0
        \<le> date_in (zone off) (month_first (y + (k + 1)) 1) 0"
      using month_first_mono [of "pa_Month c + 1" 13 "y + k"] m by (simp add: date_in_le)
    moreover have "date_in (zone off) (month_first (y + k) 1) 0
        \<le> date_in (zone off) (month_first (y + k) (pa_Month c)) 0"
      using month_first_mono [OF m(1)] by (simp add: date_in_le)
    ultimately show ?thesis using i unfolding year_day_at_def by linarith
  qed
  moreover have "date_in (zone off) (month_first y 1) 0 \<le> now" "now < date_in (zone off) (month_first (y + 1) 1) 0"
  proof -
    define m where "m = civil_month (local_day (zone off) now)"
    have m: "1 \<le> m" "m \<le> 12" using valid_civil_of by (simp_all add: m_def valid_civil_def)
    have "date_in (zone off) (month_first y 1) 0 \<le> date_in (zone off) (month_first y m) 0"
      using month_first_mono [OF m(1)] by (simp add: date_in_le)
    moreover have "date_in (zone off) (month_first y (m + 1)) 0 \<le> date_in (zone off) (month_first (y + 1) 1) 0"
      using month_first_mono [of "m + 1" 13 y] month_first_year [of y 1] m by (simp add: date_in_le)
    ultimately show "date_in (zone off) (month_first y 1) 0 \<le> now"
      "now < date_in (zone off) (month_first (y + 1) 1) 0"
      using now_in_month [where off = off and now = now] unfolding y_def [symmetric] m_def [symmetric]
      by linarith+
  qed
  ultimately show "recurring (\<lambda>k. date_in (zone off) (month_first (y + k) 1) 0)
      (year_day_at off y a sc) (year_day_at off y b ec) now"
    using assms(1-4) by (simp add: recurring_def)
qed

section \<open>The resolver\<close>

lemma windowAt_recurs:
  assumes "windowAt (zone off) now freq start stop = Some at"
  obtains P s e where "at = occurrence s e" "recurring P s e now"
proof -
  obtain sc ec where p: "parseHHMM (pa_Time start) = Some sc" "parseHHMM (pa_Time stop) = Some ec"
    using assms by (auto simp: windowAt_def split: option.splits)
  note c = parseHHMM_clock [OF p(1)] parseHHMM_clock [OF p(2)]
  consider "at = daily_at (zone off) now sc ec"
    | "at = weekly_at (zone off) now (pa_Weekday start) (pa_Weekday stop) sc ec"
      "in_range 0 6 (pa_Weekday start)" "in_range 0 6 (pa_Weekday stop)"
    | "at = monthly_at (zone off) now (pa_Day start) (pa_Day stop) sc ec"
    | "at = yearly_at (zone off) now start stop sc ec"
      "in_range 1 12 (pa_Month start)" "in_range 1 12 (pa_Month stop)"
    using assms p by (auto simp: windowAt_def split: if_splits)
  then show ?thesis
  proof cases
    case 1
    then show ?thesis using daily_recurs [OF c, of off now] that by metis
  next
    case 2
    then show ?thesis using weekly_recurs [OF c 2(2,3), of off now] that by metis
  next
    case 3
    then show ?thesis using monthly_recurs [OF c, of off now] that by metis
  next
    case 4
    then show ?thesis using yearly_recurs [OF c 4(2,3), of off now] that by metis
  qed
qed

lemma nextInterval_recurs:
  assumes "windowAt (zone off) now freq start stop = Some at"
  obtains j where "nextInterval freq start stop now (zone off) = Some (at j)" "fst (at j) < snd (at j)"
    "now < snd (at j)" "\<forall>i<j. snd (at i) \<le> now"
    "fst (at j) \<le> now \<longleftrightarrow> (\<exists>k. fst (at k) \<le> now \<and> now < snd (at k))"
proof -
  obtain P s e where at: "at = occurrence s e" and r: "recurring P s e now"
    using assms by (rule windowAt_recurs)
  have f: "fst (occurrence s e k) = s k" for k by (simp add: occurrence_def window_def)
  obtain j where j: "first_open (occurrence s e) now (-1) 801 = Some (occurrence s e j)"
    "now < snd (occurrence s e j)" "s j \<le> now \<longleftrightarrow> (\<exists>k. s k \<le> now \<and> now < snd (occurrence s e k))"
    "\<forall>i<j. snd (occurrence s e i) \<le> now"
    using first_open_recurring [OF r, of 801] by auto
  show ?thesis
    by (rule that [of j]) (use j assms occurrence_bounds(1) [OF r] in \<open>simp_all add: nextInterval_def at f\<close>)
qed

text \<open>
  A valid preset window always resolves, in every zone with a fixed offset: the answer is
  an occurrence of the rule that ends after now and after which it began, every earlier occurrence is
  over, and it has begun exactly when now lies inside some occurrence. The scan of 801 occurrences
  never runs out, and clamped month days and windows that wrap their period are covered.
\<close>

theorem preset_window_resolves:
  assumes "windowAt (\<lambda>_. off) now freq start stop = Some at"
  shows "\<exists>j. nextInterval freq start stop now (\<lambda>_. off) = Some (at j) \<and>
     fst (at j) < snd (at j) \<and> now < snd (at j) \<and> (\<forall>i<j. snd (at i) \<le> now) \<and>
     (fst (at j) \<le> now \<longleftrightarrow> (\<exists>k. fst (at k) \<le> now \<and> now < snd (at k)))"
  using nextInterval_recurs [OF assms] by metis

definition demo_anchor :: "string \<Rightarrow> presetAnchor" where
  "demo_anchor t = \<lparr>pa_Weekday = 0, pa_Month = 0, pa_Day = 0, pa_Time = t\<rparr>"

lemma demo_windows: "windowAt (\<lambda>_. 28800) now ''daily'' (demo_anchor ''22:00'') (demo_anchor ''6:30'')
    = Some (daily_at (\<lambda>_. 28800) now (22, 0) (6, 30))"
proof -
  have "parseHHMM ''22:00'' = Some (22, 0)" "parseHHMM ''6:30'' = Some (6, 30)" by code_simp+
  then show ?thesis by (simp add: windowAt_def demo_anchor_def)
qed

lemma preset_window_resolves_witness:
  "nextInterval ''daily'' (demo_anchor ''22:00'') (demo_anchor ''6:30'') 1700000000000000000 (\<lambda>_. 28800) \<noteq> None"
  using preset_window_resolves [OF demo_windows [of 1700000000000000000]] by fastforce

text \<open>The union of the windows of a preset holds now.\<close>

definition inside_window :: "location \<Rightarrow> instant \<Rightarrow> string \<Rightarrow> presetInterval \<Rightarrow> bool" where
  "inside_window loc now freq iv =
     (case windowAt loc now freq (pi_Start iv) (pi_Stop iv) of None \<Rightarrow> False
      | Some at \<Rightarrow> \<exists>k. fst (at k) \<le> now \<and> now < snd (at k))"

lemma interval_inside:
  "(case nextInterval freq (pi_Start iv) (pi_Stop iv) now (zone off) of None \<Rightarrow> False
    | Some (s, e) \<Rightarrow> s \<le> now \<and> now < e) = inside_window (zone off) now freq iv"
proof (cases "windowAt (zone off) now freq (pi_Start iv) (pi_Stop iv)")
  case None
  then show ?thesis by (simp add: inside_window_def nextInterval_def)
next
  case (Some at)
  obtain j where "nextInterval freq (pi_Start iv) (pi_Stop iv) now (zone off) = Some (at j)" "now < snd (at j)"
    "fst (at j) \<le> now \<longleftrightarrow> (\<exists>k. fst (at k) \<le> now \<and> now < snd (at k))"
    using nextInterval_recurs [OF Some] by metis
  then show ?thesis using Some by (simp add: inside_window_def case_prod_beta)
qed

lemma blockEnd_None:
  "blockEnd freq ivs now (zone off) best = None \<longleftrightarrow>
     best = None \<and> (\<forall>iv\<in>set ivs. \<not> inside_window (zone off) now freq iv)"
proof (induction ivs arbitrary: best)
  case (Cons iv ivs)
  show ?case
    using Cons interval_inside [where freq = freq and iv = iv and now = now and off = off] by (auto split: option.splits if_splits)
qed simp

text \<open>
  An inverted preset blocks exactly inside its windows: a run that must stay outside is held
  back if and only if now lies in some occurrence of some interval of the snapshot, in every zone with
  a fixed offset.
\<close>

theorem inverted_preset_blocks_inside:
  "invertBlocksNow (Preset snap) now (\<lambda>_. off) \<longleftrightarrow>
     sn_Invert snap \<and> (\<exists>iv\<in>set (sn_Intervals snap). inside_window (\<lambda>_. off) now (sn_Freq snap) iv)"
  using blockEnd_None [where freq = "sn_Freq snap" and ivs = "sn_Intervals snap" and best = None]
  by (auto simp: invertBlocksNow_def)

end
