(* ===== verification/Batch_Store.thy ===== *)
theory Batch_Store
  imports Batch_Engine Run_Preset Row_Table
begin

text \<open>
  The tables of the batch feature and every statement that changes them (internal/app/batch_store.go).
  A row keeps the columns of the schema; the input document of an item is carried as its JSON text and
  the preset column of a job as the three cases of \<open>presetCol\<close>. The stored wall clock \<open>nowStr()\<close> is
  an argument. A transaction is one function; failures of the database itself, the notification
  records written beside a finished job and the plugin tables are not modelled.
\<close>

section \<open>Rows\<close>

record BatchJob =
  bj_ID :: int
  bj_TargetID :: int
  bj_Status :: string
  bj_Priority :: string
  bj_Concurrency :: int
  bj_MaxRetries :: int
  bj_Total :: int
  bj_Succeeded :: int
  bj_Partial :: int
  bj_Failed :: int
  bj_CreatedBy :: string
  bj_CreatedAt :: string
  bj_StartedAt :: string
  bj_FinishedAt :: string
  bj_RunAt :: string
  bj_RunPreset :: presetCol

record BatchItem =
  bi_ID :: int
  bi_JobID :: int
  bi_RowIndex :: int
  bi_Inputs :: string
  bi_Status :: string
  bi_Attempts :: int
  bi_RunID :: string
  bi_ConvID :: string
  bi_TaskID :: string
  bi_DifyStartedAt :: string
  bi_Error :: string
  bi_StartedAt :: string
  bi_FinishedAt :: string

record batchDb =
  db_jobs :: "BatchJob list"
  db_items :: "BatchItem list"

definition maxBatchRows :: int where "maxBatchRows = 5000"

definition itemStatus :: "Outcome \<Rightarrow> string" where
  "itemStatus o' = (case o' of Ok \<Rightarrow> ''succeeded'' | Partial \<Rightarrow> ''partial'' | Untracked \<Rightarrow> ''untracked''
     | Failed \<Rightarrow> ''failed'')"

definition upd_items :: "(BatchItem \<Rightarrow> bool) \<Rightarrow> (BatchItem \<Rightarrow> BatchItem) \<Rightarrow> batchDb \<Rightarrow> batchDb" where
  "upd_items P f db = db\<lparr>db_items := update_where P f (db_items db)\<rparr>"

definition upd_jobs :: "(BatchJob \<Rightarrow> bool) \<Rightarrow> (BatchJob \<Rightarrow> BatchJob) \<Rightarrow> batchDb \<Rightarrow> batchDb" where
  "upd_jobs P f db = db\<lparr>db_jobs := update_where P f (db_jobs db)\<rparr>"

definition items_with :: "(BatchItem \<Rightarrow> bool) \<Rightarrow> batchDb \<Rightarrow> BatchItem list" where
  "items_with P db = filter P (db_items db)"

definition count_items :: "(BatchItem \<Rightarrow> bool) \<Rightarrow> batchDb \<Rightarrow> int" where
  "count_items P db = int (length (items_with P db))"

text \<open>\<open>CASE WHEN ? <> '' THEN ? ELSE column END\<close>.\<close>

definition keep_nonempty :: "string \<Rightarrow> string \<Rightarrow> string" where
  "keep_nonempty v column = (if v \<noteq> [] then v else column)"

section \<open>Items\<close>

definition QueuedItems :: "batchDb \<Rightarrow> int \<Rightarrow> BatchItem list" where
  "QueuedItems db jobID =
     sort_key bi_RowIndex (items_with (\<lambda>i. bi_JobID i = jobID \<and> bi_Status i = ''queued'') db)"

definition finish_assign :: "string \<Rightarrow> Outcome \<Rightarrow> int \<Rightarrow> string \<Rightarrow> string \<Rightarrow> BatchItem \<Rightarrow> BatchItem" where
  "finish_assign now st attempts runID detail i =
     i\<lparr>bi_Status := itemStatus st, bi_Attempts := attempts, bi_RunID := keep_nonempty runID (bi_RunID i),
       bi_Error := detail, bi_FinishedAt := now\<rparr>"

definition FinishItem :: "string \<Rightarrow> int \<Rightarrow> Outcome \<Rightarrow> int \<Rightarrow> string \<Rightarrow> string \<Rightarrow> batchDb \<Rightarrow> batchDb" where
  "FinishItem now iid st attempts runID detail =
     upd_items (\<lambda>i. bi_ID i = iid) (finish_assign now st attempts runID detail)"

definition SaveItemDifyRef :: "int \<Rightarrow> string \<Rightarrow> string \<Rightarrow> string \<Rightarrow> batchDb \<Rightarrow> batchDb" where
  "SaveItemDifyRef iid runID convID taskID =
     upd_items (\<lambda>i. bi_ID i = iid)
       (\<lambda>i. i\<lparr>bi_RunID := keep_nonempty runID (bi_RunID i), bi_ConvID := keep_nonempty convID (bi_ConvID i),
              bi_TaskID := keep_nonempty taskID (bi_TaskID i)\<rparr>)"

definition MarkItemDifyStarted :: "string \<Rightarrow> int \<Rightarrow> batchDb \<Rightarrow> batchDb" where
  "MarkItemDifyStarted now iid =
     upd_items (\<lambda>i. bi_ID i = iid \<and> bi_DifyStartedAt i = []) (\<lambda>i. i\<lparr>bi_DifyStartedAt := now\<rparr>)"

definition start_assign :: "string \<Rightarrow> BatchItem \<Rightarrow> BatchItem" where
  "start_assign now i = i\<lparr>bi_Status := ''running'', bi_StartedAt := now\<rparr>"

definition MarkItemRunning :: "string \<Rightarrow> int \<Rightarrow> batchDb \<Rightarrow> bool \<times> batchDb" where
  "MarkItemRunning now iid db =
     (let P = (\<lambda>i. bi_ID i = iid \<and> bi_Status i = ''queued'')
      in (count_items P db = 1, upd_items P (start_assign now) db))"

definition cancel_assign :: "string \<Rightarrow> BatchItem \<Rightarrow> BatchItem" where
  "cancel_assign now i = i\<lparr>bi_Status := ''cancelled'', bi_FinishedAt := now\<rparr>"

definition CancelQueuedItem :: "string \<Rightarrow> int \<Rightarrow> batchDb \<Rightarrow> bool \<times> batchDb" where
  "CancelQueuedItem now iid db =
     (let P = (\<lambda>i. bi_ID i = iid \<and> bi_Status i = ''queued'')
      in (count_items P db = 1, upd_items P (cancel_assign now) db))"

definition FinishItemCancelled :: "string \<Rightarrow> int \<Rightarrow> batchDb \<Rightarrow> batchDb" where
  "FinishItemCancelled now iid = upd_items (\<lambda>i. bi_ID i = iid) (cancel_assign now)"

definition ItemJobAndStatus :: "batchDb \<Rightarrow> int \<Rightarrow> (int \<times> string) option" where
  "ItemJobAndStatus db iid = map_option (\<lambda>i. (bi_JobID i, bi_Status i)) (find (\<lambda>i. bi_ID i = iid) (db_items db))"

definition RunningItemCount :: "batchDb \<Rightarrow> int" where
  "RunningItemCount db = count_items (\<lambda>i. bi_Status i = ''running'') db"

section \<open>Crash recovery\<close>

definition has_handle :: "BatchItem \<Rightarrow> bool" where
  "has_handle i \<longleftrightarrow> bi_RunID i \<noteq> [] \<or> bi_ConvID i \<noteq> []"

definition shows_start :: "BatchItem \<Rightarrow> bool" where
  "shows_start i \<longleftrightarrow> has_handle i \<or> bi_TaskID i \<noteq> [] \<or> bi_DifyStartedAt i \<noteq> []"

definition ResetInFlightItems :: "batchDb \<Rightarrow> batchDb" where
  "ResetInFlightItems =
     upd_items (\<lambda>i. bi_Status i = ''running'' \<and> bi_RunID i = [] \<and> bi_ConvID i = [] \<and> bi_TaskID i = [] \<and>
                    bi_DifyStartedAt i = []) (\<lambda>i. i\<lparr>bi_Status := ''queued''\<rparr>)"

definition ResumableInFlightItems :: "batchDb \<Rightarrow> BatchItem list" where
  "ResumableInFlightItems = items_with (\<lambda>i. bi_Status i = ''running'' \<and> (bi_RunID i \<noteq> [] \<or> bi_ConvID i \<noteq> []))"

definition StartedUnreconcilableItems :: "batchDb \<Rightarrow> BatchItem list" where
  "StartedUnreconcilableItems =
     items_with (\<lambda>i. bi_Status i = ''running'' \<and> bi_RunID i = [] \<and> bi_ConvID i = [] \<and>
                     (bi_TaskID i \<noteq> [] \<or> bi_DifyStartedAt i \<noteq> []))"

definition ItemReconcileRef :: "batchDb \<Rightarrow> int \<Rightarrow> BatchItem option" where
  "ItemReconcileRef db iid = find (\<lambda>i. bi_ID i = iid) (db_items db)"

definition job_ids_in :: "string list \<Rightarrow> batchDb \<Rightarrow> int list" where
  "job_ids_in statuses db = sort (map bj_ID (filter (\<lambda>j. bj_Status j \<in> set statuses) (db_jobs db)))"

definition ResumableJobIDs :: "batchDb \<Rightarrow> int list" where
  "ResumableJobIDs = job_ids_in [''running'', ''cancelling'']"

definition CancellingJobIDs :: "batchDb \<Rightarrow> int list" where
  "CancellingJobIDs = job_ids_in [''cancelling'']"

section \<open>Jobs\<close>

definition GetBatchJob :: "batchDb \<Rightarrow> int \<Rightarrow> BatchJob option" where
  "GetBatchJob db jobID = find (\<lambda>j. bj_ID j = jobID) (db_jobs db)"

fun new_items :: "int \<Rightarrow> int \<Rightarrow> int \<Rightarrow> string list \<Rightarrow> BatchItem list" where
  "new_items iid jobID idx [] = []"
| "new_items iid jobID idx (row # rows) =
     \<lparr>bi_ID = iid, bi_JobID = jobID, bi_RowIndex = idx, bi_Inputs = row, bi_Status = ''queued'',
      bi_Attempts = 0, bi_RunID = [], bi_ConvID = [], bi_TaskID = [], bi_DifyStartedAt = [], bi_Error = [],
      bi_StartedAt = [], bi_FinishedAt = []\<rparr> # new_items (iid + 1) jobID (idx + 1) rows"

text \<open>The fresh ids are the next free job id and the first of a block of free item ids.\<close>

definition CreateBatchJob ::
  "string \<Rightarrow> int \<times> int \<Rightarrow> int \<Rightarrow> int \<Rightarrow> int \<Rightarrow> string \<Rightarrow> string list \<Rightarrow> string \<Rightarrow> batchDb \<Rightarrow>
   string + int \<times> batchDb" where
  "CreateBatchJob now fresh targetID concurrency maxRetries createdBy rows priority db =
     (if rows = [] then Inl ''batch job has no rows''
      else if maxBatchRows < int (length rows) then Inl ''too many batch rows''
      else let jobID = fst fresh;
               job = \<lparr>bj_ID = jobID, bj_TargetID = targetID, bj_Status = ''queued'',
                      bj_Priority = (if priority = [] then ''normal'' else priority),
                      bj_Concurrency = concurrency, bj_MaxRetries = maxRetries, bj_Total = int (length rows),
                      bj_Succeeded = 0, bj_Partial = 0, bj_Failed = 0, bj_CreatedBy = createdBy,
                      bj_CreatedAt = now, bj_StartedAt = [], bj_FinishedAt = [], bj_RunAt = [],
                      bj_RunPreset = NoPreset\<rparr>
           in Inr (jobID, db\<lparr>db_jobs := db_jobs db @ [job],
                             db_items := db_items db @ new_items (snd fresh) jobID 0 rows\<rparr>))"

definition of_job :: "int \<Rightarrow> BatchItem \<Rightarrow> bool" where
  "of_job jobID i \<longleftrightarrow> bi_JobID i = jobID"

definition job_count :: "string \<Rightarrow> int \<Rightarrow> batchDb \<Rightarrow> int" where
  "job_count status jobID db = count_items (\<lambda>i. of_job jobID i \<and> bi_Status i = status) db"

record jobCounts =
  jc_queued :: int
  jc_running :: int
  jc_succeeded :: int
  jc_partial :: int
  jc_failed :: int
  jc_cancelled :: int

definition LiveJobCounts :: "batchDb \<Rightarrow> int \<Rightarrow> jobCounts" where
  "LiveJobCounts db jobID =
     \<lparr>jc_queued = job_count ''queued'' jobID db, jc_running = job_count ''running'' jobID db,
      jc_succeeded = job_count ''succeeded'' jobID db, jc_partial = job_count ''partial'' jobID db,
      jc_failed = job_count ''failed'' jobID db, jc_cancelled = job_count ''cancelled'' jobID db\<rparr>"

definition FinishJob :: "string \<Rightarrow> int \<Rightarrow> bool \<Rightarrow> batchDb \<Rightarrow> batchDb" where
  "FinishJob now jobID cancelled db =
     upd_jobs (\<lambda>j. bj_ID j = jobID)
       (\<lambda>j. j\<lparr>bj_Status := (if cancelled then ''cancelled'' else ''finished''),
              bj_Total := count_items (of_job jobID) db, bj_Succeeded := job_count ''succeeded'' jobID db,
              bj_Partial := job_count ''partial'' jobID db, bj_Failed := job_count ''failed'' jobID db,
              bj_FinishedAt := now\<rparr>) db"

definition jobs_by_id :: "(BatchJob \<Rightarrow> bool) \<Rightarrow> batchDb \<Rightarrow> BatchJob list" where
  "jobs_by_id P db = sort_key bj_ID (filter P (db_jobs db))"

definition QueuedJobs :: "batchDb \<Rightarrow> BatchJob list" where
  "QueuedJobs = jobs_by_id (\<lambda>j. bj_Status j = ''queued'')"

text \<open>\<open>SchedulableJobs\<close>, each with its running and live (queued or running) item counts.\<close>

definition schedulable :: "BatchJob \<Rightarrow> bool" where
  "schedulable j \<longleftrightarrow> bj_Status j = ''queued'' \<or> bj_Status j = ''running''"

definition runningItems :: "batchDb \<Rightarrow> BatchJob \<Rightarrow> int" where
  "runningItems db j = job_count ''running'' (bj_ID j) db"

definition liveItems :: "batchDb \<Rightarrow> BatchJob \<Rightarrow> int" where
  "liveItems db j = count_items (\<lambda>i. of_job (bj_ID j) i \<and> bi_Status i \<in> {''queued'', ''running''}) db"

definition SchedulableJobs :: "batchDb \<Rightarrow> BatchJob list" where
  "SchedulableJobs = jobs_by_id schedulable"

definition MarkJobRunning :: "string \<Rightarrow> int \<Rightarrow> batchDb \<Rightarrow> bool \<times> batchDb" where
  "MarkJobRunning now jobID db =
     (let P = (\<lambda>j. bj_ID j = jobID \<and> bj_Status j = ''queued'')
      in (length (filter P (db_jobs db)) = 1,
          upd_jobs P (\<lambda>j. j\<lparr>bj_Status := ''running'', bj_StartedAt := now\<rparr>) db))"

definition RunningJobCount :: "batchDb \<Rightarrow> string \<Rightarrow> int" where
  "RunningJobCount db owner =
     int (length (filter (\<lambda>j. bj_Status j \<in> {''running'', ''cancelling''} \<and> (owner = [] \<or> bj_CreatedBy j = owner))
       (db_jobs db)))"

definition ActiveJobCount :: "batchDb \<Rightarrow> string \<Rightarrow> int" where
  "ActiveJobCount db username =
     int (length (filter (\<lambda>j. bj_CreatedBy j = username \<and> bj_Status j \<in> {''queued'', ''running'', ''cancelling''})
       (db_jobs db)))"

definition SetJobPriority :: "int \<Rightarrow> string \<Rightarrow> batchDb \<Rightarrow> batchDb" where
  "SetJobPriority jobID priority = upd_jobs (\<lambda>j. bj_ID j = jobID) (\<lambda>j. j\<lparr>bj_Priority := priority\<rparr>)"

definition ClearSchedule :: "int \<Rightarrow> batchDb \<Rightarrow> batchDb" where
  "ClearSchedule jobID = upd_jobs (\<lambda>j. bj_ID j = jobID) (\<lambda>j. j\<lparr>bj_RunAt := []\<rparr>)"

definition ScheduleJob :: "int \<Rightarrow> string \<Rightarrow> batchDb \<Rightarrow> batchDb" where
  "ScheduleJob jobID runAt =
     (if runAt = [] then ClearSchedule jobID
      else upd_jobs (\<lambda>j. bj_ID j = jobID) (\<lambda>j. j\<lparr>bj_RunAt := runAt\<rparr>))"

definition SetJobWindow :: "int \<Rightarrow> string \<Rightarrow> presetCol \<Rightarrow> batchDb \<Rightarrow> batchDb" where
  "SetJobWindow jobID runAt runPreset =
     upd_jobs (\<lambda>j. bj_ID j = jobID) (\<lambda>j. j\<lparr>bj_RunAt := runAt, bj_RunPreset := runPreset\<rparr>)"

definition ClearJobWindow :: "int \<Rightarrow> batchDb \<Rightarrow> batchDb" where
  "ClearJobWindow jobID =
     upd_jobs (\<lambda>j. bj_ID j = jobID) (\<lambda>j. j\<lparr>bj_RunAt := [], bj_RunPreset := NoPreset\<rparr>)"

definition ExpireJob :: "string \<Rightarrow> int \<Rightarrow> batchDb \<Rightarrow> batchDb" where
  "ExpireJob now jobID =
     upd_jobs (\<lambda>j. bj_ID j = jobID \<and> bj_Status j = ''queued'')
       (\<lambda>j. j\<lparr>bj_Status := ''expired'', bj_FinishedAt := now\<rparr>)"

definition QueuedPresetJobs :: "batchDb \<Rightarrow> BatchJob list" where
  "QueuedPresetJobs = jobs_by_id (\<lambda>j. bj_Status j = ''queued'' \<and> bj_RunPreset j \<noteq> NoPreset)"

definition DeleteBatchJob :: "int \<Rightarrow> batchDb \<Rightarrow> batchDb" where
  "DeleteBatchJob jobID db =
     db\<lparr>db_items := filter (\<lambda>i. bi_JobID i \<noteq> jobID) (db_items db),
        db_jobs := filter (\<lambda>j. bj_ID j \<noteq> jobID) (db_jobs db)\<rparr>"

definition DeleteFinishedJobs :: "batchDb \<Rightarrow> int \<times> batchDb" where
  "DeleteFinishedJobs db =
     (let ids = map bj_ID (filter (\<lambda>j. bj_Status j \<in> {''finished'', ''cancelled''}) (db_jobs db))
      in (int (length ids), fold DeleteBatchJob ids db))"

definition CancelBatchJob :: "string \<Rightarrow> int \<Rightarrow> batchDb \<Rightarrow> batchDb" where
  "CancelBatchJob now jobID db =
     (let P = (\<lambda>j. bj_ID j = jobID \<and> bj_Status j = ''queued'')
      in if length (filter P (db_jobs db)) = 1
         then upd_jobs P (\<lambda>j. j\<lparr>bj_Status := ''cancelled'', bj_FinishedAt := now\<rparr>) db
         else upd_jobs (\<lambda>j. bj_ID j = jobID \<and> bj_Status j = ''running'')
                (\<lambda>j. j\<lparr>bj_Status := ''cancelling''\<rparr>) db)"

definition requeue_assign :: "BatchItem \<Rightarrow> BatchItem" where
  "requeue_assign i = i\<lparr>bi_Status := ''queued'', bi_Error := [], bi_RunID := [], bi_ConvID := [],
     bi_TaskID := [], bi_StartedAt := [], bi_FinishedAt := []\<rparr>"

definition RequeueItems :: "int \<Rightarrow> string list \<Rightarrow> batchDb \<Rightarrow> int \<times> batchDb" where
  "RequeueItems jobID statuses db =
     (let wanted = (if statuses = [] then [''failed''] else statuses);
          P = (\<lambda>i. bi_JobID i = jobID \<and> bi_Status i \<in> set wanted)
      in (count_items P db,
          upd_jobs (\<lambda>j. bj_ID j = jobID) (\<lambda>j. j\<lparr>bj_Status := ''queued'', bj_FinishedAt := []\<rparr>)
            (upd_items P requeue_assign db)))"

end
