(* ===== verification/Go_Float.thy ===== *)
theory Go_Float
  imports Prelude Complex_Main
begin

text \<open>
  Go's \<open>float64\<close> as far as the run queue uses it: a real number, with every operation rounded to the
  nearest double, ties to even. The rounding covers normal and subnormal numbers; overflow to an
  infinity and NaN are outside the model. The locale \<open>int_rounding\<close> states what the scores rely on,
  that rounding never crosses an integer of at most 53 bits, and is interpreted on the rounding.
\<close>

section \<open>Rounding to a double\<close>

definition round_even :: "real \<Rightarrow> int" where
  "round_even x = (let f = \<lfloor>x\<rfloor>; r = x - of_int f
                   in if r < 1 / 2 then f else if 1 / 2 < r then f + 1
                      else if even f then f else f + 1)"

definition ulp_exp :: "real \<Rightarrow> int" where
  "ulp_exp x = max (- 1074) (\<lfloor>log 2 \<bar>x\<bar>\<rfloor> - 52)"

definition fl64 :: "real \<Rightarrow> real" where
  "fl64 x = (if x = 0 then 0
             else of_int (round_even (x / 2 powr of_int (ulp_exp x))) * 2 powr of_int (ulp_exp x))"

lemma round_even_ge: "of_int n \<le> x \<Longrightarrow> n \<le> round_even x"
  by (simp add: le_floor_iff [symmetric] round_even_def Let_def)

lemma round_even_le: "x \<le> of_int n \<Longrightarrow> round_even x \<le> n"
proof -
  assume x: "x \<le> of_int n"
  have f: "\<lfloor>x\<rfloor> \<le> n" using x by linarith
  show "round_even x \<le> n"
  proof (cases "\<lfloor>x\<rfloor> = n")
    case True
    then have "x - of_int \<lfloor>x\<rfloor> \<le> 0" using x by simp
    then show ?thesis using True by (simp add: round_even_def Let_def)
  next
    case False
    then show ?thesis using f by (simp add: round_even_def Let_def)
  qed
qed

lemma small_ulp:
  assumes "\<bar>x\<bar> < 2 ^ 53" "x \<noteq> 0"
  shows "ulp_exp x \<le> 0"
proof -
  have "log 2 \<bar>x\<bar> < 53" using assms by (simp add: log_less_iff powr_realpow)
  then have "\<lfloor>log 2 \<bar>x\<bar>\<rfloor> < 53" by (simp add: floor_less_iff)
  then show ?thesis by (simp add: ulp_exp_def)
qed

lemma big_ulp:
  assumes "0 < ulp_exp x" "x \<noteq> 0"
  shows "2 ^ 52 * 2 powr of_int (ulp_exp x) \<le> \<bar>x\<bar>" "2 \<le> 2 powr real_of_int (ulp_exp x)"
proof -
  have e: "ulp_exp x = \<lfloor>log 2 \<bar>x\<bar>\<rfloor> - 52" using assms(1) by (simp add: ulp_exp_def max_def split: if_splits)
  have p: "(2 :: real) ^ 52 = 2 powr 52" by (simp add: powr_realpow)
  have "(2 :: real) ^ 52 * 2 powr of_int (ulp_exp x) = 2 powr of_int \<lfloor>log 2 \<bar>x\<bar>\<rfloor>"
    unfolding p powr_add [symmetric] e by simp
  also have "\<dots> \<le> 2 powr (log 2 \<bar>x\<bar>)" by (rule powr_mono) simp_all
  also have "\<dots> = \<bar>x\<bar>" using assms(2) by simp
  finally show "2 ^ 52 * 2 powr of_int (ulp_exp x) \<le> \<bar>x\<bar>" .
  have "(2 :: real) powr 1 \<le> 2 powr of_int (ulp_exp x)" using assms(1) by (intro powr_mono) simp_all
  then show "2 \<le> 2 powr real_of_int (ulp_exp x)" by simp
qed

lemma scaled_int:
  assumes "e \<le> 0"
  shows "real_of_int n / 2 powr of_int e = of_int (n * 2 ^ nat (- e))"
proof -
  have "2 powr real_of_int e = 1 / 2 ^ nat (- e)"
    using assms by (simp add: powr_realpow [symmetric] powr_minus [symmetric] field_simps powr_add [symmetric])
  then show ?thesis by simp
qed

lemma fl64_lower:
  assumes n: "\<bar>n\<bar> < 2 ^ 53" and x: "of_int n \<le> x"
  shows "of_int n \<le> fl64 x"
proof (cases "x = 0")
  case True
  then show ?thesis using x by (simp add: fl64_def)
next
  case False
  define u where "u = 2 powr real_of_int (ulp_exp x)"
  have u: "0 < u" by (simp add: u_def)
  have fl: "fl64 x = of_int (round_even (x / u)) * u" using False by (simp add: fl64_def u_def)
  show ?thesis
  proof (cases "ulp_exp x \<le> 0")
    case True
    have "of_int (n * 2 ^ nat (- ulp_exp x)) = of_int n / u"
      using scaled_int [OF True, of n] by (simp add: u_def)
    also have "\<dots> \<le> x / u" using x u by (simp add: divide_right_mono)
    finally have "n * 2 ^ nat (- ulp_exp x) \<le> round_even (x / u)" by (rule round_even_ge)
    then have "real_of_int (n * 2 ^ nat (- ulp_exp x)) \<le> of_int (round_even (x / u))"
      by (simp only: of_int_le_iff)
    then have "of_int n / u \<le> of_int (round_even (x / u))"
      using scaled_int [OF True, of n] by (simp add: u_def)
    then show ?thesis using u by (simp add: fl pos_divide_le_eq)
  next
    case False
    then have e: "0 < ulp_exp x" by simp
    note b = big_ulp [OF e \<open>x \<noteq> 0\<close>, folded u_def]
    have "(2 :: real) ^ 53 = 2 ^ 52 * 2" by simp
    also have "\<dots> \<le> 2 ^ 52 * u" using b(2) by (intro mult_left_mono) simp_all
    finally have ub: "2 ^ 53 \<le> 2 ^ 52 * u" .
    then have big: "2 ^ 53 \<le> \<bar>x\<bar>" using b(1) by linarith
    have "real_of_int \<bar>n\<bar> < 2 ^ 53" using n by (simp only: of_int_less_iff [symmetric, where 'a = real]) simp
    then have nb: "- (2 ^ 53) < real_of_int n" "real_of_int n < 2 ^ 53" by auto
    have "0 < x" using big nb x by linarith
    then have "2 ^ 52 \<le> x / u" using b(1) u by (simp add: pos_le_divide_eq)
    then have "2 ^ 52 \<le> round_even (x / u)" by (intro round_even_ge) simp
    then have "(2 :: real) ^ 52 \<le> of_int (round_even (x / u))"
      by (simp only: of_int_le_iff [symmetric, where 'a = real]) simp
    then have "2 ^ 52 * u \<le> fl64 x" using u by (simp add: fl)
    then show ?thesis using ub nb(2) by linarith
  qed
qed

lemma round_even_minus: "round_even (- x) = - round_even x"
proof (cases "x = of_int \<lfloor>x\<rfloor>")
  case True
  then have x: "x = of_int n" if "n = \<lfloor>x\<rfloor>" for n using that by simp
  have "round_even (of_int n) = n" for n by (simp add: round_even_def)
  then show ?thesis using True by (metis of_int_minus)
next
  case False
  then have f: "\<lfloor>- x\<rfloor> = - \<lfloor>x\<rfloor> - 1" by (simp add: floor_minus) linarith
  have r: "- x - of_int \<lfloor>- x\<rfloor> = 1 - (x - of_int \<lfloor>x\<rfloor>)" by (simp add: f)
  show ?thesis by (auto simp: round_even_def Let_def r f)
qed

lemma fl64_minus: "fl64 (- x) = - fl64 x"
  by (simp add: fl64_def ulp_exp_def round_even_minus)

lemma fl64_upper:
  assumes "\<bar>n\<bar> < 2 ^ 53" "x \<le> of_int n"
  shows "fl64 x \<le> of_int n"
  using fl64_lower [of "- n" "- x"] assms by (simp add: fl64_minus)

section \<open>What the scores rely on\<close>

locale int_rounding =
  fixes fl :: "real \<Rightarrow> real"
  assumes lower: "\<bar>n\<bar> < 2 ^ 53 \<Longrightarrow> of_int n \<le> x \<Longrightarrow> of_int n \<le> fl x"
    and upper: "\<bar>n\<bar> < 2 ^ 53 \<Longrightarrow> x \<le> of_int n \<Longrightarrow> fl x \<le> of_int n"
begin

lemma exact_int: "\<bar>n\<bar> < 2 ^ 53 \<Longrightarrow> fl (of_int n) = of_int n"
  by (intro antisym lower upper) simp_all

lemma between: "\<bar>m\<bar> < 2 ^ 53 \<Longrightarrow> \<bar>n\<bar> < 2 ^ 53 \<Longrightarrow> of_int m \<le> x \<Longrightarrow> x \<le> of_int n \<Longrightarrow>
  of_int m \<le> fl x \<and> fl x \<le> of_int n"
  using lower upper by blast

end

interpretation double: int_rounding fl64
  by unfold_locales (auto intro: fl64_lower fl64_upper)

lemma fl64_numeral [simp]: "(numeral k :: int) < 2 ^ 53 \<Longrightarrow> fl64 (numeral k) = numeral k"
  using double.exact_int [of "numeral k"] by simp

lemma fl64_simps [simp]: "fl64 0 = 0" "fl64 1 = 1"
  using double.exact_int [of 1] by (simp_all add: fl64_def)

end
