(* ===== verification/Run_Queue.thy ===== *)
theory Run_Queue
  imports Go_Float "HOL-Library.Sublist"
begin

text \<open>
  The run queue's scheduler (internal/queue): the multifactor score of a waiting run, the order it
  gives and the admission of runs against the concurrency budget, with the reserved slots for urgent
  runs. Scores are computed at Go's precision (Go_Float). Admission is \<open>sort.SliceStable\<close> followed by
  one pass over the sorted items.
\<close>

section \<open>Scores (priority.go)\<close>

record Weights =
  w_Base :: real
  w_Age :: real
  w_Fair :: real

record Factors =
  f_Base :: real
  f_Age :: real
  f_Fair :: real
  f_Urgent :: bool
  f_Idle :: bool

definition urgentBoost :: real where "urgentBoost = 1000000000"
definition idleBoost :: real where "idleBoost = 1000000000"

definition Score :: "Weights \<Rightarrow> Factors \<Rightarrow> real" where
  "Score w f =
     (let s = fl64 (fl64 (fl64 (w_Base w * f_Base f) + fl64 (w_Age w * f_Age f))
                    + fl64 (w_Fair w * f_Fair f))
      in if f_Urgent f then fl64 (s + urgentBoost)
         else if f_Idle f then fl64 (s - idleBoost) else s)"

section \<open>Order and admission (scheduler.go)\<close>

record Item =
  it_ID :: int
  it_Score :: real
  it_Urgent :: bool

record Plan =
  pl_Budget :: int
  pl_Reserved :: int

definition byScore_less :: "Item \<Rightarrow> Item \<Rightarrow> bool" where
  "byScore_less a b = (if it_Score a \<noteq> it_Score b then it_Score b < it_Score a else it_ID a < it_ID b)"

definition byScore :: "Item list \<Rightarrow> Item list" where
  "byScore items = stable_sort byScore_less items"

fun admit_loop :: "int \<Rightarrow> int \<Rightarrow> int \<Rightarrow> Item list \<Rightarrow> Item list" where
  "admit_loop reserved free urgentWaiting [] = []"
| "admit_loop reserved free urgentWaiting (it # its) =
     (if free \<le> 0 then []
      else if it_Urgent it then it # admit_loop reserved (free - 1) (urgentWaiting - 1) its
      else let keep = (if urgentWaiting < reserved then urgentWaiting else reserved)
           in if keep < free then it # admit_loop reserved (free - 1) urgentWaiting its
              else admit_loop reserved free urgentWaiting its)"

definition clamp_reserved :: "Plan \<Rightarrow> int" where
  "clamp_reserved plan =
     (let r = (if pl_Budget plan - 1 < pl_Reserved plan then pl_Budget plan - 1 else pl_Reserved plan)
      in if r < 0 then 0 else r)"

definition urgent_count :: "Item list \<Rightarrow> int" where
  "urgent_count its = int (length (filter it_Urgent its))"

definition Admit :: "Item list \<Rightarrow> int \<Rightarrow> Plan \<Rightarrow> Item list" where
  "Admit waiting inFlight plan =
     (let free = pl_Budget plan - inFlight
      in if free \<le> 0 \<or> waiting = [] then []
         else let sorted = byScore waiting
              in admit_loop (clamp_reserved plan) free (urgent_count sorted) sorted)"

definition Ahead :: "Item \<Rightarrow> Item list \<Rightarrow> int" where
  "Ahead item waiting =
     int (length (filter (\<lambda>w. it_ID w \<noteq> it_ID item \<and>
            (it_Score item < it_Score w \<or> it_Score w = it_Score item \<and> it_ID w < it_ID item)) waiting))"

interpretation score_order: go_less byScore_less
  by unfold_locales (auto simp: byScore_less_def split: if_splits)

section \<open>Admission\<close>

lemma urgent_count_simps [simp]:
  "urgent_count [] = 0"
  "urgent_count (it # its) = (if it_Urgent it then 1 else 0) + urgent_count its"
  by (simp_all add: urgent_count_def)

lemma urgent_count_nonneg [simp]: "0 \<le> urgent_count its"
  by (simp add: urgent_count_def)

lemma distinct_map_mset: "mset xs = mset ys \<Longrightarrow> distinct (map f ys) \<Longrightarrow> distinct (map f xs)"
  by (metis mset_eq_imp_distinct_iff mset_map)

lemma urgent_count_mset: "mset xs = mset ys \<Longrightarrow> urgent_count xs = urgent_count ys"
  by (simp add: urgent_count_def) (metis mset_filter size_mset)

definition normal_count :: "Item list \<Rightarrow> int" where
  "normal_count its = int (length its) - urgent_count its"

lemma normal_count_simps [simp]:
  "normal_count [] = 0"
  "normal_count (it # its) = (if it_Urgent it then 0 else 1) + normal_count its"
  by (simp_all add: normal_count_def)

lemma admit_loop_subseq: "subseq (admit_loop r free u its) its"
  by (induction r free u its rule: admit_loop.induct) (auto simp: Let_def)

lemma admit_loop_length: "int (length (admit_loop r free u its)) \<le> max 0 free"
  by (induction r free u its rule: admit_loop.induct) (auto simp: Let_def)

text \<open>The slots kept for urgent runs are not given to the others.\<close>

lemma admit_loop_normal:
  "u = urgent_count its \<Longrightarrow> 0 \<le> r \<Longrightarrow>
   normal_count (admit_loop r free u its) \<le> max 0 (free - min r u)"
  by (induction r free u its rule: admit_loop.induct) (auto simp: Let_def)

lemma admit_loop_urgent:
  "u = urgent_count its \<Longrightarrow> 0 \<le> r \<Longrightarrow>
   min (min r u) (max 0 free) \<le> urgent_count (admit_loop r free u its)"
  by (induction r free u its rule: admit_loop.induct) (auto simp: Let_def)

lemma admit_loop_nonempty:
  "u = urgent_count its \<Longrightarrow> 0 \<le> r \<Longrightarrow> 0 < free \<Longrightarrow> its \<noteq> [] \<Longrightarrow> admit_loop r free u its \<noteq> []"
proof (induction r free u its rule: admit_loop.induct)
  case (2 r free u it its)
  then show ?case by (cases "its = []") (auto simp: Let_def)
qed simp

lemma admit_loop_take:
  "u = urgent_count its \<Longrightarrow> 0 \<le> r \<Longrightarrow> sorted_wrt (\<lambda>a b. it_Urgent b \<longrightarrow> it_Urgent a) its \<Longrightarrow>
   admit_loop r free u its = take (nat free) its"
proof (induction r free u its rule: admit_loop.induct)
  case (2 r free u it its)
  show ?case
  proof (cases "it_Urgent it")
    case True
    then show ?thesis using 2 by (auto simp: take_Cons' nat_diff_distrib)
  next
    case False
    then have "urgent_count its = 0" using 2 by (auto simp: urgent_count_def filter_empty_conv)
    then show ?thesis using 2 False by (auto simp: take_Cons' nat_diff_distrib Let_def)
  qed
qed simp

lemma clamp_reserved_nonneg [simp]: "0 \<le> clamp_reserved plan"
  by (simp add: clamp_reserved_def Let_def)

lemma Admit_loop_eq:
  "\<not> (pl_Budget plan - inFlight \<le> 0 \<or> waiting = []) \<Longrightarrow> Admit waiting inFlight plan =
     admit_loop (clamp_reserved plan) (pl_Budget plan - inFlight) (urgent_count (byScore waiting)) (byScore waiting)"
  by (simp add: Admit_def Let_def)

lemma Admit_length: "int (length (Admit waiting inFlight plan)) \<le> max 0 (pl_Budget plan - inFlight)"
  using admit_loop_length [of "clamp_reserved plan" "pl_Budget plan - inFlight"
      "urgent_count (byScore waiting)" "byScore waiting"]
  by (auto simp: Admit_def Let_def)

text \<open>
  Admission respects the budget and the order: what \<open>Admit\<close> starts is a subsequence of the
  waiting runs in score order, so no run is started twice and none that was not waiting, it never
  exceeds the free slots, and it is not empty while a slot is free and a run waits.
\<close>

theorem admit_within_budget:
  "subseq (Admit waiting inFlight plan) (byScore waiting) \<and>
   int (length (Admit waiting inFlight plan)) \<le> max 0 (pl_Budget plan - inFlight) \<and>
   (Admit waiting inFlight plan = [] \<longleftrightarrow> waiting = [] \<or> pl_Budget plan \<le> inFlight)"
proof (cases "pl_Budget plan - inFlight \<le> 0 \<or> waiting = []")
  case True
  then show ?thesis by (auto simp: Admit_def)
next
  case False
  then have "byScore waiting \<noteq> []" by (auto simp: byScore_def dest: arg_cong [of _ _ length])
  then show ?thesis
    using False admit_loop_subseq
      admit_loop_length [of "clamp_reserved plan" "pl_Budget plan - inFlight" _ "byScore waiting"]
      admit_loop_nonempty [OF refl, where its = "byScore waiting"]
    by (simp add: Admit_loop_eq)
qed

text \<open>
  The reserved lane: while urgent runs wait, at least as many of them are started as there
  are reserved slots, waiting urgent runs and free slots, and the other runs get at most the free slots
  that are left when the reserved ones are held for the urgent runs.
\<close>

theorem reserved_lane:
  "min (min (clamp_reserved plan) (urgent_count waiting)) (max 0 (pl_Budget plan - inFlight))
     \<le> urgent_count (Admit waiting inFlight plan) \<and>
   normal_count (Admit waiting inFlight plan)
     \<le> max 0 (pl_Budget plan - inFlight - min (clamp_reserved plan) (urgent_count waiting))"
proof (cases "pl_Budget plan - inFlight \<le> 0 \<or> waiting = []")
  case True
  then show ?thesis by (auto simp: Admit_def)
next
  case False
  have u: "urgent_count (byScore waiting) = urgent_count waiting"
    by (rule urgent_count_mset) (simp add: byScore_def)
  note l = admit_loop_urgent [OF refl clamp_reserved_nonneg [of plan], where its = "byScore waiting"]
    admit_loop_normal [OF refl clamp_reserved_nonneg [of plan], where its = "byScore waiting"]
  show ?thesis using l [of "pl_Budget plan - inFlight"] False by (simp add: Admit_loop_eq u)
qed

section \<open>Position in the queue\<close>

text \<open>
  The number shown as runs ahead is the position in the queue: with distinct ids, the
  run is found in the score order right after as many runs as \<open>Ahead\<close> counts.
\<close>

theorem ahead_is_position:
  assumes "distinct (map it_ID waiting)" and "it \<in> set waiting"
  shows "nat (Ahead it waiting) < length waiting \<and> byScore waiting ! nat (Ahead it waiting) = it"
proof -
  define before where "before w \<longleftrightarrow> it_ID w \<noteq> it_ID it \<and>
    (it_Score it < it_Score w \<or> it_Score w = it_Score it \<and> it_ID w < it_ID it)" for w :: Item
  have before: "before w \<longleftrightarrow> it_ID w \<noteq> it_ID it \<and> byScore_less w it" for w :: Item
    by (auto simp: before_def byScore_less_def)
  have mset: "mset (byScore waiting) = mset waiting" by (simp add: byScore_def)
  obtain ps qs where s: "byScore waiting = ps @ it # qs"
    using assms(2) split_list [of it "byScore waiting"] by (auto simp: byScore_def)
  have ids: "distinct (map it_ID (ps @ it # qs))"
    using assms(1) mset by (metis distinct_map_mset s)
  have srt: "sorted_wrt (\<lambda>x y. \<not> byScore_less y x) (ps @ it # qs)"
    using score_order.sorted_stable_sort [of waiting] by (simp add: byScore_def [symmetric] s)
  have other: "it_ID w \<noteq> it_ID it" if "w \<in> set ps" for w using that ids by (auto simp: rev_image_eqI)
  have total: "before w \<or> byScore_less it w" if "it_ID w \<noteq> it_ID it" for w
    using that by (auto simp: before_def byScore_less_def)
  have "before w" if "w \<in> set ps" for w
    using that srt other [OF that] total [of w] by (simp add: sorted_wrt_append)
  moreover have "\<not> before w" if "w \<in> set qs" for w
    using that srt unfolding before by (simp add: sorted_wrt_append)
  moreover have "\<not> before it" by (simp add: before_def)
  ultimately have "filter before (byScore waiting) = ps"
    unfolding s by (simp add: filter_id_conv filter_empty_conv)
  moreover have "length (filter before waiting) = length (filter before (byScore waiting))"
    using mset by (metis mset_filter size_mset)
  ultimately have "nat (Ahead it waiting) = length ps" by (simp add: Ahead_def before_def [abs_def])
  moreover have "length waiting = length (ps @ it # qs)" using mset s by (metis size_mset)
  ultimately show ?thesis by (simp add: s)
qed

definition demo_items :: "Item list" where
  "demo_items = [\<lparr>it_ID = 1, it_Score = 7, it_Urgent = False\<rparr>, \<lparr>it_ID = 2, it_Score = 9, it_Urgent = False\<rparr>,
     \<lparr>it_ID = 3, it_Score = 7, it_Urgent = True\<rparr>]"

lemma ahead_is_position_witness:
  "byScore demo_items ! nat (Ahead \<lparr>it_ID = 3, it_Score = 7, it_Urgent = True\<rparr> demo_items)
     = \<lparr>it_ID = 3, it_Score = 7, it_Urgent = True\<rparr> \<and>
   Ahead \<lparr>it_ID = 3, it_Score = 7, it_Urgent = True\<rparr> demo_items = 2"
  using ahead_is_position [of demo_items "\<lparr>it_ID = 3, it_Score = 7, it_Urgent = True\<rparr>"]
  by (simp add: demo_items_def Ahead_def)

section \<open>The lanes\<close>

text \<open>Weights that add up to less than the boosts, and factors normalized as the portal computes them.\<close>

definition sane_weights :: "Weights \<Rightarrow> bool" where
  "sane_weights w \<longleftrightarrow> 0 \<le> w_Base w \<and> w_Base w \<le> 100000000 \<and> 0 \<le> w_Age w \<and> w_Age w \<le> 100000000 \<and>
     0 \<le> w_Fair w \<and> w_Fair w \<le> 100000000"

definition normalized :: "Factors \<Rightarrow> bool" where
  "normalized f \<longleftrightarrow> 0 \<le> f_Base f \<and> f_Base f \<le> 1 \<and> 0 \<le> f_Age f \<and> f_Age f \<le> 1 \<and>
     0 \<le> f_Fair f \<and> f_Fair f \<le> 1"

lemma product_bounds:
  assumes "0 \<le> a" "a \<le> 100000000" "0 \<le> b" "b \<le> (1 :: real)"
  shows "0 \<le> fl64 (a * b) \<and> fl64 (a * b) \<le> 100000000"
  using double.between [of 0 100000000 "a * b"] assms mult_mono [of a 100000000 b 1] by simp

lemma base_score_bounds:
  assumes "sane_weights w" "normalized f"
  shows "0 \<le> Score w (f\<lparr>f_Urgent := False, f_Idle := False\<rparr>) \<and>
         Score w (f\<lparr>f_Urgent := False, f_Idle := False\<rparr>) \<le> 300000000"
proof -
  define b a c where "b = fl64 (w_Base w * f_Base f)" and "a = fl64 (w_Age w * f_Age f)"
    and "c = fl64 (w_Fair w * f_Fair f)"
  have p: "0 \<le> b" "b \<le> 100000000" "0 \<le> a" "a \<le> 100000000" "0 \<le> c" "c \<le> 100000000"
    using assms product_bounds by (auto simp: b_def a_def c_def sane_weights_def normalized_def)
  have "0 \<le> fl64 (b + a) \<and> fl64 (b + a) \<le> 200000000"
    using double.between [of 0 200000000 "b + a"] p by simp
  then have "0 \<le> fl64 (fl64 (b + a) + c) \<and> fl64 (fl64 (b + a) + c) \<le> 300000000"
    using double.between [of 0 300000000 "fl64 (b + a) + c"] p by simp
  then show ?thesis by (simp add: Score_def Let_def b_def a_def c_def)
qed

lemma Score_lanes:
  "Score w f = (let s = Score w (f\<lparr>f_Urgent := False, f_Idle := False\<rparr>)
     in if f_Urgent f then fl64 (s + urgentBoost) else if f_Idle f then fl64 (s - idleBoost) else s)"
  by (simp add: Score_def Let_def)

text \<open>
  The lanes do not overlap: with non-negative weights of at most 100 million each and
  factors in [0, 1], computed in double precision, an urgent run scores at least the boost, a normal
  run stays between zero and 300 million, and an idle run below zero, whatever the factors are.
\<close>

theorem urgent_dominates:
  assumes "sane_weights w" and "normalized f"
  shows "if f_Urgent f then urgentBoost \<le> Score w f
         else if f_Idle f then Score w f \<le> - 700000000
         else 0 \<le> Score w f \<and> Score w f \<le> 300000000"
proof -
  let ?s = "Score w (f\<lparr>f_Urgent := False, f_Idle := False\<rparr>)"
  have s: "0 \<le> ?s" "?s \<le> 300000000" using base_score_bounds [OF assms] by auto
  have "urgentBoost \<le> fl64 (?s + urgentBoost)"
    using double.lower [of 1000000000 "?s + urgentBoost"] s by (simp add: urgentBoost_def)
  moreover have "fl64 (?s - idleBoost) \<le> - 700000000"
    using double.upper [of "- 700000000" "?s - idleBoost"] s by (simp add: idleBoost_def)
  ultimately show ?thesis using s Score_lanes [of w f] by (auto simp: Let_def)
qed

lemma urgent_dominates_witness:
  "sane_weights \<lparr>w_Base = 1000, w_Age = 1000, w_Fair = 1000\<rparr> \<and>
   urgentBoost \<le> Score \<lparr>w_Base = 1000, w_Age = 1000, w_Fair = 1000\<rparr>
     \<lparr>f_Base = 0, f_Age = 0, f_Fair = 1, f_Urgent = True, f_Idle = False\<rparr>"
  using urgent_dominates [of "\<lparr>w_Base = 1000, w_Age = 1000, w_Fair = 1000\<rparr>"
      "\<lparr>f_Base = 0, f_Age = 0, f_Fair = 1, f_Urgent = True, f_Idle = False\<rparr>"]
  by (simp add: sane_weights_def normalized_def)

text \<open>
  Nothing bounds the weights, and beyond the boost the urgent lane is lost: with a base
  weight of two billion a normal run of full base priority outranks an urgent run, which carries
  base priority zero.
\<close>

theorem unbounded_weight_outranks_urgent:
  "Score \<lparr>w_Base = 2000000000, w_Age = 1000, w_Fair = 1000\<rparr>
     \<lparr>f_Base = 0, f_Age = 0, f_Fair = 1, f_Urgent = True, f_Idle = False\<rparr>
   < Score \<lparr>w_Base = 2000000000, w_Age = 1000, w_Fair = 1000\<rparr>
     \<lparr>f_Base = 1, f_Age = 0, f_Fair = 1, f_Urgent = False, f_Idle = False\<rparr>"
  by (simp add: Score_def urgentBoost_def)

text \<open>
  The reserved slots never decide anything: when every urgent run outranks every other
  waiting run, admission is exactly the first free runs of the queue order, for any reserved count.
\<close>

theorem reserved_slots_never_bind:
  assumes "\<forall>a\<in>set waiting. \<forall>b\<in>set waiting. it_Urgent a \<longrightarrow> \<not> it_Urgent b \<longrightarrow> it_Score b < it_Score a"
  shows "Admit waiting inFlight plan = take (nat (pl_Budget plan - inFlight)) (byScore waiting)"
proof (cases "pl_Budget plan - inFlight \<le> 0 \<or> waiting = []")
  case True
  then show ?thesis by (auto simp: Admit_def byScore_def)
next
  case False
  have "sorted_wrt (\<lambda>x y. \<not> byScore_less y x) (byScore waiting)"
    by (simp add: byScore_def score_order.sorted_stable_sort)
  moreover have "it_Urgent x" if "x \<in> set waiting" "y \<in> set waiting" "\<not> byScore_less y x" "it_Urgent y" for x y
    using that assms by (force simp: byScore_less_def)
  ultimately have "sorted_wrt (\<lambda>a b. it_Urgent b \<longrightarrow> it_Urgent a) (byScore waiting)"
    by (elim sorted_wrt_mono_rel [rotated]) (auto simp: byScore_def)
  then show ?thesis using admit_loop_take [OF refl clamp_reserved_nonneg] False by (simp add: Admit_loop_eq)
qed

lemma reserved_slots_never_bind_witness:
  "Admit [\<lparr>it_ID = 1, it_Score = 7, it_Urgent = False\<rparr>, \<lparr>it_ID = 3, it_Score = 1000000007, it_Urgent = True\<rparr>]
     0 \<lparr>pl_Budget = 1, pl_Reserved = 1\<rparr> = [\<lparr>it_ID = 3, it_Score = 1000000007, it_Urgent = True\<rparr>]"
  using reserved_slots_never_bind [of "[\<lparr>it_ID = 1, it_Score = 7, it_Urgent = False\<rparr>,
      \<lparr>it_ID = 3, it_Score = 1000000007, it_Urgent = True\<rparr>]" 0 "\<lparr>pl_Budget = 1, pl_Reserved = 1\<rparr>"]
  by (simp add: byScore_def byScore_less_def)

end
