(* ===== verification/Batch_Sched.thy ===== *)
theory Batch_Sched
  imports Batch_Store Run_Queue
begin

text \<open>
  The scheduler of the batch feature (internal/app/batch_run.go): reading its settings, priorities and
  their factors, the candidate runs, one admission, the sweep of missed preset windows, finalizing a
  job, one tick and the recovery after a restart. \<open>schedEnv\<close> is what the server reads: the clock, the
  panel's and its own location, the settings table, \<open>strconv.ParseFloat\<close> and \<open>math.Exp2\<close>. Starting a
  run in the background is the list of started runs a function answers with.
\<close>

section \<open>Settings\<close>

record schedEnv =
  sv_now :: instant
  sv_panel :: location
  sv_local :: location
  sv_settings :: "string \<Rightarrow> string option"
  sv_float :: "string \<Rightarrow> real option"
  sv_exp2 :: "real \<Rightarrow> real"

definition GetSetting :: "schedEnv \<Rightarrow> string \<Rightarrow> string \<Rightarrow> string" where
  "GetSetting env k def = (case sv_settings env k of Some v \<Rightarrow> v | None \<Rightarrow> def)"

definition nowStr :: "schedEnv \<Rightarrow> string" where
  "nowStr env = format_local (sv_local env) (sv_now env)"

text \<open>An integer setting with a lower bound: anything else reads as the fallback.\<close>

definition setting_int :: "schedEnv \<Rightarrow> string \<Rightarrow> string \<Rightarrow> int \<Rightarrow> int \<Rightarrow> int" where
  "setting_int env key def least fallback =
     (case atoi (GetSetting env key def) of None \<Rightarrow> fallback | Some n \<Rightarrow> if n < least then fallback else n)"

definition batchMaxConcurrency :: "schedEnv \<Rightarrow> int" where
  "batchMaxConcurrency env = setting_int env ''batch_max_concurrency'' ''10'' 1 10"

definition clampConcurrency :: "schedEnv \<Rightarrow> int \<Rightarrow> int" where
  "clampConcurrency env requested =
     (let r = (if requested < 1 then 1 else requested); m = batchMaxConcurrency env
      in if m < r then m else r)"

definition batchBudget :: "schedEnv \<Rightarrow> int" where
  "batchBudget env = setting_int env ''batch_max_concurrent_jobs'' ''1'' 1 1"

definition batchReserved :: "schedEnv \<Rightarrow> int" where
  "batchReserved env = setting_int env ''batch_reserved_slots'' ''1'' 0 1"

definition ticketPeriodDays :: "schedEnv \<Rightarrow> int" where
  "ticketPeriodDays env = setting_int env ''batch_ticket_period_days'' ''7'' 1 7"

definition difyPollSeconds :: "schedEnv \<Rightarrow> int" where
  "difyPollSeconds env = setting_int env ''dify_poll_seconds'' ''0'' 0 0"

definition difyRunTimeoutDur :: "schedEnv \<Rightarrow> int" where
  "difyRunTimeoutDur env = minutes (setting_int env ''dify_run_timeout_minutes'' ''240'' 1 240)"

definition urgentEnabled :: "schedEnv \<Rightarrow> bool" where
  "urgentEnabled env \<longleftrightarrow> GetSetting env ''batch_urgent_enabled'' ''0'' = ''1''"

definition settingFloat :: "schedEnv \<Rightarrow> string \<Rightarrow> real \<Rightarrow> real" where
  "settingFloat env key def =
     (case sv_float env (GetSetting env key []) of Some v \<Rightarrow> if 0 \<le> v then v else def | None \<Rightarrow> def)"

definition prioWeights :: "schedEnv \<Rightarrow> Weights" where
  "prioWeights env = \<lparr>w_Base = settingFloat env ''batch_prio_w_base'' 1000,
     w_Age = settingFloat env ''batch_prio_w_age'' 1000, w_Fair = settingFloat env ''batch_prio_w_fair'' 1000\<rparr>"

definition prioAgeHours :: "schedEnv \<Rightarrow> real" where
  "prioAgeHours env = (let h = settingFloat env ''batch_prio_age_hours'' 24 in if 0 < h then h else 24)"

definition prioFairHalflifeHours :: "schedEnv \<Rightarrow> real" where
  "prioFairHalflifeHours env =
     (let h = settingFloat env ''batch_prio_fair_halflife_hours'' 168 in if 0 < h then h else 168)"

section \<open>Priorities\<close>

definition baseMax :: int where "baseMax = 100"

definition clampBase :: "int \<Rightarrow> int" where
  "clampBase n = (if n < 0 then 0 else if baseMax < n then baseMax else n)"

text \<open>The base priority, and the urgent and idle lanes.\<close>

definition parsePriority :: "string \<Rightarrow> int \<times> bool \<times> bool" where
  "parsePriority p =
     (let t = trim_space p
      in if t = ''urgent'' then (0, True, False)
         else if t = ''idle'' then (0, False, True)
         else if t = ''normal'' \<or> t = [] then (50, False, False)
         else if t = ''other'' then (20, False, False)
         else case atoi t of None \<Rightarrow> (50, False, False) | Some n \<Rightarrow> (clampBase n, False, False))"

definition normalizePriorityInput :: "string \<Rightarrow> string option" where
  "normalizePriorityInput p =
     (let t = trim_space p
      in if t = ''urgent'' then Some ''urgent''
         else case atoi t of Some n \<Rightarrow> Some (itoa (clampBase n)) | None \<Rightarrow> None)"

definition groupPriorityValid :: "string \<Rightarrow> string" where
  "groupPriorityValid p =
     (let t = trim_space p
      in if t = [] then [] else if t = ''urgent'' then [] else if t = ''normal'' then ''50''
         else if t = ''other'' then ''20''
         else case atoi t of None \<Rightarrow> [] | Some n \<Rightarrow> itoa (clampBase n))"

definition runDefaultPriority :: "schedEnv \<Rightarrow> int" where
  "runDefaultPriority env = fst (parsePriority (GetSetting env ''run_default_priority'' ''50''))"

definition parseRunWindow :: "string \<Rightarrow> (int \<times> int) option" where
  "parseRunWindow win =
     (let w = trim_space win
      in if w = [] then None
         else case split2 (CHR ''-'') w of
           None \<Rightarrow> None
         | Some (x, y) \<Rightarrow>
             (case (atoi (trim_space x), atoi (trim_space y)) of
                (Some a, Some b) \<Rightarrow>
                  if a < 0 \<or> 23 < a \<or> b < 0 \<or> 23 < b \<or> a = b then None else Some (a, b)
              | _ \<Rightarrow> None))"

text \<open>\<open>runWindowOpenAt\<close> on the window of the user's effective group.\<close>

definition window_open_at :: "string \<Rightarrow> int \<Rightarrow> bool" where
  "window_open_at win hour =
     (case parseRunWindow win of
        None \<Rightarrow> True
      | Some (start, stop) \<Rightarrow>
          if start < stop then start \<le> hour \<and> hour < stop else start \<le> hour \<or> hour < stop)"

section \<open>Factors\<close>

definition parseEnqueueUnix :: "location \<Rightarrow> string \<Rightarrow> int" where
  "parseEnqueueUnix local ts = (case parse_local local ts of None \<Rightarrow> 0 | Some t \<Rightarrow> unix_secs t)"

definition runAtDue :: "location \<Rightarrow> string \<Rightarrow> instant \<Rightarrow> bool" where
  "runAtDue local runAt now =
     (if runAt = [] then True
      else case parse_local local runAt of None \<Rightarrow> True | Some t \<Rightarrow> t \<le> now)"

text \<open>\<open>Duration.Hours\<close> and \<open>Duration.Seconds\<close>: the whole part and the rest, added as floats.\<close>

definition dur_float :: "int \<Rightarrow> int \<Rightarrow> real" where
  "dur_float unit d =
     (let q = go_quot d unit; r = d - q * unit in fl64 (of_int q + fl64 (of_int r / of_int unit)))"

definition age_hours :: "schedEnv \<Rightarrow> string \<Rightarrow> real" where
  "age_hours env ts =
     (let h = dur_float (hours 1) (sv_now env - parseEnqueueUnix (sv_local env) ts * second)
      in if h < 0 then 0 else h)"

definition usage_since :: "schedEnv \<Rightarrow> string" where
  "usage_since env =
     format_local (sv_local env)
       (sv_now env - \<lfloor>fl64 (fl64 (prioFairHalflifeHours env * 8) * of_int (hours 1))\<rfloor>)"

definition RecentJobActivity :: "batchDb \<Rightarrow> string \<Rightarrow> (string \<times> string) list" where
  "RecentJobActivity db since =
     sort_key snd (map (\<lambda>j. (bj_CreatedBy j, bj_CreatedAt j)) (filter (\<lambda>j. since \<le> bj_CreatedAt j) (db_jobs db)))"

definition userUsage :: "schedEnv \<Rightarrow> batchDb \<Rightarrow> string \<Rightarrow> real" where
  "userUsage env db =
     fold (\<lambda>(user, created) usage. usage(user := fl64 (usage user +
            sv_exp2 env (- fl64 (age_hours env created / prioFairHalflifeHours env)))))
       (RecentJobActivity db (usage_since env)) (\<lambda>_. 0)"

definition jobFactors :: "schedEnv \<Rightarrow> BatchJob \<Rightarrow> (string \<Rightarrow> real) \<Rightarrow> Factors" where
  "jobFactors env j usage =
     (let (base, urgent, idle) = parsePriority (bj_Priority j);
          enqueue = (if bj_RunAt j \<noteq> [] then bj_RunAt j else bj_CreatedAt j);
          wait = dur_float second (sv_now env - parseEnqueueUnix (sv_local env) enqueue * second);
          age = fl64 (wait / fl64 (prioAgeHours env * 3600))
      in \<lparr>f_Base = fl64 (of_int base / of_int baseMax),
          f_Age = (if age < 0 then 0 else if 1 < age then 1 else age),
          f_Fair = sv_exp2 env (- usage (bj_CreatedBy j)), f_Urgent = urgent, f_Idle = idle\<rparr>)"

text \<open>A job may start now: it is due, and no inverted preset keeps it out.\<close>

definition may_start :: "schedEnv \<Rightarrow> BatchJob \<Rightarrow> bool" where
  "may_start env j \<longleftrightarrow> runAtDue (sv_local env) (bj_RunAt j) (sv_now env) \<and>
     \<not> invertBlocksNow (bj_RunPreset j) (sv_now env) (sv_panel env)"

definition queuedItems :: "schedEnv \<Rightarrow> batchDb \<Rightarrow> Item list" where
  "queuedItems env db =
     (let w = prioWeights env; usage = userUsage env db
      in map (\<lambda>j. let f = jobFactors env j usage
                  in \<lparr>it_ID = bj_ID j, it_Score = Score w f, it_Urgent = f_Urgent f\<rparr>)
           (filter (may_start env) (QueuedJobs db)))"

section \<open>Admission\<close>

type_synonym candidate = "Item \<times> BatchJob \<times> BatchItem"

text \<open>The in-flight window a job has left.\<close>

definition window_left :: "batchDb \<Rightarrow> BatchJob \<Rightarrow> int" where
  "window_left db j = (if bj_Concurrency j < 1 then 1 else bj_Concurrency j) - runningItems db j"

definition job_candidates :: "schedEnv \<Rightarrow> batchDb \<Rightarrow> Weights \<Rightarrow> (string \<Rightarrow> real) \<Rightarrow> BatchJob \<Rightarrow> candidate list" where
  "job_candidates env db w usage j =
     (if \<not> runAtDue (sv_local env) (bj_RunAt j) (sv_now env) then []
      else if invertBlocksNow (bj_RunPreset j) (sv_now env) (sv_panel env) then []
      else if window_left db j \<le> 0 then []
      else let f = jobFactors env j usage; score = Score w f
           in map (\<lambda>i. (\<lparr>it_ID = bi_ID i, it_Score = score, it_Urgent = f_Urgent f\<rparr>, j, i))
                (take (nat (window_left db j)) (QueuedItems db (bj_ID j))))"

definition itemCandidates :: "schedEnv \<Rightarrow> batchDb \<Rightarrow> candidate list" where
  "itemCandidates env db =
     concat (map (job_candidates env db (prioWeights env) (userUsage env db)) (SchedulableJobs db))"

text \<open>Dispatching the admitted runs; the answer also lists the runs started, in order.\<close>

definition dispatch ::
  "schedEnv \<Rightarrow> (int \<Rightarrow> (BatchJob \<times> BatchItem) option) \<Rightarrow> Item \<Rightarrow>
   (BatchJob \<times> BatchItem) list \<times> batchDb \<Rightarrow> (BatchJob \<times> BatchItem) list \<times> batchDb" where
  "dispatch env meta it = (\<lambda>(started, db).
     case meta (it_ID it) of
       None \<Rightarrow> (started, db)
     | Some (job, item) \<Rightarrow>
         (case MarkItemRunning (nowStr env) (it_ID it) db of
            (won, db1) \<Rightarrow>
              if won then (started @ [(job, item)], snd (MarkJobRunning (nowStr env) (bj_ID job) db1))
              else (started, db1)))"

definition candidate_meta :: "candidate list \<Rightarrow> int \<Rightarrow> (BatchJob \<times> BatchItem) option" where
  "candidate_meta cands = map_of (rev (map (\<lambda>(it, m). (it_ID it, m)) cands))"

definition admitLocked :: "schedEnv \<Rightarrow> batchDb \<Rightarrow> (BatchJob \<times> BatchItem) list \<times> batchDb" where
  "admitLocked env db =
     (let budget = batchBudget env; running = RunningItemCount db
      in if budget - running \<le> 0 then ([], db)
         else let cands = itemCandidates env db
              in if cands = [] then ([], db)
                 else fold (dispatch env (candidate_meta cands))
                        (Admit (map fst cands) running \<lparr>pl_Budget = budget, pl_Reserved = batchReserved env\<rparr>)
                        ([], db))"

section \<open>Finalizing and sweeping\<close>

definition finalizeLocked :: "schedEnv \<Rightarrow> int \<Rightarrow> batchDb \<Rightarrow> BatchJob option \<times> batchDb" where
  "finalizeLocked env jobID db =
     (case GetBatchJob db jobID of
        None \<Rightarrow> (None, db)
      | Some job \<Rightarrow>
          if bj_Status job = ''finished'' \<or> bj_Status job = ''cancelled'' then (None, db)
          else let counts = LiveJobCounts db jobID; cancelling = (bj_Status job = ''cancelling'')
               in if 0 < jc_running counts \<or> (0 < jc_queued counts \<and> \<not> cancelling) then (None, db)
                  else let db1 = FinishJob (nowStr env) jobID cancelling db
                       in (GetBatchJob db1 jobID, db1))"

definition finalize_into :: "schedEnv \<Rightarrow> int \<Rightarrow> BatchJob list \<times> batchDb \<Rightarrow> BatchJob list \<times> batchDb" where
  "finalize_into env jobID = (\<lambda>(fin, db).
     case finalizeLocked env jobID db of
       (None, db1) \<Rightarrow> (fin, db1) | (Some j, db1) \<Rightarrow> (fin @ [j], db1))"

definition sweep_job :: "schedEnv \<Rightarrow> BatchJob \<Rightarrow> batchDb \<Rightarrow> batchDb" where
  "sweep_job env j db =
     (case bj_RunPreset j of
        Preset snap \<Rightarrow>
          if sn_Invert snap then db
          else if sn_Until snap = [] \<or> \<not> runAtDue (sv_local env) (sn_Until snap) (sv_now env) then db
          else (let next = nextWindow (sn_Freq snap) (sn_Intervals snap) (sv_now env) (sv_panel env) None;
                    ended = (if sn_OnOverrun snap = ''cancel'' then ExpireJob (nowStr env) (bj_ID j) db
                             else ClearJobWindow (bj_ID j) db)
                in case next of
                     Some (ns, ne) \<Rightarrow>
                       if samePeriod (sn_Freq snap) (sv_now env) ns (sv_panel env) \<or> sn_OnOverrun snap = ''next''
                       then SetJobWindow (bj_ID j) (format_local (sv_local env) ns)
                              (Preset (snap\<lparr>sn_Until := format_local (sv_local env) ne\<rparr>)) db
                       else ended
                   | None \<Rightarrow> ended)
      | _ \<Rightarrow> db)"

definition sweepPresetWindowsLocked :: "schedEnv \<Rightarrow> batchDb \<Rightarrow> batchDb" where
  "sweepPresetWindowsLocked env db = fold (sweep_job env) (QueuedPresetJobs db) db"

text \<open>One tick: the runs started, the jobs finalized and the tables left.\<close>

definition scheduleTick :: "schedEnv \<Rightarrow> batchDb \<Rightarrow> (BatchJob \<times> BatchItem) list \<times> BatchJob list \<times> batchDb" where
  "scheduleTick env db =
     (let (started, db1) = admitLocked env (sweepPresetWindowsLocked env db);
          drained = filter (\<lambda>j. liveItems db1 j = 0) (SchedulableJobs db1);
          (fin1, db2) = fold (finalize_into env) (map bj_ID drained) ([], db1);
          (fin2, db3) = fold (finalize_into env) (CancellingJobIDs db2) (fin1, db2)
      in (started, fin2, db3))"

section \<open>Restart\<close>

definition mark_untracked :: "schedEnv \<Rightarrow> BatchItem \<Rightarrow> batchDb \<Rightarrow> batchDb" where
  "mark_untracked env i =
     FinishItem (nowStr env) (bi_ID i) Untracked 1 []
       (if bi_TaskID i \<noteq> []
        then ''resume: run started on dify (task '' @ bi_TaskID i @ '') but left no reconcilable id; not re-run to avoid a duplicate charged run''
        else ''resume: run reached dify but left no reconcilable id; not re-run to avoid a duplicate charged run'')"

text \<open>
  \<open>resumeBatchJobs\<close> up to the tick: the rows whose reconcile is started in the background (each of them
  keeps its slot until that settles it) and the tables after the other rows were settled or requeued.
\<close>

definition resume_items :: "schedEnv \<Rightarrow> batchDb \<Rightarrow> BatchItem list \<times> batchDb" where
  "resume_items env db =
     (filter (\<lambda>i. GetBatchJob db (bi_JobID i) \<noteq> None) (ResumableInFlightItems db),
      ResetInFlightItems (fold (mark_untracked env) (StartedUnreconcilableItems db) db))"

definition resumeBatchJobs ::
  "schedEnv \<Rightarrow> batchDb \<Rightarrow> BatchItem list \<times> (BatchJob \<times> BatchItem) list \<times> BatchJob list \<times> batchDb" where
  "resumeBatchJobs env db =
     (let (reconciling, db1) = resume_items env db;
          (started, fin, db2) = scheduleTick env db1;
          (fin2, db3) = fold (finalize_into env) (ResumableJobIDs db2) (fin, db2)
      in (reconciling, started, fin2, db3))"

section \<open>Admission keeps the caps\<close>

definition item_keys :: "batchDb \<Rightarrow> (int \<times> int) list" where
  "item_keys db = map (\<lambda>i. (bi_ID i, bi_JobID i)) (db_items db)"

text \<open>Running rows among the rows whose id and job satisfy R.\<close>

definition running_in :: "(int \<times> int \<Rightarrow> bool) \<Rightarrow> batchDb \<Rightarrow> int" where
  "running_in R db = count_items (\<lambda>i. R (bi_ID i, bi_JobID i) \<and> bi_Status i = ''running'') db"

lemma running_in_all: "RunningItemCount db = running_in (\<lambda>_. True) db"
  by (simp add: RunningItemCount_def running_in_def)

lemma running_in_job: "runningItems db j = running_in (\<lambda>k. snd k = bj_ID j) db"
  by (simp add: runningItems_def job_count_def running_in_def of_job_def)

lemma MarkJobRunning_items [simp]: "db_items (snd (MarkJobRunning now jobID db)) = db_items db"
  by (simp add: MarkJobRunning_def upd_jobs_def Let_def)

lemma running_in_items: "db_items a = db_items b \<Longrightarrow> running_in R a = running_in R b \<and> item_keys a = item_keys b"
  by (simp add: running_in_def count_items_def items_with_def item_keys_def)

lemma MarkItemRunning_keys: "item_keys (snd (MarkItemRunning now iid db)) = item_keys db"
  by (simp add: item_keys_def MarkItemRunning_def upd_items_def update_where_def start_assign_def Let_def)

definition key_hits :: "(int \<times> int) list \<Rightarrow> (int \<times> int \<Rightarrow> bool) \<Rightarrow> int \<Rightarrow> bool" where
  "key_hits ks R iid \<longleftrightarrow> (\<exists>k\<in>set ks. fst k = iid \<and> R k)"

lemma update_running_count:
  "length (filter (\<lambda>i. Q i \<and> bi_Status i = ''running'') (update_where P (start_assign now) rows))
     \<le> length (filter (\<lambda>i. Q i \<and> bi_Status i = ''running'') rows) + length (filter (\<lambda>i. P i \<and> Q i) rows)"
  if "\<And>i. Q (start_assign now i) = Q i"
  by (induction rows) (simp_all add: update_where_def that)

lemma one_with_id: "distinct (map f xs) \<Longrightarrow> length (filter (\<lambda>x. f x = a \<and> P x) xs) \<le> 1"
proof (induction xs)
  case (Cons x xs)
  have "f y \<noteq> f x" if "y \<in> set xs" for y using Cons.prems that by (metis distinct.simps(2) image_eqI list.simps(9) set_map)
  then have "f x = a \<Longrightarrow> filter (\<lambda>x. f x = a \<and> P x) xs = []" by (auto simp: filter_empty_conv)
  then show ?case using Cons by auto
qed simp

lemma MarkItemRunning_running:
  assumes "distinct (map fst (item_keys db))"
  shows "running_in R (snd (MarkItemRunning now iid db))
    \<le> running_in R db + (if key_hits (item_keys db) R iid then 1 else 0)"
proof -
  let ?P = "\<lambda>i. bi_ID i = iid \<and> bi_Status i = ''queued''" and ?Q = "\<lambda>i. R (bi_ID i, bi_JobID i)"
  have "length (filter (\<lambda>i. ?P i \<and> ?Q i) (db_items db)) \<le> (if key_hits (item_keys db) R iid then 1 else 0)"
  proof (cases "key_hits (item_keys db) R iid")
    case True
    have "length (filter (\<lambda>i. bi_ID i = iid \<and> (bi_Status i = ''queued'' \<and> ?Q i)) (db_items db)) \<le> 1"
      using assms by (intro one_with_id) (simp add: item_keys_def o_def)
    then show ?thesis using True by (simp add: conj_assoc)
  next
    case False
    then have "filter (\<lambda>i. ?P i \<and> ?Q i) (db_items db) = []"
      by (auto simp: key_hits_def item_keys_def filter_empty_conv)
    then show ?thesis by simp
  qed
  then show ?thesis
    using update_running_count [of ?Q now ?P "db_items db"]
    by (simp add: running_in_def count_items_def items_with_def MarkItemRunning_def upd_items_def
        start_assign_def Let_def split: if_splits)
qed

lemma dispatch_running:
  assumes "distinct (map fst (item_keys db))"
  shows "item_keys (snd (dispatch env meta it (started, db))) = item_keys db \<and>
    running_in R (snd (dispatch env meta it (started, db)))
      \<le> running_in R db + (if key_hits (item_keys db) R (it_ID it) then 1 else 0)"
proof (cases "meta (it_ID it)")
  case None
  then show ?thesis by (simp add: dispatch_def)
next
  case (Some m)
  obtain job item where m: "meta (it_ID it) = Some (job, item)" using Some by (cases m) auto
  obtain won db1 where w: "MarkItemRunning (nowStr env) (it_ID it) db = (won, db1)" by fastforce
  show ?thesis
    using MarkItemRunning_running [OF assms, of R "nowStr env" "it_ID it"]
      MarkItemRunning_keys [of "nowStr env" "it_ID it" db]
      running_in_items [of "snd (MarkJobRunning (nowStr env) (bj_ID job) db1)" db1 R]
    by (auto simp: dispatch_def m w)
qed

lemma fold_dispatch_running:
  assumes "distinct (map fst (item_keys db))"
  shows "item_keys (snd (fold (dispatch env meta) its (started, db))) = item_keys db \<and>
    running_in R (snd (fold (dispatch env meta) its (started, db)))
      \<le> running_in R db + int (length (filter (key_hits (item_keys db) R \<circ> it_ID) its))"
  using assms
proof (induction its arbitrary: started db)
  case (Cons it its)
  obtain started1 db1 where d: "dispatch env meta it (started, db) = (started1, db1)" by fastforce
  have 1: "item_keys db1 = item_keys db"
    "running_in R db1 \<le> running_in R db + (if key_hits (item_keys db) R (it_ID it) then 1 else 0)"
    using dispatch_running [OF Cons.prems, of env meta it started R] d by simp_all
  show ?case using Cons.IH [of db1 started1] Cons.prems 1 d by (auto simp: o_def split: if_splits)
qed simp

lemma admitted_hits:
  "length (filter P (Admit waiting inFlight plan)) \<le> length (filter P waiting)"
proof -
  have "subseq (Admit waiting inFlight plan) (byScore waiting)"
    by (auto simp: Admit_def Let_def admit_loop_subseq)
  then have "subseq (filter P (Admit waiting inFlight plan)) (filter P (byScore waiting))"
    by (rule subseq_filter)
  then have "length (filter P (Admit waiting inFlight plan)) \<le> length (filter P (byScore waiting))"
    by (rule list_emb_length)
  also have "mset (byScore waiting) = mset waiting" by (simp add: byScore_def)
  then have "length (filter P (byScore waiting)) = length (filter P waiting)"
    by (metis mset_filter size_mset)
  finally show ?thesis .
qed

definition well_keyed :: "batchDb \<Rightarrow> bool" where
  "well_keyed db \<longleftrightarrow> distinct (map bi_ID (db_items db)) \<and> distinct (map bj_ID (db_jobs db))"

lemma item_keys_ids: "map fst (item_keys db) = map bi_ID (db_items db)"
  by (simp add: item_keys_def o_def)

lemma candidate_sound:
  assumes "(it, j, i) \<in> set (itemCandidates env db)"
  shows "j \<in> set (db_jobs db) \<and> schedulable j \<and> may_start env j \<and> i \<in> set (db_items db) \<and>
     bi_JobID i = bj_ID j \<and> bi_Status i = ''queued'' \<and> it_ID it = bi_ID i"
  using assms
  by (auto simp: itemCandidates_def job_candidates_def SchedulableJobs_def jobs_by_id_def may_start_def
      QueuedItems_def items_with_def Let_def dest!: in_set_takeD split: if_splits)

lemma sum_list_single: "distinct xs \<Longrightarrow> \<forall>x\<in>set xs. x \<noteq> a \<longrightarrow> g x = (0 :: nat) \<Longrightarrow> sum_list (map g xs) \<le> g a"
proof (induction xs)
  case (Cons x xs)
  show ?case
  proof (cases "x = a")
    case True
    then have "\<forall>y\<in>set xs. g y = 0" using Cons.prems by auto
    then show ?thesis using True by simp
  next
    case False
    then show ?thesis using Cons by simp
  qed
qed simp

lemma candidate_count:
  assumes "well_keyed db" and j: "j \<in> set (db_jobs db)"
  shows "int (length (filter (key_hits (item_keys db) (\<lambda>k. snd k = bj_ID j) \<circ> it_ID)
             (map fst (itemCandidates env db)))) \<le> max 0 (window_left db j)"
proof -
  let ?P = "key_hits (item_keys db) (\<lambda>k. snd k = bj_ID j) \<circ> it_ID"
  let ?c = "job_candidates env db (prioWeights env) (userUsage env db)"
  let ?g = "\<lambda>j'. length (filter ?P (map fst (?c j')))"
  have ids: "distinct (map bi_ID (db_items db))" "distinct (map bj_ID (db_jobs db))"
    using assms(1) by (simp_all add: well_keyed_def)
  have none: "?g j' = 0" if "j' \<in> set (SchedulableJobs db)" "j' \<noteq> j" for j'
  proof -
    have "j' \<in> set (db_jobs db)" using that(1) by (simp add: SchedulableJobs_def jobs_by_id_def)
    then have other: "bj_ID j' \<noteq> bj_ID j" using ids(2) j that(2) by (auto simp: distinct_map inj_on_def)
    have "\<not> ?P it" if "(it, j1, i) \<in> set (?c j')" for it j1 i
    proof -
      have i: "i \<in> set (db_items db)" "bi_JobID i = bj_ID j'" "it_ID it = bi_ID i"
        using that by (auto simp: job_candidates_def QueuedItems_def items_with_def Let_def
            dest!: in_set_takeD split: if_splits)
      have "bi_JobID i' = bj_ID j'" if "i' \<in> set (db_items db)" "bi_ID i' = bi_ID i" for i'
        using that i ids(1) by (auto simp: distinct_map inj_on_def)
      then show ?thesis using i other by (auto simp: key_hits_def item_keys_def)
    qed
    then show ?thesis by (fastforce simp: filter_empty_conv)
  qed
  have "distinct (SchedulableJobs db)"
    using ids(2) by (simp add: SchedulableJobs_def jobs_by_id_def distinct_map)
  then have "sum_list (map ?g (SchedulableJobs db)) \<le> ?g j" using none by (intro sum_list_single) auto
  also have "?g j \<le> length (?c j)" using length_filter_le [of ?P "map fst (?c j)"] by simp
  also have "length (?c j) \<le> nat (window_left db j)"
    by (auto simp: job_candidates_def Let_def)
  finally have "sum_list (map ?g (SchedulableJobs db)) \<le> nat (window_left db j)" .
  moreover have "length (filter ?P (map fst (itemCandidates env db))) = sum_list (map ?g (SchedulableJobs db))"
    by (simp add: itemCandidates_def filter_concat length_concat map_concat o_def)
  ultimately show ?thesis by linarith
qed

text \<open>A queued row of a queued or running job that is due and not kept out by an inverted preset.\<close>

definition startable :: "schedEnv \<Rightarrow> batchDb \<Rightarrow> BatchJob \<times> BatchItem \<Rightarrow> bool" where
  "startable env db = (\<lambda>(j, i). j \<in> set (db_jobs db) \<and> schedulable j \<and> may_start env j \<and>
     i \<in> set (db_items db) \<and> bi_JobID i = bj_ID j \<and> bi_Status i = ''queued'')"

lemma dispatch_started:
  "fst (dispatch env meta it (started, db)) = started \<or>
   (\<exists>m. meta (it_ID it) = Some m \<and> fst (dispatch env meta it (started, db)) = started @ [m])"
  by (auto simp: dispatch_def split: option.splits prod.splits)

lemma fold_dispatch_started:
  "\<forall>m\<in>set started. P m \<Longrightarrow> \<forall>iid m. meta iid = Some m \<longrightarrow> P m \<Longrightarrow>
   \<forall>m\<in>set (fst (fold (dispatch env meta) its (started, db))). P m"
proof (induction its arbitrary: started db)
  case (Cons it its)
  obtain started1 db1 where d: "dispatch env meta it (started, db) = (started1, db1)" by fastforce
  have "\<forall>m\<in>set started1. P m"
    using dispatch_started [of env meta it started db] Cons.prems d by auto
  then show ?case using Cons.IH [of started1 db1] Cons.prems(2) d by simp
qed simp

lemma candidate_meta_in: "candidate_meta cands iid = Some m \<Longrightarrow> \<exists>it. (it, m) \<in> set cands"
  by (auto simp: candidate_meta_def dest!: map_of_SomeD)

text \<open>
  Property C30. One admission keeps both caps and starts only what may run: the running rows never exceed
  the larger of the budget and what already ran, no job exceeds its own concurrency unless it already
  did, and every run started is a queued row of a queued or running job that is due and not kept out
  by an inverted preset.
\<close>

theorem admission_keeps_caps:
  assumes "well_keyed db" and "admitLocked env db = (started, db')"
  shows "RunningItemCount db' \<le> max (batchBudget env) (RunningItemCount db) \<and>
    (\<forall>j\<in>set (db_jobs db). runningItems db' j \<le> max (runningItems db j) (max 1 (bj_Concurrency j))) \<and>
    (\<forall>m\<in>set started. startable env db m)"
proof (cases "batchBudget env - RunningItemCount db \<le> 0 \<or> itemCandidates env db = []")
  case True
  then have "started = [] \<and> db' = db" using assms(2) by (auto simp: admitLocked_def Let_def split: if_splits)
  then show ?thesis by simp
next
  case False
  define cands where "cands = itemCandidates env db"
  define adm where "adm = Admit (map fst cands) (RunningItemCount db)
      \<lparr>pl_Budget = batchBudget env, pl_Reserved = batchReserved env\<rparr>"
  have run: "fold (dispatch env (candidate_meta cands)) adm ([], db) = (started, db')"
    using False assms(2) by (auto simp: admitLocked_def Let_def cands_def adm_def)
  have ids: "distinct (map fst (item_keys db))" using assms(1) by (simp add: well_keyed_def item_keys_ids)
  note grow = fold_dispatch_running [OF ids, of env "candidate_meta cands" adm "[]", unfolded run]
  have "int (length adm) \<le> batchBudget env - RunningItemCount db"
    using Admit_length [of "map fst cands" "RunningItemCount db"
        "\<lparr>pl_Budget = batchBudget env, pl_Reserved = batchReserved env\<rparr>"] False by (simp add: adm_def)
  moreover have "int (length (filter (key_hits (item_keys db) (\<lambda>_. True) \<circ> it_ID) adm)) \<le> int (length adm)"
    by (simp only: of_nat_le_iff length_filter_le)
  ultimately have cap: "RunningItemCount db' \<le> batchBudget env"
    using grow [of "\<lambda>_. True", unfolded snd_conv, THEN conjunct2] unfolding running_in_all by linarith
  have "runningItems db' j \<le> max (runningItems db j) (max 1 (bj_Concurrency j))"
    if "j \<in> set (db_jobs db)" for j
  proof -
    let ?R = "\<lambda>k :: int \<times> int. snd k = bj_ID j"
    have "int (length (filter (key_hits (item_keys db) ?R \<circ> it_ID) adm)) \<le> max 0 (window_left db j)"
      using candidate_count [OF assms(1) that, of env, folded cands_def]
        admitted_hits [of "key_hits (item_keys db) ?R \<circ> it_ID" "map fst cands" "RunningItemCount db"]
      unfolding adm_def by (meson of_nat_le_iff order_trans)
    then show ?thesis using grow [of ?R, unfolded snd_conv, THEN conjunct2]
      by (simp add: running_in_job window_left_def max_def split: if_splits)
  qed
  moreover have "startable env db m" if meta: "candidate_meta cands iid = Some m" for iid m
  proof -
    obtain it where it: "(it, fst m, snd m) \<in> set cands" using candidate_meta_in [OF meta] by auto
    show ?thesis using candidate_sound [OF it [unfolded cands_def]] by (simp add: startable_def split_beta)
  qed
  then have "\<forall>m\<in>set (fst (fold (dispatch env (candidate_meta cands)) adm ([], db))). startable env db m"
    by (intro fold_dispatch_started) auto
  then have "\<forall>m\<in>set started. startable env db m" unfolding run by simp
  ultimately show ?thesis using cap by simp
qed

definition demo_item :: "int \<Rightarrow> int \<Rightarrow> string \<Rightarrow> BatchItem" where
  "demo_item iid jobID status = \<lparr>bi_ID = iid, bi_JobID = jobID, bi_RowIndex = iid, bi_Inputs = ''{}'',
     bi_Status = status, bi_Attempts = 0, bi_RunID = [], bi_ConvID = [], bi_TaskID = [], bi_DifyStartedAt = [],
     bi_Error = [], bi_StartedAt = [], bi_FinishedAt = []\<rparr>"

definition demo_job :: "int \<Rightarrow> string \<Rightarrow> BatchJob" where
  "demo_job jobID status = \<lparr>bj_ID = jobID, bj_TargetID = 1, bj_Status = status, bj_Priority = ''50'',
     bj_Concurrency = 2, bj_MaxRetries = 1, bj_Total = 2, bj_Succeeded = 0, bj_Partial = 0, bj_Failed = 0,
     bj_CreatedBy = ''ann'', bj_CreatedAt = ''2026-01-05 09:00:00'', bj_StartedAt = [], bj_FinishedAt = [],
     bj_RunAt = [], bj_RunPreset = NoPreset\<rparr>"

definition demo_batch :: batchDb where
  "demo_batch = \<lparr>db_jobs = [demo_job 1 ''running'', demo_job 2 ''queued''],
     db_items = [demo_item 1 1 ''running'', demo_item 2 1 ''queued'', demo_item 3 2 ''queued'']\<rparr>"

definition demo_sched :: schedEnv where
  "demo_sched = \<lparr>sv_now = 1767600000000000000, sv_panel = (\<lambda>_. 28800), sv_local = (\<lambda>_. 28800),
     sv_settings = [''batch_max_concurrent_jobs'' \<mapsto> ''2''], sv_float = (\<lambda>_. None), sv_exp2 = (\<lambda>_. 1)\<rparr>"

lemma demo_batch_keyed: "well_keyed demo_batch"
  by (simp add: well_keyed_def demo_batch_def demo_item_def demo_job_def)

lemma admission_keeps_caps_witness:
  "RunningItemCount demo_batch = 1 \<and> RunningItemCount (snd (admitLocked demo_sched demo_batch)) \<le> 2"
proof -
  have r: "RunningItemCount demo_batch = 1" by code_simp
  have b: "batchBudget demo_sched = 2"
    by (simp add: batchBudget_def setting_int_def GetSetting_def demo_sched_def) code_simp
  have "RunningItemCount (snd (admitLocked demo_sched demo_batch)) \<le> max (batchBudget demo_sched) (RunningItemCount demo_batch)"
    using admission_keeps_caps [OF demo_batch_keyed, of demo_sched] by (metis prod.collapse)
  then show ?thesis unfolding r b by simp
qed

section \<open>No job is finalized early or left behind\<close>

definition job_over :: "BatchJob \<Rightarrow> bool" where
  "job_over j \<longleftrightarrow> bj_Status j = ''finished'' \<or> bj_Status j = ''cancelled''"

text \<open>Nothing of the job is in flight, and nothing waits unless the job is being cancelled.\<close>

definition drained :: "batchDb \<Rightarrow> BatchJob \<Rightarrow> bool" where
  "drained db j \<longleftrightarrow> runningItems db j = 0 \<and> (job_count ''queued'' (bj_ID j) db = 0 \<or> bj_Status j = ''cancelling'')"

lemma job_count_nonneg [simp]: "0 \<le> job_count st jobID db"
  by (simp add: job_count_def count_items_def)

lemma job_count_pos: "0 < job_count st jobID db \<longleftrightarrow> job_count st jobID db \<noteq> 0"
  by (simp add: job_count_def count_items_def)

lemma FinishJob_items [simp]: "db_items (FinishJob now jobID c db) = db_items db"
  by (simp add: FinishJob_def upd_jobs_def)

lemma FinishJob_jobs:
  "j \<in> set (db_jobs (FinishJob now jobID c db)) \<Longrightarrow> j \<in> set (db_jobs db) \<and> bj_ID j \<noteq> jobID \<or> bj_ID j = jobID \<and> job_over j"
  by (auto simp: FinishJob_def upd_jobs_def update_where_def job_over_def split: if_splits)

lemma FinishJob_row:
  assumes "j \<in> set (db_jobs (FinishJob now jobID c db))" "bj_ID j = jobID"
  shows "bj_Status j = (if c then ''cancelled'' else ''finished'') \<and>
    bj_Succeeded j = job_count ''succeeded'' jobID db \<and> bj_Failed j = job_count ''failed'' jobID db \<and>
    bj_Partial j = job_count ''partial'' jobID db"
proof -
  obtain x where "x \<in> set (db_jobs db)" and j: "j = (if bj_ID x = jobID then x\<lparr>bj_Status := (if c then ''cancelled'' else ''finished''),
      bj_Total := count_items (of_job jobID) db, bj_Succeeded := job_count ''succeeded'' jobID db,
      bj_Partial := job_count ''partial'' jobID db, bj_Failed := job_count ''failed'' jobID db,
      bj_FinishedAt := now\<rparr> else x)"
    using assms(1) by (auto simp: FinishJob_def upd_jobs_def update_where_def)
  show ?thesis using assms(2) unfolding j by (simp split: if_splits)
qed

lemma FinishJob_ids [simp]: "map bj_ID (db_jobs (FinishJob now jobID c db)) = map bj_ID (db_jobs db)"
  by (simp add: FinishJob_def upd_jobs_def update_where_def)

lemma GetBatchJob_None: "(GetBatchJob db jobID = None) = (jobID \<notin> set (map bj_ID (db_jobs db)))"
  by (auto simp: GetBatchJob_def find_None_iff)

lemma find_by_id:
  "distinct (map f xs) \<Longrightarrow> x \<in> set xs \<Longrightarrow> find (\<lambda>y. f y = f x) xs = Some x"
  by (induction xs) (auto simp: image_iff)

lemma finalizeLocked_cases:
  obtains "finalizeLocked env jobID db = (None, db)"
    "\<forall>job. GetBatchJob db jobID = Some job \<longrightarrow> job_over job \<or> \<not> drained db job"
  | job where "GetBatchJob db jobID = Some job" "\<not> job_over job" "drained db job"
    "finalizeLocked env jobID db =
       (GetBatchJob (FinishJob (nowStr env) jobID (bj_Status job = ''cancelling'') db) jobID,
        FinishJob (nowStr env) jobID (bj_Status job = ''cancelling'') db)"
proof (cases "GetBatchJob db jobID")
  case None
  then show ?thesis using that(1) by (simp add: finalizeLocked_def)
next
  case (Some job)
  have j: "bj_ID job = jobID" using Some by (auto simp: GetBatchJob_def find_Some_iff)
  show ?thesis
  proof (cases "job_over job \<or> \<not> drained db job")
    case True
    then have "finalizeLocked env jobID db = (None, db)"
      using Some j
      by (auto simp: job_count_pos finalizeLocked_def job_over_def drained_def LiveJobCounts_def Let_def runningItems_def)
    then show ?thesis using that(1) True Some by simp
  next
    case False
    then show ?thesis
      using that(2) [OF Some] Some j
      by (auto simp: job_count_pos finalizeLocked_def job_over_def drained_def LiveJobCounts_def Let_def runningItems_def)
  qed
qed

text \<open>
  A job is closed only when it is done: finalizing answers a job only if it was not over, no
  row of it runs and none waits (or it is being cancelled), it then carries the live counts of its
  rows, and no row is touched. In every other case nothing changes.
\<close>

theorem finalize_only_drained:
  "case finalizeLocked env jobID db of
     (None, db') \<Rightarrow> db' = db
   | (Some j, db') \<Rightarrow> \<exists>job. GetBatchJob db jobID = Some job \<and> \<not> job_over job \<and> drained db job \<and>
       bj_Status j = (if bj_Status job = ''cancelling'' then ''cancelled'' else ''finished'') \<and>
       bj_Succeeded j = job_count ''succeeded'' jobID db \<and> bj_Failed j = job_count ''failed'' jobID db \<and>
       bj_Partial j = job_count ''partial'' jobID db \<and> db_items db' = db_items db"
proof (rule finalizeLocked_cases [of env jobID db])
  assume "finalizeLocked env jobID db = (None, db)"
  then show ?thesis by simp
next
  fix job
  assume g: "GetBatchJob db jobID = Some job" "\<not> job_over job" "drained db job"
    and f: "finalizeLocked env jobID db =
       (GetBatchJob (FinishJob (nowStr env) jobID (bj_Status job = ''cancelling'') db) jobID,
        FinishJob (nowStr env) jobID (bj_Status job = ''cancelling'') db)"
  show ?thesis
  proof (cases "GetBatchJob (FinishJob (nowStr env) jobID (bj_Status job = ''cancelling'') db) jobID")
    case None
    then have "GetBatchJob db jobID = None" by (simp only: GetBatchJob_None FinishJob_ids not_False_eq_True)
    then show ?thesis using g by simp
  next
    case (Some j)
    then have "j \<in> set (db_jobs (FinishJob (nowStr env) jobID (bj_Status job = ''cancelling'') db))" "bj_ID j = jobID"
      by (auto simp: GetBatchJob_def find_Some_iff)
    note FinishJob_row [OF this]
    then show ?thesis using f g Some by simp
  qed
qed

lemma count_nonneg [simp]: "0 \<le> count_items P db"
  by (simp add: count_items_def)

lemma count_zero: "count_items P db = 0 \<longleftrightarrow> (\<forall>i\<in>set (db_items db). \<not> P i)"
  by (auto simp: count_items_def items_with_def filter_empty_conv)

lemma live_drained: "liveItems db j = 0 \<Longrightarrow> drained db j"
  by (auto simp: liveItems_def drained_def runningItems_def job_count_def count_zero)

text \<open>What finalizing keeps: the rows, the ids, and every job that is over.\<close>

definition closes :: "batchDb \<Rightarrow> batchDb \<Rightarrow> bool" where
  "closes db db' \<longleftrightarrow> db_items db' = db_items db \<and> map bj_ID (db_jobs db') = map bj_ID (db_jobs db) \<and>
     (\<forall>j\<in>set (db_jobs db'). j \<in> set (db_jobs db) \<or> job_over j)"

lemma closes_trans: "closes a b \<Longrightarrow> closes b c \<Longrightarrow> closes a c"
  by (auto simp: closes_def)

lemma closes_refl [simp]: "closes db db"
  by (simp add: closes_def)

lemma finalizeLocked_closes: "closes db (snd (finalizeLocked env jobID db))"
proof (rule finalizeLocked_cases [of env jobID db])
  assume "finalizeLocked env jobID db = (None, db)"
  then show ?thesis by simp
next
  fix job
  assume "finalizeLocked env jobID db =
       (GetBatchJob (FinishJob (nowStr env) jobID (bj_Status job = ''cancelling'') db) jobID,
        FinishJob (nowStr env) jobID (bj_Status job = ''cancelling'') db)"
  moreover have "closes db (FinishJob now jobID c db)" for now c
    using FinishJob_jobs [of _ now jobID c db] by (simp add: closes_def) blast
  ultimately show ?thesis by simp
qed

lemma finalize_into_snd: "snd (finalize_into env jobID (fin, db)) = snd (finalizeLocked env jobID db)"
  by (auto simp: finalize_into_def split: prod.splits option.splits)

lemma fold_finalize_closes: "closes db (snd (fold (finalize_into env) ids (fin, db)))"
proof (induction ids arbitrary: fin db)
  case (Cons x ids)
  obtain fin1 db1 where f: "finalize_into env x (fin, db) = (fin1, db1)" by fastforce
  have "closes db db1" using finalizeLocked_closes [of db env x] finalize_into_snd [of env x fin db] f by simp
  then show ?case using Cons.IH [of db1 fin1] f closes_trans by simp
qed simp

text \<open>A drained job whose turn comes is over afterwards.\<close>

lemma finalizeLocked_over:
  assumes "distinct (map bj_ID (db_jobs db))" and "\<forall>j\<in>set (db_jobs db). bj_ID j = jobID \<longrightarrow> drained db j \<or> job_over j"
    and "j \<in> set (db_jobs (snd (finalizeLocked env jobID db)))" "bj_ID j = jobID"
  shows "job_over j"
proof (rule finalizeLocked_cases [of env jobID db])
  assume none: "finalizeLocked env jobID db = (None, db)"
    and stays: "\<forall>job. GetBatchJob db jobID = Some job \<longrightarrow> job_over job \<or> \<not> drained db job"
  have "j \<in> set (db_jobs db)" using assms(3) none by simp
  then have "GetBatchJob db jobID = Some j"
    using find_by_id [OF assms(1), of j] assms(4) by (simp add: GetBatchJob_def)
  then show ?thesis using stays assms(2,4) \<open>j \<in> set (db_jobs db)\<close> by blast
next
  fix job
  assume "finalizeLocked env jobID db =
       (GetBatchJob (FinishJob (nowStr env) jobID (bj_Status job = ''cancelling'') db) jobID,
        FinishJob (nowStr env) jobID (bj_Status job = ''cancelling'') db)"
  then show ?thesis using assms(3,4) FinishJob_jobs by fastforce
qed

lemma drained_items: "db_items a = db_items b \<Longrightarrow> drained a j = drained b j"
  by (simp add: drained_def runningItems_def job_count_def count_items_def items_with_def)

definition id_over :: "int \<Rightarrow> batchDb \<Rightarrow> bool" where
  "id_over x db \<longleftrightarrow> (\<forall>j\<in>set (db_jobs db). bj_ID j = x \<longrightarrow> job_over j)"

lemma id_over_closes: "closes a b \<Longrightarrow> id_over x a \<Longrightarrow> id_over x b"
  by (auto simp: closes_def id_over_def)

lemma fold_finalize_over:
  assumes "distinct (map bj_ID (db_jobs db))" "x \<in> set ids"
    and "\<forall>j\<in>set (db_jobs db). bj_ID j = x \<longrightarrow> drained db j \<or> job_over j"
  shows "id_over x (snd (fold (finalize_into env) ids (fin, db)))"
  using assms
proof (induction ids arbitrary: fin db)
  case (Cons y ids)
  obtain fin1 db1 where f: "finalize_into env y (fin, db) = (fin1, db1)" by fastforce
  have db1: "db1 = snd (finalizeLocked env y db)" using finalize_into_snd [of env y fin db] f by simp
  have c: "closes db db1" unfolding db1 by (rule finalizeLocked_closes)
  show ?case
  proof (cases "x = y")
    case True
    then have "id_over x db1"
      using finalizeLocked_over [OF Cons.prems(1,3)] unfolding db1 id_over_def by blast
    then show ?thesis using id_over_closes [OF fold_finalize_closes] f by simp
  next
    case False
    have "\<forall>j\<in>set (db_jobs db1). bj_ID j = x \<longrightarrow> drained db1 j \<or> job_over j"
      using c Cons.prems(3) drained_items [of db1 db] by (auto simp: closes_def)
    then show ?thesis using Cons.IH [of db1 fin1] c Cons.prems(1,2) False f by (simp add: closes_def)
  qed
qed simp

lemma same_id: "distinct (map bj_ID js) \<Longrightarrow> a \<in> set js \<Longrightarrow> b \<in> set js \<Longrightarrow> bj_ID a = bj_ID b \<Longrightarrow> a = b"
  by (auto simp: distinct_map inj_on_def)

lemma upd_jobs_ids: "(\<And>j. bj_ID (f j) = bj_ID j) \<Longrightarrow> map bj_ID (db_jobs (upd_jobs P f db)) = map bj_ID (db_jobs db)"
  by (simp add: upd_jobs_def update_where_def)

lemma sweep_ids: "map bj_ID (db_jobs (sweep_job env j db)) = map bj_ID (db_jobs db)"
  by (auto simp: sweep_job_def SetJobWindow_def ExpireJob_def ClearJobWindow_def upd_jobs_ids Let_def
      split: presetCol.splits option.splits prod.splits)

lemma dispatch_job_ids:
  "map bj_ID (db_jobs (snd (dispatch env meta it (started, db)))) = map bj_ID (db_jobs db)"
  by (auto simp: dispatch_def MarkItemRunning_def MarkJobRunning_def upd_items_def upd_jobs_ids Let_def
      split: option.splits prod.splits)

lemma fold_job_ids:
  assumes "\<And>x s. map bj_ID (db_jobs (g (f x s))) = map bj_ID (db_jobs (g s))"
  shows "map bj_ID (db_jobs (g (fold f xs s))) = map bj_ID (db_jobs (g s))"
  by (induction xs arbitrary: s) (simp_all add: assms)

lemma admitLocked_job_ids: "map bj_ID (db_jobs (snd (admitLocked env db))) = map bj_ID (db_jobs db)"
proof -
  have "map bj_ID (db_jobs (snd (fold (dispatch env meta) its ([], db)))) = map bj_ID (db_jobs (snd ([] :: (BatchJob \<times> BatchItem) list, db)))"
    for meta its by (rule fold_job_ids) (metis dispatch_job_ids prod.collapse)
  then show ?thesis by (simp add: admitLocked_def Let_def)
qed

text \<open>
  Property C33. A tick strands no job: after it every queued or running job still has a queued or running
  row, and every job being cancelled still has a row in flight, so a later finish will close it.
\<close>

theorem tick_strands_no_job:
  assumes "well_keyed db" and "scheduleTick env db = (started, fin, db')" and "j \<in> set (db_jobs db')"
  shows "(schedulable j \<longrightarrow> 0 < liveItems db' j) \<and>
    (bj_Status j = ''cancelling'' \<longrightarrow> 0 < runningItems db' j)"
proof -
  define db1 where "db1 = snd (admitLocked env (sweepPresetWindowsLocked env db))"
  define ids1 where "ids1 = map bj_ID (filter (\<lambda>j. liveItems db1 j = 0) (SchedulableJobs db1))"
  define s2 where "s2 = fold (finalize_into env) ids1 ([], db1)"
  define ids2 where "ids2 = CancellingJobIDs (snd s2)"
  have db': "db' = snd (fold (finalize_into env) ids2 (fst s2, snd s2))"
    using assms(2) by (simp add: scheduleTick_def db1_def ids1_def s2_def ids2_def split: prod.splits)
  have "map bj_ID (db_jobs (sweepPresetWindowsLocked env db)) = map bj_ID (db_jobs db)"
    unfolding sweepPresetWindowsLocked_def using fold_job_ids [of "\<lambda>d. d" "sweep_job env"] sweep_ids by simp
  then have d1: "distinct (map bj_ID (db_jobs db1))"
    using assms(1) admitLocked_job_ids by (simp add: db1_def well_keyed_def)
  have c12: "closes db1 (snd s2)" unfolding s2_def by (rule fold_finalize_closes)
  have c23: "closes (snd s2) db'" unfolding db' by (rule fold_finalize_closes)
  have d2: "distinct (map bj_ID (db_jobs (snd s2)))" using c12 d1 by (simp add: closes_def)
  have j2: "j \<in> set (db_jobs (snd s2))" if "\<not> job_over j" using c23 assms(3) that by (auto simp: closes_def)
  have j1: "j \<in> set (db_jobs db1)" if "\<not> job_over j" using c12 j2 [OF that] that by (auto simp: closes_def)
  have items: "db_items db' = db_items db1" "db_items (snd s2) = db_items db1"
    using c12 c23 by (simp_all add: closes_def)
  have counts: "liveItems db' j = liveItems db1 j" "runningItems db' j = runningItems (snd s2) j"
    using items by (simp_all add: liveItems_def runningItems_def job_count_def count_items_def items_with_def)
  have "0 < liveItems db' j" if "schedulable j"
  proof (rule ccontr)
    assume "\<not> 0 < liveItems db' j"
    then have zero: "liveItems db1 j = 0" using counts by (simp add: liveItems_def count_items_def)
    have n: "\<not> job_over j" using that by (auto simp: schedulable_def job_over_def)
    have "bj_ID j \<in> set ids1"
      using j1 [OF n] that zero by (auto simp: ids1_def SchedulableJobs_def jobs_by_id_def)
    moreover have "\<forall>i\<in>set (db_jobs db1). bj_ID i = bj_ID j \<longrightarrow> drained db1 i \<or> job_over i"
      using same_id [OF d1 _ j1 [OF n]] live_drained [OF zero] by blast
    ultimately have "id_over (bj_ID j) (snd s2)"
      using fold_finalize_over [OF d1, of "bj_ID j" ids1 env "[]"] by (simp add: s2_def)
    then show False using id_over_closes [OF c23] assms(3) n by (auto simp: id_over_def)
  qed
  moreover have "0 < runningItems db' j" if "bj_Status j = ''cancelling''"
  proof (rule ccontr)
    assume "\<not> 0 < runningItems db' j"
    then have zero: "runningItems (snd s2) j = 0"
      using counts by (simp add: runningItems_def job_count_def count_items_def)
    have n: "\<not> job_over j" using that by (simp add: job_over_def)
    have "bj_ID j \<in> set ids2"
      using j2 [OF n] that by (auto simp: ids2_def CancellingJobIDs_def job_ids_in_def)
    moreover have "\<forall>i\<in>set (db_jobs (snd s2)). bj_ID i = bj_ID j \<longrightarrow> drained (snd s2) i \<or> job_over i"
      using same_id [OF d2 _ j2 [OF n]] zero that by (auto simp: drained_def)
    ultimately have "id_over (bj_ID j) db'"
      using fold_finalize_over [OF d2, of "bj_ID j" ids2 env "fst s2"] by (simp add: db')
    then show False using assms(3) n by (auto simp: id_over_def)
  qed
  ultimately show ?thesis by blast
qed

definition demo_full :: schedEnv where
  "demo_full = demo_sched\<lparr>sv_settings := Map.empty\<rparr>"

lemma demo_tick: "scheduleTick demo_full demo_batch = ([], [], demo_batch)"
proof -
  have "RunningItemCount demo_batch = 1" by code_simp
  moreover have "batchBudget demo_full = 1"
    by (simp add: batchBudget_def setting_int_def GetSetting_def demo_full_def) code_simp
  moreover have "QueuedPresetJobs demo_batch = []" by code_simp
  moreover have "filter (\<lambda>j. liveItems demo_batch j = 0) (SchedulableJobs demo_batch) = []" by code_simp
  moreover have "CancellingJobIDs demo_batch = []" by code_simp
  ultimately show ?thesis
    by (simp add: scheduleTick_def admitLocked_def sweepPresetWindowsLocked_def Let_def)
qed

lemma tick_strands_no_job_witness:
  "schedulable (demo_job 2 ''queued'') \<and> 0 < liveItems demo_batch (demo_job 2 ''queued'')"
proof -
  have "demo_job 2 ''queued'' \<in> set (db_jobs demo_batch)" by (simp add: demo_batch_def)
  moreover have "schedulable (demo_job 2 ''queued'')" by code_simp
  ultimately show ?thesis using tick_strands_no_job [OF demo_batch_keyed demo_tick] by blast
qed

end
