(* ===== verification/OU_Admin.thy ===== *)
theory OU_Admin
  imports Report_Owner Batch_Sched
begin

text \<open>
  The administrative writes of the organizational units (ou_admin_write.go, the OU half of
  user_admin_api.go, user_admin.go, ou_lifecycle.go): create, replace, patch and delete, each one
  transaction that reads the tree, checks the proposed tree and stores one row. A request body is a
  record; the JSON of a patch is decoded by an argument. Answers carry the error code; the message of an
  error and the audit row are left out.
\<close>

section \<open>Request bodies\<close>

text \<open>The raw forecast scope: absent, null, a JSON string, or any other JSON value.\<close>

datatype rawScope = ScopeAbsent | ScopeNull | ScopeText string | ScopeOther

record groupInput =
  gi_ForecastScope :: rawScope
  gi_Name :: string
  gi_Description :: string
  gi_Weight :: "int option"
  gi_UrgentUnlimited :: "bool option"
  gi_AllowUrgent :: "bool option"
  gi_MaxQueued :: "int option"
  gi_RunWindow :: "string option"
  gi_Priority :: string
  gi_Restricted :: "bool option"
  gi_DailyRunQuota :: "int option"
  gi_RunQuotaPeriod :: "string option"
  gi_ParentID :: "int option"
  gi_TOTPEnroll :: "bool option"
  gi_PasskeyEnroll :: "bool option"
  gi_Require2FA :: "bool option"

text \<open>What a writer answers instead of a row: a named refusal, no row, a broken tree, a taken name,
  and any other error, which the handlers answer as an error of the database.\<close>

datatype ouWriteErr = OuInvalid string | OuNoRows | OuTree ouErr | OuUnique | OuDb

definition ouWriteHTTPError :: "ouWriteErr \<Rightarrow> int \<times> string" where
  "ouWriteHTTPError e =
     (case e of
        OuInvalid code \<Rightarrow> (400, code)
      | OuNoRows \<Rightarrow> (404, [])
      | OuTree DefaultErr \<Rightarrow> (409, ''ou_invalid_topology'')
      | OuUnique \<Rightarrow> (400, ''ou_duplicate_name'')
      | _ \<Rightarrow> (500, ''db_error''))"

definition clampWeight :: "int \<Rightarrow> int" where
  "clampWeight w = (if w < 0 then 0 else if 999 < w then 999 else w)"

definition normalizeRunWindow :: "string \<Rightarrow> string" where
  "normalizeRunWindow win = (case parseRunWindow win of Some _ \<Rightarrow> trim_space win | None \<Rightarrow> [])"

definition or_default :: "bool \<Rightarrow> 'a \<Rightarrow> 'a option \<Rightarrow> 'a option" where
  "or_default isDefault base v = (case v of None \<Rightarrow> if isDefault then Some base else None | Some x \<Rightarrow> Some x)"

definition in_overrides :: "groupInput \<Rightarrow> bool \<Rightarrow> int option \<times> bool option" where
  "in_overrides inp isDefault =
     (or_default isDefault 0 (map_option clampWeight (gi_Weight inp)),
      or_default isDefault False (gi_UrgentUnlimited inp))"

definition in_governance :: "groupInput \<Rightarrow> bool \<Rightarrow> bool option \<times> int option \<times> string option" where
  "in_governance inp isDefault =
     (or_default isDefault True (gi_AllowUrgent inp),
      or_default isDefault 0 (map_option (\<lambda>v. if v < 0 then 0 else v) (gi_MaxQueued inp)),
      or_default isDefault [] (map_option normalizeRunWindow (gi_RunWindow inp)))"

definition in_tenancy :: "groupInput \<Rightarrow> bool \<Rightarrow> bool option \<times> int option" where
  "in_tenancy inp isDefault =
     ((if isDefault \<and> (gi_Restricted inp = None \<or> gi_Restricted inp = Some True) then Some False
       else gi_Restricted inp),
      or_default isDefault 0 (map_option (\<lambda>q. if q < 0 then 0 else q) (gi_DailyRunQuota inp)))"

definition in_quotaPeriod :: "groupInput \<Rightarrow> string" where
  "in_quotaPeriod inp = (case gi_RunQuotaPeriod inp of None \<Rightarrow> QuotaDay | Some p \<Rightarrow> p)"

definition parseForecastScopeInput :: "rawScope \<Rightarrow> bool \<Rightarrow> unit + string option" where
  "parseForecastScopeInput raw isDefault =
     (case raw of
        ScopeAbsent \<Rightarrow> Inr None
      | ScopeNull \<Rightarrow> Inr (if isDefault then Some scopeNone else None)
      | ScopeText v \<Rightarrow> if v \<in> {scopeAll, scopeOwn, scopeNone} then Inr (Some v) else Inl ()
      | ScopeOther \<Rightarrow> Inl ())"

section \<open>The proposed tree\<close>

text \<open>The policy columns a full body writes; export columns and, when omitted, the flag of a tenant stay.\<close>

definition input_values :: "groupInput \<Rightarrow> bool \<Rightarrow> ouPolicyValues \<Rightarrow> ouPolicyValues" where
  "input_values inp isDefault v =
     (let (weight, urgent) = in_overrides inp isDefault;
          (allow, maxQueued, window) = in_governance inp isDefault;
          (restricted, quota) = in_tenancy inp isDefault;
          period = (if validQuotaPeriod (in_quotaPeriod inp) then in_quotaPeriod inp else QuotaDay)
      in v\<lparr>pv_weight := weight, pv_urgent := urgent, pv_allowUrgent := allow, pv_maxQueued := maxQueued,
           pv_runWindow := window,
           pv_restricted := (case restricted of None \<Rightarrow> pv_restricted v | Some b \<Rightarrow> Some b),
           pv_quota := map_option (\<lambda>q. \<lparr>rq_Limit = q, rq_Period = period\<rparr>) quota,
           pv_totp := gi_TOTPEnroll inp, pv_passkey := gi_PasskeyEnroll inp, pv_require2FA := gi_Require2FA inp,
           pv_priority := (if gi_Priority inp \<noteq> [] \<and> \<not> isDefault then Some (gi_Priority inp) else None)\<rparr>)"

definition input_parent :: "groupInput \<Rightarrow> ouNode \<Rightarrow> ouWriteErr + int" where
  "input_parent inp node =
     (case gi_ParentID inp of
        None \<Rightarrow> Inr (nd_parent node)
      | Some p \<Rightarrow>
          if nd_isDefault node \<and> p \<noteq> 0 then Inl (OuInvalid ''ou_invalid_parent'')
          else if \<not> nd_isDefault node \<and> p \<le> 0 then Inl (OuInvalid ''ou_invalid_parent'')
          else Inr p)"

text \<open>The row a body stands for, before the tree around it is looked at.\<close>

definition proposed_row ::
  "string \<Rightarrow> ouPolicySnapshot \<Rightarrow> int \<Rightarrow> groupInput \<Rightarrow> bool \<Rightarrow> ouWriteErr + ouNode \<times> ouPolicyValues" where
  "proposed_row now snap ou inp create =
     (if trim_space (gi_Name inp) = [] then Inl (OuInvalid ''ou_name_required'')
      else if g_defaultErr (sn_graph snap) then Inl (OuTree DefaultErr)
      else if \<not> create \<and> map_of (g_nodes (sn_graph snap)) ou = None then Inl OuNoRows
      else let node = (if create
                       then \<lparr>nd_parent = g_defaultID (sn_graph snap), nd_isDefault = False, nd_name = [],
                             nd_description = [], nd_created = now\<rparr>
                       else the (map_of (g_nodes (sn_graph snap)) ou))
           in case input_parent inp node of
                Inl e \<Rightarrow> Inl e
              | Inr parent \<Rightarrow>
                  let node' = node\<lparr>nd_parent := parent, nd_name := trim_space (gi_Name inp),
                                   nd_description := trim_space (gi_Description inp)\<rparr>;
                      v = input_values inp (nd_isDefault node) (values_of snap ou)
                  in case gi_ForecastScope inp of
                       ScopeAbsent \<Rightarrow> Inr (node', v)
                     | raw \<Rightarrow> (case parseForecastScopeInput raw (nd_isDefault node) of
                                 Inl _ \<Rightarrow> Inl (OuInvalid ''forecast_bad_scope'')
                               | Inr scope \<Rightarrow> Inr (node', v\<lparr>pv_scope := scope\<rparr>)))"

definition put_row :: "int \<Rightarrow> ouNode \<Rightarrow> ouPolicyValues \<Rightarrow> ouPolicySnapshot \<Rightarrow> ouPolicySnapshot" where
  "put_row ou node v snap =
     \<lparr>sn_graph = newOUGraph (AList.update ou node (g_nodes (sn_graph snap))),
      sn_values = AList.update ou v (sn_values snap)\<rparr>"

definition prepareOUInput ::
  "string \<Rightarrow> ouPolicySnapshot \<Rightarrow> int \<Rightarrow> groupInput \<Rightarrow> bool \<Rightarrow> ouWriteErr + ouPolicySnapshot" where
  "prepareOUInput now snap ou inp create =
     (case proposed_row now snap ou inp create of
        Inl e \<Rightarrow> Inl e
      | Inr (node, v) \<Rightarrow>
          let proposed = put_row ou node v snap
          in case policyChain (sn_graph proposed) ou of
               Inl _ \<Rightarrow> Inl (OuInvalid ''ou_invalid_parent'')
             | Inr _ \<Rightarrow> (case subtree (sn_graph proposed) ou of
                           Some (Inr _) \<Rightarrow> Inr proposed
                         | _ \<Rightarrow> Inl (OuInvalid ''ou_invalid_parent'')))"

section \<open>Mandates\<close>

definition settingBool :: "string \<Rightarrow> bool \<Rightarrow> bool" where
  "settingBool raw dflt =
     (let r = to_lower (trim_space raw)
      in if r \<in> {''1'', ''true'', ''yes'', ''on''} then True
         else if r \<in> {''0'', ''false'', ''no'', ''off''} then False else dflt)"

definition ouGlobalBool :: "(string \<rightharpoonup> string) \<Rightarrow> string \<Rightarrow> bool \<Rightarrow> bool" where
  "ouGlobalBool meta key baseline = (case meta key of None \<Rightarrow> baseline | Some raw \<Rightarrow> settingBool raw baseline)"

definition setTOTPEnroll :: string where [go_const]: "setTOTPEnroll = ''twofa_totp_enroll''"
definition setPasskeyEnroll :: string where [go_const]: "setPasskeyEnroll = ''twofa_passkey_enroll''"

text \<open>An OU whose members must have a second factor while every way to enrol one is closed.\<close>

definition stranded :: "(string \<rightharpoonup> string) \<Rightarrow> ouPolicySnapshot \<Rightarrow> int \<Rightarrow> bool" where
  "stranded meta snap ou =
     (case resolve snap ou of
        Inl _ \<Rightarrow> False
      | Inr p \<Rightarrow> op_Effective (rp_Require2FA p) \<and>
          \<not> (ouGlobalBool meta setTOTPEnroll True \<and> op_Effective (rp_TOTP p)) \<and>
          \<not> (ouGlobalBool meta setPasskeyEnroll True \<and> op_Effective (rp_Passkey p)))"

definition validateOUMandates :: "(string \<rightharpoonup> string) \<Rightarrow> ouPolicySnapshot \<Rightarrow> ouWriteErr option" where
  "validateOUMandates meta proposed =
     (if list_ex (stranded meta proposed) (map fst (sn_values proposed))
      then Some (OuInvalid ''unsatisfiable_mandate'') else None)"

section \<open>Patches\<close>

text \<open>
  A patch is the map of its JSON fields. The body it is merged into is built from the stored row;
  \<open>decode\<close> stands for encoding that body, replacing the patched fields and decoding the result.
\<close>

definition input_fields :: "string list" where
  "input_fields = [''forecast_scope'', ''name'', ''description'', ''weight'', ''urgent_unlimited'', ''allow_urgent'',
     ''max_queued'', ''run_window'', ''priority'', ''restricted'', ''daily_run_quota'', ''run_quota_period'',
     ''parent_id'', ''totp_enroll'', ''passkey_enroll'', ''require_2fa'']"

definition stored_input :: "ouNode \<Rightarrow> ouPolicyValues \<Rightarrow> groupInput" where
  "stored_input node v =
     \<lparr>gi_ForecastScope = (case pv_scope v of None \<Rightarrow> ScopeNull | Some t \<Rightarrow> ScopeText t),
      gi_Name = nd_name node, gi_Description = nd_description node, gi_Weight = pv_weight v,
      gi_UrgentUnlimited = pv_urgent v, gi_AllowUrgent = pv_allowUrgent v, gi_MaxQueued = pv_maxQueued v,
      gi_RunWindow = pv_runWindow v, gi_Priority = (case pv_priority v of None \<Rightarrow> [] | Some p \<Rightarrow> p),
      gi_Restricted = pv_restricted v, gi_DailyRunQuota = map_option rq_Limit (pv_quota v),
      gi_RunQuotaPeriod = map_option rq_Period (pv_quota v), gi_ParentID = None,
      gi_TOTPEnroll = pv_totp v, gi_PasskeyEnroll = pv_passkey v, gi_Require2FA = pv_require2FA v\<rparr>"

definition patch_input ::
  "(groupInput \<Rightarrow> (string \<times> 'j) list \<Rightarrow> groupInput option) \<Rightarrow> (string \<times> 'j) list \<Rightarrow> ouPolicySnapshot \<Rightarrow> int \<Rightarrow>
   ouWriteErr + groupInput" where
  "patch_input decode patch snap ou =
     (case map_of (g_nodes (sn_graph snap)) ou of
        None \<Rightarrow> Inl OuNoRows
      | Some node \<Rightarrow>
          if list_ex (\<lambda>(k, raw). k \<notin> set input_fields) patch then Inl (OuInvalid ''ou_invalid_patch'')
          else (case decode (stored_input node (values_of snap ou)) patch of
                  None \<Rightarrow> Inl (OuInvalid ''ou_invalid_patch'')
                | Some inp \<Rightarrow>
                    Inr (if ''priority'' \<in> fst ` set patch
                         then inp\<lparr>gi_Priority := groupPriorityValid (gi_Priority inp)\<rparr> else inp)))"

definition kept_node :: "(string \<Rightarrow> bool) \<Rightarrow> ouNode \<Rightarrow> ouNode \<Rightarrow> ouNode" where
  "kept_node has node new =
     node\<lparr>nd_name := (if has ''name'' then nd_name new else nd_name node),
          nd_description := (if has ''description'' then nd_description new else nd_description node),
          nd_parent := (if has ''parent_id'' then nd_parent new else nd_parent node)\<rparr>"

definition kept_values :: "(string \<Rightarrow> bool) \<Rightarrow> ouPolicyValues \<Rightarrow> ouPolicyValues \<Rightarrow> ouPolicyValues" where
  "kept_values has v new =
     v\<lparr>pv_weight := (if has ''weight'' then pv_weight new else pv_weight v),
       pv_urgent := (if has ''urgent_unlimited'' then pv_urgent new else pv_urgent v),
       pv_allowUrgent := (if has ''allow_urgent'' then pv_allowUrgent new else pv_allowUrgent v),
       pv_maxQueued := (if has ''max_queued'' then pv_maxQueued new else pv_maxQueued v),
       pv_runWindow := (if has ''run_window'' then pv_runWindow new else pv_runWindow v),
       pv_priority := (if has ''priority'' then pv_priority new else pv_priority v),
       pv_restricted := (if has ''restricted'' then pv_restricted new else pv_restricted v),
       pv_quota := (if has ''daily_run_quota'' \<or> (has ''run_quota_period'' \<and> pv_quota v \<noteq> None)
                    then pv_quota new else pv_quota v),
       pv_totp := (if has ''totp_enroll'' then pv_totp new else pv_totp v),
       pv_passkey := (if has ''passkey_enroll'' then pv_passkey new else pv_passkey v),
       pv_require2FA := (if has ''require_2fa'' then pv_require2FA new else pv_require2FA v),
       pv_scope := (if has ''forecast_scope'' then pv_scope new else pv_scope v)\<rparr>"

text \<open>The nodes are changed in place; the child lists built before are not read again.\<close>

definition preserveUnpatchedOUFields ::
  "ouPolicySnapshot \<Rightarrow> ouPolicySnapshot \<Rightarrow> int \<Rightarrow> (string \<Rightarrow> bool) \<Rightarrow> ouPolicySnapshot" where
  "preserveUnpatchedOUFields before proposed ou has =
     (case (map_of (g_nodes (sn_graph before)) ou, map_of (g_nodes (sn_graph proposed)) ou) of
        (Some node, Some new) \<Rightarrow>
          proposed\<lparr>sn_graph := (sn_graph proposed)
                     \<lparr>g_nodes := AList.update ou (kept_node has node new) (g_nodes (sn_graph proposed))\<rparr>,
                   sn_values := AList.update ou (kept_values has (values_of before ou) (values_of proposed ou))
                                  (sn_values proposed)\<rparr>
      | _ \<Rightarrow> proposed)"

section \<open>Writing one row\<close>

record ouWriteResult =
  ow_ID :: int
  ow_Changed :: bool

text \<open>\<open>fresh\<close> is the id the database gives a new row; the name column is unique.\<close>

definition set_row :: "int \<Rightarrow> ouNode \<Rightarrow> ouPolicyValues \<Rightarrow> ouGroupRow list \<Rightarrow> ouGroupRow list" where
  "set_row ou node v rows = map (\<lambda>(u, n, w). if u = ou then (u, node, v) else (u, n, w)) rows"

definition store_row ::
  "int \<Rightarrow> int \<Rightarrow> bool \<Rightarrow> ouNode \<Rightarrow> ouPolicyValues \<Rightarrow> ouGroupRow list \<Rightarrow> ouWriteErr + ouGroupRow list" where
  "store_row fresh ou create node v rows =
     (if list_ex (\<lambda>(u, n, w). nd_name n = nd_name node \<and> (create \<or> u \<noteq> ou)) rows then Inl OuUnique
      else Inr (if create then rows @ [(fresh, node, v)]
                else set_row ou node v rows))"

definition previewID :: "ouNodes \<Rightarrow> int" where
  "previewID nodes = foldl (\<lambda>m u. if m \<le> u then u + 1 else m) 1 (map fst nodes)"

definition commit_row ::
  "(string \<rightharpoonup> string) \<Rightarrow> int \<Rightarrow> int \<Rightarrow> bool \<Rightarrow> int \<Rightarrow> ouPolicySnapshot \<Rightarrow> ouPolicySnapshot \<Rightarrow> ouGroupRow list \<Rightarrow>
   (ouWriteErr + ouWriteResult) \<times> ouGroupRow list" where
  "commit_row meta fresh ou create pre snap proposed rows =
     (case validateOUMandates meta proposed of
        Some e \<Rightarrow> (Inl e, rows)
      | None \<Rightarrow>
          let node = the (map_of (g_nodes (sn_graph proposed)) pre);
              v = values_of proposed pre;
              changed = (create \<or> map_of (g_nodes (sn_graph snap)) ou \<noteq> Some node \<or> values_of snap ou \<noteq> v)
          in if \<not> changed then (Inr \<lparr>ow_ID = ou, ow_Changed = False\<rparr>, rows)
             else case store_row fresh ou create node v rows of
                    Inl e \<Rightarrow> (Inl e, rows)
                  | Inr rows' \<Rightarrow> (Inr \<lparr>ow_ID = (if create then fresh else ou), ow_Changed = True\<rparr>, rows'))"

definition writeOUChanges ::
  "string \<Rightarrow> (string \<rightharpoonup> string) \<Rightarrow> int \<Rightarrow> int \<Rightarrow> bool \<Rightarrow> (string \<Rightarrow> bool) option \<Rightarrow>
   (ouPolicySnapshot \<Rightarrow> ouWriteErr + groupInput) \<Rightarrow> ouGroupRow list \<Rightarrow>
   (ouWriteErr + ouWriteResult) \<times> ouGroupRow list" where
  "writeOUChanges now meta fresh ou create patch input rows =
     (let snap = loadOUPolicySnapshot rows;
          pre = (if create then previewID (g_nodes (sn_graph snap)) else ou)
      in case input snap of
           Inl e \<Rightarrow> (Inl e, rows)
         | Inr inp \<Rightarrow>
             (case prepareOUInput now snap pre inp create of
                Inl e \<Rightarrow> (Inl e, rows)
              | Inr prepared \<Rightarrow>
                  commit_row meta fresh ou create pre snap
                    (case patch of None \<Rightarrow> prepared
                     | Some has \<Rightarrow> preserveUnpatchedOUFields snap prepared ou has) rows))"

definition writeOUInput ::
  "string \<Rightarrow> (string \<rightharpoonup> string) \<Rightarrow> int \<Rightarrow> int \<Rightarrow> groupInput \<Rightarrow> bool \<Rightarrow> ouGroupRow list \<Rightarrow>
   (ouWriteErr + ouWriteResult) \<times> ouGroupRow list" where
  "writeOUInput now meta fresh ou inp create rows =
     writeOUChanges now meta fresh ou create None
       (\<lambda>_. Inr (inp\<lparr>gi_Priority := groupPriorityValid (gi_Priority inp)\<rparr>)) rows"

definition patchOUInput ::
  "(groupInput \<Rightarrow> (string \<times> 'j) list \<Rightarrow> groupInput option) \<Rightarrow> (string \<rightharpoonup> string) \<Rightarrow> int \<Rightarrow> (string \<times> 'j) list \<Rightarrow>
   ouGroupRow list \<Rightarrow> (ouWriteErr + ouWriteResult) \<times> ouGroupRow list" where
  "patchOUInput decode meta ou patch rows =
     writeOUChanges [] meta 0 ou False (Some (\<lambda>k. k \<in> fst ` set patch)) (\<lambda>snap. patch_input decode patch snap ou) rows"

section \<open>Deleting an OU\<close>

text \<open>
  The tables a deletion reads or writes. Members are the accounts with their primary group column (0 for
  NULL), sets and evidence the attribution of predictions, grants pair a subject with a principal.
\<close>

record announcementRow =
  an_ID :: int
  an_Audience :: string
  an_Enabled :: bool

record orgDb =
  og_rows :: "ouGroupRow list"
  og_members :: "(string \<times> int) list"
  og_meta :: "string \<rightharpoonup> string"
  og_ssoDefaults :: "int list"
  og_sets :: "(int \<times> int option) list"
  og_evidence :: "(string \<times> string \<times> int) list"
  og_viewers :: "(int \<times> string) list"
  og_versionGrants :: "(string \<times> string) list"
  og_annGrants :: "(int \<times> string) list"
  og_routeGrants :: "(int \<times> string) list"
  og_targets :: targetDb
  og_appAccess :: "(string \<times> int \<times> bool) list"
  og_announcements :: "announcementRow list"

definition setSSORules :: string where [go_const]: "setSSORules = ''sso_group_rules''"

definition runDefaultsOUKey :: "int \<Rightarrow> string" where
  "runDefaultsOUKey ou = ''run_defaults_ou:'' @ itoa ou"

text \<open>\<open>rules\<close> decodes the stored assignment rules into the OUs they assign.\<close>

definition validateOUDeletionReferences :: "(string \<Rightarrow> int list option) \<Rightarrow> orgDb \<Rightarrow> int \<Rightarrow> ouWriteErr option" where
  "validateOUDeletionReferences rules db ou =
     (if list_ex (\<lambda>(name, g). g = ou) (og_members db) then Some (OuInvalid ''ou_has_members'')
      else if ou \<in> set (og_ssoDefaults db) then Some (OuInvalid ''ou_has_sso_references'')
      else case og_meta db setSSORules of
             None \<Rightarrow> None
           | Some raw \<Rightarrow>
               if raw = [] then None
               else (case rules raw of
                       None \<Rightarrow> Some OuDb
                     | Some targets \<Rightarrow> if ou \<in> set targets then Some (OuInvalid ''ou_has_sso_references'') else None))"

definition reattributePredictionPurgeOwners ::
  "int \<Rightarrow> int \<Rightarrow> (string \<times> string \<times> int) list \<Rightarrow> (string \<times> string \<times> int) list" where
  "reattributePredictionPurgeOwners from_ou to_ou owners =
     (if from_ou = to_ou then owners
      else let moved = (if 0 < to_ou
                        then filter (\<lambda>r. r \<notin> set owners)
                               (map (\<lambda>(r, c, u). (r, c, to_ou)) (filter (\<lambda>(r, c, u). u = from_ou) owners))
                        else [])
           in filter (\<lambda>(r, c, u). u \<noteq> from_ou) (owners @ moved))"

definition first_default :: "ouGroupRow list \<Rightarrow> int" where
  "first_default rows = (case sort (map fst (filter (\<lambda>(u, n, v). nd_isDefault n) rows)) of [] \<Rightarrow> 0 | d # _ \<Rightarrow> d)"

text \<open>Where the sets of a deleted OU go, and the parent its children get (0 for none).\<close>

definition delete_target :: "ouGroupRow list \<Rightarrow> int \<Rightarrow> int" where
  "delete_target rows parent =
     (if parent \<noteq> 0 \<and> map_of rows parent \<noteq> None then parent else first_default rows)"

definition child_parent :: "ouGroupRow list \<Rightarrow> int \<Rightarrow> int" where
  "child_parent rows parent = (if parent \<noteq> 0 \<and> map_of rows parent \<noteq> None then parent else 0)"

definition without_ou :: "int \<Rightarrow> int \<Rightarrow> ouGroupRow list \<Rightarrow> ouGroupRow list" where
  "without_ou ou parent rows =
     filter (\<lambda>(u, n, v). u \<noteq> ou)
       (map (\<lambda>(u, n, v). (u, if nd_parent n = ou then n\<lparr>nd_parent := parent\<rparr> else n, v)) rows)"

definition DeleteUserGroup ::
  "(string \<Rightarrow> int list option) \<Rightarrow> int \<Rightarrow> orgDb \<Rightarrow> ouWriteErr + (int \<times> int \<times> orgDb)" where
  "DeleteUserGroup rules ou db =
     (case map_of (og_rows db) ou of
        None \<Rightarrow> Inl OuDb
      | Some (node, v) \<Rightarrow>
          if nd_isDefault node then Inl OuDb
          else case validateOUDeletionReferences rules db ou of
            Some e \<Rightarrow> Inl e
          | None \<Rightarrow>
              let rows = og_rows db; target = delete_target rows (nd_parent node); p = groupPrincipal ou;
                  keep = (\<lambda>g. g \<noteq> p)
              in Inr (int (length (filter (\<lambda>(s, a). a = Some ou) (og_sets db))), target,
                   db\<lparr>og_sets := map (\<lambda>(s, a). (s, if a = Some ou then (if target \<noteq> 0 then Some target else None) else a)) (og_sets db),
                      og_evidence := reattributePredictionPurgeOwners ou target (og_evidence db),
                      og_members := map (\<lambda>(name, g). (name, if g = ou then 0 else g)) (og_members db),
                      og_viewers := filter (keep \<circ> snd) (og_viewers db),
                      og_versionGrants := filter (keep \<circ> snd) (og_versionGrants db),
                      og_annGrants := filter (keep \<circ> snd) (og_annGrants db),
                      og_routeGrants := filter (keep \<circ> snd) (og_routeGrants db),
                      og_targets := (og_targets db)
                        \<lparr>tg_rows := filter (\<lambda>(u, g). u \<noteq> ou) (tg_rows (og_targets db)),
                         tg_headers := filter (\<lambda>u. u \<noteq> ou) (tg_headers (og_targets db))\<rparr>,
                      og_appAccess := filter (\<lambda>(k, u, on). u \<noteq> ou) (og_appAccess db),
                      og_meta := (og_meta db)(runDefaultsOUKey ou := None),
                      og_rows := without_ou ou (child_parent rows (nd_parent node)) rows\<rparr>))"

text \<open>The announcements addressed to a principal, and those addressed to nobody else.\<close>

definition announcementImpactOf :: "orgDb \<Rightarrow> string \<Rightarrow> int list \<times> int list" where
  "announcementImpactOf db p =
     (let grants = (\<lambda>a. map snd (filter (\<lambda>(i, q). i = an_ID a) (og_annGrants db)));
          affected = filter (\<lambda>a. an_Audience a = ''grant'' \<and> p \<in> set (grants a)) (og_announcements db)
      in (map an_ID affected, map an_ID (filter (\<lambda>a. length (grants a) = 1) affected)))"

definition SetAnnouncementEnabled :: "int \<Rightarrow> bool \<Rightarrow> orgDb \<Rightarrow> orgDb" where
  "SetAnnouncementEnabled aid on db =
     db\<lparr>og_announcements := update_where (\<lambda>a. an_ID a = aid) (\<lambda>a. a\<lparr>an_Enabled := on\<rparr>) (og_announcements db)\<rparr>"

definition apiGroupDelete ::
  "(string \<Rightarrow> int list option) \<Rightarrow> int \<Rightarrow> string \<Rightarrow> orgDb \<Rightarrow> ((int \<times> string) + unit) \<times> orgDb" where
  "apiGroupDelete rules ou orphans db =
     (let orphaned = snd (announcementImpactOf db (groupPrincipal ou)); choice = trim_space orphans
      in if orphaned \<noteq> [] \<and> choice \<noteq> ''disable'' \<and> choice \<noteq> ''keep''
         then (Inl (409, ''group_has_announcements''), db)
         else case DeleteUserGroup rules ou db of
           Inl e \<Rightarrow> (Inl (ouWriteHTTPError e), db)
         | Inr (moved, target, db1) \<Rightarrow>
             (Inr (), if choice = ''disable'' then fold (\<lambda>aid. SetAnnouncementEnabled aid False) orphaned db1 else db1))"

end
