(* ===== verification/OU_Tree.thy ===== *)
theory OU_Tree
  imports OU_Admin
begin

text \<open>
  What the administrative writes do to the tree of units: the row a write stores is the row whose chain and
  subtree were checked, so a create, a move or a deletion keeps every unit on a path to the one Default OU.
  Paths are grafted when a unit moves and shortened when one is deleted.
\<close>

section \<open>Valid trees\<close>

definition nodes_of :: "ouGroupRow list \<Rightarrow> ouNodes" where
  "nodes_of rows = map (\<lambda>(u, n, v). (u, n)) rows"

text \<open>One parentless Default OU, distinct positive ids, and from every OU a path of at most 64 to a root.\<close>

definition tree_ok :: "ouGroupRow list \<Rightarrow> bool" where
  "tree_ok rows \<longleftrightarrow> wf_nodes (nodes_of rows) \<and> \<not> g_defaultErr (newOUGraph (nodes_of rows)) \<and>
     (\<forall>u\<in>fst ` set rows. \<exists>xs. ou_path (nodes_of rows) u xs \<and> length xs \<le> ouMaxDepth)"

lemma map_of_nodes: "map_of (nodes_of rows) u = map_option fst (map_of rows u)"
  unfolding nodes_of_def by (induction rows) auto

lemma fst_nodes: "map fst (nodes_of rows) = map fst rows"
  unfolding nodes_of_def by (induction rows) auto

lemma loaded_snapshot [simp]:
  "sn_graph (loadOUPolicySnapshot rows) = newOUGraph (nodes_of rows)"
  "fst ` set (sn_values (loadOUPolicySnapshot rows)) = fst ` set rows"
  by (force simp: loadOUPolicySnapshot_def nodes_of_def)+

lemma map_of_values: "map_of (sn_values (loadOUPolicySnapshot rows)) u = map_option snd (map_of rows u)"
  unfolding loadOUPolicySnapshot_def by (induction rows) auto

lemma ou_path_same:
  "ou_path nodes u xs \<Longrightarrow>
   \<forall>x\<in>set xs. map_option nd_parent (map_of nodes' x) = map_option nd_parent (map_of nodes x) \<Longrightarrow> ou_path nodes' u xs"
proof (induction xs arbitrary: u)
  case (Cons x xs)
  then obtain n where n: "map_of nodes x = Some n" "ou_path nodes (nd_parent n) xs" "u = x" "0 < x"
    by (auto split: option.splits)
  moreover obtain n' where "map_of nodes' x = Some n'" "nd_parent n' = nd_parent n" using Cons.prems(2) n(1) by auto
  moreover have "ou_path nodes' (nd_parent n) xs" using Cons.IH [OF n(2)] Cons.prems(2) by simp
  ultimately show ?case by simp
qed simp

lemma ou_path_graft:
  "ou_path nodes u (ps @ a # qs) \<Longrightarrow> \<forall>x\<in>set ps. map_option nd_parent (map_of nodes' x) = map_option nd_parent (map_of nodes x) \<Longrightarrow>
   ou_path nodes' a ys \<Longrightarrow> ou_path nodes' u (ps @ ys)"
proof (induction ps arbitrary: u)
  case Nil
  then show ?case by simp
next
  case (Cons x ps)
  then obtain n where n: "map_of nodes x = Some n" "ou_path nodes (nd_parent n) (ps @ a # qs)" "u = x" "0 < x"
    by (auto split: option.splits)
  moreover obtain n' where "map_of nodes' x = Some n'" "nd_parent n' = nd_parent n" using Cons.prems(2) n(1) by auto
  moreover have "ou_path nodes' (nd_parent n) (ps @ ys)" using Cons.IH [OF n(2) _ Cons.prems(3)] Cons.prems(2) by simp
  ultimately show ?case by simp
qed

text \<open>When the walk answers, the children of everything it answers passed the check of a chain.\<close>

lemma subtree_walk_closed:
  "subtree_walk k g out queue = Some (Inr ids) \<Longrightarrow>
   set out \<union> set queue \<subseteq> set ids \<and>
   (\<forall>x\<in>set ids - set out. first_err g (g_children g x) = None \<and> set (g_children g x) \<subseteq> set ids)"
proof (induction k g out queue rule: subtree_walk.induct)
  case (3 k g out u queue)
  then have f: "first_err g (g_children g u) = None"
    and w: "subtree_walk k g (out @ [u]) (queue @ g_children g u) = Some (Inr ids)" by (auto split: option.splits)
  show ?case using "3.IH" [OF f w] f by auto
qed auto

lemma subtree_answer:
  assumes "subtree g r = Some (Inr ids)" "r \<noteq> 0"
  shows "\<exists>ys. subtree_walk (length (g_nodes g)) g [] [r] = Some (Inr ys) \<and> set ys = set ids"
proof -
  obtain res where w: "subtree_walk (length (g_nodes g)) g [] [r] = Some res" "map_sum (\<lambda>e. e) sort res = Inr ids"
    using assms by (auto simp: subtree_def split: sum.splits)
  then show ?thesis by (cases res) auto
qed

lemma subtree_closed:
  assumes "subtree g r = Some (Inr ids)" and "r \<noteq> 0" and "x \<in> set ids"
  shows "r \<in> set ids \<and> set (g_children g x) \<subseteq> set ids \<and> (\<forall>c\<in>set (g_children g x). \<exists>xs. actualChain g c = Inr xs)"
proof -
  obtain ys where w: "subtree_walk (length (g_nodes g)) g [] [r] = Some (Inr ys)" "set ys = set ids"
    using subtree_answer [OF assms(1,2)] by blast
  show ?thesis using subtree_walk_closed [OF w(1)] w(2) assms(3) by (auto simp: first_err_None)
qed

text \<open>Everything that reaches the root of an answered subtree has a chain within the limit.\<close>

lemma below_within:
  assumes st: "subtree (newOUGraph nodes) a = Some (Inr ids)" and "a \<noteq> 0" and dk: "distinct (map fst nodes)"
    and ya: "ou_path nodes a ys" and ok: "actualChain (newOUGraph nodes) a = Inr ys"
  shows "ou_path nodes u (ps @ ys) \<Longrightarrow> u \<in> set ids \<and> length (ps @ ys) \<le> ouMaxDepth"
proof (induction ps arbitrary: u)
  case Nil
  then have "ys \<noteq> []" "u = a" using ya assms(2) by (cases ys; auto)+
  then show ?case
    using ok subtree_answer [OF st assms(2)] by (auto simp: actualChain_path dest!: subtree_walk_closed)
next
  case (Cons x ps)
  then obtain n where n: "map_of nodes x = Some n" "ou_path nodes (nd_parent n) (ps @ ys)" "u = x" "0 < x"
    by (auto split: option.splits)
  have p: "nd_parent n \<in> set ids" using Cons.IH [OF n(2)] by simp
  have "nd_parent n \<noteq> 0" using n(2) ya assms(2) by (cases ps; cases ys) auto
  then have "x \<in> set (children_of nodes (nd_parent n))" using n(1) by (simp add: children_of_iff [OF dk])
  then have m: "x \<in> set (g_children (newOUGraph nodes) (nd_parent n))" by simp
  note c = subtree_closed [OF st assms(2) p]
  obtain xs where xs: "actualChain (newOUGraph nodes) x = Inr xs" using c m by blast
  then have "xs = x # ps @ ys" using Cons.prems n(3) by (auto simp: actualChain_path intro: ou_path_unique)
  then show ?case using c m xs n(3) by (auto simp: actualChain_path)
qed

text \<open>A node that may be put at an id: its chain and the whole subtree below it check.\<close>

definition placed :: "ouNodes \<Rightarrow> int \<Rightarrow> ouNode \<Rightarrow> bool" where
  "placed nodes ou node \<longleftrightarrow>
     (let g = newOUGraph (AList.update ou node nodes)
      in (\<exists>chain. actualChain g ou = Inr chain) \<and> (\<exists>ids. subtree g ou = Some (Inr ids)))"

lemma default_kept:
  assumes "\<not> g_defaultErr (newOUGraph nodes)" and "defaults_of nodes' = defaults_of nodes"
    and "\<And>d. d \<in> set (defaults_of nodes) \<Longrightarrow> parent_of nodes d = 0 \<Longrightarrow> parent_of nodes' d = 0"
  shows "\<not> g_defaultErr (newOUGraph nodes') \<and> g_defaultID (newOUGraph nodes') = g_defaultID (newOUGraph nodes)"
  using assms by (auto simp: newOUGraph_def Let_def split: list.splits)

lemma defaults_of_rows: "defaults_of (nodes_of rows) = map fst (filter (\<lambda>(u, n, v). nd_isDefault n) rows)"
  unfolding defaults_of_def nodes_of_def by (induction rows) auto

lemma map_of_set_row: "map_of (set_row ou node v rows) x =
  (if x = ou then map_option (\<lambda>_. (node, v)) (map_of rows x) else map_of rows x)"
  unfolding set_row_def by (induction rows) auto

lemma fst_set_row [simp]: "map fst (set_row ou node v rows) = map fst rows"
  unfolding set_row_def by (induction rows) auto

lemma defaults_set_row:
  "(\<And>n x. (ou, n, x) \<in> set rows \<Longrightarrow> nd_isDefault n = nd_isDefault node) \<Longrightarrow>
   map fst (filter (\<lambda>(u, n, v). nd_isDefault n) (set_row ou node v rows)) = map fst (filter (\<lambda>(u, n, v). nd_isDefault n) rows)"
proof (induction rows)
  case (Cons r rows)
  then have "map fst (filter (\<lambda>(u, n, v). nd_isDefault n) (set_row ou node v rows)) = map fst (filter (\<lambda>(u, n, v). nd_isDefault n) rows)"
    by auto
  then show ?case using Cons.prems by (cases r) (auto simp: set_row_def)
qed (simp add: set_row_def)

lemma row_keyD: "map_of rows u = Some r \<Longrightarrow> u \<in> fst ` set rows"
  by (metis map_of_SomeD fst_conv image_eqI)

lemma tree_okD:
  assumes "tree_ok rows"
  shows "distinct (map fst rows)" "\<And>u. u \<in> fst ` set rows \<Longrightarrow> 0 < u" "\<not> g_defaultErr (newOUGraph (nodes_of rows))"
    "\<And>u. u \<in> fst ` set rows \<Longrightarrow> \<exists>xs. ou_path (nodes_of rows) u xs \<and> length xs \<le> ouMaxDepth"
  using assms unfolding tree_ok_def wf_nodes_def fst_nodes by (auto simp: list_all_iff)

lemma default_root:
  assumes "tree_ok rows" "map_of rows u = Some (n, v)" "nd_isDefault n"
  shows "nd_parent n = 0"
proof -
  have "u \<in> set (defaults_of (nodes_of rows))"
    using assms(2,3) by (force simp: defaults_of_rows dest: map_of_SomeD)
  then have "parent_of (nodes_of rows) u = 0"
    using tree_okD(3) [OF assms(1)] by (auto simp: newOUGraph_def Let_def split: list.splits if_splits)
  then show ?thesis using assms(2) by (simp add: parent_of_def map_of_nodes)
qed

text \<open>Moving a row: what passed through it hangs on its new path, the rest is untouched.\<close>

lemma paths_after_move:
  assumes ok: "tree_ok rows" and row: "ou \<in> fst ` set rows" and pl: "placed (nodes_of rows) ou new"
    and same: "\<And>x. map_option nd_parent (map_of nodes' x) =
        (if x = ou then Some (nd_parent new) else map_option nd_parent (map_of (nodes_of rows) x))"
    and u: "u \<in> fst ` set rows"
  shows "\<exists>xs. ou_path nodes' u xs \<and> length xs \<le> ouMaxDepth"
proof -
  let ?N = "AList.update ou new (nodes_of rows)"
  obtain xs where xs: "ou_path (nodes_of rows) u xs" "length xs \<le> ouMaxDepth" using tree_okD(4) [OF ok u] by blast
  have N: "map_option nd_parent (map_of ?N x) = map_option nd_parent (map_of nodes' x)" for x
    by (simp add: same update_conv')
  show ?thesis
  proof (cases "ou \<in> set xs")
    case False
    then have "ou_path nodes' u xs" by (intro ou_path_same [OF xs(1)]) (auto simp: same)
    then show ?thesis using xs(2) by blast
  next
    case True
    then obtain ps qs where s: "xs = ps @ ou # qs" "ou \<notin> set ps" by (meson split_list_first)
    obtain ys ids where y: "actualChain (newOUGraph ?N) ou = Inr ys" "subtree (newOUGraph ?N) ou = Some (Inr ids)"
      using pl by (auto simp: placed_def Let_def)
    then have py: "ou_path ?N ou ys" by (simp add: actualChain_path)
    have P: "ou_path ?N u (ps @ ys)"
    proof (rule ou_path_graft [OF xs(1) [unfolded s(1)] _ py], intro ballI)
      show "map_option nd_parent (map_of ?N x) = map_option nd_parent (map_of (nodes_of rows) x)" if "x \<in> set ps" for x
        using that s(2) by (auto simp: N same)
    qed
    have nz: "ou \<noteq> 0" using tree_okD(2) [OF ok row] by simp
    have dk: "distinct (map fst ?N)" using tree_okD(1) [OF ok] by (simp add: distinct_update fst_nodes)
    have "length (ps @ ys) \<le> ouMaxDepth" using below_within [OF y(2) nz dk py y(1) P] by (rule conjunct2)
    moreover have "ou_path nodes' u (ps @ ys)" by (rule ou_path_same [OF P]) (simp add: N)
    ultimately show ?thesis by blast
  qed
qed

lemma tree_update:
  assumes ok: "tree_ok rows" and row: "map_of rows ou = Some (old, w)"
    and d: "nd_isDefault node = nd_isDefault old" "nd_isDefault old \<Longrightarrow> nd_parent node = 0"
    and par: "nd_parent node = nd_parent old \<or> nd_parent node = nd_parent new \<and> placed (nodes_of rows) ou new"
  shows "tree_ok (set_row ou node v rows)" (is "tree_ok ?rows")
proof -
  have same: "map_option nd_parent (map_of (nodes_of ?rows) x) =
      (if x = ou then Some (nd_parent node) else map_option nd_parent (map_of (nodes_of rows) x))" for x
    using row by (auto simp: map_of_nodes map_of_set_row)
  have only: "n = old" if "(ou, n, x) \<in> set rows" for n x
    using that row tree_okD(1) [OF ok] by (auto dest: map_of_is_SomeI)
  have defs: "defaults_of (nodes_of ?rows) = defaults_of (nodes_of rows)"
    unfolding defaults_of_rows using only d(1) by (intro defaults_set_row) auto
  have err: "\<not> g_defaultErr (newOUGraph (nodes_of ?rows))"
  proof -
    have "parent_of (nodes_of ?rows) x = 0" if "x \<in> set (defaults_of (nodes_of rows))" "parent_of (nodes_of rows) x = 0" for x
    proof (cases "x = ou")
      case True
      then have "nd_isDefault old" using that(1) only by (auto simp: defaults_of_rows)
      then show ?thesis using d(2) row True by (simp add: parent_of_def map_of_nodes map_of_set_row)
    qed (use that(2) in \<open>simp add: parent_of_def map_of_nodes map_of_set_row\<close>)
    then show ?thesis using default_kept [OF tree_okD(3) [OF ok] defs] by blast
  qed
  have "\<exists>xs. ou_path (nodes_of ?rows) u xs \<and> length xs \<le> ouMaxDepth" if u: "u \<in> fst ` set rows" for u
  proof (cases "nd_parent node = nd_parent old")
    case True
    obtain xs where xs: "ou_path (nodes_of rows) u xs" "length xs \<le> ouMaxDepth" using tree_okD(4) [OF ok u] by blast
    have "ou_path (nodes_of ?rows) u xs"
      using row True by (intro ou_path_same [OF xs(1)]) (simp add: map_of_nodes map_of_set_row)
    then show ?thesis using xs(2) by blast
  next
    case False
    then have p: "nd_parent node = nd_parent new" "placed (nodes_of rows) ou new" using par by auto
    show ?thesis by (rule paths_after_move [OF ok row_keyD [OF row] p(2) _ u]) (simp add: same p(1))
  qed
  moreover have "fst ` set ?rows = fst ` set rows" using fst_set_row by (metis list.set_map)
  ultimately show ?thesis using err ok unfolding tree_ok_def wf_nodes_def fst_nodes fst_set_row by auto
qed

lemma tree_insert:
  assumes ok: "tree_ok rows" and pl: "placed (nodes_of rows) pre node" and pre: "pre \<notin> fst ` set rows" "pre \<noteq> 0"
    and fresh: "fresh \<notin> fst ` set rows" "0 < fresh" and d: "\<not> nd_isDefault node"
  shows "tree_ok (rows @ [(fresh, node, v)])" (is "tree_ok ?rows")
proof -
  let ?N = "AList.update pre node (nodes_of rows)"
  have none: "map_of (nodes_of rows) fresh = None" "map_of (nodes_of rows) pre = None"
    using fresh(1) pre(1) by (auto simp: map_of_nodes map_of_eq_None_iff)
  have same: "map_of (nodes_of ?rows) x = (if x = fresh then Some node else map_of (nodes_of rows) x)" for x
    using none(1) by (auto simp: map_of_nodes map_add_def split: option.splits)
  have old: "\<exists>xs. ou_path (nodes_of ?rows) u xs \<and> length xs \<le> ouMaxDepth" if u: "u \<in> fst ` set rows" for u
  proof -
    obtain xs where xs: "ou_path (nodes_of rows) u xs" "length xs \<le> ouMaxDepth" using tree_okD(4) [OF ok u] by blast
    then have "fresh \<notin> set xs" using path_positive none(1) by fastforce
    then have "ou_path (nodes_of ?rows) u xs" using same by (intro ou_path_same [OF xs(1)]) auto
    then show ?thesis using xs(2) by blast
  qed
  obtain ys where y: "ou_path ?N pre ys" "length ys \<le> ouMaxDepth" using pl by (auto simp: placed_def Let_def actualChain_path)
  then obtain zs where z: "ys = pre # zs" "ou_path ?N (nd_parent node) zs"
    using pre(2) by (cases ys) (auto simp: update_conv' split: if_splits)
  have "pre \<notin> set zs" using ou_path_distinct [OF y(1)] z(1) by simp
  then have zold: "ou_path (nodes_of rows) (nd_parent node) zs" by (intro ou_path_same [OF z(2)]) (auto simp: update_conv')
  then have "fresh \<notin> set zs" using path_positive none(1) by fastforce
  then have "ou_path (nodes_of ?rows) (nd_parent node) zs" using same by (intro ou_path_same [OF zold]) auto
  then have new: "ou_path (nodes_of ?rows) fresh (fresh # zs)" using same [of fresh] fresh(2) by simp
  have defs: "defaults_of (nodes_of ?rows) = defaults_of (nodes_of rows)" using d by (simp add: defaults_of_rows)
  have "\<not> g_defaultErr (newOUGraph (nodes_of ?rows))"
  proof -
    have "parent_of (nodes_of ?rows) x = 0" if "x \<in> set (defaults_of (nodes_of rows))" "parent_of (nodes_of rows) x = 0" for x
    proof -
      have "x \<noteq> fresh" using that(1) fresh(1) by (force simp: defaults_of_rows)
      then show ?thesis using that(2) same by (simp add: parent_of_def)
    qed
    then show ?thesis using default_kept [OF tree_okD(3) [OF ok] defs] by blast
  qed
  moreover have "wf_nodes (nodes_of ?rows)"
    using ok fresh unfolding tree_ok_def wf_nodes_def fst_nodes by (auto simp: list_all_iff)
  moreover have "\<exists>xs. ou_path (nodes_of ?rows) fresh xs \<and> length xs \<le> ouMaxDepth"
    using new y(2) z(1) by (intro exI [of _ "fresh # zs"]) simp
  ultimately show ?thesis using old unfolding tree_ok_def by auto
qed

section \<open>Every write keeps the tree\<close>

lemma previewID_fresh: "u \<in> set (map fst nodes) \<Longrightarrow> u < previewID nodes" and previewID_pos: "1 \<le> previewID nodes"
proof -
  have step: "m \<le> foldl (\<lambda>m u. if m \<le> u then u + 1 else m) m us \<and>
      (\<forall>u\<in>set us. u < foldl (\<lambda>m u. if m \<le> u then u + 1 else m) m us)" for m :: int and us
  proof (induction us arbitrary: m)
    case (Cons x us)
    show ?case using Cons.IH [of "if m \<le> x then x + 1 else m"] by auto
  qed simp
  show "u \<in> set (map fst nodes) \<Longrightarrow> u < previewID nodes" "1 \<le> previewID nodes"
    using step [of 1 "map fst nodes"] unfolding previewID_def by blast+
qed

lemma input_parentD:
  "input_parent inp node = Inr p \<Longrightarrow> (nd_isDefault node \<longrightarrow> p = 0 \<or> p = nd_parent node)"
  by (auto simp: input_parent_def split: option.splits if_splits)

lemma proposed_rowD:
  assumes "proposed_row now snap ou inp create = Inr (node, v)"
  shows "\<not> g_defaultErr (sn_graph snap)" "create \<Longrightarrow> \<not> nd_isDefault node"
    "\<not> create \<Longrightarrow> \<exists>old. map_of (g_nodes (sn_graph snap)) ou = Some old \<and> nd_isDefault node = nd_isDefault old \<and>
       (nd_isDefault old \<longrightarrow> nd_parent node = 0 \<or> nd_parent node = nd_parent old)"
proof -
  show "\<not> g_defaultErr (sn_graph snap)" using assms by (auto simp: proposed_row_def split: if_splits)
  show "create \<Longrightarrow> \<not> nd_isDefault node" using assms
    by (auto simp: proposed_row_def Let_def split: if_splits sum.splits rawScope.splits)
  show "\<exists>old. map_of (g_nodes (sn_graph snap)) ou = Some old \<and> nd_isDefault node = nd_isDefault old \<and>
       (nd_isDefault old \<longrightarrow> nd_parent node = 0 \<or> nd_parent node = nd_parent old)" if "\<not> create"
    using assms that
    by (auto simp: proposed_row_def Let_def split: if_splits sum.splits rawScope.splits option.splits dest!: input_parentD)
qed

lemma prepareD:
  assumes "prepareOUInput now snap ou inp create = Inr proposed"
  obtains node v where "proposed_row now snap ou inp create = Inr (node, v)" "proposed = put_row ou node v snap"
    "placed (g_nodes (sn_graph snap)) ou node"
  using assms
  by (force simp: prepareOUInput_def placed_def put_row_def Let_def policyChain_def split: sum.splits option.splits if_splits)

text \<open>A tree in which only the Default OU is a root.\<close>

definition rooted :: "ouGroupRow list \<Rightarrow> bool" where
  "rooted rows \<longleftrightarrow> (\<forall>(u, n, v)\<in>set rows. nd_isDefault n \<or> nd_parent n \<noteq> 0)"

lemma rootedD: "rooted rows \<Longrightarrow> map_of rows u = Some (n, v) \<Longrightarrow> nd_isDefault n \<or> nd_parent n \<noteq> 0"
  by (fastforce simp: rooted_def dest: map_of_SomeD)

lemma default_known:
  assumes "tree_ok rows"
  shows "g_defaultID (newOUGraph (nodes_of rows)) \<in> fst ` set rows" "0 < g_defaultID (newOUGraph (nodes_of rows))"
proof -
  obtain d where "defaults_of (nodes_of rows) = [d]" "parent_of (nodes_of rows) d = 0"
    using tree_okD(3) [OF assms] by (auto simp: newOUGraph_def Let_def split: list.splits)
  then have d: "g_defaultID (newOUGraph (nodes_of rows)) = d" "d \<in> set (defaults_of (nodes_of rows))"
    by (simp_all add: newOUGraph_def)
  then show m: "g_defaultID (newOUGraph (nodes_of rows)) \<in> fst ` set rows" by (force simp: defaults_of_rows)
  show "0 < g_defaultID (newOUGraph (nodes_of rows))" using tree_okD(2) [OF assms m] .
qed

lemma proposed_row_rooted:
  assumes "proposed_row now (loadOUPolicySnapshot rows) ou inp create = Inr (node, v)" "tree_ok rows" "rooted rows"
    and "\<not> nd_isDefault node"
  shows "nd_parent node \<noteq> 0"
proof -
  define base where "base = (if create then \<lparr>nd_parent = g_defaultID (newOUGraph (nodes_of rows)), nd_isDefault = False,
      nd_name = [], nd_description = [], nd_created = now\<rparr> else the (map_of (nodes_of rows) ou))"
  have p: "input_parent inp base = Inr (nd_parent node)" "nd_isDefault base = nd_isDefault node"
    "create \<or> map_of (nodes_of rows) ou \<noteq> None"
    using assms(1)
    by (auto simp: proposed_row_def Let_def base_def split: if_splits sum.splits rawScope.splits)
  have "nd_isDefault base \<or> nd_parent base \<noteq> 0"
  proof (cases create)
    case True
    then show ?thesis using default_known(2) [OF assms(2)] by (simp add: base_def)
  next
    case False
    then obtain n w where "map_of rows ou = Some (n, w)" using p(3) by (auto simp: map_of_nodes)
    then show ?thesis using rootedD [OF assms(3)] False by (auto simp: base_def map_of_nodes)
  qed
  then show ?thesis using p assms(4) by (auto simp: input_parent_def split: option.splits if_splits)
qed

text \<open>The snapshot a successful write was checked on, and the row it stored.\<close>

definition checked :: "ouGroupRow list \<Rightarrow> bool \<Rightarrow> int \<Rightarrow> ouNode \<Rightarrow> ouPolicyValues \<Rightarrow> ouPolicySnapshot \<Rightarrow> bool" where
  "checked rows create pre node v s \<longleftrightarrow>
     map_of (g_nodes (sn_graph s)) = (map_of (nodes_of rows))(pre \<mapsto> node) \<and>
     values_of s = (values_of (loadOUPolicySnapshot rows))(pre := v) \<and>
     fst ` set (sn_values s) = insert pre (fst ` set rows) \<and>
     (\<exists>new. placed (nodes_of rows) pre new \<and>
        (if create then node = new \<and> \<not> nd_isDefault node
         else \<exists>old w. map_of rows pre = Some (old, w) \<and> nd_isDefault node = nd_isDefault old \<and>
           (nd_parent node = nd_parent old \<or> nd_parent node = nd_parent new) \<and>
           (nd_isDefault old \<longrightarrow> nd_parent node = 0 \<or> nd_parent node = nd_parent old))) \<and>
     (rooted rows \<and> \<not> nd_isDefault node \<longrightarrow> nd_parent node \<noteq> 0) \<and>
     g_defaultErr (sn_graph s) = g_defaultErr (newOUGraph (AList.update pre node (nodes_of rows))) \<and>
     g_defaultID (sn_graph s) = g_defaultID (newOUGraph (AList.update pre node (nodes_of rows)))"

lemma fst_update: "fst ` set (AList.update k v xs) = insert k (fst ` set xs)"
  by (induction xs) auto

lemma values_of_put: "values_of (put_row ou node v s) = (values_of s)(ou := v)"
  by (rule ext) (simp add: values_of_def put_row_def update_conv')

lemma checked_put:
  assumes "proposed_row now (loadOUPolicySnapshot rows) pre inp create = Inr (node, v)" "placed (nodes_of rows) pre node"
    and "tree_ok rows"
  shows "checked rows create pre node v (put_row pre node v (loadOUPolicySnapshot rows))"
proof -
  note p = proposed_rowD [OF assms(1)]
  have c: "if create then \<not> nd_isDefault node
     else \<exists>old w. map_of rows pre = Some (old, w) \<and> nd_isDefault node = nd_isDefault old \<and>
       (nd_isDefault old \<longrightarrow> nd_parent node = 0 \<or> nd_parent node = nd_parent old)"
  proof (cases create)
    case False
    then obtain old where o: "map_of (nodes_of rows) pre = Some old" "nd_isDefault node = nd_isDefault old"
      "nd_isDefault old \<longrightarrow> nd_parent node = 0 \<or> nd_parent node = nd_parent old" using p(3) by auto
    then obtain w where "map_of rows pre = Some (old, w)" by (auto simp: map_of_nodes)
    then show ?thesis using False o by simp
  qed (use p(2) in simp)
  have n: "map_of (g_nodes (sn_graph (put_row pre node v (loadOUPolicySnapshot rows)))) = (map_of (nodes_of rows))(pre \<mapsto> node)"
    by (simp add: put_row_def update_conv')
  have f: "fst ` set (sn_values (put_row pre node v (loadOUPolicySnapshot rows))) = insert pre (fst ` set rows)"
    by (simp add: put_row_def fst_update)
  show ?thesis
    unfolding checked_def n f values_of_put using c assms(2) proposed_row_rooted [OF assms(1,3)]
    by (auto simp: put_row_def split: if_splits)
qed

lemma default_same:
  assumes "map_of nodes d = Some old" "nd_isDefault new = nd_isDefault old"
    and "nd_isDefault old \<Longrightarrow> nd_parent new = nd_parent old" and "distinct (map fst nodes)"
  shows "g_defaultErr (newOUGraph (AList.update d new nodes)) = g_defaultErr (newOUGraph nodes) \<and>
    g_defaultID (newOUGraph (AList.update d new nodes)) = g_defaultID (newOUGraph nodes)"
proof -
  have "map fst (filter (\<lambda>(i, n). nd_isDefault n) (AList.update d new nodes)) = map fst (filter (\<lambda>(i, n). nd_isDefault n) nodes)"
    using assms(1,2,4) by (induction nodes) (auto split: if_splits)
  then have ds: "defaults_of (AList.update d new nodes) = defaults_of nodes" by (simp add: defaults_of_def)
  have par: "parent_of (AList.update d new nodes) x = parent_of nodes x" if "x \<in> set (defaults_of nodes)" for x
  proof (cases "x = d")
    case True
    obtain n where "(d, n) \<in> set nodes" "nd_isDefault n" using \<open>x \<in> set (defaults_of nodes)\<close> True by (auto simp: defaults_of_def)
    then have "nd_isDefault old" using assms(1,4) by (metis map_of_is_SomeI option.inject)
    then show ?thesis using assms(1,3) True by (simp add: parent_of_def update_conv')
  qed (simp add: parent_of_def update_conv')
  show ?thesis
  proof (cases "defaults_of nodes")
    case (Cons e es)
    then show ?thesis using ds par [of e] by (cases es) (simp_all add: newOUGraph_def Let_def)
  qed (simp add: newOUGraph_def Let_def ds)
qed

lemma checked_patch:
  assumes ok: "tree_ok rows" and c: "checked rows False ou new w (put_row ou new w (loadOUPolicySnapshot rows))"
    and pl: "placed (nodes_of rows) ou new"
  shows "\<exists>node v. checked rows False ou node v
      (preserveUnpatchedOUFields (loadOUPolicySnapshot rows) (put_row ou new w (loadOUPolicySnapshot rows)) ou has)"
proof -
  let ?s = "loadOUPolicySnapshot rows"
  obtain old x where row: "map_of rows ou = Some (old, x)" "nd_isDefault new = nd_isDefault old"
    "nd_isDefault old \<longrightarrow> nd_parent new = 0 \<or> nd_parent new = nd_parent old"
    using c unfolding checked_def by auto
  define node where "node = kept_node has old new"
  define v where "v = kept_values has (values_of ?s ou) w"
  have old: "map_of (nodes_of rows) ou = Some old" using row(1) by (simp add: map_of_nodes)
  have p: "preserveUnpatchedOUFields ?s (put_row ou new w ?s) ou has =
     \<lparr>sn_graph = (newOUGraph (AList.update ou new (nodes_of rows)))\<lparr>g_nodes := AList.update ou node (AList.update ou new (nodes_of rows))\<rparr>,
      sn_values = AList.update ou v (AList.update ou w (sn_values ?s))\<rparr>"
    using old by (simp add: preserveUnpatchedOUFields_def put_row_def update_conv' node_def v_def values_of_def)
  have rt: "rooted rows \<Longrightarrow> \<not> nd_isDefault old \<Longrightarrow> nd_parent old \<noteq> 0 \<and> nd_parent new \<noteq> 0"
    using rootedD [OF _ row(1)] c row(2) unfolding checked_def by auto
  have k: "nd_isDefault node = nd_isDefault old" "nd_parent node = nd_parent old \<or> nd_parent node = nd_parent new"
    by (simp_all add: node_def kept_node_def)
  have dk: "distinct (map fst (nodes_of rows))" using tree_okD(1) [OF ok] by (simp add: fst_nodes)
  have kept: "nd_parent n = nd_parent old" if "nd_isDefault old" "nd_parent n = nd_parent old \<or> nd_parent n = nd_parent new" for n
    using that row(3) default_root [OF ok row(1)] by auto
  note dn = default_same [OF old k(1) kept [OF _ k(2)] dk] default_same [OF old row(2) kept dk]
  have vo: "values_of \<lparr>sn_graph = g, sn_values = AList.update ou v (AList.update ou w (sn_values ?s))\<rparr> = (values_of ?s)(ou := v)" for g
    by (rule ext) (simp add: values_of_def update_conv')
  have "checked rows False ou node v (preserveUnpatchedOUFields ?s (put_row ou new w ?s) ou has)"
    unfolding p checked_def vo using pl row(1) k dn kept [OF _ k(2)] rt
    by (auto simp: update_conv' fst_update)
  then show ?thesis by blast
qed

text \<open>A successful write stores the row that was checked, or finds nothing to store.\<close>

lemma write_cases:
  assumes w: "writeOUChanges now meta fresh ou create patch input rows = (Inr res, rows')"
    and ok: "tree_ok rows" and cp: "create \<Longrightarrow> patch = None"
  obtains node v s pre where "checked rows create pre node v s" "validateOUMandates meta s = None"
    "pre = (if create then previewID (nodes_of rows) else ou)"
    "rows' = (if create then rows @ [(fresh, node, v)] else set_row ou node v rows) \<or>
     rows' = rows \<and> \<not> create \<and> map_of (nodes_of rows) ou = Some node \<and> values_of (loadOUPolicySnapshot rows) ou = v"
proof -
  let ?s = "loadOUPolicySnapshot rows"
  define pre where "pre = (if create then previewID (g_nodes (sn_graph ?s)) else ou)"
  have pre: "pre = (if create then previewID (nodes_of rows) else ou)" by (simp add: pre_def)
  obtain inp prepared where pr: "prepareOUInput now ?s pre inp create = Inr prepared"
    and cm: "commit_row meta fresh ou create pre ?s
        (case patch of None \<Rightarrow> prepared | Some has \<Rightarrow> preserveUnpatchedOUFields ?s prepared ou has) rows = (Inr res, rows')"
    using w by (auto simp: writeOUChanges_def Let_def pre_def split: sum.splits)
  from pr obtain new w0 where new: "proposed_row now ?s pre inp create = Inr (new, w0)" "prepared = put_row pre new w0 ?s"
    "placed (nodes_of rows) pre new" by (rule prepareD) simp
  define s where "s = (case patch of None \<Rightarrow> prepared | Some has \<Rightarrow> preserveUnpatchedOUFields ?s prepared ou has)"
  have c0: "checked rows create pre new w0 prepared" using checked_put [OF new(1,3) ok] new(2) by simp
  obtain node v where c: "checked rows create pre node v s"
  proof (cases patch)
    case None
    then show ?thesis using that c0 by (simp add: s_def)
  next
    case (Some has)
    then have "\<not> create" using cp by auto
    then show ?thesis using that checked_patch [OF ok, of ou new w0 has] c0 new(2,3) Some by (auto simp: s_def pre_def)
  qed
  have at: "the (map_of (g_nodes (sn_graph s)) pre) = node" "values_of s pre = v"
    using c by (simp_all add: checked_def)
  have "validateOUMandates meta s = None \<and>
    (rows' = (if create then rows @ [(fresh, node, v)] else set_row ou node v rows) \<or>
     rows' = rows \<and> \<not> create \<and> map_of (nodes_of rows) ou = Some node \<and> values_of ?s ou = v)"
    using cm unfolding s_def [symmetric] commit_row_def at store_row_def
    by (auto simp: Let_def split: option.splits if_splits)
  then show ?thesis using that c pre by blast
qed

lemma write_tree_ok:
  assumes w: "writeOUChanges now meta fresh ou create patch input rows = (Inr res, rows')" and ok: "tree_ok rows"
    and cp: "create \<Longrightarrow> patch = None \<and> fresh \<notin> fst ` set rows \<and> 0 < fresh"
  shows "tree_ok rows'"
proof -
  have cp': "create \<Longrightarrow> patch = None" using cp by blast
  obtain node v s pre where c: "checked rows create pre node v s" "pre = (if create then previewID (nodes_of rows) else ou)"
    and st: "rows' = (if create then rows @ [(fresh, node, v)] else set_row ou node v rows) \<or> rows' = rows"
    using write_cases [OF w ok cp'] by metis
  obtain new where new: "placed (nodes_of rows) pre new"
    "if create then node = new \<and> \<not> nd_isDefault node
     else \<exists>old w. map_of rows pre = Some (old, w) \<and> nd_isDefault node = nd_isDefault old \<and>
       (nd_parent node = nd_parent old \<or> nd_parent node = nd_parent new) \<and>
       (nd_isDefault old \<longrightarrow> nd_parent node = 0 \<or> nd_parent node = nd_parent old)"
    using c(1) unfolding checked_def by blast
  have "tree_ok (if create then rows @ [(fresh, node, v)] else set_row ou node v rows)"
  proof (cases create)
    case True
    have f: "pre \<notin> fst ` set rows" "pre \<noteq> 0"
      using previewID_fresh [of pre "nodes_of rows"] previewID_pos [of "nodes_of rows"] c(2) True
      by (auto simp only: fst_nodes if_True set_map)
    have n: "placed (nodes_of rows) pre node" "\<not> nd_isDefault node" "fresh \<notin> fst ` set rows" "0 < fresh"
      using new cp True by auto
    show ?thesis using tree_insert [OF ok n(1) f n(3,4,2)] True by simp
  next
    case False
    then obtain old w where o: "map_of rows ou = Some (old, w)" "nd_isDefault node = nd_isDefault old"
      "nd_parent node = nd_parent old \<or> nd_parent node = nd_parent new \<and> placed (nodes_of rows) ou new"
      "nd_isDefault old \<longrightarrow> nd_parent node = 0 \<or> nd_parent node = nd_parent old"
      using new c(2) by auto
    have "nd_isDefault old \<Longrightarrow> nd_parent node = 0" using o(1,4) default_root [OF ok] by metis
    then show ?thesis using tree_update [OF ok o(1,2) _ o(3)] False by simp
  qed
  then show ?thesis using st ok by auto
qed

text \<open>Without one OU, its children on its parent.\<close>

lemma path_without:
  assumes par: "map_of nodes ou = Some node" and nz: "ou \<noteq> 0"
    and new: "\<And>x n. x \<noteq> ou \<Longrightarrow> map_of nodes x = Some n \<Longrightarrow>
      \<exists>n'. map_of nodes' x = Some n' \<and> nd_parent n' = (if nd_parent n = ou then nd_parent node else nd_parent n)"
  shows "ou_path nodes u xs \<Longrightarrow> u \<noteq> ou \<Longrightarrow> \<exists>ys. ou_path nodes' u ys \<and> length ys \<le> length xs"
proof (induction "length xs" arbitrary: u xs rule: less_induct)
  case less
  show ?case
  proof (cases xs)
    case Nil
    then show ?thesis using less.prems by (intro exI [of _ "[]"]) simp
  next
    case (Cons x zs)
    then obtain n where n: "map_of nodes x = Some n" "ou_path nodes (nd_parent n) zs" "u = x" "0 < x"
      using less.prems(1) by (auto split: option.splits)
    obtain n' where n': "map_of nodes' x = Some n'" "nd_parent n' = (if nd_parent n = ou then nd_parent node else nd_parent n)"
      using new [of x n] n less.prems(2) by auto
    have "\<exists>ys. ou_path nodes' (nd_parent n') ys \<and> length ys \<le> length zs"
    proof (cases "nd_parent n = ou")
      case False
      then show ?thesis using less.hyps [OF _ n(2)] n'(2) Cons by simp
    next
      case True
      show ?thesis
      proof (cases zs)
        case Nil
        then show ?thesis using n(2) True nz by simp
      next
        case Cons2: (Cons y qs)
        then have q: "ou_path nodes (nd_parent node) qs" using n(2) True par by auto
        have "nd_parent node \<noteq> ou"
          using ou_path_distinct [OF n(2)] q Cons2 n(2) True by (cases qs) auto
        then show ?thesis using less.hyps [OF _ q] n'(2) True Cons Cons2 by fastforce
      qed
    qed
    then obtain ys where "ou_path nodes' (nd_parent n') ys" "length ys \<le> length zs" by blast
    then show ?thesis using n n'(1) Cons by (intro exI [of _ "x # ys"]) simp
  qed
qed

lemma map_of_without:
  "map_of (without_ou ou parent rows) x =
     (if x = ou then None else map_option (\<lambda>(n, v). (if nd_parent n = ou then n\<lparr>nd_parent := parent\<rparr> else n, v)) (map_of rows x))"
  unfolding without_ou_def by (induction rows) auto

lemma nodes_without:
  "map_of (nodes_of (without_ou ou parent rows)) x =
     (if x = ou then None else map_option (\<lambda>n. if nd_parent n = ou then n\<lparr>nd_parent := parent\<rparr> else n) (map_of (nodes_of rows) x))"
  by (cases "map_of rows x") (auto simp: map_of_nodes map_of_without)

lemma keys_without: "map fst (without_ou ou parent rows) = filter (\<lambda>u. u \<noteq> ou) (map fst rows)"
  unfolding without_ou_def by (induction rows) auto

lemma defaults_without:
  "(\<And>n v. (ou, n, v) \<in> set rows \<Longrightarrow> \<not> nd_isDefault n) \<Longrightarrow>
   defaults_of (nodes_of (without_ou ou parent rows)) = defaults_of (nodes_of rows)"
  unfolding defaults_of_rows without_ou_def
proof (induction rows)
  case (Cons r rows)
  then show ?case by (cases r) auto
qed simp

lemma parent_known:
  assumes "tree_ok rows" "map_of rows u = Some (n, v)"
  shows "nd_parent n = 0 \<or> (\<exists>r. map_of rows (nd_parent n) = Some r)" and "nd_parent n \<noteq> u"
proof -
  obtain xs where xs: "ou_path (nodes_of rows) u xs" using tree_okD(4) [OF assms(1) row_keyD [OF assms(2)]] by blast
  have "0 < u" using tree_okD(2) [OF assms(1) row_keyD [OF assms(2)]] .
  then obtain zs where z: "xs = u # zs" "ou_path (nodes_of rows) (nd_parent n) zs"
    using xs assms(2) by (cases xs) (auto simp: map_of_nodes)
  then show "nd_parent n = 0 \<or> (\<exists>r. map_of rows (nd_parent n) = Some r)"
    by (cases zs) (auto simp: map_of_nodes split: option.splits)
  have "u \<notin> set zs" using ou_path_distinct [OF xs] z(1) by simp
  then show "nd_parent n \<noteq> u" using z(2) \<open>0 < u\<close> by (cases zs) auto
qed

lemma delete_tree_ok:
  assumes ok: "tree_ok rows" and row: "map_of rows ou = Some (node, v)" and nd: "\<not> nd_isDefault node"
  shows "tree_ok (without_ou ou (child_parent rows (nd_parent node)) rows)" (is "tree_ok ?rows")
proof -
  have cp: "child_parent rows (nd_parent node) = nd_parent node"
    using parent_known(1) [OF ok row] by (auto simp: child_parent_def)
  have nz: "ou \<noteq> 0" using tree_okD(2) [OF ok row_keyD [OF row]] by simp
  have only: "\<not> nd_isDefault n" if "(ou, n, w) \<in> set rows" for n w
    using that row nd tree_okD(1) [OF ok] by (metis map_of_is_SomeI option.inject prod.inject)
  have defs: "defaults_of (nodes_of ?rows) = defaults_of (nodes_of rows)" using only by (rule defaults_without)
  have "parent_of (nodes_of ?rows) d = 0" if d: "d \<in> set (defaults_of (nodes_of rows))" "parent_of (nodes_of rows) d = 0" for d
  proof -
    have "d \<noteq> ou" using d(1) only by (auto simp: defaults_of_rows)
    then show ?thesis using d(2) nz by (auto simp: parent_of_def map_of_nodes map_of_without split: option.splits)
  qed
  then have "\<not> g_defaultErr (newOUGraph (nodes_of ?rows))" using default_kept [OF tree_okD(3) [OF ok] defs] by blast
  moreover have "\<exists>xs. ou_path (nodes_of ?rows) u xs \<and> length xs \<le> ouMaxDepth" if u: "u \<in> fst ` set ?rows" for u
  proof -
    have "u \<in> set (map fst ?rows)" using u by simp
    then have "u \<noteq> ou" "u \<in> fst ` set rows" unfolding keys_without by auto
    then obtain xs where xs: "ou_path (nodes_of rows) u xs" "length xs \<le> ouMaxDepth" using tree_okD(4) [OF ok] by blast
    have "\<exists>ys. ou_path (nodes_of ?rows) u ys \<and> length ys \<le> length xs"
      using row cp by (intro path_without [OF _ nz _ xs(1) \<open>u \<noteq> ou\<close>, of node]) (simp_all add: nodes_without, simp add: map_of_nodes)
    then show ?thesis using xs(2) by (meson le_trans)
  qed
  moreover have "wf_nodes (nodes_of ?rows)"
    using tree_okD(1,2) [OF ok] unfolding wf_nodes_def fst_nodes keys_without by (auto simp: list_all_iff)
  ultimately show ?thesis by (simp add: tree_ok_def)
qed

lemma write_rooted:
  assumes w: "writeOUChanges now meta fresh ou create patch input rows = (Inr res, rows')" and ok: "tree_ok rows"
    and cp: "create \<Longrightarrow> patch = None" and rt: "rooted rows"
  shows "rooted rows'"
proof -
  obtain node v s pre where c: "checked rows create pre node v s"
    and st: "rows' = (if create then rows @ [(fresh, node, v)] else set_row ou node v rows) \<or> rows' = rows"
    using write_cases [OF w ok cp] by metis
  have "nd_isDefault node \<or> nd_parent node \<noteq> 0" using c rt by (auto simp: checked_def)
  moreover have "rooted (set_row ou node v rows)" if "nd_isDefault node \<or> nd_parent node \<noteq> 0"
    using rt that unfolding rooted_def set_row_def by (auto split: if_splits prod.splits)
  ultimately show ?thesis using st rt by (auto simp: rooted_def split: if_splits)
qed

lemma delete_rooted:
  assumes "tree_ok rows" "rooted rows" "map_of rows ou = Some (node, v)" "\<not> nd_isDefault node"
  shows "rooted (without_ou ou (child_parent rows (nd_parent node)) rows)"
proof -
  have "nd_parent node \<noteq> 0" using rootedD [OF assms(2,3)] assms(4) by simp
  then have "child_parent rows (nd_parent node) \<noteq> 0"
    using parent_known(1) [OF assms(1,3)] by (auto simp: child_parent_def)
  then show ?thesis using assms(2) by (auto simp: rooted_def without_ou_def split: if_splits)
qed

lemma no_issues:
  assumes "wf_nodes (nodes_of rows)"
  shows "issues (newOUGraph (nodes_of rows)) = [] \<longleftrightarrow> tree_ok rows \<and> rooted rows"
proof -
  let ?g = "newOUGraph (nodes_of rows)"
  have d: "distinct (map fst rows)" using assms by (simp add: wf_nodes_def fst_nodes)
  have at: "map_of (nodes_of rows) u = Some n" if "(u, n, v) \<in> set rows" for u n v
    using map_of_is_SomeI [OF d that] by (simp add: map_of_nodes)
  have chain: "(\<exists>xs. actualChain ?g u = Inr xs) \<longleftrightarrow> (\<exists>xs. ou_path (nodes_of rows) u xs \<and> length xs \<le> ouMaxDepth)"
    if "\<not> g_defaultErr ?g" for u
    using that by (simp add: actualChain_path)
  have e: "actualChain ?g u \<noteq> Inl DefaultErr" if "\<not> g_defaultErr ?g" for u
  proof -
    have "chain_walk nodes k out u \<noteq> Inl DefaultErr" for nodes k out
      by (induction nodes k out u rule: chain_walk.induct) (auto split: option.splits)
    then show ?thesis using that by (simp add: actualChain_def)
  qed
  have ni: "node_issues ?g u n = [] \<longleftrightarrow> (nd_isDefault n \<or> nd_parent n \<noteq> 0) \<and> (\<exists>xs. actualChain ?g u = Inr xs)"
    if "\<not> g_defaultErr ?g" for u n
    using e [OF that, of u] by (auto simp: node_issues_def split: sum.splits ouErr.splits)
  have "issues ?g = [] \<longleftrightarrow> \<not> g_defaultErr ?g \<and> (\<forall>(u, n, v)\<in>set rows. node_issues ?g u n = [])"
  proof -
    have "(\<forall>u\<in>set (map fst rows). (case map_of (nodes_of rows) u of None \<Rightarrow> [] | Some n \<Rightarrow> node_issues ?g u n) = []) \<longleftrightarrow>
        (\<forall>(u, n, v)\<in>set rows. node_issues ?g u n = [])"
      using at by (auto split: option.split)
    then show ?thesis unfolding issues_def newOUGraph_simps fst_nodes by (simp add: concat_eq_Nil_conv)
  qed
  also have "\<dots> \<longleftrightarrow> tree_ok rows \<and> rooted rows"
  proof (cases "g_defaultErr ?g")
    case False
    have "(\<forall>u\<in>fst ` set rows. \<exists>xs. ou_path (nodes_of rows) u xs \<and> length xs \<le> ouMaxDepth) \<longleftrightarrow>
        (\<forall>(u, n, v)\<in>set rows. \<exists>xs. ou_path (nodes_of rows) u xs \<and> length xs \<le> ouMaxDepth)" by force
    then show ?thesis using False assms unfolding tree_ok_def rooted_def ni [OF False] chain [OF False] by blast
  qed (simp add: tree_ok_def)
  finally show ?thesis .
qed

section \<open>The tree over every sequence of writes\<close>

text \<open>
  What the console can do to the units, and anything else that leaves the table of units alone. The JSON
  of a patch is its text here.
\<close>

inductive ou_step :: "orgDb \<Rightarrow> orgDb \<Rightarrow> bool" where
  create: "writeOUInput now (og_meta db) fresh 0 inp True (og_rows db) = (answer, rows') \<Longrightarrow>
    fresh \<notin> fst ` set (og_rows db) \<Longrightarrow> 0 < fresh \<Longrightarrow> ou_step db (db\<lparr>og_rows := rows'\<rparr>)"
| replace: "writeOUInput now (og_meta db) 0 ou inp False (og_rows db) = (answer, rows') \<Longrightarrow>
    ou_step db (db\<lparr>og_rows := rows'\<rparr>)"
| patch: "patchOUInput decode (og_meta db) ou (changes :: (string \<times> string) list) (og_rows db) = (answer, rows') \<Longrightarrow>
    ou_step db (db\<lparr>og_rows := rows'\<rparr>)"
| delete: "apiGroupDelete rules ou orphans db = (outcome, db') \<Longrightarrow> ou_step db db'"
| elsewhere: "og_rows db' = og_rows db \<Longrightarrow> ou_step db db'"

lemma write_refused:
  "writeOUChanges now meta fresh ou create patch input rows = (Inl e, rows') \<Longrightarrow> rows' = rows"
  by (auto simp: writeOUChanges_def commit_row_def Let_def split: sum.splits option.splits if_splits)

definition good_tree :: "ouGroupRow list \<Rightarrow> bool" where
  "good_tree rows \<longleftrightarrow> tree_ok rows \<and> rooted rows"

lemma write_good:
  assumes "writeOUChanges now meta fresh ou create patch input rows = (answer, rows')" and "good_tree rows"
    and "create \<Longrightarrow> patch = None \<and> fresh \<notin> fst ` set rows \<and> 0 < fresh"
  shows "good_tree rows'"
proof (cases answer)
  case (Inl e)
  then show ?thesis using write_refused assms(1,2) by blast
next
  case (Inr res)
  then show ?thesis
    using write_tree_ok [OF assms(1) [unfolded Inr]] write_rooted [OF assms(1) [unfolded Inr]] assms(2,3)
    by (simp add: good_tree_def)
qed

lemma SetAnnouncementEnabled_rows: "og_rows (fold (\<lambda>aid. SetAnnouncementEnabled aid on) aids db) = og_rows db"
  by (induction aids arbitrary: db) (simp_all add: SetAnnouncementEnabled_def)

lemma DeleteUserGroupD:
  assumes "DeleteUserGroup rules ou db = Inr (n, target, db')"
  obtains node v where "map_of (og_rows db) ou = Some (node, v)" "\<not> nd_isDefault node"
    "validateOUDeletionReferences rules db ou = None" "target = delete_target (og_rows db) (nd_parent node)"
    "og_rows db' = without_ou ou (child_parent (og_rows db) (nd_parent node)) (og_rows db)"
  using assms by (auto simp: DeleteUserGroup_def Let_def split: option.splits if_splits)

lemma DeleteUserGroup_tables:
  assumes "DeleteUserGroup rules ou db = Inr (n, target, db')"
  shows "og_members db' = map (\<lambda>(name, g). (name, if g = ou then 0 else g)) (og_members db)" "og_ssoDefaults db' = og_ssoDefaults db"
    "og_sets db' = map (\<lambda>(s, a). (s, if a = Some ou then (if target \<noteq> 0 then Some target else None) else a)) (og_sets db)"
    "og_evidence db' = reattributePredictionPurgeOwners ou target (og_evidence db)"
    "og_viewers db' = filter (\<lambda>x. snd x \<noteq> groupPrincipal ou) (og_viewers db)"
    "og_versionGrants db' = filter (\<lambda>x. snd x \<noteq> groupPrincipal ou) (og_versionGrants db)"
    "og_annGrants db' = filter (\<lambda>x. snd x \<noteq> groupPrincipal ou) (og_annGrants db)"
    "og_routeGrants db' = filter (\<lambda>x. snd x \<noteq> groupPrincipal ou) (og_routeGrants db)"
    "tg_rows (og_targets db') = filter (\<lambda>(u, g). u \<noteq> ou) (tg_rows (og_targets db))"
    "tg_headers (og_targets db') = filter (\<lambda>u. u \<noteq> ou) (tg_headers (og_targets db))"
    "og_appAccess db' = filter (\<lambda>(k, u, on). u \<noteq> ou) (og_appAccess db)"
    "og_meta db' (runDefaultsOUKey ou) = None"
  using assms by (auto simp: DeleteUserGroup_def Let_def o_def split: option.splits if_splits)

lemma delete_good:
  assumes "apiGroupDelete rules ou orphans db = (outcome, db')" and "good_tree (og_rows db)"
  shows "good_tree (og_rows db')"
proof (cases "og_rows db' = og_rows db")
  case False
  then obtain n target db1 where d: "DeleteUserGroup rules ou db = Inr (n, target, db1)" "og_rows db' = og_rows db1"
    using assms(1) by (auto simp: apiGroupDelete_def Let_def SetAnnouncementEnabled_rows split: if_splits sum.splits)
  obtain node v where row: "map_of (og_rows db) ou = Some (node, v)" "\<not> nd_isDefault node"
    "og_rows db1 = without_ou ou (child_parent (og_rows db) (nd_parent node)) (og_rows db)"
    using DeleteUserGroupD [OF d(1)] by metis
  then show ?thesis using delete_tree_ok delete_rooted assms(2) d(2) by (metis good_tree_def)
qed (use assms(2) in simp)

lemma step_good: "ou_step db db' \<Longrightarrow> good_tree (og_rows db) \<Longrightarrow> good_tree (og_rows db')"
proof (induction rule: ou_step.induct)
  case (create now db fresh inp answer rows')
  then show ?case using write_good [OF create(1) [unfolded writeOUInput_def]] by simp
next
  case (replace now db ou inp answer rows')
  then show ?case using write_good [OF replace(1) [unfolded writeOUInput_def]] by simp
next
  case (patch decode db ou changes answer rows')
  then show ?case using write_good [OF patch(1) [unfolded patchOUInput_def]] by simp
next
  case (delete rules ou orphans db outcome db')
  then show ?case using delete_good by blast
qed simp

lemma good_tree_issues: "good_tree rows \<longleftrightarrow> wf_nodes (nodes_of rows) \<and> issues (newOUGraph (nodes_of rows)) = []"
  using no_issues by (auto simp: good_tree_def tree_ok_def)

text \<open>
  Property C6. The console never damages the tree: over every sequence of creates, replacements, patches and deletions,
  whatever the bodies ask for, ids stay distinct and positive and the topology report stays empty. There is
  always exactly one Default OU, it has no parent, every other OU has one, and every OU reaches the Default
  in at most 64 steps.
\<close>

theorem ou_tree_stays_valid:
  assumes "ou_step\<^sup>*\<^sup>* db db'" and "wf_nodes (nodes_of (og_rows db))" and "issues (newOUGraph (nodes_of (og_rows db))) = []"
  shows "wf_nodes (nodes_of (og_rows db')) \<and> issues (newOUGraph (nodes_of (og_rows db'))) = []"
  using assms(1)
proof (induction rule: rtranclp_induct)
  case base
  then show ?case using assms(2,3) by simp
next
  case (step d d')
  then show ?case using step_good good_tree_issues by blast
qed

section \<open>A small organization\<close>

text \<open>
  Below the Default OU, which closes both ways to enrol, an external unit opens one of them and its child
  requires it.
\<close>

definition demo_unit :: "int \<Rightarrow> string \<Rightarrow> ouNode" where
  "demo_unit parent name = \<lparr>nd_parent = parent, nd_isDefault = (parent = 0), nd_name = name, nd_description = [], nd_created = []\<rparr>"

definition demo_org_rows :: "ouGroupRow list" where
  "demo_org_rows =
     [(1, demo_unit 0 ''Default'', empty_values\<lparr>pv_totp := Some False, pv_passkey := Some False\<rparr>),
      (3, demo_unit 1 ''partner'', empty_values\<lparr>pv_restricted := Some True, pv_totp := Some True\<rparr>),
      (4, demo_unit 3 ''desk'', empty_values\<lparr>pv_require2FA := Some True\<rparr>)]"

definition demo_org :: orgDb where
  "demo_org = \<lparr>og_rows = demo_org_rows, og_members = [(''ann'', 4)], og_meta = (\<lambda>_. None), og_ssoDefaults = [],
     og_sets = [(7, Some 3)], og_evidence = [], og_viewers = [(5, ''g:3'')], og_versionGrants = [], og_annGrants = [],
     og_routeGrants = [], og_targets = \<lparr>tg_targets = [], tg_headers = [3], tg_rows = []\<rparr>, og_appAccess = [],
     og_announcements = []\<rparr>"

lemma demo_org_valid: "wf_nodes (nodes_of demo_org_rows)" "issues (newOUGraph (nodes_of demo_org_rows)) = []"
  by code_simp+

lemma demo_org_tree: "tree_ok (og_rows demo_org)"
  using no_issues [of demo_org_rows] demo_org_valid by (simp add: demo_org_def)

definition demo_body :: groupInput where
  "demo_body = \<lparr>gi_ForecastScope = ScopeAbsent, gi_Name = ''night desk'', gi_Description = [], gi_Weight = None,
     gi_UrgentUnlimited = None, gi_AllowUrgent = None, gi_MaxQueued = None, gi_RunWindow = None, gi_Priority = [],
     gi_Restricted = None, gi_DailyRunQuota = None, gi_RunQuotaPeriod = None, gi_ParentID = Some 4,
     gi_TOTPEnroll = None, gi_PasskeyEnroll = None, gi_Require2FA = None\<rparr>"

lemma demo_unit_created:
  "(case writeOUInput ''t0'' (\<lambda>_. None) 9 0 demo_body True demo_org_rows of
      (answer, rows) \<Rightarrow> answer = Inr \<lparr>ow_ID = 9, ow_Changed = True\<rparr> \<and> map fst rows = [1, 3, 4, 9])"
  by code_simp

lemma ou_tree_stays_valid_witness:
  "\<exists>db :: orgDb. map fst (og_rows db) = [1, 3, 4, 9] \<and> issues (newOUGraph (nodes_of (og_rows db))) = []"
proof -
  obtain rows where w: "writeOUInput ''t0'' (og_meta demo_org) 9 0 demo_body True (og_rows demo_org)
      = (Inr \<lparr>ow_ID = 9, ow_Changed = True\<rparr>, rows)" "map fst rows = [1, 3, 4, 9]"
    using demo_unit_created by (auto simp: demo_org_def split: prod.splits)
  have o: "og_rows demo_org = demo_org_rows" by (simp add: demo_org_def)
  have "ou_step demo_org (demo_org\<lparr>og_rows := rows\<rparr>)"
    by (rule ou_step.create [OF w(1)]) (simp_all add: o demo_org_rows_def)
  then have "ou_step\<^sup>*\<^sup>* demo_org (demo_org\<lparr>og_rows := rows\<rparr>)" by (rule r_into_rtranclp)
  from ou_tree_stays_valid [OF this] show ?thesis
    using demo_org_valid w(2) o by (intro exI [of _ "demo_org\<lparr>og_rows := rows\<rparr>"]) simp
qed

end
