(* ===== verification/OU_Mandate.thy ===== *)
theory OU_Mandate
  imports OU_Tree
begin

text \<open>
  The second factor a unit requires can be enrolled after every accepted write, because whether a unit is
  stranded depends only on the values along its chain and the chains checked are the chains stored. A
  deletion leaves no reference to the unit behind, but it is not checked in this way.
\<close>

section \<open>Mandates can be met after a write\<close>

lemma first_read:
  "op_Effective (nearestOUPolicy chain b (\<lambda>u. f (values_of s u))) =
     (case find (\<lambda>v. f v \<noteq> None) (map (values_of s) chain) of None \<Rightarrow> b | Some v \<Rightarrow> the (f v))"
proof (cases chain)
  case (Cons x xs)
  have "find (\<lambda>v. f v \<noteq> None) (map (values_of s) ys) = map_option (values_of s) (find (\<lambda>u. f (values_of s u) \<noteq> None) ys)" for ys
    by (induction ys) auto
  then show ?thesis using Cons by (auto simp: nearestOUPolicy_def split: option.splits)
qed (simp add: nearestOUPolicy_def)

text \<open>Whether an OU is stranded depends only on the values along its chain.\<close>

lemma stranded_chain:
  assumes "policyChain (sn_graph s) u = Inr chain" "policyChain (sn_graph s') u' = Inr chain'"
    and "map (values_of s) chain = map (values_of s') chain'"
  shows "stranded meta s u = stranded meta s' u'"
proof -
  have "(\<exists>x\<in>set chain. pv_require2FA (values_of s x) = Some True) = (\<exists>x\<in>set chain'. pv_require2FA (values_of s' x) = Some True)"
    using assms(3) by (metis (no_types, lifting) in_set_conv_nth length_map nth_map)
  moreover have "chain = [] \<longleftrightarrow> chain' = []" using assms(3) by auto
  ultimately show ?thesis
    using assms by (simp add: stranded_def resolve_def resolve_chain_def Let_def sticky_effective first_read)
qed

lemma chain_walk_cong: "map_of nodes = map_of nodes' \<Longrightarrow> chain_walk nodes k out u = chain_walk nodes' k out u"
  by (induction nodes k out u rule: chain_walk.induct) (auto split: option.splits)

lemma policyChain_cong:
  assumes "map_of (g_nodes g) = map_of (g_nodes g')" "g_defaultErr g = g_defaultErr g'" "g_defaultID g = g_defaultID g'"
  shows "policyChain g u = policyChain g' u"
  using assms by (auto simp: policyChain_def actualChain_def chain_walk_cong [OF assms(1)] split: sum.split)

lemma policyChain_of_path:
  assumes "\<not> g_defaultErr g" "ou_path (g_nodes g) u xs" "length xs \<le> ouMaxDepth" "xs \<noteq> []"
  shows "policyChain g u = Inr (if last xs \<noteq> g_defaultID g then xs @ [g_defaultID g] else xs)"
proof -
  have "actualChain g u = Inr xs" using assms by (simp add: actualChain_path)
  then show ?thesis using assms(4) by (simp add: policyChain_def)
qed

lemma nodes_set_row:
  "distinct (map fst rows) \<Longrightarrow> ou \<in> fst ` set rows \<Longrightarrow> nodes_of (set_row ou node v rows) = AList.update ou node (nodes_of rows)"
proof (induction rows)
  case (Cons r rows)
  obtain u n w where r: "r = (u, n, w)" by (cases r)
  have "set_row ou node v rows = rows" if "ou \<notin> fst ` set rows"
    using that unfolding set_row_def by (induction rows) auto
  then show ?case using Cons r by (force simp: set_row_def nodes_of_def)
qed simp

lemma update_same: "map_of nodes u = Some n \<Longrightarrow> AList.update u n nodes = nodes"
  by (induction nodes) auto

lemma update_new: "u \<notin> fst ` set nodes \<Longrightarrow> AList.update u n nodes = nodes @ [(u, n)]"
  by (induction nodes) auto

lemma values_of_rows: "values_of (loadOUPolicySnapshot rows) u = (case map_of rows u of None \<Rightarrow> empty_values | Some (n, v) \<Rightarrow> v)"
  by (auto simp: values_of_def map_of_values split: option.splits)

text \<open>The snapshot that was checked strands the same OUs as the table that was stored.\<close>

lemma stored_update:
  assumes c: "checked rows False ou node v s" and ok: "tree_ok rows"
    and st: "rows' = set_row ou node v rows \<or>
      rows' = rows \<and> map_of (nodes_of rows) ou = Some node \<and> values_of (loadOUPolicySnapshot rows) ou = v"
  shows "stranded meta (loadOUPolicySnapshot rows') u = stranded meta s u"
proof -
  obtain old w where "map_of rows ou = Some (old, w)" using c unfolding checked_def by auto
  then have row: "ou \<in> fst ` set rows" by (rule row_keyD)
  have n: "nodes_of rows' = AList.update ou node (nodes_of rows)"
    using st nodes_set_row [OF tree_okD(1) [OF ok] row] update_same by metis
  have "map_of (g_nodes (newOUGraph (nodes_of rows'))) = map_of (g_nodes (sn_graph s))"
    using c by (simp add: checked_def n update_conv')
  then have p: "policyChain (newOUGraph (nodes_of rows')) x = policyChain (sn_graph s) x" for x
    using c n by (intro policyChain_cong) (simp_all add: checked_def)
  have vs: "values_of s = (values_of (loadOUPolicySnapshot rows))(ou := v)" using c by (simp add: checked_def)
  have "values_of (loadOUPolicySnapshot rows') x = values_of s x" for x
  proof (cases "x = ou")
    case True
    obtain n w where "map_of rows ou = Some (n, w)" using row by (metis map_of_eq_None_iff not_None_eq prod.exhaust)
    then have "values_of (loadOUPolicySnapshot rows') ou = v"
      using st by (elim disjE) (simp_all add: values_of_rows map_of_set_row)
    then show ?thesis using vs True by simp
  next
    case False
    then have "values_of (loadOUPolicySnapshot rows') x = values_of (loadOUPolicySnapshot rows) x"
      using st by (elim disjE) (simp_all add: values_of_rows map_of_set_row)
    then show ?thesis using vs False by simp
  qed
  then have "values_of (loadOUPolicySnapshot rows') = values_of s" by (rule ext)
  then have "resolve_chain (loadOUPolicySnapshot rows') = resolve_chain s" by (intro ext) (simp add: resolve_chain_def)
  then have "resolve (loadOUPolicySnapshot rows') u = resolve s u" using p by (simp add: resolve_def split: sum.split)
  then show ?thesis by (simp add: stranded_def)
qed

lemma stored_create:
  assumes c: "checked rows True pre node v s" and ok: "tree_ok rows" and pre: "pre \<notin> fst ` set rows" "pre \<noteq> 0"
    and fresh: "fresh \<notin> fst ` set rows" "0 < fresh" and u: "u \<in> fst ` set rows \<or> u = fresh"
  shows "stranded meta (loadOUPolicySnapshot (rows @ [(fresh, node, v)])) u = stranded meta s (if u = fresh then pre else u)"
proof -
  let ?rows = "rows @ [(fresh, node, v)]" and ?d = "g_defaultID (newOUGraph (nodes_of rows))"
  have new: "placed (nodes_of rows) pre node" "\<not> nd_isDefault node" using c by (auto simp: checked_def)
  have ok': "tree_ok ?rows" using tree_insert [OF ok new(1) pre fresh new(2)] .
  have upd: "AList.update pre node (nodes_of rows) = nodes_of rows @ [(pre, node)]"
    using pre(1) update_new [of pre "nodes_of rows"] by (metis fst_nodes list.set_map)
  have ds: "defaults_of (nodes_of rows @ [(x, node)]) = defaults_of (nodes_of rows)" for x
    using new(2) by (simp add: defaults_of_def)
  have d0: "?d \<in> fst ` set rows" "\<not> g_defaultErr (newOUGraph (nodes_of rows))"
    using default_known(1) [OF ok] tree_okD(3) [OF ok] by auto
  have same_default: "\<not> g_defaultErr (newOUGraph (nodes_of rows @ [(x, node)])) \<and>
      g_defaultID (newOUGraph (nodes_of rows @ [(x, node)])) = ?d" if x: "x \<notin> fst ` set rows" for x
  proof (rule default_kept [OF d0(2) ds])
    fix e assume "e \<in> set (defaults_of (nodes_of rows))" "parent_of (nodes_of rows) e = 0"
    moreover then have "e \<in> fst ` set rows" by (force simp: defaults_of_rows)
    ultimately show "parent_of (nodes_of rows @ [(x, node)]) e = 0"
      using x by (auto simp: parent_of_def map_add_def map_of_nodes split: option.splits)
  qed
  have g: "\<not> g_defaultErr (sn_graph s)" "g_defaultID (sn_graph s) = ?d"
    using c same_default [OF pre(1)] by (simp_all add: checked_def upd)
  have g': "\<not> g_defaultErr (newOUGraph (nodes_of ?rows))" "g_defaultID (newOUGraph (nodes_of ?rows)) = ?d"
    using same_default [OF fresh(1)] by (simp_all add: nodes_of_def)
  note none = pre(1) fresh(1)
  have key: "x \<in> fst ` set rows" if m: "ou_path (nodes_of rows) y xs" "x \<in> set xs" for x y xs
  proof -
    obtain r where "map_of rows x = Some r" using path_positive [OF m] by (auto simp: map_of_nodes)
    then show ?thesis by (rule row_keyD)
  qed
  have ms: "map_of (g_nodes (sn_graph s)) x = map_of (nodes_of rows) x" "map_of (nodes_of ?rows) x = map_of (nodes_of rows) x"
    "values_of s x = values_of (loadOUPolicySnapshot ?rows) x" if "x \<in> fst ` set rows" for x
  proof -
    have x: "x \<noteq> pre" "x \<noteq> fresh" using that none by auto
    then show "map_of (g_nodes (sn_graph s)) x = map_of (nodes_of rows) x" using c by (simp add: checked_def)
    have m: "map_of ?rows x = map_of rows x" using x(2) by (simp add: map_add_def split: option.split)
    then show "map_of (nodes_of ?rows) x = map_of (nodes_of rows) x" by (simp only: map_of_nodes)
    show "values_of s x = values_of (loadOUPolicySnapshot ?rows) x"
      using c x(1) m by (simp add: checked_def values_of_rows)
  qed
  have lift: "ou_path (g_nodes (sn_graph s)) y xs \<and> ou_path (nodes_of ?rows) y xs" if "ou_path (nodes_of rows) y xs" for y xs
    using ms key [OF that] by (auto intro!: ou_path_same [OF that])
  have vs: "map (values_of s) (zs @ [?d]) = map (values_of (loadOUPolicySnapshot ?rows)) (zs @ [?d])"
    if "ou_path (nodes_of rows) y zs" for y zs
    using ms(3) key [OF that] d0(1) by simp
  show ?thesis
  proof (cases "u = fresh")
    case False
    then have uk: "u \<in> fst ` set rows" using u by simp
    obtain xs where xs: "ou_path (nodes_of rows) u xs" "length xs \<le> ouMaxDepth" using tree_okD(4) [OF ok uk] by blast
    have "xs \<noteq> []" using xs(1) tree_okD(2) [OF ok uk] by (cases xs) auto
    then show ?thesis
      using policyChain_of_path [of "sn_graph s" u xs] policyChain_of_path [of "newOUGraph (nodes_of ?rows)" u xs]
        lift [OF xs(1)] xs(2) g g' vs [OF xs(1)] False
      by (intro stranded_chain) auto
  next
    case True
    obtain ys where y: "ou_path (AList.update pre node (nodes_of rows)) pre ys" "length ys \<le> ouMaxDepth"
      using new(1) by (auto simp: placed_def Let_def actualChain_path)
    obtain zs where z: "ys = pre # zs" "ou_path (AList.update pre node (nodes_of rows)) (nd_parent node) zs"
      using y(1) pre(2) by (cases ys) (auto simp: update_conv' split: if_splits)
    have "pre \<notin> set zs" using ou_path_distinct [OF y(1)] z(1) by simp
    then have zs: "ou_path (nodes_of rows) (nd_parent node) zs" by (intro ou_path_same [OF z(2)]) (auto simp: update_conv')
    have "map_of rows fresh = None" using none(2) by (simp add: map_of_eq_None_iff)
    then have f: "map_of (nodes_of ?rows) fresh = Some node" "map_of (g_nodes (sn_graph s)) pre = Some node"
      "map_of ?rows fresh = Some (node, v)"
      using c by (simp_all add: checked_def map_of_nodes map_add_def)
    have "0 < pre" using y(1) z(1) by auto
    then have "ou_path (g_nodes (sn_graph s)) pre (pre # zs)" "ou_path (nodes_of ?rows) fresh (fresh # zs)"
      using lift [OF zs] f fresh(2) by auto
    moreover have "pre \<noteq> ?d" "fresh \<noteq> ?d" using d0(1) none by auto
    moreover have "values_of s pre = values_of (loadOUPolicySnapshot ?rows) fresh"
      using c f(3) by (simp add: checked_def values_of_rows)
    ultimately show ?thesis
      using policyChain_of_path [of "sn_graph s" pre "pre # zs"] policyChain_of_path [of "newOUGraph (nodes_of ?rows)" fresh "fresh # zs"]
        y(2) z(1) g g' vs [OF zs] True
      by (intro stranded_chain) auto
  qed
qed

text \<open>
  After every accepted write of a unit no unit is stranded: wherever a second factor is required of the
  members, at least one way to enrol one is open to them. This covers the unit written, the units below it
  that inherit from it, and a move that changes what a whole subtree inherits.
\<close>

theorem mandate_can_be_met:
  assumes "writeOUChanges now meta fresh ou create patch input rows = (Inr res, rows')" and "tree_ok rows"
    and "create \<Longrightarrow> patch = None \<and> fresh \<notin> fst ` set rows \<and> 0 < fresh"
  shows "\<forall>u\<in>fst ` set rows'. \<not> stranded meta (loadOUPolicySnapshot rows') u"
proof -
  have cp: "create \<Longrightarrow> patch = None" using assms(3) by blast
  obtain node v s pre where w: "checked rows create pre node v s" "validateOUMandates meta s = None"
    "pre = (if create then previewID (nodes_of rows) else ou)"
    "rows' = (if create then rows @ [(fresh, node, v)] else set_row ou node v rows) \<or>
     rows' = rows \<and> \<not> create \<and> map_of (nodes_of rows) ou = Some node \<and> values_of (loadOUPolicySnapshot rows) ou = v"
    using write_cases [OF assms(1,2) cp] .
  have free: "\<not> stranded meta s x" if "x = pre \<or> x \<in> fst ` set rows" for x
  proof -
    have "x \<in> fst ` set (sn_values s)" using w(1) that by (auto simp: checked_def)
    then show ?thesis using w(2) by (auto simp: validateOUMandates_def list_ex_iff split: if_splits)
  qed
  show ?thesis
  proof (cases create)
    case True
    have pre: "pre \<notin> fst ` set rows" "pre \<noteq> 0"
      using previewID_fresh [of pre "nodes_of rows"] previewID_pos [of "nodes_of rows"] w(3) True
      by (auto simp only: fst_nodes if_True set_map)
    have f: "fresh \<notin> fst ` set rows" "0 < fresh" using assms(3) True by auto
    have "\<not> stranded meta (loadOUPolicySnapshot (rows @ [(fresh, node, v)])) u" if "u \<in> fst ` set rows \<or> u = fresh" for u
      using stored_create [OF _ assms(2) pre f that] w(1) free [of pre] free [of u] that True by (simp split: if_splits) metis
    then show ?thesis using w(4) True by auto
  next
    case False
    then have st: "rows' = set_row ou node v rows \<or>
        rows' = rows \<and> map_of (nodes_of rows) ou = Some node \<and> values_of (loadOUPolicySnapshot rows) ou = v"
      using w(4) by auto
    have "stranded meta (loadOUPolicySnapshot rows') u = stranded meta s u" for u
      using stored_update [OF _ assms(2) st] w(1,3) False by auto
    moreover have "fst ` set rows' = fst ` set rows" using st fst_set_row by (metis list.set_map)
    ultimately show ?thesis using free by auto
  qed
qed

section \<open>What a deletion leaves\<close>


section \<open>What a deletion takes away\<close>

definition restricted_in :: "orgDb \<Rightarrow> int \<Rightarrow> bool" where
  "restricted_in db ou = (case resolve (loadOUPolicySnapshot (og_rows db)) ou of
     Inl _ \<Rightarrow> False | Inr p \<Rightarrow> gs_Restricted (governance p))"

lemma demo_deleted:
  "(case DeleteUserGroup (\<lambda>_. None) 3 demo_org of
      Inl _ \<Rightarrow> False
    | Inr (moved, target, db) \<Rightarrow> moved = 1 \<and> target = 1 \<and> map fst (og_rows db) = [1, 4] \<and>
        \<not> restricted_in db 4 \<and> stranded (og_meta db) (loadOUPolicySnapshot (og_rows db)) 4)"
  by code_simp

lemma demo_before:
  "restricted_in demo_org 4 \<and>
   list_all (\<lambda>u. \<not> stranded (og_meta demo_org) (loadOUPolicySnapshot (og_rows demo_org)) u) [1, 3, 4]"
  by code_simp

lemma demo_no_announcements: "snd (announcementImpactOf demo_org (groupPrincipal 3)) = []"
  by (simp add: announcementImpactOf_def demo_org_def Let_def)

text \<open>
  A deletion is not checked like the other writes. Here it lifts the restriction its child inherited, so
  the child's members read as internal ones, and it takes away the only way to enrol the second factor
  the child requires, which the writer of a unit would have refused as unsatisfiable.
\<close>

theorem deletion_skips_mandates:
  "restricted_in demo_org 4 \<and>
   list_all (\<lambda>u. \<not> stranded (og_meta demo_org) (loadOUPolicySnapshot (og_rows demo_org)) u) [1, 3, 4] \<and>
   fst (apiGroupDelete (\<lambda>_. None) 3 [] demo_org) = Inr () \<and>
   (let db = snd (apiGroupDelete (\<lambda>_. None) 3 [] demo_org)
    in \<not> restricted_in db 4 \<and> stranded (og_meta db) (loadOUPolicySnapshot (og_rows db)) 4)"
  using demo_before demo_deleted demo_no_announcements
  by (auto simp: apiGroupDelete_def Let_def trim_space_def split: sum.splits)

lemma mandate_can_be_met_witness:
  "\<exists>rows. map fst rows = [1, 3, 4, 9] \<and> \<not> stranded (\<lambda>_. None) (loadOUPolicySnapshot rows) 9"
proof -
  obtain rows where w: "writeOUInput ''t0'' (\<lambda>_. None) 9 0 demo_body True demo_org_rows
      = (Inr \<lparr>ow_ID = 9, ow_Changed = True\<rparr>, rows)" "map fst rows = [1, 3, 4, 9]"
    using demo_unit_created by (auto split: prod.splits)
  have "tree_ok demo_org_rows" using demo_org_tree by (simp add: demo_org_def)
  then have "\<forall>u\<in>fst ` set rows. \<not> stranded (\<lambda>_. None) (loadOUPolicySnapshot rows) u"
    using mandate_can_be_met [OF w(1) [unfolded writeOUInput_def]] by (simp add: demo_org_rows_def)
  moreover have "9 \<in> fst ` set rows" using w(2) by (metis list.set_intros list.set_map)
  ultimately have "\<not> stranded (\<lambda>_. None) (loadOUPolicySnapshot rows) 9" by (rule bspec)
  then show ?thesis using w(2) by (intro exI [of _ rows] conjI)
qed


end
