(* ===== verification/Run_Tickets.thy ===== *)
theory Run_Tickets
  imports Batch_Sched Access
begin

text \<open>
  The allowances of a user: urgent tickets and their refill (internal/app/tickets.go), the run quota of
  a restricted unit and its periods (run_quota.go), and the decision whether an urgent run may be urgent
  (batch_run.go). A ticket row keeps its period start as the stored local wall clock.
\<close>

section \<open>Tickets\<close>

type_synonym ticketRows = "string \<rightharpoonup> int \<times> string"

definition ticketRefill :: "int \<Rightarrow> instant \<Rightarrow> int \<Rightarrow> int \<Rightarrow> instant \<Rightarrow> int \<times> instant" where
  "ticketRefill remaining periodStart allocation periodDays now =
     (if periodStart = zero_time \<or> now < periodStart then (allocation, now)
      else let period = wrap64 (periodDays * hours 24)
           in if period \<le> 0 then (remaining, periodStart)
              else let elapsed = now - periodStart
                   in if period \<le> elapsed then (allocation, periodStart + elapsed div period * period)
                      else (remaining, periodStart))"

definition ticketRow :: "location \<Rightarrow> ticketRows \<Rightarrow> string \<Rightarrow> int \<times> instant" where
  "ticketRow local rows user =
     (case rows user of
        None \<Rightarrow> (0, zero_time)
      | Some (remaining, ps) \<Rightarrow>
          if ps = [] then (0, zero_time)
          else (remaining, case parse_local local ps of None \<Rightarrow> zero_time | Some t \<Rightarrow> t))"

definition saveTicket :: "location \<Rightarrow> string \<Rightarrow> int \<Rightarrow> instant \<Rightarrow> ticketRows \<Rightarrow> ticketRows" where
  "saveTicket local user remaining periodStart rows = rows(user \<mapsto> (remaining, format_local local periodStart))"

definition TicketStatus ::
  "location \<Rightarrow> string \<Rightarrow> int \<Rightarrow> int \<Rightarrow> instant \<Rightarrow> ticketRows \<Rightarrow> int \<times> ticketRows" where
  "TicketStatus local user allocation periodDays now rows =
     (case ticketRow local rows user of
        (rem, ps) \<Rightarrow>
          if ps = zero_time \<and> allocation \<le> 0 then (0, rows)
          else case ticketRefill rem ps allocation periodDays now of
            (newRem, newPs) \<Rightarrow>
              (newRem, if newRem \<noteq> rem \<or> newPs \<noteq> ps then saveTicket local user newRem newPs rows else rows))"

definition SpendTicket ::
  "location \<Rightarrow> string \<Rightarrow> int \<Rightarrow> int \<Rightarrow> instant \<Rightarrow> ticketRows \<Rightarrow> bool \<times> int \<times> ticketRows" where
  "SpendTicket local user allocation periodDays now rows =
     (case ticketRow local rows user of
        (rem0, ps0) \<Rightarrow>
          if ps0 = zero_time \<and> allocation \<le> 0 then (False, 0, rows)
          else case ticketRefill rem0 ps0 allocation periodDays now of
            (rem, ps) \<Rightarrow>
              if rem \<le> 0 then (False, 0, saveTicket local user rem ps rows)
              else (True, rem - 1, saveTicket local user (rem - 1) ps rows))"

definition UserTicketAllocation :: "accessDb \<Rightarrow> string \<Rightarrow> int" where
  "UserTicketAllocation adb user = gs_Weight (EffectiveGroupSettings (db_users adb) (db_groups adb) user)"

definition UserUrgentUnlimited :: "accessDb \<Rightarrow> string \<Rightarrow> bool" where
  "UserUrgentUnlimited adb user = gs_UrgentUnlimited (EffectiveGroupSettings (db_users adb) (db_groups adb) user)"

text \<open>The stored priority, whether it was lowered, and the tickets left.\<close>

definition urgentAllowed ::
  "schedEnv \<Rightarrow> accessDb \<Rightarrow> string \<Rightarrow> string \<Rightarrow> int \<Rightarrow> ticketRows \<Rightarrow> string \<times> bool \<times> ticketRows" where
  "urgentAllowed env adb user priority base rows =
     (if priority \<noteq> ''urgent'' then (priority, False, rows)
      else if \<not> urgentEnabled env then (itoa base, True, rows)
      else case EffectiveGroupSettingsErr (db_users adb) (db_groups adb) user of
        Inl _ \<Rightarrow> (itoa base, True, rows)
      | Inr gs \<Rightarrow>
          if \<not> gs_AllowUrgent gs then (itoa base, True, rows)
          else if gs_UrgentUnlimited gs then (priority, False, rows)
          else case SpendTicket (sv_local env) user (gs_Weight gs) (ticketPeriodDays env) (sv_now env) rows of
            (granted, left, rows1) \<Rightarrow> if granted then (priority, False, rows1) else (itoa base, True, rows1))"

section \<open>Quota\<close>

definition RunsToday :: "accessDb \<Rightarrow> batchDb \<Rightarrow> string \<Rightarrow> string \<Rightarrow> int" where
  "RunsToday adb db user since =
     (let floor' = (case find_user (db_users adb) user of None \<Rightarrow> [] | Some u \<Rightarrow> us_created u)
      in sum_list (map bj_Total (filter (\<lambda>j. bj_CreatedBy j = user \<and> since \<le> bj_CreatedAt j \<and>
            floor' \<le> bj_CreatedAt j) (db_jobs db))))"

definition panelMidnight :: "location \<Rightarrow> instant \<Rightarrow> instant" where
  "panelMidnight loc now = date_in loc (local_day loc now) 0"

definition quotaPeriodStart :: "location \<Rightarrow> string \<Rightarrow> instant \<Rightarrow> instant" where
  "quotaPeriodStart loc period now =
     (let n = local_day loc now
      in if period = QuotaTotal then zero_time
         else if period = QuotaWeek
         then let back = (weekday n + 6) mod 7 in date_in loc (local_day loc (add_days loc now (- back))) 0
         else if period = QuotaMonth then date_in loc (day_number (civil_year n) (civil_month n) 1) 0
         else date_in loc n 0)"

text \<open>\<open>since.Format\<close>: the zero time prints in UTC, every other start in the server's location.\<close>

definition since_string :: "location \<Rightarrow> instant \<Rightarrow> string" where
  "since_string local since = (if since = zero_time then ''0001-01-01 00:00:00'' else format_local local since)"

definition runQuotaCheck :: "schedEnv \<Rightarrow> accessDb \<Rightarrow> batchDb \<Rightarrow> string \<Rightarrow> int \<Rightarrow> int \<times> int \<times> bool" where
  "runQuotaCheck env adb db user rows =
     (if viewerScope adb user = None then (0, 0, True)
      else case EffectiveGroupSettingsErr (db_users adb) (db_groups adb) user of
        Inl _ \<Rightarrow> (0, 0, False)
      | Inr eff \<Rightarrow>
          let limit = gs_DailyRunQuota eff
          in if limit \<le> 0 then (0, 0, True)
             else let used = RunsToday adb db user
                        (since_string (sv_local env) (quotaPeriodStart (sv_panel env) (gs_QuotaPeriod eff) (sv_now env)))
                  in (limit, used, used + rows \<le> limit))"

text \<open>The instant of the next refill; a lifetime cap has none. The handler prints it as UTC.\<close>

definition quotaResetsAt :: "location \<Rightarrow> string \<Rightarrow> instant \<Rightarrow> instant option" where
  "quotaResetsAt loc period now =
     (if period = QuotaTotal then None
      else let start = quotaPeriodStart loc period now
           in Some (if period = QuotaWeek then add_days loc start 7
                    else if period = QuotaMonth then add_month loc start 1
                    else add_days loc start 1))"

section \<open>A period holds the instant it was computed for\<close>

lemma add_days_now: "local_day (zone off) (add_days (zone off) now n) = local_day (zone off) now + n"
  by (simp add: add_days_def)

lemma local_day_date [simp]: "local_day (zone off) (date_in (zone off) d 0) = d"
  by simp

lemma day_number_month: "day_number y m 1 = month_first y m"
  by (simp add: month_first_def)

lemma week_start:
  fixes n :: int
  defines "s \<equiv> n - (weekday n + 6) mod 7"
  shows "s \<le> n" "n < s + 7" "weekday s = 1"
  unfolding s_def weekday_def by presburger+

lemma first_of_week: "weekday s = 1 \<Longrightarrow> (weekday (s + 7) + 6) mod 7 = 0"
  unfolding weekday_def by presburger

lemma quota_week:
  "quotaPeriodStart (zone off) QuotaWeek now
     = date_in (zone off) (local_day (zone off) now - (weekday (local_day (zone off) now) + 6) mod 7) 0"
  by (simp add: quotaPeriodStart_def add_days_now QuotaTotal_def QuotaWeek_def Let_def)

lemma quota_month:
  "quotaPeriodStart (zone off) QuotaMonth now
     = date_in (zone off) (month_first (civil_year (local_day (zone off) now)) (civil_month (local_day (zone off) now))) 0"
  by (simp add: quotaPeriodStart_def QuotaTotal_def QuotaWeek_def QuotaMonth_def Let_def day_number_month)

lemma quota_day:
  "period \<notin> {QuotaTotal, QuotaWeek, QuotaMonth} \<Longrightarrow>
   quotaPeriodStart (zone off) period now = date_in (zone off) (local_day (zone off) now) 0"
  by (simp add: quotaPeriodStart_def)

lemma midnight [simp]: "local_secs (zone off) (date_in (zone off) d 0) mod 86400 = 0"
  by simp

lemma first_civil [simp]: "civil_day (month_first y m) = 1"
  by (rule civil_of_first)

text \<open>
  The quota period computed at an instant contains it: a week starts on a Monday, a month
  on its first day, each at midnight in the panel's zone, and the refill shown to the user is the start
  of the next period. An unknown period counts as the day.
\<close>

theorem quota_period_contains_now:
  assumes "quotaResetsAt (zone off) period now = Some next"
  shows "quotaPeriodStart (zone off) period now \<le> now \<and> now < next \<and>
    local_secs (zone off) (quotaPeriodStart (zone off) period now) mod 86400 = 0 \<and>
    (period = QuotaWeek \<longrightarrow> weekday (local_day (zone off) (quotaPeriodStart (zone off) period now)) = 1) \<and>
    (period = QuotaMonth \<longrightarrow> civil_day (local_day (zone off) (quotaPeriodStart (zone off) period now)) = 1) \<and>
    quotaPeriodStart (zone off) period next = next"
proof -
  define n where "n = local_day (zone off) now"
  have day: "date_in (zone off) n 0 \<le> now" "now < date_in (zone off) (n + 1) 0"
    using now_in_day [of off now] by (simp_all add: n_def)
  consider (week) "period = QuotaWeek" | (month) "period = QuotaMonth"
    | (other) "period \<notin> {QuotaTotal, QuotaWeek, QuotaMonth}"
    using assms by (auto simp: quotaResetsAt_def split: if_splits)
  then show ?thesis
  proof cases
    case week
    define s where "s = n - (weekday n + 6) mod 7"
    have s: "s \<le> n" "n < s + 7" "weekday s = 1" using week_start [of n] by (simp_all add: s_def)
    have q: "quotaPeriodStart (zone off) QuotaWeek now = date_in (zone off) s 0"
      by (simp add: quota_week s_def n_def)
    have nx: "next = date_in (zone off) (s + 7) 0"
      using assms week q by (simp add: quotaResetsAt_def QuotaTotal_def QuotaWeek_def)
    have "date_in (zone off) s 0 \<le> now" using day(1) date_in_le [OF s(1), of 0 off] by simp
    moreover have "now < next" using day(2) s(2) date_in_le [of "n + 1" "s + 7" 0 off] by (simp add: nx)
    moreover have "quotaPeriodStart (zone off) QuotaWeek next = next"
      by (simp add: quota_week nx first_of_week [OF s(3)])
    ultimately show ?thesis using q s(3) week by (simp add: QuotaMonth_def QuotaWeek_def)
  next
    case month
    define y m where "y = civil_year n" and "m = civil_month n"
    have q: "quotaPeriodStart (zone off) QuotaMonth now = date_in (zone off) (month_first y m) 0"
      by (simp add: quota_month y_def m_def n_def)
    have v: "norm_year y m = y" "norm_month m = m"
      using valid_civil_of [of n] by (simp_all add: norm_year_def norm_month_def valid_civil_def y_def m_def)
    have "day_number y (m + 1) 1 = month_first y (m + 1)" by (rule day_number_month)
    then have "add_month (zone off) (date_in (zone off) (month_first y m) 0) 1 = date_in (zone off) (month_first y (m + 1)) 0"
      by (simp add: add_month_def add_date_def civil_of_first v)
    then have nx: "next = date_in (zone off) (month_first y (m + 1)) 0"
      using assms month q by (simp add: quotaResetsAt_def QuotaTotal_def QuotaWeek_def QuotaMonth_def)
    have "month_first (norm_year y (m + 1)) (norm_month (m + 1)) = month_first y (m + 1)"
      using month_first_norm [of y "m + 1" 0] by simp
    then have "quotaPeriodStart (zone off) QuotaMonth next = next"
      by (simp add: quota_month nx civil_of_first)
    then show ?thesis
      using now_in_month [where off = off and now = now] q month nx by (simp add: y_def m_def n_def QuotaMonth_def QuotaWeek_def)
  next
    case other
    have nx: "next = date_in (zone off) (n + 1) 0"
      using assms other quota_day [OF other, of off now] by (simp add: quotaResetsAt_def n_def)
    then show ?thesis using day other nx by (simp add: quota_day n_def)
  qed
qed

lemma quota_period_contains_now_witness:
  "let loc = (\<lambda>_. 28800); now = 1772515800 * second
   in case quotaResetsAt loc QuotaWeek now of None \<Rightarrow> False
      | Some next \<Rightarrow> quotaPeriodStart loc QuotaWeek now \<le> now \<and> now < next"
proof -
  have "quotaResetsAt (\<lambda>_. 28800) QuotaWeek (1772515800 * second) = Some (1772985600 * second)"
    by code_simp
  from quota_period_contains_now [OF this] this show ?thesis by simp
qed

section \<open>Tickets are bounded\<close>

text \<open>The number of urgent runs granted to a user who asks at the given instants.\<close>

fun spend_all :: "location \<Rightarrow> string \<Rightarrow> int \<Rightarrow> int \<Rightarrow> instant list \<Rightarrow> ticketRows \<Rightarrow> int" where
  "spend_all local user allocation periodDays [] rows = 0"
| "spend_all local user allocation periodDays (t # ts) rows =
     (case SpendTicket local user allocation periodDays t rows of
        (granted, left, rows1) \<Rightarrow>
          (if granted then 1 else 0) + spend_all local user allocation periodDays ts rows1)"

text \<open>A stored period start reads back to the second.\<close>

definition stored_at :: "int \<Rightarrow> instant \<Rightarrow> bool" where
  "stored_at off p \<longleftrightarrow> 0 \<le> p \<and> in_years (local_day (zone off) p)"

lemma format_local_nonempty [simp]: "format_local loc t \<noteq> []"
  by (simp add: format_local_def)

lemma ticketRow_stored:
  assumes "rows user = Some (rem, format_local (zone off) p)" "stored_at off p"
  shows "ticketRow (zone off) rows user = (rem, unix_secs p * second)"
  using assms parse_format_local [of "zone off" p] by (simp add: ticketRow_def stored_at_def local_secs_def)

lemma local_day_mono: "p \<le> t \<Longrightarrow> local_day (zone off) p \<le> local_day (zone off) t"
  by (simp add: local_day_def local_secs_def unix_secs_def zdiv_mono1 second_def)

lemma stored_between: "stored_at off p \<Longrightarrow> stored_at off t \<Longrightarrow> p \<le> q \<Longrightarrow> q \<le> t \<Longrightarrow> stored_at off q"
  unfolding stored_at_def
  using in_years_between [of "local_day (zone off) p" "local_day (zone off) t" "local_day (zone off) q"]
    local_day_mono [where off = off and p = p and t = q] local_day_mono [where off = off and p = q and t = t]
  by simp

lemma not_zero [simp]: "0 \<le> p \<Longrightarrow> p \<noteq> zero_time" "0 \<le> p \<Longrightarrow> zero_time \<noteq> p"
  by (simp_all add: zero_time_def second_def)

lemma aligned: "unix_secs (k * second) = k"
  by (simp add: unix_secs_def second_def)

lemma period_width:
  assumes "1 \<le> days" "days \<le> 36500"
  shows "wrap64 (days * hours 24) = days * hours 24" "0 < days * hours 24"
  using assms by (simp_all add: hours_def second_def)

lemma spend_steps:
  assumes "0 \<le> alloc" "1 \<le> days" "days \<le> 36500"
    and row: "rows user = Some (rem, format_local (zone off) (k * second))" "0 \<le> rem" "stored_at off (k * second)"
    and ts: "sorted ts" "\<forall>t\<in>set ts. stored_at off t \<and> k * second \<le> t \<and> t \<le> T" "k * second \<le> T"
  shows "spend_all (zone off) user alloc days ts rows \<le> rem + alloc * ((T - k * second) div (days * hours 24))"
  using row ts
proof (induction ts arbitrary: rows rem k)
  case Nil
  have "0 \<le> (T - k * second) div (days * hours 24)"
    using Nil.prems(6) period_width(2) [OF assms(2,3)] by (simp add: pos_imp_zdiv_nonneg_iff)
  then show ?case using Nil.prems(2) assms(1) by simp
next
  case (Cons t ts)
  define per where "per = days * hours 24"
  have per: "0 < per" "wrap64 (days * hours 24) = per" using period_width [OF assms(2,3)] by (simp_all add: per_def)
  have t: "k * second \<le> t" "t \<le> T" "stored_at off t" using Cons.prems(5) by auto
  have tr: "ticketRow (zone off) rows user = (rem, k * second)"
    using ticketRow_stored [where rows = rows and user = user and off = off, OF Cons.prems(1,3)] by (simp add: aligned)
  have nz: "k * second \<noteq> zero_time" using Cons.prems(3) by (auto simp: stored_at_def)
  define q where "q = (t - k * second) div per"
  have later: "\<forall>u\<in>set ts. stored_at off u \<and> j * second \<le> u \<and> u \<le> T" if "j * second \<le> t" for j
    using Cons.prems(4,5) that by fastforce
  show ?case
  proof (cases "per \<le> t - k * second")
    case False
    then have r: "ticketRefill rem (k * second) alloc days t = (rem, k * second)"
      using t(1) nz per by (simp add: ticketRefill_def)
    show ?thesis
    proof (cases "rem \<le> 0")
      case True
      then have "SpendTicket (zone off) user alloc days t rows
          = (False, 0, rows(user \<mapsto> (rem, format_local (zone off) (k * second))))"
        using tr r nz by (simp add: SpendTicket_def saveTicket_def)
      moreover have "spend_all (zone off) user alloc days ts (rows(user \<mapsto> (rem, format_local (zone off) (k * second))))
          \<le> rem + alloc * ((T - k * second) div (days * hours 24))"
        by (rule Cons.IH) (use Cons.prems later [OF t(1)] in simp_all)
      ultimately show ?thesis by simp
    next
      case False
      then have "SpendTicket (zone off) user alloc days t rows
          = (True, rem - 1, rows(user \<mapsto> (rem - 1, format_local (zone off) (k * second))))"
        using tr r nz by (simp add: SpendTicket_def saveTicket_def)
      moreover have "spend_all (zone off) user alloc days ts (rows(user \<mapsto> (rem - 1, format_local (zone off) (k * second))))
          \<le> rem - 1 + alloc * ((T - k * second) div (days * hours 24))"
        by (rule Cons.IH) (use False Cons.prems later [OF t(1)] in simp_all)
      ultimately show ?thesis by simp
    qed
  next
    case True
    define j where "j = k + q * (days * 86400)"
    have j: "k * second + q * per = j * second"
      by (simp add: j_def per_def hours_def algebra_simps)
    have q1: "1 \<le> q" using True per(1) by (simp add: q_def pos_imp_zdiv_pos_iff int_one_le_iff_zero_less)
    have "q * per \<le> t - k * second"
      using pos_mod_sign [OF per(1), of "t - k * second"] minus_mod_eq_div_mult [of "t - k * second" per]
      unfolding q_def by linarith
    then have jt: "j * second \<le> t" using j by linarith
    have kj: "k * second \<le> j * second" using j q1 per(1) by (smt (verit) mult_pos_pos)
    have sj: "stored_at off (j * second)" using stored_between [OF Cons.prems(3) t(3) kj jt] .
    have quot: "(T - j * second) div per = (T - k * second) div per - q"
    proof -
      have e: "T - k * second = T - j * second + q * per" using j by linarith
      show ?thesis unfolding e using per(1) by simp
    qed
    have r: "ticketRefill rem (k * second) alloc days t = (alloc, j * second)"
      using t(1) nz per True j by (simp add: ticketRefill_def q_def)
    define rem' where "rem' = (if alloc \<le> 0 then alloc else alloc - 1)"
    have sp: "SpendTicket (zone off) user alloc days t rows
        = (0 < alloc, (if alloc \<le> 0 then 0 else alloc - 1), rows(user \<mapsto> (rem', format_local (zone off) (j * second))))"
      using tr r nz by (simp add: SpendTicket_def saveTicket_def rem'_def)
    have "spend_all (zone off) user alloc days ts (rows(user \<mapsto> (rem', format_local (zone off) (j * second))))
        \<le> rem' + alloc * ((T - j * second) div per)"
      unfolding per_def
      by (rule Cons.IH) (use sj assms(1) Cons.prems(4) later [OF jt] jt t(2) in \<open>simp_all add: rem'_def\<close>)
    moreover have "(if 0 < alloc then 1 else 0) + rem' = alloc" by (simp add: rem'_def)
    moreover have "alloc * ((T - j * second) div per) = alloc * ((T - k * second) div per) - alloc * q"
      by (simp add: quot right_diff_distrib)
    moreover have "alloc \<le> alloc * q" using q1 assms(1) by (simp add: mult_le_cancel_left1)
    ultimately show ?thesis using sp Cons.prems(2) by (simp add: per_def)
  qed
qed

lemma spend_none:
  "alloc \<le> 0 \<Longrightarrow> rows user = None \<Longrightarrow> spend_all local user alloc days ts rows = 0"
  by (induction ts) (simp_all add: SpendTicket_def ticketRow_def)

text \<open>
  Urgent tickets are bounded: however often a user asks, the urgent runs granted between the
  first request and a later instant are at most the allocation times the number of periods begun in
  between. Asking early, late or across a refill gains nothing.
\<close>

theorem tickets_bounded:
  assumes "1 \<le> days" "days \<le> 36500" and "rows user = None"
    and "sorted (t # ts)" and "\<forall>u\<in>set (t # ts). stored_at off u \<and> u \<le> T" and "stored_at off (unix_secs t * second)"
  shows "spend_all (zone off) user alloc days (t # ts) rows
     \<le> max 0 alloc * (1 + (T - unix_secs t * second) div (days * hours 24))"
proof (cases "alloc \<le> 0")
  case True
  then show ?thesis using spend_none [of alloc rows user "zone off" days "t # ts"] assms(3) by simp
next
  case False
  define p where "p = unix_secs t * second"
  have pt: "p \<le> t" unfolding p_def unix_secs_def second_def by simp
  let ?rows = "rows(user \<mapsto> (alloc - 1, format_local (zone off) t))"
  have f: "format_local (zone off) t = format_local (zone off) p"
    by (simp add: format_local_def local_day_def local_secs_def p_def aligned)
  have sp: "SpendTicket (zone off) user alloc days t rows = (True, alloc - 1, ?rows)"
    using False assms(3) by (simp add: SpendTicket_def ticketRow_def ticketRefill_def saveTicket_def)
  have "spend_all (zone off) user alloc days ts ?rows \<le> alloc - 1 + alloc * ((T - p) div (days * hours 24))"
    unfolding p_def f [unfolded p_def]
  proof (rule spend_steps)
    show "\<forall>u\<in>set ts. stored_at off u \<and> unix_secs t * second \<le> u \<and> u \<le> T"
      using assms(4,5) pt by (fastforce simp: p_def)
    show "unix_secs t * second \<le> T" using assms(5) pt by (simp add: p_def)
  qed (use False assms in simp_all)
  then show ?thesis using sp False by (simp add: p_def algebra_simps)
qed

lemma demo_days: "in_years 0" "in_years 1"
  by code_simp+

lemma demo_stored: "stored_at 28800 u" if "u \<in> {0, hours 24}"
  using that demo_days
  by (auto simp: stored_at_def local_day_def local_secs_def unix_secs_def second_def hours_def)

lemma tickets_bounded_witness:
  "let ts = [0, hours 24]
   in spend_all (zone 28800) ''ann'' 1 1 ts (\<lambda>_. None) = 2 \<and>
      spend_all (zone 28800) ''ann'' 1 1 ts (\<lambda>_. None) \<le> 1 * (1 + hours 24 div (1 * hours 24))"
proof -
  let ?ts = "[hours 24]"
  let ?row = "[''ann'' \<mapsto> (0, format_local (zone 28800) 0)]"
  have first: "SpendTicket (zone 28800) ''ann'' 1 1 0 (\<lambda>_. None) = (True, 0, ?row)"
    by (simp add: SpendTicket_def ticketRow_def ticketRefill_def saveTicket_def)
  have "ticketRow (zone 28800) ?row ''ann'' = (0, 0)"
    using ticketRow_stored [where rows = ?row and user = "''ann''" and off = 28800 and p = 0 and rem = 0] demo_stored
    by (simp add: unix_secs_def)
  then have "fst (SpendTicket (zone 28800) ''ann'' 1 1 (hours 24) ?row)"
    by (simp add: SpendTicket_def ticketRefill_def hours_def second_def zero_time_def)
  then have two: "spend_all (zone 28800) ''ann'' 1 1 (0 # ?ts) (\<lambda>_. None) = 2"
    by (auto simp: first split: prod.splits)
  have s: "sorted (0 # ?ts)" by (simp add: second_def hours_def)
  have u: "\<forall>u\<in>set (0 # ?ts). stored_at 28800 u \<and> u \<le> hours 24"
    using demo_stored by (auto simp: second_def hours_def)
  have z: "unix_secs 0 * second = 0" by (simp add: unix_secs_def)
  have "stored_at 28800 (unix_secs 0 * second)" using demo_stored z by simp
  from tickets_bounded [where alloc = 1 and days = 1 and rows = "\<lambda>_. None" and user = "''ann''", OF _ _ _ s u this] z
  have "spend_all (zone 28800) ''ann'' 1 1 (0 # ?ts) (\<lambda>_. None) \<le> 1 * (1 + hours 24 div (1 * hours 24))"
    by simp
  then show ?thesis using two by simp
qed

section \<open>The repeated hour\<close>

text \<open>
  A period that starts in the hour a zone repeats when its summer time ends is stored as a wall clock
  and read back an hour late. Until then the period start lies in the future, which the refill takes for
  a first use: every request of that hour is granted, whatever the allocation.
\<close>

definition autumn :: location where
  "autumn u = (if u < 1792890000 then 7200 else 3600)"

lemma autumn_stored: "format_local autumn (1792888200 * second) = ''2026-10-25 02:30:00''"
  by code_simp

lemma autumn_reads: "parse_local autumn ''2026-10-25 02:30:00'' = Some (1792891800 * second)"
  by code_simp

lemma repeated_hour_refills:
  "let t = 1792888200 * second; (granted1, left1, rows1) = SpendTicket autumn ''ann'' 1 7 t (\<lambda>_. None)
   in granted1 \<and> left1 = 0 \<and> fst (SpendTicket autumn ''ann'' 1 7 (t + 60 * second) rows1)"
proof -
  have "ticketRow autumn [''ann'' \<mapsto> (0, ''2026-10-25 02:30:00'')] ''ann'' = (0, 1792891800 * second)"
    by (simp add: ticketRow_def autumn_reads)
  moreover have "format_local autumn 1792888200000000000 = ''2026-10-25 02:30:00''"
    using autumn_stored by (simp add: second_def)
  ultimately show ?thesis
    by (simp add: SpendTicket_def ticketRow_def [of _ "\<lambda>_. None"] ticketRefill_def saveTicket_def second_def)
qed

end
