(* ===== verification/Run_Submit.thy ===== *)
theory Run_Submit
  imports Run_Tickets Report_Owner
begin

text \<open>
  The run requests of the portal (internal/app/batch_api.go): submitting a job through the gates of the
  caller's unit, cancelling, retrying, reprioritizing, rescheduling and deleting jobs and rows, and the
  summary of the queue; the stored presets a submit names (run_preset.go) and the base priority of a user
  (batch_run.go). A handler is a function of the tables; its answer is a sum of the refusal, with its
  status code and message, and the accepted value. Marshalling a row's inputs, reading a target's config
  and the parsed plugin manifests are arguments.
\<close>

section \<open>Stored presets\<close>

record RunPreset =
  rn_ID :: int
  rn_Label :: string
  rn_Freq :: string
  rn_Intervals :: "presetInterval list"
  rn_OnOverrun :: string
  rn_Enabled :: bool
  rn_Invert :: bool
  rn_Ord :: int

definition ListRunPresets :: "RunPreset list \<Rightarrow> RunPreset list" where
  "ListRunPresets rows = sort_key (\<lambda>p. (rn_Ord p, rn_ID p)) rows"

definition GetRunPreset :: "RunPreset list \<Rightarrow> int \<Rightarrow> RunPreset option" where
  "GetRunPreset rows pid = find (\<lambda>p. rn_ID p = pid) rows"

definition CreateRunPreset :: "int \<Rightarrow> RunPreset \<Rightarrow> RunPreset list \<Rightarrow> RunPreset list" where
  "CreateRunPreset fresh p rows = rows @ [p\<lparr>rn_ID := fresh\<rparr>]"

definition UpdateRunPreset :: "RunPreset \<Rightarrow> RunPreset list \<Rightarrow> RunPreset list" where
  "UpdateRunPreset p = update_where (\<lambda>q. rn_ID q = rn_ID p) (\<lambda>q. p\<lparr>rn_Ord := rn_Ord q\<rparr>)"

definition DeleteRunPreset :: "int \<Rightarrow> RunPreset list \<Rightarrow> RunPreset list" where
  "DeleteRunPreset pid rows = filter (\<lambda>p. rn_ID p \<noteq> pid) rows"

definition ReorderRunPresets :: "int list \<Rightarrow> RunPreset list \<Rightarrow> RunPreset list" where
  "ReorderRunPresets ids rows =
     fold (\<lambda>(i, pid). update_where (\<lambda>p. rn_ID p = pid) (\<lambda>p. p\<lparr>rn_Ord := int i\<rparr>)) (enumerate 0 ids) rows"

record presetInput =
  pn_Label :: string
  pn_Freq :: string
  pn_Intervals :: "presetInterval list"
  pn_OnOverrun :: string
  pn_Enabled :: bool
  pn_Invert :: bool

definition normalizePreset :: "instant \<Rightarrow> presetInput \<Rightarrow> RunPreset option" where
  "normalizePreset now inp =
     (if pn_Intervals inp = [] \<or>
         list_ex (\<lambda>iv. nextInterval (pn_Freq inp) (pi_Start iv) (pi_Stop iv) now (\<lambda>_. 0) = None) (pn_Intervals inp)
      then None
      else Some \<lparr>rn_ID = 0, rn_Label = pn_Label inp, rn_Freq = pn_Freq inp, rn_Intervals = pn_Intervals inp,
                 rn_OnOverrun = (if pn_OnOverrun inp \<in> {''continue'', ''next'', ''cancel''} then pn_OnOverrun inp
                                 else ''next''),
                 rn_Enabled = pn_Enabled inp, rn_Invert = pn_Invert inp, rn_Ord = 0\<rparr>)"

type_synonym refusal = "nat \<times> string"

definition apiRunPresetCreate ::
  "instant \<Rightarrow> int \<Rightarrow> presetInput \<Rightarrow> RunPreset list \<Rightarrow> refusal + RunPreset list" where
  "apiRunPresetCreate now fresh inp rows =
     (case normalizePreset now inp of
        None \<Rightarrow> Inl (400, ''invalid preset window'')
      | Some p \<Rightarrow> Inr (CreateRunPreset fresh p rows))"

definition apiRunPresetUpdate ::
  "instant \<Rightarrow> int \<Rightarrow> presetInput \<Rightarrow> RunPreset list \<Rightarrow> refusal + RunPreset list" where
  "apiRunPresetUpdate now pid inp rows =
     (case normalizePreset now inp of
        None \<Rightarrow> Inl (400, ''invalid preset window'')
      | Some p \<Rightarrow> Inr (UpdateRunPreset (p\<lparr>rn_ID := pid\<rparr>) rows))"

section \<open>The caller\<close>

definition isAdmin :: "accessDb \<Rightarrow> string \<Rightarrow> bool" where
  "isAdmin adb user =
     (case find_user (db_users adb) user of None \<Rightarrow> False | Some u \<Rightarrow> can (us_role u) PermManage)"

definition resolveBasePriority :: "schedEnv \<Rightarrow> accessDb \<Rightarrow> string \<Rightarrow> int" where
  "resolveBasePriority env adb user =
     (case loadOUPolicySubject (db_users adb) (db_groups adb) user of
        Inl _ \<Rightarrow> runDefaultPriority env
      | Inr (sub, snap) \<Rightarrow>
          if sb_AssignedOU sub = 0 \<or> sb_AssignedOU sub = g_defaultID (sn_graph snap) then runDefaultPriority env
          else (case pv_priority (values_of snap (sb_AssignedOU sub)) of
                  None \<Rightarrow> runDefaultPriority env
                | Some p \<Rightarrow>
                    if p = [] then runDefaultPriority env
                    else (case parsePriority p of
                            (b, urgent, idle) \<Rightarrow> if urgent then runDefaultPriority env else b)))"

text \<open>The caller's window; an unreadable policy is closed.\<close>

definition runWindowOpenAt :: "accessDb \<Rightarrow> string \<Rightarrow> int \<Rightarrow> bool" where
  "runWindowOpenAt adb user hour =
     (case EffectiveGroupSettingsErr (db_users adb) (db_groups adb) user of
        Inl _ \<Rightarrow> False
      | Inr gs \<Rightarrow> window_open_at (gs_RunWindow gs) hour)"

section \<open>Submitting\<close>

record portal =
  po_access :: accessDb
  po_targets :: targetDb
  po_reports :: reportDb
  po_batch :: batchDb
  po_tickets :: ticketRows
  po_presets :: "RunPreset list"
  po_plugins :: "string \<rightharpoonup> (string + Manifest)"

record submitEnv =
  se_sched :: schedEnv
  se_field :: "string \<Rightarrow> string \<Rightarrow> string"
  se_marshal :: "(string \<rightharpoonup> string) \<Rightarrow> string"
  se_fresh :: "int \<times> int"

record submitIn =
  si_TargetID :: int
  si_Concurrency :: int
  si_MaxRetries :: int
  si_Priority :: string
  si_RunAt :: string
  si_PresetID :: int
  si_Rows :: "(string \<rightharpoonup> string) list"
  si_Surface :: string

record created =
  ca_JobID :: int
  ca_Concurrency :: int
  ca_Priority :: string
  ca_Downgraded :: bool
  ca_RunAt :: string

datatype submitAnswer = Refused nat string | Reused int string | Created created

text \<open>The base priority and the stored one; only an administrator may set a number.\<close>

definition submit_priority :: "schedEnv \<Rightarrow> accessDb \<Rightarrow> string \<Rightarrow> string \<Rightarrow> int \<times> string" where
  "submit_priority env adb user p =
     (let base = resolveBasePriority env adb user
      in if p = [] then (base, itoa base)
         else case parsePriority p of
           (b, urgent, idle) \<Rightarrow>
             if urgent then (base, ''urgent'') else if idle then (base, ''idle'')
             else if isAdmin adb user then (b, itoa b) else (base, itoa base))"

definition normalizeRunAt :: "location \<Rightarrow> string \<Rightarrow> string option" where
  "normalizeRunAt local v =
     (case parse_local local v of
        Some t \<Rightarrow> Some (format_local local t)
      | None \<Rightarrow> map_option (format_local local) (parse_rfc3339 v))"

definition submit_schedule :: "schedEnv \<Rightarrow> RunPreset list \<Rightarrow> submitIn \<Rightarrow> string + string \<times> presetCol" where
  "submit_schedule env presets inp =
     (if si_PresetID inp \<noteq> 0
      then (case GetRunPreset presets (si_PresetID inp) of
              None \<Rightarrow> Inl ''unknown or disabled preset''
            | Some p \<Rightarrow>
                if \<not> rn_Enabled p then Inl ''unknown or disabled preset''
                else (case resolvePresetWindow (rn_Freq p) (rn_Intervals p) (rn_OnOverrun p) (rn_Invert p) (sv_now env)
                             (sv_panel env) (sv_local env) of
                        None \<Rightarrow> Inl ''preset window is misconfigured''
                      | Some w \<Rightarrow> Inr w))
      else if si_RunAt inp \<noteq> []
      then (case normalizeRunAt (sv_local env) (si_RunAt inp) of
              None \<Rightarrow> Inl ''bad run_at''
            | Some t \<Rightarrow> Inr (t, NoPreset))
      else Inr ([], NoPreset))"

text \<open>The panel hour a submitted job is held to: that of its schedule, or of now.\<close>

definition effective_hour :: "schedEnv \<Rightarrow> string \<Rightarrow> int" where
  "effective_hour env runAt =
     local_hour (sv_panel env)
       (if runAt = [] then sv_now env
        else case parse_local (sv_local env) runAt of None \<Rightarrow> sv_now env | Some t \<Rightarrow> t)"

definition submit_surface :: "string \<Rightarrow> string" where
  "submit_surface surface = (if surface = [] then SurfaceRun else surface)"

definition panelToday :: "schedEnv \<Rightarrow> string" where
  "panelToday env = format_date (local_day (sv_panel env) (sv_now env))"

text \<open>The gates of a caller who is no administrator, before the same-day reuse.\<close>

definition submit_gate :: "schedEnv \<Rightarrow> portal \<Rightarrow> string \<Rightarrow> submitIn \<Rightarrow> string \<Rightarrow> refusal option" where
  "submit_gate env po user inp runAt =
     (case EffectiveGroupSettingsErr (db_users (po_access po)) (db_groups (po_access po)) user of
        Inl _ \<Rightarrow> Some (503, ''ou_policy_unavailable'')
      | Inr policy \<Rightarrow>
          if \<not> runWindowOpenAt (po_access po) user (effective_hour env runAt)
          then Some (403, ''runs are only allowed during '' @ gs_RunWindow policy @ '':00 (panel time)'')
          else if 0 < gs_MaxQueued policy \<and> gs_MaxQueued policy \<le> ActiveJobCount (po_batch po) user
          then Some (409, ''you already have the maximum number of active runs; wait for one to finish'')
          else if \<not> runAllowed (po_access po) (po_targets po) user (si_TargetID inp) (submit_surface (si_Surface inp))
          then Some (403, ''this workflow is not available to your group'')
          else None)"

text \<open>The target and, unless it is a Dify one, its plugin's manifest.\<close>

definition difyPluginSlug :: string where [go_const]: "difyPluginSlug = ''dify''"

definition submit_target :: "portal \<Rightarrow> int \<Rightarrow> refusal + BatchTarget" where
  "submit_target po tid =
     (case GetTarget (po_targets po) tid of
        None \<Rightarrow> Inl (404, ''target not found'')
      | Some t \<Rightarrow>
          if bt_PluginSlug t = difyPluginSlug then Inr t
          else (case po_plugins po (bt_PluginSlug t) of
                  None \<Rightarrow> Inl (400, ''target's plugin is missing'')
                | Some spec \<Rightarrow>
                    (case Compile spec of
                       Inl e \<Rightarrow> Inl (400, ''target's plugin manifest is invalid: '' @ e)
                     | Inr _ \<Rightarrow> Inr t)))"

text \<open>The three statements that store a job, in their order.\<close>

definition store_window :: "int \<Rightarrow> string \<Rightarrow> presetCol \<Rightarrow> batchDb \<Rightarrow> batchDb" where
  "store_window jobID runAt runPreset db =
     (if runPreset \<noteq> NoPreset then SetJobWindow jobID runAt runPreset db
      else if runAt \<noteq> [] then ScheduleJob jobID runAt db else db)"

definition submit_store ::
  "submitEnv \<Rightarrow> portal \<Rightarrow> string \<Rightarrow> submitIn \<Rightarrow> (string \<rightharpoonup> string) list \<Rightarrow> int \<times> string \<Rightarrow> string \<times> presetCol \<Rightarrow>
   submitAnswer \<times> portal" where
  "submit_store env po user inp rows prio sched =
     (let conc = clampConcurrency (se_sched env) (si_Concurrency inp);
          maxRetries = (if si_MaxRetries inp < 0 then 0 else si_MaxRetries inp)
      in case urgentAllowed (se_sched env) (po_access po) user (snd prio) (fst prio) (po_tickets po) of
        (priority, downgraded, tickets) \<Rightarrow>
          (case CreateBatchJob (nowStr (se_sched env)) (se_fresh env) (si_TargetID inp) conc maxRetries user
                  (map (se_marshal env) rows) priority (po_batch po) of
             Inl e \<Rightarrow> (Refused 500 e, po\<lparr>po_tickets := tickets\<rparr>)
           | Inr (jobID, db) \<Rightarrow>
               (Created \<lparr>ca_JobID = jobID, ca_Concurrency = conc, ca_Priority = priority,
                         ca_Downgraded = downgraded, ca_RunAt = fst sched\<rparr>,
                po\<lparr>po_tickets := tickets, po_batch := store_window jobID (fst sched) (snd sched) db\<rparr>)))"

definition drop_reserved :: "(string \<rightharpoonup> string) \<Rightarrow> (string \<rightharpoonup> string)" where
  "drop_reserved row = (\<lambda>k. if isReservedInput k then None else row k)"

text \<open>The handler up to the scheduler's tick: its answer and the tables.\<close>

definition submit_job :: "submitEnv \<Rightarrow> string \<Rightarrow> submitIn \<Rightarrow> portal \<Rightarrow> submitAnswer \<times> portal" where
  "submit_job env user inp po =
     (let sv = se_sched env; prio = submit_priority sv (po_access po) user (si_Priority inp);
          rows = map drop_reserved (si_Rows inp);
          place = (\<lambda>po sched. case submit_target po (si_TargetID inp) of
                     Inl (code, msg) \<Rightarrow> (Refused code msg, po)
                   | Inr _ \<Rightarrow> submit_store env po user inp rows prio sched)
      in if si_Rows inp = [] then (Refused 400 ''no rows to run'', po)
         else case submit_schedule sv (po_presets po) inp of
           Inl msg \<Rightarrow> (Refused 400 msg, po)
         | Inr sched \<Rightarrow>
             if isAdmin (po_access po) user then place po sched
             else case submit_gate sv po user inp (fst sched) of
               Some (code, msg) \<Rightarrow> (Refused code msg, po)
             | None \<Rightarrow>
                 (case reuseSameDayReport (se_field env) (panelToday sv) user (si_TargetID inp) rows (po_targets po)
                         (po_access po) (po_reports po) of
                    (found, adb, rdb) \<Rightarrow>
                      (let po1 = po\<lparr>po_access := adb, po_reports := rdb\<rparr>
                       in case found of
                         Some (rid, key) \<Rightarrow> (Reused rid key, po1)
                       | None \<Rightarrow>
                           (case runQuotaCheck sv adb (po_batch po) user (int (length rows)) of
                              (limit, used, ok) \<Rightarrow>
                                if \<not> ok then (Refused 429 ''quota_exceeded'', po1) else place po1 sched))))"

definition apiBatchJobCreate ::
  "submitEnv \<Rightarrow> string \<Rightarrow> submitIn \<Rightarrow> portal \<Rightarrow> submitAnswer \<times> (BatchJob \<times> BatchItem) list \<times> portal" where
  "apiBatchJobCreate env user inp po =
     (case submit_job env user inp po of
        (Created c, po1) \<Rightarrow>
          (case scheduleTick (se_sched env) (po_batch po1) of
             (started, fin, db) \<Rightarrow> (Created c, started, po1\<lparr>po_batch := db\<rparr>))
      | (answer, po1) \<Rightarrow> (answer, [], po1))"

section \<open>Acting on a job\<close>

text \<open>A job of somebody else answers as one that does not exist.\<close>

definition ownedBatchJob :: "accessDb \<Rightarrow> batchDb \<Rightarrow> int \<Rightarrow> string \<Rightarrow> refusal + BatchJob" where
  "ownedBatchJob adb db jid user =
     (case GetBatchJob db jid of
        None \<Rightarrow> Inl (404, ''job not found'')
      | Some job \<Rightarrow>
          if \<not> isAdmin adb user \<and> bj_CreatedBy job \<noteq> user then Inl (404, ''job not found'') else Inr job)"

definition finalizeJob :: "schedEnv \<Rightarrow> int \<Rightarrow> batchDb \<Rightarrow> batchDb" where
  "finalizeJob env jid db = snd (finalizeLocked env jid db)"

text \<open>What a handler asks the executing runs to abort: all runs of a job, or one row's.\<close>

datatype abort = AbortJob int | AbortItem int

definition apiBatchJobCancel ::
  "schedEnv \<Rightarrow> accessDb \<Rightarrow> string \<Rightarrow> int \<Rightarrow> batchDb \<Rightarrow> (refusal + abort list) \<times> batchDb" where
  "apiBatchJobCancel env adb user jid db =
     (case ownedBatchJob adb db jid user of
        Inl e \<Rightarrow> (Inl e, db)
      | Inr job \<Rightarrow> (Inr [AbortJob jid], finalizeJob env jid (CancelBatchJob (nowStr env) jid db)))"

text \<open>One row of a selection: the rows cancelled so far, the runs aborted and the tables.\<close>

definition cancel_row :: "schedEnv \<Rightarrow> int \<Rightarrow> int \<Rightarrow> int \<times> abort list \<times> batchDb \<Rightarrow> int \<times> abort list \<times> batchDb" where
  "cancel_row env jid iid = (\<lambda>(n, aborts, db).
     case ItemJobAndStatus db iid of
       None \<Rightarrow> (n, aborts, db)
     | Some (owner, status) \<Rightarrow>
         if owner \<noteq> jid then (n, aborts, db)
         else if status = ''queued''
         then (case CancelQueuedItem (nowStr env) iid db of (won, db1) \<Rightarrow> (if won then n + 1 else n, aborts, db1))
         else if status = ''running'' then (n + 1, aborts @ [AbortItem iid], db)
         else (n, aborts, db))"

definition apiBatchItemsCancel ::
  "schedEnv \<Rightarrow> accessDb \<Rightarrow> string \<Rightarrow> int \<Rightarrow> int list \<Rightarrow> batchDb \<Rightarrow> (refusal + int \<times> abort list) \<times> batchDb" where
  "apiBatchItemsCancel env adb user jid ids db =
     (case ownedBatchJob adb db jid user of
        Inl e \<Rightarrow> (Inl e, db)
      | Inr job \<Rightarrow>
          (case fold (cancel_row env jid) ids (0, [], db) of
             (n, aborts, db1) \<Rightarrow> (Inr (n, aborts), finalizeJob env jid db1)))"

definition apiBatchJobRetry ::
  "schedEnv \<Rightarrow> int \<Rightarrow> string list \<Rightarrow> batchDb \<Rightarrow> int \<times> (BatchJob \<times> BatchItem) list \<times> batchDb" where
  "apiBatchJobRetry env jid statuses db =
     (case RequeueItems jid statuses db of
        (n, db1) \<Rightarrow> (case scheduleTick env db1 of (started, fin, db2) \<Rightarrow> (n, started, db2)))"

definition apiBatchJobReprioritize ::
  "schedEnv \<Rightarrow> int \<Rightarrow> string \<Rightarrow> batchDb \<Rightarrow> (refusal + string) \<times> (BatchJob \<times> BatchItem) list \<times> batchDb" where
  "apiBatchJobReprioritize env jid priority db =
     (case normalizePriorityInput priority of
        None \<Rightarrow> (Inl (400, ''bad priority''), [], db)
      | Some stored \<Rightarrow>
          (case scheduleTick env (SetJobPriority jid stored db) of
             (started, fin, db1) \<Rightarrow> (Inr stored, started, db1)))"

definition apiBatchJobDelete :: "int \<Rightarrow> batchDb \<Rightarrow> refusal + batchDb" where
  "apiBatchJobDelete jid db =
     (case GetBatchJob db jid of
        None \<Rightarrow> Inl (404, ''job not found'')
      | Some job \<Rightarrow>
          if bj_Status job \<noteq> ''finished'' \<and> bj_Status job \<noteq> ''cancelled''
          then Inl (409, ''cancel the job before deleting it'') else Inr (DeleteBatchJob jid db))"

definition apiBatchJobSchedule ::
  "schedEnv \<Rightarrow> int \<Rightarrow> string \<Rightarrow> batchDb \<Rightarrow> (refusal + string) \<times> (BatchJob \<times> BatchItem) list \<times> batchDb" where
  "apiBatchJobSchedule env jid runAt db =
     (case GetBatchJob db jid of
        None \<Rightarrow> (Inl (404, ''job not found''), [], db)
      | Some job \<Rightarrow>
          if bj_Status job \<noteq> ''queued'' then (Inl (409, ''only a queued job can be rescheduled''), [], db)
          else (case (if runAt = [] then Some [] else normalizeRunAt (sv_local env) runAt) of
                  None \<Rightarrow> (Inl (400, ''bad run_at''), [], db)
                | Some t \<Rightarrow>
                    (case scheduleTick env (SetJobWindow jid t NoPreset db) of
                       (started, fin, db1) \<Rightarrow> (Inr t, started, db1))))"

text \<open>
  Settling one row by its stored handle. \<open>live\<close> are the rows executing in this process; the provider's
  answer is \<open>reconcile\<close>.
\<close>

datatype reconciled =
    NoProvider string
  | CannotReconcile
  | StillRunning
  | ReconcileFailed string
  | Settled Outcome string string

definition apiBatchItemReconcile ::
  "schedEnv \<Rightarrow> int list \<Rightarrow> (BatchJob \<Rightarrow> string \<Rightarrow> string \<Rightarrow> reconciled) \<Rightarrow> int \<Rightarrow> batchDb \<Rightarrow>
   (refusal + string) \<times> (BatchJob \<times> BatchItem) list \<times> batchDb" where
  "apiBatchItemReconcile env live reconcile iid db =
     (case ItemReconcileRef db iid of
        None \<Rightarrow> (Inl (404, ''item not found''), [], db)
      | Some i \<Rightarrow>
          if bi_RunID i = [] \<and> bi_ConvID i = []
          then (Inl (400, ''no dify run or conversation id to reconcile''), [], db)
          else if iid \<in> set live \<and> bi_Status i = ''running''
          then (Inl (409, ''item is running here; it reconciles itself on drop''), [], db)
          else (case GetBatchJob db (bi_JobID i) of
                  None \<Rightarrow> (Inl (404, ''job not found''), [], db)
                | Some job \<Rightarrow>
                    (case reconcile job (bi_RunID i) (bi_ConvID i) of
                       NoProvider e \<Rightarrow> (Inl (500, e), [], db)
                     | CannotReconcile \<Rightarrow> (Inl (400, ''this target's provider cannot reconcile''), [], db)
                     | StillRunning \<Rightarrow> (Inr ''running'', [], db)
                     | ReconcileFailed e \<Rightarrow> (Inl (502, ''reconcile: '' @ e), [], db)
                     | Settled st runID detail \<Rightarrow>
                         (case scheduleTick env (finalizeJob env (bi_JobID i)
                                 (FinishItem (nowStr env) iid st 1 runID detail db)) of
                            (started, fin, db1) \<Rightarrow> (Inr (itemStatus st), started, db1)))))"

section \<open>Reading the queue\<close>

definition jobWindowBlocked :: "schedEnv \<Rightarrow> BatchJob \<Rightarrow> int \<Rightarrow> int \<Rightarrow> bool" where
  "jobWindowBlocked env j queuedRows runningRows \<longleftrightarrow>
     invertBlocksNow (bj_RunPreset j) (sv_now env) (sv_panel env) \<and>
     (bj_Status j = ''queued'' \<or> (bj_Status j = ''running'' \<and> 0 < queuedRows \<and> runningRows = 0))"

definition jobSurface :: "BatchJob \<Rightarrow> (int \<Rightarrow> string) \<Rightarrow> string" where
  "jobSurface j recorded =
     (if recorded (bj_ID j) \<in> {SurfaceRun, SurfaceBatch, SurfaceRecurring} then recorded (bj_ID j)
      else if 1 < bj_Total j then SurfaceBatch else SurfaceRun)"

definition queueOwner :: "accessDb \<Rightarrow> bool \<Rightarrow> string \<Rightarrow> string" where
  "queueOwner adb mine user = (if \<not> isAdmin adb user \<or> mine then user else [])"

definition RunningItemCountOf :: "batchDb \<Rightarrow> string \<Rightarrow> int" where
  "RunningItemCountOf db owner =
     (if owner \<noteq> []
      then count_items (\<lambda>i. bi_Status i = ''running'' \<and>
             list_ex (\<lambda>j. bj_ID j = bi_JobID i \<and> bj_CreatedBy j = owner) (db_jobs db)) db
      else RunningItemCount db)"

definition CountFinishedOn :: "batchDb \<Rightarrow> string \<Rightarrow> string \<Rightarrow> int" where
  "CountFinishedOn db day owner =
     int (length (filter (\<lambda>j. bj_Status j \<in> {''finished'', ''cancelled''} \<and> has_prefix (bj_FinishedAt j) day \<and>
            (owner = [] \<or> bj_CreatedBy j = owner)) (db_jobs db)))"

record queueSummary =
  qs_waiting :: int
  qs_running :: int
  qs_runningRows :: int
  qs_queueRunningRows :: int
  qs_queueWaiting :: int
  qs_scheduled :: int
  qs_budget :: int
  qs_reserved :: int
  qs_myPriority :: int
  qs_doneToday :: int

definition apiBatchQueue :: "schedEnv \<Rightarrow> accessDb \<Rightarrow> bool \<Rightarrow> string \<Rightarrow> batchDb \<Rightarrow> queueSummary" where
  "apiBatchQueue env adb mine user db =
     (let owner = queueOwner adb mine user;
          jobs = filter (\<lambda>j. owner = [] \<or> bj_CreatedBy j = owner) (SchedulableJobs db);
          blocks = (\<lambda>j. invertBlocksNow (bj_RunPreset j) (sv_now env) (sv_panel env));
          deferred = filter (\<lambda>j. bj_Status j = ''queued'' \<and>
                       (\<not> runAtDue (sv_local env) (bj_RunAt j) (sv_now env) \<or> blocks j)) jobs;
          parked = filter (\<lambda>j. bj_Status j = ''running'' \<and> runningItems db j = 0 \<and> 0 < liveItems db j \<and> blocks j) jobs;
          running = RunningJobCount db owner - int (length parked);
          queued = queuedItems env db;
          own = map bj_ID (filter (\<lambda>j. bj_CreatedBy j = owner) (QueuedJobs db))
      in \<lparr>qs_waiting = (if owner = [] then int (length queued)
                        else int (length (filter (\<lambda>it. it_ID it \<in> set own) queued))),
          qs_running = (if running < 0 then 0 else running), qs_runningRows = RunningItemCountOf db owner,
          qs_queueRunningRows = RunningItemCountOf db [], qs_queueWaiting = int (length queued),
          qs_scheduled = int (length deferred) + int (length parked), qs_budget = batchBudget env,
          qs_reserved = batchReserved env, qs_myPriority = resolveBasePriority env adb user,
          qs_doneToday = CountFinishedOn db (format_date (local_day (sv_local env) (sv_now env))) owner\<rparr>)"

text \<open>The caller's quota as the run form shows it: the limit, the runs used and those remaining.\<close>

definition apiRunQuota :: "schedEnv \<Rightarrow> accessDb \<Rightarrow> batchDb \<Rightarrow> string \<Rightarrow> (int \<times> int \<times> int) option" where
  "apiRunQuota env adb db user =
     (case runQuotaCheck env adb db user 0 of
        (limit, used, ok) \<Rightarrow>
          if limit \<le> 0 then None
          else Some (limit, used, if limit - used < 0 then 0 else limit - used))"

text \<open>The ticket balance, and whether the urgent lane is open; an unlimited user has none.\<close>

definition apiBatchTickets ::
  "schedEnv \<Rightarrow> accessDb \<Rightarrow> string \<Rightarrow> ticketRows \<Rightarrow> (bool \<times> (int \<times> int) option) \<times> ticketRows" where
  "apiBatchTickets env adb user rows =
     (if UserUrgentUnlimited adb user then ((urgentEnabled env, None), rows)
      else (let alloc = UserTicketAllocation adb user
            in case TicketStatus (sv_local env) user alloc (ticketPeriodDays env) (sv_now env) rows of
                 (remaining, rows1) \<Rightarrow> ((urgentEnabled env, Some (remaining, alloc)), rows1)))"

section \<open>What a stored submit went through\<close>

lemma reuse_tables:
  assumes "reuseSameDayReport field day user tid rows tdb adb rdb = (found, adb', rdb')"
  shows "db_users adb' = db_users adb" "db_groups adb' = db_groups adb" "found = None \<Longrightarrow> rdb' = rdb"
  using assms
  by (auto simp: reuseSameDayReport_def Let_def dest: resolveVersion_tables
      split: option.splits if_splits prod.splits)

lemma isAdmin_users: "db_users adb' = db_users adb \<Longrightarrow> isAdmin adb' user = isAdmin adb user"
  by (simp add: isAdmin_def)

text \<open>Where a submit stands when the job is about to be stored.\<close>

definition passed_gates :: "submitEnv \<Rightarrow> string \<Rightarrow> submitIn \<Rightarrow> portal \<Rightarrow> portal \<Rightarrow> string \<times> presetCol \<Rightarrow> bool" where
  "passed_gates env user inp po po1 sched \<longleftrightarrow>
     po_batch po1 = po_batch po \<and> po_tickets po1 = po_tickets po \<and> po_targets po1 = po_targets po \<and>
     db_users (po_access po1) = db_users (po_access po) \<and> db_groups (po_access po1) = db_groups (po_access po) \<and>
     si_Rows inp \<noteq> [] \<and> submit_schedule (se_sched env) (po_presets po) inp = Inr sched \<and>
     (isAdmin (po_access po) user \<or>
      submit_gate (se_sched env) po user inp (fst sched) = None \<and>
      snd (snd (runQuotaCheck (se_sched env) (po_access po1) (po_batch po) user (int (length (si_Rows inp))))))"

lemma submit_createdE:
  assumes "submit_job env user inp po = (Created c, po')"
  obtains po1 sched where "passed_gates env user inp po po1 sched"
    "submit_store env po1 user inp (map drop_reserved (si_Rows inp))
       (submit_priority (se_sched env) (po_access po) user (si_Priority inp)) sched = (Created c, po')"
proof -
  obtain sched where s: "si_Rows inp \<noteq> []" "submit_schedule (se_sched env) (po_presets po) inp = Inr sched"
    using assms by (auto simp: submit_job_def Let_def split: if_splits sum.splits)
  show ?thesis
  proof (cases "isAdmin (po_access po) user")
    case True
    then show ?thesis using assms s
      by (intro that [of po sched])
         (auto simp: submit_job_def passed_gates_def Let_def split: sum.splits)
  next
    case False
    obtain found adb rdb where r: "reuseSameDayReport (se_field env) (panelToday (se_sched env)) user (si_TargetID inp)
        (map drop_reserved (si_Rows inp)) (po_targets po) (po_access po) (po_reports po) = (found, adb, rdb)"
      by (metis prod_cases3)
    show ?thesis using assms s False r reuse_tables [OF r]
      by (intro that [of "po\<lparr>po_access := adb, po_reports := rdb\<rparr>" sched])
         (auto simp: submit_job_def passed_gates_def Let_def split: sum.splits option.splits prod.splits if_splits)
  qed
qed

lemma clampConcurrency_bounds: "1 \<le> clampConcurrency env n \<and> clampConcurrency env n \<le> batchMaxConcurrency env"
  by (auto simp: clampConcurrency_def batchMaxConcurrency_def setting_int_def Let_def split: option.splits)

lemma store_window_new:
  assumes "jid \<notin> bj_ID ` set (db_jobs db)" and "bj_ID j = jid"
  shows "\<exists>runAt preset. store_window jid t p (db\<lparr>db_jobs := db_jobs db @ [j], db_items := is\<rparr>)
    = db\<lparr>db_jobs := db_jobs db @ [j\<lparr>bj_RunAt := runAt, bj_RunPreset := preset\<rparr>], db_items := is\<rparr>"
proof -
  have old: "update_where (\<lambda>k. bj_ID k = jid) f (db_jobs db) = db_jobs db" for f
    using assms(1) by (intro update_where_none) auto
  have app: "update_where P f (xs @ ys) = update_where P f xs @ update_where P f ys" for P f and xs ys :: "BatchJob list"
    by (simp add: update_where_def)
  have one: "update_where (\<lambda>k. bj_ID k = jid) f [j] = [f j]" for f using assms(2) by (simp add: update_where_def)
  consider "p \<noteq> NoPreset" | "p = NoPreset" "t \<noteq> []" | "p = NoPreset" "t = []" by blast
  then show ?thesis
  proof cases
    case 1
    then show ?thesis
      by (intro exI [of _ t] exI [of _ p]) (simp add: store_window_def SetJobWindow_def upd_jobs_def old app one)
  next
    case 2
    then show ?thesis
      by (intro exI [of _ t] exI [of _ "bj_RunPreset j"])
         (simp add: store_window_def ScheduleJob_def upd_jobs_def old app one)
  next
    case 3
    then show ?thesis
      by (intro exI [of _ "bj_RunAt j"] exI [of _ "bj_RunPreset j"]) (simp add: store_window_def)
  qed
qed

text \<open>The limits of the caller's unit as they were when the job was accepted.\<close>

definition within_limits :: "submitEnv \<Rightarrow> string \<Rightarrow> submitIn \<Rightarrow> portal \<Rightarrow> accessDb \<Rightarrow> string \<Rightarrow> GroupSettings \<Rightarrow> bool" where
  "within_limits env user inp po adb runAt gs \<longleftrightarrow>
     window_open_at (gs_RunWindow gs) (effective_hour (se_sched env) runAt) \<and>
     (gs_MaxQueued gs \<le> 0 \<or> ActiveJobCount (po_batch po) user < gs_MaxQueued gs) \<and>
     runAllowed (po_access po) (po_targets po) user (si_TargetID inp) (submit_surface (si_Surface inp)) \<and>
     (viewerScope adb user = None \<or> gs_DailyRunQuota gs \<le> 0 \<or>
      RunsToday adb (po_batch po) user (since_string (sv_local (se_sched env))
          (quotaPeriodStart (sv_panel (se_sched env)) (gs_QuotaPeriod gs) (sv_now (se_sched env))))
        + int (length (si_Rows inp)) \<le> gs_DailyRunQuota gs)"

lemma gates_limits:
  assumes "passed_gates env user inp po po1 sched" and "\<not> isAdmin (po_access po) user"
  shows "\<exists>gs. EffectiveGroupSettingsErr (db_users (po_access po)) (db_groups (po_access po)) user = Inr gs \<and>
    within_limits env user inp po (po_access po1) (fst sched) gs"
proof -
  obtain gs where gs: "EffectiveGroupSettingsErr (db_users (po_access po)) (db_groups (po_access po)) user = Inr gs"
    using assms by (auto simp: passed_gates_def submit_gate_def split: sum.splits)
  then show ?thesis using assms
    by (auto simp: passed_gates_def submit_gate_def runWindowOpenAt_def within_limits_def runQuotaCheck_def
        Let_def not_less not_le split: if_splits)
qed

lemma submit_priority_open:
  assumes "\<not> isAdmin adb user"
  shows "submit_priority env adb user p = (resolveBasePriority env adb user, snd (submit_priority env adb user p)) \<and>
    snd (submit_priority env adb user p) \<in> {''urgent'', ''idle'', itoa (resolveBasePriority env adb user)}"
  using assms by (auto simp: submit_priority_def Let_def split: prod.splits)

lemma lane_names: "atoi ''urgent'' = None" "atoi ''idle'' = None" "trim_space ''urgent'' = ''urgent''"
  "trim_space ''idle'' = ''idle''"
  by code_simp+

lemma clampBase_bounds: "0 \<le> clampBase n \<and> clampBase n \<le> 100"
  by (simp add: clampBase_def baseMax_def)

lemma parsePriority_base: "0 \<le> fst (parsePriority p) \<and> fst (parsePriority p) \<le> 100"
  using clampBase_bounds by (auto simp: parsePriority_def Let_def split: option.splits)

lemma resolveBasePriority_bounds: "0 \<le> resolveBasePriority env adb user \<and> resolveBasePriority env adb user \<le> 100"
  using parsePriority_base
  by (auto simp: resolveBasePriority_def runDefaultPriority_def split: sum.splits option.splits prod.splits)
     (metis fst_conv)+

lemma itoa_base: "0 \<le> n \<Longrightarrow> n \<le> 100 \<Longrightarrow> atoi (itoa n) = Some n"
  by simp

lemma itoa_no_lane: "0 \<le> n \<Longrightarrow> n \<le> 100 \<Longrightarrow> itoa n \<noteq> ''urgent'' \<and> itoa n \<noteq> ''idle'' \<and> itoa n \<noteq> []"
  using itoa_base [of n] lane_names by (metis itoa_def list.discI nat_digits_read option.distinct(1))

lemma submit_priority_cases:
  "0 \<le> fst (submit_priority env adb user p) \<and> fst (submit_priority env adb user p) \<le> 100 \<and>
   snd (submit_priority env adb user p) \<in> {''urgent'', ''idle'', itoa (fst (submit_priority env adb user p))}"
  using resolveBasePriority_bounds [of env adb user] parsePriority_base [of p]
  by (auto simp: submit_priority_def Let_def split: prod.splits)

text \<open>An urgent run was allowed by the unit, and by the lane; a lowered one has its base priority.\<close>

lemma urgentAllowed_cases:
  assumes "urgentAllowed env adb user stored base rows = (priority, downgraded, rows1)" and "0 \<le> base" "base \<le> 100"
  shows "(priority = stored \<or> priority = itoa base \<and> stored = ''urgent'') \<and>
    (priority = ''urgent'' \<longrightarrow> urgentEnabled env \<and>
       (\<exists>gs. EffectiveGroupSettingsErr (db_users adb) (db_groups adb) user = Inr gs \<and> gs_AllowUrgent gs))"
  using assms itoa_no_lane [of base]
  by (auto simp: urgentAllowed_def split: if_splits sum.splits prod.splits)

text \<open>A job as a submit of n rows with the given base priority may store it.\<close>

definition stored_job :: "schedEnv \<Rightarrow> accessDb \<Rightarrow> string \<Rightarrow> int \<Rightarrow> int \<Rightarrow> BatchJob \<Rightarrow> bool" where
  "stored_job env adb user n base j \<longleftrightarrow>
     bj_Status j = ''queued'' \<and> bj_CreatedBy j = user \<and> bj_Total j = n \<and> n \<le> maxBatchRows \<and>
     1 \<le> bj_Concurrency j \<and> bj_Concurrency j \<le> batchMaxConcurrency env \<and> 0 \<le> bj_MaxRetries j \<and>
     bj_Priority j \<in> {''urgent'', ''idle'', itoa base} \<and>
     (bj_Priority j = ''urgent'' \<longrightarrow> urgentEnabled env \<and>
       (\<exists>gs. EffectiveGroupSettingsErr (db_users adb) (db_groups adb) user = Inr gs \<and> gs_AllowUrgent gs))"

lemma submit_store_created:
  assumes st: "submit_store env po user inp rows prio sched = (Created c, po')"
    and fresh: "fst (se_fresh env) \<notin> bj_ID ` set (db_jobs (po_batch po))"
    and prio: "0 \<le> fst prio" "fst prio \<le> 100" "snd prio \<in> {''urgent'', ''idle'', itoa (fst prio)}"
  shows "\<exists>j. db_jobs (po_batch po') = db_jobs (po_batch po) @ [j] \<and> bj_ID j = ca_JobID c \<and>
      stored_job (se_sched env) (po_access po) user (int (length rows)) (fst prio) j"
    and "db_items (po_batch po') = db_items (po_batch po) @
           new_items (snd (se_fresh env)) (ca_JobID c) 0 (map (se_marshal env) rows)"
    and "ca_RunAt c = fst sched" "po_access po' = po_access po"
proof -
  let ?sv = "se_sched env"
  obtain priority downgraded tickets where u:
    "urgentAllowed ?sv (po_access po) user (snd prio) (fst prio) (po_tickets po) = (priority, downgraded, tickets)"
    by (metis prod_cases3)
  note uc = urgentAllowed_cases [OF u prio(1,2)]
  have pc: "priority \<in> {''urgent'', ''idle'', itoa (fst prio)}" "priority \<noteq> []"
    using uc prio itoa_no_lane [OF prio(1,2)] by auto
  obtain jobID db where cb: "CreateBatchJob (nowStr ?sv) (se_fresh env) (si_TargetID inp)
      (clampConcurrency ?sv (si_Concurrency inp)) (if si_MaxRetries inp < 0 then 0 else si_MaxRetries inp) user
      (map (se_marshal env) rows) priority (po_batch po) = Inr (jobID, db)"
    and c: "c = \<lparr>ca_JobID = jobID, ca_Concurrency = clampConcurrency ?sv (si_Concurrency inp), ca_Priority = priority,
      ca_Downgraded = downgraded, ca_RunAt = fst sched\<rparr>"
    and po': "po' = po\<lparr>po_tickets := tickets, po_batch := store_window jobID (fst sched) (snd sched) db\<rparr>"
    using st u by (auto simp: submit_store_def Let_def split: sum.splits)
  define j where "j = \<lparr>bj_ID = fst (se_fresh env), bj_TargetID = si_TargetID inp, bj_Status = ''queued'',
      bj_Priority = priority, bj_Concurrency = clampConcurrency ?sv (si_Concurrency inp),
      bj_MaxRetries = (if si_MaxRetries inp < 0 then 0 else si_MaxRetries inp), bj_Total = int (length rows),
      bj_Succeeded = 0, bj_Partial = 0, bj_Failed = 0, bj_CreatedBy = user, bj_CreatedAt = nowStr ?sv,
      bj_StartedAt = [], bj_FinishedAt = [], bj_RunAt = [], bj_RunPreset = NoPreset\<rparr>"
  define its where "its = db_items (po_batch po) @ new_items (snd (se_fresh env)) (fst (se_fresh env)) 0 (map (se_marshal env) rows)"
  have e: "jobID = fst (se_fresh env)" "db = (po_batch po)\<lparr>db_jobs := db_jobs (po_batch po) @ [j], db_items := its\<rparr>"
    "int (length rows) \<le> maxBatchRows"
    using cb pc(2) by (auto simp: CreateBatchJob_def Let_def j_def its_def split: if_splits)
  have jid: "bj_ID j = fst (se_fresh env)" by (simp add: j_def)
  from store_window_new [OF fresh jid, of "fst sched" "snd sched" its]
  obtain runAt preset where w: "store_window jobID (fst sched) (snd sched) db = (po_batch po)\<lparr>db_jobs :=
      db_jobs (po_batch po) @ [j\<lparr>bj_RunAt := runAt, bj_RunPreset := preset\<rparr>], db_items := its\<rparr>"
    using e by auto
  show "\<exists>j. db_jobs (po_batch po') = db_jobs (po_batch po) @ [j] \<and> bj_ID j = ca_JobID c \<and>
      stored_job (se_sched env) (po_access po) user (int (length rows)) (fst prio) j"
    using po' w c e pc uc by (intro exI [of _ "j\<lparr>bj_RunAt := runAt, bj_RunPreset := preset\<rparr>"]) (simp add: j_def stored_job_def clampConcurrency_bounds)
  show "db_items (po_batch po') = db_items (po_batch po) @
           new_items (snd (se_fresh env)) (ca_JobID c) 0 (map (se_marshal env) rows)"
    using po' w c e by (simp add: its_def)
  show "ca_RunAt c = fst sched" "po_access po' = po_access po" using po' c by simp_all
qed

section \<open>Submits\<close>

text \<open>
  Property C5. A submitted job was allowed: it is appended to the queue with its rows free of reserved
  inputs, its concurrency within the administrator's cap and an urgent priority only where the lane and
  the unit allow one. For a caller who is no administrator the unit's policy was readable, the effective
  hour of the run lay in its window, the caller had a free slot among the active runs, the target was
  granted on the surface and the rows fit into the run quota, and the priority is not one of his choice.
\<close>

theorem submit_respects_limits:
  assumes "submit_job env user inp po = (Created c, po')"
    and "fst (se_fresh env) \<notin> bj_ID ` set (db_jobs (po_batch po))"
  shows "(\<exists>j base. db_jobs (po_batch po') = db_jobs (po_batch po) @ [j] \<and> bj_ID j = ca_JobID c \<and>
      stored_job (se_sched env) (po_access po) user (int (length (si_Rows inp))) base j \<and> 1 \<le> bj_Total j \<and>
      (isAdmin (po_access po) user \<or> base = resolveBasePriority (se_sched env) (po_access po) user)) \<and>
    db_items (po_batch po') = db_items (po_batch po) @
      new_items (snd (se_fresh env)) (ca_JobID c) 0 (map (se_marshal env \<circ> drop_reserved) (si_Rows inp)) \<and>
    (isAdmin (po_access po) user \<or>
      (\<exists>gs. EffectiveGroupSettingsErr (db_users (po_access po)) (db_groups (po_access po)) user = Inr gs \<and>
         within_limits env user inp po (po_access po') (ca_RunAt c) gs))"
proof -
  let ?prio = "submit_priority (se_sched env) (po_access po) user (si_Priority inp)"
  obtain po1 sched where g: "passed_gates env user inp po po1 sched"
    and st: "submit_store env po1 user inp (map drop_reserved (si_Rows inp)) ?prio sched = (Created c, po')"
    using submit_createdE [OF assms(1)] .
  have same: "po_batch po1 = po_batch po" "db_users (po_access po1) = db_users (po_access po)"
    "db_groups (po_access po1) = db_groups (po_access po)" "si_Rows inp \<noteq> []"
    using g by (simp_all add: passed_gates_def)
  note pc = submit_priority_cases [where env = "se_sched env" and adb = "po_access po" and user = user and p = "si_Priority inp"]
  have fr: "fst (se_fresh env) \<notin> bj_ID ` set (db_jobs (po_batch po1))" using assms(2) same by simp
  note stored = submit_store_created [OF st fr pc [THEN conjunct1] pc [THEN conjunct2, THEN conjunct1]
      pc [THEN conjunct2, THEN conjunct2]]
  obtain j where j: "db_jobs (po_batch po') = db_jobs (po_batch po) @ [j]" "bj_ID j = ca_JobID c"
    "stored_job (se_sched env) (po_access po) user (int (length (si_Rows inp))) (fst ?prio) j"
    using stored(1) same by (auto simp: stored_job_def)
  have "isAdmin (po_access po) user \<or> fst ?prio = resolveBasePriority (se_sched env) (po_access po) user"
    using submit_priority_open by (metis fst_conv)
  moreover have "1 \<le> bj_Total j" using j(3) same(4) by (cases "si_Rows inp") (simp_all add: stored_job_def)
  moreover have "isAdmin (po_access po) user \<or>
      (\<exists>gs. EffectiveGroupSettingsErr (db_users (po_access po)) (db_groups (po_access po)) user = Inr gs \<and>
         within_limits env user inp po (po_access po') (ca_RunAt c) gs)"
    using gates_limits [OF g] stored(3,4) by auto
  ultimately show ?thesis using j stored(2) same(1) by auto
qed

lemma unsuccessful_submit_keeps:
  assumes "submit_job env user inp po = (answer, po')" and "\<forall>c. answer \<noteq> Created c"
  shows "po_batch po' = po_batch po \<and> po_targets po' = po_targets po \<and> po_presets po' = po_presets po \<and>
    ((\<exists>e. answer = Refused 500 e) \<or> po_tickets po' = po_tickets po) \<and>
    ((\<exists>rid key. answer = Reused rid key) \<or> po_reports po' = po_reports po)"
proof -
  have store: "po_batch q' = po_batch q \<and> po_targets q' = po_targets q \<and> po_presets q' = po_presets q \<and>
      po_reports q' = po_reports q \<and> (\<exists>e. answer = Refused 500 e)"
    if "submit_store env q user inp rows prio sched = (answer, q')" for q q' rows prio sched
    using that assms(2) by (auto simp: submit_store_def Let_def split: prod.splits sum.splits)
  obtain found adb rdb where r: "reuseSameDayReport (se_field env) (panelToday (se_sched env)) user (si_TargetID inp)
        (map drop_reserved (si_Rows inp)) (po_targets po) (po_access po) (po_reports po) = (found, adb, rdb)"
    by (metis prod_cases3)
  show ?thesis
    using assms(1) r reuse_tables(3) [OF r]
    by (auto simp: submit_job_def Let_def dest!: store
        split: if_splits sum.splits option.splits prod.splits)
qed

text \<open>
  A submit that stores no job costs nothing: the queue is as before, no ticket is spent
  unless storing itself failed, and a report is shared only when it is the answer.
\<close>

theorem unsuccessful_submit_costs_nothing:
  assumes "submit_job env user inp po = (answer, po')" and "\<forall>c. answer \<noteq> Created c"
  shows "po_batch po' = po_batch po \<and> po_targets po' = po_targets po \<and> po_presets po' = po_presets po \<and>
    ((\<exists>e. answer = Refused 500 e) \<or> po_tickets po' = po_tickets po) \<and>
    ((\<exists>rid key. answer = Reused rid key) \<or> po_reports po' = po_reports po)"
  using assms by (rule unsuccessful_submit_keeps)

section \<open>A concrete portal\<close>

text \<open>Noon in the panel's zone; the reader's unit runs at night only.\<close>

definition demo_sched :: "schedEnv" where
  "demo_sched = \<lparr>sv_now = 1772515800 * second, sv_panel = (\<lambda>_. 28800), sv_local = (\<lambda>_. 28800),
     sv_settings = (\<lambda>_. None), sv_float = (\<lambda>_. None), sv_exp2 = (\<lambda>_. 1)\<rparr>"

definition demo_submit_env :: submitEnv where
  "demo_submit_env = \<lparr>se_sched = demo_sched, se_field = demo_field, se_marshal = (\<lambda>_. ''{}''), se_fresh = (1, 1)\<rparr>"

definition demo_night :: accessDb where
  "demo_night = demo_access\<lparr>db_groups :=
     map (\<lambda>(u, n, v). (u, n, if u = 4 then v\<lparr>pv_runWindow := Some ''22-6''\<rparr> else v)) (db_groups demo_access)\<rparr>"

definition demo_portal :: "accessDb \<Rightarrow> portal" where
  "demo_portal adb = \<lparr>po_access = adb, po_targets = demo_targets, po_reports = demo_reports,
     po_batch = \<lparr>db_jobs = [], db_items = []\<rparr>, po_tickets = (\<lambda>_. None), po_presets = [], po_plugins = (\<lambda>_. None)\<rparr>"

definition demo_submit :: "string \<Rightarrow> submitIn" where
  "demo_submit runAt = \<lparr>si_TargetID = 9, si_Concurrency = 3, si_MaxRetries = 0, si_Priority = [],
     si_RunAt = runAt, si_PresetID = 0, si_Rows = [[''code'' \<mapsto> ''600519'']], si_Surface = []\<rparr>"

lemma demo_window_closed:
  "fst (submit_job demo_submit_env ''ann'' (demo_submit []) (demo_portal demo_night))
     = Refused 403 ''runs are only allowed during 22-6:00 (panel time)''"
  by code_simp

lemma demo_past_schedule:
  "fst (submit_job demo_submit_env ''ann'' (demo_submit ''2026-03-02 23:00:00'') (demo_portal demo_night))
     = Created \<lparr>ca_JobID = 1, ca_Concurrency = 3, ca_Priority = ''50'', ca_Downgraded = False,
                ca_RunAt = ''2026-03-02 23:00:00''\<rparr>"
  by code_simp

lemma demo_submit_accepted:
  "fst (submit_job demo_submit_env ''ann'' (demo_submit []) (demo_portal demo_access))
     = Created \<lparr>ca_JobID = 1, ca_Concurrency = 3, ca_Priority = ''50'', ca_Downgraded = False, ca_RunAt = []\<rparr>"
  by code_simp

text \<open>
  A submit that leaves out the schedule is refused outside the unit's window; the same submit with a
  start in the past, at an hour inside the window, is accepted and due at once.
\<close>

theorem past_run_at_escapes_window:
  "fst (submit_job demo_submit_env ''ann'' (demo_submit []) (demo_portal demo_night))
     = Refused 403 ''runs are only allowed during 22-6:00 (panel time)'' \<and>
   (\<exists>c. fst (submit_job demo_submit_env ''ann'' (demo_submit ''2026-03-02 23:00:00'') (demo_portal demo_night)) = Created c \<and>
      runAtDue (sv_local demo_sched) (ca_RunAt c) (sv_now demo_sched))"
proof -
  have "runAtDue (sv_local demo_sched) ''2026-03-02 23:00:00'' (sv_now demo_sched)" by code_simp
  then show ?thesis by (simp add: demo_window_closed demo_past_schedule)
qed

lemma submit_respects_limits_witness:
  "\<exists>gs (po' :: portal). EffectiveGroupSettingsErr (db_users demo_access) (db_groups demo_access) ''ann'' = Inr gs \<and>
     within_limits demo_submit_env ''ann'' (demo_submit []) (demo_portal demo_access) (po_access po') [] gs"
proof -
  obtain po' where s: "submit_job demo_submit_env ''ann'' (demo_submit []) (demo_portal demo_access)
     = (Created \<lparr>ca_JobID = 1, ca_Concurrency = 3, ca_Priority = ''50'', ca_Downgraded = False, ca_RunAt = []\<rparr>, po')"
    using demo_submit_accepted by (metis prod.collapse)
  have "fst (se_fresh demo_submit_env) \<notin> bj_ID ` set (db_jobs (po_batch (demo_portal demo_access)))"
    by (simp add: demo_portal_def)
  from submit_respects_limits [OF s this] have l: "isAdmin demo_access ''ann'' \<or>
      (\<exists>gs. EffectiveGroupSettingsErr (db_users demo_access) (db_groups demo_access) ''ann'' = Inr gs \<and>
         within_limits demo_submit_env ''ann'' (demo_submit []) (demo_portal demo_access) (po_access po') [] gs)"
    by (simp add: demo_portal_def)
  have "\<not> isAdmin demo_access ''ann''" by code_simp
  then show ?thesis using l by blast
qed

lemma unsuccessful_submit_costs_nothing_witness:
  "\<exists>po' :: portal. fst (submit_job demo_submit_env ''ann'' (demo_submit []) (demo_portal demo_night))
       = Refused 403 ''runs are only allowed during 22-6:00 (panel time)'' \<and>
     snd (submit_job demo_submit_env ''ann'' (demo_submit []) (demo_portal demo_night)) = po' \<and>
     po_batch po' = \<lparr>db_jobs = [], db_items = []\<rparr>"
proof -
  obtain po' where s: "submit_job demo_submit_env ''ann'' (demo_submit []) (demo_portal demo_night)
     = (Refused 403 ''runs are only allowed during 22-6:00 (panel time)'', po')"
    using demo_window_closed by (metis prod.collapse)
  from unsuccessful_submit_costs_nothing [OF s] show ?thesis
    using s by (simp add: demo_portal_def)
qed

section \<open>Stored presets resolve and keep their order\<close>

lemma windowAt_anywhere:
  "windowAt loc now freq start stop = None \<Longrightarrow> windowAt loc' now' freq start stop = None"
  by (auto simp: windowAt_def split: option.splits if_splits)

lemma nextInterval_valid:
  "nextInterval freq start stop now (zone off) \<noteq> None \<longleftrightarrow> windowAt (zone off) now freq start stop \<noteq> None"
proof (cases "windowAt (zone off) now freq start stop")
  case None
  then show ?thesis by (simp add: nextInterval_def)
next
  case (Some at)
  then show ?thesis by (metis nextInterval_recurs option.distinct(1))
qed

lemma nextWindow_best: "nextWindow freq ivs now loc (Some b) \<noteq> None"
  by (induction ivs arbitrary: b) (auto split: option.splits prod.splits)

lemma nextWindow_found:
  "iv \<in> set ivs \<Longrightarrow> nextInterval freq (pi_Start iv) (pi_Stop iv) now loc \<noteq> None \<Longrightarrow>
   nextWindow freq ivs now loc best \<noteq> None"
proof (induction ivs arbitrary: best)
  case (Cons i ivs)
  then show ?case using nextWindow_best [of freq ivs now loc]
    by (auto split: option.splits prod.splits)
qed simp

text \<open>
  A preset the editor accepted resolves whenever it is used: it was checked at one instant in
  UTC, and a submit that names it finds a window at every later instant, in every zone of a fixed
  offset, so the answer "preset window is misconfigured" never follows an accepted preset.
\<close>

theorem accepted_preset_resolves:
  assumes "normalizePreset now inp = Some p"
  shows "resolvePresetWindow (rn_Freq p) (rn_Intervals p) (rn_OnOverrun p) (rn_Invert p) later (\<lambda>_. off) local \<noteq> None"
proof -
  have v: "pn_Intervals inp \<noteq> []"
    "\<forall>iv\<in>set (pn_Intervals inp). nextInterval (pn_Freq inp) (pi_Start iv) (pi_Stop iv) now (\<lambda>_. 0) \<noteq> None"
    and p: "rn_Freq p = pn_Freq inp" "rn_Intervals p = pn_Intervals inp"
    using assms by (auto simp: normalizePreset_def list_ex_iff split: if_splits)
  obtain iv where iv: "iv \<in> set (pn_Intervals inp)" using v(1) by (cases "pn_Intervals inp") auto
  have "windowAt (\<lambda>_. off) later (pn_Freq inp) (pi_Start iv) (pi_Stop iv) \<noteq> None"
    using v(2) iv nextInterval_valid windowAt_anywhere by metis
  then have "nextInterval (pn_Freq inp) (pi_Start iv) (pi_Stop iv) later (\<lambda>_. off) \<noteq> None"
    using nextInterval_valid by metis
  then show ?thesis using nextWindow_found [OF iv] p
    by (auto simp: resolvePresetWindow_def Let_def split: option.splits)
qed

definition demo_preset :: presetInput where
  "demo_preset = \<lparr>pn_Label = ''night'', pn_Freq = ''daily'', pn_Intervals =
     [\<lparr>pi_Start = demo_anchor ''22:00'', pi_Stop = demo_anchor ''6:30''\<rparr>], pn_OnOverrun = ''later'',
     pn_Enabled = True, pn_Invert = False\<rparr>"

lemma demo_preset_accepted: "\<exists>p. normalizePreset 1700000000000000000 demo_preset = Some p \<and> rn_OnOverrun p = ''next''"
proof -
  have "nextInterval ''daily'' (demo_anchor ''22:00'') (demo_anchor ''6:30'') 1700000000000000000 (\<lambda>_. 0) \<noteq> None"
    using nextInterval_valid demo_windows windowAt_anywhere by (metis option.distinct(1))
  then show ?thesis by (simp add: normalizePreset_def demo_preset_def)
qed

lemma accepted_preset_resolves_witness:
  "\<exists>p. normalizePreset 1700000000000000000 demo_preset = Some p \<and>
     resolvePresetWindow (rn_Freq p) (rn_Intervals p) (rn_OnOverrun p) (rn_Invert p) 1800000000000000000 (\<lambda>_. 28800)
       (\<lambda>_. 28800) \<noteq> None"
  using demo_preset_accepted accepted_preset_resolves by metis

lemma fold_orders:
  "distinct (map snd es) \<Longrightarrow>
   fold (\<lambda>(i, pid). update_where (\<lambda>p. rn_ID p = pid) (\<lambda>p. p\<lparr>rn_Ord := int i\<rparr>)) es rows
     = map (\<lambda>p. case map_of (map prod.swap es) (rn_ID p) of None \<Rightarrow> p | Some i \<Rightarrow> p\<lparr>rn_Ord := int i\<rparr>) rows"
proof (induction es arbitrary: rows)
  case (Cons e es)
  obtain i pid where e: "e = (i, pid)" by (cases e)
  have none: "map_of (map prod.swap es) pid = None"
    using Cons.prems e by (auto simp: map_of_eq_None_iff image_iff)
  show ?case using Cons e none by (auto simp: update_where_def)
qed simp

definition place_of :: "int list \<Rightarrow> int \<Rightarrow> nat" where
  "place_of ids x = (case map_of (zip ids [0..<length ids]) x of None \<Rightarrow> 0 | Some i \<Rightarrow> i)"

lemma place_of_nth: "distinct ids \<Longrightarrow> i < length ids \<Longrightarrow> place_of ids (ids ! i) = i"
  by (simp add: place_of_def map_of_zip_nth)

lemma reordered:
  assumes "distinct ids" "rn_ID ` set rows \<subseteq> set ids"
  shows "ReorderRunPresets ids rows = map (\<lambda>p. p\<lparr>rn_Ord := int (place_of ids (rn_ID p))\<rparr>) rows"
proof -
  have z: "map prod.swap (enumerate 0 ids) = zip ids [0..<length ids]"
    by (subst zip_commute) (auto simp: enumerate_eq_zip)
  have place: "map_of (zip ids [0..<length ids]) (rn_ID p) = Some (place_of ids (rn_ID p))" if "p \<in> set rows" for p
  proof -
    have "map_of (zip ids [0..<length ids]) (rn_ID p) \<noteq> None" using assms(2) that by (auto simp: map_of_zip_is_None)
    then obtain i where "map_of (zip ids [0..<length ids]) (rn_ID p) = Some i" by blast
    then show ?thesis by (simp add: place_of_def)
  qed
  have "distinct (map snd (enumerate 0 ids))" using assms(1) by simp
  then have "ReorderRunPresets ids rows = map (\<lambda>p. case map_of (zip ids [0..<length ids]) (rn_ID p) of
      None \<Rightarrow> p | Some i \<Rightarrow> p\<lparr>rn_Ord := int i\<rparr>) rows"
    unfolding ReorderRunPresets_def z [symmetric] by (rule fold_orders)
  then show ?thesis by (simp add: place)
qed

text \<open>
  Dragging the presets into an order shows them in that order: when the request names every
  preset once, the list answers exactly the ids of the request.
\<close>

theorem reorder_lists_in_order:
  assumes "distinct (map rn_ID rows)" and "distinct ids" and "set ids = rn_ID ` set rows"
  shows "map rn_ID (ListRunPresets (ReorderRunPresets ids rows)) = ids"
proof -
  define R where "R = ReorderRunPresets ids rows"
  define L where "L = ListRunPresets R"
  have R: "R = map (\<lambda>p. p\<lparr>rn_Ord := int (place_of ids (rn_ID p))\<rparr>) rows"
    using reordered [OF assms(2)] assms(3) by (simp add: R_def)
  have LR: "mset L = mset R" by (simp add: L_def ListRunPresets_def)
  have places: "map (place_of ids) ids = [0..<length ids]"
    by (rule nth_equalityI) (simp_all add: place_of_nth [OF assms(2)])
  have idset: "mset (map rn_ID rows) = mset ids"
    using set_eq_iff_mset_eq_distinct [OF assms(1,2)] assms(3) by simp
  have "mset (map rn_Ord R) = image_mset (int \<circ> place_of ids) (mset (map rn_ID rows))"
    by (simp add: R image_mset.compositionality comp_def)
  also have "\<dots> = mset (map int (map (place_of ids) ids))" unfolding idset by simp
  finally have "mset (map rn_Ord L) = mset (map int [0..<length ids])" using LR places by (metis mset_map)
  moreover have "sorted (map rn_Ord L)"
  proof -
    have "sorted (map (\<lambda>p. (rn_Ord p, rn_ID p)) L)" by (simp add: L_def ListRunPresets_def)
    then show ?thesis unfolding sorted_map by (rule sorted_wrt_mono_rel [rotated]) auto
  qed
  moreover have "sorted (map int [0..<length ids])" by (simp add: sorted_map)
  ultimately have ord: "map rn_Ord L = map int [0..<length ids]" by (metis properties_for_sort)
  have "rn_ID p = ids ! nat (rn_Ord p)" if "p \<in> set L" for p
  proof -
    have "p \<in> set R" using LR that by (metis set_mset_mset)
    then obtain q where q: "q \<in> set rows" "p = q\<lparr>rn_Ord := int (place_of ids (rn_ID q))\<rparr>" using R by auto
    then obtain i where "i < length ids" "ids ! i = rn_ID q" using assms(3) by (metis imageI in_set_conv_nth)
    then show ?thesis using q(2) place_of_nth [OF assms(2)] by fastforce
  qed
  then have "map rn_ID L = map (\<lambda>x. ids ! nat x) (map rn_Ord L)" by simp
  also have "\<dots> = ids" unfolding ord by (simp add: o_def map_nth)
  finally show ?thesis by (simp add: L_def R_def)
qed

definition demo_stored :: "int \<Rightarrow> RunPreset" where
  "demo_stored pid = \<lparr>rn_ID = pid, rn_Label = [], rn_Freq = ''daily'', rn_Intervals = [], rn_OnOverrun = ''next'',
     rn_Enabled = True, rn_Invert = False, rn_Ord = 0\<rparr>"

lemma reorder_lists_in_order_witness:
  "map rn_ID (ListRunPresets (ReorderRunPresets [3, 1, 2] (map demo_stored [1, 2, 3]))) = [3, 1, 2]"
  by (rule reorder_lists_in_order) (auto simp: demo_stored_def)

text \<open>A preset added after a drag is listed first beside the one dragged to the top, before all others.\<close>

theorem fresh_preset_not_last:
  "map rn_ID (ListRunPresets (CreateRunPreset 4 (demo_stored 0)
     (ReorderRunPresets [3, 1, 2] (map demo_stored [1, 2, 3])))) = [3, 4, 1, 2]"
  by code_simp

end
