(* ===== verification/Dify_Run.thy ===== *)
theory Dify_Run
  imports Batch_Engine
begin

text \<open>
  The Dify provider (internal/dify/stream.go, chat.go, internal/app/dify_provider.go): reading the
  event stream of a run, deciding its outcome, and polling a run whose stream was lost. What Dify and
  the network do is the argument \<open>difyCall\<close> of a run: the answer to the POST with the lines the scanner
  yields and the read error it ends with, whether the job's context was cancelled by the end of the
  stream, the answers to the status polls, how many polls fit in the reconcile window, and the answer
  to the one message lookup. \<open>decode\<close> is \<open>json.Unmarshal\<close> into an envelope. Effects on the portal's
  store are the list of callbacks the provider makes, in order. The outputs of a run are not used by
  the batch engine and left out.
\<close>

section \<open>The event stream (stream.go)\<close>

datatype difyErr = APIError int string | is_ErrStreamEnded: ErrStreamEnded string | OtherError string

record difyResult =
  dr_WorkflowRunID :: string
  dr_ConversationID :: string
  dr_TaskID :: string
  dr_Status :: string
  dr_Error :: string
  dr_Raw :: string

definition no_result :: difyResult where
  "no_result = \<lparr>dr_WorkflowRunID = [], dr_ConversationID = [], dr_TaskID = [], dr_Status = [],
     dr_Error = [], dr_Raw = []\<rparr>"

record streamEnvelope =
  se_Event :: string
  se_TaskID :: string
  se_WorkflowRunID :: string
  se_ConversationID :: string
  se_Message :: string
  se_Title :: string
  se_Index :: int
  se_Status :: string
  se_Error :: string

record StreamEvent =
  ev_Event :: string
  ev_TaskID :: string
  ev_RunID :: string
  ev_ConvID :: string
  ev_Title :: string
  ev_Index :: int
  ev_Status :: string

definition EventStreamOpen :: string where [go_const]: "EventStreamOpen = ''stream_open''"

definition open_event :: StreamEvent where
  "open_event = \<lparr>ev_Event = EventStreamOpen, ev_TaskID = [], ev_RunID = [], ev_ConvID = [],
     ev_Title = [], ev_Index = 0, ev_Status = []\<rparr>"

datatype streamResp = NoResponse string | Refused int string | Opened "string list" "string option"

definition firstNonEmpty :: "string \<Rightarrow> string \<Rightarrow> string" where
  "firstNonEmpty a b = (if a \<noteq> [] then a else b)"

definition frame_of :: "(string \<Rightarrow> streamEnvelope option) \<Rightarrow> string \<Rightarrow> (streamEnvelope \<times> string) option" where
  "frame_of decode line =
     (if \<not> has_prefix line ''data:'' then None
      else let payload = trim_space (drop 5 line)
           in if payload = [] then None else map_option (\<lambda>ev. (ev, payload)) (decode payload))"

record streamState =
  ss_res :: difyResult
  ss_runID :: string
  ss_taskID :: string
  ss_convID :: string
  ss_done :: bool
  ss_events :: "StreamEvent list"

definition stream_start :: streamState where
  "stream_start = \<lparr>ss_res = no_result, ss_runID = [], ss_taskID = [], ss_convID = [], ss_done = False,
     ss_events = [open_event]\<rparr>"

text \<open>The ids a frame carries, and the progress event forwarded for it; only chat apps have a conversation.\<close>

definition capture :: "bool \<Rightarrow> streamEnvelope \<Rightarrow> streamState \<Rightarrow> streamState" where
  "capture chat ev st =
     (let runID = firstNonEmpty (se_WorkflowRunID ev) (ss_runID st);
          taskID = firstNonEmpty (se_TaskID ev) (ss_taskID st);
          convID = (if chat then firstNonEmpty (se_ConversationID ev) (ss_convID st) else ss_convID st)
      in st\<lparr>ss_runID := runID, ss_taskID := taskID, ss_convID := convID,
            ss_events := ss_events st @ [\<lparr>ev_Event = se_Event ev, ev_TaskID = taskID, ev_RunID = runID,
              ev_ConvID = convID, ev_Title = se_Title ev, ev_Index = se_Index ev, ev_Status = se_Status ev\<rparr>]\<rparr>)"

definition result_now :: "streamState \<Rightarrow> string \<Rightarrow> string \<Rightarrow> string \<Rightarrow> difyResult" where
  "result_now st status err payload =
     \<lparr>dr_WorkflowRunID = ss_runID st, dr_ConversationID = ss_convID st, dr_TaskID = ss_taskID st,
      dr_Status = status, dr_Error = err, dr_Raw = payload\<rparr>"

definition finish_with :: "difyResult \<Rightarrow> streamState \<Rightarrow> streamState" where
  "finish_with r st = st\<lparr>ss_res := r, ss_done := True\<rparr>"

definition workflow_event :: "streamEnvelope \<Rightarrow> string \<Rightarrow> streamState \<Rightarrow> streamState" where
  "workflow_event ev payload st =
     (if se_Event ev = ''workflow_finished''
      then finish_with (result_now st (se_Status ev) (se_Error ev) payload) st
      else if se_Event ev = ''error'' \<and> \<not> ss_done st
      then finish_with (result_now st ''failed'' (firstNonEmpty (se_Error ev) (se_Message ev)) payload) st
      else st)"

definition chat_event :: "streamEnvelope \<Rightarrow> string \<Rightarrow> streamState \<Rightarrow> streamState" where
  "chat_event ev payload st =
     (if se_Event ev = ''workflow_finished''
      then finish_with (result_now st (se_Status ev) (se_Error ev) payload) st
      else if se_Event ev = ''message_end'' \<and> \<not> ss_done st
      then finish_with (result_now st ''succeeded'' [] payload) st
      else if se_Event ev = ''error'' \<and> \<not> ss_done st
      then finish_with (result_now st ''failed'' (firstNonEmpty (se_Error ev) (se_Message ev)) payload) st
      else st)"

text \<open>The scan loop; the flag says that poll mode handed the run off at its id.\<close>

fun read_frames ::
  "bool \<Rightarrow> bool \<Rightarrow> (streamEnvelope \<Rightarrow> string \<Rightarrow> streamState \<Rightarrow> streamState) \<Rightarrow>
   (streamEnvelope \<times> string) list \<Rightarrow> streamState \<Rightarrow> streamState \<times> bool" where
  "read_frames chat stop on_event [] st = (st, False)"
| "read_frames chat stop on_event ((ev, payload) # frames) st =
     (let st' = capture chat ev st
      in if stop \<and> ss_runID st' \<noteq> [] then (st', True)
         else read_frames chat stop on_event frames (on_event ev payload st'))"

definition stream_error :: "string option \<Rightarrow> string \<Rightarrow> difyErr" where
  "stream_error readErr msg = (case readErr of Some e \<Rightarrow> OtherError e | None \<Rightarrow> ErrStreamEnded msg)"

type_synonym streamOut = "StreamEvent list \<times> difyResult \<times> string \<times> difyErr option"

definition RunWorkflowStream :: "(string \<Rightarrow> streamEnvelope option) \<Rightarrow> bool \<Rightarrow> streamResp \<Rightarrow> streamOut" where
  "RunWorkflowStream decode stopAtRunID resp =
     (case resp of
        NoResponse e \<Rightarrow> ([], no_result, [], Some (OtherError e))
      | Refused status msg \<Rightarrow> ([], no_result, [], Some (APIError status msg))
      | Opened lines readErr \<Rightarrow>
          (let (st, handed) = read_frames False stopAtRunID workflow_event
                                (List.map_filter (frame_of decode) lines) stream_start
           in if handed \<or> ss_done st then (ss_events st, ss_res st, ss_runID st, None)
              else (ss_events st, ss_res st, ss_runID st,
                    Some (stream_error readErr ''dify stream ended before workflow_finished''))))"

definition partial_result :: "streamState \<Rightarrow> difyResult" where
  "partial_result st = result_now st [] [] []"

definition RunChatStream :: "(string \<Rightarrow> streamEnvelope option) \<Rightarrow> bool \<Rightarrow> streamResp \<Rightarrow> streamOut" where
  "RunChatStream decode stopAtRunID resp =
     (case resp of
        NoResponse e \<Rightarrow> ([], no_result, [], Some (OtherError e))
      | Refused status msg \<Rightarrow> ([], no_result, [], Some (APIError status msg))
      | Opened lines readErr \<Rightarrow>
          (let (st, handed) = read_frames True stopAtRunID chat_event
                                (List.map_filter (frame_of decode) lines) stream_start
           in if handed then (ss_events st, partial_result st, ss_runID st, None)
              else if ss_done st then (ss_events st, ss_res st, ss_runID st, None)
              else (ss_events st, partial_result st, ss_runID st,
                    Some (stream_error readErr ''dify chat stream ended before completion''))))"

section \<open>The outcome of a conversation (chat.go)\<close>

record chatMessage =
  cm_Answer :: string
  cm_Status :: string
  cm_Error :: string
  cm_CreatedAt :: int

definition newest_message :: "chatMessage \<Rightarrow> chatMessage list \<Rightarrow> chatMessage" where
  "newest_message m ms = fold (\<lambda>x latest. if cm_CreatedAt latest < cm_CreatedAt x then x else latest) ms m"

definition GetChatOutcome :: "string \<Rightarrow> difyErr + chatMessage list \<Rightarrow> difyErr + difyResult" where
  "GetChatOutcome conversationID answer =
     (case answer of
        Inl err \<Rightarrow> Inl err
      | Inr [] \<Rightarrow> Inr (no_result\<lparr>dr_ConversationID := conversationID, dr_Status := ''running''\<rparr>)
      | Inr (m # ms) \<Rightarrow>
          let latest = newest_message m ms; out = no_result\<lparr>dr_ConversationID := conversationID\<rparr>
          in if cm_Status latest = ''error''
             then Inr (out\<lparr>dr_Status := ''failed'',
                           dr_Error := firstNonEmpty (cm_Error latest) ''dify chat message failed''\<rparr>)
             else if cm_Answer latest \<noteq> [] then Inr (out\<lparr>dr_Status := ''succeeded''\<rparr>)
             else Inr (out\<lparr>dr_Status := ''running''\<rparr>))"

section \<open>The provider (dify_provider.go)\<close>

definition difyTerminal :: "string \<Rightarrow> bool" where
  "difyTerminal status \<longleftrightarrow> status \<noteq> [] \<and> status \<noteq> ''running''"

definition difyModeChat :: "string \<Rightarrow> bool" where
  "difyModeChat mode \<longleftrightarrow> mode \<noteq> [] \<and> mode \<noteq> ''workflow''"

definition isPermanentDifyErr :: "difyErr \<Rightarrow> bool" where
  "isPermanentDifyErr err = (case err of
     APIError status _ \<Rightarrow> 400 \<le> status \<and> status < 500 \<and> status \<noteq> 429 | _ \<Rightarrow> False)"

definition err_text :: "difyErr \<Rightarrow> string" where
  "err_text err = (case err of APIError status msg \<Rightarrow> ''dify: '' @ itoa status @ '' '' @ msg
     | ErrStreamEnded msg \<Rightarrow> msg @ '': dify stream ended before completion'' | OtherError msg \<Rightarrow> msg)"

definition classifyDifyErr :: "difyErr \<Rightarrow> runError" where
  "classifyDifyErr err = (if isPermanentDifyErr err then permanentErr (err_text err) else transientErr (err_text err))"

text \<open>The quoting of \<open>%q\<close> is written for statuses without a character it would escape.\<close>

definition difyFailFallback :: "difyResult \<Rightarrow> string" where
  "difyFailFallback r =
     (let status = (if dr_Status r = [] then ''failed'' else dr_Status r);
          msg = ''dify reported the run as '' @ CHR 34 # status @ CHR 34 # '' with no error message (a long run may have hit a time limit)''
      in if dr_WorkflowRunID r \<noteq> []
         then msg @ ''; check run '' @ dr_WorkflowRunID r @ '' in the dify console'' else msg)"

definition difyResultToBatch :: "difyResult \<Rightarrow> RunResult" where
  "difyResultToBatch r =
     (let out = (if dr_Status r = ''succeeded'' then Ok
                 else if dr_Status r = ''partial-succeeded'' then Partial else Failed);
          detail = (if out = Failed \<and> dr_Error r = [] then difyFailFallback r else dr_Error r)
      in \<lparr>rr_RunID = dr_WorkflowRunID r, rr_Status = out, rr_Detail = detail, rr_Raw = dr_Raw r\<rparr>)"

text \<open>
  A row carries an uploaded file as a JSON array of ids; \<open>ids_of\<close> is \<open>json.Unmarshal\<close> into a string
  list. An input with no usable id is left out of the run.
\<close>

definition MaxRunFiles :: nat where "MaxRunFiles = 10"

datatype runValue = Text string | FileObject string | FileObjects "string list"

definition difyFileValue :: "(string \<Rightarrow> string list option) \<Rightarrow> string \<Rightarrow> string \<Rightarrow> runValue option" where
  "difyFileValue ids_of declared cell =
     (case ids_of cell of
        None \<Rightarrow> None
      | Some ids \<Rightarrow>
          let objs = filter (\<lambda>i. i \<noteq> []) ids
          in if objs = [] then None
             else if MaxRunFiles < length objs then None
             else if declared = ''file'' then Some (FileObject (hd objs)) else Some (FileObjects objs))"

definition difyFileInputs :: "(string \<times> string) list \<Rightarrow> string \<Rightarrow> string option" where
  "difyFileInputs ins = fold (\<lambda>(variable, type) out.
     if variable = [] \<or> (type \<noteq> ''file'' \<and> type \<noteq> ''file-list'') then out else out(variable \<mapsto> type)) ins Map.empty"

definition run_inputs ::
  "(string \<Rightarrow> string list option) \<Rightarrow> (string \<Rightarrow> string option) \<Rightarrow> (string \<times> string) list \<Rightarrow> (string \<times> runValue) list" where
  "run_inputs ids_of fileInputs inputs =
     List.map_filter (\<lambda>(k, v). case fileInputs k of
        Some declared \<Rightarrow> map_option (\<lambda>fv. (k, fv)) (difyFileValue ids_of declared v)
      | None \<Rightarrow> Some (k, Text v)) inputs"

text \<open>Polling until a terminal state; the window is the index of the last poll before the deadline fires.\<close>

function reconcileLoop :: "(nat \<Rightarrow> difyErr + difyResult) \<Rightarrow> nat \<Rightarrow> nat \<Rightarrow> difyErr + difyResult" where
  "reconcileLoop fetch window k =
     (let again = (if window \<le> k then Inl (OtherError ''context deadline exceeded'')
                   else reconcileLoop fetch window (Suc k))
      in case fetch k of
           Inr r \<Rightarrow> if difyTerminal (dr_Status r) then Inr r else again
         | Inl err \<Rightarrow> if isPermanentDifyErr err then Inl err else again)"
  by pat_completeness auto
termination
  by (relation "measure (\<lambda>(_, window, k). window - k)") auto

declare reconcileLoop.simps [simp del]

record difyProvider =
  dp_chat :: bool
  dp_poll :: bool

record difyCall =
  dc_resp :: streamResp
  dc_gone :: bool
  dc_fetch :: "nat \<Rightarrow> difyErr + difyResult"
  dc_messages :: "nat \<Rightarrow> difyErr + chatMessage list"
  dc_window :: nat
  dc_message :: "difyErr + chatMessage list"

definition reconcile :: "difyCall \<Rightarrow> difyErr + difyResult" where
  "reconcile c = reconcileLoop (dc_fetch c) (dc_window c) 0"

definition reconcileChat :: "difyCall \<Rightarrow> string \<Rightarrow> difyErr + difyResult" where
  "reconcileChat c convID = reconcileLoop (\<lambda>k. GetChatOutcome convID (dc_messages c k)) (dc_window c) 0"

datatype difyEffect = Started | Ref string string string | Stop string

text \<open>The provider's own event handler: it keeps the ids seen and reports each change of them.\<close>

record refState =
  rf_task :: string
  rf_run :: string
  rf_conv :: string
  rf_effects :: "difyEffect list"

definition on_stream_event :: "StreamEvent \<Rightarrow> refState \<Rightarrow> refState" where
  "on_stream_event e s =
     (if ev_Event e = EventStreamOpen then s\<lparr>rf_effects := rf_effects s @ [Started]\<rparr>
      else let task = firstNonEmpty (ev_TaskID e) (rf_task s);
               run = firstNonEmpty (ev_RunID e) (rf_run s);
               conv = firstNonEmpty (ev_ConvID e) (rf_conv s);
               changed = (task \<noteq> rf_task s \<or> run \<noteq> rf_run s \<or> conv \<noteq> rf_conv s)
           in s\<lparr>rf_task := task, rf_run := run, rf_conv := conv,
                rf_effects := rf_effects s @ (if changed then [Ref run conv task] else [])\<rparr>)"

definition handle_events :: "StreamEvent list \<Rightarrow> refState" where
  "handle_events events = fold on_stream_event events \<lparr>rf_task = [], rf_run = [], rf_conv = [], rf_effects = []\<rparr>"

definition runStream :: "(string \<Rightarrow> streamEnvelope option) \<Rightarrow> difyProvider \<Rightarrow> streamResp \<Rightarrow> streamOut" where
  "runStream decode p resp =
     (if dp_chat p then RunChatStream decode (dp_poll p) resp else RunWorkflowStream decode (dp_poll p) resp)"

definition reconcileResult :: "difyProvider \<Rightarrow> difyCall \<Rightarrow> difyResult \<Rightarrow> string \<Rightarrow> RunResult" where
  "reconcileResult p c r convID =
     (let out = difyResultToBatch r
      in if rr_Status out = Failed \<and> dr_Error r = [] \<and> dp_chat p \<and> convID \<noteq> []
         then case GetChatOutcome convID (dc_message c) of
                Inr cr \<Rightarrow> if dr_Error cr \<noteq> [] then out\<lparr>rr_Detail := dr_Error cr\<rparr> else out
              | Inl _ \<Rightarrow> out
         else out)"

definition untracked :: "string \<Rightarrow> string \<Rightarrow> RunResult" where
  "untracked runID detail = \<lparr>rr_RunID = runID, rr_Status = Untracked, rr_Detail = detail, rr_Raw = []\<rparr>"

definition settle_by_run :: "difyProvider \<Rightarrow> difyCall \<Rightarrow> string \<Rightarrow> string \<Rightarrow> string \<Rightarrow> RunResult" where
  "settle_by_run p c what runID convID =
     (case reconcile c of
        Inl err \<Rightarrow> untracked runID (what @ '' dify run '' @ runID @ '': '' @ err_text err)
      | Inr r \<Rightarrow> reconcileResult p c r convID)"

text \<open>What is decided after a stream that ended with an error and was not cancelled.\<close>

definition after_lost_stream ::
  "difyProvider \<Rightarrow> difyCall \<Rightarrow> string \<Rightarrow> string \<Rightarrow> string \<Rightarrow> difyErr \<Rightarrow> runError + RunResult" where
  "after_lost_stream p c runID convID taskID err =
     (if runID \<noteq> [] then Inr (settle_by_run p c ''reconcile'' runID convID)
      else if dp_chat p \<and> convID \<noteq> []
      then (case reconcileChat c convID of
              Inl e \<Rightarrow> Inr (untracked [] (''reconcile dify chat '' @ convID @ '': '' @ err_text e))
            | Inr r \<Rightarrow> Inr (difyResultToBatch r))
      else if taskID \<noteq> []
      then Inr (untracked [] (''dify run started (task '' @ taskID @ '') but the stream ended before an id to reconcile; not re-run to avoid a duplicate charged run: '' @ err_text err))
      else if is_ErrStreamEnded err
      then Inr (untracked [] (''dify accepted the run but the stream ended before any id; not re-run to avoid a duplicate charged run: '' @ err_text err))
      else Inl (classifyDifyErr err))"

definition dify_Run ::
  "(string \<Rightarrow> streamEnvelope option) \<Rightarrow> difyProvider \<Rightarrow> difyCall \<Rightarrow> difyEffect list \<times> (runError + RunResult)" where
  "dify_Run decode p c =
     (let (events, r, runID, err) = runStream decode p (dc_resp c);
          seen = handle_events events; convID = dr_ConversationID r
      in case err of
           None \<Rightarrow>
             (rf_effects seen,
              if dp_poll p \<and> runID \<noteq> [] \<and> \<not> difyTerminal (dr_Status r)
              then Inr (settle_by_run p c ''poll'' runID convID)
              else Inr (reconcileResult p c r convID))
         | Some e \<Rightarrow>
             if dc_gone c
             then (rf_effects seen @ (if rf_task seen \<noteq> [] then [Stop (rf_task seen)] else []),
                   Inl (classifyDifyErr e))
             else (rf_effects seen, after_lost_stream p c runID convID (rf_task seen) e))"

definition dify_Reconcile :: "difyProvider \<Rightarrow> difyCall \<Rightarrow> string \<Rightarrow> string \<Rightarrow> difyErr + RunResult" where
  "dify_Reconcile p c runID convID =
     (if runID \<noteq> [] then
        (case reconcile c of
           Inl err \<Rightarrow> Inl err | Inr r \<Rightarrow> Inr (reconcileResult p c r convID))
      else if convID \<noteq> [] then
        (case reconcileChat c convID of
           Inl err \<Rightarrow> Inl err | Inr r \<Rightarrow> Inr (difyResultToBatch r))
      else Inl (OtherError ''no run or conversation id to reconcile''))"

section \<open>A started run is not started again\<close>

lemma firstNonEmpty_nonempty: "b \<noteq> [] \<Longrightarrow> firstNonEmpty a b \<noteq> []" "a \<noteq> [] \<Longrightarrow> firstNonEmpty a b = a"
  "(firstNonEmpty a b = []) = (a = [] \<and> b = [])"
  by (simp_all add: firstNonEmpty_def)

text \<open>The ids the event handler holds are ids the stream reader holds, and a report means an id.\<close>

definition ids_tracked :: "streamState \<Rightarrow> bool" where
  "ids_tracked st \<longleftrightarrow> (let h = handle_events (ss_events st) in
     (rf_run h \<noteq> [] \<longrightarrow> ss_runID st \<noteq> []) \<and> (rf_conv h \<noteq> [] \<longrightarrow> ss_convID st \<noteq> []) \<and>
     ((\<exists>run conv task. Ref run conv task \<in> set (rf_effects h)) \<longrightarrow>
        rf_run h \<noteq> [] \<or> rf_conv h \<noteq> [] \<or> rf_task h \<noteq> []))"

lemma handle_events_snoc: "handle_events (es @ [e]) = on_stream_event e (handle_events es)"
  by (simp add: handle_events_def)

lemma ids_tracked_capture: "ids_tracked st \<Longrightarrow> ids_tracked (capture chat ev st)"
  by (auto simp: ids_tracked_def capture_def Let_def handle_events_snoc on_stream_event_def
      firstNonEmpty_nonempty)

definition same_ids :: "streamState \<Rightarrow> streamState \<Rightarrow> bool" where
  "same_ids a b \<longleftrightarrow> ss_events a = ss_events b \<and> ss_runID a = ss_runID b \<and> ss_convID a = ss_convID b"

lemma event_keeps_ids [simp]:
  "same_ids (workflow_event ev payload st) st" "same_ids (chat_event ev payload st) st"
  by (simp_all add: same_ids_def workflow_event_def chat_event_def finish_with_def)

lemma ids_tracked_same: "same_ids a b \<Longrightarrow> ids_tracked a = ids_tracked b"
  by (simp add: ids_tracked_def same_ids_def)

lemma read_frames_tracked:
  "(\<And>ev payload st. same_ids (f ev payload st) st) \<Longrightarrow> ids_tracked st \<Longrightarrow>
   ids_tracked (fst (read_frames chat stop f frames st))"
proof (induction frames arbitrary: st)
  case (Cons frame frames)
  obtain ev payload where f: "frame = (ev, payload)" by (cases frame)
  have c: "ids_tracked (capture chat ev st)" using Cons.prems(2) by (rule ids_tracked_capture)
  then have "ids_tracked (f ev payload (capture chat ev st))"
    using ids_tracked_same [OF Cons.prems(1)] by simp
  then show ?case using c f Cons.IH [OF Cons.prems(1)] by (auto simp: Let_def)
qed simp

lemma start_tracked: "ids_tracked stream_start"
  by (simp add: ids_tracked_def stream_start_def handle_events_def on_stream_event_def open_event_def)

lemma workflow_conv: "ss_convID st = [] \<Longrightarrow> ss_convID (fst (read_frames False stop workflow_event frames st)) = []"
proof (induction frames arbitrary: st)
  case (Cons frame frames)
  then show ?case
    using event_keeps_ids(1) by (cases frame) (auto simp: Let_def capture_def same_ids_def)
qed simp

text \<open>A stream that answers an error other than its own clean end was refused, or lost while reading.\<close>

lemma runStream_error:
  assumes "runStream decode p (dc_resp c) = (events, r, runID, Some err)"
    and "Started \<in> set (rf_effects (handle_events events))"
  shows "\<exists>lines readErr. dc_resp c = Opened lines readErr \<and> (readErr = None \<longleftrightarrow> is_ErrStreamEnded err) \<and>
     ((\<exists>run conv task. Ref run conv task \<in> set (rf_effects (handle_events events))) \<longrightarrow>
        runID \<noteq> [] \<or> (dp_chat p \<and> dr_ConversationID r \<noteq> []) \<or> rf_task (handle_events events) \<noteq> [])"
proof -
  have none: "Started \<notin> set (rf_effects (handle_events []))" by (simp add: handle_events_def)
  obtain lines readErr where o: "dc_resp c = Opened lines readErr"
    using assms none by (cases "dc_resp c") (auto simp: runStream_def RunChatStream_def RunWorkflowStream_def split: if_splits)
  define frames where "frames = List.map_filter (frame_of decode) lines"
  define w where "w = fst (read_frames False (dp_poll p) workflow_event frames stream_start)"
  define h where "h = fst (read_frames True (dp_poll p) chat_event frames stream_start)"
  have t: "ids_tracked w" "ids_tracked h"
    unfolding w_def h_def by (rule read_frames_tracked; simp add: start_tracked)+
  have conv: "ss_convID w = []" unfolding w_def by (rule workflow_conv) (simp add: stream_start_def)
  have clean: "is_ErrStreamEnded (stream_error readErr msg) = (readErr = None)" for msg
    by (simp add: stream_error_def split: option.splits)
  show ?thesis
  proof (cases "dp_chat p")
    case True
    then have "events = ss_events h \<and> r = partial_result h \<and> runID = ss_runID h \<and>
        (\<exists>msg. err = stream_error readErr msg)"
      using assms(1) o by (auto simp: runStream_def RunChatStream_def frames_def [symmetric] h_def
          split: prod.splits if_splits)
    then show ?thesis using o True t(2) clean
      by (auto simp: ids_tracked_def Let_def partial_result_def result_now_def)
  next
    case False
    then have "events = ss_events w \<and> runID = ss_runID w \<and> (\<exists>msg. err = stream_error readErr msg)"
      using assms(1) o by (auto simp: runStream_def RunWorkflowStream_def frames_def [symmetric] w_def
          split: prod.splits if_splits)
    then show ?thesis using o t(1) conv clean by (auto simp: ids_tracked_def Let_def)
  qed
qed

lemma started_run_lost:
  assumes "dify_Run decode p c = (effects, Inl err)" and "Started \<in> set effects" and "\<not> dc_gone c"
  shows "\<exists>lines e. dc_resp c = Opened lines (Some e) \<and>
           (\<forall>run conv task. Ref run conv task \<notin> set effects)"
proof -
  obtain events r runID e where s: "runStream decode p (dc_resp c) = (events, r, runID, e)"
    by (metis prod_cases4)
  define seen where "seen = handle_events events"
  obtain e' where e: "e = Some e'"
    using assms(1) s by (cases e) (auto simp: dify_Run_def Let_def split: if_splits)
  have eff: "effects = rf_effects seen"
    and out: "after_lost_stream p c runID (dr_ConversationID r) (rf_task seen) e' = Inl err"
    using assms(1,3) s e by (auto simp: dify_Run_def Let_def seen_def)
  have lost: "runID = []" "\<not> (dp_chat p \<and> dr_ConversationID r \<noteq> [])" "rf_task seen = []"
    "\<not> is_ErrStreamEnded e'"
    using out by (auto simp: after_lost_stream_def split: if_splits sum.splits)
  show ?thesis
    using runStream_error [OF s [unfolded e]] assms(2) lost unfolding eff seen_def by auto
qed

text \<open>
  A run that reached Dify is not handed back for a retry: if the provider answers an error
  after the stream opened and the job was not cancelled, then the connection broke while reading and
  no id of the run had been seen. In every other case, a clean end without any id included, the run is
  settled by its true outcome or recorded as untracked.
\<close>

theorem started_run_not_retried:
  assumes "dify_Run decode p c = (effects, Inl err)" and "Started \<in> set effects" and "\<not> dc_gone c"
  shows "\<exists>lines e. dc_resp c = Opened lines (Some e) \<and>
           (\<forall>run conv task. Ref run conv task \<notin> set effects)"
  using assms by (rule started_run_lost)

definition demo_decode :: "string \<Rightarrow> streamEnvelope option" where
  "demo_decode payload = Some \<lparr>se_Event = (if payload = ''end'' then ''workflow_finished'' else ''workflow_started''),
     se_TaskID = ''t1'', se_WorkflowRunID = ''r1'', se_ConversationID = [], se_Message = [], se_Title = [],
     se_Index = 0, se_Status = ''succeeded'', se_Error = []\<rparr>"

definition demo_call :: "streamResp \<Rightarrow> difyCall" where
  "demo_call resp = \<lparr>dc_resp = resp, dc_gone = False, dc_fetch = (\<lambda>k. Inl (APIError 404 ''gone'')),
     dc_messages = (\<lambda>k. Inr []), dc_window = 3, dc_message = Inr []\<rparr>"

definition demo_dify :: difyProvider where
  "demo_dify = \<lparr>dp_chat = False, dp_poll = False\<rparr>"

lemma demo_silent_drop:
  "dify_Run demo_decode demo_dify (demo_call (Opened [] (Some ''connection reset'')))
     = ([Started], Inl (transientErr ''connection reset''))"
  by code_simp

lemma started_run_not_retried_witness:
  "Ref ''r1'' [] ''t1'' \<notin> set [Started] \<and>
   (\<exists>lines e. Opened [] (Some ''connection reset'') = Opened lines (Some e))"
  using started_run_not_retried [OF demo_silent_drop] by (simp add: demo_call_def)

text \<open>An item of the engine over this provider; call number k of the provider is \<open>calls k\<close>.\<close>

definition dify_prov :: "(string \<Rightarrow> streamEnvelope option) \<Rightarrow> difyProvider \<Rightarrow> (nat \<Rightarrow> difyCall) \<Rightarrow> provider" where
  "dify_prov decode p calls k = snd (dify_Run decode p (calls k))"

definition reaches_dify :: "(string \<Rightarrow> streamEnvelope option) \<Rightarrow> difyProvider \<Rightarrow> difyCall \<Rightarrow> bool" where
  "reaches_dify decode p c \<longleftrightarrow> Started \<in> set (fst (dify_Run decode p c))"

text \<open>The connection broke while reading, before a frame with an id was seen.\<close>

definition silent_drop :: "(string \<Rightarrow> streamEnvelope option) \<Rightarrow> difyProvider \<Rightarrow> difyCall \<Rightarrow> bool" where
  "silent_drop decode p c \<longleftrightarrow> (\<exists>lines e. dc_resp c = Opened lines (Some e)) \<and>
     (\<forall>run conv task. Ref run conv task \<notin> set (fst (dify_Run decode p c)))"

text \<open>The calls an item's attempts see: one context, and no stream dropped before its first id.\<close>

lemma earlier_attempts_not_started:
  assumes "RunItem (dify_prov decode p calls) gone maxRetries = (res, n)"
    and "\<forall>k. dc_gone (calls k) \<longrightarrow> gone k"
    and "\<forall>k \<in> {1 ..< n}. \<not> silent_drop decode p (calls k)"
    and k: "k \<in> {1 ..< n}"
  shows "\<not> reaches_dify decode p (calls k)"
proof -
  have "retried (dify_prov decode p calls) gone k"
    using run_attempts_run [OF assms(1) [unfolded RunItem_def]] k by auto
  then obtain err where e: "snd (dify_Run decode p (calls k)) = Inl err" and "\<not> gone k"
    by (auto simp: retried_def dify_prov_def)
  then have here: "\<not> dc_gone (calls k)" using assms(2) by auto
  have "dify_Run decode p (calls k) = (fst (dify_Run decode p (calls k)), Inl err)"
    using e by (metis prod.collapse)
  note lost = started_run_lost [OF this _ here]
  have "\<not> silent_drop decode p (calls k)" using assms(3) k by blast
  then show ?thesis
    using lost unfolding reaches_dify_def silent_drop_def by blast
qed

text \<open>
  The retry loop starts at most one run: over all attempts the engine makes for an item,
  every attempt before the last one never reached Dify, provided the context the provider sees is the
  engine's and no stream was dropped before its first id.
\<close>

theorem at_most_one_run_started:
  assumes "RunItem (dify_prov decode p calls) gone maxRetries = (res, n)"
    and "\<forall>k. dc_gone (calls k) \<longrightarrow> gone k"
    and "\<forall>k \<in> {1 ..< n}. \<not> silent_drop decode p (calls k)"
  shows "\<forall>k \<in> {1 ..< n}. \<not> reaches_dify decode p (calls k)"
  using earlier_attempts_not_started [OF assms] by blast

definition refused_then_ok :: "nat \<Rightarrow> difyCall" where
  "refused_then_ok k = demo_call (if k = 1 then Refused 503 ''busy'' else Opened [''data: go'', ''data: end''] None)"

lemma refused_then_ok_runs:
  "dify_Run demo_decode demo_dify (refused_then_ok (Suc 0)) = ([], Inl (transientErr ''dify: 503 busy''))"
  "dify_Run demo_decode demo_dify (refused_then_ok 2) = ([Started, Ref ''r1'' [] ''t1''],
     Inr \<lparr>rr_RunID = ''r1'', rr_Status = Ok, rr_Detail = [], rr_Raw = ''end''\<rparr>)"
  by code_simp+

lemma refused_then_ok_item:
  "RunItem (dify_prov demo_decode demo_dify refused_then_ok) (\<lambda>_. False) 2
     = (\<lparr>rr_RunID = ''r1'', rr_Status = Ok, rr_Detail = [], rr_Raw = ''end''\<rparr>, 2)"
  using refused_then_ok_runs
  by (simp add: RunItem_def run_attempts.simps dify_prov_def IsTransient_def transientErr_def numeral_2_eq_2)

lemma at_most_one_run_started_witness:
  "\<not> reaches_dify demo_decode demo_dify (refused_then_ok 1)"
proof -
  have "dc_resp (refused_then_ok 1) = Refused 503 ''busy''"
    by (simp add: refused_then_ok_def demo_call_def)
  then have "\<forall>k \<in> {1 ..< 2}. \<not> silent_drop demo_decode demo_dify (refused_then_ok k)"
    by (auto simp: silent_drop_def less_Suc_eq numeral_2_eq_2)
  moreover have "\<forall>k. dc_gone (refused_then_ok k) \<longrightarrow> False" by (simp add: refused_then_ok_def demo_call_def)
  ultimately show ?thesis
    using at_most_one_run_started [OF refused_then_ok_item] by force
qed

text \<open>
  The gap is real: when the connection is reset after Dify accepted the request and before
  the first id, the provider answers a transient error and the engine starts a second run, although
  the first one is running.
\<close>

theorem silent_drop_runs_twice:
  "snd (RunItem (dify_prov demo_decode demo_dify (\<lambda>_. demo_call (Opened [] (Some ''connection reset''))))
          (\<lambda>_. False) 1) = 2 \<and>
   reaches_dify demo_decode demo_dify (demo_call (Opened [] (Some ''connection reset'')))"
  by (simp add: RunItem_def run_attempts.simps dify_prov_def demo_silent_drop reaches_dify_def
      IsTransient_def transientErr_def)

section \<open>One call starts at most one run\<close>

text \<open>Dify's own frames do not use the name of the portal's synthetic event.\<close>

definition plain_frames :: "(string \<Rightarrow> streamEnvelope option) \<Rightarrow> bool" where
  "plain_frames decode \<longleftrightarrow> (\<forall>payload. case decode payload of None \<Rightarrow> True
     | Some ev \<Rightarrow> se_Event ev \<noteq> EventStreamOpen)"

definition one_open :: "streamState \<Rightarrow> bool" where
  "one_open st \<longleftrightarrow> (\<exists>es. ss_events st = open_event # es \<and> (\<forall>e\<in>set es. ev_Event e \<noteq> EventStreamOpen))"

lemma read_frames_one_open:
  assumes "\<And>ev payload st. same_ids (f ev payload st) st"
  shows "\<forall>(ev, payload)\<in>set frames. se_Event ev \<noteq> EventStreamOpen \<Longrightarrow> one_open st \<Longrightarrow>
    one_open (fst (read_frames chat stop f frames st))"
proof (induction frames arbitrary: st)
  case (Cons frame frames)
  obtain ev payload where f: "frame = (ev, payload)" by (cases frame)
  have c: "one_open (capture chat ev st)"
    using Cons.prems f by (auto simp: one_open_def capture_def Let_def)
  then have "one_open (f ev payload (capture chat ev st))"
    using assms [of ev payload "capture chat ev st"] by (simp add: one_open_def same_ids_def)
  then show ?case using c f Cons.IH Cons.prems(1) by (auto simp: Let_def)
qed simp

lemma handle_more_starts:
  "\<forall>e\<in>set es. ev_Event e \<noteq> EventStreamOpen \<Longrightarrow>
   count_list (rf_effects (fold on_stream_event es s)) Started = count_list (rf_effects s) Started"
  by (induction es arbitrary: s) (auto simp: on_stream_event_def Let_def count_list_append)

lemma handle_one_open:
  assumes "one_open st"
  shows "count_list (rf_effects (handle_events (ss_events st))) Started = 1"
proof -
  obtain es where es: "ss_events st = open_event # es" "\<forall>e\<in>set es. ev_Event e \<noteq> EventStreamOpen"
    using assms by (auto simp: one_open_def)
  show ?thesis
    unfolding es(1) handle_events_def fold_Cons comp_apply
    by (subst handle_more_starts [OF es(2)]) (simp add: on_stream_event_def open_event_def)
qed

lemma frames_plain:
  "plain_frames decode \<Longrightarrow> \<forall>(ev, payload)\<in>set (List.map_filter (frame_of decode) lines). se_Event ev \<noteq> EventStreamOpen"
  by (auto simp: List.map_filter_def frame_of_def plain_frames_def Let_def split: if_splits option.splits)

lemma start_one_open: "one_open stream_start"
  by (simp add: one_open_def stream_start_def)

lemma dify_Run_starts:
  assumes "plain_frames decode"
  shows "count_list (fst (dify_Run decode p c)) Started \<le> 1"
proof -
  obtain events r runID e where s: "runStream decode p (dc_resp c) = (events, r, runID, e)"
    by (metis prod_cases4)
  have "count_list (rf_effects (handle_events events)) Started \<le> 1"
  proof (cases "dc_resp c")
    case (Opened lines readErr)
    have o: "one_open (fst (read_frames chat stop f (List.map_filter (frame_of decode) lines) stream_start))"
      if "\<And>ev payload st. same_ids (f ev payload st) st" for chat stop f
      using read_frames_one_open [OF that frames_plain [OF assms] start_one_open] .
    have "\<exists>st. one_open st \<and> events = ss_events st"
      using s Opened o [of workflow_event False "dp_poll p"] o [of chat_event True "dp_poll p"]
      by (auto simp: runStream_def RunChatStream_def RunWorkflowStream_def split: prod.splits if_splits)
    then show ?thesis using handle_one_open by force
  qed (use s in \<open>auto simp: runStream_def RunChatStream_def RunWorkflowStream_def handle_events_def split: if_splits\<close>)
  then show ?thesis using s by (auto simp: dify_Run_def Let_def count_list_append split: option.splits)
qed

section \<open>Polling\<close>

definition decisive :: "difyErr + difyResult \<Rightarrow> bool" where
  "decisive answer = (case answer of Inr r \<Rightarrow> difyTerminal (dr_Status r) | Inl err \<Rightarrow> isPermanentDifyErr err)"

lemma reconcileLoop_step:
  "reconcileLoop fetch window k =
     (if decisive (fetch k) then fetch k
      else if window \<le> k then Inl (OtherError ''context deadline exceeded'')
      else reconcileLoop fetch window (Suc k))"
  by (auto simp: reconcileLoop.simps [of fetch window k] decisive_def split: sum.splits)

text \<open>
  A reconcile answers with the first poll that decides, a terminal status or a permanent
  error, among the polls the window holds, and with the deadline if none does: transient errors and
  a running status neither end it nor change its answer.
\<close>

theorem reconcile_is_first_decisive:
  "reconcileLoop fetch window k =
     (case find (\<lambda>j. decisive (fetch j)) [k ..< Suc (max k window)] of
        Some j \<Rightarrow> fetch j | None \<Rightarrow> Inl (OtherError ''context deadline exceeded''))"
proof (induction "window - k" arbitrary: k)
  case 0
  then show ?case by (simp add: reconcileLoop_step [of fetch window k])
next
  case (Suc d)
  then have "k < window" "max (Suc k) window = max k window" and d: "d = window - Suc k" by simp_all
  then show ?case
    using Suc.hyps(1) [OF d] by (simp add: reconcileLoop_step [of fetch window k] upt_rec [of k])
qed

text \<open>
  A failed Dify run always carries a reason, and only the statuses Dify documents for
  success are read as success; a missing or unknown status is a failure, never a success.
\<close>

theorem failed_run_has_reason:
  "case difyResultToBatch r of out \<Rightarrow>
     (rr_Status out = Failed \<and> rr_Detail out \<noteq> [] \<or> rr_Status out = Ok \<or> rr_Status out = Partial) \<and>
     (rr_Status out = Ok \<longleftrightarrow> dr_Status r = ''succeeded'') \<and>
     (rr_Status out = Partial \<longleftrightarrow> dr_Status r = ''partial-succeeded'')"
  by (auto simp: difyResultToBatch_def difyFailFallback_def Let_def)

end
