(* ===== verification/Batch_Runs.thy ===== *)
theory Batch_Runs
  imports Batch_Sched Dify_Run
begin

text \<open>
  The life of a batch item across admissions, crashes, restarts and retries: the body of a background
  run (startItem in internal/app/batch_run.go) as the script of the statements it sends, and the
  portal as a step relation in which scripts, ticks, restarts and operator actions interleave
  freely. The ghost columns count the runs started at Dify and the operator's retries of each row.

  A run counts as started when the portal sees the stream open, which is also when the row is
  stamped: a crash between Dify's answer and that event is outside the model.
\<close>

section \<open>The script of one background run\<close>

datatype scriptOp = Do difyEffect | Finish Outcome int string string | FinishCancelled

text \<open>
  \<open>item_script\<close> is what \<open>startItem\<close> does once the provider is built: the effects of the engine's
  attempts in order, then one closing statement, a cancellation when the row's context is gone.
  \<open>provider_error\<close> is its early return.
\<close>

definition item_script ::
  "(string \<Rightarrow> streamEnvelope option) \<Rightarrow> difyProvider \<Rightarrow> (nat \<Rightarrow> difyCall) \<Rightarrow> bool \<Rightarrow> (nat \<Rightarrow> bool) \<Rightarrow> int \<Rightarrow>
   scriptOp list" where
  "item_script decode p calls cancelled gone maxRetries =
     (case RunItem (dify_prov decode p calls) gone maxRetries of
        (res, n) \<Rightarrow>
          map Do (concat (map (\<lambda>k. fst (dify_Run decode p (calls k))) [1 ..< Suc n])) @
          [if cancelled then FinishCancelled else Finish (rr_Status res) (int n) (rr_RunID res) (rr_Detail res)])"

definition provider_error :: "string \<Rightarrow> scriptOp list" where
  "provider_error err = [Finish Failed 1 [] err]"

definition exec_op :: "string \<Rightarrow> int \<Rightarrow> scriptOp \<Rightarrow> batchDb \<Rightarrow> batchDb" where
  "exec_op now iid op = (case op of
     Do Started \<Rightarrow> MarkItemDifyStarted now iid
   | Do (Ref runID conv task) \<Rightarrow> SaveItemDifyRef iid runID conv task
   | Do (Stop taskID) \<Rightarrow> (\<lambda>db. db)
   | Finish st attempts runID detail \<Rightarrow> FinishItem now iid st attempts runID detail
   | FinishCancelled \<Rightarrow> FinishItemCancelled now iid)"

fun closing :: "scriptOp \<Rightarrow> bool" where
  "closing (Do eff) = False"
| "closing op = True"

text \<open>The deferred handler of a panic closes the row as untracked.\<close>

definition panic_close :: "string \<Rightarrow> int \<Rightarrow> string \<Rightarrow> batchDb \<Rightarrow> batchDb" where
  "panic_close now iid reason = FinishItem now iid Untracked 1 [] (''panic: '' @ reason)"

section \<open>The portal as a step relation\<close>

record runWorld =
  rw_db :: batchDb
  rw_next :: int
  rw_live :: "int \<Rightarrow> scriptOp list option"
  rw_starts :: "int \<Rightarrow> nat"
  rw_retries :: "int \<Rightarrow> nat"

definition empty_world :: runWorld where
  "empty_world = \<lparr>rw_db = \<lparr>db_jobs = [], db_items = []\<rparr>, rw_next = 1, rw_live = (\<lambda>_. None),
                  rw_starts = (\<lambda>_. 0), rw_retries = (\<lambda>_. 0)\<rparr>"

definition is_start :: "scriptOp \<Rightarrow> nat" where
  "is_start op = (if op = Do Started then 1 else 0)"

definition exec_step :: "string \<Rightarrow> int \<Rightarrow> scriptOp \<Rightarrow> scriptOp list \<Rightarrow> runWorld \<Rightarrow> runWorld" where
  "exec_step now iid op ops w =
     w\<lparr>rw_db := exec_op now iid op (rw_db w),
       rw_live := (rw_live w)(iid := (if closing op then None else Some ops)),
       rw_starts := (rw_starts w)(iid := rw_starts w iid + is_start op)\<rparr>"

definition requeued :: "int \<Rightarrow> string list \<Rightarrow> batchDb \<Rightarrow> int \<Rightarrow> bool" where
  "requeued jobID statuses db iid \<longleftrightarrow>
     list_ex (\<lambda>i. bi_ID i = iid \<and> bi_JobID i = jobID \<and>
                  bi_Status i \<in> set (if statuses = [] then [''failed''] else statuses)) (db_items db)"

definition requeue_step :: "int \<Rightarrow> string list \<Rightarrow> runWorld \<Rightarrow> runWorld" where
  "requeue_step jobID statuses w =
     w\<lparr>rw_db := snd (RequeueItems jobID statuses (rw_db w)),
       rw_retries := (\<lambda>k. rw_retries w k + (if requeued jobID statuses (rw_db w) k then 1 else 0))\<rparr>"

text \<open>
  A script is careful when the provider sees the engine's context, Dify's frames do not use the name
  of the portal's own event, and no stream is dropped before its first id.
\<close>

definition careful :: "scriptOp list \<Rightarrow> bool" where
  "careful ops \<longleftrightarrow> (\<exists>err. ops = provider_error err) \<or>
     (\<exists>decode p calls cancelled gone maxRetries.
        ops = item_script decode p calls cancelled gone maxRetries \<and>
        plain_frames decode \<and>
        (\<forall>k. dc_gone (calls k) \<longrightarrow> gone k) \<and>
        (\<forall>k. \<not> silent_drop decode p (calls k)))"

inductive run_step :: "runWorld \<Rightarrow> runWorld \<Rightarrow> bool" where
  jobs: "db_items db = db_items (rw_db w) \<Longrightarrow> run_step w (w\<lparr>rw_db := db\<rparr>)"
| create: "CreateBatchJob now (jobID, rw_next w) target conc retries user rows prio (rw_db w) = Inr (jobID', db) \<Longrightarrow>
    run_step w (w\<lparr>rw_db := db, rw_next := rw_next w + int (length rows)\<rparr>)"
| admit: "MarkItemRunning now iid (rw_db w) = (True, db) \<Longrightarrow> careful ops \<Longrightarrow>
    run_step w (w\<lparr>rw_db := db, rw_live := (rw_live w)(iid := Some ops)\<rparr>)"
| exec: "rw_live w iid = Some (op # ops) \<Longrightarrow> now \<noteq> [] \<Longrightarrow> run_step w (exec_step now iid op ops w)"
| panic: "rw_live w iid = Some ops \<Longrightarrow>
    run_step w (w\<lparr>rw_db := panic_close now iid reason (rw_db w), rw_live := (rw_live w)(iid := None)\<rparr>)"
| crash: "run_step w (w\<lparr>rw_live := (\<lambda>_. None)\<rparr>)"
| resume: "rw_live w = (\<lambda>_. None) \<Longrightarrow> run_step w (w\<lparr>rw_db := snd (resume_items env (rw_db w))\<rparr>)"
| settle: "rw_live w iid = None \<Longrightarrow> i \<in> set (ResumableInFlightItems (rw_db w)) \<Longrightarrow> bi_ID i = iid \<Longrightarrow>
    run_step w (w\<lparr>rw_db := FinishItem now iid st attempts runID detail (rw_db w)\<rparr>)"
| cancel: "run_step w (w\<lparr>rw_db := snd (CancelQueuedItem now iid (rw_db w))\<rparr>)"
| requeue: "''running'' \<notin> set statuses \<Longrightarrow> run_step w (requeue_step jobID statuses w)"
| delete: "run_step w (w\<lparr>rw_db := DeleteBatchJob jobID (rw_db w)\<rparr>)"

inductive run_reach :: "runWorld \<Rightarrow> bool" where
  start: "run_reach empty_world"
| more: "run_reach w \<Longrightarrow> run_step w w' \<Longrightarrow> run_reach w'"

section \<open>A careful script starts at most one run\<close>

lemma count_Do: "count_list (map Do effs) (Do Started) = count_list effs Started"
  by (induction effs) auto

lemma count_none: "\<forall>x\<in>set xs. f x = [] \<or> e \<notin> set (f x) \<Longrightarrow> count_list (concat (map f xs)) e = 0"
  by (induction xs) (auto simp: count_list_append count_list_0_iff)

lemma item_script_starts:
  assumes "plain_frames decode" "\<forall>k. dc_gone (calls k) \<longrightarrow> gone k" "\<forall>k. \<not> silent_drop decode p (calls k)"
  shows "count_list (item_script decode p calls cancelled gone maxRetries) (Do Started) \<le> 1"
proof -
  obtain res n where r: "RunItem (dify_prov decode p calls) gone maxRetries = (res, n)" by fastforce
  let ?effs = "\<lambda>k. fst (dify_Run decode p (calls k))"
  have "\<forall>k\<in>{1 ..< n}. \<not> reaches_dify decode p (calls k)"
    using earlier_attempts_not_started [OF r assms(2)] assms(3) by blast
  then have early: "count_list (concat (map ?effs [1 ..< n])) Started = 0"
    by (intro count_none) (auto simp: reaches_dify_def)
  have "count_list (concat (map ?effs [1 ..< Suc n])) Started \<le> 1"
  proof (cases "1 \<le> n")
    case True
    then have "[1 ..< Suc n] = [1 ..< n] @ [n]" by simp
    then show ?thesis
      using early dify_Run_starts [OF assms(1), of p "calls n"] by (simp add: count_list_append del: upt_Suc)
  qed simp
  then show ?thesis
    by (simp add: item_script_def r count_list_append count_Do del: upt_Suc)
qed

lemma careful_starts: "careful ops \<Longrightarrow> count_list ops (Do Started) \<le> 1"
  unfolding careful_def provider_error_def using item_script_starts by fastforce

section \<open>The invariant of a row\<close>

text \<open>
  A row's runs never exceed its retries by more than one; a queued row has no run of its current
  round and no handle of an earlier one; a running row whose round has started shows it.
\<close>

definition script_ok :: "runWorld \<Rightarrow> BatchItem \<Rightarrow> bool" where
  "script_ok w i \<longleftrightarrow> (case rw_live w (bi_ID i) of None \<Rightarrow> True
     | Some ops \<Rightarrow> bi_Status i = ''running'' \<and>
         rw_starts w (bi_ID i) + count_list ops (Do Started) \<le> Suc (rw_retries w (bi_ID i)))"

definition row_ok :: "runWorld \<Rightarrow> BatchItem \<Rightarrow> bool" where
  "row_ok w i \<longleftrightarrow> script_ok w i \<and>
     rw_starts w (bi_ID i) \<le> Suc (rw_retries w (bi_ID i)) \<and>
     (bi_Status i = ''queued'' \<longrightarrow>
        rw_starts w (bi_ID i) \<le> rw_retries w (bi_ID i) \<and> rw_live w (bi_ID i) = None \<and> \<not> has_handle i) \<and>
     (bi_Status i = ''running'' \<longrightarrow> rw_starts w (bi_ID i) \<le> rw_retries w (bi_ID i) \<or> shows_start i)"

definition ids_fresh :: "runWorld \<Rightarrow> bool" where
  "ids_fresh w \<longleftrightarrow> (\<forall>k \<ge> rw_next w. rw_starts w k = 0 \<and> rw_live w k = None) \<and>
     (\<forall>i\<in>set (db_items (rw_db w)). bi_ID i < rw_next w) \<and> distinct (map bi_ID (db_items (rw_db w)))"

definition world_ok :: "runWorld \<Rightarrow> bool" where
  "world_ok w \<longleftrightarrow> ids_fresh w \<and> (\<forall>i\<in>set (db_items (rw_db w)). row_ok w i)"

text \<open>Every statement is one or more guarded updates that keep the row ids.\<close>

lemma upd_items_rows:
  assumes "\<And>i. i \<in> set (db_items db) \<Longrightarrow> P i \<Longrightarrow> Q (f i)"
    and "\<And>i. i \<in> set (db_items db) \<Longrightarrow> \<not> P i \<Longrightarrow> Q i"
  shows "\<forall>i\<in>set (db_items (upd_items P f db)). Q i"
  using assms by (auto simp: upd_items_def update_where_def)

lemma upd_jobs_items [simp]: "db_items (upd_jobs P f db) = db_items db"
  by (simp add: upd_jobs_def)

lemma world_okI:
  assumes "\<forall>k \<ge> rw_next w'. rw_starts w' k = 0 \<and> rw_live w' k = None"
    and "distinct (map bi_ID (db_items (rw_db w')))"
    and "\<forall>i\<in>set (db_items (rw_db w')). bi_ID i < rw_next w' \<and> row_ok w' i"
  shows "world_ok w'"
  using assms by (auto simp: world_ok_def ids_fresh_def)

lemma world_okD:
  assumes "world_ok w"
  shows "\<And>k. rw_next w \<le> k \<Longrightarrow> rw_starts w k = 0 \<and> rw_live w k = None"
    and "\<And>i. i \<in> set (db_items (rw_db w)) \<Longrightarrow> bi_ID i < rw_next w"
    and "\<And>i. i \<in> set (db_items (rw_db w)) \<Longrightarrow> row_ok w i"
    and "distinct (map bi_ID (db_items (rw_db w)))"
  using assms by (auto simp: world_ok_def ids_fresh_def)

text \<open>A statement on the items of a well-formed world, seen row by row.\<close>

lemma update_ok:
  assumes "world_ok w"
    and db: "rw_db w' = upd_items P f (rw_db w)" and next_id: "rw_next w' = rw_next w"
    and ids: "\<And>i. bi_ID (f i) = bi_ID i"
    and live: "\<And>k. rw_next w \<le> k \<Longrightarrow> rw_starts w' k = 0 \<and> rw_live w' k = None"
    and hit: "\<And>i. i \<in> set (db_items (rw_db w)) \<Longrightarrow> P i \<Longrightarrow> row_ok w i \<Longrightarrow> row_ok w' (f i)"
    and miss: "\<And>i. i \<in> set (db_items (rw_db w)) \<Longrightarrow> \<not> P i \<Longrightarrow> row_ok w i \<Longrightarrow> row_ok w' i"
  shows "world_ok w'"
proof (rule world_okI)
  show "\<forall>k \<ge> rw_next w'. rw_starts w' k = 0 \<and> rw_live w' k = None"
    using live next_id by simp
  have "map bi_ID (db_items (rw_db w')) = map bi_ID (db_items (rw_db w))"
    by (simp add: db upd_items_def update_where_def ids)
  then show "distinct (map bi_ID (db_items (rw_db w')))" using world_okD(4) [OF assms(1)] by simp
  show "\<forall>i\<in>set (db_items (rw_db w')). bi_ID i < rw_next w' \<and> row_ok w' i"
    unfolding db next_id using world_okD(2,3) [OF assms(1)] hit miss
    by (intro upd_items_rows) (simp_all add: ids)
qed

lemma itemStatus_closed [simp]: "itemStatus st \<noteq> ''queued''" "itemStatus st \<noteq> ''running''"
  "''queued'' \<noteq> itemStatus st" "''running'' \<noteq> itemStatus st"
  by (cases st; simp add: itemStatus_def)+

text \<open>Closing a row whose script is gone, whatever the outcome written.\<close>

lemma closed_row_ok:
  assumes "row_ok w i" "rw_live w' (bi_ID i) = None" "rw_starts w' (bi_ID i) = rw_starts w (bi_ID i)"
    "rw_retries w' = rw_retries w" "bi_ID i' = bi_ID i" "bi_Status i' \<noteq> ''queued''" "bi_Status i' \<noteq> ''running''"
  shows "row_ok w' i'"
  using assms by (simp add: row_ok_def script_ok_def)

lemma same_row_ok:
  assumes "row_ok w i" "rw_live w' (bi_ID i) = rw_live w (bi_ID i)"
    "rw_starts w' (bi_ID i) = rw_starts w (bi_ID i)" "rw_retries w' = rw_retries w"
  shows "row_ok w' i"
  using assms by (auto simp: row_ok_def script_ok_def split: option.splits)

section \<open>Every step keeps the invariant\<close>

lemma jobs_ok: "world_ok w \<Longrightarrow> db_items db = db_items (rw_db w) \<Longrightarrow> world_ok (w\<lparr>rw_db := db\<rparr>)"
  by (intro world_okI) (simp_all add: world_okD same_row_ok [of w])

lemma new_items_rows:
  "i \<in> set (new_items iid jobID idx rows) \<Longrightarrow>
     iid \<le> bi_ID i \<and> bi_ID i < iid + int (length rows) \<and> bi_Status i = ''queued'' \<and> \<not> has_handle i"
  by (induction rows arbitrary: iid idx) (fastforce simp: has_handle_def)+

lemma new_items_distinct: "distinct (map bi_ID (new_items iid jobID idx rows))"
  by (induction rows arbitrary: iid idx) (fastforce dest: new_items_rows)+

lemma create_ok:
  assumes "world_ok w"
    and "CreateBatchJob now (jobID, rw_next w) target conc retries user rows prio (rw_db w) = Inr (jobID', db)"
  shows "world_ok (w\<lparr>rw_db := db, rw_next := rw_next w + int (length rows)\<rparr>)"
proof -
  have items: "db_items db = db_items (rw_db w) @ new_items (rw_next w) jobID 0 rows"
    using assms(2) by (auto simp: CreateBatchJob_def Let_def split: if_splits)
  have old: "row_ok (w\<lparr>rw_db := db, rw_next := rw_next w + int (length rows)\<rparr>) i"
    if "i \<in> set (db_items (rw_db w))" for i
    using world_okD(3) [OF assms(1) that] by (rule same_row_ok) simp_all
  have new: "row_ok (w\<lparr>rw_db := db, rw_next := rw_next w + int (length rows)\<rparr>) i"
    if "i \<in> set (new_items (rw_next w) jobID 0 rows)" for i
    using new_items_rows [OF that] world_okD(1) [OF assms(1), of "bi_ID i"]
    by (simp add: row_ok_def script_ok_def)
  show ?thesis
  proof (rule world_okI)
    show "distinct (map bi_ID (db_items (rw_db (w\<lparr>rw_db := db, rw_next := rw_next w + int (length rows)\<rparr>))))"
      using world_okD(2,4) [OF assms(1)] new_items_rows [of _ "rw_next w" jobID 0 rows] new_items_distinct
      by (fastforce simp: items)
  qed (use old new world_okD(1,2) [OF assms(1)] new_items_rows in \<open>fastforce simp: items\<close>)+
qed

lemma filter_head: "filter P xs = y # ys \<Longrightarrow> y \<in> set xs \<and> P y"
  by (induction xs) (auto split: if_splits)

lemma one_row: "distinct (map bi_ID is) \<Longrightarrow> i \<in> set is \<Longrightarrow> r \<in> set is \<Longrightarrow> bi_ID i = bi_ID r \<Longrightarrow> i = r"
  by (auto simp: distinct_map inj_on_def)

lemma admit_ok:
  assumes w: "world_ok w" and won: "MarkItemRunning now iid (rw_db w) = (True, db)"
    and one: "count_list ops (Do Started) \<le> 1"
  shows "world_ok (w\<lparr>rw_db := db, rw_live := (rw_live w)(iid := Some ops)\<rparr>)"
    (is "world_ok ?w")
proof -
  let ?P = "\<lambda>i. bi_ID i = iid \<and> bi_Status i = ''queued''"
  have db: "db = upd_items ?P (start_assign now) (rw_db w)" and n: "count_items ?P (rw_db w) = 1"
    using won by (simp_all add: MarkItemRunning_def Let_def)
  then obtain r where r: "r \<in> set (db_items (rw_db w))" "?P r"
    by (cases "items_with ?P (rw_db w)") (auto simp: count_items_def items_with_def dest!: filter_head)
  show ?thesis
  proof (rule update_ok [OF w, where P = ?P and f = "start_assign now"])
    show "row_ok ?w i" if i: "i \<in> set (db_items (rw_db w))" "\<not> ?P i" "row_ok w i" for i
    proof -
      have "bi_ID i \<noteq> iid"
        using one_row [OF world_okD(4) [OF w] i(1) r(1)] r(2) i(2) by metis
      then show ?thesis by (simp add: same_row_ok [OF i(3)])
    qed
    show "row_ok ?w (start_assign now i)" if "i \<in> set (db_items (rw_db w))" "?P i" "row_ok w i" for i
      using that one by (simp add: row_ok_def script_ok_def start_assign_def)
    have "iid < rw_next w" using world_okD(2) [OF w r(1)] r(2) by simp
    then show "rw_starts ?w k = 0 \<and> rw_live ?w k = None" if "rw_next w \<le> k" for k
      using world_okD(1) [OF w that] that by simp
  qed (simp_all add: db start_assign_def)
qed

lemma same_world_ok: "world_ok w \<Longrightarrow> rw_db w' = rw_db w \<Longrightarrow> rw_next w' = rw_next w \<Longrightarrow>
    (\<And>k. rw_next w \<le> k \<Longrightarrow> rw_starts w' k = 0 \<and> rw_live w' k = None) \<Longrightarrow>
    (\<And>i. i \<in> set (db_items (rw_db w)) \<Longrightarrow> row_ok w i \<Longrightarrow> row_ok w' i) \<Longrightarrow> world_ok w'"
  by (rule world_okI) (simp_all add: world_okD)

text \<open>A live script belongs to an id that was given out.\<close>

lemma live_id: "world_ok w \<Longrightarrow> rw_live w iid = Some ops \<Longrightarrow> iid < rw_next w"
  using world_okD(1) [of w iid] by force

text \<open>The row of an executed statement; every other row is left alone.\<close>

lemma exec_rows:
  assumes w: "world_ok w" and live: "rw_live w iid = Some (op # ops)"
    and db: "exec_op now iid op = upd_items P f" and P: "\<And>i. P i \<Longrightarrow> bi_ID i = iid" and f: "\<And>i. bi_ID (f i) = bi_ID i"
    and hit: "\<And>i. bi_ID i = iid \<Longrightarrow> row_ok w i \<Longrightarrow> row_ok (exec_step now iid op ops w) (if P i then f i else i)"
  shows "world_ok (exec_step now iid op ops w)"
proof (rule update_ok [OF w, where P = P and f = f])
  have lt: "iid < rw_next w" using live_id [OF w live] .
  show "rw_starts (exec_step now iid op ops w) k = 0 \<and> rw_live (exec_step now iid op ops w) k = None"
    if "rw_next w \<le> k" for k
    using that lt world_okD(1) [OF w that] by (simp add: exec_step_def)
  show "row_ok (exec_step now iid op ops w) (f i)" if "P i" "row_ok w i" for i
    using hit [OF P [OF that(1)] that(2)] that(1) by simp
  show "row_ok (exec_step now iid op ops w) i" if "\<not> P i" "row_ok w i" for i
  proof (cases "bi_ID i = iid")
    case True
    then show ?thesis using hit [OF True that(2)] that(1) by simp
  next
    case False
    then show ?thesis by (intro same_row_ok [OF that(2)]) (simp_all add: exec_step_def)
  qed
qed (simp_all add: exec_step_def db f)

lemma exec_row:
  assumes "rw_live w (bi_ID i) = Some (op # ops)" "row_ok w i"
  shows "bi_Status i = ''running''"
    and "rw_starts w (bi_ID i) + count_list (op # ops) (Do Started) \<le> Suc (rw_retries w (bi_ID i))"
    and "rw_starts w (bi_ID i) \<le> rw_retries w (bi_ID i) \<or> shows_start i"
  using assms by (auto simp: row_ok_def script_ok_def)

lemma exec_open_row:
  assumes live: "rw_live w (bi_ID i) = Some (op # ops)" and i: "row_ok w i" and "\<not> closing op"
    and "bi_ID i' = bi_ID i" "bi_Status i' = bi_Status i" "shows_start i \<or> op = Do Started \<longrightarrow> shows_start i'"
  shows "row_ok (exec_step now (bi_ID i) op ops w) i'"
proof -
  note r = exec_row [OF live i]
  have "rw_starts w (bi_ID i) + is_start op + count_list ops (Do Started) \<le> Suc (rw_retries w (bi_ID i))"
    using r(2) by (simp add: is_start_def split: if_splits)
  then show ?thesis
    using assms r(1,3) by (auto simp: row_ok_def script_ok_def exec_step_def is_start_def)
qed

lemma exec_closed_row:
  assumes live: "rw_live w (bi_ID i) = Some (op # ops)" and i: "row_ok w i" and "closing op"
    and "bi_ID i' = bi_ID i" "bi_Status i' \<noteq> ''queued''" "bi_Status i' \<noteq> ''running''"
  shows "row_ok (exec_step now (bi_ID i) op ops w) i'"
proof -
  have "is_start op = 0" using \<open>closing op\<close> by (cases op) (auto simp: is_start_def)
  then show ?thesis
    using assms by (simp add: row_ok_def script_ok_def exec_step_def)
qed

lemma exec_ok:
  assumes w: "world_ok w" and live: "rw_live w iid = Some (op # ops)" and now: "now \<noteq> []"
  shows "world_ok (exec_step now iid op ops w)"
proof (cases op)
  case (Do eff)
  show ?thesis
  proof (cases eff)
    case Started
    have e: "exec_op now iid op = upd_items (\<lambda>i. bi_ID i = iid \<and> bi_DifyStartedAt i = []) (\<lambda>i. i\<lparr>bi_DifyStartedAt := now\<rparr>)"
      using Do Started by (simp add: exec_op_def MarkItemDifyStarted_def fun_eq_iff)
    show ?thesis
      by (rule exec_rows [OF w live e])
        (use live now Do in \<open>auto intro!: exec_open_row simp: shows_start_def\<close>)
  next
    case (Ref runID conv task)
    have e: "exec_op now iid op = upd_items (\<lambda>i. bi_ID i = iid) (\<lambda>i. i\<lparr>bi_RunID := keep_nonempty runID (bi_RunID i),
        bi_ConvID := keep_nonempty conv (bi_ConvID i), bi_TaskID := keep_nonempty task (bi_TaskID i)\<rparr>)"
      using Do Ref by (simp add: exec_op_def SaveItemDifyRef_def fun_eq_iff)
    show ?thesis
      by (rule exec_rows [OF w live e])
        (use live Do Ref in \<open>auto intro!: exec_open_row simp: shows_start_def has_handle_def keep_nonempty_def\<close>)
  next
    case (Stop task)
    have e: "exec_op now iid op = upd_items (\<lambda>_. False) (\<lambda>i. i)"
      using Do Stop by (simp add: exec_op_def upd_items_def update_where_def fun_eq_iff)
    show ?thesis
      by (rule exec_rows [OF w live e]) (use live Do Stop in \<open>auto intro!: exec_open_row\<close>)
  qed
next
  case (Finish st attempts runID detail)
  have e: "exec_op now iid op = upd_items (\<lambda>i. bi_ID i = iid) (finish_assign now st attempts runID detail)"
    using Finish by (simp add: exec_op_def FinishItem_def fun_eq_iff)
  show ?thesis
    by (rule exec_rows [OF w live e])
      (use live Finish in \<open>auto intro!: exec_closed_row simp: finish_assign_def\<close>)
next
  case FinishCancelled
  have e: "exec_op now iid op = upd_items (\<lambda>i. bi_ID i = iid) (cancel_assign now)"
    using FinishCancelled by (simp add: exec_op_def FinishItemCancelled_def fun_eq_iff)
  show ?thesis
    by (rule exec_rows [OF w live e])
      (use live FinishCancelled in \<open>auto intro!: exec_closed_row simp: cancel_assign_def\<close>)
qed

lemma requeue_ok:
  assumes w: "world_ok w" and r: "''running'' \<notin> set statuses"
  shows "world_ok (requeue_step jobID statuses w)"
proof -
  let ?P = "\<lambda>i. bi_JobID i = jobID \<and> bi_Status i \<in> set (if statuses = [] then [''failed''] else statuses)"
  have idle: "bi_Status i \<noteq> ''running''" if "?P i" for i using that r by (auto split: if_splits)
  have hit: "requeued jobID statuses (rw_db w) (bi_ID i)" if "i \<in> set (db_items (rw_db w))" "?P i" for i
    using that by (auto simp: requeued_def list_ex_iff)
  have miss: "\<not> requeued jobID statuses (rw_db w) (bi_ID i)"
    if "i \<in> set (db_items (rw_db w))" "\<not> ?P i" for i
    using that world_okD(4) [OF w] by (auto simp: requeued_def list_ex_iff distinct_map inj_on_def)
  have "world_ok (w\<lparr>rw_db := upd_items ?P requeue_assign (rw_db w),
      rw_retries := (\<lambda>k. rw_retries w k + (if requeued jobID statuses (rw_db w) k then 1 else 0))\<rparr>)"
    (is "world_ok ?w")
  proof (rule update_ok [OF w, where P = ?P and f = requeue_assign])
    show "row_ok ?w (requeue_assign i)" if "i \<in> set (db_items (rw_db w))" "?P i" "row_ok w i" for i
      using hit [OF that(1,2)] idle [OF that(2)] that(3)
      by (auto simp: row_ok_def script_ok_def requeue_assign_def has_handle_def split: option.splits)
    show "row_ok ?w i" if "i \<in> set (db_items (rw_db w))" "\<not> ?P i" "row_ok w i" for i
      using miss [OF that(1,2)] that(3) by (auto simp: row_ok_def script_ok_def split: option.splits)
  qed (use world_okD(1) [OF w] in \<open>auto simp: requeue_assign_def\<close>)
  then have "world_ok (?w\<lparr>rw_db := snd (RequeueItems jobID statuses (rw_db w))\<rparr>)"
    by (rule jobs_ok) (simp add: RequeueItems_def Let_def split del: if_split)
  moreover have "?w\<lparr>rw_db := snd (RequeueItems jobID statuses (rw_db w))\<rparr> = requeue_step jobID statuses w"
    by (cases w) (simp add: requeue_step_def)
  ultimately show ?thesis by simp
qed

lemma resume_ok:
  assumes w: "world_ok w" and idle: "rw_live w = (\<lambda>_. None)"
  shows "world_ok (w\<lparr>rw_db := snd (resume_items env (rw_db w))\<rparr>)"
proof -
  have mark: "world_ok (v\<lparr>rw_db := mark_untracked env i (rw_db v)\<rparr>)"
    if v: "world_ok v" and live: "rw_live v = (\<lambda>_. None)" for v i
  proof (rule update_ok [OF v])
    let ?P = "\<lambda>r. bi_ID r = bi_ID i"
    show "rw_db (v\<lparr>rw_db := mark_untracked env i (rw_db v)\<rparr>) = upd_items ?P (finish_assign (nowStr env) Untracked 1 []
       (if bi_TaskID i \<noteq> []
        then ''resume: run started on dify (task '' @ bi_TaskID i @ '') but left no reconcilable id; not re-run to avoid a duplicate charged run''
        else ''resume: run reached dify but left no reconcilable id; not re-run to avoid a duplicate charged run'')) (rw_db v)"
      by (simp add: mark_untracked_def FinishItem_def)
  qed (use live world_okD(1) [OF v] in \<open>auto simp: finish_assign_def intro: same_row_ok closed_row_ok\<close>)
  have marks: "world_ok (v\<lparr>rw_db := fold (mark_untracked env) is (rw_db v)\<rparr>)"
    if "world_ok v" "rw_live v = (\<lambda>_. None)" for v "is"
    using that
  proof (induction "is" arbitrary: v)
    case (Cons i "is")
    then show ?case using Cons.IH [OF mark [OF Cons.prems, of i]] by simp
  qed simp
  let ?db = "fold (mark_untracked env) (StartedUnreconcilableItems (rw_db w)) (rw_db w)"
  have m: "world_ok (w\<lparr>rw_db := ?db\<rparr>)" using marks [OF w idle] .
  show ?thesis
  proof (rule update_ok [OF m])
    show "rw_db (w\<lparr>rw_db := snd (resume_items env (rw_db w))\<rparr>)
      = upd_items (\<lambda>i. bi_Status i = ''running'' \<and> \<not> shows_start i) (\<lambda>i. i\<lparr>bi_Status := ''queued''\<rparr>)
          (rw_db (w\<lparr>rw_db := ?db\<rparr>))"
      by (simp add: resume_items_def ResetInFlightItems_def shows_start_def has_handle_def conj_ac)
  qed (use idle world_okD(1) [OF w] in \<open>auto simp: row_ok_def script_ok_def shows_start_def has_handle_def\<close>)
qed

lemma settle_ok:
  assumes w: "world_ok w" and idle: "rw_live w iid = None"
  shows "world_ok (w\<lparr>rw_db := FinishItem now iid st attempts runID detail (rw_db w)\<rparr>)"
  by (rule update_ok [OF w, where P = "\<lambda>i. bi_ID i = iid" and f = "finish_assign now st attempts runID detail"])
    (use idle world_okD(1) [OF w] in \<open>auto simp: FinishItem_def finish_assign_def intro: same_row_ok closed_row_ok\<close>)

lemma panic_ok:
  assumes w: "world_ok w" and live: "rw_live w iid = Some ops"
  shows "world_ok (w\<lparr>rw_db := panic_close now iid reason (rw_db w), rw_live := (rw_live w)(iid := None)\<rparr>)"
    (is "world_ok ?w")
proof (rule update_ok [OF w, where P = "\<lambda>i. bi_ID i = iid" and f = "finish_assign now Untracked 1 [] (''panic: '' @ reason)"])
  show "row_ok ?w i" if "bi_ID i \<noteq> iid" "row_ok w i" for i
    by (rule same_row_ok [OF that(2)]) (use that(1) in simp_all)
qed (use world_okD(1) [OF w] in \<open>auto simp: panic_close_def FinishItem_def finish_assign_def intro: closed_row_ok\<close>)

lemma cancel_ok:
  assumes w: "world_ok w"
  shows "world_ok (w\<lparr>rw_db := snd (CancelQueuedItem now iid (rw_db w))\<rparr>)"
  by (rule update_ok [OF w, where P = "\<lambda>i. bi_ID i = iid \<and> bi_Status i = ''queued''" and f = "cancel_assign now"])
    (use world_okD(1) [OF w] in \<open>auto simp: CancelQueuedItem_def Let_def cancel_assign_def row_ok_def script_ok_def
       split: option.splits\<close>)

lemma delete_ok:
  assumes w: "world_ok w"
  shows "world_ok (w\<lparr>rw_db := DeleteBatchJob jobID (rw_db w)\<rparr>)"
proof (rule world_okI)
  show "distinct (map bi_ID (db_items (rw_db (w\<lparr>rw_db := DeleteBatchJob jobID (rw_db w)\<rparr>))))"
    using world_okD(4) [OF w] by (simp add: DeleteBatchJob_def distinct_map_filter)
qed (use world_okD(1-3) [OF w] in \<open>auto simp: DeleteBatchJob_def same_row_ok [of w]\<close>)

lemma crash_ok: "world_ok w \<Longrightarrow> world_ok (w\<lparr>rw_live := (\<lambda>_. None)\<rparr>)"
  by (rule same_world_ok) (auto simp: row_ok_def script_ok_def dest: world_okD(1))

lemma run_step_ok: "run_step w w' \<Longrightarrow> world_ok w \<Longrightarrow> world_ok w'"
  by (induction rule: run_step.induct)
    (simp_all add: jobs_ok create_ok admit_ok [OF _ _ careful_starts] exec_ok panic_ok crash_ok resume_ok settle_ok
      cancel_ok requeue_ok delete_ok)

lemma run_reach_ok: "run_reach w \<Longrightarrow> world_ok w"
proof (induction rule: run_reach.induct)
  case start
  show ?case by (simp add: world_ok_def ids_fresh_def empty_world_def)
qed (rule run_step_ok)


section \<open>A run through a crash\<close>

definition demo_script :: "scriptOp list" where
  "demo_script = item_script demo_decode demo_dify (\<lambda>_. demo_call (Opened [''data: go'', ''data: end''] None))
     False (\<lambda>_. False) 0"

lemma demo_script_ops: "demo_script = [Do Started, Do (Ref ''r1'' [] ''t1''), Finish Ok 1 ''r1'' []]"
  by code_simp

lemma demo_script_careful: "careful demo_script"
  unfolding careful_def demo_script_def
  by (intro disjI2 exI conjI, rule refl)
    (auto simp: plain_frames_def demo_decode_def EventStreamOpen_def demo_call_def silent_drop_def)

definition demo_row :: "string \<Rightarrow> string \<Rightarrow> BatchItem" where
  "demo_row status stamp = \<lparr>bi_ID = 1, bi_JobID = 1, bi_RowIndex = 0, bi_Inputs = ''row'', bi_Status = status,
     bi_Attempts = 0, bi_RunID = [], bi_ConvID = [], bi_TaskID = [], bi_DifyStartedAt = stamp, bi_Error = [],
     bi_StartedAt = (if status = ''running'' then ''t1'' else []), bi_FinishedAt = []\<rparr>"

definition demo_one_job :: BatchJob where
  "demo_one_job = \<lparr>bj_ID = 1, bj_TargetID = 7, bj_Status = ''queued'', bj_Priority = ''normal'', bj_Concurrency = 1,
     bj_MaxRetries = 0, bj_Total = 1, bj_Succeeded = 0, bj_Partial = 0, bj_Failed = 0, bj_CreatedBy = ''ann'',
     bj_CreatedAt = ''t0'', bj_StartedAt = [], bj_FinishedAt = [], bj_RunAt = [], bj_RunPreset = NoPreset\<rparr>"

definition demo_world :: "BatchItem \<Rightarrow> scriptOp list option \<Rightarrow> nat \<Rightarrow> runWorld" where
  "demo_world row script n = \<lparr>rw_db = \<lparr>db_jobs = [demo_one_job], db_items = [row]\<rparr>, rw_next = 2,
     rw_live = (\<lambda>_. None)(1 := script), rw_starts = (\<lambda>_. 0)(1 := n), rw_retries = (\<lambda>_. 0)\<rparr>"

lemma demo_created: "run_reach (demo_world (demo_row ''queued'' []) None 0)"
proof -
  let ?db = "\<lparr>db_jobs = [demo_one_job], db_items = [demo_row ''queued'' []]\<rparr>"
  have "CreateBatchJob ''t0'' (1, rw_next empty_world) 7 1 0 ''ann'' [''row''] [] (rw_db empty_world) = Inr (1, ?db)"
    by (simp add: CreateBatchJob_def maxBatchRows_def empty_world_def demo_one_job_def demo_row_def Let_def)
  from run_step.create [OF this] have "run_reach (empty_world\<lparr>rw_db := ?db, rw_next := rw_next empty_world + 1\<rparr>)"
    by (intro run_reach.more [OF run_reach.start]) simp
  then show ?thesis by (simp add: empty_world_def demo_world_def fun_upd_idem)
qed

lemma demo_admitted: "run_reach (demo_world (demo_row ''running'' []) (Some demo_script) 0)"
proof -
  let ?w = "demo_world (demo_row ''queued'' []) None 0"
  have "MarkItemRunning ''t1'' 1 (rw_db ?w) = (True, \<lparr>db_jobs = [demo_one_job], db_items = [demo_row ''running'' []]\<rparr>)"
    by (simp add: MarkItemRunning_def demo_world_def demo_row_def count_items_def items_with_def upd_items_def
        update_where_def start_assign_def Let_def)
  from run_step.admit [OF this demo_script_careful] show ?thesis
    by (intro run_reach.more [OF demo_created]) (simp add: demo_world_def)
qed

lemma demo_started:
  "run_reach (demo_world (demo_row ''running'' ''t2'') (Some (tl demo_script)) 1)"
proof -
  let ?w = "demo_world (demo_row ''running'' []) (Some demo_script) 0"
  have l: "rw_live ?w 1 = Some (Do Started # tl demo_script)" by (simp add: demo_world_def demo_script_ops)
  have "exec_step ''t2'' 1 (Do Started) (tl demo_script) ?w
      = demo_world (demo_row ''running'' ''t2'') (Some (tl demo_script)) 1"
    by (simp add: exec_step_def demo_world_def demo_row_def exec_op_def MarkItemDifyStarted_def upd_items_def
        update_where_def is_start_def)
  then show ?thesis using run_step.exec [OF l, of "''t2''"] run_reach.more [OF demo_admitted] by simp
qed


section \<open>Two gaps of the operator's retry\<close>

text \<open>
  The retry statement takes any status: naming \<open>running\<close> puts a row back into the queue
  while its run is still alive, and the next tick can start it a second time.
\<close>

theorem retry_requeues_running_row:
  "let w = demo_world (demo_row ''running'' ''t2'') (Some (tl demo_script)) 1;
       (n, db) = RequeueItems 1 [''running''] (rw_db w)
   in run_reach w \<and> rw_live w 1 \<noteq> None \<and> n = 1 \<and> fst (MarkItemRunning ''t3'' 1 db)"
  using demo_started
  by (simp add: RequeueItems_def demo_world_def demo_row_def count_items_def items_with_def upd_items_def
      upd_jobs_def update_where_def MarkItemRunning_def requeue_assign_def Let_def)

text \<open>
  The retry clears the run's ids but not its start stamp, so a restart before the retried
  run reaches Dify settles the row as untracked although nothing was started in this round.
\<close>

theorem retry_keeps_start_stamp:
  "let db = \<lparr>db_jobs = [demo_one_job], db_items = [demo_row ''failed'' ''t2'']\<rparr>;
       retried = snd (MarkItemRunning ''t3'' 1 (snd (RequeueItems 1 [] db)));
       (reconciling, resumed) = resume_items demo_sched retried
   in map bi_Status (db_items retried) = [''running''] \<and> reconciling = [] \<and>
      map bi_Status (db_items resumed) = [''untracked'']"
  by code_simp

end
