(* ===== verification/Run_Console.thy ===== *)
theory Run_Console
  imports Run_Submit Batch_Runs
begin

text \<open>
  What the requests of the console do to the queue over time: a cancelled job starts no further run, only
  its creator or an administrator can cancel it, a job that has expired can be neither cancelled nor
  deleted, and the stored rows keep to the vocabulary of the schema through every request, tick, restart
  and background statement (internal/app/batch_api.go, batch_run.go, batch_store.go).
\<close>

section \<open>A cancelled job starts nothing\<close>

definition closed_to :: "int \<Rightarrow> batchDb \<Rightarrow> bool" where
  "closed_to jid db \<longleftrightarrow> (\<forall>j\<in>set (db_jobs db). bj_ID j = jid \<longrightarrow> \<not> schedulable j)"

lemma upd_jobs_set: "j \<in> set (db_jobs (upd_jobs P f db)) \<longleftrightarrow>
    (\<exists>k\<in>set (db_jobs db). j = (if P k then f k else k))"
  by (auto simp: upd_jobs_def update_where_def)

text \<open>An assignment that keeps the id and never makes a job schedulable.\<close>

definition never_opens :: "(BatchJob \<Rightarrow> BatchJob) \<Rightarrow> bool" where
  "never_opens f \<longleftrightarrow> (\<forall>j. bj_ID (f j) = bj_ID j \<and> (schedulable (f j) \<longrightarrow> schedulable j))"

lemma closed_to_upd: "closed_to jid db \<Longrightarrow> never_opens f \<Longrightarrow> closed_to jid (upd_jobs P f db)"
  unfolding closed_to_def never_opens_def
proof (intro ballI impI)
  fix j
  assume c: "\<forall>j\<in>set (db_jobs db). bj_ID j = jid \<longrightarrow> \<not> schedulable j"
    and f: "\<forall>j. bj_ID (f j) = bj_ID j \<and> (schedulable (f j) \<longrightarrow> schedulable j)"
    and j: "j \<in> set (db_jobs (upd_jobs P f db))" "bj_ID j = jid"
  obtain k where "k \<in> set (db_jobs db)" "j = (if P k then f k else k)" using j(1) by (auto simp: upd_jobs_set)
  then show "\<not> schedulable j" using c f j(2) by (cases "P k") auto
qed

lemma opens_simps [simp]:
  "never_opens (\<lambda>j. j\<lparr>bj_Status := ''expired'', bj_FinishedAt := t\<rparr>)"
  "never_opens (\<lambda>j. j\<lparr>bj_RunAt := a, bj_RunPreset := p\<rparr>)"
  "never_opens (\<lambda>j. j\<lparr>bj_RunAt := []\<rparr>)"
  by (auto simp: never_opens_def schedulable_def)

lemma sweep_job_closed: "closed_to jid db \<Longrightarrow> closed_to jid (sweep_job env j db)"
  by (auto simp: sweep_job_def ExpireJob_def ClearJobWindow_def SetJobWindow_def Let_def
      intro!: closed_to_upd split: presetCol.splits option.splits prod.splits)

lemma sweep_closed: "closed_to jid db \<Longrightarrow> closed_to jid (sweepPresetWindowsLocked env db)"
  unfolding sweepPresetWindowsLocked_def
  by (rule fold_invariant [where P = "closed_to jid" and Q = "\<lambda>_. True"]) (auto intro: sweep_job_closed)

lemma FinishJob_closed: "closed_to jid db \<Longrightarrow> closed_to jid (FinishJob now k cancelled db)"
  unfolding FinishJob_def by (rule closed_to_upd) (auto simp: never_opens_def schedulable_def)

lemma finalizeJob_closed: "closed_to jid db \<Longrightarrow> closed_to jid (finalizeJob env k db)"
  by (auto simp: finalizeJob_def finalizeLocked_def Let_def FinishJob_closed split: option.splits)

lemma dispatched_rows_queued:
  assumes "\<And>iid m. meta iid = Some m \<Longrightarrow> Q m"
  shows "\<forall>m\<in>set started. Q m \<Longrightarrow> \<forall>m\<in>set (fst (fold (dispatch env meta) its (started, db))). Q m"
proof (induction its arbitrary: started db)
  case (Cons it its)
  obtain started1 db1 where d: "dispatch env meta it (started, db) = (started1, db1)" by fastforce
  have "\<forall>m\<in>set started1. Q m"
    using d Cons.prems assms by (auto simp: dispatch_def split: option.splits prod.splits if_splits)
  then show ?case using Cons.IH [of started1 db1] d by simp
qed simp

lemma candidate_schedulable:
  "c \<in> set (itemCandidates env db) \<Longrightarrow> fst (snd c) \<in> set (SchedulableJobs db)"
  by (auto simp: itemCandidates_def job_candidates_def Let_def split: if_splits)

lemma admitted_schedulable:
  "m \<in> set (fst (admitLocked env db)) \<Longrightarrow> fst m \<in> set (db_jobs db) \<and> schedulable (fst m)"
proof -
  assume m: "m \<in> set (fst (admitLocked env db))"
  let ?Q = "\<lambda>m. fst m \<in> set (db_jobs db) \<and> schedulable (fst m)"
  have meta: "?Q m'" if "candidate_meta (itemCandidates env db) iid = Some m'" for iid m'
  proof -
    have "(iid, m') \<in> set (rev (map (\<lambda>(it, m). (it_ID it, m)) (itemCandidates env db)))"
      using that map_of_SomeD unfolding candidate_meta_def by fastforce
    then obtain it where "(it, m') \<in> set (itemCandidates env db)" by auto
    from candidate_schedulable [OF this] show ?thesis
      by (simp add: SchedulableJobs_def jobs_by_id_def)
  qed
  show ?thesis
    using dispatched_rows_queued [of "candidate_meta (itemCandidates env db)" ?Q "[]"] meta m
    by (auto simp: admitLocked_def Let_def split: if_splits)
qed

lemma tick_skips_closed:
  assumes "closed_to jid db" and "m \<in> set (fst (scheduleTick env db))"
  shows "bj_ID (fst m) \<noteq> jid"
proof -
  have "m \<in> set (fst (admitLocked env (sweepPresetWindowsLocked env db)))"
    using assms(2) by (simp add: scheduleTick_def Let_def split: prod.splits)
  from admitted_schedulable [OF this] show ?thesis
    using sweep_closed [OF assms(1)] unfolding closed_to_def by blast
qed

lemma one_row_by_id:
  assumes "distinct (map f xs)" "x \<in> set xs" "f x = a" "P x"
  shows "length (filter (\<lambda>x. f x = a \<and> P x) xs) = 1"
proof -
  have "length (filter (\<lambda>x. f x = a \<and> P x) xs) \<noteq> 0" using assms(2-4) by (auto simp: filter_empty_conv)
  then show ?thesis using one_with_id [OF assms(1), of a P] by linarith
qed

lemma CancelBatchJob_closed:
  assumes "distinct (map bj_ID (db_jobs db))"
  shows "closed_to jid (CancelBatchJob now jid db)"
proof -
  let ?P = "\<lambda>j. bj_ID j = jid \<and> bj_Status j = ''queued''"
  have one: "length (filter ?P (db_jobs db)) = 1" if "j \<in> set (db_jobs db)" "?P j" for j
    using one_row_by_id [OF assms, where P = "\<lambda>j. bj_Status j = ''queued''"] that by simp
  have same: "k = j" if "j \<in> set (db_jobs db)" "k \<in> set (db_jobs db)" "bj_ID k = bj_ID j" for j k
    using assms that by (auto simp: distinct_map inj_on_def)
  show ?thesis
  proof (cases "length (filter ?P (db_jobs db)) = 1")
    case True
    then have "filter ?P (db_jobs db) \<noteq> []" by fastforce
    then obtain j where "j \<in> set (db_jobs db)" "?P j" unfolding filter_empty_conv by blast
    then have only: "\<forall>k\<in>set (db_jobs db). bj_ID k = jid \<longrightarrow> k = j" "bj_Status j = ''queued''" "bj_ID j = jid"
      using same by auto
    have "\<not> schedulable k'" if k': "k' \<in> set (db_jobs (CancelBatchJob now jid db))" "bj_ID k' = jid" for k'
    proof -
      obtain k where k: "k \<in> set (db_jobs db)"
        "k' = (if ?P k then k\<lparr>bj_Status := ''cancelled'', bj_FinishedAt := now\<rparr> else k)"
        using k'(1) True by (auto simp: CancelBatchJob_def Let_def upd_jobs_set)
      then have "k = j" using only(1) k'(2) by (simp split: if_splits)
      then show ?thesis using k(2) only(2,3) by (simp add: schedulable_def)
    qed
    then show ?thesis by (simp add: closed_to_def)
  next
    case False
    then have c: "CancelBatchJob now jid db = upd_jobs (\<lambda>j. bj_ID j = jid \<and> bj_Status j = ''running'')
        (\<lambda>j. j\<lparr>bj_Status := ''cancelling''\<rparr>) db"
      unfolding CancelBatchJob_def Let_def by (rule if_not_P)
    have "\<not> ?P j" if "j \<in> set (db_jobs db)" for j using one [OF that] False by blast
    then have q: "bj_Status k \<noteq> ''queued''" if "k \<in> set (db_jobs db)" "bj_ID k = jid" for k using that by blast
    have "\<not> schedulable k'" if k': "k' \<in> set (db_jobs (CancelBatchJob now jid db))" "bj_ID k' = jid" for k'
    proof -
      obtain k where k: "k \<in> set (db_jobs db)"
        "k' = (if bj_ID k = jid \<and> bj_Status k = ''running'' then k\<lparr>bj_Status := ''cancelling''\<rparr> else k)"
        using k'(1) unfolding c upd_jobs_set by blast
      then have "bj_ID k = jid" using k'(2) by (simp split: if_splits)
      then show ?thesis using q [OF k(1)] k(2) by (simp add: schedulable_def)
    qed
    then show ?thesis by (simp add: closed_to_def)
  qed
qed

lemma others_kept:
  assumes "\<And>j. P j \<Longrightarrow> bj_ID j = jid" "\<And>j. bj_ID (f j) = bj_ID j"
  shows "filter (\<lambda>j. bj_ID j \<noteq> jid) (db_jobs (upd_jobs P f db)) = filter (\<lambda>j. bj_ID j \<noteq> jid) (db_jobs db)"
proof -
  have "filter (\<lambda>j. bj_ID j \<noteq> jid) (map (\<lambda>j. if P j then f j else j) js) = filter (\<lambda>j. bj_ID j \<noteq> jid) js" for js
    using assms by (induction js) auto
  then show ?thesis by (simp add: upd_jobs_def update_where_def)
qed



section \<open>Expired jobs\<close>

lemma fold_delete_keeps:
  "j \<in> set (db_jobs db) \<Longrightarrow> bj_ID j \<notin> set ids \<Longrightarrow> j \<in> set (db_jobs (fold DeleteBatchJob ids db))"
  by (induction ids arbitrary: db) (simp_all add: DeleteBatchJob_def)

lemma GetBatchJobD: "GetBatchJob db jid = Some j \<Longrightarrow> j \<in> set (db_jobs db) \<and> bj_ID j = jid"
  unfolding GetBatchJob_def by (rule find_SomeE)

text \<open>
  A job that expired in the queue with rows still waiting is stuck there for the console: its
  deletion is refused with the advice to cancel it first, a cancel changes nothing, and clearing the
  finished jobs keeps it.
\<close>

theorem expired_job_is_stuck:
  assumes "GetBatchJob db jid = Some j" and "bj_Status j = ''expired''" and "distinct (map bj_ID (db_jobs db))"
    and "0 < job_count ''queued'' jid db"
  shows "apiBatchJobDelete jid db = Inl (409, ''cancel the job before deleting it'') \<and>
    snd (apiBatchJobCancel env adb user jid db) = db \<and> j \<in> set (db_jobs (snd (DeleteFinishedJobs db)))"
proof -
  have j: "j \<in> set (db_jobs db)" "bj_ID j = jid" using GetBatchJobD [OF assms(1)] by auto
  have only: "k = j" if "k \<in> set (db_jobs db)" "bj_ID k = jid" for k
    using assms(3) j that by (auto simp: distinct_map inj_on_def)
  have none: "filter (\<lambda>k. bj_ID k = jid \<and> bj_Status k = s) (db_jobs db) = []" if "s \<noteq> ''expired''" for s
    using only assms(2) that by (force simp: filter_empty_conv)
  have keep: "upd_jobs (\<lambda>k. bj_ID k = jid \<and> bj_Status k = ''running'') f db = db" for f
    using none [of "''running''"] by (simp add: upd_jobs_def filter_empty_conv update_where_none)
  have "CancelBatchJob now jid db = db" for now
    using none [of "''queued''"] by (simp add: CancelBatchJob_def keep)
  moreover have "finalizeJob env jid db = db"
    using assms(1,2,4) by (simp add: finalizeJob_def finalizeLocked_def LiveJobCounts_def Let_def)
  ultimately have "snd (apiBatchJobCancel env adb user jid db) = db"
    by (simp add: apiBatchJobCancel_def split: sum.splits)
  moreover have "j \<in> set (db_jobs (snd (DeleteFinishedJobs db)))"
    unfolding DeleteFinishedJobs_def Let_def snd_conv
    by (rule fold_delete_keeps [OF j(1)]) (use only j assms(2) in force)
  ultimately show ?thesis using assms(1,2) by (simp add: apiBatchJobDelete_def)
qed

lemma expired_job_is_stuck_witness:
  "let db = \<lparr>db_jobs = [demo_one_job\<lparr>bj_ID := 5, bj_Status := ''expired''\<rparr>],
             db_items = [(demo_row ''queued'' [])\<lparr>bi_JobID := 5\<rparr>]\<rparr>
   in apiBatchJobDelete 5 db = Inl (409, ''cancel the job before deleting it'') \<and>
      snd (apiBatchJobCancel demo_sched demo_access ''ann'' 5 db) = db"
proof -
  let ?j = "demo_one_job\<lparr>bj_ID := 5, bj_Status := ''expired''\<rparr>"
  let ?db = "\<lparr>db_jobs = [?j], db_items = [(demo_row ''queued'' [])\<lparr>bi_JobID := 5\<rparr>]\<rparr>"
  have "GetBatchJob ?db 5 = Some ?j" by (simp add: GetBatchJob_def)
  moreover have "0 < job_count ''queued'' 5 ?db"
    by (simp add: job_count_def count_items_def items_with_def of_job_def demo_row_def)
  ultimately show ?thesis using expired_job_is_stuck [of ?db 5 ?j demo_sched demo_access "''ann''"] by simp
qed

section \<open>The stored rows keep to the schema\<close>

definition job_statuses :: "string list" where
  "job_statuses = [''queued'', ''running'', ''cancelling'', ''finished'', ''cancelled'', ''expired'']"

definition item_statuses :: "string list" where
  "item_statuses = [''queued'', ''running'', ''succeeded'', ''partial'', ''untracked'', ''failed'', ''cancelled'']"

text \<open>A stored priority the scheduler reads back as what was meant.\<close>

definition good_priority :: "string \<Rightarrow> bool" where
  "good_priority p \<longleftrightarrow> p = ''urgent'' \<or> p = ''idle'' \<or> (\<exists>n. 0 \<le> n \<and> n \<le> 100 \<and> p = itoa n)"

definition typed_job :: "BatchJob \<Rightarrow> bool" where
  "typed_job j \<longleftrightarrow> bj_Status j \<in> set job_statuses \<and> good_priority (bj_Priority j) \<and> 1 \<le> bj_Concurrency j \<and>
     0 \<le> bj_MaxRetries j \<and> 0 \<le> bj_Total j"

definition typed_db :: "batchDb \<Rightarrow> bool" where
  "typed_db db \<longleftrightarrow> distinct (map bj_ID (db_jobs db)) \<and> (\<forall>j\<in>set (db_jobs db). typed_job j) \<and>
     (\<forall>i\<in>set (db_items db). bi_Status i \<in> set item_statuses)"

named_theorems typed_intros

lemma typed_jobs:
  assumes "typed_db db" "\<And>j. typed_job j \<Longrightarrow> typed_job (f j) \<and> bj_ID (f j) = bj_ID j"
  shows "typed_db (upd_jobs P f db)"
proof -
  have "map bj_ID (map (\<lambda>j. if P j then f j else j) (db_jobs db)) = map bj_ID (db_jobs db)"
    using assms by (auto simp: typed_db_def)
  then have "distinct (map bj_ID (db_jobs (upd_jobs P f db)))"
    using assms(1) by (simp add: typed_db_def upd_jobs_def update_where_def del: map_map)
  then show ?thesis using assms by (auto simp: typed_db_def upd_jobs_def update_where_def)
qed

lemma typed_items:
  "typed_db db \<Longrightarrow> (\<And>i. bi_Status i \<in> set item_statuses \<Longrightarrow> bi_Status (f i) \<in> set item_statuses) \<Longrightarrow>
   typed_db (upd_items P f db)"
  by (auto simp: typed_db_def upd_items_def update_where_def)

lemma status_words [simp]:
  "''queued'' \<in> set job_statuses" "''running'' \<in> set job_statuses" "''cancelling'' \<in> set job_statuses"
  "''finished'' \<in> set job_statuses" "''cancelled'' \<in> set job_statuses" "''expired'' \<in> set job_statuses"
  "''queued'' \<in> set item_statuses" "''running'' \<in> set item_statuses" "''cancelled'' \<in> set item_statuses"
  "itemStatus st \<in> set item_statuses"
  by (auto simp: job_statuses_def item_statuses_def itemStatus_def split: Outcome.splits)

lemma typed_statements [typed_intros]:
  "typed_db db \<Longrightarrow> typed_db (FinishItem now iid st attempts runID detail db)"
  "typed_db db \<Longrightarrow> typed_db (SaveItemDifyRef iid runID conv task db)"
  "typed_db db \<Longrightarrow> typed_db (MarkItemDifyStarted now iid db)"
  "typed_db db \<Longrightarrow> typed_db (snd (MarkItemRunning now iid db))"
  "typed_db db \<Longrightarrow> typed_db (snd (CancelQueuedItem now iid db))"
  "typed_db db \<Longrightarrow> typed_db (FinishItemCancelled now iid db)"
  "typed_db db \<Longrightarrow> typed_db (ResetInFlightItems db)"
  "typed_db db \<Longrightarrow> typed_db (FinishJob now jid cancelled db)"
  "typed_db db \<Longrightarrow> typed_db (snd (MarkJobRunning now jid db))"
  "typed_db db \<Longrightarrow> typed_db (SetJobWindow jid runAt preset db)"
  "typed_db db \<Longrightarrow> typed_db (ClearJobWindow jid db)"
  "typed_db db \<Longrightarrow> typed_db (ScheduleJob jid runAt db)"
  "typed_db db \<Longrightarrow> typed_db (ExpireJob now jid db)"
  "typed_db db \<Longrightarrow> typed_db (CancelBatchJob now jid db)"
  "typed_db db \<Longrightarrow> good_priority prio \<Longrightarrow> typed_db (SetJobPriority jid prio db)"
  by (auto simp: FinishItem_def SaveItemDifyRef_def MarkItemDifyStarted_def MarkItemRunning_def CancelQueuedItem_def
      FinishItemCancelled_def ResetInFlightItems_def FinishJob_def MarkJobRunning_def SetJobWindow_def ClearJobWindow_def
      ScheduleJob_def ClearSchedule_def ExpireJob_def CancelBatchJob_def SetJobPriority_def finish_assign_def
      start_assign_def cancel_assign_def typed_job_def count_items_def Let_def intro!: typed_jobs typed_items)

lemma typed_RequeueItems [typed_intros]: "typed_db db \<Longrightarrow> typed_db (snd (RequeueItems jid statuses db))"
  unfolding RequeueItems_def Let_def snd_conv
  by (intro typed_jobs typed_items) (auto simp: typed_job_def requeue_assign_def)

lemma typed_DeleteBatchJob [typed_intros]: "typed_db db \<Longrightarrow> typed_db (DeleteBatchJob jid db)"
  by (auto simp: typed_db_def DeleteBatchJob_def distinct_map_filter)

lemma typed_fold: "(\<And>x db. typed_db db \<Longrightarrow> typed_db (f x db)) \<Longrightarrow> typed_db db \<Longrightarrow> typed_db (fold f xs db)"
  by (induction xs arbitrary: db) auto

lemma typed_DeleteFinishedJobs [typed_intros]: "typed_db db \<Longrightarrow> typed_db (snd (DeleteFinishedJobs db))"
  by (simp add: DeleteFinishedJobs_def Let_def typed_fold typed_DeleteBatchJob)

lemma typed_finalize [typed_intros]: "typed_db db \<Longrightarrow> typed_db (snd (finalizeLocked env jid db))"
  by (auto simp: finalizeLocked_def Let_def intro: typed_intros split: option.splits)

lemma typed_finalizeJob [typed_intros]: "typed_db db \<Longrightarrow> typed_db (finalizeJob env jid db)"
  by (simp add: finalizeJob_def typed_finalize)

lemma typed_finalize_into: "typed_db (snd s) \<Longrightarrow> typed_db (snd (finalize_into env jid s))"
  using typed_finalize [of "snd s" env jid] by (cases s) (auto simp: finalize_into_def split: prod.splits option.splits)

lemma typed_fold_finalize: "typed_db (snd s) \<Longrightarrow> typed_db (snd (fold (finalize_into env) ids s))"
  by (induction ids arbitrary: s) (simp_all add: typed_finalize_into)

lemma typed_sweep: "typed_db db \<Longrightarrow> typed_db (sweepPresetWindowsLocked env db)"
  unfolding sweepPresetWindowsLocked_def
  by (rule typed_fold) (auto simp: sweep_job_def Let_def intro: typed_intros split: presetCol.splits option.splits prod.splits)

lemma typed_dispatch: "typed_db (snd s) \<Longrightarrow> typed_db (snd (dispatch env meta it s))"
  by (cases s) (auto simp: dispatch_def split: option.splits prod.splits
      dest: typed_statements(4) [where now = "nowStr env" and iid = "it_ID it"] intro!: typed_statements(9))

lemma typed_fold_dispatch: "typed_db (snd s) \<Longrightarrow> typed_db (snd (fold (dispatch env meta) its s))"
  by (induction its arbitrary: s) (simp_all add: typed_dispatch)

lemma typed_admit: "typed_db db \<Longrightarrow> typed_db (snd (admitLocked env db))"
  by (simp add: admitLocked_def Let_def typed_fold_dispatch)

lemma typed_tick:
  assumes "typed_db db" "scheduleTick env db = (started, fin, db')"
  shows "typed_db db'"
proof -
  obtain s1 db1 where a: "admitLocked env (sweepPresetWindowsLocked env db) = (s1, db1)" by fastforce
  have "typed_db db1" using typed_admit [OF typed_sweep [OF assms(1)], of env env] a by simp
  then have t: "typed_db (snd (fold (finalize_into env) ids (xs, db1)))" for ids xs by (simp add: typed_fold_finalize)
  obtain f1 db2 where b: "fold (finalize_into env) (map bj_ID (filter (\<lambda>j. liveItems db1 j = 0) (SchedulableJobs db1))) ([], db1)
      = (f1, db2)" by fastforce
  have "typed_db db2" using t b by (metis snd_conv)
  then have "typed_db (snd (fold (finalize_into env) (CancellingJobIDs db2) (f1, db2)))" by (simp add: typed_fold_finalize)
  then show ?thesis using assms(2) a b by (simp add: scheduleTick_def split: prod.splits)
qed

text \<open>
  The queue under the console's requests, the scheduler's ticks, restarts and the statements of background
  runs. A submit takes a fresh job id from the database.
\<close>

inductive queue_step :: "batchDb \<Rightarrow> batchDb \<Rightarrow> bool" where
  submit: "submit_job env user inp po = (answer, po') \<Longrightarrow>
    fst (se_fresh env) \<notin> bj_ID ` set (db_jobs (po_batch po)) \<Longrightarrow> queue_step (po_batch po) (po_batch po')"
| tick: "scheduleTick sv db = (started, fin, db') \<Longrightarrow> queue_step db db'"
| cancel: "apiBatchJobCancel sv adb user jid db = (res, db') \<Longrightarrow> queue_step db db'"
| cancel_rows: "apiBatchItemsCancel sv adb user jid ids db = (rows, db') \<Longrightarrow> queue_step db db'"
| retry: "apiBatchJobRetry sv jid statuses db = (n, started, db') \<Longrightarrow> queue_step db db'"
| reprioritize: "apiBatchJobReprioritize sv jid prio db = (stored, started, db') \<Longrightarrow> queue_step db db'"
| reschedule: "apiBatchJobSchedule sv jid runAt db = (stored, started, db') \<Longrightarrow> queue_step db db'"
| delete: "apiBatchJobDelete jid db = Inr db' \<Longrightarrow> queue_step db db'"
| clear: "DeleteFinishedJobs db = (n, db') \<Longrightarrow> queue_step db db'"
| reconcile: "apiBatchItemReconcile sv live answers iid db = (stored, started, db') \<Longrightarrow> queue_step db db'"
| exec: "queue_step db (exec_op now iid op db)"
| panic: "queue_step db (panic_close now iid reason db)"
| restart: "resume_items sv db = (reconciling, db') \<Longrightarrow> queue_step db db'"

inductive queue_reach :: "batchDb \<Rightarrow> bool" where
  empty: "queue_reach \<lparr>db_jobs = [], db_items = []\<rparr>"
| more: "queue_reach db \<Longrightarrow> queue_step db db' \<Longrightarrow> queue_reach db'"

lemma good_stored: "p \<in> {''urgent'', ''idle'', itoa n} \<Longrightarrow> 0 \<le> n \<Longrightarrow> n \<le> 100 \<Longrightarrow> good_priority p"
  by (auto simp: good_priority_def)

lemma new_items_status: "i \<in> set (new_items iid jid idx rows) \<Longrightarrow> bi_Status i = ''queued''"
  using new_items_rows by blast

lemma typed_submit:
  assumes "submit_job env user inp po = (answer, po')" "typed_db (po_batch po)"
    and "fst (se_fresh env) \<notin> bj_ID ` set (db_jobs (po_batch po))"
  shows "typed_db (po_batch po')"
proof (cases "\<exists>c. answer = Created c")
  case True
  then obtain c where "submit_job env user inp po = (Created c, po')" using assms(1) by auto
  then obtain po1 sched where g: "passed_gates env user inp po po1 sched"
    and st: "submit_store env po1 user inp (map drop_reserved (si_Rows inp))
       (submit_priority (se_sched env) (po_access po) user (si_Priority inp)) sched = (Created c, po')"
    by (rule submit_createdE)
  have b: "po_batch po1 = po_batch po" using g by (simp add: passed_gates_def)
  note pc = submit_priority_cases [where env = "se_sched env" and adb = "po_access po" and user = user and p = "si_Priority inp"]
  have fr: "fst (se_fresh env) \<notin> bj_ID ` set (db_jobs (po_batch po1))" using assms(3) b by simp
  note stored = submit_store_created [OF st fr pc [THEN conjunct1] pc [THEN conjunct2, THEN conjunct1]
      pc [THEN conjunct2, THEN conjunct2]]
  have jid: "ca_JobID c = fst (se_fresh env)"
    using st by (auto simp: submit_store_def CreateBatchJob_def Let_def split: prod.splits sum.splits if_splits)
  obtain j where j: "db_jobs (po_batch po') = db_jobs (po_batch po) @ [j]" "bj_ID j = fst (se_fresh env)"
    "stored_job (se_sched env) (po_access po1) user (int (length (map drop_reserved (si_Rows inp))))
       (fst (submit_priority (se_sched env) (po_access po) user (si_Priority inp))) j"
    using stored(1) b jid by auto
  have "good_priority (bj_Priority j)"
    by (rule good_stored) (use j(3) pc in \<open>auto simp: stored_job_def\<close>)
  then have "typed_job j" using j(3) by (simp add: stored_job_def typed_job_def)
  then show ?thesis using assms(2,3) j stored(2) b
    by (auto simp: typed_db_def dest: new_items_status)
next
  case False
  then show ?thesis using unsuccessful_submit_keeps assms by metis
qed

lemma typed_reprioritize: "normalizePriorityInput p = Some q \<Longrightarrow> good_priority q"
  using clampBase_bounds by (auto simp: normalizePriorityInput_def good_priority_def Let_def split: if_splits option.splits)

lemma typed_cancel_row: "typed_db (snd (snd s)) \<Longrightarrow> typed_db (snd (snd (cancel_row env jid iid s)))"
  using typed_statements(5) [where now = "nowStr env" and iid = iid and db = "snd (snd s)"]
  by (cases s) (auto simp: cancel_row_def split: option.splits prod.splits)

lemma typed_cancel_rows: "typed_db (snd (snd s)) \<Longrightarrow> typed_db (snd (snd (fold (cancel_row env jid) ids s)))"
  by (induction ids arbitrary: s) (simp_all add: typed_cancel_row)

lemma typed_exec [typed_intros]: "typed_db db \<Longrightarrow> typed_db (exec_op now iid op db)"
  by (auto simp: exec_op_def intro: typed_intros split: scriptOp.splits difyEffect.splits)

lemma typed_restart: "typed_db db \<Longrightarrow> typed_db (snd (resume_items env db))"
  unfolding resume_items_def snd_conv
  by (intro typed_statements(7) typed_fold) (auto simp: mark_untracked_def intro: typed_intros)

lemma typed_cancel: "typed_db db \<Longrightarrow> typed_db (snd (apiBatchJobCancel sv adb user jid db))"
  by (auto simp: apiBatchJobCancel_def intro: typed_intros split: sum.splits)

lemma typed_rows: "typed_db db \<Longrightarrow> typed_db (snd (apiBatchItemsCancel sv adb user jid ids db))"
  using typed_cancel_rows [of "(0, [], db)" sv jid ids]
  by (auto simp: apiBatchItemsCancel_def intro: typed_intros split: sum.splits prod.splits)

lemma typed_retry: "typed_db db \<Longrightarrow> apiBatchJobRetry sv jid statuses db = (n, started, db') \<Longrightarrow> typed_db db'"
  using typed_RequeueItems [of db jid statuses]
  by (auto simp: apiBatchJobRetry_def split: prod.splits intro: typed_tick [rotated])

lemma typed_reprio:
  "typed_db db \<Longrightarrow> apiBatchJobReprioritize sv jid prio db = (stored, started, db') \<Longrightarrow> typed_db db'"
  by (auto simp: apiBatchJobReprioritize_def split: option.splits prod.splits
      intro: typed_tick [rotated] typed_intros typed_reprioritize)

lemma typed_reschedule:
  "typed_db db \<Longrightarrow> apiBatchJobSchedule sv jid runAt db = (stored, started, db') \<Longrightarrow> typed_db db'"
  by (auto simp: apiBatchJobSchedule_def split: option.splits prod.splits if_splits intro: typed_tick [rotated] typed_intros)

lemma typed_reconcile:
  "typed_db db \<Longrightarrow> apiBatchItemReconcile sv live answers iid db = (stored, started, db') \<Longrightarrow> typed_db db'"
  by (auto simp: apiBatchItemReconcile_def split: option.splits prod.splits if_splits reconciled.splits
      intro: typed_tick [rotated] typed_intros)

lemma queue_step_typed: "queue_step db db' \<Longrightarrow> typed_db db \<Longrightarrow> typed_db db'"
proof (induction rule: queue_step.induct)
  case (delete jid db db')
  then show ?case by (auto simp: apiBatchJobDelete_def intro: typed_intros split: option.splits if_splits)
next
  case (panic db now iid reason)
  then show ?case by (simp add: panic_close_def typed_statements(1))
next
  case (cancel sv adb user jid db res db')
  then show ?case using typed_cancel by (metis snd_conv)
next
  case (cancel_rows sv adb user jid ids db rows db')
  then show ?case using typed_rows by (metis snd_conv)
next
  case (clear db n db')
  then show ?case using typed_DeleteFinishedJobs by (metis snd_conv)
next
  case (restart sv db reconciling db')
  then show ?case using typed_restart by (metis snd_conv)
qed (auto intro: typed_submit typed_tick typed_retry typed_reprio typed_reschedule typed_reconcile typed_exec)

lemma queue_reach_typed: "queue_reach db \<Longrightarrow> typed_db db"
proof (induction rule: queue_reach.induct)
  case empty
  show ?case by (simp add: typed_db_def)
next
  case (more db db')
  then show ?case using queue_step_typed by blast
qed



end
