(* ===== verification/Run_Recurring.thy ===== *)
theory Run_Recurring
  imports Run_Console
begin

text \<open>
  Recurring tasks: the cadence engine they share with the storage cleanup (internal/app/cadence.go), the
  tick that fires a due task into the run queue (recurring.go), the stored tasks with their audit ring
  (recurring_store.go) and the requests that edit and run them (recurring_api.go). The template of a task
  is carried as its rows. Fresh ids are a function of the tables, as the database hands them out.
\<close>

section \<open>Cadence\<close>

text \<open>A day on which the cadence fires, and the instant of that day from which it may.\<close>

definition cadence_day :: "location \<Rightarrow> string \<Rightarrow> int \<Rightarrow> int \<Rightarrow> int \<Rightarrow> bool" where
  "cadence_day loc freq wd monthday d =
     (if freq = ''daily'' then True
      else if freq = ''weekly'' then 0 \<le> wd \<and> wd \<le> 6 \<and> weekday d = wd
      else if freq = ''monthly''
      then 1 \<le> monthday \<and> monthday \<le> 31 \<and>
           (let last = month_last loc (civil_year d) (civil_month d)
            in civil_day d = (if last < monthday then last else monthday))
      else False)"

definition cadenceDue ::
  "string \<Rightarrow> string \<Rightarrow> int \<Rightarrow> int \<Rightarrow> string \<Rightarrow> instant \<Rightarrow> location \<Rightarrow> string option" where
  "cadenceDue freq hhmm wd monthday lastRun now loc =
     (case parseHHMM hhmm of
        None \<Rightarrow> None
      | Some hm \<Rightarrow>
          let d = local_day loc now; today = format_date d
          in if \<not> cadence_day loc freq wd monthday d then None
             else if now < clock_on loc now hm then None
             else if lastRun = today then None
             else Some today)"

definition nextCadence :: "string \<Rightarrow> string \<Rightarrow> int \<Rightarrow> int \<Rightarrow> instant \<Rightarrow> location \<Rightarrow> instant option" where
  "nextCadence freq hhmm wd monthday now loc =
     (case parseHHMM hhmm of
        None \<Rightarrow> None
      | Some hm \<Rightarrow>
          let d = local_day loc now
          in if freq = ''daily''
             then (let t = clock_on loc now hm in Some (if now < t then t else add_days loc t 1))
             else if freq = ''weekly''
             then (if wd < 0 \<or> 6 < wd then None
                   else let t = add_days loc (clock_on loc now hm) ((wd - weekday d + 7) mod 7)
                        in Some (if now < t then t else add_days loc t 7))
             else if freq = ''monthly''
             then (if monthday < 1 \<or> 31 < monthday then None
                   else let t = atClamped loc (civil_year d) (civil_month d) monthday hm
                        in Some (if now < t then t
                                 else atClamped loc (civil_year d) (civil_month d + 1) monthday hm))
             else None)"

section \<open>Tasks\<close>

record RecurringTask =
  rt_ID :: int
  rt_Name :: string
  rt_TargetID :: int
  rt_Rows :: "(string \<rightharpoonup> string) list"
  rt_Concurrency :: int
  rt_Priority :: string
  rt_MaxRetries :: int
  rt_Freq :: string
  rt_AtTime :: string
  rt_Weekday :: int
  rt_Monthday :: int
  rt_Enabled :: bool
  rt_CreatedBy :: string
  rt_CreatedAt :: string
  rt_LastFired :: string

record RecurringRun =
  ru_ID :: int
  ru_TaskID :: int
  ru_JobID :: int
  ru_FiredAt :: string

record recurDb =
  rd_tasks :: "RecurringTask list"
  rd_runs :: "RecurringRun list"

definition recurringRunsKeepPerTask :: nat where "recurringRunsKeepPerTask = 50"

definition ListRecurringTasks :: "recurDb \<Rightarrow> RecurringTask list" where
  "ListRecurringTasks db = rev (sort_key rt_ID (rd_tasks db))"

definition EnabledRecurringTasks :: "recurDb \<Rightarrow> RecurringTask list" where
  "EnabledRecurringTasks db = sort_key rt_ID (filter rt_Enabled (rd_tasks db))"

definition GetRecurringTask :: "recurDb \<Rightarrow> int \<Rightarrow> RecurringTask option" where
  "GetRecurringTask db tid = find (\<lambda>t. rt_ID t = tid) (rd_tasks db)"

definition CreateRecurringTask :: "string \<Rightarrow> int \<Rightarrow> RecurringTask \<Rightarrow> recurDb \<Rightarrow> recurDb" where
  "CreateRecurringTask now fresh t db =
     db\<lparr>rd_tasks := rd_tasks db @ [t\<lparr>rt_ID := fresh, rt_CreatedAt := now, rt_LastFired := []\<rparr>]\<rparr>"

definition upd_tasks :: "int \<Rightarrow> (RecurringTask \<Rightarrow> RecurringTask) \<Rightarrow> recurDb \<Rightarrow> recurDb" where
  "upd_tasks tid f db = db\<lparr>rd_tasks := update_where (\<lambda>t. rt_ID t = tid) f (rd_tasks db)\<rparr>"

definition UpdateRecurringTask :: "RecurringTask \<Rightarrow> recurDb \<Rightarrow> recurDb" where
  "UpdateRecurringTask t = upd_tasks (rt_ID t)
     (\<lambda>old. t\<lparr>rt_CreatedBy := rt_CreatedBy old, rt_CreatedAt := rt_CreatedAt old, rt_LastFired := rt_LastFired old\<rparr>)"

definition SetRecurringEnabled :: "int \<Rightarrow> bool \<Rightarrow> recurDb \<Rightarrow> recurDb" where
  "SetRecurringEnabled tid enabled = upd_tasks tid (\<lambda>t. t\<lparr>rt_Enabled := enabled\<rparr>)"

definition MarkRecurringFired :: "int \<Rightarrow> string \<Rightarrow> recurDb \<Rightarrow> recurDb" where
  "MarkRecurringFired tid stamp = upd_tasks tid (\<lambda>t. t\<lparr>rt_LastFired := stamp\<rparr>)"

definition DeleteRecurringTask :: "int \<Rightarrow> recurDb \<Rightarrow> recurDb" where
  "DeleteRecurringTask tid db =
     db\<lparr>rd_runs := filter (\<lambda>r. ru_TaskID r \<noteq> tid) (rd_runs db), rd_tasks := filter (\<lambda>t. rt_ID t \<noteq> tid) (rd_tasks db)\<rparr>"

text \<open>The newest ids of a task's runs, as \<open>ORDER BY id DESC LIMIT ?\<close> answers them.\<close>

definition newest_runs :: "nat \<Rightarrow> int \<Rightarrow> RecurringRun list \<Rightarrow> int list" where
  "newest_runs n tid runs = take n (rev (sort (map ru_ID (filter (\<lambda>r. ru_TaskID r = tid) runs))))"

definition InsertRecurringRun :: "string \<Rightarrow> int \<Rightarrow> int \<Rightarrow> int \<Rightarrow> recurDb \<Rightarrow> recurDb" where
  "InsertRecurringRun now fresh tid jobID db =
     (let runs = rd_runs db @ [\<lparr>ru_ID = fresh, ru_TaskID = tid, ru_JobID = jobID, ru_FiredAt = now\<rparr>];
          kept = newest_runs recurringRunsKeepPerTask tid runs
      in db\<lparr>rd_runs := filter (\<lambda>r. ru_TaskID r \<noteq> tid \<or> ru_ID r \<in> set kept) runs\<rparr>)"

text \<open>The history of a task with the status its job has now, empty where the job is gone.\<close>

definition ListRecurringRuns :: "recurDb \<Rightarrow> batchDb \<Rightarrow> int \<Rightarrow> nat \<Rightarrow> (RecurringRun \<times> string) list" where
  "ListRecurringRuns db bdb tid limit =
     (let n = (if limit = 0 \<or> recurringRunsKeepPerTask < limit then recurringRunsKeepPerTask else limit)
      in map (\<lambda>r. (r, case GetBatchJob bdb (ru_JobID r) of None \<Rightarrow> [] | Some j \<Rightarrow> bj_Status j))
           (take n (rev (sort_key ru_ID (filter (\<lambda>r. ru_TaskID r = tid) (rd_runs db))))))"

section \<open>Firing\<close>

record recurState =
  rs_db :: recurDb
  rs_batch :: batchDb
  rs_started :: "(BatchJob \<times> BatchItem) list"

record recurEnv =
  rv_sched :: schedEnv
  rv_marshal :: "(string \<rightharpoonup> string) \<Rightarrow> string"
  rv_freshJob :: "batchDb \<Rightarrow> int \<times> int"
  rv_freshRun :: "recurDb \<Rightarrow> int"

text \<open>
  The job a task starts, None where there is nothing to run, or the error that no job could be stored.
\<close>

definition fireRecurringTask ::
  "recurEnv \<Rightarrow> accessDb \<Rightarrow> targetDb \<Rightarrow> RecurringTask \<Rightarrow> recurState \<Rightarrow> (string + int option) \<times> recurState" where
  "fireRecurringTask env adb tdb task st =
     (if rt_Rows task = [] then (Inr None, st)
      else if GetTarget tdb (rt_TargetID task) = None then (Inr None, st)
      else let sv = rv_sched env;
               priority = (if rt_Priority task = [] then itoa (resolveBasePriority sv adb (rt_CreatedBy task))
                           else rt_Priority task);
               maxRetries = (if rt_MaxRetries task < 0 then 0 else rt_MaxRetries task)
           in case CreateBatchJob (nowStr sv) (rv_freshJob env (rs_batch st)) (rt_TargetID task)
                     (clampConcurrency sv (rt_Concurrency task)) maxRetries (rt_CreatedBy task)
                     (map (rv_marshal env) (rt_Rows task)) priority (rs_batch st) of
                Inl e \<Rightarrow> (Inl e, st)
              | Inr (jobID, db) \<Rightarrow>
                  (case scheduleTick sv db of
                     (started, fin, db1) \<Rightarrow>
                       (Inr (Some jobID),
                        \<lparr>rs_db = InsertRecurringRun (nowStr sv) (rv_freshRun env (rs_db st)) (rt_ID task) jobID (rs_db st),
                         rs_batch = db1, rs_started = rs_started st @ started\<rparr>)))"

text \<open>One task of a tick: the period is stamped before the task fires. The ids fired are listed.\<close>

definition recur_step ::
  "recurEnv \<Rightarrow> accessDb \<Rightarrow> targetDb \<Rightarrow> RecurringTask \<Rightarrow> (int \<times> string) list \<times> recurState \<Rightarrow> (int \<times> string) list \<times> recurState" where
  "recur_step env adb tdb task = (\<lambda>(fired, st).
     case cadenceDue (rt_Freq task) (rt_AtTime task) (rt_Weekday task) (rt_Monthday task) (rt_LastFired task)
            (sv_now (rv_sched env)) (sv_panel (rv_sched env)) of
       None \<Rightarrow> (fired, st)
     | Some stamp \<Rightarrow>
         (fired @ [(rt_ID task, stamp)],
          snd (fireRecurringTask env adb tdb task (st\<lparr>rs_db := MarkRecurringFired (rt_ID task) stamp (rs_db st)\<rparr>))))"

definition recurringTick ::
  "recurEnv \<Rightarrow> accessDb \<Rightarrow> targetDb \<Rightarrow> recurState \<Rightarrow> (int \<times> string) list \<times> recurState" where
  "recurringTick env adb tdb st =
     fold (recur_step env adb tdb) (EnabledRecurringTasks (rs_db st)) ([], st)"

section \<open>Requests\<close>

record recurringIn =
  ri_Name :: string
  ri_TargetID :: int
  ri_Rows :: "(string \<rightharpoonup> string) list"
  ri_Concurrency :: int
  ri_Priority :: string
  ri_MaxRetries :: int
  ri_Freq :: string
  ri_AtTime :: string
  ri_Weekday :: int
  ri_Monthday :: int
  ri_Enabled :: bool

definition recurring_priority :: "bool \<Rightarrow> string \<Rightarrow> string" where
  "recurring_priority admin p =
     (if p = [] then []
      else case parsePriority p of
        (b, urgent, idle) \<Rightarrow>
          if idle then ''idle'' else if urgent \<and> admin then ''urgent''
          else if \<not> urgent \<and> admin then itoa b else [])"

definition validateRecurring :: "targetDb \<Rightarrow> bool \<Rightarrow> recurringIn \<Rightarrow> string + RecurringTask" where
  "validateRecurring tdb admin inp =
     (if trim_space (ri_Name inp) = [] then Inl ''name is required''
      else if GetTarget tdb (ri_TargetID inp) = None then Inl ''target not found''
      else if ri_Rows inp = [] then Inl ''template has no rows''
      else if ri_Freq inp \<notin> {''daily'', ''weekly'', ''monthly''} then Inl ''freq must be daily, weekly, or monthly''
      else if parseHHMM (ri_AtTime inp) = None then Inl ''bad time (want HH:MM)''
      else if ri_Freq inp = ''weekly'' \<and> (ri_Weekday inp < 0 \<or> 6 < ri_Weekday inp) then Inl ''weekday must be 0..6''
      else if ri_Freq inp = ''monthly'' \<and> (ri_Monthday inp < 1 \<or> 31 < ri_Monthday inp)
      then Inl ''monthday must be 1..31''
      else Inr \<lparr>rt_ID = 0, rt_Name = trim_space (ri_Name inp), rt_TargetID = ri_TargetID inp,
                rt_Rows = map drop_reserved (ri_Rows inp),
                rt_Concurrency = (if ri_Concurrency inp < 1 then 1 else ri_Concurrency inp),
                rt_Priority = recurring_priority admin (ri_Priority inp),
                rt_MaxRetries = (if ri_MaxRetries inp < 0 then 0 else ri_MaxRetries inp), rt_Freq = ri_Freq inp,
                rt_AtTime = ri_AtTime inp, rt_Weekday = ri_Weekday inp, rt_Monthday = ri_Monthday inp,
                rt_Enabled = ri_Enabled inp, rt_CreatedBy = [], rt_CreatedAt = [], rt_LastFired = []\<rparr>)"

definition recurringAuthorized :: "accessDb \<Rightarrow> recurDb \<Rightarrow> int \<Rightarrow> string \<Rightarrow> refusal + RecurringTask" where
  "recurringAuthorized adb db tid user =
     (case GetRecurringTask db tid of
        None \<Rightarrow> Inl (404, ''task not found'')
      | Some task \<Rightarrow>
          if \<not> isAdmin adb user \<and> rt_CreatedBy task \<noteq> user then Inl (404, ''task not found'') else Inr task)"

definition apiRecurringList :: "accessDb \<Rightarrow> recurDb \<Rightarrow> string \<Rightarrow> RecurringTask list" where
  "apiRecurringList adb db user =
     filter (\<lambda>t. isAdmin adb user \<or> rt_CreatedBy t = user) (ListRecurringTasks db)"

definition apiRecurringCreate ::
  "string \<Rightarrow> accessDb \<Rightarrow> targetDb \<Rightarrow> int \<Rightarrow> string \<Rightarrow> recurringIn \<Rightarrow> recurDb \<Rightarrow> refusal + recurDb" where
  "apiRecurringCreate now adb tdb fresh user inp db =
     (case validateRecurring tdb (isAdmin adb user) inp of
        Inl e \<Rightarrow> Inl (400, e)
      | Inr task \<Rightarrow> Inr (CreateRecurringTask now fresh (task\<lparr>rt_CreatedBy := user\<rparr>) db))"

definition apiRecurringUpdate ::
  "accessDb \<Rightarrow> targetDb \<Rightarrow> int \<Rightarrow> string \<Rightarrow> recurringIn \<Rightarrow> recurDb \<Rightarrow> refusal + recurDb" where
  "apiRecurringUpdate adb tdb tid user inp db =
     (case recurringAuthorized adb db tid user of
        Inl e \<Rightarrow> Inl e
      | Inr existing \<Rightarrow>
          (case validateRecurring tdb (isAdmin adb user) inp of
             Inl e \<Rightarrow> Inl (400, e)
           | Inr task \<Rightarrow> Inr (UpdateRecurringTask (task\<lparr>rt_ID := rt_ID existing\<rparr>) db)))"

definition apiRecurringEnable :: "accessDb \<Rightarrow> int \<Rightarrow> string \<Rightarrow> bool \<Rightarrow> recurDb \<Rightarrow> refusal + recurDb" where
  "apiRecurringEnable adb tid user enabled db =
     (case recurringAuthorized adb db tid user of
        Inl e \<Rightarrow> Inl e | Inr task \<Rightarrow> Inr (SetRecurringEnabled (rt_ID task) enabled db))"

definition apiRecurringDelete :: "accessDb \<Rightarrow> int \<Rightarrow> string \<Rightarrow> recurDb \<Rightarrow> refusal + recurDb" where
  "apiRecurringDelete adb tid user db =
     (case recurringAuthorized adb db tid user of
        Inl e \<Rightarrow> Inl e | Inr task \<Rightarrow> Inr (DeleteRecurringTask (rt_ID task) db))"

definition apiRecurringRunNow ::
  "recurEnv \<Rightarrow> accessDb \<Rightarrow> targetDb \<Rightarrow> int \<Rightarrow> string \<Rightarrow> recurState \<Rightarrow> (refusal + int) \<times> recurState" where
  "apiRecurringRunNow env adb tdb tid user st =
     (case recurringAuthorized adb (rs_db st) tid user of
        Inl e \<Rightarrow> (Inl e, st)
      | Inr task \<Rightarrow>
          (case fireRecurringTask env adb tdb task st of
             (Inl e, st1) \<Rightarrow> (Inl (500, e), st1)
           | (Inr None, st1) \<Rightarrow> (Inl (400, ''nothing to run (missing target or empty template)''), st1)
           | (Inr (Some jobID), st1) \<Rightarrow> (Inr jobID, st1)))"

section \<open>The next cadence is the next fire\<close>

text \<open>The instant of day d at which a cadence with the given clock may fire.\<close>

abbreviation fire_at :: "int \<Rightarrow> int \<times> int \<Rightarrow> int \<Rightarrow> instant" where
  "fire_at off hm d \<equiv> date_in (zone off) d (clock_secs hm)"

lemma clock_on_day: "clock_on (zone off) now hm = fire_at off hm (local_day (zone off) now)"
  by (cases hm) (simp add: clock_on_def clock_secs_def)

lemma fire_day: "clock hm \<Longrightarrow> local_day (zone off) (fire_at off hm d) = d"
  using clock_secs_bounds [of hm] by simp

lemma fire_after: "clock hm \<Longrightarrow> local_day (zone off) now < d \<Longrightarrow> now < fire_at off hm d"
  using now_in_day [of off now] clock_secs_bounds [of hm] date_in_le [of "local_day (zone off) now + 1" d "clock_secs hm" off]
  by linarith

lemma no_stamp [simp]: "[] \<noteq> format_date n"
  using format_date_nonempty [of n] by fastforce

lemma due_iff:
  assumes "parseHHMM hhmm = Some hm"
  shows "cadenceDue freq hhmm wd md [] u (zone off) \<noteq> None \<longleftrightarrow>
    cadence_day (zone off) freq wd md (local_day (zone off) u) \<and> fire_at off hm (local_day (zone off) u) \<le> u"
  using assms by (auto simp: cadenceDue_def clock_on_day Let_def)

lemma next_from_day:
  assumes hm: "parseHHMM hhmm = Some hm"
    and dt: "cadence_day (zone off) freq wd md dt" "now < fire_at off hm dt"
    and gap: "\<And>e. local_day (zone off) now \<le> e \<Longrightarrow> e < dt \<Longrightarrow> cadence_day (zone off) freq wd md e \<Longrightarrow> fire_at off hm e \<le> now"
  shows "now < fire_at off hm dt \<and>
    cadenceDue freq hhmm wd md [] (fire_at off hm dt) (zone off) = Some (format_date (local_day (zone off) (fire_at off hm dt))) \<and>
    (\<forall>u. now < u \<and> u < fire_at off hm dt \<and> cadenceDue freq hhmm wd md [] u (zone off) \<noteq> None \<longrightarrow>
       local_day (zone off) u = local_day (zone off) now \<and> cadenceDue freq hhmm wd md [] now (zone off) \<noteq> None)"
proof (intro conjI allI impI dt(2))
  have c: "clock hm" using hm by (rule parseHHMM_clock)
  note c' = clock_secs_bounds [OF c]
  show "cadenceDue freq hhmm wd md [] (fire_at off hm dt) (zone off) = Some (format_date (local_day (zone off) (fire_at off hm dt)))"
    using hm dt(1) by (simp add: cadenceDue_def clock_on_day fire_day [OF c] Let_def)
  fix u
  assume u: "now < u \<and> u < fire_at off hm dt \<and> cadenceDue freq hhmm wd md [] u (zone off) \<noteq> None"
  define e where "e = local_day (zone off) u"
  have e: "cadence_day (zone off) freq wd md e" "fire_at off hm e \<le> u"
    using u due_iff [OF hm] by (auto simp: e_def)
  have "\<not> dt \<le> e" using u e(2) date_in_less [of "clock_secs hm" "clock_secs hm" dt e off] c' by (cases "dt = e") auto
  moreover have de: "local_day (zone off) now \<le> e" using u local_day_mono [of now u off] by (simp add: e_def)
  ultimately have f: "fire_at off hm e \<le> now" using gap e(1) by simp
  have "e = local_day (zone off) now" using fire_after [OF c, of off now e] f de by fastforce
  then show "local_day (zone off) u = local_day (zone off) now" "cadenceDue freq hhmm wd md [] now (zone off) \<noteq> None"
    using due_iff [OF hm] e(1) f by (auto simp: e_def)
qed

text \<open>The clamped day of month m counted from year y, for any m.\<close>

definition clamped_day :: "int \<Rightarrow> int \<Rightarrow> int \<Rightarrow> int" where
  "clamped_day md y m = (let len = month_len (is_leap (norm_year y m)) (norm_month m)
                         in month_first y m + (if len < md then len else md) - 1)"

lemma civil_in_month:
  assumes "month_first y k \<le> e" "e < month_first y (k + 1)"
  shows "civil_year e = norm_year y k \<and> civil_month e = norm_month k \<and> civil_day e = e - month_first y k + 1"
proof -
  define v where "v = e - month_first y k + 1"
  have "valid_civil (norm_year y k) (norm_month k) v"
    using assms month_first_Suc [of y k] norm_month_bounds [of k] by (simp add: valid_civil_def v_def)
  moreover have "day_number (norm_year y k) (norm_month k) v = e"
    by (simp add: day_number_first month_first_norm0 v_def)
  ultimately show ?thesis using civil_of_day_number by (metis v_def)
qed

lemma month_last_zone: "month_last (zone off) y m = month_len (is_leap (norm_year y m)) (norm_month m)"
proof -
  have "day_number y (m + 1) 0 = month_first y (m + 1) - 1" by (simp add: day_number_first)
  moreover have "civil_day (month_first y (m + 1) - 1) = month_first y (m + 1) - month_first y m"
    using civil_in_month [of y m "month_first y (m + 1) - 1"] month_first_Suc [of y m] month_len_pos [of y m] by simp
  ultimately show ?thesis by (simp add: month_last_def month_first_Suc)
qed

lemma clamped_in_month:
  assumes "1 \<le> md"
  shows "month_first y m \<le> clamped_day md y m" "clamped_day md y m < month_first y (m + 1)"
  using assms month_first_Suc [of y m] month_len_pos [of y m] by (simp_all add: clamped_day_def Let_def)

lemma atClamped_day:
  assumes "1 \<le> md"
  shows "atClamped (zone off) y m md hm = fire_at off hm (clamped_day md y m)"
proof -
  have "1 \<le> (if month_last (zone off) y m < md then month_last (zone off) y m else md)"
    using assms month_len_pos [of y m] by (simp add: month_last_zone)
  then show ?thesis
    by (cases hm) (auto simp: atClamped_def clamped_day_def month_last_zone clock_secs_def day_number_first Let_def)
qed

lemma monthly_day:
  assumes "1 \<le> md" "md \<le> 31" "month_first y k \<le> e" "e < month_first y (k + 1)"
  shows "cadence_day (zone off) ''monthly'' wd md e \<longleftrightarrow> e = clamped_day md y k"
proof -
  note c = civil_in_month [OF assms(3,4)]
  have n: "norm_year (norm_year y k) (norm_month k) = norm_year y k" "norm_month (norm_month k) = norm_month k"
    using norm_month_bounds [of k] by (simp_all add: norm_year_def norm_month_def)
  show ?thesis using assms(1,2) c
    by (auto simp: cadence_day_def month_last_zone clamped_day_def n Let_def)
qed

lemma next_month_day:
  fixes off :: int and now :: instant
  defines "d \<equiv> local_day (zone off) now"
  defines "y \<equiv> civil_year d" and "m \<equiv> civil_month d"
  assumes "1 \<le> md" "md \<le> 31"
  shows "cadence_day (zone off) ''monthly'' wd md (clamped_day md y m)"
    "cadence_day (zone off) ''monthly'' wd md (clamped_day md y (m + 1))"
    "d < clamped_day md y (m + 1)"
    "\<And>e. d \<le> e \<Longrightarrow> e < clamped_day md y (m + 1) \<Longrightarrow> cadence_day (zone off) ''monthly'' wd md e \<Longrightarrow> e = clamped_day md y m"
proof -
  have v: "1 \<le> civil_day d" "civil_day d \<le> month_len (is_leap y) m" "1 \<le> m" "m \<le> 12"
    using valid_civil_of [of d] by (auto simp: valid_civil_def y_def m_def)
  have n: "norm_year y m = y" "norm_month m = m" using v by (simp_all add: norm_year_def norm_month_def)
  have "day_number y m (civil_day d) = d" unfolding y_def m_def by simp
  then have d: "month_first y m \<le> d" "d < month_first y (m + 1)"
    using v month_first_Suc [of y m] by (simp_all add: day_number_first n)
  note this_month = clamped_in_month [OF assms(4), of y m]
  note next_month = clamped_in_month [OF assms(4), of y "m + 1"]
  show "cadence_day (zone off) ''monthly'' wd md (clamped_day md y m)"
    using monthly_day [OF assms(4,5) this_month] by simp
  show "cadence_day (zone off) ''monthly'' wd md (clamped_day md y (m + 1))"
    using monthly_day [OF assms(4,5) next_month] by simp
  show "d < clamped_day md y (m + 1)" using d(2) next_month(1) by linarith
  fix e
  assume e: "d \<le> e" "e < clamped_day md y (m + 1)" "cadence_day (zone off) ''monthly'' wd md e"
  show "e = clamped_day md y m"
  proof (cases "e < month_first y (m + 1)")
    case True
    then show ?thesis using monthly_day [OF assms(4,5), of y m e] d(1) e(1,3) by simp
  next
    case False
    then have "e = clamped_day md y (m + 1)"
      using monthly_day [OF assms(4,5), of y "m + 1" e] next_month(2) e(2,3) by simp
    then show ?thesis using e(2) by simp
  qed
qed

lemma weekday_add: "weekday (d + k) = (weekday d + k) mod 7" and weekday_range: "0 \<le> weekday d" "weekday d \<le> 6"
proof -
  show "weekday (d + k) = (weekday d + k) mod 7" by (simp add: weekday_def mod_simps algebra_simps)
  show "0 \<le> weekday d" "weekday d \<le> 6" unfolding weekday_def by presburger+
qed

lemma week_days:
  fixes d wd :: int
  assumes "0 \<le> wd" "wd \<le> 6"
  defines "delta \<equiv> (wd - weekday d + 7) mod 7"
  shows "weekday (d + delta) = wd" "weekday (d + 7) = weekday d" "0 \<le> delta" "delta < 7"
    "\<And>e. d \<le> e \<Longrightarrow> e < d + delta \<Longrightarrow> weekday e \<noteq> wd"
    "\<And>e. d < e \<Longrightarrow> e < d + 7 \<Longrightarrow> delta = 0 \<Longrightarrow> weekday e \<noteq> wd"
proof -
  have delta: "delta = (if weekday d \<le> wd then wd - weekday d else wd - weekday d + 7)"
    using assms(1,2) weekday_range [of d] mod_pos_pos_trivial [of "wd - weekday d + 7" 7]
    by (auto simp: delta_def mod_pos_pos_trivial)
  show "0 \<le> delta" "delta < 7" by (simp_all add: delta_def)
  show "weekday (d + delta) = wd" "weekday (d + 7) = weekday d"
    using assms(1,2) weekday_range [of d] by (simp_all add: weekday_add delta)
  have e: "weekday e = (weekday d + (e - d)) mod 7" for e using weekday_add [of d "e - d"] by simp
  have small: "(weekday d + k) mod 7 = (if weekday d + k < 7 then weekday d + k else weekday d + k - 7)"
    if "0 \<le> k" "k < 7" for k
    using that weekday_range [of d] mod_pos_pos_trivial [of "weekday d + k - 7" 7]
    by (auto simp: mod_pos_pos_trivial)
  fix e
  show "d \<le> e \<Longrightarrow> e < d + delta \<Longrightarrow> weekday e \<noteq> wd"
    using small [of "e - d"] e [of e] assms(1,2) weekday_range [of d] by (auto simp: delta split: if_splits)
  show "d < e \<Longrightarrow> e < d + 7 \<Longrightarrow> delta = 0 \<Longrightarrow> weekday e \<noteq> wd"
    using small [of "e - d"] e [of e] assms(1,2) weekday_range [of d] by (auto simp: delta split: if_splits)
qed

text \<open>The claim of a next run t: it is ahead, due, and nothing is due before it but today's own run.\<close>

abbreviation cadence_next :: "string \<Rightarrow> string \<Rightarrow> int \<Rightarrow> int \<Rightarrow> int \<Rightarrow> instant \<Rightarrow> instant \<Rightarrow> bool" where
  "cadence_next freq hhmm wd md off now t \<equiv>
    now < t \<and> cadenceDue freq hhmm wd md [] t (\<lambda>_. off) = Some (format_date (local_day (\<lambda>_. off) t)) \<and>
    (\<forall>u. now < u \<and> u < t \<and> cadenceDue freq hhmm wd md [] u (\<lambda>_. off) \<noteq> None \<longrightarrow>
       local_day (\<lambda>_. off) u = local_day (\<lambda>_. off) now \<and> cadenceDue freq hhmm wd md [] now (\<lambda>_. off) \<noteq> None)"

lemma next_daily:
  assumes hm: "parseHHMM hhmm = Some hm" and next_t: "nextCadence freq hhmm wd md now (zone off) = Some t"
    and daily: "freq = ''daily''"
  shows "cadence_next freq hhmm wd md off now t"
proof -
  have c: "clock hm" using hm by (rule parseHHMM_clock)
  note c' = clock_secs_bounds [OF c]
  define d where "d = local_day (zone off) now"
  note step = next_from_day [OF hm, where off = off and freq = freq and wd = wd and md = md and now = now]
  have days: "cadence_day (zone off) freq wd md e" for e by (simp add: daily cadence_day_def)
  show ?thesis
  proof (cases "now < fire_at off hm d")
    case True
    then have t: "t = fire_at off hm d" using next_t daily hm by (simp add: nextCadence_def clock_on_day d_def Let_def)
    show ?thesis unfolding t by (rule step) (use days True in \<open>simp_all add: d_def\<close>)
  next
    case False
    then have t: "t = fire_at off hm (d + 1)"
      using next_t daily hm c' by (simp add: nextCadence_def clock_on_day d_def Let_def)
    have "fire_at off hm e \<le> now" if "d \<le> e" "e < d + 1" for e using that False by (cases "e = d") simp_all
    then show ?thesis unfolding t
      by (intro step) (use days fire_after [OF c, of off now "d + 1"] in \<open>simp_all add: d_def\<close>)
  qed
qed

lemma next_weekly:
  assumes hm: "parseHHMM hhmm = Some hm" and next_t: "nextCadence freq hhmm wd md now (zone off) = Some t"
    and weekly: "freq = ''weekly''" "0 \<le> wd" "wd \<le> 6"
  shows "cadence_next freq hhmm wd md off now t"
proof -
  have c: "clock hm" using hm by (rule parseHHMM_clock)
  note c' = clock_secs_bounds [OF c]
  define d where "d = local_day (zone off) now"
  note step = next_from_day [OF hm, where off = off and freq = freq and wd = wd and md = md and now = now]
  define delta where "delta = (wd - weekday d + 7) mod 7"
  note w = week_days [OF weekly(2,3), of d, folded delta_def]
  have days: "cadence_day (zone off) freq wd md e \<longleftrightarrow> weekday e = wd" for e
    using weekly by (simp add: cadence_day_def)
  show ?thesis
  proof (cases "now < fire_at off hm (d + delta)")
    case True
    then have t: "t = fire_at off hm (d + delta)"
      using next_t weekly hm c' by (simp add: nextCadence_def clock_on_day d_def delta_def Let_def)
    show ?thesis unfolding t by (rule step) (use True w days in \<open>simp_all add: d_def\<close>)
  next
    case False
    then have "\<not> d < d + delta" using fire_after [OF c, of off now "d + delta"] by (auto simp: d_def)
    then have z: "delta = 0" using w(3) by simp
    have t: "t = fire_at off hm (d + 7)"
      using False next_t weekly hm c' z by (simp add: nextCadence_def clock_on_day d_def delta_def Let_def)
    have "fire_at off hm e \<le> now" if "d \<le> e" "e < d + 7" "weekday e = wd" for e
      using w(6) [of e] that z False by (cases "e = d") simp_all
    then show ?thesis unfolding t
      by (intro step) (use days w(1,2) z fire_after [OF c, of off now "d + 7"] in \<open>simp_all add: d_def\<close>)
  qed
qed

lemma next_monthly:
  assumes hm: "parseHHMM hhmm = Some hm" and next_t: "nextCadence freq hhmm wd md now (zone off) = Some t"
    and monthly: "freq = ''monthly''" "1 \<le> md" "md \<le> 31"
  shows "cadence_next freq hhmm wd md off now t"
proof -
  have c: "clock hm" using hm by (rule parseHHMM_clock)
  note c' = clock_secs_bounds [OF c]
  define d where "d = local_day (zone off) now"
  note step = next_from_day [OF hm, where off = off and freq = freq and wd = wd and md = md and now = now]
  let ?y = "civil_year d" and ?m = "civil_month d"
  note n = next_month_day [OF monthly(2,3), where off = off and now = now, folded d_def]
  show ?thesis
  proof (cases "now < fire_at off hm (clamped_day md ?y ?m)")
    case True
    then have t: "t = fire_at off hm (clamped_day md ?y ?m)"
      using next_t monthly hm by (simp add: nextCadence_def atClamped_day d_def Let_def)
    have "clamped_day md ?y ?m \<le> clamped_day md ?y (?m + 1)"
      using clamped_in_month [OF monthly(2), of ?y ?m] clamped_in_month [OF monthly(2), of ?y "?m + 1"] by linarith
    then have "e = clamped_day md ?y ?m" if "d \<le> e" "e < clamped_day md ?y ?m" "cadence_day (zone off) freq wd md e" for e
      using n(4) that monthly(1) by auto
    then have "False" if "d \<le> e" "e < clamped_day md ?y ?m" "cadence_day (zone off) freq wd md e" for e
      using that by blast
    then show ?thesis unfolding t by (intro step) (use True n(1) monthly(1) in \<open>auto simp: d_def\<close>)
  next
    case False
    then have t: "t = fire_at off hm (clamped_day md ?y (?m + 1))"
      using next_t monthly hm by (simp add: nextCadence_def atClamped_day d_def Let_def)
    have "fire_at off hm e \<le> now" if "d \<le> e" "e < clamped_day md ?y (?m + 1)" "cadence_day (zone off) freq wd md e" for e
      using n(4) that monthly(1) False by auto
    then show ?thesis unfolding t
      by (intro step) (use n(2,3) fire_after [OF c, of off now "clamped_day md ?y (?m + 1)"] monthly(1) in \<open>simp_all add: d_def\<close>)
  qed
qed

text \<open>
  The next run shown for a recurring task is the next one there will be: it lies in the future,
  the cadence is due at that instant, and at no instant before it is the cadence due unless it already
  is now, on today's civil day. Daily, weekly and clamped monthly rules are covered, in every zone of a
  fixed offset.
\<close>

theorem next_cadence_is_next:
  assumes "nextCadence freq hhmm wd md now (\<lambda>_. off) = Some t"
  shows "now < t \<and> cadenceDue freq hhmm wd md [] t (\<lambda>_. off) = Some (format_date (local_day (\<lambda>_. off) t)) \<and>
    (\<forall>u. now < u \<and> u < t \<and> cadenceDue freq hhmm wd md [] u (\<lambda>_. off) \<noteq> None \<longrightarrow>
       local_day (\<lambda>_. off) u = local_day (\<lambda>_. off) now \<and> cadenceDue freq hhmm wd md [] now (\<lambda>_. off) \<noteq> None)"
proof -
  obtain hm where hm: "parseHHMM hhmm = Some hm" using assms by (auto simp: nextCadence_def split: option.splits)
  consider "freq = ''daily''" | "freq = ''weekly''" "0 \<le> wd" "wd \<le> 6" | "freq = ''monthly''" "1 \<le> md" "md \<le> 31"
    using assms by (auto simp: nextCadence_def hm Let_def split: if_splits)
  then show ?thesis using next_daily [OF hm assms] next_weekly [OF hm assms] next_monthly [OF hm assms] by cases
qed

lemma next_cadence_is_next_witness:
  "case nextCadence ''monthly'' ''09:30'' 0 31 (1772515800 * second) (\<lambda>_. 28800) of None \<Rightarrow> False
   | Some t \<Rightarrow> 1772515800 * second < t \<and>
       cadenceDue ''monthly'' ''09:30'' 0 31 [] t (\<lambda>_. 28800) = Some ''2026-03-31''"
proof -
  have n: "nextCadence ''monthly'' ''09:30'' 0 31 (1772515800 * second) (\<lambda>_. 28800) = Some (1774920600 * second)"
    by code_simp
  have "format_date (local_day (\<lambda>_. 28800) (1774920600 * second)) = ''2026-03-31''" by code_simp
  then show ?thesis using next_cadence_is_next [OF n] n by simp
qed

section \<open>A task fires once a day\<close>

text \<open>What a tick does to the tasks: the due ones are stamped, all others kept.\<close>

definition due_stamp :: "recurEnv \<Rightarrow> RecurringTask \<Rightarrow> string option" where
  "due_stamp env t = cadenceDue (rt_Freq t) (rt_AtTime t) (rt_Weekday t) (rt_Monthday t) (rt_LastFired t)
     (sv_now (rv_sched env)) (sv_panel (rv_sched env))"

definition tick_day :: "recurEnv \<Rightarrow> string" where
  "tick_day env = format_date (local_day (sv_panel (rv_sched env)) (sv_now (rv_sched env)))"

lemma due_stampD: "due_stamp env t = Some s \<Longrightarrow> s = tick_day env \<and> rt_LastFired t \<noteq> tick_day env"
  by (auto simp: due_stamp_def tick_day_def cadenceDue_def Let_def split: option.splits if_splits)

lemma fire_keeps_tasks: "rd_tasks (rs_db (snd (fireRecurringTask env adb tdb task st))) = rd_tasks (rs_db st)"
  by (cases "rt_Rows task = []"; cases "GetTarget tdb (rt_TargetID task)")
     (simp_all add: fireRecurringTask_def InsertRecurringRun_def Let_def split: sum.split prod.split split del: if_split)

lemma recur_step_simp:
  "recur_step env adb tdb t (fired, st) =
     (case due_stamp env t of None \<Rightarrow> (fired, st)
      | Some s \<Rightarrow> (fired @ [(rt_ID t, s)],
          snd (fireRecurringTask env adb tdb t (st\<lparr>rs_db := MarkRecurringFired (rt_ID t) s (rs_db st)\<rparr>))))"
  by (simp add: recur_step_def due_stamp_def split: option.splits)

definition due_ids :: "recurEnv \<Rightarrow> RecurringTask list \<Rightarrow> int list" where
  "due_ids env ts = map rt_ID (filter (\<lambda>t. due_stamp env t \<noteq> None) ts)"

lemma fold_recur:
  "fst (fold (recur_step env adb tdb) ts (fired, st)) = fired @ map (\<lambda>tid. (tid, tick_day env)) (due_ids env ts) \<and>
   rd_tasks (rs_db (snd (fold (recur_step env adb tdb) ts (fired, st)))) =
     map (\<lambda>t. if rt_ID t \<in> set (due_ids env ts) then t\<lparr>rt_LastFired := tick_day env\<rparr> else t) (rd_tasks (rs_db st))"
proof (induction ts arbitrary: fired st)
  case (Cons t ts)
  show ?case
  proof (cases "due_stamp env t")
    case None
    then show ?thesis using Cons.IH [of fired st] by (simp add: recur_step_simp due_ids_def)
  next
    case (Some s)
    then have s: "s = tick_day env" using due_stampD by blast
    let ?st = "snd (fireRecurringTask env adb tdb t (st\<lparr>rs_db := MarkRecurringFired (rt_ID t) s (rs_db st)\<rparr>))"
    have "rd_tasks (rs_db ?st) = map (\<lambda>u. if rt_ID u = rt_ID t then u\<lparr>rt_LastFired := s\<rparr> else u) (rd_tasks (rs_db st))"
      by (simp add: fire_keeps_tasks MarkRecurringFired_def upd_tasks_def update_where_def)
    then show ?thesis using Cons.IH [of "fired @ [(rt_ID t, s)]" ?st] Some s
      by (auto simp: recur_step_simp due_ids_def)
  qed
qed (simp add: due_ids_def)

text \<open>
  The life of the tasks: ticks whose day never goes back before a day already fired, and the requests of
  the console. A new task takes an id that was never used before. The first component lists every fire
  of the loop with its day.
\<close>

inductive recur_run :: "(int \<times> string) list \<Rightarrow> recurState \<Rightarrow> bool" where
  start: "rd_tasks (rs_db st) = [] \<Longrightarrow> recur_run [] st"
| tick: "recur_run h st \<Longrightarrow> \<forall>(tid, day)\<in>set h. day \<le> tick_day env \<Longrightarrow>
    recurringTick env adb tdb st = (fired, st') \<Longrightarrow> recur_run (h @ fired) st'"
| create: "recur_run h st \<Longrightarrow> fresh \<notin> rt_ID ` set (rd_tasks (rs_db st)) \<union> fst ` set h \<Longrightarrow>
    apiRecurringCreate now adb tdb fresh user inp (rs_db st) = Inr db \<Longrightarrow> recur_run h (st\<lparr>rs_db := db\<rparr>)"
| update: "recur_run h st \<Longrightarrow> apiRecurringUpdate adb tdb tid user inp (rs_db st) = Inr db \<Longrightarrow>
    recur_run h (st\<lparr>rs_db := db\<rparr>)"
| enable: "recur_run h st \<Longrightarrow> apiRecurringEnable adb tid user on (rs_db st) = Inr db \<Longrightarrow>
    recur_run h (st\<lparr>rs_db := db\<rparr>)"
| delete: "recur_run h st \<Longrightarrow> apiRecurringDelete adb tid user (rs_db st) = Inr db \<Longrightarrow>
    recur_run h (st\<lparr>rs_db := db\<rparr>)"
| run_now: "recur_run h st \<Longrightarrow> apiRecurringRunNow env adb tdb tid user st = (res, st') \<Longrightarrow> recur_run h st'"

definition stamp_ok :: "(int \<times> string) list \<Rightarrow> RecurringTask \<Rightarrow> bool" where
  "stamp_ok h t \<longleftrightarrow> (\<forall>day. (rt_ID t, day) \<in> set h \<longrightarrow> day \<le> rt_LastFired t) \<and>
     (rt_LastFired t = [] \<or> (rt_ID t, rt_LastFired t) \<in> set h)"

definition stamps_ok :: "(int \<times> string) list \<Rightarrow> RecurringTask list \<Rightarrow> bool" where
  "stamps_ok h ts \<longleftrightarrow> distinct h \<and> distinct (map rt_ID ts) \<and> (\<forall>t\<in>set ts. stamp_ok h t)"

lemma stamps_map:
  assumes "stamps_ok h ts" "distinct h'" "\<And>t. t \<in> set ts \<Longrightarrow> rt_ID (g t) = rt_ID t"
    "\<And>t. t \<in> set ts \<Longrightarrow> stamp_ok h' (g t)"
  shows "stamps_ok h' (map g ts)"
proof -
  have "map rt_ID (map g ts) = map rt_ID ts" using assms(3) by simp
  then have "distinct (map rt_ID (map g ts))" using assms(1) by (simp add: stamps_ok_def del: map_map)
  then show ?thesis using assms(2,4) by (simp add: stamps_ok_def del: map_map)
qed

text \<open>An edit that keeps the id and the stamp of a task.\<close>

lemma stamps_update:
  assumes "stamps_ok h ts" "\<And>t. rt_ID t = tid \<Longrightarrow> rt_ID (f t) = tid \<and> rt_LastFired (f t) = rt_LastFired t"
  shows "stamps_ok h (update_where (\<lambda>t. rt_ID t = tid) f ts)"
  unfolding update_where_def
  by (rule stamps_map [OF assms(1)]) (use assms in \<open>auto simp: stamps_ok_def stamp_ok_def\<close>)

lemma EnabledRecurringTasks_sub:
  "t \<in> set (EnabledRecurringTasks db) \<Longrightarrow> t \<in> set (rd_tasks db)"
  by (simp add: EnabledRecurringTasks_def)

lemma stamps_tick:
  assumes ok: "stamps_ok h (rd_tasks (rs_db st))" and le: "\<forall>(tid, day)\<in>set h. day \<le> tick_day env"
    and tick: "recurringTick env adb tdb st = (fired, st')"
  shows "stamps_ok (h @ fired) (rd_tasks (rs_db st'))"
proof -
  let ?ts = "rd_tasks (rs_db st)" and ?en = "EnabledRecurringTasks (rs_db st)"
  let ?due = "due_ids env ?en"
  let ?f = "\<lambda>t. if rt_ID t \<in> set ?due then t\<lparr>rt_LastFired := tick_day env\<rparr> else t"
  have f: "fired = map (\<lambda>tid. (tid, tick_day env)) ?due" "rd_tasks (rs_db st') = map ?f ?ts"
    using fold_recur [of env adb tdb ?en "[]" st] tick by (auto simp: recurringTick_def)
  have ids: "distinct (map rt_ID ?ts)" "distinct h" using ok by (simp_all add: stamps_ok_def)
  have "distinct (map rt_ID (filter rt_Enabled ?ts))" using ids(1) by (simp add: distinct_map_filter)
  then have "distinct (map rt_ID ?en)"
    by (metis EnabledRecurringTasks_def distinct_map distinct_sort set_sort)
  then have due: "distinct ?due" unfolding due_ids_def by (rule distinct_map_filter)
  have new: "(tid, tick_day env) \<notin> set h" if in_due: "tid \<in> set ?due" for tid
  proof
    assume h: "(tid, tick_day env) \<in> set h"
    obtain t where en1: "t \<in> set ?en" "rt_ID t = tid" "due_stamp env t \<noteq> None"
      using in_due by (auto simp: due_ids_def)
    then obtain s where en: "t \<in> set ?en" "rt_ID t = tid" "due_stamp env t = Some s" by blast
    then have t: "t \<in> set ?ts" "rt_ID t = tid" "rt_LastFired t \<noteq> tick_day env"
      using due_stampD [OF en(3)] EnabledRecurringTasks_sub by blast+
    have "tick_day env \<le> rt_LastFired t" using ok t h by (auto simp: stamps_ok_def stamp_ok_def)
    moreover have "rt_LastFired t \<le> tick_day env" using ok t le by (fastforce simp: stamps_ok_def stamp_ok_def)
    ultimately show False using t(3) by simp
  qed
  have "distinct (h @ fired)" using ids(2) due new f(1) by (auto simp: distinct_map inj_on_def)
  moreover have "stamp_ok (h @ fired) (?f t)" if "t \<in> set ?ts" for t
  proof -
    have t: "stamp_ok h t" using ok that by (simp add: stamps_ok_def)
    show ?thesis
    proof (cases "rt_ID t \<in> set ?due")
      case True
      then show ?thesis using le by (auto simp: stamp_ok_def f(1))
    next
      case False
      then show ?thesis using t by (auto simp: stamp_ok_def f(1))
    qed
  qed
  ultimately show ?thesis unfolding f(2) by (intro stamps_map [OF ok]) auto
qed

lemma run_now_tasks: "rd_tasks (rs_db (snd (apiRecurringRunNow env adb tdb tid user st))) = rd_tasks (rs_db st)"
proof (cases "recurringAuthorized adb (rs_db st) tid user")
  case (Inr task)
  obtain r st1 where f: "fireRecurringTask env adb tdb task st = (r, st1)" by fastforce
  then have "rd_tasks (rs_db st1) = rd_tasks (rs_db st)" using fire_keeps_tasks by (metis snd_conv)
  then show ?thesis using Inr f by (simp add: apiRecurringRunNow_def split: sum.split option.split)
qed (simp add: apiRecurringRunNow_def)

lemma recur_run_ok: "recur_run h st \<Longrightarrow> stamps_ok h (rd_tasks (rs_db st))"
proof (induction rule: recur_run.induct)
  case (create h st fresh now adb tdb user inp db)
  obtain task where db: "rd_tasks db = rd_tasks (rs_db st) @ [task]" "rt_ID task = fresh" "rt_LastFired task = []"
    using create.hyps(3) by (auto simp: apiRecurringCreate_def CreateRecurringTask_def split: sum.splits)
  have "stamp_ok h task" using create.hyps(2) db by (force simp: stamp_ok_def)
  then show ?case using create.IH create.hyps(2) db by (auto simp: stamps_ok_def)
next
  case (update h st adb tdb tid user inp db)
  then show ?case
    by (auto simp: apiRecurringUpdate_def UpdateRecurringTask_def upd_tasks_def intro!: stamps_update split: sum.splits)
next
  case (enable h st adb tid user on db)
  then show ?case
    by (auto simp: apiRecurringEnable_def SetRecurringEnabled_def upd_tasks_def intro!: stamps_update split: sum.splits)
next
  case (delete h st adb tid user db)
  then show ?case
    by (auto simp: apiRecurringDelete_def DeleteRecurringTask_def stamps_ok_def distinct_map_filter split: sum.splits)
next
  case (run_now h st env adb tdb tid user res st')
  have "rd_tasks (rs_db st') = rd_tasks (rs_db st)"
    using run_now_tasks [of env adb tdb tid user st] unfolding run_now.hyps(2) snd_conv .
  then show ?case using run_now.IH by simp
qed (simp add: stamps_ok_def, rule stamps_tick)

text \<open>
  Property C25. The loop never fires a task twice for one civil day: over every sequence of ticks, edits,
  toggles, manual runs, deletions and new tasks, as long as the panel's day does not go back, no task id
  occurs twice with the same day among the fires.
\<close>

theorem recurring_fires_once_a_day:
  assumes "recur_run fires st"
  shows "distinct fires"
  using recur_run_ok [OF assms] by (simp add: stamps_ok_def)

section \<open>A recurring task passes no gate\<close>

lemma fire_creates:
  assumes "rt_Rows task \<noteq> []" "GetTarget tdb (rt_TargetID task) \<noteq> None" "int (length (rt_Rows task)) \<le> maxBatchRows"
  shows "fst (fireRecurringTask env adb tdb task st) = Inr (Some (fst (rv_freshJob env (rs_batch st))))"
proof -
  obtain t where "GetTarget tdb (rt_TargetID task) = Some t" using assms(2) by auto
  then show ?thesis using assms(1,3)
    by (simp add: fireRecurringTask_def CreateBatchJob_def Let_def split: prod.split split del: if_split)
qed

lemma validated:
  "validateRecurring tdb admin inp = Inr t \<Longrightarrow>
   rt_Rows t = map drop_reserved (ri_Rows inp) \<and> ri_Rows inp \<noteq> [] \<and> rt_TargetID t = ri_TargetID inp \<and>
   GetTarget tdb (ri_TargetID inp) \<noteq> None"
  by (auto simp: validateRecurring_def split: if_splits)

text \<open>
  A recurring task is a way around every gate of a submit: whoever may store one can run it at
  once, on any target that exists, whatever the allow-list, the run window, the cap of active runs and
  the run quota of his unit say.
\<close>

theorem recurring_run_is_ungated:
  assumes "apiRecurringCreate now adb tdb fresh user inp db = Inr db'" and "fresh \<notin> rt_ID ` set (rd_tasks db)"
    and "int (length (ri_Rows inp)) \<le> maxBatchRows"
  shows "fst (apiRecurringRunNow env adb tdb fresh user \<lparr>rs_db = db', rs_batch = queue, rs_started = started\<rparr>)
     = Inr (fst (rv_freshJob env queue))"
proof -
  obtain t where v: "validateRecurring tdb (isAdmin adb user) inp = Inr t"
    and db': "db' = CreateRecurringTask now fresh (t\<lparr>rt_CreatedBy := user\<rparr>) db"
    using assms(1) by (auto simp: apiRecurringCreate_def split: sum.splits)
  define task where "task = t\<lparr>rt_CreatedBy := user, rt_ID := fresh, rt_CreatedAt := now, rt_LastFired := []\<rparr>"
  have none: "find (\<lambda>x. rt_ID x = fresh) (rd_tasks db) = None" using assms(2) by (auto simp: find_None_iff)
  have "find P (xs @ [x]) = (case find P xs of None \<Rightarrow> if P x then Some x else None | Some y \<Rightarrow> Some y)" for P xs and x :: RecurringTask
    by (induction xs) auto
  then have "GetRecurringTask db' fresh = Some task"
    using none by (simp add: db' GetRecurringTask_def CreateRecurringTask_def task_def)
  then have auth: "recurringAuthorized adb db' fresh user = Inr task"
    by (simp add: recurringAuthorized_def task_def)
  let ?st = "\<lparr>rs_db = db', rs_batch = queue, rs_started = started\<rparr>"
  have "fst (fireRecurringTask env adb tdb task ?st) = Inr (Some (fst (rv_freshJob env queue)))"
    using fire_creates [of task tdb env adb ?st] validated [OF v] assms(3) by (simp add: task_def)
  then obtain st1 where "fireRecurringTask env adb tdb task ?st = (Inr (Some (fst (rv_freshJob env queue))), st1)"
    by (metis prod.collapse)
  then show ?thesis using auth by (simp add: apiRecurringRunNow_def)
qed

definition demo_task :: recurringIn where
  "demo_task = \<lparr>ri_Name = ''daily'', ri_TargetID = 9, ri_Rows = [[''code'' \<mapsto> ''600519'']], ri_Concurrency = 1,
     ri_Priority = [], ri_MaxRetries = 0, ri_Freq = ''daily'', ri_AtTime = ''09:30'', ri_Weekday = 0, ri_Monthday = 1,
     ri_Enabled = True\<rparr>"

definition demo_recur_env :: recurEnv where
  "demo_recur_env = \<lparr>rv_sched = demo_sched, rv_marshal = (\<lambda>_. ''{}''), rv_freshJob = (\<lambda>_. (1, 1)), rv_freshRun = (\<lambda>_. 1)\<rparr>"

lemma demo_task_stored:
  "\<exists>t. apiRecurringCreate ''t0'' demo_access (demo_targets\<lparr>tg_rows := []\<rparr>) 1 ''ann'' demo_task \<lparr>rd_tasks = [], rd_runs = []\<rparr>
     = Inr \<lparr>rd_tasks = [t], rd_runs = []\<rparr> \<and> rt_ID t = 1 \<and> rt_Enabled t \<and> rt_Freq t = ''daily'' \<and> rt_AtTime t = ''09:30'' \<and>
       rt_LastFired t = []"
proof -
  have "parseHHMM ''09:30'' = Some (9, 30)" "trim_space ''daily'' = ''daily''" by code_simp+
  moreover have "GetTarget (demo_targets\<lparr>tg_rows := []\<rparr>) 9 \<noteq> None" by (simp add: GetTarget_def demo_targets_def)
  ultimately show ?thesis
    by (simp add: apiRecurringCreate_def validateRecurring_def demo_task_def CreateRecurringTask_def)
qed

lemma recurring_run_is_ungated_witness:
  "let tdb = demo_targets\<lparr>tg_rows := []\<rparr>
   in fst (submit_job demo_submit_env ''ann'' (demo_submit []) ((demo_portal demo_access)\<lparr>po_targets := tdb\<rparr>))
        = submitAnswer.Refused 403 ''this workflow is not available to your group'' \<and>
      (\<exists>db. apiRecurringCreate ''t0'' demo_access tdb 1 ''ann'' demo_task \<lparr>rd_tasks = [], rd_runs = []\<rparr> = Inr db \<and>
         fst (apiRecurringRunNow demo_recur_env demo_access tdb 1 ''ann''
                \<lparr>rs_db = db, rs_batch = \<lparr>db_jobs = [], db_items = []\<rparr>, rs_started = []\<rparr>) = Inr 1)"
proof -
  let ?tdb = "demo_targets\<lparr>tg_rows := []\<rparr>"
  have "fst (submit_job demo_submit_env ''ann'' (demo_submit []) ((demo_portal demo_access)\<lparr>po_targets := ?tdb\<rparr>))
        = submitAnswer.Refused 403 ''this workflow is not available to your group''" by code_simp
  moreover obtain db where db: "apiRecurringCreate ''t0'' demo_access ?tdb 1 ''ann'' demo_task \<lparr>rd_tasks = [], rd_runs = []\<rparr> = Inr db"
    using demo_task_stored by blast
  moreover have "fst (apiRecurringRunNow demo_recur_env demo_access ?tdb 1 ''ann''
        \<lparr>rs_db = db, rs_batch = \<lparr>db_jobs = [], db_items = []\<rparr>, rs_started = []\<rparr>) = Inr (fst (1, 1))"
    using recurring_run_is_ungated [OF db, of demo_recur_env "\<lparr>db_jobs = [], db_items = []\<rparr>" "[]"]
    by (simp add: demo_task_def maxBatchRows_def demo_recur_env_def)
  ultimately show ?thesis by simp
qed

lemma recurring_fires_once_a_day_witness:
  "\<exists>fires st. recur_run fires st \<and> fires = [(1, ''2026-03-03'')] \<and> distinct fires"
proof -
  let ?tdb = "demo_targets\<lparr>tg_rows := []\<rparr>"
  let ?st0 = "\<lparr>rs_db = \<lparr>rd_tasks = [], rd_runs = []\<rparr>, rs_batch = \<lparr>db_jobs = [], db_items = []\<rparr>, rs_started = []\<rparr>"
  obtain t where t: "apiRecurringCreate ''t0'' demo_access ?tdb 1 ''ann'' demo_task \<lparr>rd_tasks = [], rd_runs = []\<rparr>
      = Inr \<lparr>rd_tasks = [t], rd_runs = []\<rparr>" "rt_ID t = 1" "rt_Enabled t" "rt_Freq t = ''daily''" "rt_AtTime t = ''09:30''"
      "rt_LastFired t = []"
    using demo_task_stored by blast
  let ?st1 = "?st0\<lparr>rs_db := \<lparr>rd_tasks = [t], rd_runs = []\<rparr>\<rparr>"
  have "recur_run [] ?st0" by (rule recur_run.start) simp
  then have r1: "recur_run [] ?st1" by (rule recur_run.create [where fresh = 1]) (use t(1) in simp_all)
  obtain fired st2 where tick: "recurringTick demo_recur_env demo_access ?tdb ?st1 = (fired, st2)" by fastforce
  have day: "tick_day demo_recur_env = ''2026-03-03''"
    "cadenceDue ''daily'' ''09:30'' wd md [] (sv_now demo_sched) (sv_panel demo_sched) = Some ''2026-03-03''" for wd md
    by code_simp (simp add: cadenceDue_def cadence_day_def; code_simp)
  have "due_stamp demo_recur_env t \<noteq> None" using t day(2) by (simp add: due_stamp_def demo_recur_env_def)
  then have "fired = [(1, ''2026-03-03'')]"
    using fold_recur [of demo_recur_env demo_access ?tdb "[t]" "[]" ?st1] tick t day(1)
    by (simp add: recurringTick_def EnabledRecurringTasks_def due_ids_def)
  moreover have "recur_run ([] @ fired) st2" by (rule recur_run.tick [OF r1 _ tick]) simp
  ultimately show ?thesis using recurring_fires_once_a_day [of "[(1, ''2026-03-03'')]" st2] by auto
qed

section \<open>The audit ring\<close>

text \<open>
  The history of a task stays bounded: recording a run keeps at most fifty of the task's runs,
  the newest ones, and touches no other task's history.
\<close>

theorem audit_ring_bounded:
  assumes "distinct (map ru_ID (rd_runs db))" and "fresh \<notin> ru_ID ` set (rd_runs db)"
  shows "length (filter (\<lambda>r. ru_TaskID r = tid) (rd_runs (InsertRecurringRun now fresh tid jobID db))) \<le> 50 \<and>
    filter (\<lambda>r. ru_TaskID r \<noteq> tid) (rd_runs (InsertRecurringRun now fresh tid jobID db))
      = filter (\<lambda>r. ru_TaskID r \<noteq> tid) (rd_runs db)"
proof -
  define runs where "runs = rd_runs db @ [\<lparr>ru_ID = fresh, ru_TaskID = tid, ru_JobID = jobID, ru_FiredAt = now\<rparr>]"
  define kept where "kept = newest_runs recurringRunsKeepPerTask tid runs"
  have ins: "rd_runs (InsertRecurringRun now fresh tid jobID db) = filter (\<lambda>r. ru_TaskID r \<noteq> tid \<or> ru_ID r \<in> set kept) runs"
    by (simp add: InsertRecurringRun_def runs_def kept_def Let_def)
  let ?mine = "filter (\<lambda>r. ru_TaskID r = tid \<and> ru_ID r \<in> set kept) runs"
  have "distinct (map ru_ID runs)" using assms by (auto simp: runs_def)
  then have d: "distinct (map ru_ID ?mine)" by (rule distinct_map_filter)
  have "length ?mine = card (ru_ID ` set ?mine)" using distinct_card [OF d] by simp
  also have "\<dots> \<le> card (set kept)" by (rule card_mono) auto
  also have "\<dots> \<le> 50" using card_length [of kept] by (simp add: kept_def newest_runs_def recurringRunsKeepPerTask_def)
  finally have "length ?mine \<le> 50" .
  moreover have "filter (\<lambda>r. ru_TaskID r = tid) (filter (\<lambda>r. ru_TaskID r \<noteq> tid \<or> ru_ID r \<in> set kept) runs) = ?mine"
    by (auto simp: intro!: filter_cong)
  moreover have "filter (\<lambda>r. ru_TaskID r \<noteq> tid) (filter (\<lambda>r. ru_TaskID r \<noteq> tid \<or> ru_ID r \<in> set kept) runs)
      = filter (\<lambda>r. ru_TaskID r \<noteq> tid) (rd_runs db)"
    by (simp add: runs_def) (rule filter_cong, auto)
  ultimately show ?thesis by (simp add: ins)
qed

lemma audit_ring_bounded_witness:
  "length (filter (\<lambda>r. ru_TaskID r = 2) (rd_runs (InsertRecurringRun ''t0'' 7 2 1 \<lparr>rd_tasks = [], rd_runs = []\<rparr>))) \<le> 50"
  using audit_ring_bounded [of "\<lparr>rd_tasks = [], rd_runs = []\<rparr>" 7 2 "''t0''" 1] by simp

end
