(* ===== verification/Accounts.thy ===== *)
theory Accounts
  imports OU_Mandate Run_Recurring
begin

text \<open>
  The administration of accounts (ou_account_write.go, ou_membership.go, the account half of
  user_admin_api.go and user_admin.go, the account endpoints of apiui.go and DeleteUser of store.go): adding,
  saving, deleting and bulk changes, with the guards that keep an administrator. Hashing a password and
  drawing the revision of a session are arguments. A case variant of a name is the same name to the guards.
\<close>

section \<open>Names, passwords, expiry\<close>

definition normalizeUsername :: "string \<Rightarrow> string" where
  "normalizeUsername name = to_lower (trim_space name)"

text \<open>The length of the rune at the head of a byte string, 1 where the encoding is broken.\<close>

definition cont_byte :: "nat \<Rightarrow> bool" where
  "cont_byte b \<longleftrightarrow> 128 \<le> b \<and> b \<le> 191"

definition rune_len :: "nat list \<Rightarrow> nat" where
  "rune_len bs =
     (case bs of
        b0 # b1 # rest \<Rightarrow>
          if 194 \<le> b0 \<and> b0 \<le> 223 then (if cont_byte b1 then 2 else 1)
          else if 224 \<le> b0 \<and> b0 \<le> 239
          then (case rest of
                  b2 # _ \<Rightarrow> if (if b0 = 224 then 160 else 128) \<le> b1 \<and> b1 \<le> (if b0 = 237 then 159 else 191) \<and> cont_byte b2
                            then 3 else 1
                | [] \<Rightarrow> 1)
          else if 240 \<le> b0 \<and> b0 \<le> 244
          then (case rest of
                  b2 # b3 # _ \<Rightarrow> if (if b0 = 240 then 144 else 128) \<le> b1 \<and> b1 \<le> (if b0 = 244 then 143 else 191) \<and>
                                    cont_byte b2 \<and> cont_byte b3 then 4 else 1
                | _ \<Rightarrow> 1)
          else 1
      | _ \<Rightarrow> 1)"

function rune_count :: "nat list \<Rightarrow> nat" where
  "rune_count [] = 0"
| "rune_count (b # bs) = Suc (rune_count (drop (rune_len (b # bs) - 1) bs))"
  by pat_completeness auto
termination by (relation "measure length") auto

definition minPasswordRunes :: nat where "minPasswordRunes = 12"

definition validateNewPassword :: "string \<Rightarrow> string option" where
  "validateNewPassword password =
     (if rune_count (map of_char password) < minPasswordRunes then Some ''password must be at least 12 characters''
      else if 72 < length password then Some ''password must be at most 72 bytes'' else None)"

definition parseExpiry :: "string \<Rightarrow> string option" where
  "parseExpiry raw = (let e = trim_space raw in if e = [] then Some [] else map_option (\<lambda>_. e) (parse_date e))"

section \<open>The tables\<close>

record accountRow =
  ac_username :: string
  ac_hash :: string
  ac_role :: string
  ac_display :: string
  ac_email :: string
  ac_active :: bool
  ac_expires :: string
  ac_group :: int
  ac_sessionRev :: int
  ac_created :: string

record deliveryRow =
  dv_ID :: int
  dv_Username :: string
  dv_State :: string
  dv_Sending :: bool
  dv_LastError :: string
  dv_LeaseToken :: string
  dv_LeaseUntil :: int

record attemptRow =
  at_DeliveryID :: int
  at_Outcome :: string
  at_ErrorCode :: string
  at_FinishedAt :: int

text \<open>
  \<open>ad_owned\<close> holds the tables with a column naming an account, each as its rows under that name. The
  organization keeps the units and the grants; its list of members is read off the accounts.
\<close>

record acctDb =
  ad_users :: "accountRow list"
  ad_org :: orgDb
  ad_owned :: "string \<Rightarrow> (string \<times> string) list"
  ad_batch :: batchDb
  ad_recur :: recurDb
  ad_cycles :: "string \<rightharpoonup> int"
  ad_deliveries :: "deliveryRow list"
  ad_attempts :: "attemptRow list"

definition EffRole :: "accountRow \<Rightarrow> string" where
  "EffRole u = (if ac_role u \<noteq> [] then ac_role u else ''user'')"

definition IsAdmin :: "accountRow \<Rightarrow> bool" where
  "IsAdmin u \<longleftrightarrow> EffRole u = ''admin''"

definition GetUser :: "acctDb \<Rightarrow> string \<Rightarrow> accountRow option" where
  "GetUser db name = find (\<lambda>u. ac_username u = name) (ad_users db)"

definition CountAdmins :: "acctDb \<Rightarrow> int" where
  "CountAdmins db = int (length (filter (\<lambda>u. ac_role u = ''admin'') (ad_users db)))"

definition UsernameTaken :: "acctDb \<Rightarrow> string \<Rightarrow> bool" where
  "UsernameTaken db name =
     (let want = normalizeUsername name
      in want \<noteq> [] \<and> list_ex (\<lambda>u. normalizeUsername (ac_username u) = want) (ad_users db))"

definition upd_user :: "string \<Rightarrow> (accountRow \<Rightarrow> accountRow) \<Rightarrow> acctDb \<Rightarrow> acctDb" where
  "upd_user name f db = db\<lparr>ad_users := update_where (\<lambda>u. ac_username u = name) f (ad_users db)\<rparr>"

definition SetUserRole :: "string \<Rightarrow> string \<Rightarrow> acctDb \<Rightarrow> acctDb" where
  "SetUserRole name role = upd_user name (\<lambda>u. u\<lparr>ac_role := role\<rparr>)"

definition SetUserActive :: "string \<Rightarrow> bool \<Rightarrow> acctDb \<Rightarrow> acctDb" where
  "SetUserActive name on = upd_user name (\<lambda>u. u\<lparr>ac_active := on\<rparr>)"

text \<open>An account is expired once the panel's date is after its last valid day.\<close>

definition accountExpired :: "string \<Rightarrow> accountRow \<Rightarrow> bool" where
  "accountExpired panelDate u \<longleftrightarrow> ac_expires u \<noteq> [] \<and> ac_expires u < panelDate"

section \<open>Membership\<close>

definition destination_known :: "orgDb \<Rightarrow> int \<Rightarrow> ouWriteErr option" where
  "destination_known org g =
     (let graph = sn_graph (loadOUPolicySnapshot (og_rows org));
          effective = (if g = 0 then g_defaultID graph else g)
      in case policyChain graph effective of Inl e \<Rightarrow> Some (OuTree e) | Inr _ \<Rightarrow> None)"

text \<open>The accounts that move, with where they were, read before any of them is written.\<close>

fun membership_changes :: "acctDb \<Rightarrow> int \<Rightarrow> string list \<Rightarrow> (string \<times> int) list option" where
  "membership_changes db g [] = Some []"
| "membership_changes db g (name # names) =
     (case GetUser db name of
        None \<Rightarrow> None
      | Some u \<Rightarrow> map_option (\<lambda>before. if ac_group u \<noteq> g then AList.update name (ac_group u) before else before)
                    (membership_changes db g names))"

definition SetPrimaryGroups :: "string list \<Rightarrow> int \<Rightarrow> acctDb \<Rightarrow> ouWriteErr + (string \<times> int) list \<times> acctDb" where
  "SetPrimaryGroups names g db =
     (case destination_known (ad_org db) g of
        Some e \<Rightarrow> Inl e
      | None \<Rightarrow>
          (case membership_changes db g names of
             None \<Rightarrow> Inl OuNoRows
           | Some before \<Rightarrow> Inr (before, fold (\<lambda>(name, _). upd_user name (\<lambda>u. u\<lparr>ac_group := g\<rparr>)) before db)))"

definition createOUAccount ::
  "string \<Rightarrow> int \<Rightarrow> string \<Rightarrow> string \<Rightarrow> string \<Rightarrow> string \<Rightarrow> string \<Rightarrow> string \<Rightarrow> int \<Rightarrow> acctDb \<Rightarrow> ouWriteErr + acctDb" where
  "createOUAccount now epoch username hash role display email expiry g db =
     (case destination_known (ad_org db) g of
        Some e \<Rightarrow> Inl e
      | None \<Rightarrow>
          if GetUser db username \<noteq> None then Inl OuUnique
          else Inr (db\<lparr>ad_users := ad_users db @
                 [\<lparr>ac_username = username, ac_hash = hash, ac_role = role, ac_display = display, ac_email = email,
                   ac_active = True, ac_expires = expiry, ac_group = g, ac_sessionRev = epoch, ac_created = now\<rparr>]\<rparr>))"

section \<open>Saving an account\<close>

record ouAccountPatch =
  ap_Role :: "string option"
  ap_Password :: string
  ap_DisplayName :: "string option"
  ap_Email :: "string option"
  ap_Active :: "bool option"
  ap_PrimaryGroup :: "int option"
  ap_ExpiresAt :: "string option"

definition changed_text :: "string option \<Rightarrow> string \<Rightarrow> string" where
  "changed_text v old = (case v of None \<Rightarrow> old | Some t \<Rightarrow> trim_space t)"

text \<open>The row after a save; \<open>prot\<close> says the account is the actor's own or the last administrator's.\<close>

definition saved_row :: "bool \<Rightarrow> int \<Rightarrow> ouAccountPatch \<Rightarrow> accountRow \<Rightarrow> accountRow" where
  "saved_row prot admins inp u =
     u\<lparr>ac_role := (case ap_Role inp of None \<Rightarrow> ac_role u
                   | Some r \<Rightarrow> let role = (if IsAdmin u \<and> admins \<le> 1 then ''admin'' else validRole r)
                             in if role \<noteq> ac_role u then role else ac_role u),
       ac_hash := (if ap_Password inp \<noteq> [] then ap_Password inp else ac_hash u),
       ac_sessionRev := (if ap_Password inp \<noteq> [] then ac_sessionRev u + 1 else ac_sessionRev u),
       ac_display := changed_text (ap_DisplayName inp) (ac_display u),
       ac_email := changed_text (ap_Email inp) (ac_email u),
       ac_active := (case ap_Active inp of None \<Rightarrow> ac_active u
                     | Some on \<Rightarrow> if (on \<or> \<not> prot) \<and> on \<noteq> ac_active u then on else ac_active u),
       ac_expires := (case ap_ExpiresAt inp of None \<Rightarrow> ac_expires u | Some e \<Rightarrow> e),
       ac_group := (case ap_PrimaryGroup inp of None \<Rightarrow> ac_group u | Some g \<Rightarrow> g)\<rparr>"

definition saveOUAccount :: "string \<Rightarrow> string \<Rightarrow> string \<Rightarrow> ouAccountPatch \<Rightarrow> acctDb \<Rightarrow> ouWriteErr + acctDb" where
  "saveOUAccount name actor panelDate inp db =
     (case GetUser db name of
        None \<Rightarrow> Inl OuNoRows
      | Some u \<Rightarrow>
          let admins = CountAdmins db; prot = (name = actor \<or> IsAdmin u \<and> admins \<le> 1)
          in if (case ap_ExpiresAt inp of None \<Rightarrow> False | Some e \<Rightarrow> e \<noteq> [] \<and> e < panelDate) \<and> prot
             then Inl (OuInvalid ''invalid_expiry'')
             else case (case ap_PrimaryGroup inp of None \<Rightarrow> None | Some g \<Rightarrow> destination_known (ad_org db) g) of
                    Some e \<Rightarrow> Inl e
                  | None \<Rightarrow> Inr (upd_user name (saved_row prot admins inp) db))"

section \<open>Deleting an account\<close>

definition swept_tables :: "string list" where
  "swept_tables = [''notification_recipients'', ''notification_preferences'', ''job_notification_intents'',
     ''webauthn_credentials'', ''auth_requests'', ''user_sessions'', ''login_history'', ''chat_conversations'',
     ''user_stock_favorites'', ''priority_tickets'', ''export_jobs'']"

text \<open>Open attempts and deliveries of a deleted account end; a send under way is left uncertain.\<close>

definition closed_attempts :: "int \<Rightarrow> int list \<Rightarrow> attemptRow list \<Rightarrow> attemptRow list" where
  "closed_attempts nowMs ids =
     update_where (\<lambda>a. at_FinishedAt a = 0 \<and> at_DeliveryID a \<in> set ids)
       (\<lambda>a. a\<lparr>at_Outcome := ''uncertain'', at_ErrorCode := ''account_deleted'', at_FinishedAt := nowMs\<rparr>)"

definition closed_deliveries :: "string \<Rightarrow> deliveryRow list \<Rightarrow> deliveryRow list" where
  "closed_deliveries name ds =
     update_where (\<lambda>d. dv_Username d = name) (\<lambda>d. d\<lparr>dv_LastError := ''account_deleted''\<rparr>)
       (update_where (\<lambda>d. dv_Username d = name \<and> dv_State d \<in> {''pending'', ''retry_wait'', ''leased''})
          (\<lambda>d. d\<lparr>dv_State := (if dv_State d = ''leased'' \<and> dv_Sending d then ''uncertain'' else ''canceled''),
                 dv_LastError := ''account_deleted'', dv_LeaseToken := [], dv_LeaseUntil := 0, dv_Sending := False\<rparr>) ds)"

text \<open>\<open>key\<close> is the hash of a name under which its notification generation is counted.\<close>

definition DeleteUser :: "(string \<Rightarrow> string) \<Rightarrow> string \<Rightarrow> int \<Rightarrow> string \<Rightarrow> acctDb \<Rightarrow> acctDb" where
  "DeleteUser key now nowMs name db =
     (let p = userPrincipal name; keep = (\<lambda>q. q \<noteq> p); org = ad_org db; rec = ad_recur db;
          tasks = map rt_ID (filter (\<lambda>t. rt_CreatedBy t = name) (rd_tasks rec));
          ids = map dv_ID (filter (\<lambda>d. dv_Username d = name) (ad_deliveries db))
      in db\<lparr>ad_users := filter (\<lambda>u. ac_username u \<noteq> name) (ad_users db),
            ad_cycles := (ad_cycles db)(key name \<mapsto> (case ad_cycles db (key name) of None \<Rightarrow> 1 | Some n \<Rightarrow> n + 1)),
            ad_owned := (\<lambda>t. if t \<in> set swept_tables then filter (\<lambda>r. fst r \<noteq> name) (ad_owned db t) else ad_owned db t),
            ad_attempts := closed_attempts nowMs ids (ad_attempts db),
            ad_deliveries := closed_deliveries name (ad_deliveries db),
            ad_batch := upd_jobs (\<lambda>j. bj_CreatedBy j = name \<and> bj_Status j \<in> {''queued'', ''running'', ''cancelling''})
                          (\<lambda>j. j\<lparr>bj_Status := ''cancelled'', bj_FinishedAt := now\<rparr>) (ad_batch db),
            ad_recur := rec\<lparr>rd_runs := filter (\<lambda>r. ru_TaskID r \<notin> set tasks) (rd_runs rec),
                            rd_tasks := filter (\<lambda>t. rt_CreatedBy t \<noteq> name) (rd_tasks rec)\<rparr>,
            ad_org := org\<lparr>og_viewers := filter (keep \<circ> snd) (og_viewers org), og_versionGrants := filter (keep \<circ> snd) (og_versionGrants org),
                          og_annGrants := filter (keep \<circ> snd) (og_annGrants org), og_routeGrants := filter (keep \<circ> snd) (og_routeGrants org)\<rparr>\<rparr>)"

section \<open>The endpoints\<close>

text \<open>Hashing, the clock, the panel's date, the revision drawn for a new account, the notification key.\<close>

record acctEnv =
  ae_bcrypt :: "string \<Rightarrow> string option"
  ae_now :: string
  ae_nowMs :: int
  ae_panelDate :: string
  ae_epoch :: int
  ae_key :: "string \<Rightarrow> string"

record userAddIn =
  ua_Username :: string
  ua_Password :: string
  ua_Role :: string
  ua_DisplayName :: string
  ua_Email :: string
  ua_PrimaryGroup :: int
  ua_ExpiresAt :: string

definition apiUserAdd :: "acctEnv \<Rightarrow> userAddIn \<Rightarrow> acctDb \<Rightarrow> (int \<times> string) + acctDb" where
  "apiUserAdd env inp db =
     (let name = normalizeUsername (ua_Username inp)
      in if name = [] \<or> ua_Password inp = [] then Inl (400, ''username and password required'')
         else case validateNewPassword (ua_Password inp) of
           Some e \<Rightarrow> Inl (400, e)
         | None \<Rightarrow>
             (case parseExpiry (ua_ExpiresAt inp) of
                None \<Rightarrow> Inl (400, ''expires_at must be a YYYY-MM-DD date'')
              | Some expiry \<Rightarrow>
                  if UsernameTaken db name then Inl (400, ''username already exists'')
                  else (case ae_bcrypt env (ua_Password inp) of
                          None \<Rightarrow> Inl (500, ''could not set password'')
                        | Some h \<Rightarrow>
                            map_sum ouWriteHTTPError (\<lambda>d. d)
                              (createOUAccount (ae_now env) (ae_epoch env) name h (validRole (ua_Role inp))
                                 (trim_space (ua_DisplayName inp)) (trim_space (ua_Email inp)) expiry
                                 (ua_PrimaryGroup inp) db))))"

text \<open>The patch with its password hashed and its expiry checked.\<close>

definition prepared_patch :: "acctEnv \<Rightarrow> ouAccountPatch \<Rightarrow> (int \<times> string) + ouAccountPatch" where
  "prepared_patch env inp =
     (case (if ap_Password inp = [] then Inr inp
            else case validateNewPassword (ap_Password inp) of
                   Some e \<Rightarrow> Inl (400, e)
                 | None \<Rightarrow> (case ae_bcrypt env (ap_Password inp) of
                             None \<Rightarrow> Inl (500, ''could not set password'')
                           | Some h \<Rightarrow> Inr (inp\<lparr>ap_Password := h\<rparr>))) of
        Inl e \<Rightarrow> Inl e
      | Inr inp1 \<Rightarrow>
          (case ap_ExpiresAt inp1 of
             None \<Rightarrow> Inr inp1
           | Some raw \<Rightarrow> (case parseExpiry raw of
                            None \<Rightarrow> Inl (400, ''expires_at must be a YYYY-MM-DD date'')
                          | Some e \<Rightarrow> Inr (inp1\<lparr>ap_ExpiresAt := Some e\<rparr>))))"

definition apiUserSave :: "acctEnv \<Rightarrow> string \<Rightarrow> string \<Rightarrow> ouAccountPatch \<Rightarrow> acctDb \<Rightarrow> (int \<times> string) + acctDb" where
  "apiUserSave env name actor inp db =
     (case GetUser db name of
        None \<Rightarrow> Inl (404, ''not found'')
      | Some _ \<Rightarrow>
          (case prepared_patch env inp of
             Inl e \<Rightarrow> Inl e
           | Inr inp1 \<Rightarrow> map_sum ouWriteHTTPError (\<lambda>d. d) (saveOUAccount name actor (ae_panelDate env) inp1 db)))"

text \<open>What both deletions ask before they send the statements of \<open>DeleteUser\<close>.\<close>

definition last_or_own :: "string \<Rightarrow> acctDb \<Rightarrow> accountRow \<Rightarrow> bool" where
  "last_or_own actor db u \<longleftrightarrow> ac_username u = actor \<or> IsAdmin u \<and> CountAdmins db \<le> 1"

definition delete_allowed :: "string \<Rightarrow> string \<Rightarrow> acctDb \<Rightarrow> bool" where
  "delete_allowed name actor db = (case GetUser db name of None \<Rightarrow> False | Some u \<Rightarrow> \<not> last_or_own actor db u)"

definition apiUserDelete :: "acctEnv \<Rightarrow> string \<Rightarrow> string \<Rightarrow> acctDb \<Rightarrow> acctDb" where
  "apiUserDelete env name actor db =
     (if delete_allowed name actor db then DeleteUser (ae_key env) (ae_now env) (ae_nowMs env) name db else db)"

datatype bulkAction = Enable | Disable | Delete | SetRole string | OtherAction

definition bulk_one :: "acctEnv \<Rightarrow> string \<Rightarrow> bulkAction \<Rightarrow> string \<Rightarrow> int \<times> acctDb \<Rightarrow> int \<times> acctDb" where
  "bulk_one env actor action name s =
     (case s of (n, db) \<Rightarrow>
       (case GetUser db name of
          None \<Rightarrow> (n, db)
        | Some u \<Rightarrow>
            (case action of
               Enable \<Rightarrow> (n + 1, SetUserActive name True db)
             | Disable \<Rightarrow> if last_or_own actor db u then (n, db) else (n + 1, SetUserActive name False db)
             | Delete \<Rightarrow> if last_or_own actor db u then (n, db)
                         else (n + 1, DeleteUser (ae_key env) (ae_now env) (ae_nowMs env) name db)
             | SetRole r \<Rightarrow> if validRole r \<noteq> ''admin'' \<and> IsAdmin u \<and> CountAdmins db \<le> 1 then (n, db)
                            else (n + 1, SetUserRole name (validRole r) db)
             | OtherAction \<Rightarrow> (n, db))))"

text \<open>\<open>SetGroup\<close> is the destination of a group move, 0 to clear.\<close>

datatype bulkRequest = SetGroup int | Each bulkAction

definition apiUsersBulk ::
  "acctEnv \<Rightarrow> string \<Rightarrow> bulkRequest \<Rightarrow> string list \<Rightarrow> acctDb \<Rightarrow> ((int \<times> string) + int) \<times> acctDb" where
  "apiUsersBulk env actor req names db =
     (case req of
        SetGroup g \<Rightarrow> (case SetPrimaryGroups names g db of
                         Inl e \<Rightarrow> (Inl (ouWriteHTTPError e), db)
                       | Inr (before, db') \<Rightarrow> (Inr (int (length before)), db'))
      | Each action \<Rightarrow> (case fold (bulk_one env actor action) names (0, db) of (n, db') \<Rightarrow> (Inr n, db')))"

section \<open>An administrator remains\<close>

definition with_members :: "acctDb \<Rightarrow> orgDb" where
  "with_members db = (ad_org db)\<lparr>og_members := map (\<lambda>u. (ac_username u, ac_group u)) (ad_users db)\<rparr>"

text \<open>One request of the console on an account or a unit.\<close>

inductive acct_step :: "acctDb \<Rightarrow> acctDb \<Rightarrow> bool" where
  add: "apiUserAdd env inp db = Inr db' \<Longrightarrow> acct_step db db'"
| save: "apiUserSave env name actor patch db = Inr db' \<Longrightarrow> acct_step db db'"
| delete: "acct_step db (apiUserDelete env name actor db)"
| bulk: "apiUsersBulk env actor req names db = (answer, db') \<Longrightarrow> acct_step db db'"
| units: "ou_step (with_members db) org \<Longrightarrow> acct_step db (db\<lparr>ad_org := org\<rparr>)"

definition keyed :: "acctDb \<Rightarrow> bool" where
  "keyed db \<longleftrightarrow> distinct (map ac_username (ad_users db))"

definition some_admin :: "acctDb \<Rightarrow> bool" where
  "some_admin db \<longleftrightarrow> (\<exists>w\<in>set (ad_users db). ac_role w = ''admin'')"

lemma some_admin_count: "some_admin db \<longleftrightarrow> 1 \<le> CountAdmins db"
  by (induction "ad_users db") (auto simp: some_admin_def CountAdmins_def filter_empty_conv Suc_le_eq of_nat_less_iff
      simp flip: length_greater_0_conv)

lemma GetUserD: "GetUser db name = Some u \<Longrightarrow> u \<in> set (ad_users db) \<and> ac_username u = name"
  unfolding GetUser_def by (rule find_SomeE)

lemma IsAdmin_role: "IsAdmin u \<longleftrightarrow> ac_role u = ''admin''"
  by (simp add: IsAdmin_def EffRole_def)

text \<open>Whoever is not the last administrator leaves one behind.\<close>

lemma admin_besides:
  assumes k: "keyed db" and a: "some_admin db" and u: "GetUser db name = Some u" and "\<not> (IsAdmin u \<and> CountAdmins db \<le> 1)"
  shows "\<exists>w\<in>set (ad_users db). ac_role w = ''admin'' \<and> ac_username w \<noteq> name"
proof (rule ccontr)
  assume no: "\<not> ?thesis"
  then have only: "w = u" if "w \<in> set (ad_users db)" "ac_role w = ''admin''" for w
    using that k GetUserD [OF u] by (auto simp: keyed_def distinct_map inj_on_def)
  then have adm: "IsAdmin u" using a by (auto simp: some_admin_def IsAdmin_role)
  let ?F = "filter (\<lambda>w. ac_role w = ''admin'') (ad_users db)"
  have "set ?F \<subseteq> {u}" using only by auto
  moreover have "distinct ?F" using k by (auto simp: keyed_def distinct_map)
  ultimately have "length ?F \<le> 1" by (metis card.empty card_insert_le_m1 card_mono distinct_card finite.emptyI finite.insertI is_singletonI is_singleton_altdef le_numeral_extra(4))
  then have "CountAdmins db \<le> 1" by (simp add: CountAdmins_def)
  then show False using assms(4) adm by simp
qed

lemma upd_user_simps [simp]:
  "ad_users (upd_user name f db) = update_where (\<lambda>u. ac_username u = name) f (ad_users db)"
  "ad_org (upd_user name f db) = ad_org db"
  by (simp_all add: upd_user_def)

lemma upd_user_rows: "w \<in> set (ad_users (upd_user name f db)) \<longleftrightarrow>
  (\<exists>u\<in>set (ad_users db). w = (if ac_username u = name then f u else u))"
proof -
  have "w \<in> set (map (\<lambda>u. if ac_username u = name then f u else u) us) \<longleftrightarrow> (\<exists>u\<in>set us. w = (if ac_username u = name then f u else u))" for us
    by (simp only: set_map image_iff)
  then show ?thesis unfolding upd_user_simps update_where_def .
qed

lemma upd_user_keyed: "(\<And>u. ac_username (f u) = ac_username u) \<Longrightarrow> keyed db \<Longrightarrow> keyed (upd_user name f db)"
proof -
  assume f: "\<And>u. ac_username (f u) = ac_username u" and k: "keyed db"
  have "map ac_username (update_where P f us) = map ac_username us" for P us
    by (induction us) (simp_all add: update_where_def f)
  then show ?thesis using k by (simp add: keyed_def)
qed

lemma upd_user_other:
  "w \<in> set (ad_users db) \<Longrightarrow> ac_username w \<noteq> name \<Longrightarrow> w \<in> set (ad_users (upd_user name f db))"
  unfolding upd_user_rows by force

lemma DeleteUser_users: "ad_users (DeleteUser key now ms name db) = filter (\<lambda>u. ac_username u \<noteq> name) (ad_users db)"
  by (simp add: DeleteUser_def Let_def)

lemma keeps_admin:
  assumes "\<exists>w\<in>set (ad_users db). ac_role w = ''admin'' \<and> ac_username w \<noteq> name"
  shows "some_admin (upd_user name f db)" "some_admin (DeleteUser key now ms name db)"
  using assms upd_user_other by (fastforce simp: some_admin_def DeleteUser_users)+

lemma DeleteUser_keyed: "keyed db \<Longrightarrow> keyed (DeleteUser key now ms name db)"
  by (simp add: keyed_def DeleteUser_users distinct_map_filter)

definition acct_ok :: "acctDb \<Rightarrow> bool" where
  "acct_ok db \<longleftrightarrow> keyed db \<and> some_admin db"

lemma upd_user_ok:
  assumes "acct_ok db" "GetUser db name = Some u" and f: "\<And>v. ac_username (f v) = ac_username v"
    and keep: "IsAdmin u \<and> CountAdmins db \<le> 1 \<Longrightarrow> ac_role (f u) = ''admin''"
  shows "acct_ok (upd_user name f db)"
proof (cases "IsAdmin u \<and> CountAdmins db \<le> 1")
  case True
  have "f u \<in> set (ad_users (upd_user name f db))" using GetUserD [OF assms(2)] unfolding upd_user_rows by force
  then have "some_admin (upd_user name f db)" using keep [OF True] by (auto simp: some_admin_def)
  then show ?thesis using upd_user_keyed [OF f] assms(1) by (simp add: acct_ok_def)
next
  case False
  then have "\<exists>w\<in>set (ad_users db). ac_role w = ''admin'' \<and> ac_username w \<noteq> name"
    using admin_besides [OF _ _ assms(2)] assms(1) by (simp add: acct_ok_def)
  then show ?thesis using keeps_admin(1) upd_user_keyed [OF f] assms(1) by (simp add: acct_ok_def)
qed

lemma same_role_ok:
  assumes "acct_ok db" and f: "\<And>v. ac_username (f v) = ac_username v" "\<And>v. ac_role (f v) = ac_role v"
  shows "acct_ok (upd_user name f db)"
proof -
  obtain w where "w \<in> set (ad_users db)" "ac_role w = ''admin''" using assms(1) by (auto simp: acct_ok_def some_admin_def)
  then have "(if ac_username w = name then f w else w) \<in> set (ad_users (upd_user name f db))"
    "ac_role (if ac_username w = name then f w else w) = ''admin''"
    using f unfolding upd_user_rows by auto
  then have "some_admin (upd_user name f db)" by (auto simp: some_admin_def simp del: upd_user_simps)
  then show ?thesis using upd_user_keyed [OF f(1)] assms(1) by (simp add: acct_ok_def)
qed

lemma DeleteUser_ok:
  assumes "acct_ok db" "GetUser db name = Some u" "\<not> last_or_own actor db u"
  shows "acct_ok (DeleteUser key now ms name db)"
proof -
  have "\<not> (IsAdmin u \<and> CountAdmins db \<le> 1)" using assms(3) by (simp add: last_or_own_def)
  then have "\<exists>w\<in>set (ad_users db). ac_role w = ''admin'' \<and> ac_username w \<noteq> name"
    using admin_besides [OF _ _ assms(2)] assms(1) by (simp add: acct_ok_def)
  then show ?thesis using keeps_admin(2) DeleteUser_keyed assms(1) by (simp add: acct_ok_def)
qed

lemma saved_row_username [simp]: "ac_username (saved_row prot n inp u) = ac_username u"
  by (simp add: saved_row_def)

lemma saveOUAccount_ok:
  assumes "saveOUAccount name actor d inp db = Inr db'" "acct_ok db"
  shows "acct_ok db'"
proof -
  obtain u prot where u: "GetUser db name = Some u" "db' = upd_user name (saved_row prot (CountAdmins db) inp) db"
    using assms(1) by (auto simp: saveOUAccount_def Let_def split: option.splits if_splits)
  have "ac_role (saved_row prot (CountAdmins db) inp u) = ''admin''" if "IsAdmin u \<and> CountAdmins db \<le> 1"
    using that by (auto simp: saved_row_def IsAdmin_role Let_def split: option.splits)
  then show ?thesis unfolding u(2) by (intro upd_user_ok [OF assms(2) u(1)]) simp_all
qed

lemma bulk_one_ok: "acct_ok (snd s) \<Longrightarrow> acct_ok (snd (bulk_one env actor action name s))"
proof (cases s)
  fix n db assume s: "s = (n, db)" and ok: "acct_ok (snd s)"
  show ?thesis
  proof (cases "GetUser db name")
    case None
    then show ?thesis using ok s by (simp add: bulk_one_def)
  next
    case (Some u)
    show ?thesis
    proof (cases action)
      case (SetRole r)
      have "acct_ok (SetUserRole name (validRole r) db)" if "\<not> (validRole r \<noteq> ''admin'' \<and> IsAdmin u \<and> CountAdmins db \<le> 1)"
        unfolding SetUserRole_def using that ok s by (intro upd_user_ok [OF _ Some]) auto
      then show ?thesis using ok s Some SetRole by (simp add: bulk_one_def)
    qed (use ok s Some DeleteUser_ok [OF _ Some] in \<open>auto simp: bulk_one_def SetUserActive_def intro!: same_role_ok\<close>)
  qed
qed

lemma SetPrimaryGroups_ok:
  assumes "SetPrimaryGroups names g db = Inr (before, db')" "acct_ok db"
  shows "acct_ok db'"
proof -
  have one: "acct_ok (upd_user n (\<lambda>u. u\<lparr>ac_group := g\<rparr>) d)" if "acct_ok d" for n d
    by (rule same_role_ok [OF that]) simp_all
  have "acct_ok (fold (\<lambda>(name, x :: int). upd_user name (\<lambda>u. u\<lparr>ac_group := g\<rparr>)) changes d)" if "acct_ok d" for changes d
    using that by (induction changes arbitrary: d) (auto simp: one)
  then show ?thesis using assms by (auto simp: SetPrimaryGroups_def split: option.splits)
qed

lemma createOUAccount_ok:
  assumes "createOUAccount now epoch name hash role display email expiry g db = Inr db'" "acct_ok db"
  shows "acct_ok db'"
proof -
  have "name \<notin> ac_username ` set (ad_users db)" if "GetUser db name = None"
    using that by (auto simp: GetUser_def find_None_iff)
  then show ?thesis
    using assms by (auto simp: createOUAccount_def acct_ok_def keyed_def some_admin_def split: option.splits if_splits)
qed

lemma acct_step_ok: "acct_step db db' \<Longrightarrow> acct_ok db \<Longrightarrow> acct_ok db'"
proof (induction rule: acct_step.induct)
  case (add env inp db db')
  then show ?case
    by (auto simp: apiUserAdd_def Let_def map_sum_def intro: createOUAccount_ok split: if_splits option.splits sum.splits)
next
  case (save env name actor patch db db')
  then show ?case by (auto simp: apiUserSave_def map_sum_def intro: saveOUAccount_ok split: option.splits sum.splits)
next
  case (delete db env name actor)
  then show ?case by (auto simp: apiUserDelete_def delete_allowed_def intro: DeleteUser_ok split: option.splits)
next
  case (bulk env actor req names db answer db')
  have f: "acct_ok (snd (fold (bulk_one env actor action) ns s))" if "acct_ok (snd s)" for action ns s
    using that bulk_one_ok by (induction ns arbitrary: s) auto
  show ?case
  proof (cases req)
    case (SetGroup g)
    then show ?thesis using bulk by (auto simp: apiUsersBulk_def intro: SetPrimaryGroups_ok split: sum.splits)
  next
    case (Each action)
    then show ?thesis using bulk f [of "(0, db)" action names] by (auto simp: apiUsersBulk_def split: prod.splits)
  qed
next
  case (units db org)
  then show ?case by (simp add: acct_ok_def keyed_def some_admin_def)
qed

text \<open>
  Property C10. The console never takes away the last administrator: over every sequence of additions, saves, deletions
  and bulk changes, by any actors, one account with the role remains, and no two accounts share a name.
\<close>

theorem some_admin_remains:
  assumes "acct_step\<^sup>*\<^sup>* db db'" and "distinct (map ac_username (ad_users db))" and "1 \<le> CountAdmins db"
  shows "distinct (map ac_username (ad_users db')) \<and> 1 \<le> CountAdmins db'"
proof -
  have "acct_ok db" using assms(2,3) by (simp add: acct_ok_def keyed_def some_admin_count)
  with assms(1) have "acct_ok db'" by (induction rule: rtranclp_induct) (auto dest: acct_step_ok)
  then show ?thesis by (simp add: acct_ok_def keyed_def some_admin_count)
qed

section \<open>Every account has a policy\<close>

text \<open>An account outside every unit counts to the Default OU; any other one names a unit that exists.\<close>

definition known_group :: "orgDb \<Rightarrow> int \<Rightarrow> bool" where
  "known_group org g \<longleftrightarrow> g = 0 \<or> g \<in> fst ` set (og_rows org)"

definition placed_members :: "acctDb \<Rightarrow> bool" where
  "placed_members db \<longleftrightarrow> (\<forall>u\<in>set (ad_users db). known_group (ad_org db) (ac_group u))"

lemma known_unit:
  assumes "destination_known org g = None"
  shows "known_group org g"
proof (cases "g = 0")
  case False
  obtain chain where "actualChain (newOUGraph (nodes_of (og_rows org))) g = Inr chain"
    using assms False by (auto simp: destination_known_def Let_def policyChain_def split: sum.splits)
  then have "ou_path (nodes_of (og_rows org)) g chain" by (simp add: actualChain_path)
  then obtain r where "map_of (og_rows org) g = Some r"
    using False by (cases chain) (auto simp: map_of_nodes split: option.splits)
  then show ?thesis by (simp add: known_group_def row_keyD)
qed (simp add: known_group_def)

lemma tree_resolves:
  assumes "tree_ok rows" "u \<in> fst ` set rows"
  shows "\<exists>p. resolve (loadOUPolicySnapshot rows) u = Inr p"
proof -
  obtain xs where xs: "ou_path (nodes_of rows) u xs" "length xs \<le> ouMaxDepth" using tree_okD(4) [OF assms] by blast
  have "xs \<noteq> []" using xs(1) tree_okD(2) [OF assms] by (cases xs) auto
  then show ?thesis
    using policyChain_of_path [of "newOUGraph (nodes_of rows)" u xs] xs tree_okD(3) [OF assms(1)] by (simp add: resolve_def)
qed

lemma store_keys: "store_row fresh ou create node v rows = Inr rows' \<Longrightarrow> set (map fst rows) \<subseteq> set (map fst rows')"
  unfolding store_row_def by (auto simp del: set_map split: if_splits)

lemma commit_keys:
  "commit_row meta fresh ou create pre snap proposed rows = (answer, rows') \<Longrightarrow> set (map fst rows) \<subseteq> set (map fst rows')"
  unfolding commit_row_def Let_def
  by (auto simp del: set_map dest!: store_keys split: option.splits sum.splits if_splits)

lemma write_keys:
  assumes "writeOUChanges now meta fresh ou create patch input rows = (answer, rows')"
  shows "fst ` set rows \<subseteq> fst ` set rows'"
proof -
  have "set (map fst rows) \<subseteq> set (map fst rows')"
    using assms unfolding writeOUChanges_def Let_def
    by (auto simp del: set_map dest!: commit_keys split: option.splits sum.splits)
  then show ?thesis by simp
qed

lemma members_keep_unit:
  assumes "ou_step org org'" "(name, g) \<in> set (og_members org)" "g \<in> fst ` set (og_rows org)"
  shows "g \<in> fst ` set (og_rows org')"
  using assms
proof (induction rule: ou_step.induct)
  case (create now db fresh inp answer rows')
  then show ?case using write_keys [OF create(1) [unfolded writeOUInput_def]] by auto
next
  case (replace now db ou inp answer rows')
  then show ?case using write_keys [OF replace(1) [unfolded writeOUInput_def]] by auto
next
  case (patch decode db ou changes answer rows')
  then show ?case using write_keys [OF patch(1) [unfolded patchOUInput_def]] by auto
next
  case (delete rules ou orphans db outcome db')
  show ?case
  proof (cases "og_rows db' = og_rows db")
    case False
    then obtain n target db1 where d: "DeleteUserGroup rules ou db = Inr (n, target, db1)" "og_rows db' = og_rows db1"
      using delete(1) by (auto simp: apiGroupDelete_def Let_def SetAnnouncementEnabled_rows split: if_splits sum.splits)
    obtain node v where "map_of (og_rows db) ou = Some (node, v)"
      and row: "validateOUDeletionReferences rules db ou = None"
        "og_rows db1 = without_ou ou (child_parent (og_rows db) (nd_parent node)) (og_rows db)"
      using DeleteUserGroupD [OF d(1)] by metis
    have "g \<noteq> ou" using row(1) delete(2) by (auto simp: validateOUDeletionReferences_def list_ex_iff split: if_splits)
    moreover have "set (map fst (og_rows db1)) = set (map fst (og_rows db)) - {ou}"
      unfolding row(2) keys_without by auto
    ultimately show ?thesis using d(2) delete(3) by simp
  qed (use delete in simp)
qed simp

definition org_ok :: "acctDb \<Rightarrow> bool" where
  "org_ok db \<longleftrightarrow> good_tree (og_rows (ad_org db)) \<and> placed_members db"

lemma org_okI:
  assumes "good_tree (og_rows (ad_org db))" "\<And>u. u \<in> set (ad_users db) \<Longrightarrow> known_group (ad_org db) (ac_group u)"
  shows "org_ok db"
  using assms by (simp add: org_ok_def placed_members_def)

lemma org_okD: "org_ok db \<Longrightarrow> u \<in> set (ad_users db) \<Longrightarrow> known_group (ad_org db) (ac_group u)"
  by (simp add: org_ok_def placed_members_def)

lemma no_group [simp]: "known_group org 0"
  by (simp add: known_group_def)

lemma upd_user_placed:
  assumes "org_ok db" "\<And>u. ac_group (f u) = ac_group u \<or> known_group (ad_org db) (ac_group (f u))"
  shows "org_ok (upd_user name f db)"
proof (rule org_okI)
  show "good_tree (og_rows (ad_org (upd_user name f db)))" using assms(1) by (simp add: org_ok_def)
  fix w assume "w \<in> set (ad_users (upd_user name f db))"
  then obtain u where "u \<in> set (ad_users db)" "w = (if ac_username u = name then f u else u)" unfolding upd_user_rows by blast
  then show "known_group (ad_org (upd_user name f db)) (ac_group w)" using assms(2) [of u] org_okD [OF assms(1)] by auto
qed

lemma DeleteUser_placed: "org_ok db \<Longrightarrow> org_ok (DeleteUser key now ms name db)"
  by (simp add: org_ok_def placed_members_def known_group_def DeleteUser_def Let_def)

lemma bulk_one_placed: "org_ok (snd s) \<Longrightarrow> org_ok (snd (bulk_one env actor action name s))"
  by (cases s; cases action)
    (auto simp: bulk_one_def SetUserActive_def SetUserRole_def intro: DeleteUser_placed upd_user_placed split: option.splits)

lemma SetPrimaryGroups_placed:
  assumes "SetPrimaryGroups names g db = Inr (before, db')" "org_ok db"
  shows "org_ok db'"
proof -
  have g: "known_group (ad_org db) g"
    using assms(1) known_unit by (auto simp: SetPrimaryGroups_def split: option.splits)
  have "org_ok (fold (\<lambda>(name, x :: int). upd_user name (\<lambda>u. u\<lparr>ac_group := g\<rparr>)) changes d)"
    if "org_ok d" "ad_org d = ad_org db" for changes d
    using that
  proof (induction changes arbitrary: d)
    case (Cons c cs)
    obtain n x where c: "c = (n, x)" by (cases c)
    have "org_ok (upd_user n (\<lambda>u. u\<lparr>ac_group := g\<rparr>) d)"
      by (rule upd_user_placed [OF Cons.prems(1)]) (use g Cons.prems(2) in simp)
    then show ?case using Cons c by simp
  qed simp
  then show ?thesis using assms by (auto simp: SetPrimaryGroups_def split: option.splits)
qed

lemma saveOUAccount_placed:
  assumes "saveOUAccount name actor d inp db = Inr db'" "org_ok db"
  shows "org_ok db'"
proof -
  obtain prot where u: "db' = upd_user name (saved_row prot (CountAdmins db) inp) db"
    and g: "case ap_PrimaryGroup inp of None \<Rightarrow> True | Some g \<Rightarrow> destination_known (ad_org db) g = None"
    using assms(1) by (auto simp: saveOUAccount_def Let_def split: option.splits if_splits)
  show ?thesis unfolding u
    by (rule upd_user_placed [OF assms(2)]) (use g known_unit in \<open>auto simp: saved_row_def split: option.splits\<close>)
qed

lemma createOUAccount_placed:
  assumes "createOUAccount now epoch name hash role display email expiry g db = Inr db'" "org_ok db"
  shows "org_ok db'"
proof -
  have new: "known_group (ad_org db) g"
    using assms(1) known_unit by (auto simp: createOUAccount_def split: option.splits)
  obtain u where u: "db' = db\<lparr>ad_users := ad_users db @ [u]\<rparr>" "ac_group u = g"
    using assms(1) by (auto simp: createOUAccount_def split: option.splits if_splits)
  show ?thesis unfolding u(1)
    by (rule org_okI) (use assms(2) new u(2) org_okD [OF assms(2)] in \<open>auto simp: org_ok_def\<close>)
qed

lemma acct_step_placed: "acct_step db db' \<Longrightarrow> org_ok db \<Longrightarrow> org_ok db'"
proof (induction rule: acct_step.induct)
  case (add env inp db db')
  then show ?case
    by (auto simp: apiUserAdd_def Let_def map_sum_def intro: createOUAccount_placed split: if_splits option.splits sum.splits)
next
  case (save env name actor patch db db')
  then show ?case by (auto simp: apiUserSave_def map_sum_def intro: saveOUAccount_placed split: option.splits sum.splits)
next
  case (delete db env name actor)
  then show ?case by (auto simp: apiUserDelete_def intro: DeleteUser_placed)
next
  case (bulk env actor req names db answer db')
  have f: "org_ok (snd (fold (bulk_one env actor action) ns s))" if "org_ok (snd s)" for action ns s
    using that bulk_one_placed by (induction ns arbitrary: s) auto
  show ?case
  proof (cases req)
    case (SetGroup g)
    then show ?thesis using bulk by (auto simp: apiUsersBulk_def intro: SetPrimaryGroups_placed split: sum.splits)
  next
    case (Each action)
    then show ?thesis using bulk f [of "(0, db)" action names] by (auto simp: apiUsersBulk_def split: prod.splits)
  qed
next
  case (units db org)
  have r: "og_rows (with_members db) = og_rows (ad_org db)" by (simp add: with_members_def)
  have "good_tree (og_rows org)" using step_good [OF units(1)] units(2) r by (simp add: org_ok_def)
  moreover have "known_group org (ac_group u)" if "u \<in> set (ad_users db)" for u
  proof -
    have "(ac_username u, ac_group u) \<in> set (og_members (with_members db))" using that by (simp add: with_members_def)
    from members_keep_unit [OF units(1) this] show ?thesis using org_okD [OF units(2) that] r by (auto simp: known_group_def)
  qed
  ultimately show ?case by (simp add: org_ok_def placed_members_def)
qed

text \<open>
  Property C26. Every account can always be governed: over every sequence of requests on accounts and units, the
  unit an account belongs to exists and reaches the Default OU, so its policies resolve. A unit is never
  deleted under its members, and nobody is moved to a unit that is not there.
\<close>

theorem every_account_resolves:
  assumes "acct_step\<^sup>*\<^sup>* db db'" and "good_tree (og_rows (ad_org db))" and "placed_members db" and "u \<in> set (ad_users db')"
  shows "\<exists>p. resolve (loadOUPolicySnapshot (og_rows (ad_org db')))
     (if ac_group u = 0 then g_defaultID (newOUGraph (nodes_of (og_rows (ad_org db')))) else ac_group u) = Inr p"
proof -
  have "org_ok db" using assms(2,3) by (simp add: org_ok_def)
  with assms(1) have ok: "org_ok db'" by (induction rule: rtranclp_induct) (auto dest: acct_step_placed)
  then have t: "tree_ok (og_rows (ad_org db'))" by (simp add: org_ok_def good_tree_def)
  have "ac_group u = 0 \<or> ac_group u \<in> fst ` set (og_rows (ad_org db'))"
    using org_okD [OF ok assms(4)] by (simp add: known_group_def)
  then show ?thesis using tree_resolves [OF t default_known(1) [OF t]] tree_resolves [OF t, of "ac_group u"] by presburger
qed

section \<open>What a deletion leaves\<close>

lemma update_where_mem:
  assumes "r \<in> set (update_where P f rows)"
  obtains i where "i \<in> set rows" "P i" "r = f i" | "r \<in> set rows" "\<not> P r"
  using assms by (auto simp: update_where_def split: if_splits)

lemma deleted_rows:
  "r \<in> set (ad_owned (DeleteUser key now ms name db) t) \<longleftrightarrow> r \<in> set (ad_owned db t) \<and> (t \<in> set swept_tables \<longrightarrow> fst r \<noteq> name)"
  unfolding DeleteUser_def Let_def by simp

lemma deleted_grants:
  "og_viewers (ad_org (DeleteUser key now ms name db)) = filter (\<lambda>g. snd g \<noteq> userPrincipal name) (og_viewers (ad_org db))"
  "og_versionGrants (ad_org (DeleteUser key now ms name db)) = filter (\<lambda>g. snd g \<noteq> userPrincipal name) (og_versionGrants (ad_org db))"
  "og_annGrants (ad_org (DeleteUser key now ms name db)) = filter (\<lambda>g. snd g \<noteq> userPrincipal name) (og_annGrants (ad_org db))"
  "og_routeGrants (ad_org (DeleteUser key now ms name db)) = filter (\<lambda>g. snd g \<noteq> userPrincipal name) (og_routeGrants (ad_org db))"
  by (simp_all add: DeleteUser_def Let_def comp_def)

lemma deleted_jobs:
  assumes "j \<in> set (db_jobs (ad_batch (DeleteUser key now ms name db)))" "bj_CreatedBy j = name"
  shows "bj_Status j \<notin> {''queued'', ''running'', ''cancelling''}"
proof -
  have "db_jobs (ad_batch (DeleteUser key now ms name db)) =
      update_where (\<lambda>j. bj_CreatedBy j = name \<and> bj_Status j \<in> {''queued'', ''running'', ''cancelling''})
        (\<lambda>j. j\<lparr>bj_Status := ''cancelled'', bj_FinishedAt := now\<rparr>) (db_jobs (ad_batch db))"
    by (simp add: DeleteUser_def Let_def upd_jobs_def)
  from assms(1) [unfolded this] show ?thesis
  proof (rule update_where_mem)
    fix i assume "j = i\<lparr>bj_Status := ''cancelled'', bj_FinishedAt := now\<rparr>"
    then show ?thesis by simp
  qed (use assms(2) in blast)
qed

lemma deleted_tasks:
  "rd_tasks (ad_recur (DeleteUser key now ms name db)) = filter (\<lambda>t. rt_CreatedBy t \<noteq> name) (rd_tasks (ad_recur db))"
  "t \<in> set (rd_tasks (ad_recur db)) \<Longrightarrow> rt_CreatedBy t = name \<Longrightarrow>
     rt_ID t \<notin> ru_TaskID ` set (rd_runs (ad_recur (DeleteUser key now ms name db)))"
proof -
  show "rd_tasks (ad_recur (DeleteUser key now ms name db)) = filter (\<lambda>t. rt_CreatedBy t \<noteq> name) (rd_tasks (ad_recur db))"
    by (simp add: DeleteUser_def Let_def)
  assume "t \<in> set (rd_tasks (ad_recur db))" "rt_CreatedBy t = name"
  then have "rt_ID t \<in> rt_ID ` {t \<in> set (rd_tasks (ad_recur db)). rt_CreatedBy t = name}" by blast
  then show "rt_ID t \<notin> ru_TaskID ` set (rd_runs (ad_recur (DeleteUser key now ms name db)))"
    by (auto simp: DeleteUser_def Let_def)
qed

lemma deleted_deliveries:
  assumes "d \<in> set (ad_deliveries (DeleteUser key now ms name db))" "dv_Username d = name"
  shows "dv_State d \<notin> {''pending'', ''retry_wait'', ''leased''}"
proof -
  have "d \<in> set (closed_deliveries name (ad_deliveries db))" using assms(1) by (simp add: DeleteUser_def Let_def)
  then show ?thesis using assms(2) unfolding closed_deliveries_def update_where_def by (auto split: if_splits)
qed


section \<open>Where the guards give way\<close>

definition role_patch :: "string \<Rightarrow> ouAccountPatch" where
  "role_patch role = \<lparr>ap_Role = Some role, ap_Password = [], ap_DisplayName = None, ap_Email = None, ap_Active = None,
     ap_PrimaryGroup = None, ap_ExpiresAt = None\<rparr>"

text \<open>
  Property C38. The guard counts administrators, also the disabled ones: an administrator all of whose colleagues are
  disabled may give up the role, and no account is left that could sign in to the console.
\<close>

theorem no_active_admin_left:
  assumes "GetUser db name = Some u" and "2 \<le> CountAdmins db" and "validRole role \<noteq> ''admin''"
    and "\<And>w. w \<in> set (ad_users db) \<Longrightarrow> ac_username w \<noteq> name \<Longrightarrow> IsAdmin w \<Longrightarrow> \<not> ac_active w"
  shows "\<exists>db'. apiUserSave env name actor (role_patch role) db = Inr db' \<and>
    (\<forall>w\<in>set (ad_users db'). IsAdmin w \<longrightarrow> \<not> ac_active w)"
proof -
  let ?db' = "upd_user name (saved_row (name = actor \<or> IsAdmin u \<and> CountAdmins db \<le> 1) (CountAdmins db) (role_patch role)) db"
  have "apiUserSave env name actor (role_patch role) db = Inr ?db'"
    using assms(1) by (simp add: apiUserSave_def prepared_patch_def saveOUAccount_def role_patch_def Let_def)
  moreover have "\<not> ac_active w" if w: "w \<in> set (ad_users ?db')" "IsAdmin w" for w
  proof -
    obtain v where v: "v \<in> set (ad_users db)"
      "w = (if ac_username v = name then saved_row (name = actor \<or> IsAdmin u \<and> CountAdmins db \<le> 1) (CountAdmins db) (role_patch role) v else v)"
      using w(1) unfolding upd_user_rows by blast
    have "ac_username v \<noteq> name"
      using v(2) w(2) assms(2,3) by (auto simp: saved_row_def role_patch_def IsAdmin_role Let_def split: if_splits)
    then show ?thesis using v assms(4) w(2) by simp
  qed
  ultimately show ?thesis by blast
qed

text \<open>
  Two requests that both pass the check before either deletes: two administrators who remove each other at
  the same time leave none, for the check is not made in the transaction of the deletion.
\<close>

theorem deletes_race:
  assumes "delete_allowed a b db" and "delete_allowed b a db"
    and "\<And>w. w \<in> set (ad_users db) \<Longrightarrow> IsAdmin w \<Longrightarrow> ac_username w \<in> {a, b}"
  shows "CountAdmins (DeleteUser key now nowMs b (DeleteUser key now nowMs a db)) = 0"
  using assms(3) by (auto simp: CountAdmins_def DeleteUser_users filter_empty_conv IsAdmin_role)

section \<open>Witnesses\<close>

definition demo_account :: "string \<Rightarrow> string \<Rightarrow> bool \<Rightarrow> int \<Rightarrow> accountRow" where
  "demo_account name role on g = \<lparr>ac_username = name, ac_hash = ''h'', ac_role = role, ac_display = [], ac_email = [],
     ac_active = on, ac_expires = [], ac_group = g, ac_sessionRev = 1, ac_created = ''t0''\<rparr>"

definition demo_accounts :: acctDb where
  "demo_accounts = \<lparr>ad_users = [demo_account ''ann'' ''admin'' True 4, demo_account ''bob'' ''admin'' False 0, demo_account ''cas'' ''user'' True 3],
     ad_org = demo_org, ad_owned = (\<lambda>t. [(''ann'', t), (''cas'', t)]), ad_batch = demo_batch,
     ad_recur = \<lparr>rd_tasks = [], rd_runs = []\<rparr>, ad_cycles = (\<lambda>_. None), ad_deliveries = [], ad_attempts = []\<rparr>"

definition demo_acct_env :: acctEnv where
  "demo_acct_env = \<lparr>ae_bcrypt = Some, ae_now = ''t1'', ae_nowMs = 1, ae_panelDate = ''2026-03-03'', ae_epoch = 7, ae_key = id\<rparr>"

lemma demo_accounts_users:
  "ad_users demo_accounts = [demo_account ''ann'' ''admin'' True 4, demo_account ''bob'' ''admin'' False 0, demo_account ''cas'' ''user'' True 3]"
  by (simp add: demo_accounts_def)

lemma demo_found:
  "GetUser demo_accounts ''ann'' = Some (demo_account ''ann'' ''admin'' True 4)"
  "GetUser demo_accounts ''bob'' = Some (demo_account ''bob'' ''admin'' False 0)"
  "GetUser demo_accounts ''cas'' = Some (demo_account ''cas'' ''user'' True 3)"
  "CountAdmins demo_accounts = 2"
  by (simp_all add: GetUser_def CountAdmins_def demo_accounts_users demo_account_def)

lemma demo_delete_step: "acct_step\<^sup>*\<^sup>* demo_accounts (apiUserDelete demo_acct_env ''cas'' ''ann'' demo_accounts)"
  by (rule r_into_rtranclp) (rule acct_step.delete)

lemma demo_deleted_users:
  "ad_users (apiUserDelete demo_acct_env ''cas'' ''ann'' demo_accounts) = [demo_account ''ann'' ''admin'' True 4, demo_account ''bob'' ''admin'' False 0]"
  "ad_org (apiUserDelete demo_acct_env ''cas'' ''ann'' demo_accounts) = ad_org (DeleteUser id ''t1'' 1 ''cas'' demo_accounts)"
  unfolding apiUserDelete_def delete_allowed_def
  by (simp_all add: demo_found last_or_own_def IsAdmin_role demo_account_def DeleteUser_users demo_accounts_users demo_acct_env_def)

lemma some_admin_remains_witness:
  "1 \<le> CountAdmins (apiUserDelete demo_acct_env ''cas'' ''ann'' demo_accounts)"
  using some_admin_remains [OF demo_delete_step] by (simp add: demo_found) (simp add: demo_accounts_users demo_account_def)

lemma every_account_resolves_witness:
  "\<exists>db. acct_step\<^sup>*\<^sup>* demo_accounts db \<and>
     (\<exists>p. resolve (loadOUPolicySnapshot (og_rows (ad_org db))) (ac_group (demo_account ''ann'' ''admin'' True 4)) = Inr p)"
proof -
  have g: "good_tree (og_rows (ad_org demo_accounts))"
    using demo_org_tree by (simp add: demo_accounts_def good_tree_def rooted_def demo_org_def demo_org_rows_def demo_unit_def)
  have p: "placed_members demo_accounts"
    by (simp add: placed_members_def known_group_def demo_accounts_def demo_account_def demo_org_def demo_org_rows_def)
  from every_account_resolves [OF demo_delete_step g p, of "demo_account ''ann'' ''admin'' True 4"]
  show ?thesis using demo_delete_step by (auto simp: demo_deleted_users(1) demo_account_def)
qed


lemma no_active_admin_left_witness:
  "\<exists>db'. apiUserSave demo_acct_env ''ann'' ''ann'' (role_patch ''user'') demo_accounts = Inr db' \<and>
    (\<forall>w\<in>set (ad_users db'). IsAdmin w \<longrightarrow> \<not> ac_active w)"
  by (rule no_active_admin_left [OF demo_found(1)])
    (auto simp: demo_found demo_accounts_users demo_account_def validRole_def IsAdmin_role)

lemma deletes_race_witness:
  "CountAdmins (DeleteUser id ''t1'' 1 ''bob'' (DeleteUser id ''t1'' 1 ''ann'' demo_accounts)) = 0"
proof (rule deletes_race)
  show "delete_allowed ''ann'' ''bob'' demo_accounts" "delete_allowed ''bob'' ''ann'' demo_accounts"
    by (simp_all add: delete_allowed_def last_or_own_def demo_found demo_account_def)
qed (auto simp: demo_accounts_users demo_account_def IsAdmin_role)

end
