(* ===== verification/Notify_Store.thy ===== *)
theory Notify_Store
  imports Accounts
begin

text \<open>
  The tables of the notification subsystem and the statements on them (notification_store.go,
  notification_channel_store.go, notification_history_store.go, notification_retention.go,
  notification_delete.go, and the notification statements of DeleteUser in store.go): capturing an event
  with its fan-out, leasing, starting and finishing a delivery, recovering lost leases, replaying,
  revoking, retention. Instants are Unix milliseconds; random ids and hashes are arguments. A transaction
  answers the new tables or an error.
\<close>

section \<open>The tables\<close>

record notifyEvent =
  ne_ID :: string
  ne_SourceKey :: string
  ne_Type :: string
  ne_Payload :: string
  ne_ResourceType :: string
  ne_ResourceID :: string
  ne_CreatedAt :: int
  ne_ExpiresAt :: int

record notifyDelivery =
  nl_ID :: string
  nl_EventID :: string
  nl_ChannelID :: string
  nl_RouteID :: string
  nl_Username :: string
  nl_State :: string
  nl_Attempts :: int
  nl_NextAt :: int
  nl_ExpiresAt :: int
  nl_LeaseToken :: string
  nl_LeaseUntil :: int
  nl_Sending :: bool
  nl_ChannelRevision :: int
  nl_RouteRevision :: int
  nl_Generation :: int
  nl_LastError :: string
  nl_StatusCode :: int
  nl_CreatedAt :: int
  nl_UpdatedAt :: int
  nl_ReplayOf :: string
  nl_ReplayKey :: "string option"

record notifyAttempt =
  na_DeliveryID :: string
  na_LeaseToken :: string
  na_StartedAt :: int
  na_FinishedAt :: int
  na_Outcome :: string
  na_ErrorCode :: string
  na_StatusCode :: int

record notifyRecipient =
  nr_ID :: string
  nr_EventID :: string
  nr_Username :: string
  nr_ReadAt :: int
  nr_DismissedAt :: int

record jobIntent =
  ji_JobID :: int
  ji_Username :: string
  ji_ConsumedAt :: int

record sourceCycle =
  cy_Generation :: int
  cy_Occurrence :: string
  cy_Signature :: string

record notifyChannel =
  nc_ID :: string
  nc_Label :: string
  nc_Adapter :: string
  nc_LegacyRef :: string
  nc_Config :: string
  nc_Secret :: string
  nc_Enabled :: bool
  nc_Paused :: bool
  nc_Revision :: int
  nc_CreatedAt :: int

record notifyRoute =
  no_ID :: string
  no_Label :: string
  no_ChannelID :: string
  no_Events :: string
  no_RecipientMode :: string
  no_Enabled :: bool
  no_Mandatory :: bool
  no_Revision :: int

record notifyDb =
  nt_users :: "accountRow list"
  nt_groups :: "int list"
  nt_events :: "notifyEvent list"
  nt_deliveries :: "notifyDelivery list"
  nt_attempts :: "notifyAttempt list"
  nt_recipients :: "notifyRecipient list"
  nt_prefs :: "string \<times> string \<rightharpoonup> bool"
  nt_intents :: "jobIntent list"
  nt_cycles :: "string \<rightharpoonup> sourceCycle"
  nt_channels :: "notifyChannel list"
  nt_routes :: "notifyRoute list"
  nt_grants :: "(string \<times> string) list"
  nt_meta :: "string \<rightharpoonup> string"

datatype notifyErr = NfInvalid | NfConflict | NfCapacity | NfReview | NfNoRows | NfDb

text \<open>\<open>nv_key\<close> is notificationAccountKey, \<open>nv_digest\<close> the payload digest, \<open>nv_replayKey\<close> the key of a replay request.\<close>

record notifyHash =
  nv_key :: "string \<Rightarrow> string"
  nv_digest :: "string \<Rightarrow> string"
  nv_replayKey :: "string \<Rightarrow> string \<Rightarrow> string"

definition live_states :: "string set" where
  "live_states = {''pending'', ''leased'', ''retry_wait''}"

definition upd_deliveries ::
  "(notifyDelivery \<Rightarrow> bool) \<Rightarrow> (notifyDelivery \<Rightarrow> notifyDelivery) \<Rightarrow> notifyDb \<Rightarrow> notifyDb" where
  "upd_deliveries P f db = db\<lparr>nt_deliveries := update_where P f (nt_deliveries db)\<rparr>"

definition upd_attempts ::
  "(notifyAttempt \<Rightarrow> bool) \<Rightarrow> (notifyAttempt \<Rightarrow> notifyAttempt) \<Rightarrow> notifyDb \<Rightarrow> notifyDb" where
  "upd_attempts P f db = db\<lparr>nt_attempts := update_where P f (nt_attempts db)\<rparr>"

definition active_user :: "notifyDb \<Rightarrow> string \<Rightarrow> bool" where
  "active_user db name \<longleftrightarrow> list_ex (\<lambda>u. ac_username u = name \<and> ac_active u) (nt_users db)"

definition notificationAccountGeneration :: "notifyHash \<Rightarrow> notifyDb \<Rightarrow> string \<Rightarrow> int" where
  "notificationAccountGeneration h db name = (case nt_cycles db (nv_key h name) of None \<Rightarrow> 0 | Some c \<Rightarrow> cy_Generation c)"

definition live_count :: "(notifyDelivery \<Rightarrow> bool) \<Rightarrow> notifyDelivery list \<Rightarrow> int" where
  "live_count P rows = int (length (filter (\<lambda>d. nl_State d \<in> live_states \<and> P d) rows))"

section \<open>Capturing an event\<close>

text \<open>
  A capture for a finished job reads the pending occurrence and the submitter's consent first: \<open>None\<close> says
  there is nothing to do. Personal deliveries outside every rule go to the consenting submitter only.
\<close>

definition job_scope ::
  "int \<Rightarrow> string \<Rightarrow> notifyDb \<Rightarrow> notifyDelivery list \<Rightarrow> string list \<Rightarrow> (notifyDelivery list \<times> string list) option" where
  "job_scope jobID cycle db ds recipients =
     (if jobID = 0 then Some (ds, recipients)
      else case nt_cycles db cycle of
             None \<Rightarrow> None
           | Some c \<Rightarrow>
               if cy_Signature c = [] then None
               else (case find (\<lambda>i. ji_JobID i = jobID \<and> ji_ConsumedAt i = 0) (nt_intents db) of
                       None \<Rightarrow> Some (filter (\<lambda>d. nl_Username d = [] \<or> nl_RouteID d \<noteq> []) ds, recipients)
                     | Some i \<Rightarrow> Some (filter (\<lambda>d. nl_Username d = [] \<or> nl_Username d = ji_Username i \<or> nl_RouteID d \<noteq> []) ds,
                                       recipients @ [ji_Username i])))"

definition eligible :: "notifyHash \<Rightarrow> (string \<rightharpoonup> int) \<Rightarrow> notifyDb \<Rightarrow> string \<Rightarrow> bool" where
  "eligible h expected db user \<longleftrightarrow> active_user db user \<and>
     (case expected user of None \<Rightarrow> True | Some g \<Rightarrow> notificationAccountGeneration h db user = g)"

text \<open>The answer for a source key already used: done when the content is the same, otherwise a conflict.\<close>

definition tombstone :: "string \<Rightarrow> string" where
  "tombstone eid = ''event-tombstone:'' @ eid"

definition known_event :: "notifyHash \<Rightarrow> notifyEvent \<Rightarrow> notifyEvent \<Rightarrow> notifyDb \<Rightarrow> notifyErr option" where
  "known_event h ev old db =
     (case (if ne_Payload old = []
            then map_option (\<lambda>c. cy_Signature c = nv_digest h (ne_Payload ev)) (nt_cycles db (tombstone (ne_ID old)))
            else Some (ne_Payload old = ne_Payload ev)) of
        None \<Rightarrow> Some NfNoRows
      | Some same \<Rightarrow>
          if \<not> same \<or> ne_Type old \<noteq> ne_Type ev \<or> ne_ResourceType old \<noteq> ne_ResourceType ev \<or> ne_ResourceID old \<noteq> ne_ResourceID ev
          then Some NfConflict else None)"

definition captured_row :: "notifyEvent \<Rightarrow> string \<Rightarrow> notifyDelivery \<Rightarrow> notifyDelivery" where
  "captured_row ev fresh d =
     \<lparr>nl_ID = (if nl_ID d = [] then fresh else nl_ID d), nl_EventID = ne_ID ev, nl_ChannelID = nl_ChannelID d,
      nl_RouteID = nl_RouteID d, nl_Username = nl_Username d, nl_State = ''pending'', nl_Attempts = 0, nl_NextAt = 0,
      nl_ExpiresAt = (if nl_ExpiresAt d = 0 then ne_CreatedAt ev + 86400000 else nl_ExpiresAt d),
      nl_LeaseToken = [], nl_LeaseUntil = 0, nl_Sending = False, nl_ChannelRevision = nl_ChannelRevision d,
      nl_RouteRevision = nl_RouteRevision d, nl_Generation = 0, nl_LastError = [], nl_StatusCode = 0,
      nl_CreatedAt = (if nl_CreatedAt d = 0 then ne_CreatedAt ev else nl_CreatedAt d), nl_UpdatedAt = 0,
      nl_ReplayOf = [], nl_ReplayKey = None\<rparr>"

definition family :: "notifyDelivery \<Rightarrow> string \<times> string \<times> string \<times> string" where
  "family d = (nl_EventID d, nl_ChannelID d, nl_RouteID d, nl_Username d)"

definition insert_delivery :: "notifyDelivery \<Rightarrow> notifyDelivery list \<Rightarrow> notifyErr + notifyDelivery list" where
  "insert_delivery d rows =
     (if list_ex (\<lambda>r. family r = family d \<and> nl_Generation r = nl_Generation d) rows then Inr rows
      else if list_ex (\<lambda>r. nl_ID r = nl_ID d) rows then Inl NfDb
      else Inr (rows @ [d]))"

fun insert_deliveries ::
  "notifyEvent \<Rightarrow> (string \<Rightarrow> bool) \<Rightarrow> (nat \<Rightarrow> string) \<Rightarrow> nat \<Rightarrow> notifyDelivery list \<Rightarrow> notifyDelivery list \<Rightarrow>
   notifyErr + notifyDelivery list" where
  "insert_deliveries ev ok fresh i [] rows = Inr rows"
| "insert_deliveries ev ok fresh i (d # ds) rows =
     (if nl_Username d \<noteq> [] \<and> \<not> ok (nl_Username d) then insert_deliveries ev ok fresh (Suc i) ds rows
      else if 1000 \<le> live_count (\<lambda>r. nl_ChannelID r = nl_ChannelID d) rows then Inl NfCapacity
      else case insert_delivery (captured_row ev (fresh i) d) rows of
             Inl e \<Rightarrow> Inl e
           | Inr rows' \<Rightarrow> insert_deliveries ev ok fresh (Suc i) ds rows')"

definition insert_recipient :: "string \<Rightarrow> string \<Rightarrow> string \<Rightarrow> notifyRecipient list \<Rightarrow> notifyRecipient list" where
  "insert_recipient rid eid user rows =
     (if list_ex (\<lambda>r. nr_EventID r = eid \<and> nr_Username r = user) rows then rows
      else rows @ [\<lparr>nr_ID = rid, nr_EventID = eid, nr_Username = user, nr_ReadAt = 0, nr_DismissedAt = 0\<rparr>])"

text \<open>The limits on the queue as a whole and on one publisher's rate.\<close>

definition over_capacity :: "int \<Rightarrow> notifyEvent \<Rightarrow> notifyDelivery list \<Rightarrow> notifyDb \<Rightarrow> bool" where
  "over_capacity nowMs ev ds db \<longleftrightarrow>
     10000 < live_count (\<lambda>_. True) (nt_deliveries db) + int (length ds) \<or>
     ne_ResourceType ev = ''extension'' \<and>
       120 \<le> length (filter (\<lambda>e. ne_Type e = ne_Type ev \<and> nowMs - 3600000 \<le> ne_CreatedAt e) (nt_events db))"

definition consume_intent :: "int \<Rightarrow> int \<Rightarrow> string \<Rightarrow> notifyDb \<Rightarrow> notifyDb" where
  "consume_intent nowMs jobID cycle db =
     (if jobID = 0 then db
      else db\<lparr>nt_intents := update_where (\<lambda>i. ji_JobID i = jobID \<and> ji_ConsumedAt i = 0) (\<lambda>i. i\<lparr>ji_ConsumedAt := nowMs\<rparr>) (nt_intents db),
              nt_cycles := (case nt_cycles db cycle of None \<Rightarrow> nt_cycles db
                            | Some c \<Rightarrow> (nt_cycles db)(cycle \<mapsto> c\<lparr>cy_Signature := []\<rparr>))\<rparr>)"

definition captureNotification ::
  "notifyHash \<Rightarrow> (nat \<Rightarrow> string) \<Rightarrow> (string \<Rightarrow> string) \<Rightarrow> int \<Rightarrow> notifyEvent \<Rightarrow> (string \<rightharpoonup> int) \<Rightarrow> notifyDelivery list \<Rightarrow> string list \<Rightarrow>
   int \<Rightarrow> string \<Rightarrow> notifyDb \<Rightarrow> notifyErr + notifyDb" where
  "captureNotification h dids rids nowMs ev expected deliveries recipients jobID cycle db =
     (if ne_ID ev = [] \<or> ne_SourceKey ev = [] \<or> ne_Type ev = [] \<or> 65536 < length (ne_Payload ev) \<or>
         1000 < length deliveries \<or> 10000 < length recipients then Inl NfInvalid
      else case job_scope jobID cycle db deliveries recipients of
        None \<Rightarrow> Inr db
      | Some (ds, users) \<Rightarrow>
          (case find (\<lambda>e. ne_SourceKey e = ne_SourceKey ev) (nt_events db) of
             Some old \<Rightarrow> (case known_event h ev old db of Some e \<Rightarrow> Inl e | None \<Rightarrow> Inr db)
           | None \<Rightarrow>
               if over_capacity nowMs ev ds db then Inl NfCapacity
               else if list_ex (\<lambda>e. ne_ID e = ne_ID ev) (nt_events db) then Inl NfDb
               else case insert_deliveries ev (eligible h expected db) dids 0 ds (nt_deliveries db) of
                      Inl e \<Rightarrow> Inl e
                    | Inr rows \<Rightarrow>
                        Inr (consume_intent nowMs jobID cycle
                          (db\<lparr>nt_events := nt_events db @ [ev], nt_deliveries := rows,
                              nt_recipients := fold (\<lambda>u. insert_recipient (rids u) (ne_ID ev) u)
                                (filter (eligible h expected db) users) (nt_recipients db)\<rparr>))))"

section \<open>Leases\<close>

definition claimable :: "int \<Rightarrow> notifyDelivery list \<Rightarrow> notifyDelivery list" where
  "claimable ms rows =
     filter (\<lambda>d. nl_State d \<in> {''pending'', ''retry_wait''} \<and> nl_NextAt d \<le> ms \<and> ms < nl_ExpiresAt d \<and>
                \<not> list_ex (\<lambda>a. nl_ChannelID a = nl_ChannelID d \<and> nl_State a = ''leased'') rows) rows"

definition lease :: "string \<Rightarrow> int \<Rightarrow> notifyDelivery \<Rightarrow> notifyDelivery" where
  "lease token ms d = d\<lparr>nl_State := ''leased'', nl_LeaseToken := token, nl_LeaseUntil := ms + 90000, nl_UpdatedAt := ms\<rparr>"

definition ClaimNotification :: "string \<Rightarrow> int \<Rightarrow> notifyDb \<Rightarrow> notifyDelivery option \<times> notifyDb" where
  "ClaimNotification token ms db =
     (case sort_key (\<lambda>d. (nl_UpdatedAt d, nl_CreatedAt d, nl_ID d)) (claimable ms (nt_deliveries db)) of
        [] \<Rightarrow> (None, db)
      | c # _ \<Rightarrow>
          (case upd_deliveries (\<lambda>d. nl_ID d = nl_ID c \<and> nl_State d \<in> {''pending'', ''retry_wait''}) (lease token ms) db of
             db' \<Rightarrow> (find (\<lambda>d. nl_LeaseToken d = token) (nt_deliveries db'), db')))"

definition begins :: "notifyDelivery \<Rightarrow> int \<Rightarrow> notifyDelivery \<Rightarrow> bool" where
  "begins d ms r \<longleftrightarrow> nl_ID r = nl_ID d \<and> nl_LeaseToken r = nl_LeaseToken d \<and> nl_State r = ''leased'' \<and> ms < nl_LeaseUntil r \<and>
     \<not> nl_Sending r"

definition BeginNotificationAttempt :: "notifyDelivery \<Rightarrow> int \<Rightarrow> notifyDb \<Rightarrow> notifyErr + notifyDb" where
  "BeginNotificationAttempt d ms db =
     (if length (filter (begins d ms) (nt_deliveries db)) \<noteq> 1 then Inl NfConflict
      else Inr ((upd_deliveries (begins d ms) (\<lambda>r. r\<lparr>nl_Sending := True, nl_Attempts := nl_Attempts r + 1\<rparr>) db)
        \<lparr>nt_attempts := nt_attempts db @
           [\<lparr>na_DeliveryID = nl_ID d, na_LeaseToken = nl_LeaseToken d, na_StartedAt = ms, na_FinishedAt = 0,
             na_Outcome = ''sending'', na_ErrorCode = [], na_StatusCode = 0\<rparr>]\<rparr>))"

definition finish_states :: "string list" where
  "finish_states = [''accepted'', ''failed'', ''retry_wait'', ''expired'', ''canceled'', ''uncertain'']"

definition holds_lease :: "notifyDelivery \<Rightarrow> int \<Rightarrow> notifyDelivery \<Rightarrow> bool" where
  "holds_lease d ms r \<longleftrightarrow> nl_ID r = nl_ID d \<and> nl_State r = ''leased'' \<and> nl_LeaseToken r = nl_LeaseToken d \<and> ms < nl_LeaseUntil r"

definition finished_row :: "notifyDelivery \<Rightarrow> string \<Rightarrow> string \<Rightarrow> int \<Rightarrow> int \<Rightarrow> notifyDelivery \<Rightarrow> notifyDelivery" where
  "finished_row d state reason status ms r =
     r\<lparr>nl_State := state, nl_LastError := reason, nl_StatusCode := status, nl_UpdatedAt := ms, nl_NextAt := nl_NextAt d,
       nl_Sending := False, nl_LeaseToken := [], nl_LeaseUntil := 0\<rparr>"

definition FinishNotification ::
  "notifyDelivery \<Rightarrow> string \<Rightarrow> string \<Rightarrow> int \<Rightarrow> int \<Rightarrow> notifyDb \<Rightarrow> notifyErr + bool \<times> notifyDb" where
  "FinishNotification d state reason status ms db =
     (if state \<notin> set finish_states then Inl NfInvalid
      else if length (filter (holds_lease d ms) (nt_deliveries db)) \<noteq> 1 then Inr (False, db)
      else Inr (True, upd_attempts
        (\<lambda>a. na_DeliveryID a = nl_ID d \<and> na_LeaseToken a = nl_LeaseToken d \<and> na_FinishedAt a = 0)
        (\<lambda>a. a\<lparr>na_FinishedAt := ms, na_Outcome := state, na_ErrorCode := reason, na_StatusCode := status\<rparr>)
        (upd_deliveries (holds_lease d ms) (finished_row d state reason status ms) db)))"

definition lapsed :: "int \<Rightarrow> notifyDelivery \<Rightarrow> bool" where
  "lapsed ms d \<longleftrightarrow> nl_State d = ''leased'' \<and> nl_LeaseUntil d \<le> ms"

definition recovered_row :: "int \<Rightarrow> notifyDelivery \<Rightarrow> notifyDelivery" where
  "recovered_row ms d =
     d\<lparr>nl_State := (if nl_Sending d then ''uncertain'' else ''pending''),
       nl_LastError := (if nl_Sending d then ''worker_lost'' else []),
       nl_LeaseToken := [], nl_LeaseUntil := 0, nl_Sending := False, nl_UpdatedAt := ms\<rparr>"

text \<open>The attempts still open of the deliveries a predicate selects, closed as uncertain.\<close>

definition close_attempts :: "int \<Rightarrow> string \<Rightarrow> (notifyDelivery \<Rightarrow> bool) \<Rightarrow> notifyDb \<Rightarrow> notifyDb" where
  "close_attempts ms reason P db =
     upd_attempts (\<lambda>a. na_FinishedAt a = 0 \<and> na_DeliveryID a \<in> nl_ID ` {d \<in> set (nt_deliveries db). P d})
       (\<lambda>a. a\<lparr>na_FinishedAt := ms, na_Outcome := ''uncertain'', na_ErrorCode := reason\<rparr>) db"

definition RecoverNotificationLeases :: "int \<Rightarrow> notifyDb \<Rightarrow> notifyDb" where
  "RecoverNotificationLeases ms db =
     upd_deliveries (\<lambda>d. nl_State d \<in> {''pending'', ''retry_wait''} \<and> nl_ExpiresAt d \<le> ms)
       (\<lambda>d. d\<lparr>nl_State := ''expired'', nl_UpdatedAt := ms\<rparr>)
       (upd_deliveries (lapsed ms) (recovered_row ms) (close_attempts ms ''worker_lost'' (lapsed ms) db))"

section \<open>Revoking and replaying\<close>

definition revoked_row :: "string \<Rightarrow> notifyDelivery \<Rightarrow> notifyDelivery" where
  "revoked_row reason d =
     d\<lparr>nl_State := (if nl_State d = ''leased'' \<and> nl_Sending d then ''uncertain'' else ''canceled''),
       nl_LastError := reason, nl_LeaseToken := [], nl_LeaseUntil := 0, nl_Sending := False\<rparr>"

definition revokeNotificationWork :: "int \<Rightarrow> (notifyDelivery \<Rightarrow> bool) \<Rightarrow> string \<Rightarrow> notifyDb \<Rightarrow> notifyDb" where
  "revokeNotificationWork ms P reason db =
     upd_deliveries (\<lambda>d. nl_State d \<in> live_states \<and> P d) (\<lambda>d. (revoked_row reason d)\<lparr>nl_UpdatedAt := ms\<rparr>)
       (close_attempts ms reason P db)"

text \<open>
  Deletions of a rule or a channel; both carry the revision their caller saw. The row of the legacy
  webhook that goes with its channel is outside these tables.
\<close>

definition deleteRoute :: "int \<Rightarrow> string \<Rightarrow> int \<Rightarrow> notifyDb \<Rightarrow> notifyErr + notifyDb" where
  "deleteRoute ms rid revision db =
     (if length (filter (\<lambda>r. no_ID r = rid \<and> no_Revision r = revision) (nt_routes db)) \<noteq> 1 then Inl NfConflict
      else Inr (revokeNotificationWork ms (\<lambda>d. nl_RouteID d = rid) ''route_deleted''
        (db\<lparr>nt_routes := filter (\<lambda>r. \<not> (no_ID r = rid \<and> no_Revision r = revision)) (nt_routes db),
            nt_grants := filter (\<lambda>g. fst g \<noteq> rid) (nt_grants db)\<rparr>)))"

definition without_channel :: "string \<Rightarrow> notifyDb \<Rightarrow> notifyDb" where
  "without_channel cid db =
     db\<lparr>nt_grants := filter (\<lambda>g. fst g \<notin> no_ID ` {r \<in> set (nt_routes db). no_ChannelID r = cid}) (nt_grants db),
        nt_routes := filter (\<lambda>r. no_ChannelID r \<noteq> cid) (nt_routes db),
        nt_channels := filter (\<lambda>c. nc_ID c \<noteq> cid) (nt_channels db)\<rparr>"

definition deleteChannel :: "int \<Rightarrow> string \<Rightarrow> int \<Rightarrow> notifyDb \<Rightarrow> notifyErr + notifyDb" where
  "deleteChannel ms cid revision db =
     (case find (\<lambda>c. nc_ID c = cid) (nt_channels db) of
        None \<Rightarrow> Inl NfNoRows
      | Some c \<Rightarrow>
          if nc_Revision c \<noteq> revision then Inl NfConflict
          else if has_prefix cid ''legacy:'' \<and> \<not> has_prefix (nc_LegacyRef c) ''webhook:'' then Inl NfConflict
          else Inr (without_channel cid (revokeNotificationWork ms (\<lambda>d. nl_ChannelID d = cid) ''channel_deleted'' db)))"

text \<open>What DeleteUser does to these tables, in the order of its statements.\<close>

definition forgetAccount :: "notifyHash \<Rightarrow> int \<Rightarrow> string \<Rightarrow> notifyDb \<Rightarrow> notifyDb" where
  "forgetAccount h ms name db =
     (let db1 = db\<lparr>nt_users := filter (\<lambda>u. ac_username u \<noteq> name) (nt_users db),
                   nt_cycles := (nt_cycles db)(nv_key h name \<mapsto>
                     (case nt_cycles db (nv_key h name) of
                        None \<Rightarrow> \<lparr>cy_Generation = 1, cy_Occurrence = [], cy_Signature = []\<rparr>
                      | Some c \<Rightarrow> c\<lparr>cy_Generation := cy_Generation c + 1\<rparr>)),
                   nt_recipients := filter (\<lambda>r. nr_Username r \<noteq> name) (nt_recipients db),
                   nt_prefs := (\<lambda>k. if fst k = name then None else nt_prefs db k),
                   nt_intents := filter (\<lambda>i. ji_Username i \<noteq> name) (nt_intents db)\<rparr>
      in (upd_deliveries (\<lambda>d. nl_Username d = name) (\<lambda>d. d\<lparr>nl_LastError := ''account_deleted''\<rparr>)
           (upd_deliveries (\<lambda>d. nl_Username d = name \<and> nl_State d \<in> live_states) (revoked_row ''account_deleted'')
             (close_attempts ms ''account_deleted'' (\<lambda>d. nl_Username d = name) db1)))
         \<lparr>nt_grants := filter (\<lambda>g. snd g \<noteq> userPrincipal name) (nt_grants db)\<rparr>)"

definition replayable :: "bool \<Rightarrow> notifyDelivery \<Rightarrow> notifyErr option" where
  "replayable confirm d =
     (if nl_LastError d = ''account_deleted'' then Some NfConflict
      else if nl_LastError d = ''reviewed_uncertain'' \<and> \<not> confirm then Some NfReview
      else if nl_State d \<in> {''failed'', ''expired'', ''canceled''} then None
      else if nl_State d \<in> {''accepted'', ''uncertain''} then (if confirm then None else Some NfReview)
      else Some NfConflict)"

text \<open>The configuration the request was made for must still be in force.\<close>

definition replay_config :: "int \<Rightarrow> int \<Rightarrow> notifyDelivery \<Rightarrow> notifyDb \<Rightarrow> notifyErr option" where
  "replay_config channelRevision routeRevision d db =
     (case find (\<lambda>c. nc_ID c = nl_ChannelID d) (nt_channels db) of
        None \<Rightarrow> Some NfNoRows
      | Some c \<Rightarrow>
          if nc_Revision c \<noteq> channelRevision \<or> \<not> nc_Enabled c then Some NfConflict
          else if nl_RouteID d = [] then None
          else case find (\<lambda>r. no_ID r = nl_RouteID d) (nt_routes db) of
                 None \<Rightarrow> Some NfNoRows
               | Some r \<Rightarrow> if no_Revision r \<noteq> routeRevision \<or> \<not> no_Enabled r then Some NfConflict else None)"

definition replay_row :: "string \<Rightarrow> string \<Rightarrow> int \<Rightarrow> int \<Rightarrow> int \<Rightarrow> notifyDelivery list \<Rightarrow> notifyDelivery \<Rightarrow> notifyDelivery" where
  "replay_row fresh key effectiveRevision routeRevision ms rows d =
     \<lparr>nl_ID = fresh, nl_EventID = nl_EventID d, nl_ChannelID = nl_ChannelID d, nl_RouteID = nl_RouteID d,
      nl_Username = nl_Username d, nl_State = ''pending'', nl_Attempts = 0, nl_NextAt = 0, nl_ExpiresAt = ms + 86400000,
      nl_LeaseToken = [], nl_LeaseUntil = 0, nl_Sending = False, nl_ChannelRevision = effectiveRevision,
      nl_RouteRevision = routeRevision,
      nl_Generation = foldl max 0 (map nl_Generation (filter (\<lambda>r. family r = family d) rows)) + 1,
      nl_LastError = [], nl_StatusCode = 0, nl_CreatedAt = ms, nl_UpdatedAt = ms, nl_ReplayOf = nl_ID d,
      nl_ReplayKey = Some key\<rparr>"

definition ReplayNotification ::
  "notifyHash \<Rightarrow> string \<Rightarrow> string \<Rightarrow> string \<Rightarrow> int \<Rightarrow> int \<Rightarrow> int \<Rightarrow> bool \<Rightarrow> int \<Rightarrow> notifyDb \<Rightarrow>
   notifyErr + notifyDelivery \<times> bool \<times> notifyDb" where
  "ReplayNotification h fresh did requestID channelRevision effectiveRevision routeRevision confirm ms db =
     (if length requestID < 8 \<or> 128 < length requestID then Inl NfConflict
      else case find (\<lambda>d. nl_ReplayKey d = Some (nv_replayKey h did requestID)) (nt_deliveries db) of
        Some existing \<Rightarrow> Inr (existing, False, db)
      | None \<Rightarrow>
          (case find (\<lambda>d. nl_ID d = did) (nt_deliveries db) of
             None \<Rightarrow> Inl NfNoRows
           | Some d \<Rightarrow>
               (case replayable confirm d of
                  Some e \<Rightarrow> Inl e
                | None \<Rightarrow>
                    (case replay_config channelRevision routeRevision d db of
                       Some e \<Rightarrow> Inl e
                     | None \<Rightarrow>
                         if nl_Username d \<noteq> [] \<and> \<not> active_user db (nl_Username d) then Inl NfConflict
                         else if 10000 \<le> live_count (\<lambda>_. True) (nt_deliveries db) \<or>
                                 1000 \<le> live_count (\<lambda>r. nl_ChannelID r = nl_ChannelID d) (nt_deliveries db) then Inl NfCapacity
                         else if length (filter (\<lambda>e. ne_ID e = nl_EventID d) (nt_events db)) \<noteq> 1 then Inl NfNoRows
                         else let r = replay_row fresh (nv_replayKey h did requestID) effectiveRevision routeRevision ms (nt_deliveries db) d
                              in if list_ex (\<lambda>x. nl_ID x = fresh) (nt_deliveries db) then Inl NfDb
                                 else Inr (r, True, db\<lparr>nt_deliveries := nt_deliveries db @ [r]\<rparr>)))))"

text \<open>Dismissing an uncertain delivery as reviewed.\<close>

definition reviewNotification :: "string \<Rightarrow> int \<Rightarrow> int \<Rightarrow> notifyDb \<Rightarrow> notifyErr + notifyDb" where
  "reviewNotification did expected ms db =
     (if length (filter (\<lambda>d. nl_ID d = did \<and> nl_State d = ''uncertain'' \<and> nl_UpdatedAt d = expected) (nt_deliveries db)) \<noteq> 1
      then Inl NfConflict
      else Inr (upd_deliveries (\<lambda>d. nl_ID d = did \<and> nl_State d = ''uncertain'' \<and> nl_UpdatedAt d = expected)
        (\<lambda>d. d\<lparr>nl_State := ''canceled'',
               nl_LastError := (if nl_LastError d = ''account_deleted'' then nl_LastError d else ''reviewed_uncertain''),
               nl_UpdatedAt := ms\<rparr>) db))"

section \<open>Retention\<close>

definition notify_setting :: "notifyDb \<Rightarrow> string \<Rightarrow> string" where
  "notify_setting db k = (case nt_meta db k of None \<Rightarrow> [] | Some v \<Rightarrow> v)"

definition retention_days :: "notifyDb \<Rightarrow> string \<Rightarrow> int \<Rightarrow> int" where
  "retention_days db k def = (case nt_meta db k of None \<Rightarrow> def | Some v \<Rightarrow> (case atoi v of None \<Rightarrow> 0 | Some n \<Rightarrow> n))"

definition purgeable :: "int \<Rightarrow> notifyDelivery list \<Rightarrow> string \<Rightarrow> bool" where
  "purgeable before rows eid \<longleftrightarrow>
     \<not> list_ex (\<lambda>l. nl_EventID l = eid \<and> (nl_State l \<in> {''pending'', ''leased'', ''retry_wait'', ''uncertain''} \<or>
        before \<le> nl_UpdatedAt l \<or> before \<le> nl_CreatedAt l)) rows"

definition purged_events :: "int \<Rightarrow> notifyDelivery list \<Rightarrow> string list" where
  "purged_events before rows = take 500 (sort (remdups (filter (purgeable before rows) (map nl_EventID rows))))"

definition purge_families :: "string list \<Rightarrow> notifyDb \<Rightarrow> notifyDb" where
  "purge_families eids db =
     db\<lparr>nt_attempts := filter (\<lambda>a. na_DeliveryID a \<notin> nl_ID ` {d \<in> set (nt_deliveries db). nl_EventID d \<in> set eids}) (nt_attempts db),
        nt_deliveries := filter (\<lambda>d. nl_EventID d \<notin> set eids) (nt_deliveries db)\<rparr>"

definition event_created :: "notifyDb \<Rightarrow> string \<Rightarrow> int option" where
  "event_created db eid = map_option ne_CreatedAt (find (\<lambda>e. ne_ID e = eid) (nt_events db))"

definition purge_recipients :: "int \<Rightarrow> notifyDb \<Rightarrow> notifyDb" where
  "purge_recipients before db =
     (let old = filter (\<lambda>r. case event_created db (nr_EventID r) of None \<Rightarrow> False | Some t \<Rightarrow> t < before) (nt_recipients db);
          gone = map nr_ID (take 1000 (sort_key (\<lambda>r. (the (event_created db (nr_EventID r)), nr_ID r)) old))
      in db\<lparr>nt_recipients := filter (\<lambda>r. nr_ID r \<notin> set gone) (nt_recipients db)\<rparr>)"

definition compactable :: "int \<Rightarrow> notifyDb \<Rightarrow> notifyEvent \<Rightarrow> bool" where
  "compactable before db e \<longleftrightarrow> ne_Payload e \<noteq> [] \<and> ne_CreatedAt e < before \<and>
     \<not> list_ex (\<lambda>d. nl_EventID d = ne_ID e) (nt_deliveries db) \<and> \<not> list_ex (\<lambda>r. nr_EventID r = ne_ID e) (nt_recipients db)"

definition compact_event :: "notifyHash \<Rightarrow> notifyEvent \<Rightarrow> notifyDb \<Rightarrow> notifyDb" where
  "compact_event h e db =
     db\<lparr>nt_cycles := (case nt_cycles db (tombstone (ne_ID e)) of
          None \<Rightarrow> (nt_cycles db)(tombstone (ne_ID e) \<mapsto>
                    \<lparr>cy_Generation = 0, cy_Occurrence = ne_ID e, cy_Signature = nv_digest h (ne_Payload e)\<rparr>)
        | Some _ \<Rightarrow> nt_cycles db),
        nt_events := update_where (\<lambda>x. ne_ID x = ne_ID e) (\<lambda>x. x\<lparr>ne_Payload := []\<rparr>) (nt_events db)\<rparr>"

definition compact_events :: "notifyHash \<Rightarrow> int \<Rightarrow> notifyDb \<Rightarrow> notifyDb" where
  "compact_events h before db =
     fold (compact_event h)
       (take 500 (sort_key (\<lambda>e. (ne_CreatedAt e, ne_ID e)) (filter (compactable before db) (nt_events db)))) db"

definition dayMs :: int where "dayMs = 86400000"

definition CleanupNotifications :: "notifyHash \<Rightarrow> int \<Rightarrow> notifyDb \<Rightarrow> notifyErr + notifyDb" where
  "CleanupNotifications h ms db =
     (if notify_setting db ''notification_retention_enabled'' \<noteq> ''1'' \<or> notify_setting db ''notification_dispatch_paused'' = ''1''
      then Inr db
      else let history = retention_days db ''notification_history_days'' 30; inbox = retention_days db ''notification_inbox_days'' 90;
               historyBefore = ms - history * dayMs; inboxBefore = ms - inbox * dayMs
           in if history < 1 \<or> 3650 < history \<or> inbox < 1 \<or> 3650 < inbox then Inl NfInvalid
              else Inr (compact_events h (min historyBefore inboxBefore)
                     (purge_recipients inboxBefore (purge_families (purged_events historyBefore (nt_deliveries db)) db))))"

end
