(* ===== verification/Notify_Worker.thy ===== *)
theory Notify_Worker
  imports Notify_Store
begin

text \<open>
  Who is notified and what a delivery worker decides (notification_routing.go, notification_worker.go,
  notification_inbox.go, the rule and dispatch endpoints of notification_admin.go and
  notification_history_api.go, internal/notification/http.go). The report scope, the jobs and the panel's
  date are what the portal holds at the time of the check; the settings behind a channel are the revision
  they resolve to, or none where they are unavailable.
\<close>

record notifyView =
  wv_hash :: notifyHash
  wv_panelDate :: string
  wv_access :: accessDb
  wv_reports :: reportDb
  wv_batch :: batchDb
  wv_revision :: "notifyChannel \<Rightarrow> int option"

section \<open>Rules and authority\<close>

definition notificationSelects :: "string \<Rightarrow> string \<Rightarrow> bool" where
  "notificationSelects selectors kind \<longleftrightarrow> kind \<in> set (map trim_space (split_on (CHR '','') selectors))"

text \<open>The units of a user from the root down, none where they do not resolve.\<close>

definition groupChain :: "accessDb \<Rightarrow> string \<Rightarrow> int list" where
  "groupChain acc user =
     (case loadOUPolicySubject (db_users acc) (db_groups acc) user of
        Inl _ \<Rightarrow> []
      | Inr (sub, snap) \<Rightarrow> (case policyChain (sn_graph snap) (sb_EffectiveOU sub) of Inl _ \<Rightarrow> [] | Inr chain \<Rightarrow> rev chain))"

definition notificationRouteAllows :: "notifyView \<Rightarrow> notifyDb \<Rightarrow> string \<Rightarrow> string \<Rightarrow> bool" where
  "notificationRouteAllows wv db rid user \<longleftrightarrow>
     list_ex (\<lambda>p. list_ex (\<lambda>g. g = (rid, p)) (nt_grants db))
       (userPrincipal user # map groupPrincipal (groupChain (wv_access wv) user))"

definition find_account :: "notifyDb \<Rightarrow> string \<Rightarrow> accountRow option" where
  "find_account db user = find (\<lambda>u. ac_username u = user) (nt_users db)"

definition job_and_owner :: "string \<Rightarrow> string \<times> string option" where
  "job_and_owner rid =
     (takeWhile (\<lambda>c. c \<noteq> CHR ''@'') rid,
      if CHR ''@'' \<in> set rid then Some (drop 1 (dropWhile (\<lambda>c. c \<noteq> CHR ''@'') rid)) else None)"

definition may_read_report :: "notifyView \<Rightarrow> string \<Rightarrow> string \<Rightarrow> bool" where
  "may_read_report wv user rid =
     (case atoi rid of
        None \<Rightarrow> False
      | Some n \<Rightarrow> list_ex (\<lambda>r. re_ID r = n \<and> scope_admits (viewerScope (wv_access wv) user) (viewers_of (wv_reports wv)) n (re_Version r))
                   (rdb_reports (wv_reports wv)))"

definition may_read_job :: "notifyView \<Rightarrow> notifyDb \<Rightarrow> string \<Rightarrow> string \<Rightarrow> bool" where
  "may_read_job wv db user rid =
     (case job_and_owner rid of (job, owner) \<Rightarrow>
       (case (atoi job, case owner of None \<Rightarrow> Some 0 | Some t \<Rightarrow> atoi t) of
          (Some n, Some expected) \<Rightarrow>
            0 \<le> expected \<and> notificationAccountGeneration (wv_hash wv) db user = expected \<and>
            (case GetBatchJob (wv_batch wv) n of None \<Rightarrow> False | Some j \<Rightarrow> bj_CreatedBy j = user)
        | _ \<Rightarrow> False))"

definition notificationMayRead :: "notifyView \<Rightarrow> notifyDb \<Rightarrow> string \<Rightarrow> notifyEvent \<Rightarrow> bool" where
  "notificationMayRead wv db user ev =
     (case find_account db user of
        None \<Rightarrow> False
      | Some u \<Rightarrow>
          if \<not> ac_active u \<or> accountExpired (wv_panelDate wv) u then False
          else if ne_ResourceType ev = ''report'' then may_read_report wv user (ne_ResourceID ev)
          else if ne_ResourceType ev = ''job'' then may_read_job wv db user (ne_ResourceID ev)
          else if ne_ResourceType ev = ''operations'' then IsAdmin u
          else if ne_ResourceType ev = ''extension''
          then ne_Type ev = ''extension.'' @ ne_ResourceID ev @ ''.notice'' \<and>
               (has_prefix (ne_ResourceID ev) ''app.'' \<or> has_prefix (ne_ResourceID ev) ''service.'')
          else False)"

definition muted :: "notifyDb \<Rightarrow> string \<Rightarrow> string \<Rightarrow> bool" where
  "muted db user kind \<longleftrightarrow> nt_prefs db (user, kind) = Some False"

definition route_candidate :: "notifyView \<Rightarrow> notifyDb \<Rightarrow> notifyEvent \<Rightarrow> notifyRoute \<Rightarrow> string \<Rightarrow> bool" where
  "route_candidate wv db ev r user \<longleftrightarrow>
     (no_RecipientMode r = ''grant'' \<longrightarrow> notificationRouteAllows wv db (no_ID r) user) \<and>
     (no_RecipientMode r = ''creator'' \<longrightarrow> ne_ResourceType ev = ''job'') \<and>
     notificationMayRead wv db user ev \<and> \<not> (muted db user (ne_Type ev) \<and> \<not> no_Mandatory r)"

definition blank_delivery :: notifyDelivery where
  "blank_delivery = \<lparr>nl_ID = [], nl_EventID = [], nl_ChannelID = [], nl_RouteID = [], nl_Username = [], nl_State = [],
     nl_Attempts = 0, nl_NextAt = 0, nl_ExpiresAt = 0, nl_LeaseToken = [], nl_LeaseUntil = 0, nl_Sending = False,
     nl_ChannelRevision = 0, nl_RouteRevision = 0, nl_Generation = 0, nl_LastError = [], nl_StatusCode = 0,
     nl_CreatedAt = 0, nl_UpdatedAt = 0, nl_ReplayOf = [], nl_ReplayKey = None\<rparr>"

definition route_base :: "notifyChannel \<Rightarrow> int \<Rightarrow> notifyRoute \<Rightarrow> notifyDelivery" where
  "route_base c revision r = blank_delivery\<lparr>nl_ChannelID := nc_ID c, nl_ChannelRevision := revision, nl_RouteID := no_ID r,
     nl_RouteRevision := no_Revision r\<rparr>"

fun route_users ::
  "(string \<Rightarrow> bool) \<Rightarrow> bool \<Rightarrow> notifyDelivery \<Rightarrow> string list \<Rightarrow> notifyDelivery list \<times> string list \<Rightarrow>
   notifyErr + notifyDelivery list \<times> string list" where
  "route_users cand inbox base [] acc = Inr acc"
| "route_users cand inbox base (u # us) (ds, rs) =
     (if \<not> cand u then route_users cand inbox base us (ds, rs)
      else if inbox then route_users cand inbox base us (ds, if u \<in> set rs then rs else rs @ [u])
      else if 1000 < length ds + 1 then Inl NfCapacity
      else route_users cand inbox base us (ds @ [base\<lparr>nl_Username := u\<rparr>], rs))"

definition active_names :: "notifyDb \<Rightarrow> string list" where
  "active_names db = sort (map ac_username (filter ac_active (nt_users db)))"

text \<open>One rule: skipped, one destination, or one delivery or inbox row per user it selects.\<close>

definition route_rule ::
  "notifyView \<Rightarrow> notifyDb \<Rightarrow> notifyEvent \<Rightarrow> notifyRoute \<Rightarrow> notifyDelivery list \<times> string list \<Rightarrow>
   notifyErr + notifyDelivery list \<times> string list" where
  "route_rule wv db ev r acc =
     (if \<not> no_Enabled r \<or> \<not> notificationSelects (no_Events r) (ne_Type ev) then Inr acc
      else case find (\<lambda>c. nc_ID c = no_ChannelID r) (nt_channels db) of
        None \<Rightarrow> Inl NfNoRows
      | Some c \<Rightarrow>
          if \<not> nc_Enabled c then Inr acc
          else (case wv_revision wv c of
            None \<Rightarrow> Inl NfInvalid
          | Some revision \<Rightarrow>
              if no_RecipientMode r = ''destination''
              then (if nc_Adapter c \<notin> {''email'', ''webhook'', ''slack''} then Inl NfInvalid
                    else Inr (fst acc @ [route_base c revision r], snd acc))
              else if no_RecipientMode r \<notin> {''grant'', ''creator''} \<or> nc_Adapter c \<notin> {''email'', ''inbox''} then Inl NfInvalid
              else if 10000 < length (active_names db) then Inl NfCapacity
              else route_users (route_candidate wv db ev r) (nc_Adapter c = ''inbox'') (route_base c revision r) (active_names db) acc))"

fun route_rules ::
  "notifyView \<Rightarrow> notifyDb \<Rightarrow> notifyEvent \<Rightarrow> notifyRoute list \<Rightarrow> notifyDelivery list \<times> string list \<Rightarrow>
   notifyErr + notifyDelivery list \<times> string list" where
  "route_rules wv db ev [] acc = Inr acc"
| "route_rules wv db ev (r # rs) acc =
     (case route_rule wv db ev r acc of Inl e \<Rightarrow> Inl e | Inr acc' \<Rightarrow> route_rules wv db ev rs acc')"

text \<open>The users of the answer stand in the order they are met; the code's map leaves it open.\<close>

definition routeNotification ::
  "notifyView \<Rightarrow> notifyDb \<Rightarrow> notifyEvent \<Rightarrow> notifyDelivery list \<Rightarrow> notifyErr + notifyDelivery list \<times> string list" where
  "routeNotification wv db ev deliveries =
     (if 100 < length (nt_routes db) then Inl NfCapacity
      else route_rules wv db ev (sort_key no_ID (nt_routes db)) (deliveries, []))"

section \<open>One delivery\<close>

text \<open>The state, reason and next attempt with which a worker gives a claimed delivery back unsent.\<close>

type_synonym unsent = "string \<times> string \<times> int"

definition cancel_for :: "notifyDelivery \<Rightarrow> string \<Rightarrow> unsent option" where
  "cancel_for d reason = Some (''canceled'', reason, nl_NextAt d)"

definition route_refusal :: "notifyView \<Rightarrow> notifyDb \<Rightarrow> notifyDelivery \<Rightarrow> unsent option" where
  "route_refusal wv db d =
     (if nl_RouteID d = [] then None
      else case find (\<lambda>r. no_ID r = nl_RouteID d) (nt_routes db) of
             None \<Rightarrow> cancel_for d ''route_changed''
           | Some r \<Rightarrow>
               if \<not> no_Enabled r \<or> no_Revision r \<noteq> nl_RouteRevision d then cancel_for d ''route_changed''
               else if nl_Username d \<noteq> [] \<and> no_RecipientMode r = ''grant'' \<and> \<not> notificationRouteAllows wv db (nl_RouteID d) (nl_Username d)
               then cancel_for d ''audience_revoked'' else None)"

definition mandatory_for :: "notifyDb \<Rightarrow> notifyDelivery \<Rightarrow> bool" where
  "mandatory_for db d \<longleftrightarrow> nl_RouteID d \<noteq> [] \<and>
     (case find (\<lambda>r. no_ID r = nl_RouteID d) (nt_routes db) of None \<Rightarrow> False | Some r \<Rightarrow> no_Mandatory r)"

definition recipient_refusal :: "notifyView \<Rightarrow> notifyDb \<Rightarrow> notifyDelivery \<Rightarrow> notifyEvent \<Rightarrow> unsent option" where
  "recipient_refusal wv db d ev =
     (if nl_Username d = [] then None
      else if \<not> notificationMayRead wv db (nl_Username d) ev then cancel_for d ''access_revoked''
      else if muted db (nl_Username d) (ne_Type ev) \<and> \<not> mandatory_for db d then cancel_for d ''recipient_muted''
      else case find_account db (nl_Username d) of
             None \<Rightarrow> cancel_for d ''recipient_unavailable''
           | Some u \<Rightarrow> if ac_email u = [] then cancel_for d ''recipient_unavailable'' else None)"

definition dispatch_paused :: "notifyDb \<Rightarrow> bool" where
  "dispatch_paused db \<longleftrightarrow> nt_meta db ''notification_dispatch_paused'' = Some ''1''"

definition delivery_refusal :: "notifyView \<Rightarrow> bool \<Rightarrow> int \<Rightarrow> notifyDb \<Rightarrow> notifyDelivery \<Rightarrow> unsent option" where
  "delivery_refusal wv stopping ms db d =
     (case find (\<lambda>c. nc_ID c = nl_ChannelID d) (nt_channels db) of
        None \<Rightarrow> cancel_for d ''channel_missing''
      | Some c \<Rightarrow>
          if dispatch_paused db then Some (''retry_wait'', ''dispatch_paused'', nl_NextAt d)
          else if \<not> nc_Enabled c then cancel_for d ''channel_disabled''
          else if nc_Paused c then Some (''retry_wait'', ''channel_paused'', ms + 30000)
          else case wv_revision wv c of
            None \<Rightarrow> cancel_for d ''channel_unavailable''
          | Some revision \<Rightarrow>
              if nl_ChannelRevision d \<noteq> 0 \<and> nl_ChannelRevision d \<noteq> revision then cancel_for d ''config_changed''
              else (case find (\<lambda>e. ne_ID e = nl_EventID d) (nt_events db) of
                None \<Rightarrow> cancel_for d ''event_missing''
              | Some ev \<Rightarrow>
                  (case route_refusal wv db d of
                     Some r \<Rightarrow> Some r
                   | None \<Rightarrow>
                       (case recipient_refusal wv db d ev of
                          Some r \<Rightarrow> Some r
                        | None \<Rightarrow> if stopping then Some (''retry_wait'', ''worker_stopping'', nl_NextAt d) else None))))"

text \<open>What one request came to. A request without an answer is uncertain once its headers were written.\<close>

record attemptResult =
  ar_Accepted :: bool
  ar_Uncertain :: bool
  ar_Retryable :: bool
  ar_Status :: int
  ar_After :: int

datatype httpReply = NoReply bool | Reply int string

text \<open>\<open>until\<close> reads an HTTP date as the nanoseconds left until it; a negative rest counts as none.\<close>

definition retry_after :: "(string \<Rightarrow> int option) \<Rightarrow> string \<Rightarrow> int" where
  "retry_after until raw =
     (case atoi raw of
        Some n \<Rightarrow> if 0 \<le> n \<and> n < 2 ^ 31 then n * 1000000000 else (case until raw of None \<Rightarrow> 0 | Some t \<Rightarrow> max 0 t)
      | None \<Rightarrow> (case until raw of None \<Rightarrow> 0 | Some t \<Rightarrow> max 0 t))"

definition AttemptHTTP :: "(string \<Rightarrow> int option) \<Rightarrow> httpReply \<Rightarrow> attemptResult" where
  "AttemptHTTP until reply =
     (case reply of
        NoReply wrote \<Rightarrow> \<lparr>ar_Accepted = False, ar_Uncertain = wrote, ar_Retryable = \<not> wrote, ar_Status = 0, ar_After = 0\<rparr>
      | Reply status raw \<Rightarrow>
          let retry = (status = 429 \<or> 500 \<le> status)
          in \<lparr>ar_Accepted = 200 \<le> status \<and> status < 300, ar_Uncertain = False, ar_Retryable = retry, ar_Status = status,
              ar_After = (if retry \<and> raw \<noteq> [] then retry_after until raw else 0)\<rparr>)"

definition maxAttempts :: "notifyChannel \<Rightarrow> int" where
  "maxAttempts c = (if has_prefix (nc_LegacyRef c) ''webhook:'' \<or> nc_LegacyRef c = ''forecast-slack'' then 3 else 5)"

text \<open>The wait before the next attempt in nanoseconds; \<open>jitter\<close> is the first byte of the hash of the delivery's id.\<close>

definition retry_delay :: "int \<Rightarrow> int \<Rightarrow> int \<Rightarrow> int" where
  "retry_delay attempts jitter after =
     (let base = min (15 * 60 * 1000000000) (5 * 1000000000 * 2 ^ nat (min attempts 8))
      in max (base + jitter * base div 1024) after)"

definition attempt_verdict ::
  "notifyChannel \<Rightarrow> int \<Rightarrow> int \<Rightarrow> notifyDelivery \<Rightarrow> attemptResult \<Rightarrow> string \<times> string \<times> int" where
  "attempt_verdict c jitter nowNs d res =
     (if ar_Accepted res then (''accepted'', [], nl_NextAt d)
      else if ar_Uncertain res then (''uncertain'', ''acceptance_unknown'', nl_NextAt d)
      else if ar_Retryable res \<and> nl_Attempts d + 1 < maxAttempts c
      then (''retry_wait'', ''destination_retry'', (nowNs + retry_delay (nl_Attempts d) jitter (ar_After res)) div 1000000)
      else (''failed'', ''destination_rejected'', nl_NextAt d))"

section \<open>The inbox\<close>

definition inbox_candidates :: "notifyDb \<Rightarrow> string \<Rightarrow> (notifyRecipient \<times> notifyEvent) list" where
  "inbox_candidates db user =
     rev (sort_key (\<lambda>(r, e). (ne_CreatedAt e, nr_ID r))
       (concat (map (\<lambda>r. map (\<lambda>e. (r, e)) (filter (\<lambda>e. ne_ID e = nr_EventID r) (nt_events db)))
         (filter (\<lambda>r. nr_Username r = user \<and> nr_DismissedAt r = 0) (nt_recipients db)))))"

text \<open>The event kinds that rules into an enabled inbox channel select, for one mode of choosing recipients.\<close>

definition inbox_kinds :: "notifyDb \<Rightarrow> (notifyRoute \<Rightarrow> bool) \<Rightarrow> string list" where
  "inbox_kinds db P =
     concat (map (\<lambda>r. split_on (CHR '','') (no_Events r))
       (filter (\<lambda>r. no_Enabled r \<and> P r \<and>
          list_ex (\<lambda>c. nc_ID c = no_ChannelID r \<and> nc_Adapter c = ''inbox'' \<and> nc_Enabled c) (nt_channels db)) (nt_routes db)))"

definition job_consented :: "notifyDb \<Rightarrow> string \<Rightarrow> notifyEvent \<Rightarrow> bool" where
  "job_consented db user ev \<longleftrightarrow>
     list_ex (\<lambda>i. Some (ji_JobID i) = atoi (fst (job_and_owner (ne_ResourceID ev))) \<and> ji_Username i = user \<and> 0 < ji_ConsumedAt i)
       (nt_intents db)"

definition in_audience :: "notifyView \<Rightarrow> notifyDb \<Rightarrow> string \<Rightarrow> notifyEvent \<Rightarrow> bool" where
  "in_audience wv db user ev \<longleftrightarrow>
     ne_ResourceType ev = ''job'' \<and>
       (job_consented db user ev \<or> ne_Type ev \<in> set (inbox_kinds db (\<lambda>r. no_RecipientMode r = ''creator''))) \<or>
     ne_Type ev \<in> set (inbox_kinds db (\<lambda>r. no_RecipientMode r = ''grant'' \<and> notificationRouteAllows wv db (no_ID r) user))"

definition notificationInboxItems ::
  "notifyView \<Rightarrow> int \<Rightarrow> notifyDb \<Rightarrow> string \<Rightarrow> notifyErr + (notifyRecipient \<times> notifyEvent) list" where
  "notificationInboxItems wv ms db user =
     (let candidates = inbox_candidates db user
      in if 10000 < length candidates then Inl NfCapacity
         else Inr (filter (\<lambda>(r, e). notificationMayRead wv db user e \<and> \<not> (0 < ne_ExpiresAt e \<and> ne_ExpiresAt e \<le> ms) \<and>
                             in_audience wv db user e) candidates))"

definition updateNotificationInbox ::
  "notifyHash \<Rightarrow> string \<Rightarrow> int \<Rightarrow> string list \<Rightarrow> string \<Rightarrow> int \<Rightarrow> notifyDb \<Rightarrow> notifyErr + notifyDb" where
  "updateNotificationInbox h user generation ids action ms db =
     (if \<not> active_user db user \<or> notificationAccountGeneration h db user \<noteq> generation then Inl NfConflict
      else Inr (db\<lparr>nt_recipients :=
        (if action = ''dismiss''
         then update_where (\<lambda>r. nr_ID r \<in> set ids \<and> nr_Username r = user \<and> nr_DismissedAt r = 0) (\<lambda>r. r\<lparr>nr_DismissedAt := ms\<rparr>)
         else update_where (\<lambda>r. nr_ID r \<in> set ids \<and> nr_Username r = user \<and> nr_ReadAt r = 0) (\<lambda>r. r\<lparr>nr_ReadAt := ms\<rparr>))
          (nt_recipients db)\<rparr>))"

definition apiNotificationInboxUpdate ::
  "notifyView \<Rightarrow> string \<Rightarrow> string \<Rightarrow> string \<Rightarrow> int \<Rightarrow> notifyDb \<Rightarrow> notifyErr + notifyDb" where
  "apiNotificationInboxUpdate wv user rid action ms db =
     (if action \<noteq> ''read'' \<and> action \<noteq> ''dismiss'' then Inl NfInvalid
      else case notificationInboxItems wv ms db user of
             Inl e \<Rightarrow> Inl e
           | Inr items \<Rightarrow>
               if \<not> list_ex (\<lambda>(r, e). nr_ID r = rid) items then Inl NfNoRows
               else updateNotificationInbox (wv_hash wv) user (notificationAccountGeneration (wv_hash wv) db user) [rid] action ms db)"

text \<open>The list of unread rows handed out for a later "read all"; its signature is checked by the caller of \<open>readAll\<close>.\<close>

record notificationReadSnapshot =
  rs_User :: string
  rs_Generation :: int
  rs_Expires :: int
  rs_IDs :: "string list"

definition readSnapshot :: "notifyView \<Rightarrow> string \<Rightarrow> int \<Rightarrow> notifyDb \<Rightarrow> notifyErr + notificationReadSnapshot" where
  "readSnapshot wv user ms db =
     map_sum (\<lambda>e. e) (\<lambda>items. \<lparr>rs_User = user, rs_Generation = notificationAccountGeneration (wv_hash wv) db user,
         rs_Expires = (ms + 300000) div 1000, rs_IDs = map (\<lambda>(r, e). nr_ID r) (filter (\<lambda>(r, e). nr_ReadAt r = 0) items)\<rparr>)
       (notificationInboxItems wv ms db user)"

definition readAll :: "notifyView \<Rightarrow> notificationReadSnapshot \<Rightarrow> string \<Rightarrow> int \<Rightarrow> notifyDb \<Rightarrow> notifyErr + notifyDb" where
  "readAll wv snap user ms db =
     (if rs_User snap \<noteq> user \<or> rs_Expires snap < ms div 1000 \<or> 10000 < length (rs_IDs snap) then Inl NfConflict
      else case notificationInboxItems wv ms db user of
             Inl e \<Rightarrow> Inl e
           | Inr items \<Rightarrow>
               updateNotificationInbox (wv_hash wv) user (rs_Generation snap)
                 (filter (\<lambda>i. i \<in> set (map (\<lambda>(r, e). nr_ID r) items)) (rs_IDs snap)) ''read'' ms db)"

section \<open>Rules, preferences and the dispatch switch\<close>

definition grant_exists :: "notifyDb \<Rightarrow> string \<Rightarrow> bool" where
  "grant_exists db p =
     (if has_prefix p ''u:'' then list_ex (\<lambda>u. ac_username u = drop 2 p) (nt_users db)
      else if has_prefix p ''g:'' then (case atoi (drop 2 p) of None \<Rightarrow> False | Some g \<Rightarrow> g \<in> set (nt_groups db))
      else False)"

definition SaveNotificationRoute :: "notifyRoute \<Rightarrow> string list \<Rightarrow> int \<Rightarrow> notifyDb \<Rightarrow> notifyErr + notifyDb" where
  "SaveNotificationRoute r grants expected db =
     (if \<not> list_ex (\<lambda>c. nc_ID c = no_ChannelID r) (nt_channels db) \<or> \<not> list_all (grant_exists db) grants then Inl NfConflict
      else case (if expected = 0
                 then if 100 \<le> length (nt_routes db) then Inl NfCapacity
                      else if list_ex (\<lambda>x. no_ID x = no_ID r) (nt_routes db) then Inl NfDb
                      else Inr (nt_routes db @ [r\<lparr>no_Revision := 1\<rparr>])
                 else if length (filter (\<lambda>x. no_ID x = no_ID r \<and> no_Revision x = expected) (nt_routes db)) \<noteq> 1 then Inl NfConflict
                 else Inr (update_where (\<lambda>x. no_ID x = no_ID r \<and> no_Revision x = expected)
                        (\<lambda>x. r\<lparr>no_Revision := no_Revision x + 1\<rparr>) (nt_routes db))) of
             Inl e \<Rightarrow> Inl e
           | Inr routes \<Rightarrow>
               Inr (db\<lparr>nt_routes := routes,
                       nt_grants := filter (\<lambda>g. fst g \<noteq> no_ID r) (nt_grants db) @ map (Pair (no_ID r)) (remdups grants)\<rparr>))"

definition InsertNotificationChannel :: "int \<Rightarrow> notifyChannel \<Rightarrow> notifyDb \<Rightarrow> notifyDb" where
  "InsertNotificationChannel ms c db =
     (if list_ex (\<lambda>x. nc_ID x = nc_ID c) (nt_channels db) then db
      else db\<lparr>nt_channels := nt_channels db @
             [c\<lparr>nc_Revision := 1, nc_Config := (if nc_Config c = [] then ''{}'' else nc_Config c),
                 nc_CreatedAt := (if nc_CreatedAt c = 0 then ms else nc_CreatedAt c)\<rparr>]\<rparr>)"

definition UpdateNotificationChannel :: "notifyChannel \<Rightarrow> int \<Rightarrow> notifyDb \<Rightarrow> notifyErr + notifyDb" where
  "UpdateNotificationChannel c expected db =
     (if length (filter (\<lambda>x. nc_ID x = nc_ID c \<and> nc_Revision x = expected) (nt_channels db)) \<noteq> 1 then Inl NfConflict
      else Inr (db\<lparr>nt_channels := update_where (\<lambda>x. nc_ID x = nc_ID c \<and> nc_Revision x = expected)
        (\<lambda>x. x\<lparr>nc_Label := nc_Label c, nc_Config := nc_Config c, nc_Secret := nc_Secret c, nc_Enabled := nc_Enabled c,
               nc_Paused := nc_Paused c, nc_Revision := nc_Revision x + 1\<rparr>) (nt_channels db)\<rparr>))"

definition savePreferences :: "string list \<Rightarrow> string \<Rightarrow> (string \<times> bool) list \<Rightarrow> notifyDb \<Rightarrow> notifyErr + notifyDb" where
  "savePreferences kinds user prefs db =
     (if length kinds < length prefs \<or> \<not> list_all (\<lambda>(k, on). k \<in> set kinds) prefs then Inl NfInvalid
      else if \<not> active_user db user then Inl NfConflict
      else Inr (db\<lparr>nt_prefs := fold (\<lambda>(k, on) m. m((user, k) \<mapsto> on)) prefs (nt_prefs db)\<rparr>))"

text \<open>What an operator reviews before dispatch resumes: the switch and every open delivery. Its hash is the token.\<close>

definition queue_lines :: "notifyDb \<Rightarrow> (string \<times> string \<times> int \<times> int \<times> int) list" where
  "queue_lines db =
     map (\<lambda>d. (nl_ID d, nl_State d, nl_UpdatedAt d, nl_ChannelRevision d, nl_RouteRevision d))
       (sort_key nl_ID (filter (\<lambda>d. nl_State d \<in> {''pending'', ''leased'', ''retry_wait'', ''uncertain''}) (nt_deliveries db)))"

definition notificationQueueReview :: "(string \<times> (string \<times> string \<times> int \<times> int \<times> int) list \<Rightarrow> string) \<Rightarrow> notifyDb \<Rightarrow> string" where
  "notificationQueueReview hash db = hash (notify_setting db ''notification_dispatch_paused'', queue_lines db)"

definition apiNotificationDispatch ::
  "(string \<times> (string \<times> string \<times> int \<times> int \<times> int) list \<Rightarrow> string) \<Rightarrow> bool \<Rightarrow> string \<Rightarrow> notifyDb \<Rightarrow> notifyErr + notifyDb" where
  "apiNotificationDispatch hash paused token db =
     (if \<not> paused \<and> notify_setting db ''notification_dispatch_paused'' = ''1'' \<and>
         (token = [] \<or> token \<noteq> notificationQueueReview hash db) then Inl NfConflict
      else Inr (db\<lparr>nt_meta := (nt_meta db)(''notification_dispatch_paused'' \<mapsto> (if paused then ''1'' else ''0''))\<rparr>))"

end
