(* ===== verification/Notify_Flow.thy ===== *)
theory Notify_Flow
  imports Notify_Worker
begin

text \<open>
  Deliveries over time: workers that claim, check, send and give back, while leases are recovered, rules
  and channels are deleted, accounts go, operators replay and review, and retention runs. A worker is the
  delivery it holds and whether it has begun to send; it may be lost at any moment. The clock of a step is
  any positive instant.
\<close>

section \<open>The steps\<close>

record notifyRun =
  rn_db :: notifyDb
  rn_held :: "(bool \<times> notifyDelivery) list"

definition fresh_token :: "string \<Rightarrow> notifyRun \<Rightarrow> bool" where
  "fresh_token token st \<longleftrightarrow> token \<noteq> [] \<and> (\<forall>d\<in>set (nt_deliveries (rn_db st)). nl_LeaseToken d \<noteq> token) \<and>
     (\<forall>a\<in>set (nt_attempts (rn_db st)). na_LeaseToken a \<noteq> token) \<and> (\<forall>w\<in>set (rn_held st). nl_LeaseToken (snd w) \<noteq> token)"

definition on_db :: "notifyRun \<Rightarrow> notifyDb \<Rightarrow> notifyRun" where
  "on_db st db = st\<lparr>rn_db := db\<rparr>"

definition let_go :: "bool \<times> notifyDelivery \<Rightarrow> notifyRun \<Rightarrow> notifyRun" where
  "let_go w st = st\<lparr>rn_held := remove1 w (rn_held st)\<rparr>"

text \<open>Writes that touch neither deliveries nor attempts, events or their tombstones: rules, preferences, the inbox.\<close>

definition other_tables :: "notifyDb \<Rightarrow> notifyDb \<Rightarrow> bool" where
  "other_tables db db' \<longleftrightarrow> nt_deliveries db' = nt_deliveries db \<and> nt_attempts db' = nt_attempts db \<and> nt_events db' = nt_events db \<and>
     (\<forall>eid. nt_cycles db' (tombstone eid) = nt_cycles db (tombstone eid))"

inductive notify_step :: "notifyHash \<Rightarrow> notifyRun \<Rightarrow> notifyRun \<Rightarrow> bool" for h where
  capture: "captureNotification h dids rids ms ev expected ds users 0 [] (rn_db st) = Inr db \<Longrightarrow> notify_step h st (on_db st db)"
| capture_job: "captureNotification h dids rids ms ev expected ds users job cycle (rn_db st) = Inr db \<Longrightarrow>
    has_prefix cycle ''job-completion:'' \<Longrightarrow> notify_step h st (on_db st db)"
| claim: "\<not> dispatch_paused (rn_db st) \<Longrightarrow> fresh_token token st \<Longrightarrow> ClaimNotification token ms (rn_db st) = (Some d, db) \<Longrightarrow>
    notify_step h st (st\<lparr>rn_db := db, rn_held := (False, d) # rn_held st\<rparr>)"
| refuse: "(False, d) \<in> set (rn_held st) \<Longrightarrow> delivery_refusal wv stopping ms0 db0 d = Some (state, reason, at_ms) \<Longrightarrow> 0 < ms \<Longrightarrow>
    FinishNotification (d\<lparr>nl_NextAt := at_ms\<rparr>) state reason 0 ms (rn_db st) = Inr (ok, db) \<Longrightarrow>
    notify_step h st (on_db (let_go (False, d) st) db)"
| start: "(False, d) \<in> set (rn_held st) \<Longrightarrow> BeginNotificationAttempt d ms (rn_db st) = Inr db \<Longrightarrow>
    notify_step h st ((let_go (False, d) st)\<lparr>rn_db := db, rn_held := (True, d) # remove1 (False, d) (rn_held st)\<rparr>)"
| sent: "(True, d) \<in> set (rn_held st) \<Longrightarrow> attempt_verdict c jitter nowNs d res = (state, reason, at_ms) \<Longrightarrow> 0 < ms \<Longrightarrow>
    FinishNotification (d\<lparr>nl_NextAt := at_ms\<rparr>) state reason (ar_Status res) ms (rn_db st) = Inr (ok, db) \<Longrightarrow>
    notify_step h st (on_db (let_go (True, d) st) db)"
| lost: "notify_step h st (let_go w st)"
| recover: "0 < ms \<Longrightarrow> notify_step h st (on_db st (RecoverNotificationLeases ms (rn_db st)))"
| route_gone: "0 < ms \<Longrightarrow> deleteRoute ms rid revision (rn_db st) = Inr db \<Longrightarrow> notify_step h st (on_db st db)"
| channel_gone: "0 < ms \<Longrightarrow> deleteChannel ms cid revision (rn_db st) = Inr db \<Longrightarrow> notify_step h st (on_db st db)"
| account_gone: "0 < ms \<Longrightarrow> (\<forall>eid. nv_key h name \<noteq> tombstone eid) \<Longrightarrow> notify_step h st (on_db st (forgetAccount h ms name (rn_db st)))"
| replay: "fresh \<noteq> [] \<Longrightarrow> ReplayNotification h fresh did request crev erev rrev confirm ms (rn_db st) = Inr (d, made, db) \<Longrightarrow>
    notify_step h st (on_db st db)"
| review: "reviewNotification did expected ms (rn_db st) = Inr db \<Longrightarrow> notify_step h st (on_db st db)"
| retention: "CleanupNotifications h ms (rn_db st) = Inr db \<Longrightarrow> notify_step h st (on_db st db)"
| admin: "other_tables (rn_db st) db \<Longrightarrow> notify_step h st (on_db st db)"

section \<open>The invariant\<close>

definition leased :: "notifyDelivery \<Rightarrow> bool" where
  "leased d \<longleftrightarrow> nl_State d = ''leased''"

definition live :: "notifyDelivery \<Rightarrow> bool" where
  "live d \<longleftrightarrow> nl_State d \<in> live_states"

definition refused :: "notifyAttempt \<Rightarrow> bool" where
  "refused a \<longleftrightarrow> na_FinishedAt a \<noteq> 0 \<and> na_Outcome a = ''retry_wait''"

text \<open>An open attempt belongs to a lease that is sending; one that may have been accepted to a delivery that is over.\<close>

definition attempt_ok :: "notifyDelivery list \<Rightarrow> notifyAttempt \<Rightarrow> bool" where
  "attempt_ok rows a \<longleftrightarrow> (\<exists>d\<in>set rows. nl_ID d = na_DeliveryID a \<and>
     (if na_FinishedAt a = 0 then leased d \<and> nl_Sending d \<and> nl_LeaseToken d = na_LeaseToken a
      else na_Outcome a = ''retry_wait'' \<or> \<not> live d))"

definition one_per_channel :: "notifyDelivery list \<Rightarrow> bool" where
  "one_per_channel rows \<longleftrightarrow> (\<forall>d\<in>set rows. \<forall>e\<in>set rows. leased d \<longrightarrow> leased e \<longrightarrow> nl_ChannelID d = nl_ChannelID e \<longrightarrow> nl_ID d = nl_ID e)"

definition delivery_ok :: "notifyDelivery \<Rightarrow> bool" where
  "delivery_ok d \<longleftrightarrow> (nl_Sending d \<longrightarrow> leased d) \<and> 0 \<le> nl_Attempts d \<and> nl_Attempts d \<le> 5 \<and>
     (live d \<longrightarrow> \<not> nl_Sending d \<longrightarrow> nl_Attempts d \<le> 4)"

definition held_ok :: "notifyDelivery list \<Rightarrow> bool \<times> notifyDelivery \<Rightarrow> bool" where
  "held_ok rows w \<longleftrightarrow> nl_LeaseToken (snd w) \<noteq> [] \<and>
     (\<forall>r\<in>set rows. nl_ID r = nl_ID (snd w) \<longrightarrow> leased r \<longrightarrow> nl_LeaseToken r = nl_LeaseToken (snd w) \<longrightarrow>
        nl_Sending r = fst w \<and> nl_Attempts r = nl_Attempts (snd w) + (if fst w then 1 else 0))"

definition in_order :: "notifyAttempt list \<Rightarrow> bool" where
  "in_order as \<longleftrightarrow> sorted_wrt (\<lambda>a b. na_DeliveryID a = na_DeliveryID b \<longrightarrow> refused a) as"

definition tables_ok :: "notifyDelivery list \<Rightarrow> notifyAttempt list \<Rightarrow> bool" where
  "tables_ok rows as \<longleftrightarrow> distinct (map nl_ID rows) \<and> one_per_channel rows \<and> (\<forall>d\<in>set rows. delivery_ok d) \<and>
     (\<forall>a\<in>set as. attempt_ok rows a) \<and> in_order as"

definition run_ok :: "notifyRun \<Rightarrow> bool" where
  "run_ok st \<longleftrightarrow> tables_ok (nt_deliveries (rn_db st)) (nt_attempts (rn_db st)) \<and>
     (\<forall>w\<in>set (rn_held st). held_ok (nt_deliveries (rn_db st)) w) \<and> distinct (map (nl_LeaseToken \<circ> snd) (rn_held st))"

lemma same_row: "distinct (map nl_ID rows) \<Longrightarrow> d \<in> set rows \<Longrightarrow> e \<in> set rows \<Longrightarrow> nl_ID d = nl_ID e \<Longrightarrow> d = e"
  unfolding distinct_map inj_on_def by blast

lemma leased_live: "leased d \<Longrightarrow> live d"
  by (simp add: leased_def live_def live_states_def)

lemma in_order_update:
  assumes "in_order as" "\<And>a. Q a \<Longrightarrow> na_FinishedAt a = 0" "\<And>a. na_DeliveryID (g a) = na_DeliveryID a"
  shows "in_order (update_where Q g as)"
proof -
  have "sorted_wrt (\<lambda>a b. na_DeliveryID (if Q a then g a else a) = na_DeliveryID (if Q b then g b else b) \<longrightarrow>
      refused (if Q a then g a else a)) as"
  proof (rule sorted_wrt_mono_rel)
    show "sorted_wrt (\<lambda>a b. na_DeliveryID a = na_DeliveryID b \<longrightarrow> refused a) as" using assms(1) by (simp add: in_order_def)
    fix a b :: notifyAttempt assume "na_DeliveryID a = na_DeliveryID b \<longrightarrow> refused a"
    then show "na_DeliveryID (if Q a then g a else a) = na_DeliveryID (if Q b then g b else b) \<longrightarrow> refused (if Q a then g a else a)"
      using assms(2,3) by (auto simp: refused_def)
  qed
  then show ?thesis by (simp add: in_order_def update_where_def sorted_wrt_map)
qed

section \<open>Closing deliveries\<close>

text \<open>
  A statement pair that ends deliveries: open attempts of the selected rows become uncertain, the rows are
  rewritten. The laws say what the rewriting owes to the attempts just closed and to the leases it keeps.
\<close>

locale closing =
  fixes P :: "notifyDelivery \<Rightarrow> bool" and f :: "notifyDelivery \<Rightarrow> notifyDelivery"
  assumes keeps: "nl_ID (f d) = nl_ID d" "nl_ChannelID (f d) = nl_ChannelID d" "nl_Attempts (f d) = nl_Attempts d"
    and revives_none: "live (f d) \<Longrightarrow> live d"
    and leases_none: "leased (f d) \<Longrightarrow> leased d \<and> nl_LeaseToken (f d) = nl_LeaseToken d \<and> nl_Sending (f d) = nl_Sending d"
    and ends: "P d \<Longrightarrow> leased d \<Longrightarrow> nl_Sending d \<Longrightarrow> \<not> live (f d)"
    and spares: "\<not> P d \<Longrightarrow> leased d \<Longrightarrow> nl_Sending d \<Longrightarrow> leased (f d)"
    and settles: "nl_Sending (f d) \<Longrightarrow> nl_Sending d" "nl_Sending (f d) \<Longrightarrow> leased d \<Longrightarrow> leased (f d)" "live (f d) \<Longrightarrow> nl_Sending d \<Longrightarrow> leased d \<Longrightarrow> leased (f d)"
begin

definition closed :: "int \<Rightarrow> string \<Rightarrow> notifyDelivery list \<Rightarrow> notifyAttempt list \<Rightarrow> notifyAttempt list" where
  "closed ms reason rows =
     update_where (\<lambda>a. na_FinishedAt a = 0 \<and> na_DeliveryID a \<in> nl_ID ` {d \<in> set rows. P d})
       (\<lambda>a. a\<lparr>na_FinishedAt := ms, na_Outcome := ''uncertain'', na_ErrorCode := reason\<rparr>)"

lemma delivery_ok_f: "delivery_ok d \<Longrightarrow> delivery_ok (f d)"
  unfolding delivery_ok_def using keeps(3) [of d] revives_none [of d] settles [of d] leases_none [of d] by metis

lemma held_ok_f: "held_ok rows w \<Longrightarrow> held_ok (map f rows) w"
  using keeps leases_none by (auto simp: held_ok_def)

lemma attempt_ok_closed:
  assumes "attempt_ok rows a" "distinct (map nl_ID rows)" "0 < ms" "b \<in> set (closed ms reason rows [a])"
  shows "attempt_ok (map f rows) b"
proof -
  obtain d where d: "d \<in> set rows" "nl_ID d = na_DeliveryID a"
    and open_row: "if na_FinishedAt a = 0 then leased d \<and> nl_Sending d \<and> nl_LeaseToken d = na_LeaseToken a
        else na_Outcome a = ''retry_wait'' \<or> \<not> live d"
    using assms(1) unfolding attempt_ok_def by blast
  have sel: "na_DeliveryID a \<in> nl_ID ` {d \<in> set rows. P d} \<longleftrightarrow> P d"
  proof
    assume "na_DeliveryID a \<in> nl_ID ` {d \<in> set rows. P d}"
    then obtain e where "e \<in> set rows" "P e" "na_DeliveryID a = nl_ID e" by blast
    then show "P d" using same_row [OF assms(2), of e d] d by simp
  next
    assume "P d"
    then show "na_DeliveryID a \<in> nl_ID ` {d \<in> set rows. P d}" using d by (metis (mono_tags) imageI mem_Collect_eq)
  qed
  have b: "b = (if na_FinishedAt a = 0 \<and> P d
      then a\<lparr>na_FinishedAt := ms, na_Outcome := ''uncertain'', na_ErrorCode := reason\<rparr> else a)"
    using assms(4) unfolding closed_def update_where_def list.map list.set singleton_iff sel .
  have "if na_FinishedAt b = 0 then leased (f d) \<and> nl_Sending (f d) \<and> nl_LeaseToken (f d) = na_LeaseToken b
      else na_Outcome b = ''retry_wait'' \<or> \<not> live (f d)"
  proof (cases "na_FinishedAt a = 0")
    case True
    then have o: "leased d" "nl_Sending d" "nl_LeaseToken d = na_LeaseToken a" using open_row by auto
    show ?thesis
    proof (cases "P d")
      case p: True
      have "\<not> live (f d)" using ends p o(1,2) by blast
      then show ?thesis using True p assms(3) by (simp add: b)
    next
      case p: False
      have "leased (f d)" using spares p o(1,2) by blast
      then show ?thesis using True p o leases_none by (simp add: b)
    qed
  next
    case False
    then show ?thesis using open_row revives_none by (auto simp: b)
  qed
  moreover have "nl_ID (f d) = na_DeliveryID b" using keeps(1) d(2) by (simp add: b)
  ultimately show ?thesis unfolding attempt_ok_def using d(1) by auto
qed

lemma closed_each:
  assumes "b \<in> set (closed ms reason rows as)"
  obtains a where "a \<in> set as" "b \<in> set (closed ms reason rows [a])"
proof -
  obtain g where g: "\<And>xs. closed ms reason rows xs = map g xs" unfolding closed_def update_where_def by blast
  have "b \<in> g ` set as" using assms unfolding g set_map .
  then obtain a where "a \<in> set as" "b = g a" by blast
  then show ?thesis using that [of a] by (simp add: g)
qed

lemma in_order_closed: "in_order as \<Longrightarrow> in_order (closed ms reason rows as)"
  unfolding closed_def by (rule in_order_update) auto

lemma tables_closed:
  assumes "tables_ok rows as" "0 < ms"
  shows "tables_ok (map f rows) (closed ms reason rows as)"
proof -
  have "one_per_channel (map f rows)"
    unfolding one_per_channel_def
  proof (intro ballI impI)
    fix x y assume xy: "x \<in> set (map f rows)" "y \<in> set (map f rows)" and l: "leased x" "leased y" "nl_ChannelID x = nl_ChannelID y"
    obtain d e where d: "d \<in> set rows" "x = f d" "e \<in> set rows" "y = f e" using xy by (metis imageE set_map)
    then have "nl_ID d = nl_ID e" using assms(1) l leases_none keeps(2) by (metis tables_ok_def one_per_channel_def)
    then show "nl_ID x = nl_ID y" using d keeps(1) by simp
  qed
  moreover have "map nl_ID (map f rows) = map nl_ID rows" using keeps(1) by simp
  moreover have "attempt_ok (map f rows) b" if "b \<in> set (closed ms reason rows as)" for b
    using that by (rule closed_each) (use attempt_ok_closed assms in \<open>auto simp: tables_ok_def\<close>)
  ultimately show ?thesis
    using assms delivery_ok_f in_order_closed [of as] unfolding tables_ok_def by (metis imageE set_map)
qed

lemma tables_without_attempts:
  fixes ms :: int
  assumes "tables_ok rows as" "0 < ms" "\<And>d. \<not> P d"
  shows "tables_ok (map f rows) as"
proof -
  have "closed ms [] rows as = as" using assms(3) unfolding closed_def by (intro update_where_none) simp
  then show ?thesis using tables_closed [OF assms(1,2), of "[]"] by simp
qed

end

lemma update_twice: "update_where P f (update_where Q g rows) = map (\<lambda>r. let x = (if Q r then g r else r) in if P x then f x else x) rows"
  by (simp add: update_where_def Let_def)

definition recovered :: "int \<Rightarrow> notifyDelivery \<Rightarrow> notifyDelivery" where
  "recovered ms d =
     (let x = (if lapsed ms d then recovered_row ms d else d)
      in if nl_State x \<in> {''pending'', ''retry_wait''} \<and> nl_ExpiresAt x \<le> ms then x\<lparr>nl_State := ''expired'', nl_UpdatedAt := ms\<rparr> else x)"

definition revoked :: "int \<Rightarrow> (notifyDelivery \<Rightarrow> bool) \<Rightarrow> string \<Rightarrow> notifyDelivery \<Rightarrow> notifyDelivery" where
  "revoked ms P reason d = (if nl_State d \<in> live_states \<and> P d then (revoked_row reason d)\<lparr>nl_UpdatedAt := ms\<rparr> else d)"

definition forgotten :: "string \<Rightarrow> notifyDelivery \<Rightarrow> notifyDelivery" where
  "forgotten name d =
     (let x = (if nl_Username d = name \<and> nl_State d \<in> live_states then revoked_row ''account_deleted'' d else d)
      in if nl_Username x = name then x\<lparr>nl_LastError := ''account_deleted''\<rparr> else x)"

definition reviewed :: "string \<Rightarrow> int \<Rightarrow> int \<Rightarrow> notifyDelivery \<Rightarrow> notifyDelivery" where
  "reviewed did expected ms d =
     (if nl_ID d = did \<and> nl_State d = ''uncertain'' \<and> nl_UpdatedAt d = expected
      then d\<lparr>nl_State := ''canceled'', nl_LastError := (if nl_LastError d = ''account_deleted'' then nl_LastError d else ''reviewed_uncertain''),
             nl_UpdatedAt := ms\<rparr> else d)"

interpretation recover: closing "lapsed ms" "recovered ms" for ms
  by unfold_locales
    (auto simp: recovered_def recovered_row_def lapsed_def live_def leased_def live_states_def Let_def split: if_splits)

interpretation revoke: closing P "revoked ms P reason" for ms P reason
  by unfold_locales (auto simp: revoked_def revoked_row_def live_def leased_def live_states_def split: if_splits)

interpretation forget: closing "\<lambda>d. nl_Username d = name" "forgotten name" for name
  by unfold_locales (auto simp: forgotten_def revoked_row_def live_def leased_def live_states_def Let_def split: if_splits)

interpretation review: closing "\<lambda>_. False" "reviewed did expected ms" for did expected ms
  by unfold_locales (auto simp: reviewed_def live_def leased_def live_states_def split: if_splits)

lemma recover_tables:
  "nt_deliveries (RecoverNotificationLeases ms db) = map (recovered ms) (nt_deliveries db)"
  "nt_attempts (RecoverNotificationLeases ms db) = recover.closed ms ms ''worker_lost'' (nt_deliveries db) (nt_attempts db)"
  by (simp_all add: RecoverNotificationLeases_def upd_deliveries_def close_attempts_def upd_attempts_def recover.closed_def
      update_twice recovered_def [abs_def])

lemma revoke_tables:
  "nt_deliveries (revokeNotificationWork ms P reason db) = map (revoked ms P reason) (nt_deliveries db)"
  "nt_attempts (revokeNotificationWork ms P reason db) = revoke.closed P ms reason (nt_deliveries db) (nt_attempts db)"
  by (simp_all add: revokeNotificationWork_def upd_deliveries_def close_attempts_def upd_attempts_def revoke.closed_def
      update_where_def revoked_def [abs_def])

lemma forget_tables:
  "nt_deliveries (forgetAccount h ms name db) = map (forgotten name) (nt_deliveries db)"
  "nt_attempts (forgetAccount h ms name db) = forget.closed name ms ''account_deleted'' (nt_deliveries db) (nt_attempts db)"
  by (simp_all add: forgetAccount_def Let_def upd_deliveries_def close_attempts_def upd_attempts_def forget.closed_def
      update_twice forgotten_def [abs_def])

definition tables_of :: "notifyDb \<Rightarrow> notifyDelivery list \<times> notifyAttempt list" where
  "tables_of db = (nt_deliveries db, nt_attempts db)"

section \<open>Adding, purging, leasing\<close>

lemma attempt_ok_mono: "attempt_ok rows a \<Longrightarrow> set rows \<subseteq> set rows' \<Longrightarrow> attempt_ok rows' a"
  unfolding attempt_ok_def by blast

lemma row_added:
  assumes "tables_ok rows as" "nl_ID d \<notin> nl_ID ` set rows" "nl_State d = ''pending''" "nl_Attempts d = 0" "\<not> nl_Sending d"
  shows "tables_ok (rows @ [d]) as"
proof -
  have p: "\<not> leased d" "delivery_ok d" using assms(3-5) by (simp_all add: leased_def delivery_ok_def)
  have "attempt_ok (rows @ [d]) a" if "attempt_ok rows a" for a
    using that by (rule attempt_ok_mono) auto
  moreover have "one_per_channel (rows @ [d])"
  proof -
    have "one_per_channel rows" using assms(1) by (simp add: tables_ok_def)
    then show ?thesis using p(1) unfolding one_per_channel_def set_append by (simp only: Un_iff list.set singleton_iff) blast
  qed
  ultimately show ?thesis using assms(1,2) p(2) by (simp add: tables_ok_def)
qed

lemma held_added: "held_ok rows w \<Longrightarrow> nl_State d = ''pending'' \<Longrightarrow> held_ok (rows @ [d]) w"
  by (auto simp: held_ok_def leased_def)

lemma family_purged:
  assumes "tables_ok rows as"
  shows "tables_ok (filter (\<lambda>d. \<not> Q d) rows) (filter (\<lambda>a. na_DeliveryID a \<notin> nl_ID ` {d \<in> set rows. Q d}) as)"
proof -
  have "attempt_ok (filter (\<lambda>d. \<not> Q d) rows) a" if ok1: "attempt_ok rows a" and gone: "na_DeliveryID a \<notin> nl_ID ` {d \<in> set rows. Q d}" for a
  proof -
    obtain d where d: "d \<in> set rows" "nl_ID d = na_DeliveryID a"
      and ok: "if na_FinishedAt a = 0 then leased d \<and> nl_Sending d \<and> nl_LeaseToken d = na_LeaseToken a
        else na_Outcome a = ''retry_wait'' \<or> \<not> live d"
      using ok1 unfolding attempt_ok_def by blast
    have "\<not> Q d" using gone d by (metis (mono_tags) imageI mem_Collect_eq)
    then have "d \<in> set (filter (\<lambda>d. \<not> Q d) rows)" using d(1) by simp
    with d(2) ok show ?thesis unfolding attempt_ok_def by blast
  qed
  moreover have "in_order (filter R as)" for R
    using assms by (simp add: tables_ok_def in_order_def sorted_wrt_filter)
  moreover have "one_per_channel (filter (\<lambda>d. \<not> Q d) rows)"
  proof -
    have "one_per_channel rows" using assms by (simp add: tables_ok_def)
    then show ?thesis unfolding one_per_channel_def set_filter by blast
  qed
  ultimately show ?thesis using assms by (simp add: tables_ok_def distinct_map_filter)
qed

lemma held_purged: "held_ok rows w \<Longrightarrow> held_ok (filter R rows) w"
  by (auto simp: held_ok_def)

section \<open>One row rewritten\<close>

definition fits :: "notifyDelivery \<Rightarrow> notifyAttempt \<Rightarrow> bool" where
  "fits d a \<longleftrightarrow> (if na_FinishedAt a = 0 then leased d \<and> nl_Sending d \<and> nl_LeaseToken d = na_LeaseToken a
     else na_Outcome a = ''retry_wait'' \<or> \<not> live d)"

lemma attempt_ok_fits: "attempt_ok rows a \<longleftrightarrow> (\<exists>d\<in>set rows. nl_ID d = na_DeliveryID a \<and> fits d a)"
  by (simp add: attempt_ok_def fits_def)

lemma attempt_fits:
  assumes "tables_ok rows as" "a \<in> set as" "c \<in> set rows" "na_DeliveryID a = nl_ID c"
  shows "fits c a"
proof -
  obtain d where "d \<in> set rows" "nl_ID d = na_DeliveryID a" "fits d a"
    using assms(1,2) unfolding tables_ok_def attempt_ok_fits by blast
  moreover have "distinct (map nl_ID rows)" using assms(1) by (simp add: tables_ok_def)
  ultimately show ?thesis using same_row [of rows d c] assms(3,4) by simp
qed

definition put_delivery :: "notifyDelivery \<Rightarrow> notifyDelivery list \<Rightarrow> notifyDelivery list" where
  "put_delivery c rows = map (\<lambda>d. if nl_ID d = nl_ID c then c else d) rows"

lemma update_one:
  assumes "distinct (map nl_ID rows)" "c \<in> set rows" "Q c" "\<And>r. r \<in> set rows \<Longrightarrow> Q r \<Longrightarrow> nl_ID r = nl_ID c" "nl_ID (g c) = nl_ID c"
  shows "update_where Q g rows = put_delivery (g c) rows"
  unfolding update_where_def put_delivery_def
proof (rule map_cong [OF refl])
  fix r assume r: "r \<in> set rows"
  show "(if Q r then g r else r) = (if nl_ID r = nl_ID (g c) then g c else r)"
    using same_row [OF assms(1) r assms(2)] assms(3,5) assms(4) [OF r] by auto
qed

lemma put_mem: "d \<in> set (put_delivery c' rows) \<Longrightarrow> d = c' \<or> d \<in> set rows \<and> nl_ID d \<noteq> nl_ID c'"
  by (auto simp: put_delivery_def split: if_splits)

lemma put_in: "c \<in> set rows \<Longrightarrow> nl_ID c = nl_ID c' \<Longrightarrow> c' \<in> set (put_delivery c' rows)"
  by (force simp: put_delivery_def)

lemma put_other: "d \<in> set rows \<Longrightarrow> nl_ID d \<noteq> nl_ID c' \<Longrightarrow> d \<in> set (put_delivery c' rows)"
  by (force simp: put_delivery_def)

lemma row_put:
  assumes "tables_ok rows as" "c \<in> set rows" "nl_ID c' = nl_ID c" "nl_ChannelID c' = nl_ChannelID c" "delivery_ok c'"
    and lease: "leased c' \<Longrightarrow> leased c \<or> (\<forall>e\<in>set rows. leased e \<longrightarrow> nl_ChannelID e \<noteq> nl_ChannelID c)"
    and "in_order bs"
    and att: "\<And>b. b \<in> set bs \<Longrightarrow> na_DeliveryID b = nl_ID c \<and> fits c' b \<or> b \<in> set as \<and> na_DeliveryID b \<noteq> nl_ID c"
  shows "tables_ok (put_delivery c' rows) bs"
proof -
  have ids: "map nl_ID (put_delivery c' rows) = map nl_ID rows" by (simp add: put_delivery_def)
  have o: "one_per_channel rows" using assms(1) by (simp add: tables_ok_def)
  have "one_per_channel (put_delivery c' rows)"
    unfolding one_per_channel_def
  proof (intro ballI impI)
    fix d e assume de: "d \<in> set (put_delivery c' rows)" "e \<in> set (put_delivery c' rows)" and l: "leased d" "leased e" "nl_ChannelID d = nl_ChannelID e"
    show "nl_ID d = nl_ID e"
      using put_mem [OF de(1)] put_mem [OF de(2)] l o lease assms(2-4) unfolding one_per_channel_def by metis
  qed
  moreover have "attempt_ok (put_delivery c' rows) b" if "b \<in> set bs" for b
    using att [OF that]
  proof
    assume "na_DeliveryID b = nl_ID c \<and> fits c' b"
    then show ?thesis using put_in [OF assms(2)] assms(3) unfolding attempt_ok_fits by metis
  next
    assume b: "b \<in> set as \<and> na_DeliveryID b \<noteq> nl_ID c"
    then obtain d where "d \<in> set rows" "nl_ID d = na_DeliveryID b" "fits d b"
      using assms(1) unfolding tables_ok_def attempt_ok_fits by blast
    then show ?thesis using put_other [of d rows c'] b assms(3) unfolding attempt_ok_fits by metis
  qed
  moreover have "delivery_ok d" if "d \<in> set (put_delivery c' rows)" for d
    using put_mem [OF that] assms(1,5) by (auto simp: tables_ok_def)
  ultimately show ?thesis using assms(1,7) ids by (simp add: tables_ok_def)
qed

lemma held_put:
  assumes "held_ok rows w"
    and "leased c' \<Longrightarrow> nl_ID c' = nl_ID (snd w) \<Longrightarrow> nl_LeaseToken c' = nl_LeaseToken (snd w) \<Longrightarrow>
      nl_Sending c' = fst w \<and> nl_Attempts c' = nl_Attempts (snd w) + (if fst w then 1 else 0)"
  shows "held_ok (put_delivery c' rows) w"
  using assms unfolding held_ok_def by (metis put_mem)

text \<open>The attempts of a delivery that waits were all refused; while it sends, one is open, under its lease.\<close>

lemma live_attempts:
  assumes "tables_ok rows as" "c \<in> set rows" "live c" "a \<in> set as" "na_DeliveryID a = nl_ID c"
  shows "refused a \<or> na_FinishedAt a = 0 \<and> leased c \<and> nl_Sending c \<and> na_LeaseToken a = nl_LeaseToken c"
  using attempt_fits [OF assms(1,4,2,5)] assms(3) by (auto simp: fits_def refused_def split: if_splits)

lemma unique_hit:
  assumes "length (filter Q rows) = 1"
  obtains c where "c \<in> set rows" "Q c"
proof -
  obtain c where "filter Q rows = [c]" using assms by (metis One_nat_def length_0_conv length_Suc_conv)
  then have "c \<in> set (filter Q rows)" by simp
  then show ?thesis using that by auto
qed

section \<open>Each operation keeps it\<close>

abbreviation rows_of :: "notifyRun \<Rightarrow> notifyDelivery list" where
  "rows_of st \<equiv> nt_deliveries (rn_db st)"

lemma run_okD:
  assumes "run_ok st"
  shows "tables_ok (rows_of st) (nt_attempts (rn_db st))" "distinct (map nl_ID (rows_of st))" "w \<in> set (rn_held st) \<Longrightarrow> held_ok (rows_of st) w"
    "distinct (map (nl_LeaseToken \<circ> snd) (rn_held st))"
  using assms by (simp_all add: run_ok_def tables_ok_def)

lemma run_okI:
  assumes "tables_ok (nt_deliveries db) (nt_attempts db)" "\<And>w. w \<in> set held \<Longrightarrow> held_ok (nt_deliveries db) w"
    "distinct (map (nl_LeaseToken \<circ> snd) held)"
  shows "run_ok \<lparr>rn_db = db, rn_held = held\<rparr>"
  using assms by (simp add: run_ok_def)

lemma on_db_ok:
  assumes "run_ok st" "tables_ok (nt_deliveries db) (nt_attempts db)"
    "\<And>w. held_ok (rows_of st) w \<Longrightarrow> held_ok (nt_deliveries db) w"
  shows "run_ok (on_db st db)"
  using assms by (simp add: run_ok_def on_db_def)

lemma distinct_map_remove: "distinct (map g xs) \<Longrightarrow> distinct (map g (remove1 w xs))"
proof (induction xs)
  case (Cons x xs)
  have "g ` set (remove1 w xs) \<subseteq> g ` set xs" using set_remove1_subset [of w xs] by blast
  then show ?case using Cons by auto
qed simp

lemma let_go_ok: "run_ok st \<Longrightarrow> run_ok (let_go w st)"
  using set_remove1_subset [of w "rn_held st"] distinct_map_remove [of "nl_LeaseToken \<circ> snd" "rn_held st" w]
  unfolding run_ok_def let_go_def by auto

lemma insert_deliveries_ok:
  "insert_deliveries ev ok fresh i ds rows = Inr rows' \<Longrightarrow> tables_ok rows as \<Longrightarrow>
   tables_ok rows' as \<and> (\<forall>w. held_ok rows w \<longrightarrow> held_ok rows' w)"
proof (induction ds arbitrary: i rows)
  case (Cons d ds)
  show ?case
  proof (cases "(nl_Username d \<noteq> [] \<and> \<not> ok (nl_Username d))")
    case True
    then show ?thesis using Cons by simp
  next
    case False
    let ?r = "captured_row ev (fresh i) d"
    obtain mid where mid: "insert_delivery ?r rows = Inr mid" "insert_deliveries ev ok fresh (Suc i) ds mid = Inr rows'"
      using Cons.prems(1) False by (auto split: if_splits sum.splits)
    have "mid = rows \<or> mid = rows @ [?r] \<and> nl_ID ?r \<notin> nl_ID ` set rows"
      using mid(1) by (auto simp: insert_delivery_def list_ex_iff split: if_splits)
    moreover have "nl_State ?r = ''pending''" "nl_Attempts ?r = 0" "\<not> nl_Sending ?r" by (simp_all add: captured_row_def)
    ultimately have "tables_ok mid as \<and> (\<forall>w. held_ok rows w \<longrightarrow> held_ok mid w)"
      using row_added [OF Cons.prems(2), of ?r] held_added [of rows _ ?r] Cons.prems(2) by auto
    then show ?thesis using Cons.IH [OF mid(2)] by blast
  qed
qed simp

lemma consume_tables [simp]:
  "nt_deliveries (consume_intent ms job cycle db) = nt_deliveries db" "nt_attempts (consume_intent ms job cycle db) = nt_attempts db"
  by (simp_all add: consume_intent_def)

lemma capture_tables:
  assumes "captureNotification h dids rids ms ev expected ds users job cycle db = Inr db'" "tables_ok (nt_deliveries db) as"
  shows "tables_ok (nt_deliveries db') as" "nt_attempts db' = nt_attempts db" "held_ok (nt_deliveries db) w \<Longrightarrow> held_ok (nt_deliveries db') w"
proof -
  have "db' = db \<or> (\<exists>ds' rows. insert_deliveries ev (eligible h expected db) dids 0 ds' (nt_deliveries db) = Inr rows \<and>
      nt_deliveries db' = rows \<and> nt_attempts db' = nt_attempts db)"
    using assms(1) unfolding captureNotification_def by (auto split: if_splits option.splits sum.splits) blast
  then show "tables_ok (nt_deliveries db') as" "nt_attempts db' = nt_attempts db" "held_ok (nt_deliveries db) w \<Longrightarrow> held_ok (nt_deliveries db') w"
    using insert_deliveries_ok [OF _ assms(2)] assms(2) by blast+
qed

lemma replay_tables:
  assumes "ReplayNotification h fresh did request crev erev rrev confirm ms db = Inr (d, made, db')"
  shows "db' = db \<or> (\<exists>r. nt_deliveries db' = nt_deliveries db @ [r] \<and> nt_attempts db' = nt_attempts db \<and>
    nl_ID r \<notin> nl_ID ` set (nt_deliveries db) \<and> nl_State r = ''pending'' \<and> nl_Attempts r = 0 \<and> \<not> nl_Sending r)"
  using assms by (auto simp: ReplayNotification_def Let_def replay_row_def list_ex_iff split: if_splits option.splits)

lemma cleanup_tables:
  assumes "CleanupNotifications h ms db = Inr db'"
  shows "db' = db \<or> (\<exists>Q. nt_deliveries db' = filter (\<lambda>d. \<not> Q d) (nt_deliveries db) \<and>
    nt_attempts db' = filter (\<lambda>a. na_DeliveryID a \<notin> nl_ID ` {d \<in> set (nt_deliveries db). Q d}) (nt_attempts db))"
proof -
  have fold_same: "nt_deliveries (fold (compact_event h) es d) = nt_deliveries d \<and> nt_attempts (fold (compact_event h) es d) = nt_attempts d" for es d
    by (induction es arbitrary: d) (simp_all add: compact_event_def)
  have "nt_deliveries (compact_events h b (purge_recipients i (purge_families eids db))) = filter (\<lambda>d. nl_EventID d \<notin> set eids) (nt_deliveries db) \<and>
      nt_attempts (compact_events h b (purge_recipients i (purge_families eids db))) =
        filter (\<lambda>a. na_DeliveryID a \<notin> nl_ID ` {d \<in> set (nt_deliveries db). nl_EventID d \<in> set eids}) (nt_attempts db)" for b i eids
    using fold_same unfolding compact_events_def by (simp add: purge_recipients_def purge_families_def Let_def)
  then show ?thesis using assms by (auto simp: CleanupNotifications_def Let_def split: if_splits)
qed

lemma closing_run_ok:
  assumes "closing P f" "run_ok st" "0 < ms" "nt_deliveries db = map f (rows_of st)"
    "nt_attempts db = closing.closed P ms reason (rows_of st) (nt_attempts (rn_db st))"
  shows "run_ok (on_db st db)"
proof (rule on_db_ok [OF assms(2)])
  show "tables_ok (nt_deliveries db) (nt_attempts db)"
    using closing.tables_closed [OF assms(1) run_okD(1) [OF assms(2)] assms(3)] assms(4,5) by simp
  show "held_ok (nt_deliveries db) w" if "held_ok (rows_of st) w" for w
    using closing.held_ok_f [OF assms(1) that] assms(4) by simp
qed

lemma claim_ok:
  assumes ok: "run_ok st" and fresh: "fresh_token token st" and cl: "ClaimNotification token ms (rn_db st) = (Some d, db)"
  shows "run_ok (st\<lparr>rn_db := db, rn_held := (False, d) # rn_held st\<rparr>)"
proof -
  let ?rows = "rows_of st"
  obtain c cs where hd: "sort_key (\<lambda>d. (nl_UpdatedAt d, nl_CreatedAt d, nl_ID d)) (claimable ms ?rows) = c # cs"
    using cl by (auto simp: ClaimNotification_def split: list.splits)
  then have "c \<in> set (claimable ms ?rows)" by (metis list.set_intros(1) set_sort)
  then have c: "c \<in> set ?rows" "nl_State c \<in> {''pending'', ''retry_wait''}"
    and alone: "\<forall>e\<in>set ?rows. leased e \<longrightarrow> nl_ChannelID e \<noteq> nl_ChannelID c"
    by (auto simp: claimable_def list_ex_iff leased_def)
  let ?c = "lease token ms c"
  have rows: "nt_deliveries db = put_delivery ?c ?rows" and as: "nt_attempts db = nt_attempts (rn_db st)"
    and d: "find (\<lambda>d. nl_LeaseToken d = token) (nt_deliveries db) = Some d"
  proof -
    have "update_where (\<lambda>d. nl_ID d = nl_ID c \<and> nl_State d \<in> {''pending'', ''retry_wait''}) (lease token ms) ?rows = put_delivery ?c ?rows"
      using c by (intro update_one [OF run_okD(2) [OF ok]]) (auto simp: lease_def)
    then show "nt_deliveries db = put_delivery ?c ?rows" "nt_attempts db = nt_attempts (rn_db st)"
      "find (\<lambda>d. nl_LeaseToken d = token) (nt_deliveries db) = Some d"
      using cl hd by (auto simp: ClaimNotification_def upd_deliveries_def)
  qed
  have l: "live c" "\<not> leased c" using c(2) by (auto simp: live_def leased_def live_states_def)
  have r: "delivery_ok c" using run_okD(1) [OF ok] c(1) by (simp add: tables_ok_def)
  then have s: "\<not> nl_Sending c" using l by (simp add: delivery_ok_def)
  have "tables_ok (put_delivery ?c ?rows) (nt_attempts (rn_db st))"
  proof (rule row_put [OF run_okD(1) [OF ok] c(1)])
    show "delivery_ok ?c" using r s l by (simp add: delivery_ok_def lease_def leased_def)
    show "in_order (nt_attempts (rn_db st))" using run_okD(1) [OF ok] by (simp add: tables_ok_def)
    fix b assume b: "b \<in> set (nt_attempts (rn_db st))"
    show "na_DeliveryID b = nl_ID c \<and> fits ?c b \<or> b \<in> set (nt_attempts (rn_db st)) \<and> na_DeliveryID b \<noteq> nl_ID c"
      using live_attempts [OF run_okD(1) [OF ok] c(1) l(1) b] s b by (auto simp: fits_def refused_def)
  qed (use alone in \<open>simp_all add: lease_def\<close>)
  moreover have dc: "d = ?c"
  proof -
    have "d \<in> set (put_delivery ?c ?rows)" "nl_LeaseToken d = token" using find_SomeE [OF d] rows by auto
    then show ?thesis using put_mem [of d ?c ?rows] fresh by (auto simp: fresh_token_def)
  qed
  moreover have "held_ok (put_delivery ?c ?rows) w" if "w \<in> set (rn_held st)" for w
    using run_okD(3) [OF ok that] by (rule held_put) (use fresh that in \<open>auto simp: fresh_token_def lease_def\<close>)
  moreover have "held_ok (put_delivery ?c ?rows) (False, ?c)"
    unfolding held_ok_def
  proof (intro conjI ballI impI)
    show "nl_LeaseToken (snd (False, ?c)) \<noteq> []" using fresh by (simp add: fresh_token_def lease_def)
    fix r assume "r \<in> set (put_delivery ?c ?rows)" "nl_ID r = nl_ID (snd (False, ?c))"
    then have "r = ?c" using put_mem [of r ?c ?rows] by auto
    then show "nl_Sending r = fst (False, ?c)" "nl_Attempts r = nl_Attempts (snd (False, ?c)) + (if fst (False, ?c) then 1 else 0)"
      using s by (simp_all add: lease_def)
  qed
  moreover have "token \<notin> (nl_LeaseToken \<circ> snd) ` set (rn_held st)" using fresh by (auto simp: fresh_token_def)
  ultimately show ?thesis
    using run_okD(4) [OF ok] by (auto simp: run_ok_def rows as lease_def)
qed

lemma start_ok:
  assumes ok: "run_ok st" and held: "(False, d) \<in> set (rn_held st)" and b: "BeginNotificationAttempt d ms (rn_db st) = Inr db"
  shows "run_ok ((let_go (False, d) st)\<lparr>rn_db := db, rn_held := (True, d) # remove1 (False, d) (rn_held st)\<rparr>)"
proof -
  let ?rows = "rows_of st" and ?as = "nt_attempts (rn_db st)"
  have "length (filter (begins d ms) ?rows) = 1" using b by (simp add: BeginNotificationAttempt_def split: if_splits)
  then obtain c where c: "c \<in> set ?rows" "begins d ms c" by (rule unique_hit)
  then have cd: "nl_ID c = nl_ID d" "nl_LeaseToken c = nl_LeaseToken d" "leased c" "\<not> nl_Sending c"
    by (simp_all add: begins_def leased_def)
  let ?c = "c\<lparr>nl_Sending := True, nl_Attempts := nl_Attempts c + 1\<rparr>"
  let ?a = "\<lparr>na_DeliveryID = nl_ID d, na_LeaseToken = nl_LeaseToken d, na_StartedAt = ms, na_FinishedAt = 0,
             na_Outcome = ''sending'', na_ErrorCode = [], na_StatusCode = 0\<rparr>"
  have rows: "nt_deliveries db = put_delivery ?c ?rows" and as: "nt_attempts db = ?as @ [?a]"
  proof -
    have "update_where (begins d ms) (\<lambda>r. r\<lparr>nl_Sending := True, nl_Attempts := nl_Attempts r + 1\<rparr>) ?rows = put_delivery ?c ?rows"
      by (rule update_one [OF run_okD(2) [OF ok] c(1), of "begins d ms" "\<lambda>r. r\<lparr>nl_Sending := True, nl_Attempts := nl_Attempts r + 1\<rparr>"])
        (use c(2) cd(1) in \<open>simp_all add: begins_def\<close>)
    then show "nt_deliveries db = put_delivery ?c ?rows" "nt_attempts db = ?as @ [?a]"
      using b by (auto simp: BeginNotificationAttempt_def upd_deliveries_def split: if_splits)
  qed
  have t: "tables_ok ?rows ?as" by (rule run_okD(1) [OF ok])
  have past: "refused a" if "a \<in> set ?as" "na_DeliveryID a = nl_ID c" for a
    using live_attempts [OF t c(1) leased_live [OF cd(3)] that] cd(4) by blast
  have "tables_ok (put_delivery ?c ?rows) (?as @ [?a])"
  proof (rule row_put [OF t c(1)])
    have "delivery_ok c" using t c(1) by (simp add: tables_ok_def)
    then show "delivery_ok ?c" using cd(3,4) leased_live [OF cd(3)] by (simp add: delivery_ok_def leased_def)
    show "in_order (?as @ [?a])" using t past cd(1) by (auto simp: tables_ok_def in_order_def sorted_wrt_append)
    fix b assume "b \<in> set (?as @ [?a])"
    then consider "b = ?a" | "b \<in> set ?as" by auto
    then show "na_DeliveryID b = nl_ID c \<and> fits ?c b \<or> b \<in> set ?as \<and> na_DeliveryID b \<noteq> nl_ID c"
    proof cases
      case 1
      then show ?thesis using cd by (simp add: fits_def leased_def)
    next
      case 2
      then show ?thesis using past [OF 2] by (auto simp: fits_def refused_def)
    qed
  qed (use cd in \<open>simp_all add: leased_def\<close>)
  moreover have h: "held_ok ?rows (False, d)" by (rule run_okD(3) [OF ok held])
  moreover have "held_ok (put_delivery ?c ?rows) (True, d)"
    unfolding held_ok_def
  proof (intro conjI ballI impI)
    show "nl_LeaseToken (snd (True, d)) \<noteq> []" using h by (simp add: held_ok_def)
    fix r assume "r \<in> set (put_delivery ?c ?rows)" "nl_ID r = nl_ID (snd (True, d))"
    then have "r = ?c" using put_mem [of r ?c ?rows] cd(1) by auto
    then show "nl_Sending r = fst (True, d)" "nl_Attempts r = nl_Attempts (snd (True, d)) + (if fst (True, d) then 1 else 0)"
      using h c(1) cd by (auto simp: held_ok_def)
  qed
  moreover have rest: "w \<in> set (rn_held st) \<and> nl_LeaseToken (snd w) \<noteq> nl_LeaseToken d"
    if "w \<in> set (remove1 (False, d) (rn_held st))" for w
  proof -
    have "distinct (map (nl_LeaseToken \<circ> snd) (rn_held st))" by (rule run_okD(4) [OF ok])
    moreover from this have "distinct (rn_held st)" by (simp add: distinct_map)
    ultimately show ?thesis using that held by (auto simp: distinct_map inj_on_def)
  qed
  moreover have "held_ok (put_delivery ?c ?rows) w" if "w \<in> set (remove1 (False, d) (rn_held st))" for w
    using run_okD(3) [OF ok] rest [OF that] cd(2) by (intro held_put) auto
  moreover have "distinct (map (nl_LeaseToken \<circ> snd) (remove1 (False, d) (rn_held st)))"
    by (rule distinct_map_remove [OF run_okD(4) [OF ok]])
  moreover have "nl_LeaseToken d \<notin> (nl_LeaseToken \<circ> snd) ` set (remove1 (False, d) (rn_held st))"
    using rest by (metis comp_apply imageE)
  ultimately show ?thesis by (simp add: run_ok_def let_go_def rows as)
qed

lemma finish_ok:
  assumes ok: "run_ok st" and held: "(b, d) \<in> set (rn_held st)" and ms: "0 < ms"
    and fin: "FinishNotification (d\<lparr>nl_NextAt := at_ms\<rparr>) state reason status ms (rn_db st) = Inr (done, db)"
    and again: "state = ''retry_wait'' \<Longrightarrow> b \<Longrightarrow> nl_Attempts d \<le> 3"
  shows "run_ok (on_db (let_go (b, d) st) db)"
proof (cases "db = rn_db st")
  case True
  then show ?thesis using let_go_ok [OF ok, of "(b, d)"] by (simp add: on_db_def let_go_def run_ok_def)
next
  case False
  let ?rows = "rows_of st" and ?as = "nt_attempts (rn_db st)" and ?d = "d\<lparr>nl_NextAt := at_ms\<rparr>"
  let ?f = "finished_row ?d state reason status ms"
  have st: "state \<in> set finish_states" and hit: "length (filter (holds_lease ?d ms) ?rows) = 1"
    using fin False by (auto simp: FinishNotification_def split: if_splits)
  obtain c where c: "c \<in> set ?rows" "holds_lease ?d ms c" using hit by (rule unique_hit)
  then have cd: "nl_ID c = nl_ID d" "nl_LeaseToken c = nl_LeaseToken d" "leased c" by (simp_all add: holds_lease_def leased_def)
  let ?Q = "\<lambda>a. na_DeliveryID a = nl_ID ?d \<and> na_LeaseToken a = nl_LeaseToken ?d \<and> na_FinishedAt a = 0"
  let ?g = "\<lambda>a. a\<lparr>na_FinishedAt := ms, na_Outcome := state, na_ErrorCode := reason, na_StatusCode := status\<rparr>"
  have rows: "nt_deliveries db = put_delivery (?f c) ?rows" and as: "nt_attempts db = update_where ?Q ?g ?as"
  proof -
    have "update_where (holds_lease ?d ms) ?f ?rows = put_delivery (?f c) ?rows"
      by (rule update_one [OF run_okD(2) [OF ok] c(1)]) (use c(2) cd(1) in \<open>simp_all add: holds_lease_def finished_row_def\<close>)
    then show "nt_deliveries db = put_delivery (?f c) ?rows" "nt_attempts db = update_where ?Q ?g ?as"
      using fin False by (auto simp: FinishNotification_def upd_deliveries_def upd_attempts_def split: if_splits)
  qed
  have t: "tables_ok ?rows ?as" by (rule run_okD(1) [OF ok])
  have hc: "nl_Sending c = b" "nl_Attempts c = nl_Attempts d + (if b then 1 else 0)"
    using run_okD(3) [OF ok held] c(1) cd by (auto simp: held_ok_def)
  have over: "state = ''retry_wait'' \<or> state \<notin> live_states" using st by (auto simp: finish_states_def live_states_def)
  have "tables_ok (put_delivery (?f c) ?rows) (update_where ?Q ?g ?as)"
  proof (rule row_put [OF t c(1)])
    have r: "delivery_ok c" using t c(1) by (simp add: tables_ok_def)
    have "nl_Attempts c \<le> 4" if "state = ''retry_wait''"
      using again [OF that] hc r leased_live [OF cd(3)] by (cases b) (auto simp: delivery_ok_def)
    then show "delivery_ok (?f c)" using r over by (auto simp: delivery_ok_def finished_row_def live_def)
    show "in_order (update_where ?Q ?g ?as)" using t by (intro in_order_update) (auto simp: tables_ok_def)
    fix x assume x: "x \<in> set (update_where ?Q ?g ?as)"
    show "na_DeliveryID x = nl_ID c \<and> fits (?f c) x \<or> x \<in> set ?as \<and> na_DeliveryID x \<noteq> nl_ID c"
      using x
    proof (rule update_where_mem)
      fix a assume "a \<in> set ?as" "?Q a" "x = ?g a"
      then show ?thesis using over ms cd(1) by (auto simp: fits_def finished_row_def live_def)
    next
      assume x: "x \<in> set ?as" "\<not> ?Q x"
      have "refused x" if "na_DeliveryID x = nl_ID c"
        using live_attempts [OF t c(1) leased_live [OF cd(3)] x(1) that] x(2) that cd by auto
      then show ?thesis using x(1) by (auto simp: fits_def refused_def)
    qed
  qed (use over in \<open>auto simp: finished_row_def leased_def live_states_def\<close>)
  moreover have "held_ok (put_delivery (?f c) ?rows) w" if "held_ok ?rows w" for w
    using that over by (rule_tac held_put) (auto simp: finished_row_def leased_def live_states_def)
  ultimately show ?thesis
    using let_go_ok [OF ok, of "(b, d)"] by (simp add: run_ok_def on_db_def let_go_def rows as)
qed

lemma verdict_retries:
  assumes "attempt_verdict c jitter nowNs d res = (''retry_wait'', reason, at_ms)"
  shows "nl_Attempts d \<le> 3"
  using assms by (auto simp: attempt_verdict_def maxAttempts_def split: if_splits)

lemma step_ok: "notify_step h st st' \<Longrightarrow> run_ok st \<Longrightarrow> run_ok st'"
proof (induction rule: notify_step.induct)
  case (capture dids rids ms ev expected ds users st db)
  then show ?case
    using capture_tables [OF capture(1) run_okD(1) [OF capture(2)]] by (intro on_db_ok [OF capture(2)]) simp_all
next
  case (capture_job dids rids ms ev expected ds users job cycle st db)
  then show ?case
    using capture_tables [OF capture_job(1) run_okD(1) [OF capture_job(3)]] by (intro on_db_ok [OF capture_job(3)]) simp_all
next
  case (claim st token ms d db)
  then show ?case by (intro claim_ok)
next
  case (refuse d st wv stopping ms0 db0 state reason at_ms ms ok db)
  then show ?case by (intro finish_ok) auto
next
  case (start d st ms db)
  then show ?case by (intro start_ok)
next
  case (sent d st c jitter nowNs res state reason at_ms ms ok db)
  then show ?case using verdict_retries by (intro finish_ok) auto
next
  case (lost st w)
  then show ?case by (rule let_go_ok)
next
  case (recover ms st)
  then show ?case by (intro closing_run_ok [OF recover.closing_axioms]) (simp_all add: recover_tables)
next
  case (route_gone ms rid revision st db)
  then show ?case
    by (intro closing_run_ok [OF revoke.closing_axioms]) (auto simp: deleteRoute_def revoke_tables split: if_splits)
next
  case (channel_gone ms cid revision st db)
  then show ?case
    by (intro closing_run_ok [OF revoke.closing_axioms])
      (auto simp: deleteChannel_def without_channel_def revoke_tables split: if_splits option.splits)
next
  case (account_gone ms name st)
  then show ?case by (intro closing_run_ok [OF forget.closing_axioms]) (simp_all add: forget_tables)
next
  case (replay fresh did request crev erev rrev confirm ms st d made db)
  from replay_tables [OF replay(2)] show ?case
  proof
    assume "\<exists>r. nt_deliveries db = rows_of st @ [r] \<and> nt_attempts db = nt_attempts (rn_db st) \<and>
      nl_ID r \<notin> nl_ID ` set (rows_of st) \<and> nl_State r = ''pending'' \<and> nl_Attempts r = 0 \<and> \<not> nl_Sending r"
    then show ?thesis using row_added [OF run_okD(1) [OF replay(3)]] held_added by (intro on_db_ok [OF replay(3)]) auto
  qed (use replay in \<open>simp add: on_db_def\<close>)
next
  case (review did expected ms st db)
  have "nt_deliveries db = map (reviewed did expected ms) (rows_of st)" "nt_attempts db = nt_attempts (rn_db st)"
    using review(1) by (auto simp: reviewNotification_def upd_deliveries_def update_where_def reviewed_def [abs_def] split: if_splits)
  then show ?case
    using review.tables_without_attempts [OF run_okD(1) [OF review(2)], of 1] review.held_ok_f
    by (intro on_db_ok [OF review(2)]) auto
next
  case (retention ms st db)
  from cleanup_tables [OF retention(1)] show ?case
  proof
    assume "\<exists>Q. nt_deliveries db = filter (\<lambda>d. \<not> Q d) (rows_of st) \<and>
      nt_attempts db = filter (\<lambda>a. na_DeliveryID a \<notin> nl_ID ` {d \<in> set (rows_of st). Q d}) (nt_attempts (rn_db st))"
    then obtain Q where "nt_deliveries db = filter (\<lambda>d. \<not> Q d) (rows_of st)"
      "nt_attempts db = filter (\<lambda>a. na_DeliveryID a \<notin> nl_ID ` {d \<in> set (rows_of st). Q d}) (nt_attempts (rn_db st))" by blast
    then show ?thesis using family_purged [OF run_okD(1) [OF retention(2)], of Q] held_purged
      by (intro on_db_ok [OF retention(2)]) simp_all
  qed (use retention in \<open>simp add: on_db_def\<close>)
next
  case (admin st db)
  then show ?case by (intro on_db_ok) (simp_all add: other_tables_def run_okD)
qed

definition empty_run :: "notifyDb \<Rightarrow> notifyRun" where
  "empty_run db = \<lparr>rn_db = db\<lparr>nt_events := [], nt_deliveries := [], nt_attempts := []\<rparr>, rn_held = []\<rparr>"

lemma reach_ok: "(notify_step h)\<^sup>*\<^sup>* (empty_run db) st \<Longrightarrow> run_ok st"
proof (induction rule: rtranclp_induct)
  case base
  show ?case by (simp add: run_ok_def empty_run_def tables_ok_def one_per_channel_def in_order_def)
next
  case (step y z)
  then show ?case using step_ok by blast
qed


text \<open>
  At any moment at most one delivery of a channel is leased, and none is attempted more than five times.
\<close>

theorem channel_sends_one_at_a_time:
  assumes "(notify_step h)\<^sup>*\<^sup>* (empty_run db) st" and "d \<in> set (nt_deliveries (rn_db st))"
  shows "0 \<le> nl_Attempts d \<and> nl_Attempts d \<le> 5 \<and>
    (\<forall>e\<in>set (nt_deliveries (rn_db st)). nl_State d = ''leased'' \<longrightarrow> nl_State e = ''leased'' \<longrightarrow> nl_ChannelID d = nl_ChannelID e \<longrightarrow> d = e)"
proof -
  have t: "tables_ok (nt_deliveries (rn_db st)) (nt_attempts (rn_db st))" using reach_ok [OF assms(1)] by (simp add: run_ok_def)
  then have r: "delivery_ok d" and o: "one_per_channel (nt_deliveries (rn_db st))" and k: "distinct (map nl_ID (nt_deliveries (rn_db st)))"
    using assms(2) by (simp_all add: tables_ok_def)
  have "d = e" if "e \<in> set (nt_deliveries (rn_db st))" "nl_State d = ''leased''" "nl_State e = ''leased''" "nl_ChannelID d = nl_ChannelID e" for e
    using o that assms(2) same_row [OF k assms(2)] unfolding one_per_channel_def leased_def by blast
  then show ?thesis using r by (simp add: delivery_ok_def)
qed

section \<open>A delivery tried twice\<close>

definition demo_hash :: notifyHash where
  "demo_hash = \<lparr>nv_key = (\<lambda>n. ''notification-account:'' @ n), nv_digest = (\<lambda>p. p), nv_replayKey = (\<lambda>d r. d @ r)\<rparr>"

definition demo_notify :: notifyDb where
  "demo_notify = \<lparr>nt_users = [], nt_groups = [], nt_events = [], nt_deliveries = [], nt_attempts = [], nt_recipients = [],
     nt_prefs = (\<lambda>_. None), nt_intents = [], nt_cycles = (\<lambda>_. None), nt_channels = [], nt_routes = [], nt_grants = [],
     nt_meta = (\<lambda>_. None)\<rparr>"

definition demo_event :: notifyEvent where
  "demo_event = \<lparr>ne_ID = ''e1'', ne_SourceKey = ''s1'', ne_Type = ''report.ingested'', ne_Payload = ''p'',
     ne_ResourceType = ''report'', ne_ResourceID = ''1'', ne_CreatedAt = 1000, ne_ExpiresAt = 0\<rparr>"

definition demo_channel :: notifyChannel where
  "demo_channel = \<lparr>nc_ID = ''c1'', nc_Label = ''ops'', nc_Adapter = ''webhook'', nc_LegacyRef = [], nc_Config = [], nc_Secret = [],
     nc_Enabled = True, nc_Paused = False, nc_Revision = 1, nc_CreatedAt = 0\<rparr>"

definition demo_queued :: notifyDelivery where
  "demo_queued = captured_row demo_event ''d1'' (blank_delivery\<lparr>nl_ChannelID := ''c1''\<rparr>)"

definition demo_sending :: "string \<Rightarrow> int \<Rightarrow> notifyAttempt" where
  "demo_sending token ms = \<lparr>na_DeliveryID = ''d1'', na_LeaseToken = token, na_StartedAt = ms, na_FinishedAt = 0,
     na_Outcome = ''sending'', na_ErrorCode = [], na_StatusCode = 0\<rparr>"

definition hold1 :: notifyDelivery where "hold1 = lease ''t1'' 2000 demo_queued"
definition sent1 :: notifyDelivery where "sent1 = hold1\<lparr>nl_Sending := True, nl_Attempts := 1\<rparr>"
definition back1 :: notifyDelivery where
  "back1 = finished_row (hold1\<lparr>nl_NextAt := 8000\<rparr>) ''retry_wait'' ''destination_retry'' 503 3000 sent1"
definition hold2 :: notifyDelivery where "hold2 = lease ''t2'' 9000 back1"
definition sent2 :: notifyDelivery where "sent2 = hold2\<lparr>nl_Sending := True, nl_Attempts := 2\<rparr>"
definition refused1 :: notifyAttempt where
  "refused1 = (demo_sending ''t1'' 2500)\<lparr>na_FinishedAt := 3000, na_Outcome := ''retry_wait'', na_ErrorCode := ''destination_retry'',
     na_StatusCode := 503\<rparr>"

definition demo_at :: "notifyDelivery \<Rightarrow> notifyAttempt list \<Rightarrow> notifyDb" where
  "demo_at d as = demo_notify\<lparr>nt_events := [demo_event], nt_deliveries := [d], nt_attempts := as\<rparr>"

lemmas demo_rows = demo_queued_def hold1_def sent1_def back1_def hold2_def sent2_def refused1_def demo_sending_def captured_row_def lease_def
  finished_row_def blank_delivery_def demo_event_def

lemma demo_at_simps [simp]: "nt_deliveries (demo_at d as) = [d]" "nt_attempts (demo_at d as) = as" "nt_events (demo_at d as) = [demo_event]"
  "nt_meta (demo_at d as) = (\<lambda>_. None)" "(demo_at d as)\<lparr>nt_deliveries := [e]\<rparr> = demo_at e as"
  "(demo_at d as)\<lparr>nt_attempts := bs\<rparr> = demo_at d bs"
  by (simp_all add: demo_at_def demo_notify_def)

lemma demo_sort: "sort_key f [x] = [x]"
  by simp

abbreviation demo_run_at :: "notifyDelivery \<Rightarrow> notifyAttempt list \<Rightarrow> (bool \<times> notifyDelivery) list \<Rightarrow> notifyRun" where
  "demo_run_at d as ws \<equiv> \<lparr>rn_db = demo_at d as, rn_held = ws\<rparr>"

lemma demo_captured:
  "captureNotification demo_hash (\<lambda>_. ''d1'') (\<lambda>_. ''r1'') 1000 demo_event (\<lambda>_. None)
     [blank_delivery\<lparr>nl_ChannelID := ''c1''\<rparr>] [] 0 [] (rn_db (empty_run demo_notify)) = Inr (demo_at demo_queued [])"
  by (simp add: captureNotification_def job_scope_def over_capacity_def live_count_def insert_delivery_def consume_intent_def empty_run_def
      demo_at_def demo_notify_def demo_queued_def blank_delivery_def captured_row_def demo_event_def)

lemma demo_claims:
  "ClaimNotification ''t1'' 2000 (demo_at demo_queued []) = (Some hold1, demo_at hold1 [])"
  "ClaimNotification ''t2'' 9000 (demo_at back1 [refused1]) = (Some hold2, demo_at hold2 [refused1])"
  by (simp_all add: ClaimNotification_def claimable_def upd_deliveries_def update_where_def demo_rows)

lemma demo_starts:
  "BeginNotificationAttempt hold1 2500 (demo_at hold1 []) = Inr (demo_at sent1 [demo_sending ''t1'' 2500])"
  "BeginNotificationAttempt hold2 9500 (demo_at hold2 [refused1]) = Inr (demo_at sent2 [refused1, demo_sending ''t2'' 9500])"
  by (simp_all add: BeginNotificationAttempt_def begins_def upd_deliveries_def update_where_def demo_rows)

lemma demo_finish:
  "FinishNotification (hold1\<lparr>nl_NextAt := 8000\<rparr>) ''retry_wait'' ''destination_retry'' 503 3000 (demo_at sent1 [demo_sending ''t1'' 2500])
     = Inr (True, demo_at back1 [refused1])"
  by (simp add: FinishNotification_def finish_states_def holds_lease_def upd_deliveries_def upd_attempts_def update_where_def demo_rows)

lemma demo_verdict:
  "attempt_verdict demo_channel 0 3000000000 hold1 (AttemptHTTP (\<lambda>_. None) (Reply 503 [])) = (''retry_wait'', ''destination_retry'', 8000)"
  by (simp add: attempt_verdict_def AttemptHTTP_def maxAttempts_def retry_delay_def demo_channel_def has_prefix_def demo_rows)

lemma demo_path:
  "notify_step demo_hash (empty_run demo_notify) (demo_run_at demo_queued [] [])"
  "notify_step demo_hash (demo_run_at demo_queued [] []) (demo_run_at hold1 [] [(False, hold1)])"
  "notify_step demo_hash (demo_run_at hold1 [] [(False, hold1)]) (demo_run_at sent1 [demo_sending ''t1'' 2500] [(True, hold1)])"
  "notify_step demo_hash (demo_run_at sent1 [demo_sending ''t1'' 2500] [(True, hold1)]) (demo_run_at back1 [refused1] [])"
  "notify_step demo_hash (demo_run_at back1 [refused1] []) (demo_run_at hold2 [refused1] [(False, hold2)])"
  "notify_step demo_hash (demo_run_at hold2 [refused1] [(False, hold2)]) (demo_run_at sent2 [refused1, demo_sending ''t2'' 9500] [(True, hold2)])"
proof -
  have fresh: "fresh_token ''t1'' (demo_run_at demo_queued [] [])" "fresh_token ''t2'' (demo_run_at back1 [refused1] [])"
    by (simp_all add: fresh_token_def demo_rows)
  show "notify_step demo_hash (empty_run demo_notify) (demo_run_at demo_queued [] [])"
    using notify_step.capture [OF demo_captured] by (simp add: on_db_def empty_run_def)
  show "notify_step demo_hash (demo_run_at demo_queued [] []) (demo_run_at hold1 [] [(False, hold1)])"
    using notify_step.claim [of "demo_run_at demo_queued [] []", OF _ fresh(1)] demo_claims(1) by (simp add: dispatch_paused_def)
  show "notify_step demo_hash (demo_run_at hold1 [] [(False, hold1)]) (demo_run_at sent1 [demo_sending ''t1'' 2500] [(True, hold1)])"
    using notify_step.start [of hold1 "demo_run_at hold1 [] [(False, hold1)]" 2500] demo_starts(1) by (simp add: let_go_def)
  show "notify_step demo_hash (demo_run_at sent1 [demo_sending ''t1'' 2500] [(True, hold1)]) (demo_run_at back1 [refused1] [])"
    using notify_step.sent [of hold1 "demo_run_at sent1 [demo_sending ''t1'' 2500] [(True, hold1)]", OF _ demo_verdict, of 3000] demo_finish
    by (simp add: let_go_def on_db_def AttemptHTTP_def)
  show "notify_step demo_hash (demo_run_at back1 [refused1] []) (demo_run_at hold2 [refused1] [(False, hold2)])"
    using notify_step.claim [of "demo_run_at back1 [refused1] []", OF _ fresh(2)] demo_claims(2) by (simp add: dispatch_paused_def)
  show "notify_step demo_hash (demo_run_at hold2 [refused1] [(False, hold2)]) (demo_run_at sent2 [refused1, demo_sending ''t2'' 9500] [(True, hold2)])"
    using notify_step.start [of hold2 "demo_run_at hold2 [refused1] [(False, hold2)]" 9500] demo_starts(2) by (simp add: let_go_def)
qed

lemma demo_delivered: "(notify_step demo_hash)\<^sup>*\<^sup>* (empty_run demo_notify) (demo_run_at sent2 [refused1, demo_sending ''t2'' 9500] [(True, hold2)])"
  by (rule rtranclp.rtrancl_into_rtrancl [OF rtranclp.rtrancl_into_rtrancl [OF rtranclp.rtrancl_into_rtrancl
    [OF rtranclp.rtrancl_into_rtrancl [OF rtranclp.rtrancl_into_rtrancl [OF r_into_rtranclp [of "notify_step demo_hash"]]]]]])
    (rule demo_path)+


lemma channel_sends_one_at_a_time_witness: "nl_State sent2 = ''leased'' \<and> 0 \<le> nl_Attempts sent2 \<and> nl_Attempts sent2 \<le> 5"
  using channel_sends_one_at_a_time [OF demo_delivered, of sent2] by (simp add: demo_rows)

end
