(* ===== verification/Notify_Events.thy ===== *)
theory Notify_Events
  imports Notify_Flow
begin

text \<open>
  What the notification tables promise beyond a single delivery: an occurrence is captured once, also after
  retention has dropped its payload, a replay request queues once, and the inbox shows what its reader may
  read now.
\<close>

section \<open>An event is captured once\<close>

definition events_ok :: "notifyDb \<Rightarrow> bool" where
  "events_ok db \<longleftrightarrow> distinct (map ne_ID (nt_events db)) \<and> distinct (map ne_SourceKey (nt_events db)) \<and>
     (\<forall>eid. nt_cycles db (tombstone eid) \<noteq> None \<longrightarrow> (\<exists>e\<in>set (nt_events db). ne_ID e = eid \<and> ne_Payload e = []))"

definition same_event :: "notifyEvent \<Rightarrow> notifyEvent \<Rightarrow> bool" where
  "same_event e ev \<longleftrightarrow> ne_ID e = ne_ID ev \<and> ne_SourceKey e = ne_SourceKey ev \<and> ne_Type e = ne_Type ev \<and>
     ne_ResourceType e = ne_ResourceType ev \<and> ne_ResourceID e = ne_ResourceID ev"

definition recorded :: "notifyHash \<Rightarrow> notifyEvent \<Rightarrow> notifyDb \<Rightarrow> bool" where
  "recorded h ev db \<longleftrightarrow> (\<exists>e\<in>set (nt_events db). same_event e ev \<and>
     (ne_Payload e = ne_Payload ev \<or>
      ne_Payload e = [] \<and> (\<exists>c. nt_cycles db (tombstone (ne_ID ev)) = Some c \<and> cy_Signature c = nv_digest h (ne_Payload ev))))"

definition same_events :: "notifyDb \<Rightarrow> notifyDb \<Rightarrow> bool" where
  "same_events db db' \<longleftrightarrow> nt_events db' = nt_events db \<and> (\<forall>eid. nt_cycles db' (tombstone eid) = nt_cycles db (tombstone eid))"

lemma same_events_keep: "same_events db db' \<Longrightarrow> events_ok db \<Longrightarrow> events_ok db' \<and> (recorded h ev db \<longrightarrow> recorded h ev db')"
  by (simp add: same_events_def events_ok_def recorded_def)

lemma upd_same [simp]: "same_events db (upd_deliveries P f x) = same_events db x" "same_events db (upd_attempts R g x) = same_events db x"
  "same_events db db" "same_events db (close_attempts ms reason Q x) = same_events db x"
  by (simp_all add: same_events_def upd_deliveries_def upd_attempts_def close_attempts_def)

lemma tombstone_inj [simp]: "tombstone a = tombstone b \<longleftrightarrow> a = b"
  by (simp add: tombstone_def)

lemma not_tombstone: "has_prefix cycle ''job-completion:'' \<Longrightarrow> cycle \<noteq> tombstone eid"
  by (auto simp: has_prefix_def tombstone_def)

lemma consume_same:
  "has_prefix cycle ''job-completion:'' \<or> job = 0 \<Longrightarrow> same_events db (consume_intent ms job cycle x) = same_events db x"
  using not_tombstone [of cycle] by (auto simp: same_events_def consume_intent_def split: option.splits)

lemma capture_events:
  assumes c: "captureNotification h' dids rids ms new expected ds users job cycle db = Inr db'"
    and k: "has_prefix cycle ''job-completion:'' \<or> job = 0" and ok: "events_ok db"
  shows "events_ok db' \<and> (recorded h ev db \<longrightarrow> recorded h ev db')"
proof (cases "db' = db")
  case False
  obtain x where x: "db' = consume_intent ms job cycle x" "nt_events x = nt_events db @ [new]" "nt_cycles x = nt_cycles db"
    and new: "\<not> list_ex (\<lambda>e. ne_ID e = ne_ID new) (nt_events db)" "find (\<lambda>e. ne_SourceKey e = ne_SourceKey new) (nt_events db) = None"
    using c False by (auto simp: captureNotification_def split: if_splits option.splits sum.splits)
  have "same_events x db'" using consume_same [OF k, of x] x(1) by simp
  moreover have "events_ok x" using ok new x(2,3) by (auto simp: events_ok_def list_ex_iff find_None_iff)
  moreover have "recorded h ev db \<longrightarrow> recorded h ev x" using x(2,3) by (auto simp: recorded_def)
  ultimately show ?thesis using same_events_keep by blast
qed (use ok in simp)

lemma compact_one:
  assumes "events_ok db" "e \<in> set (nt_events db)" "ne_Payload e \<noteq> []"
  shows "events_ok (compact_event h e db) \<and> (recorded h ev db \<longrightarrow> recorded h ev (compact_event h e db))"
proof -
  have none: "nt_cycles db (tombstone (ne_ID e)) = None"
  proof (rule ccontr)
    assume "nt_cycles db (tombstone (ne_ID e)) \<noteq> None"
    then obtain x where "x \<in> set (nt_events db)" "ne_ID x = ne_ID e" "ne_Payload x = []" using assms(1) by (auto simp: events_ok_def)
    moreover from this have "x = e" using assms(1,2) by (auto simp: events_ok_def distinct_map inj_on_def)
    ultimately show False using assms(3) by simp
  qed
  let ?db = "compact_event h e db" and ?f = "\<lambda>x. if ne_ID x = ne_ID e then x\<lparr>ne_Payload := []\<rparr> else x"
  have ev: "nt_events ?db = map ?f (nt_events db)" by (simp add: compact_event_def update_where_def)
  have cy: "nt_cycles ?db = (nt_cycles db)(tombstone (ne_ID e) \<mapsto>
      \<lparr>cy_Generation = 0, cy_Occurrence = ne_ID e, cy_Signature = nv_digest h (ne_Payload e)\<rparr>)"
    using none by (simp add: compact_event_def)
  have ids: "map ne_ID (nt_events ?db) = map ne_ID (nt_events db)" "map ne_SourceKey (nt_events ?db) = map ne_SourceKey (nt_events db)"
    by (simp_all add: ev)
  have "\<exists>x\<in>set (nt_events ?db). ne_ID x = eid \<and> ne_Payload x = []" if t: "nt_cycles ?db (tombstone eid) \<noteq> None" for eid
  proof (cases "eid = ne_ID e")
    case True
    then show ?thesis using assms(2) unfolding ev by (intro bexI [of _ "?f e"]) auto
  next
    case False
    then obtain x where "x \<in> set (nt_events db)" "ne_ID x = eid" "ne_Payload x = []"
      using t assms(1) by (auto simp: cy events_ok_def)
    then show ?thesis using False unfolding ev by (intro bexI [of _ "?f x"]) auto
  qed
  then have "events_ok ?db" using assms(1) ids by (simp add: events_ok_def)
  moreover have "recorded h ev ?db" if "recorded h ev db"
  proof -
    obtain x where x: "x \<in> set (nt_events db)" "same_event x ev" and p: "ne_Payload x = ne_Payload ev \<or>
        ne_Payload x = [] \<and> (\<exists>c. nt_cycles db (tombstone (ne_ID ev)) = Some c \<and> cy_Signature c = nv_digest h (ne_Payload ev))"
      using \<open>recorded h ev db\<close> by (auto simp: recorded_def)
    show ?thesis
    proof (cases "ne_ID x = ne_ID e")
      case True
      then have "x = e" using assms(1,2) x(1) by (auto simp: events_ok_def distinct_map inj_on_def)
      then have "ne_Payload e = ne_Payload ev" using p assms(3) by auto
      then show ?thesis unfolding recorded_def ev cy using x \<open>x = e\<close>
        by (intro bexI [of _ "?f x"]) (auto simp: same_event_def)
    next
      case False
      then show ?thesis unfolding recorded_def ev cy using x p by (intro bexI [of _ "?f x"]) (auto simp: same_event_def)
    qed
  qed
  ultimately show ?thesis by blast
qed

lemma compact_all:
  assumes "events_ok db" "set es \<subseteq> set (nt_events db)" "distinct (map ne_ID es)" "\<forall>e\<in>set es. ne_Payload e \<noteq> []"
  shows "events_ok (fold (compact_event h) es db) \<and> (recorded h ev db \<longrightarrow> recorded h ev (fold (compact_event h) es db))"
  using assms
proof (induction es arbitrary: db)
  case (Cons e es)
  have one: "events_ok (compact_event h e db) \<and> (recorded h ev db \<longrightarrow> recorded h ev (compact_event h e db))"
    using Cons.prems by (intro compact_one) auto
  have "x \<in> set (nt_events (compact_event h e db))" if "x \<in> set es" for x
  proof -
    have "x \<in> set (nt_events db)" "ne_ID x \<in> ne_ID ` set es" using Cons.prems(2) that by auto
    moreover from this have "ne_ID x \<noteq> ne_ID e" using Cons.prems(3) by auto
    ultimately show ?thesis by (force simp: compact_event_def update_where_def)
  qed
  then show ?case using Cons.IH [of "compact_event h e db"] one Cons.prems by (auto simp: subset_iff)
qed simp

lemma cleanup_events:
  assumes "CleanupNotifications h ms db = Inr db'" "events_ok db"
  shows "events_ok db' \<and> (recorded h ev db \<longrightarrow> recorded h ev db')"
proof (cases "db' = db")
  case False
  obtain b x where x: "db' = compact_events h b x" "same_events db x"
  proof -
    have "same_events db (purge_recipients i (purge_families eids db))" for i eids
      by (simp add: same_events_def purge_recipients_def purge_families_def Let_def)
    moreover obtain b i eids where "db' = compact_events h b (purge_recipients i (purge_families eids db))"
      using assms(1) False unfolding CleanupNotifications_def Let_def by (auto split: if_splits)
    ultimately show ?thesis using that by blast
  qed
  have ok: "events_ok x" "recorded h ev db \<longrightarrow> recorded h ev x" using same_events_keep [OF x(2) assms(2)] by auto
  let ?es = "take 500 (sort_key (\<lambda>e. (ne_CreatedAt e, ne_ID e)) (filter (compactable b x) (nt_events x)))"
  have s: "set ?es \<subseteq> {e \<in> set (nt_events x). compactable b x e}" using set_take_subset by fastforce
  have "distinct (map ne_ID (sort_key (\<lambda>e. (ne_CreatedAt e, ne_ID e)) (filter (compactable b x) (nt_events x))))"
  proof -
    have "distinct (map ne_ID (filter (compactable b x) (nt_events x)))" using ok(1) by (simp add: events_ok_def distinct_map_filter)
    then show ?thesis unfolding distinct_map set_sort by simp
  qed
  then have d: "distinct (map ne_ID ?es)" unfolding take_map [symmetric] by (rule distinct_take)
  have "events_ok (fold (compact_event h) ?es x) \<and> (recorded h ev x \<longrightarrow> recorded h ev (fold (compact_event h) ?es x))"
    using s by (intro compact_all [OF ok(1) _ d]) (auto simp: compactable_def)
  then show ?thesis using ok(2) x(1) by (simp add: compact_events_def)
qed (use assms in simp)

lemma step_events: "notify_step h st st' \<Longrightarrow> events_ok (rn_db st) \<Longrightarrow>
  events_ok (rn_db st') \<and> (recorded h ev (rn_db st) \<longrightarrow> recorded h ev (rn_db st'))"
proof (induction rule: notify_step.induct)
  case (capture dids rids ms ev expected ds users st db)
  then show ?case by (simp add: on_db_def capture_events)
next
  case (capture_job dids rids ms ev expected ds users job cycle st db)
  then show ?case by (simp add: on_db_def capture_events)
next
  case (claim st token ms d db)
  then show ?case by (auto simp: ClaimNotification_def split: list.splits intro!: same_events_keep)
next
  case (refuse d st wv stopping ms0 db0 state reason at_ms ms ok db)
  then show ?case by (intro same_events_keep) (auto simp: FinishNotification_def on_db_def let_go_def split: if_splits)
next
  case (start d st ms db)
  then have "same_events (rn_db st) db"
    by (auto simp: BeginNotificationAttempt_def same_events_def upd_deliveries_def split: if_splits)
  then show ?case using start by (simp add: same_events_keep)
next
  case (sent d st c jitter nowNs res state reason at_ms ms ok db)
  then show ?case by (intro same_events_keep) (auto simp: FinishNotification_def on_db_def let_go_def split: if_splits)
next
  case (lost st w)
  then show ?case by (simp add: let_go_def)
next
  case (recover ms st)
  then show ?case by (intro same_events_keep) (simp_all add: RecoverNotificationLeases_def on_db_def)
next
  case (route_gone ms rid revision st db)
  then have "same_events (rn_db st) db"
    by (auto simp: deleteRoute_def revokeNotificationWork_def same_events_def upd_deliveries_def close_attempts_def upd_attempts_def split: if_splits)
  then show ?case using route_gone by (simp add: same_events_keep on_db_def)
next
  case (channel_gone ms cid revision st db)
  then have "same_events (rn_db st) db"
    by (auto simp: deleteChannel_def without_channel_def revokeNotificationWork_def same_events_def upd_deliveries_def close_attempts_def
        upd_attempts_def split: if_splits option.splits)
  then show ?case using channel_gone by (simp add: same_events_keep on_db_def)
next
  case (account_gone ms name st)
  then have "tombstone eid \<noteq> nv_key h name" for eid by metis
  then have "same_events (rn_db st) (forgetAccount h ms name (rn_db st))"
    by (auto simp: forgetAccount_def Let_def same_events_def upd_deliveries_def close_attempts_def upd_attempts_def)
  then show ?case using account_gone by (simp add: same_events_keep on_db_def)
next
  case (replay fresh did request crev erev rrev confirm ms st d made db)
  then have "same_events (rn_db st) db"
    by (auto simp: ReplayNotification_def Let_def same_events_def split: if_splits option.splits)
  then show ?case using replay by (simp add: same_events_keep on_db_def)
next
  case (review did expected ms st db)
  then show ?case by (intro same_events_keep) (auto simp: reviewNotification_def on_db_def split: if_splits)
next
  case (retention ms st db)
  then show ?case by (simp add: on_db_def cleanup_events)
next
  case (admin st db)
  then show ?case by (intro same_events_keep) (auto simp: other_tables_def same_events_def on_db_def)
qed

text \<open>
  Property C18. An event is captured once. As long as the portal runs, whatever is delivered, purged or compacted,
  reporting the same occurrence again with the same content changes nothing, and with another type or
  resource it is refused.
\<close>

theorem captured_once:
  assumes "(notify_step h)\<^sup>*\<^sup>* (empty_run db0) st" and "\<forall>eid. nt_cycles db0 (tombstone eid) = None"
    and "ev \<in> set (nt_events (rn_db st))" and "(notify_step h)\<^sup>*\<^sup>* st st'"
    and "ne_SourceKey new = ne_SourceKey ev" and "ne_Payload new = ne_Payload ev" and "ne_Payload ev \<noteq> []"
    and "ne_ID new \<noteq> []" and "ne_SourceKey new \<noteq> []" and "ne_Type new \<noteq> []" and "length (ne_Payload new) \<le> 65536"
    and "length ds \<le> 1000" and "length users \<le> 10000"
  shows "captureNotification h dids rids ms new expected ds users 0 [] (rn_db st') =
    (if ne_Type new = ne_Type ev \<and> ne_ResourceType new = ne_ResourceType ev \<and> ne_ResourceID new = ne_ResourceID ev
     then Inr (rn_db st') else Inl NfConflict)"
proof -
  have "events_ok (rn_db (empty_run db0))" using assms(2) by (simp add: events_ok_def empty_run_def)
  with assms(1) have ok: "events_ok (rn_db st)" by (induction rule: rtranclp_induct) (auto dest: step_events)
  have "recorded h ev (rn_db st)" using assms(3) by (auto simp: recorded_def same_event_def)
  with assms(4) have rec: "events_ok (rn_db st') \<and> recorded h ev (rn_db st')"
    by (induction rule: rtranclp_induct) (use ok step_events in blast)+
  then obtain e where e: "e \<in> set (nt_events (rn_db st'))" "same_event e ev"
    and p: "ne_Payload e = ne_Payload ev \<or> ne_Payload e = [] \<and>
      (\<exists>c. nt_cycles (rn_db st') (tombstone (ne_ID ev)) = Some c \<and> cy_Signature c = nv_digest h (ne_Payload ev))"
    by (auto simp: recorded_def)
  have f: "find (\<lambda>e. ne_SourceKey e = ne_SourceKey new) (nt_events (rn_db st')) = Some e"
  proof -
    have "find (\<lambda>e. ne_SourceKey e = ne_SourceKey new) (nt_events (rn_db st')) \<noteq> None"
      using e assms(5) by (auto simp: find_None_iff same_event_def)
    then obtain x where x: "find (\<lambda>e. ne_SourceKey e = ne_SourceKey new) (nt_events (rn_db st')) = Some x" by auto
    then have "x \<in> set (nt_events (rn_db st'))" "ne_SourceKey x = ne_SourceKey e"
      using find_SomeE [OF x] e(2) assms(5) by (auto simp: same_event_def)
    moreover have "inj_on ne_SourceKey (set (nt_events (rn_db st')))" using rec by (simp add: events_ok_def distinct_map)
    ultimately show ?thesis using x e(1) by (simp add: inj_on_def)
  qed
  have "known_event h new e (rn_db st') =
      (if ne_Type new = ne_Type ev \<and> ne_ResourceType new = ne_ResourceType ev \<and> ne_ResourceID new = ne_ResourceID ev then None else Some NfConflict)"
    using p e(2) assms(6,7) by (auto simp: known_event_def same_event_def)
  then show ?thesis using assms(8-13) f by (simp add: captureNotification_def job_scope_def)
qed

section \<open>Replays and the inbox\<close>

lemma find_snoc: "find P xs = None \<Longrightarrow> P d \<Longrightarrow> find P (xs @ [d]) = Some d"
  by (induction xs) (auto split: if_splits)

text \<open>
  A replay request is idempotent: repeating it answers the delivery the first one queued and queues
  nothing, and a delivery that may have been accepted is replayed only with the operator's confirmation.
\<close>

theorem replay_queues_once:
  assumes "ReplayNotification h fresh did request crev erev rrev confirm ms db = Inr (d, made, db')"
  shows "ReplayNotification h fresh' did request crev' erev' rrev' confirm' ms' db' = Inr (d, False, db') \<and>
    (made \<longrightarrow> (\<exists>old\<in>set (nt_deliveries db). nl_ID old = did \<and> nl_LastError old \<noteq> ''account_deleted'' \<and>
       (nl_State old \<in> {''accepted'', ''uncertain''} \<or> nl_LastError old = ''reviewed_uncertain'' \<longrightarrow> confirm)))"
proof (cases made)
  case True
  let ?key = "Some (nv_replayKey h did request)"
  have none: "find (\<lambda>d. nl_ReplayKey d = ?key) (nt_deliveries db) = None"
    and db: "nt_deliveries db' = nt_deliveries db @ [d]" "nl_ReplayKey d = ?key" and len: "\<not> (length request < 8 \<or> 128 < length request)"
    using assms True by (auto simp: ReplayNotification_def Let_def replay_row_def split: if_splits option.splits)
  have "find (\<lambda>d. nl_ReplayKey d = ?key) (nt_deliveries db') = Some d"
    using none db by (simp add: find_snoc)
  then have "ReplayNotification h fresh' did request crev' erev' rrev' confirm' ms' db' = Inr (d, False, db')"
    using len by (simp add: ReplayNotification_def)
  moreover obtain old where "find (\<lambda>d. nl_ID d = did) (nt_deliveries db) = Some old" "replayable confirm old = None"
    using assms True by (auto simp: ReplayNotification_def Let_def split: if_splits option.splits)
  ultimately show ?thesis
    using find_SomeE [of "\<lambda>d. nl_ID d = did"] by (fastforce simp: replayable_def split: if_splits)
next
  case False
  then show ?thesis using assms by (auto simp: ReplayNotification_def Let_def split: if_splits option.splits)
qed


section \<open>Witnesses\<close>

lemma captured_once_witness:
  "captureNotification demo_hash (\<lambda>_. ''d2'') (\<lambda>_. ''r2'') 5 (demo_event\<lparr>ne_ID := ''e2''\<rparr>) (\<lambda>_. None) [] [] 0 []
     (demo_at sent2 [refused1, demo_sending ''t2'' 9500]) = Inr (demo_at sent2 [refused1, demo_sending ''t2'' 9500])"
proof -
  have "demo_event \<in> set (nt_events (rn_db (demo_run_at sent2 [refused1, demo_sending ''t2'' 9500] [(True, hold2)])))" by simp
  from captured_once [OF demo_delivered _ this rtranclp.rtrancl_refl, of "demo_event\<lparr>ne_ID := ''e2''\<rparr>" "[]" "[]"]
  show ?thesis by (simp add: demo_event_def demo_notify_def)
qed

definition demo_closed :: notifyDb where
  "demo_closed = (demo_at (demo_queued\<lparr>nl_State := ''failed''\<rparr>) [])\<lparr>nt_channels := [demo_channel]\<rparr>"

lemma demo_replayed:
  "\<exists>d db. ReplayNotification demo_hash ''d9'' ''d1'' ''request-1'' 1 1 0 False 20000 demo_closed = Inr (d, True, db)"
  by (simp add: ReplayNotification_def demo_closed_def replayable_def replay_config_def live_count_def live_states_def Let_def demo_rows
      demo_channel_def demo_at_def demo_hash_def)

lemma replay_queues_once_witness:
  "\<exists>d db. ReplayNotification demo_hash ''d9'' ''d1'' ''request-1'' 1 1 0 False 20000 demo_closed = Inr (d, True, db) \<and>
     ReplayNotification demo_hash ''d7'' ''d1'' ''request-1'' 1 1 0 False 30000 db = Inr (d, False, db)"
proof -
  obtain d db where r: "ReplayNotification demo_hash ''d9'' ''d1'' ''request-1'' 1 1 0 False 20000 demo_closed = Inr (d, True, db)"
    using demo_replayed by blast
  show ?thesis using replay_queues_once [OF r] r by blast
qed

definition demo_notice :: notifyEvent where
  "demo_notice = demo_event\<lparr>ne_ResourceType := ''operations''\<rparr>"

definition demo_message :: notifyRecipient where
  "demo_message = \<lparr>nr_ID = ''r1'', nr_EventID = ''e1'', nr_Username = ''ann'', nr_ReadAt = 0, nr_DismissedAt = 0\<rparr>"

definition demo_reader :: notifyDb where
  "demo_reader = demo_notify\<lparr>nt_users := [demo_account ''ann'' ''admin'' True 4], nt_events := [demo_notice],
     nt_recipients := [demo_message], nt_channels := [demo_channel\<lparr>nc_Adapter := ''inbox''\<rparr>],
     nt_routes := [\<lparr>no_ID = ''q1'', no_Label = [], no_ChannelID = ''c1'', no_Events = ''report.ingested'', no_RecipientMode = ''grant'',
        no_Enabled = True, no_Mandatory = False, no_Revision = 1\<rparr>],
     nt_grants := [(''q1'', ''u:ann'')]\<rparr>"

definition demo_view :: notifyView where
  "demo_view = \<lparr>wv_hash = demo_hash, wv_panelDate = ''2026-03-03'', wv_access = demo_access,
     wv_reports = \<lparr>rdb_reports = [], rdb_viewers = []\<rparr>, wv_batch = demo_batch, wv_revision = (\<lambda>_. Some 1)\<rparr>"

lemma demo_audience: "userPrincipal ''ann'' = ''u:ann''" "split_on (CHR '','') ''report.ingested'' = [''report.ingested'']"
  by code_simp+

lemma demo_inbox: "notificationInboxItems demo_view 2000 demo_reader ''ann'' = Inr [(demo_message, demo_notice)]"
proof -
  have "inbox_candidates demo_reader ''ann'' = [(demo_message, demo_notice)]"
    by (simp add: inbox_candidates_def demo_reader_def demo_message_def demo_notice_def demo_event_def)
  moreover have "notificationMayRead demo_view demo_reader ''ann'' demo_notice"
    by (simp add: notificationMayRead_def find_account_def demo_reader_def demo_account_def demo_notice_def accountExpired_def IsAdmin_role)
  moreover have "in_audience demo_view demo_reader ''ann'' demo_notice"
    by (simp add: in_audience_def inbox_kinds_def notificationRouteAllows_def demo_audience demo_reader_def demo_notice_def demo_event_def demo_channel_def)
  ultimately show ?thesis by (simp add: notificationInboxItems_def demo_notice_def demo_event_def)
qed


section \<open>One rule that cannot be routed\<close>

lemma route_rules_stop:
  assumes "r \<in> set rs" and "\<And>acc. \<exists>e. route_rule wv db ev r acc = Inl e"
  shows "\<exists>e. route_rules wv db ev rs acc = Inl e"
  using assms(1)
proof (induction rs arbitrary: acc)
  case (Cons x rs)
  show ?case
  proof (cases "x = r")
    case True
    then show ?thesis using assms(2) [of acc] by auto
  next
    case False
    then show ?thesis using Cons by (simp split: sum.split)
  qed
qed simp

text \<open>
  Property C40. One enabled rule for the kind of an event whose channel is missing or cannot be opened makes the routing
  of the event fail, whatever the other rules and destinations are: nothing is captured for anyone.
\<close>

theorem unavailable_rule_stops_event:
  assumes "r \<in> set (nt_routes db)" and "no_Enabled r" and "notificationSelects (no_Events r) (ne_Type ev)"
    and "case find (\<lambda>c. nc_ID c = no_ChannelID r) (nt_channels db) of
           None \<Rightarrow> True | Some c \<Rightarrow> nc_Enabled c \<and> wv_revision wv c = None"
  shows "\<exists>e. routeNotification wv db ev deliveries = Inl e"
proof -
  have "\<exists>e. route_rule wv db ev r acc = Inl e" for acc
    using assms(2-4) by (auto simp: route_rule_def split: option.splits)
  then show ?thesis
    using route_rules_stop [of r "sort_key no_ID (nt_routes db)" wv db ev] assms(1)
    by (simp add: routeNotification_def)
qed

definition demo_rule :: notifyRoute where
  "demo_rule = \<lparr>no_ID = ''r1'', no_Label = ''ops'', no_ChannelID = ''gone'', no_Events = ''batch.finished'',
     no_RecipientMode = ''destination'', no_Enabled = True, no_Mandatory = False, no_Revision = 1\<rparr>"

lemma unavailable_rule_stops_event_witness:
  "\<exists>e. routeNotification demo_view (demo_notify\<lparr>nt_routes := [demo_rule]\<rparr>) (demo_event\<lparr>ne_Type := ''batch.finished''\<rparr>) [demo_queued] = Inl e"
proof -
  have "demo_rule \<in> set (nt_routes (demo_notify\<lparr>nt_routes := [demo_rule]\<rparr>))" by simp
  moreover have "no_Enabled demo_rule" by (simp add: demo_rule_def)
  moreover have "notificationSelects (no_Events demo_rule) (ne_Type (demo_event\<lparr>ne_Type := ''batch.finished''\<rparr>))"
    by (simp add: demo_rule_def) code_simp
  moreover have "case find (\<lambda>c. nc_ID c = no_ChannelID demo_rule) (nt_channels (demo_notify\<lparr>nt_routes := [demo_rule]\<rparr>)) of
      None \<Rightarrow> True | Some c \<Rightarrow> nc_Enabled c \<and> wv_revision demo_view c = None"
    by (simp add: demo_rule_def demo_notify_def demo_channel_def)
  ultimately show ?thesis by (rule unavailable_rule_stops_event)
qed

end
