(* ===== verification/Auth_Tokens.thy ===== *)
theory Auth_Tokens
  imports Row_Table
begin

text \<open>
  What may be used once (authreq.go, the codes of totp.go, PurgeExpiredAuthState of secretbox.go): pending
  sign-ins, SAML assertions, time steps of an authenticator and recovery codes. A claim is a read followed
  by a conditional write; \<open>auth_step\<close> interleaves the reads and writes of any number of callers. Times are
  seconds, \<open>h\<close> is the hash of a key, and the codes an authenticator shows (\<open>gen\<close>) are an argument.
\<close>

section \<open>The tables\<close>

record authRequest =
  aq_Token :: string
  aq_ProviderID :: int
  aq_Kind :: string
  aq_ReqID :: string
  aq_Nonce :: string
  aq_Verifier :: string
  aq_Username :: string
  aq_Target :: string
  aq_Purpose :: string

text \<open>The columns of an account that belong to its second factor; the list of recovery codes may be NULL.\<close>

record userFactor =
  uf_Username :: string
  uf_Enabled :: bool
  uf_SecretEnc :: string
  uf_Codes :: "string list option"

record authDb =
  ak_requests :: "(authRequest \<times> int) list"
  ak_seen :: "(string \<times> int) list"
  ak_factors :: "userFactor list"

section \<open>Pending sign-ins\<close>

definition CreateAuthRequest :: "authRequest \<Rightarrow> int \<Rightarrow> authDb \<Rightarrow> authDb option" where
  "CreateAuthRequest r expires db =
     (if list_ex (\<lambda>(q, _). aq_Token q = aq_Token r) (ak_requests db) then None
      else Some (db\<lparr>ak_requests := ak_requests db @ [(r, expires)]\<rparr>))"

definition live_request :: "string \<Rightarrow> int \<Rightarrow> authRequest \<times> int \<Rightarrow> bool" where
  "live_request token now = (\<lambda>(r, e). aq_Token r = token \<and> now < e)"

definition read_request :: "string \<Rightarrow> int \<Rightarrow> authDb \<Rightarrow> authRequest option" where
  "read_request token now db =
     (if token = [] then None else map_option fst (find (live_request token now) (ak_requests db)))"

definition delete_request :: "string \<Rightarrow> int \<Rightarrow> authDb \<Rightarrow> nat \<times> authDb" where
  "delete_request token now db =
     (length (filter (live_request token now) (ak_requests db)),
      db\<lparr>ak_requests := filter (\<lambda>q. \<not> live_request token now q) (ak_requests db)\<rparr>)"

definition ConsumeAuthRequest :: "string \<Rightarrow> int \<Rightarrow> authDb \<Rightarrow> authRequest option \<times> authDb" where
  "ConsumeAuthRequest token now db =
     (case read_request token now db of
        None \<Rightarrow> (None, db)
      | Some r \<Rightarrow> (case delete_request token now db of (n, db') \<Rightarrow> (if n = 1 then Some r else None, db')))"

text \<open>A look that claims nothing; it does not read what the request is for.\<close>

definition PeekAuthRequest :: "string \<Rightarrow> int \<Rightarrow> authDb \<Rightarrow> authRequest option" where
  "PeekAuthRequest token now db = map_option (\<lambda>r. r\<lparr>aq_Purpose := []\<rparr>) (read_request token now db)"

section \<open>Single sightings\<close>

definition seen_key :: "(string \<Rightarrow> string) \<Rightarrow> string \<Rightarrow> string \<Rightarrow> string" where
  "seen_key h idp aid = h (idp @ CHR 0x00 # aid)"

definition MarkAssertionSeen :: "(string \<Rightarrow> string) \<Rightarrow> string \<Rightarrow> string \<Rightarrow> int \<Rightarrow> authDb \<Rightarrow> bool \<times> authDb" where
  "MarkAssertionSeen h idp aid expires db =
     (if idp = [] \<or> aid = [] \<or> list_ex (\<lambda>s. fst s = seen_key h idp aid) (ak_seen db) then (False, db)
      else (True, db\<lparr>ak_seen := ak_seen db @ [(seen_key h idp aid, expires)]\<rparr>))"

definition PurgeExpiredAuthState :: "int \<Rightarrow> authDb \<Rightarrow> authDb" where
  "PurgeExpiredAuthState now db =
     db\<lparr>ak_requests := filter (\<lambda>(_, e). \<not> e < now) (ak_requests db), ak_seen := filter (\<lambda>(_, e). \<not> e < now) (ak_seen db)\<rparr>"

text \<open>The time step whose code was entered: the current one, the one before, the one after, in this order.\<close>

definition matched_step :: "(string \<Rightarrow> int \<Rightarrow> string option) \<Rightarrow> string \<Rightarrow> string \<Rightarrow> int \<Rightarrow> int option" where
  "matched_step gen secret code now =
     map_option (\<lambda>d. (now + d) div 30) (find (\<lambda>d. gen secret (now + d) = Some code) [0, -30, 30])"

definition totp_key :: "(string \<Rightarrow> string) \<Rightarrow> string \<Rightarrow> int \<Rightarrow> string" where
  "totp_key h user k = seen_key h (''totp:'' @ user) (itoa k)"

definition totpValid ::
  "(string \<Rightarrow> string) \<Rightarrow> (string \<Rightarrow> int \<Rightarrow> string option) \<Rightarrow> string \<Rightarrow> string \<Rightarrow> string \<Rightarrow> int \<Rightarrow> authDb \<Rightarrow> bool \<times> authDb" where
  "totpValid h gen user secret code now db =
     (if secret = [] \<or> trim_space code = [] then (False, db)
      else case matched_step gen secret (trim_space code) now of
             None \<Rightarrow> (False, db)
           | Some k \<Rightarrow> MarkAssertionSeen h (''totp:'' @ user) (itoa k) (now + 120) db)"

section \<open>Recovery codes\<close>

definition recoveryCodeCount :: nat where "recoveryCodeCount = 10"

definition hashRecoveryCode :: "(string \<Rightarrow> string) \<Rightarrow> string \<Rightarrow> string" where
  "hashRecoveryCode h code = h (trim_space (to_lower code))"

definition newRecoveryCodes :: "(string \<Rightarrow> string) \<Rightarrow> (nat \<Rightarrow> string) \<Rightarrow> string list \<times> string list" where
  "newRecoveryCodes h draw =
     (let plain = map (\<lambda>i. to_lower (draw i)) [0..<recoveryCodeCount] in (plain, map (hashRecoveryCode h) plain))"

definition codes_of :: "userFactor \<Rightarrow> string list" where
  "codes_of f = (case uf_Codes f of None \<Rightarrow> [] | Some cs \<Rightarrow> cs)"

definition find_factor :: "string \<Rightarrow> authDb \<Rightarrow> userFactor option" where
  "find_factor user db = find (\<lambda>f. uf_Username f = user) (ak_factors db)"

definition RecoveryCodes :: "string \<Rightarrow> authDb \<Rightarrow> string list" where
  "RecoveryCodes user db = (case find_factor user db of None \<Rightarrow> [] | Some f \<Rightarrow> codes_of f)"

definition SwapRecoveryCodes :: "string \<Rightarrow> string list \<Rightarrow> string list \<Rightarrow> authDb \<Rightarrow> bool \<times> authDb" where
  "SwapRecoveryCodes user before after db =
     (let hit = (\<lambda>f. uf_Username f = user \<and> codes_of f = before)
      in (length (filter hit (ak_factors db)) = 1,
          db\<lparr>ak_factors := update_where hit (\<lambda>f. f\<lparr>uf_Codes := Some after\<rparr>) (ak_factors db)\<rparr>))"

definition consumeRecoveryCode :: "(string \<Rightarrow> string) \<Rightarrow> string \<Rightarrow> string \<Rightarrow> authDb \<Rightarrow> bool \<times> authDb" where
  "consumeRecoveryCode h user code db =
     (if trim_space code = [] then (False, db)
      else let raw = RecoveryCodes user db; want = hashRecoveryCode h code
           in if want \<in> set raw then SwapRecoveryCodes user raw (remove1 want raw) db else (False, db))"

definition upd_factor :: "string \<Rightarrow> (userFactor \<Rightarrow> userFactor) \<Rightarrow> authDb \<Rightarrow> authDb" where
  "upd_factor user f db = db\<lparr>ak_factors := update_where (\<lambda>r. uf_Username r = user) f (ak_factors db)\<rparr>"

definition SetTOTPSecret :: "string \<Rightarrow> string \<Rightarrow> authDb \<Rightarrow> authDb" where
  "SetTOTPSecret user enc = upd_factor user (\<lambda>f. f\<lparr>uf_SecretEnc := enc\<rparr>)"

definition EnableTOTP :: "string \<Rightarrow> string list \<Rightarrow> authDb \<Rightarrow> authDb" where
  "EnableTOTP user hashed = upd_factor user (\<lambda>f. f\<lparr>uf_Enabled := True, uf_Codes := Some hashed\<rparr>)"

definition DisableTOTP :: "string \<Rightarrow> authDb \<Rightarrow> authDb" where
  "DisableTOTP user = upd_factor user (\<lambda>f. f\<lparr>uf_Enabled := False, uf_SecretEnc := [], uf_Codes := None\<rparr>)"

definition forgetFactors :: "string \<Rightarrow> authDb \<Rightarrow> authDb" where
  "forgetFactors user db =
     db\<lparr>ak_requests := filter (\<lambda>(r, _). aq_Username r \<noteq> user) (ak_requests db),
        ak_factors := filter (\<lambda>f. uf_Username f \<noteq> user) (ak_factors db)\<rparr>"

section \<open>Any number of callers\<close>

text \<open>
  A run remembers the tokens created, what the callers have read and not yet claimed, what was claimed, and
  for the codes what was issued and what was accepted. A new token was never used before: it is 128 random
  bits. The clock does not go back; a claim compares
  the expiry with the moment its caller began.
\<close>

record authRun =
  ag_db :: authDb
  ag_now :: int
  ag_made :: "string list"
  ag_reads :: "(string \<times> authRequest) list"
  ag_won :: "authRequest list"
  ag_marks :: "(string \<times> int \<times> int) list"
  ag_steps :: "(string \<times> int) list"
  ag_looks :: "(string \<times> string list \<times> string) list"
  ag_issued :: "(string \<times> string) list"
  ag_spent :: "(string \<times> string) list"

inductive auth_step :: "(string \<Rightarrow> string) \<Rightarrow> (string \<Rightarrow> int \<Rightarrow> string option) \<Rightarrow> authRun \<Rightarrow> authRun \<Rightarrow> bool" for h gen where
  wait: "ag_now st \<le> t \<Longrightarrow> auth_step h gen st (st\<lparr>ag_now := t\<rparr>)"
| create: "aq_Token r \<notin> set (ag_made st) \<Longrightarrow> CreateAuthRequest r e (ag_db st) = Some db \<Longrightarrow>
    auth_step h gen st (st\<lparr>ag_db := db, ag_made := aq_Token r # ag_made st\<rparr>)"
| look_up: "read_request token (ag_now st) (ag_db st) = Some r \<Longrightarrow>
    auth_step h gen st (st\<lparr>ag_reads := (token, r) # ag_reads st\<rparr>)"
| claim: "(token, r) \<in> set (ag_reads st) \<Longrightarrow> t \<le> ag_now st \<Longrightarrow> delete_request token t (ag_db st) = (n, db) \<Longrightarrow>
    auth_step h gen st (st\<lparr>ag_db := db, ag_reads := remove1 (token, r) (ag_reads st),
      ag_won := (if n = 1 then r # ag_won st else ag_won st)\<rparr>)"
| mark: "MarkAssertionSeen h idp aid e (ag_db st) = (ok, db) \<Longrightarrow>
    auth_step h gen st (st\<lparr>ag_db := db,
      ag_marks := (if ok then (seen_key h idp aid, e, ag_now st) # ag_marks st else ag_marks st)\<rparr>)"
| totp: "totpValid h gen user secret code (ag_now st) (ag_db st) = (ok, db) \<Longrightarrow>
    matched_step gen secret (trim_space code) (ag_now st) = Some k \<Longrightarrow>
    auth_step h gen st (st\<lparr>ag_db := db,
      ag_marks := (if ok then (totp_key h user k, ag_now st + 120, ag_now st) # ag_marks st else ag_marks st),
      ag_steps := (if ok then (user, k) # ag_steps st else ag_steps st)\<rparr>)"
| look_code: "hashRecoveryCode h code \<in> set (RecoveryCodes user (ag_db st)) \<Longrightarrow>
    auth_step h gen st (st\<lparr>ag_looks := (user, RecoveryCodes user (ag_db st), hashRecoveryCode h code) # ag_looks st\<rparr>)"
| swap: "(user, raw, want) \<in> set (ag_looks st) \<Longrightarrow> SwapRecoveryCodes user raw (remove1 want raw) (ag_db st) = (ok, db) \<Longrightarrow>
    auth_step h gen st (st\<lparr>ag_db := db, ag_looks := remove1 (user, raw, want) (ag_looks st),
      ag_spent := (if ok then (user, want) # ag_spent st else ag_spent st)\<rparr>)"
| secret: "auth_step h gen st (st\<lparr>ag_db := SetTOTPSecret user enc (ag_db st)\<rparr>)"
| enable: "auth_step h gen st (st\<lparr>ag_db := EnableTOTP user hashed (ag_db st), ag_issued := map (Pair user) hashed @ ag_issued st\<rparr>)"
| disable: "auth_step h gen st (st\<lparr>ag_db := DisableTOTP user (ag_db st)\<rparr>)"
| register: "\<forall>f\<in>set (ak_factors (ag_db st)). uf_Username f \<noteq> user \<Longrightarrow>
    auth_step h gen st (st\<lparr>ag_db := (ag_db st)\<lparr>ak_factors := ak_factors (ag_db st) @
      [\<lparr>uf_Username = user, uf_Enabled = False, uf_SecretEnc = [], uf_Codes = None\<rparr>]\<rparr>\<rparr>)"
| account_gone: "auth_step h gen st (st\<lparr>ag_db := forgetFactors user (ag_db st)\<rparr>)"
| purge: "auth_step h gen st (st\<lparr>ag_db := PurgeExpiredAuthState (ag_now st) (ag_db st)\<rparr>)"

section \<open>A pending sign-in is claimed once\<close>

definition tokens_of :: "authDb \<Rightarrow> string list" where
  "tokens_of db = map (aq_Token \<circ> fst) (ak_requests db)"

definition requests_ok :: "authRun \<Rightarrow> bool" where
  "requests_ok st \<longleftrightarrow>
     distinct (tokens_of (ag_db st)) \<and> set (tokens_of (ag_db st)) \<subseteq> set (ag_made st) \<and>
     distinct (map aq_Token (ag_won st)) \<and> aq_Token ` set (ag_won st) \<subseteq> set (ag_made st) \<and>
     set (tokens_of (ag_db st)) \<inter> aq_Token ` set (ag_won st) = {} \<and>
     (\<forall>(t, r)\<in>set (ag_reads st). aq_Token r = t \<and> t \<in> set (ag_made st))"

lemma same_requests_ok:
  assumes "requests_ok st" and "ak_requests db = filter P (ak_requests (ag_db st))"
  shows "requests_ok (st\<lparr>ag_db := db\<rparr>)"
proof -
  have "distinct (tokens_of db)" "set (tokens_of db) \<subseteq> set (tokens_of (ag_db st))"
    using assms by (auto simp: requests_ok_def tokens_of_def distinct_map intro: inj_on_subset)
  then show ?thesis using assms(1) unfolding requests_ok_def by auto
qed

lemmas same_requests = same_requests_ok [where P = "\<lambda>_. True", simplified]

lemma requests_bookkeeping:
  "requests_ok (st\<lparr>ag_now := t\<rparr>) = requests_ok st" "requests_ok (st\<lparr>ag_marks := ms\<rparr>) = requests_ok st"
  "requests_ok (st\<lparr>ag_steps := ss\<rparr>) = requests_ok st" "requests_ok (st\<lparr>ag_looks := ls\<rparr>) = requests_ok st"
  "requests_ok (st\<lparr>ag_issued := is\<rparr>) = requests_ok st" "requests_ok (st\<lparr>ag_spent := sp\<rparr>) = requests_ok st"
  by (simp_all add: requests_ok_def)

lemma marked_requests: "MarkAssertionSeen h idp aid e db = (ok, db') \<Longrightarrow> ak_requests db' = ak_requests db"
  by (auto simp: MarkAssertionSeen_def split: if_splits)

lemma totp_requests: "totpValid h gen user secret code now db = (ok, db') \<Longrightarrow> ak_requests db' = ak_requests db"
  by (auto simp: totpValid_def dest: marked_requests split: if_splits option.splits)

lemma swapped_tables:
  "SwapRecoveryCodes user a b db = (ok, db') \<Longrightarrow> ak_requests db' = ak_requests db \<and> ak_seen db' = ak_seen db"
  by (auto simp: SwapRecoveryCodes_def Let_def)

lemma factor_tables [simp]:
  "ak_requests (upd_factor user f db) = ak_requests db" "ak_seen (upd_factor user f db) = ak_seen db"
  by (simp_all add: upd_factor_def)

lemma found: "find P xs = Some x \<Longrightarrow> x \<in> set xs \<and> P x"
  by (auto simp: find_Some_iff)

lemma read_row:
  assumes "read_request token now db = Some r"
  shows "aq_Token r = token \<and> token \<in> set (tokens_of db)"
proof -
  obtain q where q: "find (live_request token now) (ak_requests db) = Some q" "r = fst q"
    using assms by (auto simp: read_request_def split: if_splits)
  have "q \<in> set (ak_requests db)" "aq_Token (fst q) = token"
    using found [OF q(1)] by (cases q, simp add: live_request_def)+
  then show ?thesis using q(2) by (auto simp: tokens_of_def)
qed

lemma claimed_row:
  assumes "delete_request token now db = (Suc 0, db')"
  shows "token \<in> set (tokens_of db)" "token \<notin> set (tokens_of db') \<or> \<not> distinct (tokens_of db)"
proof -
  have "length (filter (live_request token now) (ak_requests db)) = Suc 0" using assms by (simp add: delete_request_def)
  then obtain q where q: "q \<in> set (ak_requests db)" "live_request token now q"
    by (metis filter_empty_conv length_0_conv nat.distinct(1))
  have "aq_Token (fst q) = token" using q(2) by (cases q) (simp add: live_request_def)
  then show "token \<in> set (tokens_of db)" using q(1) by (auto simp: tokens_of_def)
  show "token \<notin> set (tokens_of db') \<or> \<not> distinct (tokens_of db)"
  proof (rule ccontr)
    assume "\<not> ?thesis"
    then obtain p where p: "p \<in> set (ak_requests db)" "\<not> live_request token now p" "aq_Token (fst p) = token"
      and d: "distinct (tokens_of db)" using assms by (auto simp: tokens_of_def delete_request_def)
    have "aq_Token (fst q) = token" using q(2) by (cases q) (simp add: live_request_def)
    moreover have "inj_on (aq_Token \<circ> fst) (set (ak_requests db))" using d by (simp add: tokens_of_def distinct_map)
    ultimately have "p = q" using p q(1) by (simp add: inj_on_def)
    then show False using p(2) q(2) by simp
  qed
qed

lemma step_requests: "auth_step h gen st st' \<Longrightarrow> requests_ok st \<Longrightarrow> requests_ok st'"
proof (induction rule: auth_step.induct)
  case (create r st e db)
  then show ?case by (fastforce simp: requests_ok_def CreateAuthRequest_def tokens_of_def split: if_splits)
next
  case (look_up token st r)
  then show ?case using look_up.prems read_row [OF look_up.hyps] by (auto simp: requests_ok_def)
next
  case (claim token r st t n db)
  have rows: "ak_requests db = filter (\<lambda>q. \<not> live_request token t q) (ak_requests (ag_db st))"
    using claim.hyps(3) by (auto simp: delete_request_def)
  from same_requests_ok [OF claim.prems rows] have ok: "requests_ok (st\<lparr>ag_db := db\<rparr>)" .
  have made: "aq_Token r = token" "token \<in> set (ag_made st)" using claim by (auto simp: requests_ok_def)
  have sub: "set (remove1 (token, r) (ag_reads st)) \<subseteq> set (ag_reads st)" by (rule set_remove1_subset)
  show ?case
  proof (cases "n = 1")
    case True
    from claimed_row [of token t "ag_db st" db] claim.hyps(3) True
    have "token \<in> set (tokens_of (ag_db st))" "token \<notin> set (tokens_of db)"
      using claim.prems by (auto simp: requests_ok_def)
    then show ?thesis using ok made sub claim.prems True by (auto simp: requests_ok_def)
  next
    case False
    then show ?thesis using ok sub by (auto simp: requests_ok_def)
  qed
next
  case (mark idp aid e st ok db)
  then show ?case using same_requests [OF mark.prems marked_requests [OF mark.hyps]] by (simp add: requests_ok_def)
next
  case (totp user secret code st ok db k)
  then show ?case using same_requests [OF totp.prems totp_requests [OF totp.hyps(1)]] by (simp add: requests_ok_def)
next
  case (swap user raw want st ok db)
  then show ?case using same_requests [OF swap.prems] swapped_tables [OF swap.hyps(2)] by (simp add: requests_ok_def)
next
  case (account_gone st user)
  then show ?case by (intro same_requests_ok) (simp_all add: forgetFactors_def)
next
  case (purge st)
  then show ?case by (intro same_requests_ok) (simp_all add: PurgeExpiredAuthState_def)
qed (auto simp: requests_ok_def tokens_of_def SetTOTPSecret_def EnableTOTP_def DisableTOTP_def)

lemma reach_requests:
  assumes "(auth_step h gen)\<^sup>*\<^sup>* st st'" "requests_ok st"
  shows "requests_ok st'"
  using assms by (induction rule: rtranclp_induct) (auto intro: step_requests)

section \<open>Marks and time steps\<close>

definition mark_kept :: "(string \<times> int) set \<Rightarrow> int \<Rightarrow> string \<times> int \<times> int \<Rightarrow> bool" where
  "mark_kept seen now m \<longleftrightarrow> snd (snd m) \<le> now \<and> ((fst m, fst (snd m)) \<in> seen \<or> fst (snd m) < now)"

lemma mark_kept_mono: "mark_kept seen now m \<Longrightarrow> seen \<subseteq> seen' \<Longrightarrow> now \<le> now' \<Longrightarrow> mark_kept seen' now' m"
  by (auto simp: mark_kept_def)

definition marks_ok :: "authRun \<Rightarrow> bool" where
  "marks_ok st \<longleftrightarrow>
     (\<forall>m\<in>set (ag_marks st). mark_kept (set (ak_seen (ag_db st))) (ag_now st) m) \<and>
     sorted_wrt (\<lambda>m' m. fst m' = fst m \<longrightarrow> fst (snd m) < snd (snd m')) (ag_marks st)"

definition steps_ok :: "(string \<Rightarrow> string) \<Rightarrow> authRun \<Rightarrow> bool" where
  "steps_ok h st \<longleftrightarrow>
     (\<forall>(u, k)\<in>set (ag_steps st). \<exists>t. (totp_key h u k, t + 120, t) \<in> set (ag_marks st) \<and> 30 * k \<le> t + 30) \<and>
     distinct (ag_steps st)"

lemma matched_window:
  assumes "matched_step gen secret code now = Some k"
  shows "30 * k \<le> now + 30 \<and> now < 30 * k + 60"
proof -
  obtain d where d: "find (\<lambda>d. gen secret (now + d) = Some code) [0, -30, 30] = Some d" "k = (now + d) div 30"
    using assms unfolding matched_step_def by blast
  from found [OF d(1)] have "-30 \<le> d \<and> d \<le> 30" by auto
  then show ?thesis using d(2) by linarith
qed

lemma mark_taken:
  assumes "MarkAssertionSeen h idp aid e db = (True, db')"
  shows "ak_seen db' = ak_seen db @ [(seen_key h idp aid, e)] \<and> seen_key h idp aid \<notin> fst ` set (ak_seen db)"
  using assms by (auto simp: MarkAssertionSeen_def list_ex_iff split: if_splits)

lemma mark_refused: "MarkAssertionSeen h idp aid e db = (False, db') \<Longrightarrow> db' = db"
  by (auto simp: MarkAssertionSeen_def split: if_splits)

lemma marks_accept:
  assumes ok: "marks_ok st" and seen: "ak_seen db = ak_seen (ag_db st) @ [(key, e)]" "key \<notin> fst ` set (ak_seen (ag_db st))"
  shows "marks_ok (st\<lparr>ag_db := db, ag_marks := (key, e, ag_now st) # ag_marks st\<rparr>)"
proof -
  let ?seen = "set (ak_seen (ag_db st))"
  have kept: "mark_kept ?seen (ag_now st) m" if "m \<in> set (ag_marks st)" for m using ok that by (simp add: marks_ok_def)
  have older: "fst (snd m) < ag_now st" if m: "m \<in> set (ag_marks st)" and k: "fst m = key" for m
  proof -
    have "fst m \<notin> fst ` ?seen" using k seen(2) by simp
    then have "(fst m, fst (snd m)) \<notin> ?seen" by (metis fst_conv image_eqI)
    then show ?thesis using kept [OF m] by (simp add: mark_kept_def)
  qed
  have all: "mark_kept (set (ak_seen db)) (ag_now st) m" if "m \<in> set (ag_marks st)" for m
    by (rule mark_kept_mono [OF kept [OF that]]) (simp_all add: seen(1) subset_insertI)
  have self: "mark_kept (set (ak_seen db)) (ag_now st) (key, e, ag_now st)" by (simp add: mark_kept_def seen(1))
  show ?thesis
    unfolding marks_ok_def using all self older ok [unfolded marks_ok_def, THEN conjunct2] by fastforce
qed

lemma marks_same: "marks_ok st \<Longrightarrow> ak_seen db = ak_seen (ag_db st) \<Longrightarrow> marks_ok (st\<lparr>ag_db := db\<rparr>)"
  by (simp add: marks_ok_def)

lemma step_marks: "auth_step h gen st st' \<Longrightarrow> marks_ok st \<Longrightarrow> marks_ok st'"
proof (induction rule: auth_step.induct)
  case (wait st t)
  then show ?case by (auto simp: marks_ok_def elim: mark_kept_mono)
next
  case (create r st e db)
  then show ?case by (auto simp: marks_ok_def CreateAuthRequest_def split: if_splits)
next
  case (claim token r st t n db)
  then show ?case by (auto simp: marks_ok_def delete_request_def)
next
  case (mark idp aid e st ok db)
  show ?case
  proof (cases ok)
    case True
    with mark.hyps have "MarkAssertionSeen h idp aid e (ag_db st) = (True, db)" by simp
    from mark_taken [OF this] have "marks_ok (st\<lparr>ag_db := db, ag_marks := (seen_key h idp aid, e, ag_now st) # ag_marks st\<rparr>)"
      using marks_accept [OF mark.prems] by blast
    then show ?thesis using True by simp
  next
    case False
    then show ?thesis using mark mark_refused by fastforce
  qed
next
  case (totp user secret code st ok db k)
  have m: "MarkAssertionSeen h (''totp:'' @ user) (itoa k) (ag_now st + 120) (ag_db st) = (ok, db) \<or> \<not> ok \<and> db = ag_db st"
    using totp.hyps by (auto simp: totpValid_def split: if_splits)
  show ?case
  proof (cases ok)
    case True
    with m have "MarkAssertionSeen h (''totp:'' @ user) (itoa k) (ag_now st + 120) (ag_db st) = (True, db)" by simp
    from mark_taken [OF this] have "marks_ok (st\<lparr>ag_db := db, ag_marks := (totp_key h user k, ag_now st + 120, ag_now st) # ag_marks st\<rparr>)"
      using marks_accept [OF totp.prems] unfolding totp_key_def by blast
    then show ?thesis using True by (simp add: marks_ok_def)
  next
    case False
    with m have "db = ag_db st" by (auto dest: mark_refused)
    then show ?thesis using False totp.prems by simp
  qed
next
  case (swap user raw want st ok db)
  then show ?case using marks_same [OF swap.prems] swapped_tables [OF swap.hyps(2)] by (auto simp: marks_ok_def)
next
  case (purge st)
  then show ?case by (auto simp: marks_ok_def mark_kept_def PurgeExpiredAuthState_def)
qed (auto simp: marks_ok_def SetTOTPSecret_def EnableTOTP_def DisableTOTP_def forgetFactors_def)

lemma steps_same: "steps_ok h st \<Longrightarrow> ag_steps st' = ag_steps st \<Longrightarrow> set (ag_marks st) \<subseteq> set (ag_marks st') \<Longrightarrow> steps_ok h st'"
  unfolding steps_ok_def by (simp add: split_beta) blast

lemma steps_kept: "auth_step h gen st st' \<Longrightarrow> marks_ok st \<Longrightarrow> steps_ok h st \<Longrightarrow> steps_ok h st'"
proof (induction rule: auth_step.induct)
  case (totp user secret code st ok db k)
  show ?case
  proof (cases ok)
    case False
    then show ?thesis using totp.prems(2) by (simp add: steps_ok_def)
  next
    case True
    let ?key = "totp_key h user k"
    have m: "MarkAssertionSeen h (''totp:'' @ user) (itoa k) (ag_now st + 120) (ag_db st) = (True, db)"
      using totp.hyps True by (auto simp: totpValid_def split: if_splits)
    have w: "30 * k \<le> ag_now st + 30" "ag_now st < 30 * k + 60" using matched_window [OF totp.hyps(2)] by simp_all
    have fresh: "(user, k) \<notin> set (ag_steps st)"
    proof
      assume "(user, k) \<in> set (ag_steps st)"
      then obtain t where t: "(?key, t + 120, t) \<in> set (ag_marks st)" "30 * k \<le> t + 30"
        using totp.prems(2) by (auto simp: steps_ok_def)
      then have "(?key, t + 120) \<in> set (ak_seen (ag_db st)) \<or> t + 120 < ag_now st" using totp.prems(1) by (force simp: marks_ok_def mark_kept_def)
      then show False
      proof
        assume "(?key, t + 120) \<in> set (ak_seen (ag_db st))"
        then have "?key \<in> fst ` set (ak_seen (ag_db st))" by (metis fst_conv image_eqI)
        then show False using mark_taken [OF m] by (simp add: totp_key_def)
      next
        assume "t + 120 < ag_now st"
        then show False using w(2) t(2) by linarith
      qed
    qed
    let ?st = "st\<lparr>ag_db := db, ag_marks := (?key, ag_now st + 120, ag_now st) # ag_marks st\<rparr>"
    have "steps_ok h ?st" using steps_same [OF totp.prems(2), of ?st] by auto
    then show ?thesis using True w(1) fresh by (auto simp: steps_ok_def)
  qed
qed (erule steps_same; auto)+

lemma reach_marks:
  assumes "(auth_step h gen)\<^sup>*\<^sup>* st st'" "marks_ok st" "steps_ok h st"
  shows "marks_ok st' \<and> steps_ok h st'"
  using assms by (induction rule: rtranclp_induct) (auto intro: step_marks steps_kept)

section \<open>Recovery codes are spent as often as issued\<close>

definition code_pool :: "authDb \<Rightarrow> (string \<times> string) multiset" where
  "code_pool db = mset (concat (map (\<lambda>f. map (Pair (uf_Username f)) (codes_of f)) (ak_factors db)))"

definition codes_ok :: "authRun \<Rightarrow> bool" where
  "codes_ok st \<longleftrightarrow> distinct (map uf_Username (ak_factors (ag_db st))) \<and>
     mset (ag_spent st) + code_pool (ag_db st) \<subseteq># mset (ag_issued st) \<and>
     (\<forall>(u, raw, want)\<in>set (ag_looks st). want \<in> set raw)"

lemma SwapRecoveryCodes_eq:
  assumes "distinct (map uf_Username (ak_factors db))" "SwapRecoveryCodes user raw new db = (True, db')"
  obtains f where "f \<in> set (ak_factors db)" "uf_Username f = user" "codes_of f = raw"
    "ak_factors db' = map (\<lambda>g. if g = f then f\<lparr>uf_Codes := Some new\<rparr> else g) (ak_factors db)"
proof -
  let ?hit = "\<lambda>f. uf_Username f = user \<and> codes_of f = raw"
  have one: "length (filter ?hit (ak_factors db)) = 1"
    and rows: "ak_factors db' = update_where ?hit (\<lambda>f. f\<lparr>uf_Codes := Some new\<rparr>) (ak_factors db)"
    using assms(2) by (auto simp: SwapRecoveryCodes_def Let_def)
  have "filter ?hit (ak_factors db) \<noteq> []" using one by (metis length_0_conv zero_neq_one)
  then obtain f where f: "f \<in> set (ak_factors db)" "?hit f" by (auto simp: filter_empty_conv)
  have inj: "inj_on uf_Username (set (ak_factors db))" using assms(1) by (simp add: distinct_map)
  have "?hit g \<longleftrightarrow> g = f" if "g \<in> set (ak_factors db)" for g
    using inj_onD [OF inj _ that f(1)] f(2) by auto
  then have "ak_factors db' = map (\<lambda>g. if g = f then f\<lparr>uf_Codes := Some new\<rparr> else g) (ak_factors db)"
    unfolding rows update_where_def by (intro map_cong) auto
  then show ?thesis using that f by blast
qed

definition row_pool :: "userFactor \<Rightarrow> (string \<times> string) multiset" where
  "row_pool f = mset (map (Pair (uf_Username f)) (codes_of f))"

lemma pool_rows: "code_pool db = sum_list (map row_pool (ak_factors db))"
  unfolding code_pool_def row_pool_def by (induction "ak_factors db" arbitrary: db) (auto simp: mset_concat comp_def)

lemma sum_replaced:
  assumes "distinct xs" "f \<in> set xs"
  shows "sum_list (map p (map (\<lambda>g. if g = f then f' else g) xs)) + p f = sum_list (map p xs) + (p f' :: 'a :: comm_monoid_add)"
  using assms
proof (induction xs)
  case (Cons x xs)
  show ?case
  proof (cases "x = f")
    case True
    then have "map (\<lambda>g. if g = f then f' else g) xs = xs" using Cons.prems(1) by (intro map_idI) auto
    then show ?thesis using True by (simp add: ac_simps comp_def)
  next
    case False
    then have "p x + (sum_list (map p (map (\<lambda>g. if g = f then f' else g) xs)) + p f) = p x + (sum_list (map p xs) + p f')"
      using Cons by simp
    then show ?thesis using False by (simp add: ac_simps)
  qed
qed simp

lemma pool_filtered: "code_pool (db\<lparr>ak_factors := filter P (ak_factors db)\<rparr>) \<subseteq># code_pool db"
proof -
  have "sum_list (map row_pool (filter P fs)) \<subseteq># sum_list (map row_pool fs)" for fs
    by (induction fs) (auto intro: subset_mset.add_left_mono subset_mset.add_increasing)
  then show ?thesis by (simp add: pool_rows)
qed

lemma pool_set:
  assumes "\<And>f. uf_Username f = user \<Longrightarrow> row_pool (g f) \<subseteq># row_pool f + extra" "distinct (map uf_Username (ak_factors db))"
  shows "code_pool (upd_factor user g db) \<subseteq># code_pool db + extra"
proof -
  have "sum_list (map row_pool (update_where (\<lambda>r. uf_Username r = user) g fs)) \<subseteq># sum_list (map row_pool fs) + extra"
    if "distinct (map uf_Username fs)" for fs
    using that
  proof (induction fs)
    case (Cons f fs)
    show ?case
    proof (cases "uf_Username f = user")
      case True
      then have "\<forall>r\<in>set fs. uf_Username r \<noteq> user" using Cons.prems by (metis distinct.simps(2) image_eqI list.map(2) set_map)
      then have "update_where (\<lambda>r. uf_Username r = user) g fs = fs" by (rule update_where_none)
      then show ?thesis using assms(1) [OF True] True
        by (simp add: update_where_def subset_mset.add_mono ac_simps)
    next
      case False
      then show ?thesis using Cons by (simp add: update_where_def subset_mset.add_left_mono ac_simps)
    qed
  qed simp
  then show ?thesis using assms(2) by (simp add: pool_rows upd_factor_def)
qed

lemma swap_pool:
  assumes "distinct (map uf_Username (ak_factors db))" "SwapRecoveryCodes user raw (remove1 want raw) db = (True, db')" "want \<in> set raw"
  shows "add_mset (user, want) (code_pool db') = code_pool db"
proof -
  obtain f where f: "f \<in> set (ak_factors db)" "uf_Username f = user" "codes_of f = raw"
    "ak_factors db' = map (\<lambda>g. if g = f then f\<lparr>uf_Codes := Some (remove1 want raw)\<rparr> else g) (ak_factors db)"
    using SwapRecoveryCodes_eq [OF assms(1,2)] by blast
  let ?f = "f\<lparr>uf_Codes := Some (remove1 want raw)\<rparr>"
  have "mset raw = add_mset want (mset (remove1 want raw))" using assms(3) by simp
  then have "row_pool f = add_mset (user, want) (row_pool ?f)"
    using f(2,3) by (simp add: row_pool_def codes_of_def del: mset_remove1)
  moreover have "code_pool db' + row_pool f = code_pool db + row_pool ?f"
    using sum_replaced [of "ak_factors db" f row_pool ?f] f(1,4) assms(1) by (simp add: pool_rows distinct_map)
  ultimately show ?thesis by simp
qed

lemma factors_same:
  "codes_ok st \<Longrightarrow> ak_factors db = ak_factors (ag_db st) \<Longrightarrow> codes_ok (st\<lparr>ag_db := db\<rparr>)"
  by (simp add: codes_ok_def code_pool_def)

lemma marked_factors: "MarkAssertionSeen h idp aid e db = (ok, db') \<Longrightarrow> ak_factors db' = ak_factors db"
  by (auto simp: MarkAssertionSeen_def split: if_splits)

lemma totp_factors: "totpValid h gen user secret code now db = (ok, db') \<Longrightarrow> ak_factors db' = ak_factors db"
  by (auto simp: totpValid_def dest: marked_factors split: if_splits option.splits)

lemma codes_ok_pool:
  assumes "codes_ok st" "map uf_Username (ak_factors db) = map uf_Username (ak_factors (ag_db st))"
    "code_pool db \<subseteq># code_pool (ag_db st) + mset new"
  shows "codes_ok (st\<lparr>ag_db := db, ag_issued := new @ ag_issued st\<rparr>)"
proof -
  have "mset (ag_spent st) + code_pool db \<subseteq># mset (ag_spent st) + (code_pool (ag_db st) + mset new)"
    using assms(3) by (rule subset_mset.add_left_mono)
  also have "\<dots> \<subseteq># mset (ag_issued st) + mset new"
    using assms(1) by (simp add: codes_ok_def add.assoc [symmetric] subset_mset.add_right_mono)
  finally show ?thesis using assms(1,2) by (simp add: codes_ok_def ac_simps)
qed

lemma upd_factor_names:
  assumes "\<And>f. uf_Username (g f) = uf_Username f"
  shows "map uf_Username (ak_factors (upd_factor user g db)) = map uf_Username (ak_factors db)"
  using assms by (simp add: upd_factor_def update_where_def comp_def if_distrib [of uf_Username])

lemma one_hit: "distinct (map k xs) \<Longrightarrow> length (filter (\<lambda>x. k x = u \<and> Q x) xs) \<le> Suc 0"
proof (induction xs)
  case (Cons x xs)
  from Cons.prems have "k x \<notin> k ` set xs" by simp
  then have "k y \<noteq> k x" if "y \<in> set xs" for y using that by (metis image_eqI)
  then have "filter (\<lambda>y. k y = u \<and> Q y) xs = []" if "k x = u" using that by (auto simp: filter_empty_conv)
  then show ?case using Cons by auto
qed simp

lemma step_codes: "auth_step h gen st st' \<Longrightarrow> codes_ok st \<Longrightarrow> codes_ok st'"
proof (induction rule: auth_step.induct)
  case (create r st e db)
  then show ?case by (auto simp: codes_ok_def code_pool_def CreateAuthRequest_def split: if_splits)
next
  case (claim token r st t n db)
  then show ?case by (auto simp: codes_ok_def code_pool_def delete_request_def)
next
  case (mark idp aid e st ok db)
  then show ?case using factors_same [OF mark.prems marked_factors [OF mark.hyps]] by (simp add: codes_ok_def)
next
  case (totp user secret code st ok db k)
  then show ?case using factors_same [OF totp.prems totp_factors [OF totp.hyps(1)]] by (simp add: codes_ok_def)
next
  case (swap user raw want st ok db)
  have d: "distinct (map uf_Username (ak_factors (ag_db st)))" and w: "want \<in> set raw"
    using swap by (auto simp: codes_ok_def)
  have names: "map uf_Username (ak_factors db) = map uf_Username (ak_factors (ag_db st))"
    using swap.hyps(2) by (auto simp: SwapRecoveryCodes_def Let_def update_where_def comp_def if_distrib [of uf_Username] cong: map_cong)
  have sub: "set (remove1 (user, raw, want) (ag_looks st)) \<subseteq> set (ag_looks st)" by (rule set_remove1_subset)
  show ?case
  proof (cases ok)
    case True
    with swap.hyps(2) have "SwapRecoveryCodes user raw (remove1 want raw) (ag_db st) = (True, db)" by simp
    from swap_pool [OF d this w] have "add_mset (user, want) (code_pool db) = code_pool (ag_db st)" .
    then show ?thesis using swap.prems sub True names d unfolding codes_ok_def
      by (auto simp flip: \<open>add_mset (user, want) (code_pool db) = code_pool (ag_db st)\<close>)
  next
    case False
    have "filter (\<lambda>f. uf_Username f = user \<and> codes_of f = raw) (ak_factors (ag_db st)) = []"
    proof (rule ccontr)
      assume some: "\<not> ?thesis"
      from one_hit [OF d, of user "\<lambda>f. codes_of f = raw"] show False using swap.hyps(2) False some by (auto simp: SwapRecoveryCodes_def Let_def le_Suc_eq)
    qed
    then have "\<forall>f\<in>set (ak_factors (ag_db st)). \<not> (uf_Username f = user \<and> codes_of f = raw)" by (simp add: filter_empty_conv)
    from update_where_none [OF this] have "ak_factors db = ak_factors (ag_db st)" using swap.hyps(2)
      by (auto simp: SwapRecoveryCodes_def Let_def)
    then show ?thesis using swap.prems sub False by (auto simp: codes_ok_def code_pool_def)
  qed
next
  case (secret st user enc)
  have "code_pool (SetTOTPSecret user enc (ag_db st)) \<subseteq># code_pool (ag_db st) + mset []"
    unfolding SetTOTPSecret_def mset.simps
    by (rule pool_set) (use secret in \<open>simp_all add: row_pool_def codes_of_def codes_ok_def\<close>)
  from codes_ok_pool [OF secret _ this] show ?case by (simp add: SetTOTPSecret_def upd_factor_names)
next
  case (enable st user hashed)
  have "code_pool (EnableTOTP user hashed (ag_db st)) \<subseteq># code_pool (ag_db st) + mset (map (Pair user) hashed)"
    unfolding EnableTOTP_def
    by (rule pool_set) (use enable in \<open>simp_all add: row_pool_def codes_of_def codes_ok_def\<close>)
  from codes_ok_pool [OF enable _ this] show ?case by (simp add: EnableTOTP_def upd_factor_names)
next
  case (disable st user)
  have "code_pool (DisableTOTP user (ag_db st)) \<subseteq># code_pool (ag_db st) + mset []"
    unfolding DisableTOTP_def mset.simps
    by (rule pool_set) (use disable in \<open>simp_all add: row_pool_def codes_of_def codes_ok_def\<close>)
  from codes_ok_pool [OF disable _ this] show ?case by (simp add: DisableTOTP_def upd_factor_names)
next
  case (register st user)
  then show ?case by (force simp: codes_ok_def code_pool_def codes_of_def)
next
  case (account_gone st user)
  have "code_pool (forgetFactors user (ag_db st)) \<subseteq># code_pool (ag_db st)"
    using pool_filtered [where db = "ag_db st"] by (simp add: forgetFactors_def code_pool_def)
  then show ?case using account_gone
    by (auto simp: codes_ok_def forgetFactors_def distinct_map_filter intro: subset_mset.order_trans subset_mset.add_left_mono)
next
  case (purge st)
  then show ?case by (simp add: codes_ok_def code_pool_def PurgeExpiredAuthState_def)
qed (auto simp: codes_ok_def RecoveryCodes_def)

lemma reach_codes:
  assumes "(auth_step h gen)\<^sup>*\<^sup>* st st'" "codes_ok st"
  shows "codes_ok st'"
  using assms by (induction rule: rtranclp_induct) (auto intro: step_codes)

section \<open>What is used once\<close>

definition auth_start :: "authDb \<Rightarrow> int \<Rightarrow> authRun" where
  "auth_start db now =
     \<lparr>ag_db = db, ag_now = now, ag_made = tokens_of db, ag_reads = [], ag_won = [], ag_marks = [], ag_steps = [], ag_looks = [],
      ag_issued = concat (map (\<lambda>f. map (Pair (uf_Username f)) (codes_of f)) (ak_factors db)), ag_spent = []\<rparr>"

definition keys_unique :: "authDb \<Rightarrow> bool" where
  "keys_unique db \<longleftrightarrow> distinct (tokens_of db) \<and> distinct (map uf_Username (ak_factors db))"

lemma auth_start_ok:
  assumes "keys_unique db"
  shows "requests_ok (auth_start db now)" "marks_ok (auth_start db now)" "steps_ok h (auth_start db now)" "codes_ok (auth_start db now)"
  using assms by (auto simp: keys_unique_def requests_ok_def marks_ok_def steps_ok_def codes_ok_def code_pool_def auth_start_def)

lemma not_read: "token \<notin> set (tokens_of db) \<Longrightarrow> read_request token now db = None"
  using read_row by (cases "read_request token now db") auto

text \<open>
  Property C21. Over every interleaving of callers, sweeps, deletions and new sign-ins, a pending sign-in is handed to one
  caller at most, and once it was, nobody can consume its token again.
\<close>

theorem token_claimed_once:
  assumes "keys_unique db" and "(auth_step h gen)\<^sup>*\<^sup>* (auth_start db now) st"
  shows "distinct (map aq_Token (ag_won st)) \<and>
    (\<forall>r\<in>set (ag_won st). \<forall>t. ConsumeAuthRequest (aq_Token r) t (ag_db st) = (None, ag_db st))"
proof -
  have ok: "requests_ok st" using reach_requests [OF assms(2)] auth_start_ok(1) [OF assms(1)] by simp
  have "read_request (aq_Token r) t (ag_db st) = None" if "r \<in> set (ag_won st)" for r t
    using ok that by (intro not_read) (auto simp: requests_ok_def)
  then show ?thesis using ok by (simp add: requests_ok_def ConsumeAuthRequest_def)
qed

text \<open>
  Property C22. Over every interleaving a time step of an account's authenticator is accepted once, also across the sweeps,
  and an assertion accepted twice had expired in between.
\<close>

theorem code_step_accepted_once:
  assumes "keys_unique db" and "(auth_step h gen)\<^sup>*\<^sup>* (auth_start db now) st"
  shows "distinct (ag_steps st) \<and>
    (\<forall>i j. i < j \<longrightarrow> j < length (ag_marks st) \<longrightarrow> fst (ag_marks st ! i) = fst (ag_marks st ! j) \<longrightarrow>
       fst (snd (ag_marks st ! j)) < snd (snd (ag_marks st ! i)))"
proof -
  have "marks_ok st \<and> steps_ok h st"
    using reach_marks [OF assms(2)] auth_start_ok(2,3) [OF assms(1)] by simp
  then show ?thesis by (simp add: marks_ok_def steps_ok_def sorted_wrt_iff_nth_less)
qed

text \<open>
  Property C13. Over every interleaving the recovery codes accepted for an account are among those issued to it, each as
  often as it was issued.
\<close>

theorem recovery_code_spent_once:
  assumes "keys_unique db" and "(auth_step h gen)\<^sup>*\<^sup>* (auth_start db now) st"
  shows "mset (ag_spent st) \<subseteq># mset (ag_issued st)"
proof -
  have "codes_ok st" using reach_codes [OF assms(2)] auth_start_ok(4) [OF assms(1)] by simp
  then show ?thesis unfolding codes_ok_def by (metis mset_subset_eq_add_left subset_mset.order_trans)
qed

section \<open>Two callers each\<close>

definition demo_pending :: authRequest where
  "demo_pending = \<lparr>aq_Token = ''t'', aq_ProviderID = 0, aq_Kind = ''2fa'', aq_ReqID = [], aq_Nonce = [], aq_Verifier = [],
     aq_Username = ''ann'', aq_Target = [], aq_Purpose = []\<rparr>"

definition demo_auth :: authDb where
  "demo_auth = \<lparr>ak_requests = [(demo_pending, 400)], ak_seen = [],
     ak_factors = [\<lparr>uf_Username = ''ann'', uf_Enabled = True, uf_SecretEnc = ''enc'', uf_Codes = Some [''a'', ''b'']\<rparr>]\<rparr>"

definition demo_codes :: "string \<Rightarrow> int \<Rightarrow> string option" where
  "demo_codes secret at_time = Some (''code'' @ itoa (at_time div 30))"

lemma char_values: "char_of (97 :: nat) = CHR ''a''" "char_of (51 :: nat) = CHR ''3''"
  by code_simp+

lemma demo_keys: "keys_unique demo_auth"
  by (simp add: keys_unique_def demo_auth_def tokens_of_def)

lemma demo_read: "read_request ''t'' 100 demo_auth = Some demo_pending"
  by (simp add: read_request_def demo_auth_def live_request_def demo_pending_def)

lemma demo_two_readers:
  "(auth_step id demo_codes)\<^sup>*\<^sup>* (auth_start demo_auth 100)
     ((auth_start demo_auth 100)\<lparr>ag_reads := [(''t'', demo_pending)], ag_db := demo_auth\<lparr>ak_requests := []\<rparr>, ag_won := [demo_pending]\<rparr>)"
proof -
  let ?s0 = "auth_start demo_auth 100"
  let ?s1 = "?s0\<lparr>ag_reads := [(''t'', demo_pending)]\<rparr>"
  let ?s2 = "?s0\<lparr>ag_reads := [(''t'', demo_pending), (''t'', demo_pending)]\<rparr>"
  let ?s3 = "?s2\<lparr>ag_db := demo_auth\<lparr>ak_requests := []\<rparr>, ag_reads := remove1 (''t'', demo_pending) (ag_reads ?s2),
    ag_won := (if (1 :: nat) = 1 then demo_pending # ag_won ?s2 else ag_won ?s2)\<rparr>"
  have "auth_step id demo_codes ?s0 ?s1"
    using auth_step.look_up [of "''t''" ?s0 demo_pending id demo_codes] demo_read by (simp add: auth_start_def)
  moreover have "auth_step id demo_codes ?s1 ?s2"
    using auth_step.look_up [of "''t''" ?s1 demo_pending id demo_codes] demo_read by (simp add: auth_start_def)
  moreover have "auth_step id demo_codes ?s2 ?s3"
    by (rule auth_step.claim [where t = 100]) (simp_all add: auth_start_def delete_request_def demo_auth_def live_request_def demo_pending_def)
  ultimately have "(auth_step id demo_codes)\<^sup>*\<^sup>* ?s0 ?s3" by (meson converse_rtranclp_into_rtranclp rtranclp.rtrancl_refl)
  then show ?thesis by (simp add: auth_start_def)
qed

lemma token_claimed_once_witness:
  "ConsumeAuthRequest ''t'' 101 (demo_auth\<lparr>ak_requests := []\<rparr>) = (None, demo_auth\<lparr>ak_requests := []\<rparr>)"
proof -
  have "aq_Token demo_pending = ''t''" by (simp add: demo_pending_def)
  then show ?thesis using token_claimed_once [OF demo_keys demo_two_readers] by simp
qed

lemma code_step_accepted_once_witness:
  "\<exists>st. (auth_step id demo_codes)\<^sup>*\<^sup>* (auth_start demo_auth 100) st \<and> ag_steps st = [(''ann'', 3)] \<and> distinct (ag_steps st)"
proof -
  let ?s0 = "auth_start demo_auth 100"
  let ?key = "totp_key id ''ann'' 3"
  let ?db = "demo_auth\<lparr>ak_seen := [(?key, 220)]\<rparr>"
  have at3: "matched_step demo_codes ''enc'' (trim_space ''code3'') 100 = Some 3"
    by (simp add: matched_step_def demo_codes_def trim_space_def is_space_def itoa_def nat_digits.simps digit_char_def char_values)
  have "totpValid id demo_codes ''ann'' ''enc'' ''code3'' 100 demo_auth = (True, ?db)"
    using at3 by (simp add: totpValid_def MarkAssertionSeen_def totp_key_def demo_auth_def trim_space_def is_space_def itoa_def nat_digits.simps)
  then have "auth_step id demo_codes ?s0 (?s0\<lparr>ag_db := ?db,
      ag_marks := (if True then (?key, ag_now ?s0 + 120, ag_now ?s0) # ag_marks ?s0 else ag_marks ?s0),
      ag_steps := (if True then (''ann'', 3) # ag_steps ?s0 else ag_steps ?s0)\<rparr>)"
    using at3 by (intro auth_step.totp [where secret = "''enc''" and code = "''code3''"]) (simp_all add: auth_start_def)
  then have "(auth_step id demo_codes)\<^sup>*\<^sup>* ?s0 (?s0\<lparr>ag_db := ?db, ag_marks := [(?key, 220, 100)], ag_steps := [(''ann'', 3)]\<rparr>)"
    by (intro r_into_rtranclp) (simp add: auth_start_def)
  from this code_step_accepted_once [OF demo_keys this] show ?thesis by (intro exI conjI) (assumption, simp_all)
qed

lemma recovery_code_spent_once_witness:
  "\<exists>st. (auth_step id demo_codes)\<^sup>*\<^sup>* (auth_start demo_auth 100) st \<and> ag_spent st = [(''ann'', ''a'')] \<and>
     (''ann'', ''a'') \<in># mset (ag_issued st)"
proof -
  let ?s0 = "auth_start demo_auth 100"
  let ?look = "(''ann'', [''a'', ''b''], ''a'')"
  let ?s1 = "?s0\<lparr>ag_looks := [?look]\<rparr>"
  let ?db = "snd (SwapRecoveryCodes ''ann'' [''a'', ''b''] (remove1 ''a'' [''a'', ''b'']) demo_auth)"
  have codes: "RecoveryCodes ''ann'' demo_auth = [''a'', ''b'']" "hashRecoveryCode id ''A'' = ''a''"
    by (simp_all add: RecoveryCodes_def find_factor_def demo_auth_def codes_of_def hashRecoveryCode_def trim_space_def is_space_def
        to_lower_def lower_char_def char_values)
  have "auth_step id demo_codes ?s0 ?s1"
    using auth_step.look_code [of id "''A''" "''ann''" ?s0 demo_codes] codes by (simp add: auth_start_def)
  moreover have "SwapRecoveryCodes ''ann'' [''a'', ''b''] (remove1 ''a'' [''a'', ''b'']) demo_auth = (True, ?db)"
    by (simp add: SwapRecoveryCodes_def demo_auth_def codes_of_def)
  then have "auth_step id demo_codes ?s1 (?s1\<lparr>ag_db := ?db, ag_looks := remove1 ?look (ag_looks ?s1),
      ag_spent := (if True then (''ann'', ''a'') # ag_spent ?s1 else ag_spent ?s1)\<rparr>)"
    by (intro auth_step.swap) (simp_all add: auth_start_def)
  ultimately have run: "(auth_step id demo_codes)\<^sup>*\<^sup>* ?s0 (?s1\<lparr>ag_db := ?db, ag_looks := remove1 ?look (ag_looks ?s1),
      ag_spent := (if True then (''ann'', ''a'') # ag_spent ?s1 else ag_spent ?s1)\<rparr>)"
    by (meson converse_rtranclp_into_rtranclp rtranclp.rtrancl_refl)
  from recovery_code_spent_once [OF demo_keys run] have "(''ann'', ''a'') \<in># mset (ag_issued ?s1)"
    by (simp add: auth_start_def insert_subset_eq_iff)
  with run show ?thesis by (intro exI conjI) (assumption, simp_all add: auth_start_def)
qed

end
