(* ===== verification/Login_Throttle.thy ===== *)
theory Login_Throttle
  imports Prelude "HOL-Library.AList"
begin

text \<open>
  The two counters in memory: failed sign-ins (throttle.go) and requests to the machine API (\<open>rateLimiter\<close> of
  limits.go), with the settings they read (\<open>settingInt\<close>). Both count in fixed windows and bound their table; a
  lock of the throttle is kept where counters are dropped. Times are instants on one scale; the ceiling, the
  window and the lock are read at each call, so each call carries its own.
\<close>

section \<open>Failed sign-ins\<close>

record failRec =
  fr_n :: int
  fr_resetAt :: int
  fr_lockedUntil :: "int option"

record throttleCfg =
  tc_max :: int
  tc_window :: int
  tc_lock :: "int option"

type_synonym throttle = "(string \<times> failRec) list"

definition maxEntries :: nat where "maxEntries = 4096"

definition serving :: "int \<Rightarrow> failRec \<Rightarrow> bool" where
  "serving now r = (case fr_lockedUntil r of None \<Rightarrow> False | Some t \<Rightarrow> now < t)"

definition blocked :: "throttleCfg \<Rightarrow> string \<Rightarrow> int \<Rightarrow> throttle \<Rightarrow> bool" where
  "blocked cfg key now l =
     (case map_of l key of
        None \<Rightarrow> False
      | Some r \<Rightarrow> serving now r \<or> now < fr_resetAt r \<and> tc_max cfg \<le> fr_n r)"

definition lapsed_rec :: "int \<Rightarrow> failRec \<Rightarrow> bool" where
  "lapsed_rec now r \<longleftrightarrow> fr_resetAt r < now \<and> \<not> serving now r"

definition prune :: "int \<Rightarrow> throttle \<Rightarrow> throttle" where
  "prune now l =
     (if length l \<le> maxEntries then l
      else let kept = filter (\<lambda>(_, r). \<not> lapsed_rec now r) l
           in if length kept \<le> maxEntries then kept else filter (\<lambda>(_, r). serving now r) kept)"

definition counted :: "throttleCfg \<Rightarrow> int \<Rightarrow> failRec option \<Rightarrow> failRec" where
  "counted cfg now old =
     (let start = \<lparr>fr_n = 0, fr_resetAt = now + tc_window cfg, fr_lockedUntil = None\<rparr>;
          r = (case old of None \<Rightarrow> start | Some r \<Rightarrow> if lapsed_rec now r then start else r);
          r1 = r\<lparr>fr_n := fr_n r + 1\<rparr>
      in case tc_lock cfg of
           None \<Rightarrow> r1
         | Some dur \<Rightarrow> if tc_max cfg \<le> fr_n r1 \<and> \<not> serving now r1 then r1\<lparr>fr_lockedUntil := Some (now + dur)\<rparr> else r1)"

definition record_fail :: "throttleCfg \<Rightarrow> string \<Rightarrow> int \<Rightarrow> throttle \<Rightarrow> throttle" where
  "record_fail cfg key now l = (let l1 = prune now l in AList.update key (counted cfg now (map_of l1 key)) l1)"

definition fails :: "string \<Rightarrow> int \<Rightarrow> throttle \<Rightarrow> int" where
  "fails key now l = (case map_of l key of None \<Rightarrow> 0 | Some r \<Rightarrow> if fr_resetAt r < now then 0 else fr_n r)"

definition reset_key :: "string \<Rightarrow> throttle \<Rightarrow> throttle" where
  "reset_key key l = AList.delete key l"

section \<open>Requests of the machine API\<close>

record rateRec =
  rr_n :: int
  rr_resetAt :: int

type_synonym rateTable = "(string \<times> rateRec) list"

definition rate_pruned :: "int \<Rightarrow> rateTable \<Rightarrow> rateTable" where
  "rate_pruned now l =
     (if length l \<le> 4096 then l
      else let kept = filter (\<lambda>(_, r). \<not> rr_resetAt r < now) l in if 4096 < length kept then [] else kept)"

definition allow :: "string \<Rightarrow> int \<Rightarrow> int \<Rightarrow> int \<Rightarrow> rateTable \<Rightarrow> bool \<times> rateTable" where
  "allow key limit window now l0 =
     (let l = rate_pruned now l0; start = AList.update key \<lparr>rr_n = 1, rr_resetAt = now + window\<rparr> l
      in case map_of l key of
           None \<Rightarrow> (True, start)
         | Some r \<Rightarrow> if rr_resetAt r < now then (True, start)
                     else if limit \<le> rr_n r then (False, l)
                     else (True, AList.update key (r\<lparr>rr_n := rr_n r + 1\<rparr>) l))"

definition rateLimitV1 :: "int \<Rightarrow> string \<Rightarrow> int \<Rightarrow> rateTable \<Rightarrow> bool \<times> rateTable" where
  "rateLimitV1 limit ip now l = (if limit \<le> 0 then (True, l) else allow (''ip:'' @ ip) limit 60 now l)"

section \<open>The settings\<close>

text \<open>A stored number out of its range, or no number at all, reads as the default.\<close>

definition settingInt :: "string \<Rightarrow> int \<Rightarrow> int \<Rightarrow> int \<Rightarrow> int" where
  "settingInt raw def lo hi =
     (case atoi (trim_space raw) of None \<Rightarrow> def | Some n \<Rightarrow> if n < lo \<or> hi < n then def else n)"

definition sessionTTL :: "string \<Rightarrow> int" where
  "sessionTTL raw = settingInt raw 168 1 (24 * 365) * 3600"

definition loginLimits :: "string \<Rightarrow> string \<Rightarrow> int \<times> int" where
  "loginLimits raw_max raw_window = (settingInt raw_max 10 1 1000, settingInt raw_window 15 1 (24 * 60) * 60)"

definition apiV1RatePerMin :: "string \<Rightarrow> int" where
  "apiV1RatePerMin raw = settingInt raw 0 0 100000"

text \<open>The fields of a save, in order: key, lowest and highest value, and whether zero says something.\<close>

definition limit_fields :: "(string \<times> int \<times> int \<times> bool) list" where
  "limit_fields =
     [(''session_ttl_hours'', 1, 24 * 365, False), (''login_fail_max'', 1, 1000, False),
      (''login_fail_window_min'', 1, 24 * 60, False), (''apiv1_rate_per_min'', 0, 100000, True),
      (''forecast_slots_official'', 1, 8, False), (''forecast_slots_explore'', 0, 8, True),
      (''forecast_wait_sec'', 1, 60, False), (''forecast_custom_per_min'', 0, 600, True),
      (''forecast_members_per_min'', 0, 600, True)]"

definition bad_limit :: "(string \<rightharpoonup> int) \<Rightarrow> string \<times> int \<times> int \<times> bool \<Rightarrow> bool" where
  "bad_limit inp = (\<lambda>(key, lo, hi, zero). case inp key of None \<Rightarrow> False | Some v \<Rightarrow> v < lo \<or> hi < v \<or> v = 0 \<and> \<not> zero)"

definition applyLimits :: "(string \<rightharpoonup> int) \<Rightarrow> (string \<rightharpoonup> string) \<Rightarrow> string + (string \<rightharpoonup> string)" where
  "applyLimits inp meta =
     (case find (bad_limit inp) limit_fields of
        Some (key, _) \<Rightarrow> Inl key
      | None \<Rightarrow> Inr (fold (\<lambda>(key, _) m. case inp key of None \<Rightarrow> m | Some v \<Rightarrow> m(key \<mapsto> itoa v)) limit_fields meta))"

section \<open>A lock is kept\<close>

datatype throttleOp = Fail throttleCfg string int | Clear string

fun throttle_op :: "throttleOp \<Rightarrow> throttle \<Rightarrow> throttle" where
  "throttle_op (Fail cfg key now) l = record_fail cfg key now l"
| "throttle_op (Clear key) l = reset_key key l"

definition throttle_run :: "throttleOp list \<Rightarrow> throttle \<Rightarrow> throttle" where
  "throttle_run ops l = fold throttle_op ops l"

definition locked_till :: "string \<Rightarrow> int \<Rightarrow> throttle \<Rightarrow> bool" where
  "locked_till key u l \<longleftrightarrow> (\<exists>r. map_of l key = Some r \<and> fr_lockedUntil r = Some u) \<and> distinct (map fst l)"

lemma distinct_filter_keys: "distinct (map fst l) \<Longrightarrow> distinct (map fst (filter P l))"
  by (simp add: distinct_map_filter)

lemma map_of_filter_keep: "map_of l k = Some r \<Longrightarrow> distinct (map fst l) \<Longrightarrow> P (k, r) \<Longrightarrow> map_of (filter P l) k = Some r"
  by (simp add: distinct_filter_keys map_of_eq_Some_iff)

lemma map_of_filter_sub: "map_of (filter P l) k = Some r \<Longrightarrow> distinct (map fst l) \<Longrightarrow> map_of l k = Some r"
  by (auto simp: distinct_filter_keys map_of_eq_Some_iff)

lemma prune_distinct: "distinct (map fst l) \<Longrightarrow> distinct (map fst (prune now l))"
  by (simp add: prune_def Let_def distinct_filter_keys)

lemma prune_keeps_locks:
  assumes "map_of l key = Some r" "distinct (map fst l)" "serving now r"
  shows "map_of (prune now l) key = Some r"
proof -
  have "map_of (filter (\<lambda>(_, r). \<not> lapsed_rec now r) l) key = Some r"
    using assms by (intro map_of_filter_keep) (simp_all add: lapsed_rec_def)
  then have "map_of (filter (\<lambda>(_, r). serving now r) (filter (\<lambda>(_, r). \<not> lapsed_rec now r) l)) key = Some r"
    using assms by (intro map_of_filter_keep distinct_filter_keys) (simp_all add: lapsed_rec_def)
  with \<open>map_of (filter (\<lambda>(_, r). \<not> lapsed_rec now r) l) key = Some r\<close> assms(1) show ?thesis
    by (simp add: prune_def Let_def)
qed

lemma locked_fail:
  assumes "locked_till key u l" "now < u"
  shows "locked_till key u (record_fail cfg k now l)"
proof -
  obtain r where r: "map_of l key = Some r" "fr_lockedUntil r = Some u" "distinct (map fst l)"
    using assms(1) by (auto simp: locked_till_def)
  have s: "serving now r" using r(2) assms(2) by (simp add: serving_def)
  have p: "map_of (prune now l) key = Some r" "distinct (map fst (prune now l))"
    using prune_keeps_locks [OF r(1,3) s] prune_distinct [OF r(3)] by simp_all
  have "fr_lockedUntil (counted cfg now (Some r)) = Some u"
    using s r(2) by (auto simp: counted_def Let_def lapsed_rec_def serving_def split: option.split)
  then show ?thesis using p r(2) by (auto simp: locked_till_def record_fail_def Let_def update_conv' distinct_update)
qed

lemma locked_clear: "locked_till key u l \<Longrightarrow> k \<noteq> key \<Longrightarrow> locked_till key u (reset_key k l)"
  by (auto simp: locked_till_def reset_key_def delete_conv' distinct_delete)

text \<open>
  Property C20. A lock taken on a key refuses it until its own end: no number of further failures, against this key or any
  others, shortens or moves it, also where the bound of the table drops the counters; only a successful
  sign-in that clears the key ends it early.
\<close>

theorem lock_outlives_flood:
  assumes "locked_till key u l" and "Clear key \<notin> set ops" and "\<forall>op\<in>set ops. case op of Fail _ _ now \<Rightarrow> now < u | Clear _ \<Rightarrow> True"
    and "t < u"
  shows "blocked cfg key t (throttle_run ops l)"
proof -
  have "locked_till key u (throttle_run ops l)"
    using assms(1-3)
  proof (induction ops arbitrary: l)
    case (Cons op ops)
    have "locked_till key u (throttle_op op l)"
      using Cons.prems locked_fail locked_clear by (cases op) auto
    then show ?case using Cons by (simp add: throttle_run_def)
  qed (simp add: throttle_run_def)
  then show ?thesis using assms(4) by (auto simp: locked_till_def blocked_def serving_def)
qed

section \<open>No key is refused before the ceiling\<close>

fun fails_since :: "string \<Rightarrow> throttleOp list \<Rightarrow> int" where
  "fails_since key [] = 0"
| "fails_since key (Fail _ k _ # ops) = (if k = key then 1 else 0) + fails_since key ops"
| "fails_since key (Clear k # ops) = (if k = key then 0 else fails_since key ops)"

lemma fails_since_nonneg: "0 \<le> fails_since key ops"
  by (induction key ops rule: fails_since.induct) auto

text \<open>What a table holds about a key never exceeds the failures since the key was cleared (newest first).\<close>

definition table_ok :: "int \<Rightarrow> string \<Rightarrow> throttleOp list \<Rightarrow> throttle \<Rightarrow> bool" where
  "table_ok ceiling key ops l \<longleftrightarrow> distinct (map fst l) \<and>
     (\<forall>r. map_of l key = Some r \<longrightarrow> fr_n r \<le> fails_since key ops \<and> (fr_lockedUntil r \<noteq> None \<longrightarrow> ceiling \<le> fails_since key ops))"

lemma prune_sub: "map_of (prune now l) key = Some r \<Longrightarrow> distinct (map fst l) \<Longrightarrow> map_of l key = Some r"
  by (auto simp: prune_def Let_def dest: map_of_SomeD split: if_splits)

lemma table_ok_fail:
  assumes "table_ok ceiling key ops l" "tc_max cfg = ceiling"
  shows "table_ok ceiling key (Fail cfg k now # ops) (record_fail cfg k now l)"
proof -
  let ?l = "prune now l"
  have d: "distinct (map fst l)" using assms(1) by (simp add: table_ok_def)
  have old: "fr_n r \<le> fails_since key ops \<and> (fr_lockedUntil r \<noteq> None \<longrightarrow> ceiling \<le> fails_since key ops)"
    if "map_of ?l key = Some r" for r using assms(1) prune_sub [OF that d] by (simp add: table_ok_def)
  have "fr_n (counted cfg now (map_of ?l key)) \<le> 1 + fails_since key ops \<and>
      (fr_lockedUntil (counted cfg now (map_of ?l key)) \<noteq> None \<longrightarrow> ceiling \<le> 1 + fails_since key ops)"
    using old fails_since_nonneg [of key ops] assms(2)
    by (cases "map_of ?l key") (auto simp: counted_def Let_def split: option.splits if_splits)
  then show ?thesis
    using old prune_distinct [OF d] by (auto simp: table_ok_def record_fail_def Let_def update_conv' distinct_update)
qed

lemma table_ok_clear: "table_ok ceiling key ops l \<Longrightarrow> table_ok ceiling key (Clear k # ops) (reset_key k l)"
  by (auto simp: table_ok_def reset_key_def delete_conv' distinct_delete)

text \<open>
  A key is refused only when as many failures as the ceiling were recorded against it since it was last
  cleared, whatever happened to other keys: nobody else's failures count.
\<close>

theorem refused_only_at_ceiling:
  assumes "\<forall>op\<in>set ops. case op of Fail c _ _ \<Rightarrow> tc_max c = tc_max cfg | Clear _ \<Rightarrow> True"
    and "blocked cfg key now (throttle_run ops [])"
  shows "tc_max cfg \<le> fails_since key (rev ops)"
proof -
  have "table_ok (tc_max cfg) key (rev ops) (throttle_run ops [])"
    using assms(1)
  proof (induction ops rule: rev_induct)
    case (snoc op ops)
    then have "table_ok (tc_max cfg) key (rev ops) (throttle_run ops [])" by simp
    then show ?case using snoc.prems table_ok_fail table_ok_clear by (cases op) (auto simp: throttle_run_def)
  qed (simp add: table_ok_def throttle_run_def)
  then show ?thesis using assms(2) by (auto simp: table_ok_def blocked_def serving_def split: option.splits)
qed

section \<open>Fixed windows\<close>

text \<open>
  What a fixed-window counter promises about the moments it let something pass: each belongs to a window of
  length \<open>w\<close> that began with one, windows begin more than \<open>w\<close> apart, and at most \<open>n\<close> share one.
\<close>

definition fixed_windows :: "int \<Rightarrow> nat \<Rightarrow> (int \<times> int) list \<Rightarrow> bool" where
  "fixed_windows w n passes \<longleftrightarrow>
     (\<forall>(s, t)\<in>set passes. s \<le> t \<and> t \<le> s + w) \<and>
     (\<forall>p\<in>set passes. \<forall>q\<in>set passes. fst p < fst q \<longrightarrow> fst p + w < fst q) \<and>
     (\<forall>s. length (filter (\<lambda>p. fst p = s) passes) \<le> n)"

lemma fixed_windowsD:
  assumes "fixed_windows w n passes"
  shows "p \<in> set passes \<Longrightarrow> fst p \<le> snd p \<and> snd p \<le> fst p + w"
    "p \<in> set passes \<Longrightarrow> q \<in> set passes \<Longrightarrow> fst p < fst q \<Longrightarrow> fst p + w < fst q"
    "length (filter (\<lambda>p. fst p = s) passes) \<le> n"
  using assms unfolding fixed_windows_def by fastforce+

lemma two_windows:
  assumes "\<forall>p\<in>set ps. a \<le> snd p \<and> snd p \<le> a + w" "set ps \<subseteq> set passes" and fw: "fixed_windows w n passes"
  shows "\<exists>x y. \<forall>p\<in>set ps. fst p = x \<or> fst p = y"
proof (cases "ps = []")
  case False
  let ?S = "fst ` set ps"
  have fin: "finite ?S" "?S \<noteq> {}" using False by auto
  have "fst p = Min ?S \<or> fst p = Max ?S" if p: "p \<in> set ps" for p
  proof (rule ccontr)
    assume "\<not> ?thesis"
    moreover have "Min ?S \<le> fst p" "fst p \<le> Max ?S" using p fin(1) by simp_all
    ultimately have lt: "Min ?S < fst p" "fst p < Max ?S" by linarith+
    obtain q where q: "q \<in> set ps" "fst q = Min ?S" using Min_in [OF fin] by auto
    obtain r where r: "r \<in> set ps" "fst r = Max ?S" using Max_in [OF fin] by auto
    have mem: "p \<in> set passes" "q \<in> set passes" "r \<in> set passes" using assms(2) p q(1) r(1) by auto
    have "fst q + w < fst p" "fst p + w < fst r" using fixed_windowsD(2) [OF fw] mem q(2) r(2) lt by metis+
    moreover have "fst r \<le> snd r" "snd q \<le> fst q + w" using fixed_windowsD(1) [OF fw] mem by simp_all
    moreover have "a \<le> snd q" "snd r \<le> a + w" using assms(1) q(1) r(1) by auto
    ultimately show False by linarith
  qed
  then show ?thesis by blast
qed simp

lemma passes_bounded:
  assumes fw: "fixed_windows w n passes"
  shows "length (filter (\<lambda>p. a \<le> snd p \<and> snd p \<le> a + w) passes) \<le> 2 * n"
proof -
  let ?ps = "filter (\<lambda>p. a \<le> snd p \<and> snd p \<le> a + w) passes"
  obtain x y where xy: "\<forall>p\<in>set ?ps. fst p = x \<or> fst p = y" using two_windows [OF _ _ fw, of ?ps a] by auto
  have "length ps \<le> length (filter (\<lambda>p. fst p = x) ps) + length (filter (\<lambda>p. fst p = y) ps)"
    if "\<forall>p\<in>set ps. fst p = x \<or> fst p = y" for ps :: "(int \<times> int) list"
    using that by (induction ps) auto
  from this [OF xy] have "length ?ps \<le> length (filter (\<lambda>p. fst p = x) ?ps) + length (filter (\<lambda>p. fst p = y) ?ps)" .
  moreover have "length (filter P (filter Q qs)) \<le> length (filter P qs)" for P Q and qs :: "(int \<times> int) list"
    by (induction qs) auto
  then have "length (filter (\<lambda>p. fst p = z) ?ps) \<le> n" for z using fixed_windowsD(3) [OF fw] le_trans by blast
  then have "length (filter (\<lambda>p. fst p = x) ?ps) \<le> n" "length (filter (\<lambda>p. fst p = y) ?ps) \<le> n" by simp_all
  ultimately show ?thesis by linarith
qed

section \<open>The ceiling of the machine API\<close>

text \<open>The requests of a run, oldest first, and the moments at which those of one source passed, newest first.\<close>

fun rate_run :: "int \<Rightarrow> int \<Rightarrow> (string \<times> int) list \<Rightarrow> rateTable \<Rightarrow> (string \<times> int) list \<times> rateTable" where
  "rate_run limit window [] l = ([], l)"
| "rate_run limit window ((key, now) # rs) l =
     (case allow key limit window now l of
        (ok, l') \<Rightarrow> (case rate_run limit window rs l' of (out, l'') \<Rightarrow> (if ok then (key, now) # out else out, l'')))"

text \<open>
  The counter of one key against what passed so far (\<open>ps\<close>, with the start of the window of each): it holds the
  window now running and how many passed in it.
\<close>

definition counter_ok :: "int \<Rightarrow> nat \<Rightarrow> string \<Rightarrow> int \<Rightarrow> (int \<times> int) list \<Rightarrow> rateTable \<Rightarrow> bool" where
  "counter_ok window limit key now ps l \<longleftrightarrow> fixed_windows window limit ps \<and>
     (\<forall>(s, t)\<in>set ps. t \<le> now) \<and>
     (case map_of l key of
        None \<Rightarrow> ps = []
      | Some r \<Rightarrow> (\<forall>(s, t)\<in>set ps. s \<le> rr_resetAt r - window) \<and>
          int (length (filter (\<lambda>p. fst p = rr_resetAt r - window) ps)) = rr_n r \<and> 1 \<le> rr_n r \<and> rr_resetAt r - window \<le> now)"

lemma no_prune: "length l \<le> 4096 \<Longrightarrow> rate_pruned now l = l"
  by (simp add: rate_pruned_def)

lemma fixed_windows_new:
  assumes fw: "fixed_windows w n ps" and "0 < n" "0 \<le> w" "\<forall>(s, t)\<in>set ps. s + w < now"
  shows "fixed_windows w n ((now, now) # ps)"
proof -
  have late: "fst p + w < now" if "p \<in> set ps" for p using assms(4) that by auto
  then have "filter (\<lambda>p. fst p = now) ps = []" using assms(3) by (force simp: filter_empty_conv)
  then have "length (filter (\<lambda>p. fst p = s) ((now, now) # ps)) \<le> n" for s using fixed_windowsD(3) [OF fw, of s] assms(2) by auto
  moreover have "fst p + w < fst q" if "p \<in> set ((now, now) # ps)" "q \<in> set ((now, now) # ps)" "fst p < fst q" for p q
    using that late [of p] late [of q] assms(3) fixed_windowsD(2) [OF fw, of p q] by auto
  moreover have "s \<le> t \<and> t \<le> s + w" if "(s, t) \<in> set ((now, now) # ps)" for s t
    using that fixed_windowsD(1) [OF fw, of "(s, t)"] assms(3) by auto
  ultimately show ?thesis unfolding fixed_windows_def by blast
qed

lemma fixed_windows_more:
  assumes fw: "fixed_windows w n ps" and "x \<le> now" "now \<le> x + w" "int (length (filter (\<lambda>p. fst p = x) ps)) < int n"
    "(x, t0) \<in> set ps"
  shows "fixed_windows w n ((x, now) # ps)"
proof -
  have "length (filter (\<lambda>p. fst p = s) ((x, now) # ps)) \<le> n" for s using fixed_windowsD(3) [OF fw, of s] assms(4) by auto
  moreover have "fst p + w < fst q" if "p \<in> set ((x, now) # ps)" "q \<in> set ((x, now) # ps)" "fst p < fst q" for p q
    using that assms(5) fixed_windowsD(2) [OF fw, of p q] fixed_windowsD(2) [OF fw, of "(x, t0)" q] fixed_windowsD(2) [OF fw, of p "(x, t0)"] by auto
  moreover have "s \<le> t \<and> t \<le> s + w" if "(s, t) \<in> set ((x, now) # ps)" for s t
    using that fixed_windowsD(1) [OF fw, of "(s, t)"] assms(2,3) by auto
  ultimately show ?thesis unfolding fixed_windows_def by blast
qed

lemma counter_step:
  assumes ok: "counter_ok window limit key before ps l" and len: "length l \<le> 4096" and t: "before \<le> now"
    and w: "0 \<le> window" "0 < limit" and step: "allow k (int limit) window now l = (passed, l')"
  shows "\<exists>s. counter_ok window limit key now (if passed \<and> k = key then (s, now) # ps else ps) l'"
proof (cases "k = key")
  case False
  have "map_of l' key = map_of l key"
    using step False by (auto simp: allow_def no_prune [OF len] Let_def update_conv' split: option.splits if_splits)
  then have "counter_ok window limit key now ps l'" using ok t by (fastforce simp: counter_ok_def split: option.splits)
  then show ?thesis using False by auto
next
  case True
  have fw: "fixed_windows window limit ps" and old: "\<forall>(s, t)\<in>set ps. t \<le> before" using ok by (simp_all add: counter_ok_def)
  have older: "\<forall>(s, t)\<in>set ps. t \<le> now" using old t by fastforce
  show ?thesis
  proof (cases "map_of l key")
    case None
    then have "ps = []" using ok by (simp add: counter_ok_def)
    then have "fixed_windows window limit ((now, now) # ps)" using fixed_windows_new [OF fw w(2,1)] by simp
    moreover have "passed" "map_of l' key = Some \<lparr>rr_n = 1, rr_resetAt = now + window\<rparr>"
      using step True None by (auto simp: allow_def no_prune [OF len] Let_def update_conv')
    ultimately show ?thesis using True \<open>ps = []\<close> by (intro exI [of _ now]) (simp add: counter_ok_def)
  next
    case (Some r)
    let ?x = "rr_resetAt r - window"
    have r: "\<forall>(s, t)\<in>set ps. s \<le> ?x" "int (length (filter (\<lambda>p. fst p = ?x) ps)) = rr_n r" "1 \<le> rr_n r" "?x \<le> before"
      using ok Some by (simp_all add: counter_ok_def)
    show ?thesis
    proof (cases "rr_resetAt r < now")
      case fresh: True
      have late: "\<forall>(s, t)\<in>set ps. s + window < now" using r(1) fresh by fastforce
      have res: "passed" "map_of l' key = Some \<lparr>rr_n = 1, rr_resetAt = now + window\<rparr>"
        using step True Some fresh by (auto simp: allow_def no_prune [OF len] Let_def update_conv')
      have none: "filter (\<lambda>p. fst p = now) ps = []" using late w(1) by (auto simp: filter_empty_conv)
      have "\<forall>(s, t)\<in>set ps. s \<le> now" using late w(1) by fastforce
      then have "counter_ok window limit key now ((now, now) # ps) l'"
        using fixed_windows_new [OF fw w(2,1) late] older none by (simp add: counter_ok_def res(2))
      then show ?thesis using True res(1) by auto
    next
      case running: False
      show ?thesis
      proof (cases "int limit \<le> rr_n r")
        case full: True
        then have "\<not> passed" "l' = l" using step True Some running by (auto simp: allow_def no_prune [OF len] Let_def)
        moreover have "counter_ok window limit key now ps l" using ok t older Some by (simp add: counter_ok_def)
        ultimately show ?thesis by simp
      next
        case room: False
        have res: "passed" "map_of l' key = Some (r\<lparr>rr_n := rr_n r + 1\<rparr>)"
          using step True Some running room by (auto simp: allow_def no_prune [OF len] Let_def update_conv')
        have "filter (\<lambda>p. fst p = ?x) ps \<noteq> []" using r(2,3) by auto
        then obtain t0 where "(?x, t0) \<in> set ps" by (force simp: filter_empty_conv)
        then have "fixed_windows window limit ((?x, now) # ps)"
          using fixed_windows_more [OF fw, of ?x now] r t room running by simp
        then have "counter_ok window limit key now ((?x, now) # ps) l'"
          using r t older by (auto simp: counter_ok_def res(2))
        then show ?thesis using True res(1) by auto
      qed
    qed
  qed
qed

lemma allow_keys:
  assumes "allow k limit window now l = (ok, l')" "length l \<le> 4096" "distinct (map fst l)"
  shows "distinct (map fst l') \<and> fst ` set l' \<subseteq> insert k (fst ` set l)"
proof -
  have "distinct (map fst (AList.update k r l)) \<and> fst ` set (AList.update k r l) \<subseteq> insert k (fst ` set l)" for r
    using assms(3) by (simp add: distinct_update dom_update)
  then show ?thesis
    using assms(1,3) by (auto simp: allow_def no_prune [OF assms(2)] Let_def split: option.splits if_splits)
qed

lemma rate_run_counter:
  assumes "counter_ok window limit key before ps l" "\<forall>r\<in>set rs. before \<le> snd r" "sorted (map snd rs)" "0 \<le> window" "0 < limit"
    and "distinct (map fst l)" "fst ` set l \<subseteq> K" "fst ` set rs \<subseteq> K" "finite K" "card K \<le> 4096"
  shows "\<exists>qs. fixed_windows window limit qs \<and>
    map snd qs = rev (map snd (filter (\<lambda>p. fst p = key) (fst (rate_run (int limit) window rs l)))) @ map snd ps"
  using assms
proof (induction rs arbitrary: before ps l)
  case Nil
  then show ?case by (auto simp: counter_ok_def intro: exI [of _ ps])
next
  case (Cons r rs)
  obtain k now where r: "r = (k, now)" by (cases r)
  obtain ok l' where a: "allow k (int limit) window now l = (ok, l')" by (metis surj_pair)
  have "length l = card (fst ` set l)" using Cons.prems(6) by (metis distinct_card length_map set_map)
  then have len: "length l \<le> 4096" using card_mono [OF Cons.prems(9,7)] Cons.prems(10) by simp
  obtain s where s: "counter_ok window limit key now (if ok \<and> k = key then (s, now) # ps else ps) l'"
    using counter_step [OF Cons.prems(1) len _ Cons.prems(4,5) a] Cons.prems(2) r by auto
  have "k \<in> K" using Cons.prems(8) r by simp
  then have keys: "distinct (map fst l')" "fst ` set l' \<subseteq> K"
    using allow_keys [OF a len Cons.prems(6)] Cons.prems(7) by blast+
  have tail: "\<forall>q\<in>set rs. now \<le> snd q" "sorted (map snd rs)" "fst ` set rs \<subseteq> K" using Cons.prems(3,8) r by auto
  obtain out l'' where b: "rate_run (int limit) window rs l' = (out, l'')" by (metis surj_pair)
  obtain qs where qs: "fixed_windows window limit qs"
    "map snd qs = rev (map snd (filter (\<lambda>p. fst p = key) out)) @ map snd (if ok \<and> k = key then (s, now) # ps else ps)"
    using Cons.IH [OF s tail(1,2) Cons.prems(4,5) keys tail(3) Cons.prems(9,10)] b by auto
  have "fst (rate_run (int limit) window (r # rs) l) = (if ok then (k, now) # out else out)" using a b r by simp
  then show ?case using qs by (intro exI [of _ qs]) auto
qed

text \<open>
  Property C31. While no more than 4096 sources call, at most twice the ceiling passes for one source in any stretch as long
  as the window, however its requests are spread and whatever the others send.
\<close>

theorem rate_bounded_in_any_window:
  assumes "card (fst ` set rs) \<le> 4096" and "sorted (map snd rs)" and "0 \<le> window" and "0 < limit"
  shows "length (filter (\<lambda>(k, t). k = key \<and> a \<le> t \<and> t \<le> a + window) (fst (rate_run (int limit) window rs []))) \<le> 2 * limit"
proof -
  let ?out = "filter (\<lambda>p. fst p = key) (fst (rate_run (int limit) window rs []))"
  let ?in = "\<lambda>t. a \<le> t \<and> t \<le> a + window"
  have before: "\<forall>r\<in>set rs. snd (hd rs) \<le> snd r" using assms(2) by (cases rs) auto
  have "counter_ok window limit key (snd (hd rs)) [] []" by (simp add: counter_ok_def fixed_windows_def)
  from rate_run_counter [OF this before assms(2-4), of "fst ` set rs"]
  obtain qs where qs: "fixed_windows window limit qs" "map snd qs = rev (map snd ?out)" using assms(1) by auto
  have count: "length (filter (\<lambda>p. ?in (snd p)) ps) = length (filter ?in (map snd ps))" for ps :: "('x \<times> int) list"
    by (induction ps) auto
  have "length (filter (\<lambda>p. ?in (snd p)) ?out) = length (filter (\<lambda>p. ?in (snd p)) qs)"
    unfolding count qs(2) by (simp flip: rev_filter)
  moreover have "filter (\<lambda>(k, t). k = key \<and> ?in t) ps = filter (\<lambda>p. ?in (snd p)) (filter (\<lambda>p. fst p = key) ps)" for ps :: "(string \<times> int) list"
    by (induction ps) auto
  ultimately show ?thesis using passes_bounded [OF qs(1), of a] by simp
qed

section \<open>Saved limits are what is read\<close>

lemma limit_field_keys: "distinct (map fst limit_fields)"
  by (simp add: limit_fields_def)

lemma saved_limit:
  "distinct (map fst fs) \<Longrightarrow>
   fold (\<lambda>(key, _) m. case inp key of None \<Rightarrow> m | Some v \<Rightarrow> m(key \<mapsto> itoa v)) fs meta k =
     (if k \<in> fst ` set fs \<and> inp k \<noteq> None then Some (itoa (the (inp k))) else meta k)"
proof (induction fs arbitrary: meta)
  case (Cons f fs)
  then show ?case by (cases f) (auto split: option.splits)
qed simp

text \<open>
  A save that is accepted changes just the settings it names, each is read back as the number that was sent
  whatever the default is, and a number outside its range refuses the whole save.
\<close>
theorem limits_read_back:
  assumes "applyLimits inp meta = Inr meta'" and "(key, lo, hi, zero) \<in> set limit_fields"
  shows "case inp key of
      None \<Rightarrow> meta' key = meta key
    | Some v \<Rightarrow> lo \<le> v \<and> v \<le> hi \<and> meta' key = Some (itoa v) \<and> settingInt (itoa v) def lo hi = v"
proof -
  have none: "find (bad_limit inp) limit_fields = None" and
    res: "meta' = fold (\<lambda>(key, _) m. case inp key of None \<Rightarrow> m | Some v \<Rightarrow> m(key \<mapsto> itoa v)) limit_fields meta"
    using assms(1) by (auto simp: applyLimits_def split: option.splits)
  have val: "meta' key = (if inp key \<noteq> None then Some (itoa (the (inp key))) else meta key)"
    unfolding res saved_limit [OF limit_field_keys] using assms(2) by force
  show ?thesis
  proof (cases "inp key")
    case (Some v)
    have "\<not> bad_limit inp (key, lo, hi, zero)" using none assms(2) by (auto simp: find_None_iff)
    then have v: "lo \<le> v" "v \<le> hi" using Some by (auto simp: bad_limit_def)
    have "0 \<le> lo \<and> hi \<le> 100000" using assms(2) by (auto simp: limit_fields_def)
    then have "atoi (itoa v) = Some v" using v by simp
    then show ?thesis using Some v val by (simp add: settingInt_def)
  qed (use val in simp)
qed

section \<open>A flood, a rush and a save\<close>

definition demo_cfg :: throttleCfg where
  "demo_cfg = \<lparr>tc_max = 2, tc_window = 900, tc_lock = Some 3600\<rparr>"

lemma demo_locked: "locked_till ''u:ann'' 3610 (throttle_run [Fail demo_cfg ''u:ann'' 5, Fail demo_cfg ''u:ann'' 10] [])"
  by (simp add: locked_till_def throttle_run_def record_fail_def prune_def maxEntries_def counted_def Let_def lapsed_rec_def serving_def
      demo_cfg_def)

lemma lock_outlives_flood_witness:
  "blocked demo_cfg ''u:ann'' 3000 (throttle_run [Fail demo_cfg ''ip:1'' 20, Fail demo_cfg ''u:ann'' 2000, Clear ''ip:1'']
     (throttle_run [Fail demo_cfg ''u:ann'' 5, Fail demo_cfg ''u:ann'' 10] []))"
  by (rule lock_outlives_flood [OF demo_locked]) simp_all

lemma refused_only_at_ceiling_witness:
  "blocked demo_cfg ''u:ann'' 20 (throttle_run [Fail demo_cfg ''u:ann'' 5, Fail demo_cfg ''u:ann'' 10] []) \<and>
   tc_max demo_cfg \<le> fails_since ''u:ann'' (rev [Fail demo_cfg ''u:ann'' 5, Fail demo_cfg ''u:ann'' 10])"
proof -
  let ?ops = "[Fail demo_cfg ''u:ann'' 5, Fail demo_cfg ''u:ann'' 10]"
  have b: "blocked demo_cfg ''u:ann'' 20 (throttle_run ?ops [])"
    using demo_locked by (auto simp: locked_till_def blocked_def serving_def)
  have "\<forall>op\<in>set ?ops. case op of Fail c _ _ \<Rightarrow> tc_max c = tc_max demo_cfg | Clear _ \<Rightarrow> True" by simp
  from refused_only_at_ceiling [OF this b] b show ?thesis by blast
qed

lemma rate_bounded_in_any_window_witness:
  "length (filter (\<lambda>(k, t). k = ''ip:1'' \<and> 50 \<le> t \<and> t \<le> 50 + 60)
     (fst (rate_run 2 60 [(''ip:1'', 0), (''ip:1'', 50), (''ip:2'', 55), (''ip:1'', 61), (''ip:1'', 62), (''ip:1'', 63)] []))) = 3"
proof -
  let ?rs = "[(''ip:1'', 0), (''ip:1'', 50), (''ip:2'', 55), (''ip:1'', 61), (''ip:1'', 62), (''ip:1'', 63 :: int)]"
  have "fst ` set ?rs \<subseteq> {''ip:1'', ''ip:2''}" by auto
  then have "card (fst ` set ?rs) \<le> card {''ip:1'', ''ip:2''}" by (intro card_mono) simp_all
  then have "card (fst ` set ?rs) \<le> 4096" by simp
  moreover have "sorted (map snd ?rs)" "(0 :: int) \<le> 60" "(0 :: nat) < 2" by simp_all
  ultimately have "length (filter (\<lambda>(k, t). k = ''ip:1'' \<and> 50 \<le> t \<and> t \<le> 50 + 60) (fst (rate_run (int 2) 60 ?rs []))) \<le> 2 * 2"
    by (rule rate_bounded_in_any_window)
  then show ?thesis by (simp add: allow_def rate_pruned_def Let_def)
qed

lemma limits_read_back_witness:
  "\<exists>m. applyLimits [''login_fail_max'' \<mapsto> 20] (\<lambda>_. None) = Inr m \<and> settingInt (the (m ''login_fail_max'')) 10 1 1000 = 20"
proof -
  have "find (bad_limit [''login_fail_max'' \<mapsto> 20]) limit_fields = None"
    by (simp add: limit_fields_def bad_limit_def)
  then obtain m where m: "applyLimits [''login_fail_max'' \<mapsto> 20] (\<lambda>_. None) = Inr m" by (simp add: applyLimits_def)
  have "(''login_fail_max'', 1, 1000, False) \<in> set limit_fields" by (simp add: limit_fields_def)
  from limits_read_back [OF m this, of 10] m show ?thesis by simp
qed

end
