(* ===== verification/Web_Token.thy ===== *)
theory Web_Token
  imports Prelude
begin

text \<open>
  How the portal writes a signed token: a message in unpadded URL base64 (\<open>base64.RawURLEncoding\<close>), a dot and
  the signature of the message. The decoder is the one of the Go library: it skips line breaks and does not
  look at the bits left over in the last character, so it undoes the encoder but has more than one text for
  one message. \<open>cut_at\<close> and \<open>cut_last\<close> split a text at the first and the last occurrence of a separator.
\<close>

section \<open>Cutting a text\<close>

fun cut_at :: "char \<Rightarrow> string \<Rightarrow> (string \<times> string) option" where
  "cut_at c [] = None"
| "cut_at c (x # xs) = (if x = c then Some ([], xs) else map_option (apfst ((#) x)) (cut_at c xs))"

definition cut_last :: "char \<Rightarrow> string \<Rightarrow> (string \<times> string) option" where
  "cut_last c s = map_option (\<lambda>(a, b). (rev b, rev a)) (cut_at c (rev s))"

lemma cut_at_first [simp]: "c \<notin> set a \<Longrightarrow> cut_at c (a @ c # b) = Some (a, b)"
  by (induction a) auto

lemma cut_at_None: "cut_at c s = None \<longleftrightarrow> c \<notin> set s"
  by (induction s) auto

lemma cut_at_Some: "cut_at c s = Some (a, b) \<longleftrightarrow> s = a @ c # b \<and> c \<notin> set a"
proof (induction s arbitrary: a)
  case (Cons x xs)
  show ?case using Cons by (cases a) auto
qed simp

lemma cut_last_here [simp]: "c \<notin> set b \<Longrightarrow> cut_last c (a @ c # b) = Some (a, b)"
  by (simp add: cut_last_def)

lemma cut_last_None: "cut_last c s = None \<longleftrightarrow> c \<notin> set s"
  by (simp add: cut_last_def cut_at_None)

lemma cut_last_Some: "cut_last c s = Some (a, b) \<longleftrightarrow> s = a @ c # b \<and> c \<notin> set b"
proof
  assume "cut_last c s = Some (a, b)"
  then have "cut_at c (rev s) = Some (rev b, rev a)" by (auto simp: cut_last_def)
  then have "rev s = rev b @ c # rev a" "c \<notin> set b" by (simp_all add: cut_at_Some)
  then show "s = a @ c # b \<and> c \<notin> set b" by (metis append.assoc append_Cons append_Nil rev.simps(2) rev_append rev_rev_ident)
qed simp

section \<open>Base64\<close>

definition b64_char :: "nat \<Rightarrow> char" where
  "b64_char n = (if n < 26 then char_of (65 + n) else if n < 52 then char_of (71 + n)
     else if n < 62 then char_of (n - 4) else if n = 62 then CHR ''-'' else CHR ''_'')"

definition b64_value :: "char \<Rightarrow> nat option" where
  "b64_value c =
     (let k = (of_char c :: nat)
      in if 65 \<le> k \<and> k \<le> 90 then Some (k - 65) else if 97 \<le> k \<and> k \<le> 122 then Some (k - 71)
         else if 48 \<le> k \<and> k \<le> 57 then Some (k + 4) else if k = 45 then Some 62 else if k = 95 then Some 63 else None)"

fun b64_groups :: "nat list \<Rightarrow> nat list" where
  "b64_groups [] = []"
| "b64_groups [a] = [a div 4, (a mod 4) * 16]"
| "b64_groups [a, b] = [a div 4, (a mod 4) * 16 + b div 16, (b mod 16) * 4]"
| "b64_groups (a # b # c # rest) =
     a div 4 # ((a mod 4) * 16 + b div 16) # ((b mod 16) * 4 + c div 64) # (c mod 64) # b64_groups rest"

fun b64_bytes :: "nat list \<Rightarrow> nat list option" where
  "b64_bytes [] = Some []"
| "b64_bytes [s] = None"
| "b64_bytes [s, t] = Some [s * 4 + t div 16]"
| "b64_bytes [s, t, u] = Some [s * 4 + t div 16, (t mod 16) * 16 + u div 4]"
| "b64_bytes (s # t # u # v # rest) =
     map_option (\<lambda>bs. (s * 4 + t div 16) # ((t mod 16) * 16 + u div 4) # ((u mod 4) * 64 + v) # bs) (b64_bytes rest)"

definition encodeSessionMessage :: "string \<Rightarrow> string" where
  "encodeSessionMessage msg = map b64_char (b64_groups (map of_char msg))"

definition line_break :: "char \<Rightarrow> bool" where
  "line_break c \<longleftrightarrow> (of_char c :: nat) \<in> {10, 13}"

definition b64_decode :: "string \<Rightarrow> string option" where
  "b64_decode s =
     (case those (map b64_value (filter (\<lambda>c. \<not> line_break c) s)) of
        None \<Rightarrow> None
      | Some ds \<Rightarrow> map_option (map char_of) (b64_bytes ds))"

lemma of_char_of_small: "n < 256 \<Longrightarrow> of_char (char_of n) = (n :: nat)"
  by (simp add: of_char_of)

lemma b64_char_code:
  assumes "n < 64"
  shows "(of_char (b64_char n) :: nat) =
    (if n < 26 then 65 + n else if n < 52 then 71 + n else if n < 62 then n - 4 else if n = 62 then 45 else 95)"
proof -
  have "(of_char (CHR ''-'') :: nat) = 45" "(of_char (CHR ''_'') :: nat) = 95" by simp_all
  then show ?thesis using assms by (simp add: b64_char_def of_char_of_small)
qed

lemma b64_value_char [simp]: "n < 64 \<Longrightarrow> b64_value (b64_char n) = Some n"
  by (auto simp: b64_value_def Let_def b64_char_code)

lemma b64_char_plain: "n < 64 \<Longrightarrow> \<not> line_break (b64_char n) \<and> b64_char n \<noteq> CHR ''.''"
proof -
  assume n: "n < 64"
  have "(of_char (b64_char n) :: nat) \<noteq> 46" unfolding b64_char_code [OF n] using n by auto
  moreover have "(of_char (CHR ''.'') :: nat) = 46" by simp
  ultimately have "b64_char n \<noteq> CHR ''.''" by metis
  then show ?thesis unfolding line_break_def b64_char_code [OF n] by auto
qed

lemma div_small: "(b :: nat) < 256 \<Longrightarrow> b div 4 < 64" "(b :: nat) < 256 \<Longrightarrow> b div 16 < 16" "(b :: nat) < 256 \<Longrightarrow> b div 64 < 4"
  by (simp_all add: div_less_iff_less_mult)

lemma mod_small: "(b :: nat) mod 4 < 4" "(b :: nat) mod 16 < 16" "(b :: nat) mod 64 < 64"
  by simp_all

lemma sextets_small:
  fixes a b c :: nat
  assumes "a < 256" "b < 256" "c < 256"
  shows "a div 4 < 64" "a mod 4 * 16 + b div 16 < 64" "b mod 16 * 4 + c div 64 < 64" "c mod 64 < 64"
    "a mod 4 * 16 < 64" "b mod 16 * 4 < 64"
proof -
  show "a div 4 < 64" "c mod 64 < 64" using div_small(1) [OF assms(1)] by simp_all
  show "a mod 4 * 16 + b div 16 < 64" using div_small(2) [OF assms(2)] mod_small(1) [of a] by linarith
  show "b mod 16 * 4 + c div 64 < 64" using div_small(3) [OF assms(3)] mod_small(2) [of b] by linarith
  show "a mod 4 * 16 < 64" using mod_small(1) [of a] by linarith
  show "b mod 16 * 4 < 64" using mod_small(2) [of b] by linarith
qed

lemma b64_groups_small: "\<forall>b\<in>set bs. b < 256 \<Longrightarrow> \<forall>s\<in>set (b64_groups bs). s < 64"
proof (induction bs rule: b64_groups.induct)
  case (2 a)
  then show ?case using sextets_small [of a a a] by simp
next
  case (3 a b)
  then show ?case using sextets_small [of a b b] by simp
next
  case (4 a b c rest)
  then show ?case using sextets_small [of a b c] by simp
qed simp

lemma split_byte:
  fixes q r :: nat
  shows "r < 16 \<Longrightarrow> (q * 16 + r) div 16 = q" "r < 16 \<Longrightarrow> (q * 16 + r) mod 16 = r"
    "r < 4 \<Longrightarrow> (q * 4 + r) div 4 = q" "r < 4 \<Longrightarrow> (q * 4 + r) mod 4 = r"
  by simp_all

lemma group_bytes:
  fixes a b c :: nat
  assumes "b < 256" "c < 256"
  shows "a div 4 * 4 + (a mod 4 * 16 + b div 16) div 16 = a"
    "(a mod 4 * 16 + b div 16) mod 16 * 16 + (b mod 16 * 4 + c div 64) div 4 = b"
    "(b mod 16 * 4 + c div 64) mod 4 * 64 + c mod 64 = c"
    "a div 4 * 4 + (a mod 4 * 16) div 16 = a"
    "(a mod 4 * 16 + b div 16) mod 16 * 16 + (b mod 16 * 4) div 4 = b"
  using div_small [OF assms(1)] div_small [OF assms(2)]
  by (simp_all only: split_byte div_mult_mod_eq nonzero_mult_div_cancel_right)

lemma b64_bytes_groups: "\<forall>b\<in>set bs. b < 256 \<Longrightarrow> b64_bytes (b64_groups bs) = Some bs"
proof (induction bs rule: b64_groups.induct)
  case (3 a b)
  then show ?case unfolding b64_groups.simps b64_bytes.simps using group_bytes(1,4,5) [of b b a] by simp
next
  case (4 a b c rest)
  then show ?case unfolding b64_groups.simps b64_bytes.simps using group_bytes(1,2) [of b c a] group_bytes(3) [of b c] by simp
qed simp_all

lemma those_map_Some: "(\<And>x. x \<in> set xs \<Longrightarrow> f x = Some (g x)) \<Longrightarrow> those (map f xs) = Some (map g xs)"
  by (induction xs) auto

lemma b64_decode_encode [simp]: "b64_decode (encodeSessionMessage msg) = Some msg"
proof -
  let ?g = "b64_groups (map of_char msg) :: nat list"
  have bytes: "\<forall>b\<in>set (map of_char msg). b < (256 :: nat)" by auto
  have small: "s < 64" if "s \<in> set ?g" for s using b64_groups_small [OF bytes] that by simp
  have "filter (\<lambda>c. \<not> line_break c) (map b64_char ?g) = map b64_char ?g"
    using small b64_char_plain by (simp add: filter_id_conv)
  moreover have "those (map b64_value (map b64_char ?g)) = Some ?g"
    using those_map_Some [of ?g "b64_value \<circ> b64_char" "\<lambda>s. s"] small by simp
  ultimately show ?thesis
    by (simp add: b64_decode_def encodeSessionMessage_def b64_bytes_groups [OF bytes] comp_def)
qed

lemma encode_no_dot [simp]: "CHR ''.'' \<notin> set (encodeSessionMessage msg)"
proof
  assume "CHR ''.'' \<in> set (encodeSessionMessage msg)"
  then obtain s where "s \<in> set (b64_groups (map of_char msg))" "b64_char s = CHR ''.''" by (auto simp: encodeSessionMessage_def)
  then show False using b64_groups_small [of "map of_char msg"] b64_char_plain by fastforce
qed

lemma encode_inject [simp]: "encodeSessionMessage a = encodeSessionMessage b \<longleftrightarrow> a = b"
  by (metis b64_decode_encode option.inject)

section \<open>Two texts of one message\<close>

text \<open>Where the last group is short, the low bits of its last character are not read.\<close>

definition loose_groups :: "nat list \<Rightarrow> nat list" where
  "loose_groups gs = butlast gs @ [Suc (last gs)]"

definition loose_text :: "string \<Rightarrow> string" where
  "loose_text msg = map b64_char (loose_groups (b64_groups (map of_char msg)))"

lemma b64_groups_Nil: "b64_groups bs = [] \<longleftrightarrow> bs = []"
  by (cases bs rule: b64_groups.cases) auto

lemma loose_cons: "gs \<noteq> [] \<Longrightarrow> loose_groups (g # gs) = g # loose_groups gs"
  by (simp add: loose_groups_def)

lemma low_bit: "Suc (x * 16) div 16 = x" "Suc (x * 4) div 4 = x"
  using split_byte(1) [of 1 x] split_byte(3) [of 1 x] by simp_all

lemma loose_bytes: "length bs mod 3 \<noteq> 0 \<Longrightarrow> b64_bytes (loose_groups (b64_groups bs)) = b64_bytes (b64_groups bs)"
proof (induction bs rule: b64_groups.induct)
  case (4 a b c rest)
  then have "b64_groups rest \<noteq> []" "length rest mod 3 \<noteq> 0" by (auto simp: b64_groups_Nil)
  then show ?case using 4 by (simp add: loose_cons)
qed (simp_all add: loose_groups_def low_bit)

lemma loose_last: "\<forall>b\<in>set bs. b < 256 \<Longrightarrow> length bs mod 3 \<noteq> 0 \<Longrightarrow> Suc (last (b64_groups bs)) < 64"
proof (induction bs rule: b64_groups.induct)
  case (2 a)
  then show ?case using mod_small(1) [of a] by simp
next
  case (3 a b)
  then show ?case using mod_small(2) [of b] by simp
next
  case (4 a b c rest)
  then have "b64_groups rest \<noteq> []" "length rest mod 3 \<noteq> 0" by (auto simp: b64_groups_Nil)
  then show ?case using 4 by simp
qed simp

lemma decode_groups:
  assumes "\<forall>s\<in>set gs. s < 64"
  shows "b64_decode (map b64_char gs) = map_option (map char_of) (b64_bytes gs)"
proof -
  have "filter (\<lambda>c. \<not> line_break c) (map b64_char gs) = map b64_char gs"
    using assms b64_char_plain by (simp add: filter_id_conv)
  moreover have "those (map b64_value (map b64_char gs)) = Some gs"
    using those_map_Some [of gs "b64_value \<circ> b64_char" "\<lambda>s. s"] assms by simp
  ultimately show ?thesis by (simp add: b64_decode_def)
qed

lemma loose_text_reads:
  assumes "length msg mod 3 \<noteq> 0"
  shows "b64_decode (loose_text msg) = Some msg" "loose_text msg \<noteq> encodeSessionMessage msg" "CHR ''.'' \<notin> set (loose_text msg)"
proof -
  let ?bs = "map of_char msg :: nat list" and ?gs = "b64_groups (map of_char msg) :: nat list"
  have bs: "\<forall>b\<in>set ?bs. b < 256" "length ?bs mod 3 \<noteq> 0" using assms by auto
  have ne: "?gs \<noteq> []" using assms by (auto simp: b64_groups_Nil)
  have small: "\<forall>s\<in>set (loose_groups ?gs). s < 64"
    using b64_groups_small [OF bs(1)] loose_last [OF bs] by (auto simp: loose_groups_def dest: in_set_butlastD)
  show "b64_decode (loose_text msg) = Some msg"
    using decode_groups [OF small] by (simp add: loose_text_def loose_bytes [OF bs(2)] b64_bytes_groups [OF bs(1)] comp_def)
  show "CHR ''.'' \<notin> set (loose_text msg)" using small b64_char_plain by (force simp: loose_text_def)
  have "b64_char (Suc (last ?gs)) \<noteq> b64_char (last ?gs)"
    using b64_value_char [of "Suc (last ?gs)"] b64_value_char [of "last ?gs"] loose_last [OF bs] by (metis Suc_lessD n_not_Suc_n option.inject)
  then have "last (loose_text msg) \<noteq> last (encodeSessionMessage msg)"
    using ne by (simp add: loose_text_def loose_groups_def encodeSessionMessage_def last_map)
  then show "loose_text msg \<noteq> encodeSessionMessage msg" by metis
qed

section \<open>A signed message\<close>

definition signed :: "(string \<Rightarrow> string) \<Rightarrow> string \<Rightarrow> string" where
  "signed mac msg = encodeSessionMessage msg @ ''.'' @ mac msg"

text \<open>The message of a token and its signature, before the signature is checked.\<close>

definition token_parts :: "string \<Rightarrow> (string \<times> string) option" where
  "token_parts tok =
     (case cut_at (CHR ''.'') tok of
        None \<Rightarrow> None
      | Some (p, sig) \<Rightarrow> map_option (\<lambda>msg. (msg, sig)) (b64_decode p))"

definition signed_message :: "(string \<Rightarrow> string) \<Rightarrow> string \<Rightarrow> string option" where
  "signed_message mac tok =
     (case token_parts tok of None \<Rightarrow> None | Some (msg, sig) \<Rightarrow> if mac msg = sig then Some msg else None)"

lemma token_parts_dot [simp]: "token_parts (encodeSessionMessage msg @ CHR ''.'' # sig) = Some (msg, sig)"
  by (simp add: token_parts_def)

lemma signed_message_signed [simp]: "signed_message mac (signed mac msg) = Some msg"
  by (simp add: signed_message_def signed_def)

lemma digits_no_sep: "c \<in> set (itoa n) \<Longrightarrow> c = CHR ''-'' \<or> is_digit c"
  using nat_digits_read [of "nat n"] nat_digits_read [of "nat (- n)"]
  by (auto simp: itoa_def all_digits_def list_all_iff split: if_splits)

lemma itoa_no_bar [simp]: "CHR ''|'' \<notin> set (itoa n)"
  using digits_no_sep [of "CHR ''|''" n] by (auto simp: is_digit_def)

end
