(* ===== verification/Sessions.thy ===== *)
theory Sessions
  imports Web_Token Accounts
begin

text \<open>
  Sign-in sessions (sessions.go, verify and currentActiveUser of server.go, apiLogout of apiui.go) and the
  other signed tokens: the link of a password reset (password_reset.go) and the owner token of a run. A cookie
  is a signed message naming an account, the revision of its credentials, a session and an expiry; a session
  is a row that can be revoked; raising the revision of the account ends all of them. \<open>mac\<close> signs with the
  secret of the portal, \<open>h\<close> is a hash in hexadecimal, times are seconds. The address, client and method
  columns of a session are left out.
\<close>

section \<open>The table of sessions\<close>

record sessRow =
  ss_ID :: string
  ss_Username :: string
  ss_Revision :: int
  ss_CreatedAt :: int
  ss_LastSeen :: int
  ss_ExpiresAt :: int
  ss_Revoked :: bool

record sessDb =
  se_acct :: acctDb
  se_rows :: "sessRow list"

definition upd_sess :: "(sessRow \<Rightarrow> bool) \<Rightarrow> (sessRow \<Rightarrow> sessRow) \<Rightarrow> sessDb \<Rightarrow> sessDb" where
  "upd_sess P f db = db\<lparr>se_rows := update_where P f (se_rows db)\<rparr>"

definition live_session :: "string \<Rightarrow> string \<Rightarrow> int \<Rightarrow> int \<Rightarrow> sessRow \<Rightarrow> bool" where
  "live_session sid user rv till r \<longleftrightarrow>
     ss_ID r = sid \<and> ss_Username r = user \<and> ss_Revision r = rv \<and> ss_ExpiresAt r = till \<and> \<not> ss_Revoked r"

definition count_live :: "string \<Rightarrow> string \<Rightarrow> int \<Rightarrow> int \<Rightarrow> sessDb \<Rightarrow> nat" where
  "count_live sid user rv till db = length (filter (live_session sid user rv till) (se_rows db))"

section \<open>Cookies\<close>

definition session_message :: "accountRow \<Rightarrow> string \<Rightarrow> int \<Rightarrow> string" where
  "session_message u sid till = ''v2|'' @ ac_username u @ ''|'' @ itoa (ac_sessionRev u) @ ''|'' @ sid @ ''|'' @ itoa till"

definition managedCookie :: "(string \<Rightarrow> string) \<Rightarrow> accountRow \<Rightarrow> string \<Rightarrow> int \<Rightarrow> string" where
  "managedCookie mac u sid till = signed mac (session_message u sid till)"

definition signUserFor :: "(string \<Rightarrow> string) \<Rightarrow> int \<Rightarrow> int \<Rightarrow> accountRow \<Rightarrow> int \<Rightarrow> string" where
  "signUserFor mac default_ttl now u ttl =
     signed mac (''v1|'' @ ac_username u @ ''|'' @ itoa (ac_sessionRev u) @ ''|'' @ itoa (now + (if ttl \<le> 0 then default_ttl else ttl)))"

definition legacySessionID :: "(string \<Rightarrow> string) \<Rightarrow> string \<Rightarrow> string" where
  "legacySessionID h cookie = ''legacy-'' @ h cookie"

definition before_dot :: "string \<Rightarrow> string" where
  "before_dot tok = (case cut_at (CHR ''.'') tok of None \<Rightarrow> tok | Some (p, _) \<Rightarrow> p)"

definition sessionID :: "(string \<Rightarrow> string) \<Rightarrow> string \<Rightarrow> string" where
  "sessionID h cookie =
     (case b64_decode (before_dot cookie) of
        None \<Rightarrow> []
      | Some msg \<Rightarrow>
          if \<not> has_prefix msg ''v2|'' then legacySessionID h cookie
          else (case cut_last (CHR ''|'') msg of
                  None \<Rightarrow> []
                | Some (front, _) \<Rightarrow> (case cut_last (CHR ''|'') front of None \<Rightarrow> [] | Some (_, sid) \<Rightarrow> sid)))"

text \<open>A cookie from before the table stands for the session it was moved to, while that row exists.\<close>

definition verifyLegacy :: "(string \<Rightarrow> string) \<Rightarrow> string \<Rightarrow> int \<Rightarrow> string \<Rightarrow> int \<Rightarrow> sessDb \<Rightarrow> string \<times> int" where
  "verifyLegacy h user rv cookie till db =
     (case find (\<lambda>r. ss_ID r = legacySessionID h cookie) (se_rows db) of
        None \<Rightarrow> (user, rv)
      | Some r \<Rightarrow> if ss_Username r \<noteq> user \<or> ss_Revision r \<noteq> rv \<or> ss_ExpiresAt r \<noteq> till \<or> ss_Revoked r then ([], 0)
                  else (user, rv))"

definition verify_managed :: "string \<Rightarrow> int \<Rightarrow> sessDb \<Rightarrow> string \<times> int" where
  "verify_managed front till db =
     (case cut_last (CHR ''|'') front of
        None \<Rightarrow> ([], 0)
      | Some (front2, sid) \<Rightarrow>
          if length front2 < 3 then ([], 0)
          else (case cut_last (CHR ''|'') front2 of
                  None \<Rightarrow> ([], 0)
                | Some (front3, r) \<Rightarrow>
                    if length front3 < 3 then ([], 0)
                    else (case atoi r of
                            None \<Rightarrow> ([], 0)
                          | Some rv \<Rightarrow> if count_live sid (drop 3 front3) rv till db \<noteq> 1 then ([], 0) else (drop 3 front3, rv))))"

definition verify_older :: "(string \<Rightarrow> string) \<Rightarrow> string \<Rightarrow> string \<Rightarrow> string \<Rightarrow> int \<Rightarrow> sessDb \<Rightarrow> string \<times> int" where
  "verify_older h cookie msg front till db =
     (if \<not> has_prefix msg ''v1|'' then verifyLegacy h front 0 cookie till db
      else case cut_last (CHR ''|'') front of
             None \<Rightarrow> ([], 0)
           | Some (front2, r) \<Rightarrow>
               if length front2 < 3 then ([], 0)
               else (case atoi r of
                       None \<Rightarrow> ([], 0)
                     | Some rv \<Rightarrow> if rv < 0 then ([], 0) else verifyLegacy h (drop 3 front2) rv cookie till db))"

definition verify :: "(string \<Rightarrow> string) \<Rightarrow> (string \<Rightarrow> string) \<Rightarrow> int \<Rightarrow> string \<Rightarrow> sessDb \<Rightarrow> string \<times> int" where
  "verify mac h now cookie db =
     (case signed_message mac cookie of
        None \<Rightarrow> ([], 0)
      | Some msg \<Rightarrow>
          (case cut_last (CHR ''|'') msg of
             None \<Rightarrow> ([], 0)
           | Some (front, e) \<Rightarrow>
               (case atoi e of
                  None \<Rightarrow> ([], 0)
                | Some till \<Rightarrow>
                    if till \<le> now then ([], 0)
                    else if has_prefix msg ''v2|'' then verify_managed front till db
                    else verify_older h cookie msg front till db)))"

section \<open>Issuing\<close>

text \<open>
  The insert takes the account and the revision the caller read; it adds nothing when either has changed or
  the session exists, and then the existing row must be the same live session. \<open>drawn\<close> is a fresh random id.
\<close>

definition newManagedSession ::
  "(string \<Rightarrow> string) \<Rightarrow> int \<Rightarrow> string \<Rightarrow> accountRow \<Rightarrow> int \<Rightarrow> string \<Rightarrow> sessDb \<Rightarrow> string option \<times> sessDb" where
  "newManagedSession mac now drawn u till given db =
     (let sid = (if given = [] then drawn else given);
          known = list_ex (\<lambda>a. ac_username a = ac_username u \<and> ac_sessionRev a = ac_sessionRev u) (ad_users (se_acct db));
          taken = list_ex (\<lambda>r. ss_ID r = sid) (se_rows db)
      in if known \<and> \<not> taken
         then (Some (managedCookie mac u sid till),
               db\<lparr>se_rows := se_rows db @
                 [\<lparr>ss_ID = sid, ss_Username = ac_username u, ss_Revision = ac_sessionRev u, ss_CreatedAt = now, ss_LastSeen = now,
                   ss_ExpiresAt = till, ss_Revoked = False\<rparr>]\<rparr>)
         else if count_live sid (ac_username u) (ac_sessionRev u) till db = 1 then (Some (managedCookie mac u sid till), db)
         else (None, db))"

definition setSessionCookieFor ::
  "(string \<Rightarrow> string) \<Rightarrow> int \<Rightarrow> int \<Rightarrow> string \<Rightarrow> accountRow \<Rightarrow> int \<Rightarrow> sessDb \<Rightarrow> string option \<times> sessDb" where
  "setSessionCookieFor mac default_ttl now drawn u ttl =
     newManagedSession mac now drawn u (now + (if ttl \<le> 0 then default_ttl else ttl)) []"

definition se_user :: "sessDb \<Rightarrow> string \<Rightarrow> accountRow option" where
  "se_user db name = GetUser (se_acct db) name"

text \<open>The cookie of the request afterwards, None once the request was answered with a refusal.\<close>

definition ensureManagedSession ::
  "(string \<Rightarrow> string) \<Rightarrow> (string \<Rightarrow> string) \<Rightarrow> int \<Rightarrow> string \<Rightarrow> string \<Rightarrow> sessDb \<Rightarrow> string option \<times> sessDb" where
  "ensureManagedSession mac h now user cookie db =
     (case b64_decode (before_dot cookie) of
        None \<Rightarrow> (None, db)
      | Some msg \<Rightarrow>
          if has_prefix msg ''v2|'' then (Some cookie, db)
          else if fst (verify mac h now cookie db) \<noteq> user then (None, db)
          else (case cut_last (CHR ''|'') msg of
                  None \<Rightarrow> (None, db)
                | Some (_, e) \<Rightarrow>
                    (case (atoi e, se_user db user) of
                       (Some till, Some u) \<Rightarrow>
                         if ac_sessionRev u \<noteq> snd (verify mac h now cookie db) then (None, db)
                         else newManagedSession mac now [] u till (legacySessionID h cookie) db
                     | _ \<Rightarrow> (None, db))))"

definition lastSeenInterval :: int where "lastSeenInterval = 300"

definition active_session :: "(string \<Rightarrow> string) \<Rightarrow> (string \<Rightarrow> string) \<Rightarrow> int \<Rightarrow> string \<Rightarrow> string \<Rightarrow> sessDb \<Rightarrow> string" where
  "active_session mac h now panelDate cookie db =
     (case verify mac h now cookie db of
        (user, rv) \<Rightarrow>
          if user = [] then []
          else (case se_user db user of
                  None \<Rightarrow> []
                | Some u \<Rightarrow> if \<not> ac_active u \<or> accountExpired panelDate u \<or> ac_sessionRev u \<noteq> rv then [] else user))"

definition currentActiveUser ::
  "(string \<Rightarrow> string) \<Rightarrow> (string \<Rightarrow> string) \<Rightarrow> int \<Rightarrow> string \<Rightarrow> string \<Rightarrow> sessDb \<Rightarrow> string \<times> sessDb" where
  "currentActiveUser mac h now panelDate cookie db =
     (let user = active_session mac h now panelDate cookie db; sid = sessionID h cookie
      in (user, if user = [] \<or> sid = [] then db
                else upd_sess (\<lambda>r. ss_ID r = sid \<and> ss_Username r = user \<and> ss_LastSeen r < now - lastSeenInterval)
                       (\<lambda>r. r\<lparr>ss_LastSeen := now\<rparr>) db))"

section \<open>Ending sessions\<close>

text \<open>Whether a session ended, and whether it was the one of the request.\<close>

definition apiSessionDelete :: "(string \<Rightarrow> string) \<Rightarrow> string \<Rightarrow> string \<Rightarrow> string \<Rightarrow> sessDb \<Rightarrow> (bool \<times> bool) \<times> sessDb" where
  "apiSessionDelete h user sid cookie db =
     (let hit = (\<lambda>r. ss_ID r = sid \<and> ss_Username r = user \<and> \<not> ss_Revoked r); found = list_ex hit (se_rows db)
      in ((found, found \<and> sid = sessionID h cookie), upd_sess hit (\<lambda>r. r\<lparr>ss_Revoked := True\<rparr>) db))"

text \<open>The transaction, with the revision read before it; None is the answer 401 and nothing written.\<close>

definition revokeSessions :: "int \<Rightarrow> string \<Rightarrow> int \<Rightarrow> bool \<Rightarrow> string \<Rightarrow> sessDb \<Rightarrow> (int \<times> sessDb) option" where
  "revokeSessions now user rv others sid db =
     (if \<not> list_ex (\<lambda>a. ac_username a = user \<and> ac_sessionRev a = rv) (ad_users (se_acct db)) then None
      else let acct = (se_acct db)\<lparr>ad_users := update_where (\<lambda>a. ac_username a = user \<and> ac_sessionRev a = rv)
                        (\<lambda>a. a\<lparr>ac_sessionRev := rv + 1\<rparr>) (ad_users (se_acct db))\<rparr>;
               mine = (\<lambda>r. ss_ID r = sid \<and> ss_Username r = user);
               sweep = filter (\<lambda>r. \<not> (ss_Username r = user \<and> ss_Revision r \<noteq> rv + 1))
           in if \<not> others then Some (0, \<lparr>se_acct = acct, se_rows = sweep (se_rows db)\<rparr>)
              else (case find (\<lambda>r. mine r \<and> ss_Revision r = rv \<and> now < ss_ExpiresAt r \<and> \<not> ss_Revoked r) (se_rows db) of
                      None \<Rightarrow> None
                    | Some r \<Rightarrow> Some (ss_ExpiresAt r, \<lparr>se_acct = acct,
                        se_rows = sweep (update_where mine (\<lambda>r. r\<lparr>ss_Revision := rv + 1\<rparr>) (se_rows db))\<rparr>)))"

text \<open>The endpoint: a status, or the cookie of the request afterwards, which is none after signing out everywhere.\<close>

definition apiSessionsRevoke ::
  "(string \<Rightarrow> string) \<Rightarrow> (string \<Rightarrow> string) \<Rightarrow> int \<Rightarrow> string \<Rightarrow> string \<Rightarrow> string \<Rightarrow> sessDb \<Rightarrow> (int + string option) \<times> sessDb" where
  "apiSessionsRevoke mac h now user scope cookie db =
     (if scope \<noteq> ''all'' \<and> scope \<noteq> ''others'' then (Inl 400, db)
      else case (if scope = ''others'' then ensureManagedSession mac h now user cookie db else (Some cookie, db)) of
             (None, db1) \<Rightarrow> (Inl 401, db1)
           | (Some cookie1, db1) \<Rightarrow>
               (case se_user db1 user of
                  None \<Rightarrow> (Inl 401, db1)
                | Some u \<Rightarrow>
                    (case revokeSessions now user (ac_sessionRev u) (scope = ''others'') (sessionID h cookie1) db1 of
                       None \<Rightarrow> (Inl 401, db1)
                     | Some (till, db2) \<Rightarrow>
                         (Inr (if scope = ''all'' then None
                               else Some (managedCookie mac (u\<lparr>ac_sessionRev := ac_sessionRev u + 1\<rparr>) (sessionID h cookie1) till)), db2))))"

definition apiLogout ::
  "(string \<Rightarrow> string) \<Rightarrow> (string \<Rightarrow> string) \<Rightarrow> int \<Rightarrow> string \<Rightarrow> string \<Rightarrow> sessDb \<Rightarrow> bool \<times> sessDb" where
  "apiLogout mac h now panelDate cookie db =
     (case currentActiveUser mac h now panelDate cookie db of
        (user, db1) \<Rightarrow>
          if user = [] then (True, db1)
          else (case ensureManagedSession mac h now user cookie db1 of
                  (None, db2) \<Rightarrow> (False, db2)
                | (Some cookie1, db2) \<Rightarrow>
                    (True, upd_sess (\<lambda>r. ss_ID r = sessionID h cookie1 \<and> ss_Username r = user) (\<lambda>r. r\<lparr>ss_Revoked := True\<rparr>) db2)))"

definition purgeSessions :: "int \<Rightarrow> sessDb \<Rightarrow> sessDb" where
  "purgeSessions now db =
     db\<lparr>se_rows := filter (\<lambda>r. \<not> (ss_ExpiresAt r \<le> now \<or>
       \<not> list_ex (\<lambda>a. ac_username a = ss_Username r \<and> ac_sessionRev a = ss_Revision r) (ad_users (se_acct db)))) (se_rows db)\<rparr>"

text \<open>The list a reader sees of its own sessions.\<close>

definition later_seen :: "sessRow \<Rightarrow> sessRow \<Rightarrow> bool" where
  "later_seen a b \<longleftrightarrow> ss_LastSeen b < ss_LastSeen a \<or> ss_LastSeen a = ss_LastSeen b \<and> ss_ID a < ss_ID b"

definition apiSessions ::
  "(string \<Rightarrow> string) \<Rightarrow> (string \<Rightarrow> string) \<Rightarrow> int \<Rightarrow> string \<Rightarrow> string \<Rightarrow> sessDb \<Rightarrow> (sessRow \<times> bool) list option \<times> sessDb" where
  "apiSessions mac h now user cookie db =
     (case ensureManagedSession mac h now user cookie db of
        (None, db1) \<Rightarrow> (None, db1)
      | (Some cookie1, db1) \<Rightarrow>
          (case se_user db1 user of
             None \<Rightarrow> (None, db1)
           | Some u \<Rightarrow>
               (Some (map (\<lambda>r. (r, ss_ID r = sessionID h cookie1))
                  (stable_sort later_seen (filter (\<lambda>r. ss_Username r = user \<and> ss_Revision r = ac_sessionRev u \<and>
                     now < ss_ExpiresAt r \<and> \<not> ss_Revoked r) (se_rows db1)))), db1)))"

section \<open>Credentials\<close>

definition SetUserPassword :: "string \<Rightarrow> string \<Rightarrow> acctDb \<Rightarrow> acctDb" where
  "SetUserPassword name hash = upd_user name (\<lambda>u. u\<lparr>ac_hash := hash, ac_sessionRev := ac_sessionRev u + 1\<rparr>)"

definition BumpSessionRev :: "string \<Rightarrow> acctDb \<Rightarrow> acctDb" where
  "BumpSessionRev name = upd_user name (\<lambda>u. u\<lparr>ac_sessionRev := ac_sessionRev u + 1\<rparr>)"

definition UpsertUser :: "string \<Rightarrow> int \<Rightarrow> string \<Rightarrow> string \<Rightarrow> string \<Rightarrow> acctDb \<Rightarrow> acctDb" where
  "UpsertUser now epoch name hash role db =
     (let eff = (if role \<noteq> [] then role else ''user'')
      in if GetUser db name \<noteq> None
         then upd_user name (\<lambda>u. u\<lparr>ac_hash := hash, ac_role := eff, ac_sessionRev := ac_sessionRev u + 1\<rparr>) db
         else db\<lparr>ad_users := ad_users db @
                [\<lparr>ac_username = name, ac_hash = hash, ac_role = eff, ac_display = [], ac_email = [], ac_active = True,
                  ac_expires = [], ac_group = 0, ac_sessionRev = epoch, ac_created = now\<rparr>]\<rparr>)"

section \<open>Links of a password reset\<close>

definition resetTokenTTL :: int where "resetTokenTTL = 3600"

definition reset_message :: "string \<Rightarrow> int \<Rightarrow> string" where
  "reset_message user till = ''pwreset|'' @ user @ ''|'' @ itoa till"

definition resetToken :: "(string \<Rightarrow> string) \<Rightarrow> int \<Rightarrow> accountRow \<Rightarrow> string" where
  "resetToken mac now u =
     (let msg = reset_message (ac_username u) (now + resetTokenTTL)
      in encodeSessionMessage msg @ ''.'' @ mac (msg @ ''|'' @ ac_hash u))"

definition verifyResetToken :: "(string \<Rightarrow> string) \<Rightarrow> int \<Rightarrow> string \<Rightarrow> acctDb \<Rightarrow> string" where
  "verifyResetToken mac now token db =
     (case token_parts token of
        None \<Rightarrow> []
      | Some (msg, sig) \<Rightarrow>
          (case split_on (CHR ''|'') msg of
             [kind, user, e] \<Rightarrow>
               if kind \<noteq> ''pwreset'' then []
               else (case atoi e of
                       None \<Rightarrow> []
                     | Some till \<Rightarrow>
                         if till < now then []
                         else (case GetUser db user of
                                 None \<Rightarrow> []
                               | Some u \<Rightarrow> if \<not> ac_active u \<or> mac (msg @ ''|'' @ ac_hash u) \<noteq> sig then []
                                           else ac_username u))
           | _ \<Rightarrow> []))"

definition apiResetPassword ::
  "(string \<Rightarrow> string) \<Rightarrow> (string \<Rightarrow> string option) \<Rightarrow> bool \<Rightarrow> int \<Rightarrow> string \<Rightarrow> string \<Rightarrow> acctDb \<Rightarrow> (int \<times> string) + acctDb" where
  "apiResetPassword mac bcrypt recovery now token password db =
     (if \<not> recovery then Inl (403, ''password recovery is turned off on this portal'')
      else let user = verifyResetToken mac now token db
           in if user = [] then Inl (400, ''this reset link is invalid or has expired'')
              else case validateNewPassword password of
                     Some e \<Rightarrow> Inl (400, e)
                   | None \<Rightarrow> (case bcrypt password of
                               None \<Rightarrow> Inl (500, ''could not set password'')
                             | Some hash \<Rightarrow> Inr (SetUserPassword user hash db)))"

section \<open>Owner tokens\<close>

definition ownerTokenTTL :: int where "ownerTokenTTL = 604800"

record ownerClaims =
  oc_OU :: int
  oc_User :: string
  oc_IssuedAt :: int

definition owner_message :: "int \<Rightarrow> string \<Rightarrow> int \<Rightarrow> string" where
  "owner_message ou user till = ''ot1|'' @ itoa ou @ ''|'' @ user @ ''|'' @ itoa till"

definition mintOwnerToken :: "(string \<Rightarrow> string \<Rightarrow> string) \<Rightarrow> string \<Rightarrow> int \<Rightarrow> int \<Rightarrow> string \<Rightarrow> string" where
  "mintOwnerToken mac key now ou user =
     (if key = [] \<or> ou = 0 \<and> user = [] then [] else signed (mac key) (owner_message ou user (now + ownerTokenTTL)))"

definition parseOwnerToken :: "(string \<Rightarrow> string \<Rightarrow> string) \<Rightarrow> string \<Rightarrow> int \<Rightarrow> string \<Rightarrow> ownerClaims option" where
  "parseOwnerToken mac key now tok =
     (if key = [] then None
      else case signed_message (mac key) tok of
             None \<Rightarrow> None
           | Some msg \<Rightarrow>
               if \<not> has_prefix msg ''ot1|'' then None
               else (case cut_at (CHR ''|'') (drop 4 msg) of
                       None \<Rightarrow> None
                     | Some (o_text, rest) \<Rightarrow>
                         (case cut_last (CHR ''|'') rest of
                            None \<Rightarrow> None
                          | Some (user, e) \<Rightarrow>
                              (case atoi e of
                                 None \<Rightarrow> None
                               | Some till \<Rightarrow>
                                   if till < now then None
                                   else (case atoi o_text of
                                           None \<Rightarrow> None
                                         | Some ou \<Rightarrow> if ou < 0 \<or> ou = 0 \<and> user = [] then None
                                                      else Some \<lparr>oc_OU = ou, oc_User = user, oc_IssuedAt = till - ownerTokenTTL\<rparr>)))))"

section \<open>What an accepted cookie shows\<close>

lemma signed_message_parts:
  assumes "signed_message mac tok = Some msg"
  shows "b64_decode (before_dot tok) = Some msg \<and> (\<exists>p. tok = p @ CHR ''.'' # mac msg \<and> CHR ''.'' \<notin> set p)"
proof -
  obtain p sig where "cut_at (CHR ''.'') tok = Some (p, sig)" "b64_decode p = Some msg" "mac msg = sig"
    using assms by (auto simp: signed_message_def token_parts_def split: option.splits if_splits)
  then show ?thesis by (auto simp: before_dot_def cut_at_Some)
qed

lemma count_live_row: "count_live sid user rv till db = Suc 0 \<Longrightarrow> \<exists>r\<in>set (se_rows db). live_session sid user rv till r"
  unfolding count_live_def by (metis Zero_not_Suc filter_empty_conv list.size(3))

text \<open>A managed cookie is accepted only for the live row of the session it names.\<close>

lemma verify_cases:
  assumes "verify mac h now cookie db = (user, rv)" "user \<noteq> []"
  obtains msg front e till where "signed_message mac cookie = Some msg" "cut_last (CHR ''|'') msg = Some (front, e)"
    "atoi e = Some till" "now < till"
    "if has_prefix msg ''v2|'' then verify_managed front till db = (user, rv) else verify_older h cookie msg front till db = (user, rv)"
  using assms that by (auto simp: verify_def split: option.splits if_splits)

lemma managed_row:
  assumes "verify_managed front till db = (user, rv)" "user \<noteq> []"
  shows "\<exists>front2 sid. cut_last (CHR ''|'') front = Some (front2, sid) \<and> (\<exists>r\<in>set (se_rows db). live_session sid user rv till r)"
  using assms by (auto simp: verify_managed_def dest!: count_live_row split: option.splits if_splits)

lemma legacy_prefix [simp]: "has_prefix (legacySessionID h cookie) ''legacy-''"
  by (simp add: has_prefix_def legacySessionID_def)

lemma accepted_row:
  assumes "verify mac h now cookie db = (user, rv)" "user \<noteq> []" "\<not> has_prefix (sessionID h cookie) ''legacy-''"
  shows "\<exists>r\<in>set (se_rows db). live_session (sessionID h cookie) user rv (ss_ExpiresAt r) r \<and> now < ss_ExpiresAt r"
proof -
  obtain msg front e till where m: "signed_message mac cookie = Some msg" "cut_last (CHR ''|'') msg = Some (front, e)" "now < till"
    "if has_prefix msg ''v2|'' then verify_managed front till db = (user, rv) else verify_older h cookie msg front till db = (user, rv)"
    using verify_cases [OF assms(1,2)] by metis
  have dec: "b64_decode (before_dot cookie) = Some msg" using signed_message_parts [OF m(1)] by simp
  show ?thesis
  proof (cases "has_prefix msg ''v2|''")
    case True
    with m(4) obtain front2 sid r where s: "cut_last (CHR ''|'') front = Some (front2, sid)" "r \<in> set (se_rows db)"
      "live_session sid user rv till r" using managed_row assms(2) by fastforce
    then have "sessionID h cookie = sid" using True dec m(2) by (simp add: sessionID_def)
    then show ?thesis using s m(3) by (auto simp: live_session_def)
  next
    case False
    then have "sessionID h cookie = legacySessionID h cookie" using dec by (simp add: sessionID_def)
    then show ?thesis using assms(3) by simp
  qed
qed

section \<open>A session just issued\<close>

lemma session_message_parts:
  assumes "CHR ''|'' \<notin> set sid"
  shows "cut_last (CHR ''|'') (session_message u sid till) =
      Some (''v2|'' @ ac_username u @ ''|'' @ itoa (ac_sessionRev u) @ ''|'' @ sid, itoa till)"
    "cut_last (CHR ''|'') (''v2|'' @ ac_username u @ ''|'' @ itoa (ac_sessionRev u) @ ''|'' @ sid) =
      Some (''v2|'' @ ac_username u @ ''|'' @ itoa (ac_sessionRev u), sid)"
    "cut_last (CHR ''|'') (''v2|'' @ ac_username u @ ''|'' @ itoa (ac_sessionRev u)) = Some (''v2|'' @ ac_username u, itoa (ac_sessionRev u))"
  using assms by (simp_all add: cut_last_Some session_message_def)

lemma managed_cookie_id: "CHR ''|'' \<notin> set sid \<Longrightarrow> sessionID h (managedCookie mac u sid till) = sid"
proof -
  assume s: "CHR ''|'' \<notin> set sid"
  let ?msg = "session_message u sid till"
  have "b64_decode (before_dot (managedCookie mac u sid till)) = Some ?msg"
    by (simp add: managedCookie_def signed_def before_dot_def)
  moreover have "has_prefix ?msg ''v2|''" by (simp add: session_message_def has_prefix_def)
  ultimately show ?thesis by (simp only: sessionID_def option.case prod.case session_message_parts [OF s] not_True_eq_False if_False)
qed

definition int64 :: "int \<Rightarrow> bool" where
  "int64 n \<longleftrightarrow> - (2 ^ 63) \<le> n \<and> n < 2 ^ 63"

lemma verify_managedCookie:
  assumes s: "CHR ''|'' \<notin> set sid" and "int64 (ac_sessionRev u)" "int64 till" "now < till"
    and row: "count_live sid (ac_username u) (ac_sessionRev u) till db = 1"
  shows "verify mac h now (managedCookie mac u sid till) db = (ac_username u, ac_sessionRev u)"
proof -
  let ?msg = "session_message u sid till"
  have v2: "has_prefix ?msg ''v2|''" by (simp add: session_message_def has_prefix_def)
  have "verify_managed (''v2|'' @ ac_username u @ ''|'' @ itoa (ac_sessionRev u) @ ''|'' @ sid) till db = (ac_username u, ac_sessionRev u)"
    unfolding verify_managed_def session_message_parts(2) [OF s] option.case prod.case session_message_parts(3) [OF s]
    using assms(2) row by (simp add: int64_def)
  then show ?thesis
    unfolding verify_def managedCookie_def signed_message_signed option.case session_message_parts(1) [OF s] prod.case
    using assms(3,4) v2 by (simp add: int64_def)
qed

definition ids_unique :: "sessDb \<Rightarrow> bool" where
  "ids_unique db \<longleftrightarrow> distinct (map ss_ID (se_rows db))"

lemma one_live:
  assumes "ids_unique db" "r \<in> set (se_rows db)" "live_session sid user rv till r"
  shows "count_live sid user rv till db = 1"
proof -
  have "length (filter (\<lambda>r. ss_ID r = sid \<and> live_session sid user rv till r) rows) \<le> Suc 0" if "distinct (map ss_ID rows)" for rows
    using that
  proof (induction rows)
    case (Cons x xs)
    have "filter (\<lambda>r. ss_ID r = sid \<and> live_session sid user rv till r) xs = []" if "ss_ID x = sid"
      using that Cons.prems by (auto simp: filter_empty_conv image_iff)
    then show ?case using Cons by auto
  qed simp
  moreover have "(\<lambda>r. ss_ID r = sid \<and> live_session sid user rv till r) = live_session sid user rv till"
    by (auto simp: live_session_def fun_eq_iff)
  ultimately have "count_live sid user rv till db \<le> 1" using assms(1) by (simp add: ids_unique_def count_live_def)
  moreover have "filter (live_session sid user rv till) (se_rows db) \<noteq> []" using assms(2,3) by (auto simp: filter_empty_conv)
  ultimately show ?thesis unfolding count_live_def by (metis One_nat_def Suc_leI le_antisym length_greater_0_conv)
qed

lemma issued_row:
  assumes "newManagedSession mac now drawn u till given db = (Some c, db')" "ids_unique db"
  shows "ids_unique db'" "c = managedCookie mac u (if given = [] then drawn else given) till"
    "count_live (if given = [] then drawn else given) (ac_username u) (ac_sessionRev u) till db' = 1"
proof -
  let ?sid = "if given = [] then drawn else given"
  show ids: "ids_unique db'" and "c = managedCookie mac u ?sid till"
    using assms by (auto simp: newManagedSession_def Let_def ids_unique_def list_ex_iff split: if_splits)
  have "\<exists>r\<in>set (se_rows db'). live_session ?sid (ac_username u) (ac_sessionRev u) till r"
    using assms(1) unfolding newManagedSession_def Let_def
    by (simp add: live_session_def split: if_splits) (auto dest!: count_live_row simp: live_session_def)
  then show "count_live ?sid (ac_username u) (ac_sessionRev u) till db' = 1" using one_live [OF ids] by blast
qed

text \<open>
  Property C27. A cookie just issued is accepted until it expires, as the account and revision it was issued to, and it names
  the session that was stored; so the next request of an active account is signed in.
\<close>

theorem issued_cookie_accepted:
  assumes "newManagedSession mac now drawn u till given db = (Some c, db')" and "ids_unique db"
    and "CHR ''|'' \<notin> set drawn \<union> set given" and "int64 (ac_sessionRev u)" "int64 till" and "t < till"
  shows "verify mac h t c db' = (ac_username u, ac_sessionRev u) \<and> sessionID h c = (if given = [] then drawn else given) \<and>
    (ac_username u \<noteq> [] \<longrightarrow> se_user db' (ac_username u) = Some u \<longrightarrow> ac_active u \<longrightarrow> \<not> accountExpired d u \<longrightarrow>
       active_session mac h t d c db' = ac_username u)"
proof -
  let ?sid = "if given = [] then drawn else given"
  have s: "CHR ''|'' \<notin> set ?sid" using assms(3) by auto
  have v: "verify mac h t c db' = (ac_username u, ac_sessionRev u)"
    unfolding issued_row(2) [OF assms(1,2)] by (rule verify_managedCookie [OF s assms(4-6) issued_row(3) [OF assms(1,2)]])
  moreover have "sessionID h c = ?sid" unfolding issued_row(2) [OF assms(1,2)] by (rule managed_cookie_id [OF s])
  ultimately show ?thesis by (simp add: active_session_def)
qed

section \<open>Any number of requests\<close>

text \<open>
  A run remembers the identifiers drawn for sessions and the revisions the accounts have had. Identifiers and
  the first revision of an account are drawn at random, so a step uses a new one; a revision that is raised is
  raised to one the account did not have (the draw leaves room for it). Every step reads a clock of its own.
\<close>

record sessRun =
  sr_db :: sessDb
  sr_made :: "string list"
  sr_revs :: "(string \<times> int) list"

definition rev_pairs :: "acctDb \<Rightarrow> (string \<times> int) list" where
  "rev_pairs db = map (\<lambda>u. (ac_username u, ac_sessionRev u)) (ad_users db)"

text \<open>The rows of the accounts that a write removed go with them.\<close>

definition with_accounts :: "acctDb \<Rightarrow> sessDb \<Rightarrow> sessDb" where
  "with_accounts acct db =
     \<lparr>se_acct = acct,
      se_rows = filter (\<lambda>r. \<not> (list_ex (\<lambda>u. ac_username u = ss_Username r) (ad_users (se_acct db)) \<and>
                              \<not> list_ex (\<lambda>u. ac_username u = ss_Username r) (ad_users acct))) (se_rows db)\<rparr>"

definition run_accounts :: "acctDb \<Rightarrow> sessRun \<Rightarrow> sessRun" where
  "run_accounts acct st = st\<lparr>sr_db := with_accounts acct (sr_db st), sr_revs := rev_pairs acct @ sr_revs st\<rparr>"

definition new_revs :: "sessRun \<Rightarrow> acctDb \<Rightarrow> bool" where
  "new_revs st acct \<longleftrightarrow> (\<forall>p\<in>set (rev_pairs acct). p \<in> set (rev_pairs (se_acct (sr_db st))) \<or> p \<notin> set (sr_revs st))"

inductive credential_write :: "acctDb \<Rightarrow> acctDb \<Rightarrow> bool" where
  password: "credential_write db (SetUserPassword name hash db)"
| bump: "credential_write db (BumpSessionRev name db)"
| upsert: "credential_write db (UpsertUser now epoch name hash role db)"
| reset: "apiResetPassword mac bcrypt recovery now token pw db = Inr db' \<Longrightarrow> credential_write db db'"
| admin: "acct_step db db' \<Longrightarrow> credential_write db db'"

inductive sess_step :: "(string \<Rightarrow> string) \<Rightarrow> (string \<Rightarrow> string) \<Rightarrow> sessRun \<Rightarrow> sessRun \<Rightarrow> bool" for mac h where
  sign_in: "drawn \<notin> set (sr_made st) \<Longrightarrow> drawn \<noteq> [] \<Longrightarrow> \<not> has_prefix drawn ''legacy-'' \<Longrightarrow>
    newManagedSession mac now drawn u till [] (sr_db st) = (c, db) \<Longrightarrow>
    sess_step mac h st (st\<lparr>sr_db := db, sr_made := drawn # sr_made st\<rparr>)"
| upgrade: "ensureManagedSession mac h now user cookie (sr_db st) = (c, db) \<Longrightarrow> sess_step mac h st (st\<lparr>sr_db := db\<rparr>)"
| seen: "currentActiveUser mac h now d cookie (sr_db st) = (user, db) \<Longrightarrow> sess_step mac h st (st\<lparr>sr_db := db\<rparr>)"
| kick: "apiSessionDelete h user sid cookie (sr_db st) = (answer, db) \<Longrightarrow> sess_step mac h st (st\<lparr>sr_db := db\<rparr>)"
| sign_out: "apiLogout mac h now d cookie (sr_db st) = (ok, db) \<Longrightarrow> sess_step mac h st (st\<lparr>sr_db := db\<rparr>)"
| revoke: "revokeSessions now user rv others sid (sr_db st) = Some (e, db) \<Longrightarrow> (user, rv + 1) \<notin> set (sr_revs st) \<Longrightarrow>
    sess_step mac h st (st\<lparr>sr_db := db, sr_revs := (user, rv + 1) # sr_revs st\<rparr>)"
| purge: "sess_step mac h st (st\<lparr>sr_db := purgeSessions now (sr_db st)\<rparr>)"
| accounts: "credential_write (se_acct (sr_db st)) acct \<Longrightarrow> new_revs st acct \<Longrightarrow> sess_step mac h st (run_accounts acct st)"

section \<open>A session that was ended stays ended\<close>

definition dead :: "string \<Rightarrow> sessDb \<Rightarrow> bool" where
  "dead sid db \<longleftrightarrow> (\<forall>r\<in>set (se_rows db). ss_ID r = sid \<longrightarrow> ss_Revoked r)"

lemma dead_upd:
  assumes "dead sid db" "\<And>r. ss_ID (f r) = ss_ID r" "\<And>r. ss_Revoked r \<Longrightarrow> ss_Revoked (f r)"
  shows "dead sid (upd_sess P f db)"
  using assms by (auto simp: dead_def upd_sess_def update_where_def)

lemma dead_sub: "dead sid db \<Longrightarrow> set (se_rows db') \<subseteq> set (se_rows db) \<Longrightarrow> dead sid db'"
  by (auto simp: dead_def)

lemma dead_new:
  assumes "newManagedSession mac now drawn u till given db = (c, db')" "dead sid db" "(if given = [] then drawn else given) \<noteq> sid"
  shows "dead sid db'"
  using assms by (auto simp: newManagedSession_def Let_def dead_def split: if_splits)

lemma dead_given:
  "newManagedSession mac now drawn u till given db = (c, db') \<Longrightarrow> dead sid db \<Longrightarrow> given \<noteq> [] \<Longrightarrow> given \<noteq> sid \<Longrightarrow> dead sid db'"
  using dead_new [of mac now drawn u till given db c db' sid] by simp

lemma dead_ensure:
  assumes "ensureManagedSession mac h now user cookie db = (c, db')" "dead sid db" "\<not> has_prefix sid ''legacy-''"
  shows "dead sid db'"
proof -
  have "legacySessionID h cookie \<noteq> sid" "legacySessionID h cookie \<noteq> []" using assms(3) by (auto simp: legacySessionID_def has_prefix_def)
  then show ?thesis using assms(1,2)
    by (auto simp: ensureManagedSession_def split: option.splits if_splits intro: dead_given)
qed

lemma dead_seen: "currentActiveUser mac h now d cookie db = (user, db') \<Longrightarrow> dead sid db \<Longrightarrow> dead sid db'"
  by (auto simp: currentActiveUser_def Let_def intro!: dead_upd split: if_splits)

lemma dead_revoked:
  assumes "revokeSessions now user rv others s db = Some (e, db')" "dead sid db"
  shows "dead sid db'"
  using assms by (auto simp: revokeSessions_def Let_def dead_def update_where_def split: if_splits option.splits)

lemma signed_out_cases:
  assumes "apiLogout mac h now d cookie db = (ok, db')"
  obtains user db1 where "currentActiveUser mac h now d cookie db = (user, db1)" "db' = db1"
  | user db1 c1 db2 P where "currentActiveUser mac h now d cookie db = (user, db1)"
      "ensureManagedSession mac h now user cookie db1 = (c1, db2)" "db' = db2 \<or> db' = upd_sess P (\<lambda>r. r\<lparr>ss_Revoked := True\<rparr>) db2"
proof -
  obtain user db1 where a: "currentActiveUser mac h now d cookie db = (user, db1)" by (metis surj_pair)
  obtain c1 db2 where b: "ensureManagedSession mac h now user cookie db1 = (c1, db2)" by (metis surj_pair)
  show ?thesis
  proof (cases "user = []")
    case True
    then show ?thesis using that(1) [OF a] assms a by (simp add: apiLogout_def)
  next
    case False
    then show ?thesis using that(2) [OF a b] assms a b by (cases c1) (auto simp: apiLogout_def)
  qed
qed

lemma step_dead:
  assumes "sess_step mac h st st'" "sid \<in> set (sr_made st)" "\<not> has_prefix sid ''legacy-''" "dead sid (sr_db st)"
  shows "sid \<in> set (sr_made st') \<and> dead sid (sr_db st')"
  using assms
proof (induction rule: sess_step.induct)
  case (sign_in drawn st now u till c db)
  then show ?case using dead_new [OF sign_in.hyps(4)] by auto
next
  case (upgrade now user cookie st c db)
  then show ?case using dead_ensure by auto
next
  case (seen now d cookie st user db)
  then show ?case using dead_seen by auto
next
  case (kick user s cookie st answer db)
  then show ?case by (auto simp: apiSessionDelete_def Let_def intro!: dead_upd)
next
  case (sign_out now d cookie st ok db)
  from sign_out.hyps show ?case
  proof (cases rule: signed_out_cases)
    case (2 u db1 c1 db2 P)
    have "dead sid db2" using dead_ensure [OF 2(2) dead_seen [OF 2(1)]] sign_out.prems by simp
    moreover then have "dead sid (upd_sess P (\<lambda>r. r\<lparr>ss_Revoked := True\<rparr>) db2)" by (intro dead_upd) simp_all
    ultimately show ?thesis using 2(3) sign_out.prems by auto
  qed (use sign_out.prems dead_seen in auto)
next
  case (revoke now user rv others s st e db)
  then show ?case using dead_revoked by auto
next
  case (purge st now)
  then show ?case by (auto simp: purgeSessions_def intro: dead_sub)
next
  case (accounts st acct)
  then show ?case by (auto simp: run_accounts_def with_accounts_def intro: dead_sub)
qed

lemma reach_dead:
  assumes "(sess_step mac h)\<^sup>*\<^sup>* st st'" "sid \<in> set (sr_made st)" "\<not> has_prefix sid ''legacy-''" "dead sid (sr_db st)"
  shows "sid \<in> set (sr_made st') \<and> dead sid (sr_db st')"
  using assms by (induction rule: rtranclp_induct) (auto dest: step_dead)

text \<open>
  Property C8. Once a session was ended from the list of sessions, no cookie that names it is accepted again, whatever
  requests, sign-ins, sweeps and changes of accounts follow.
\<close>

theorem ended_session_stays_out:
  assumes "ids_unique (sr_db st)" and "sid \<in> set (sr_made st)" and "\<not> has_prefix sid ''legacy-''"
    and "apiSessionDelete h user sid cookie (sr_db st) = ((True, own), db)"
    and "(sess_step mac h)\<^sup>*\<^sup>* (st\<lparr>sr_db := db\<rparr>) st'" and "sessionID h c = sid"
  shows "fst (verify mac h t c (sr_db st')) = [] \<and> active_session mac h t d c (sr_db st') = []"
proof -
  have "dead sid db"
    unfolding dead_def
  proof (intro ballI impI)
    fix r assume r: "r \<in> set (se_rows db)" "ss_ID r = sid"
    let ?hit = "\<lambda>r. ss_ID r = sid \<and> ss_Username r = user \<and> \<not> ss_Revoked r"
    have rows: "se_rows db = update_where ?hit (\<lambda>r. r\<lparr>ss_Revoked := True\<rparr>) (se_rows (sr_db st))"
      and found: "list_ex ?hit (se_rows (sr_db st))" using assms(4) by (auto simp: apiSessionDelete_def Let_def upd_sess_def)
    then obtain q where q: "q \<in> set (se_rows (sr_db st))" "?hit q" by (auto simp: list_ex_iff)
    from r(1) rows obtain p where p: "p \<in> set (se_rows (sr_db st))" "r = (if ?hit p then p\<lparr>ss_Revoked := True\<rparr> else p)"
      by (auto simp: update_where_def)
    have "ss_ID p = sid" using r(2) p(2) by (auto split: if_splits)
    then have "p = q" using p(1) q assms(1) by (auto simp: ids_unique_def distinct_map inj_on_def)
    then show "ss_Revoked r" using p(2) q(2) by simp
  qed
  then have d: "dead sid (sr_db st')" using reach_dead [OF assms(5)] assms(2,3) by simp
  have "fst (verify mac h t c (sr_db st')) = []"
  proof (rule ccontr)
    assume "fst (verify mac h t c (sr_db st')) \<noteq> []"
    then obtain r where "r \<in> set (se_rows (sr_db st'))" "ss_ID r = sid" "\<not> ss_Revoked r"
      using accepted_row [of mac h t c "sr_db st'"] assms(3,6) by (metis live_session_def prod.collapse)
    then show False using d by (simp add: dead_def)
  qed
  then show ?thesis by (cases "verify mac h t c (sr_db st')") (simp add: active_session_def)
qed

section \<open>A revision that was left never returns\<close>

definition left_rev :: "string \<times> int \<Rightarrow> sessRun \<Rightarrow> bool" where
  "left_rev p st \<longleftrightarrow> p \<in> set (sr_revs st) \<and> p \<notin> set (rev_pairs (se_acct (sr_db st)))"

lemma acct_new [simp]:
  "newManagedSession mac now drawn u till given db = (c, db') \<Longrightarrow> se_acct db' = se_acct db"
  by (auto simp: newManagedSession_def Let_def split: if_splits)

lemma acct_ensure: "ensureManagedSession mac h now user cookie db = (c, db') \<Longrightarrow> se_acct db' = se_acct db"
  by (auto simp: ensureManagedSession_def split: option.splits if_splits)

lemma acct_seen: "currentActiveUser mac h now d cookie db = (user, db') \<Longrightarrow> se_acct db' = se_acct db"
  by (auto simp: currentActiveUser_def Let_def upd_sess_def split: if_splits)

lemma revoked_pairs:
  assumes "revokeSessions now user rv others s db = Some (e, db')"
  shows "set (rev_pairs (se_acct db')) \<subseteq> set (rev_pairs (se_acct db)) - {(user, rv)} \<union> {(user, rv + 1)}"
proof -
  have "ad_users (se_acct db') = update_where (\<lambda>a. ac_username a = user \<and> ac_sessionRev a = rv)
      (\<lambda>a. a\<lparr>ac_sessionRev := rv + 1\<rparr>) (ad_users (se_acct db))"
    using assms by (auto simp: revokeSessions_def Let_def split: if_splits option.splits)
  then show ?thesis by (auto simp: rev_pairs_def update_where_def split: if_splits)
qed

lemma step_left: "sess_step mac h st st' \<Longrightarrow> left_rev p st \<Longrightarrow> left_rev p st'"
proof (induction rule: sess_step.induct)
  case (upgrade now user cookie st c db)
  then show ?case using acct_ensure by (simp add: left_rev_def)
next
  case (seen now d cookie st user db)
  then show ?case using acct_seen by (simp add: left_rev_def)
next
  case (sign_out now d cookie st ok db)
  from sign_out.hyps have "se_acct db = se_acct (sr_db st)"
  proof (cases rule: signed_out_cases)
    case (2 u db1 c1 db2 P)
    then show ?thesis using acct_ensure [OF 2(2)] acct_seen [OF 2(1)] by (auto simp: upd_sess_def)
  qed (use acct_seen in simp)
  then show ?case using sign_out.prems by (simp add: left_rev_def)
next
  case (revoke now user rv others s st e db)
  then show ?case using revoked_pairs [OF revoke.hyps(1)] by (auto simp: left_rev_def)
next
  case (accounts st acct)
  then show ?case by (auto simp: left_rev_def run_accounts_def with_accounts_def new_revs_def)
qed (auto simp: left_rev_def apiSessionDelete_def Let_def upd_sess_def purgeSessions_def)

lemma reach_left: "(sess_step mac h)\<^sup>*\<^sup>* st st' \<Longrightarrow> left_rev p st \<Longrightarrow> left_rev p st'"
  by (induction rule: rtranclp_induct) (auto intro: step_left)

lemma left_rejected:
  assumes "left_rev (user, rv) st" "user \<noteq> []" "snd (verify mac h t c (sr_db st)) = rv"
  shows "active_session mac h t d c (sr_db st) \<noteq> user"
proof
  assume a: "active_session mac h t d c (sr_db st) = user"
  then obtain u where "se_user (sr_db st) user = Some u" "ac_sessionRev u = rv"
    using assms(2,3) by (auto simp: active_session_def split: prod.splits option.splits if_splits)
  then have "(user, rv) \<in> set (rev_pairs (se_acct (sr_db st)))"
    using GetUserD [of "se_acct (sr_db st)" user u] by (auto simp: se_user_def rev_pairs_def)
  then show False using assms(1) by (simp add: left_rev_def)
qed


section \<open>Owner tokens and session cookies\<close>

lemma owner_message_parts:
  "has_prefix (owner_message ou user till) ''ot1|''"
  "cut_at (CHR ''|'') (drop 4 (owner_message ou user till)) = Some (itoa ou, user @ CHR ''|'' # itoa till)"
  by (simp_all add: owner_message_def has_prefix_def)

text \<open>
  The token of a run names at the ingest the unit and the person it was minted for, whatever characters the
  name has; as a cookie it stands for no account but one whose name begins with the prefix of the token, and a
  cookie is no owner token.
\<close>

theorem owner_token_names_its_owner:
  assumes "key \<noteq> []" and "0 \<le> ou" and "int64 ou" and "\<not> (ou = 0 \<and> user = [])" and "int64 (now + ownerTokenTTL)"
    and "t \<le> now + ownerTokenTTL"
  shows "parseOwnerToken mac key t (mintOwnerToken mac key now ou user) = Some \<lparr>oc_OU = ou, oc_User = user, oc_IssuedAt = now\<rparr> \<and>
    (let name = fst (verify (mac key) h t2 (mintOwnerToken mac key now ou user) db) in name = [] \<or> has_prefix name ''ot1|'') \<and>
    parseOwnerToken mac key t3 (managedCookie (mac key) u sid till) = None"
proof -
  let ?msg = "owner_message ou user (now + ownerTokenTTL)"
  have tok: "mintOwnerToken mac key now ou user = signed (mac key) ?msg" using assms(1,4) unfolding mintOwnerToken_def by (simp only: if_False simp_thms)
  have read: "parseOwnerToken mac key t (signed (mac key) ?msg) = Some \<lparr>oc_OU = ou, oc_User = user, oc_IssuedAt = now\<rparr>"
    using assms by (simp add: parseOwnerToken_def owner_message_parts int64_def)
  have cut: "cut_last (CHR ''|'') ?msg = Some (''ot1|'' @ itoa ou @ ''|'' @ user, itoa (now + ownerTokenTTL))"
    by (simp add: cut_last_Some owner_message_def)
  have no: "\<not> has_prefix ?msg ''v2|''" "\<not> has_prefix ?msg ''v1|''" by (simp_all add: owner_message_def has_prefix_def)
  have legacy: "fst (verifyLegacy h n r c e db) = [] \<or> fst (verifyLegacy h n r c e db) = n" for n r c e
    by (auto simp: verifyLegacy_def split: option.split)
  have "verify (mac key) h t2 (signed (mac key) ?msg) db =
      (if now + ownerTokenTTL \<le> t2 then ([], 0)
       else verifyLegacy h (''ot1|'' @ itoa ou @ ''|'' @ user) 0 (signed (mac key) ?msg) (now + ownerTokenTTL) db)"
    unfolding verify_def verify_older_def signed_message_signed option.case cut prod.case
    using no assms(5) by (simp add: int64_def)
  moreover have "has_prefix (''ot1|'' @ itoa ou @ ''|'' @ user) ''ot1|''" by (simp add: has_prefix_def)
  ultimately have "let name = fst (verify (mac key) h t2 (signed (mac key) ?msg) db) in name = [] \<or> has_prefix name ''ot1|''"
    using legacy by (metis fst_conv)
  moreover have "\<not> has_prefix (session_message u sid till) ''ot1|''" by (simp add: session_message_def has_prefix_def)
  ultimately show ?thesis using assms(1) read by (simp add: tok parseOwnerToken_def managedCookie_def)
qed

section \<open>Links of a password reset\<close>

lemma length_split_on: "length (split_on c s) = Suc (length (filter (\<lambda>x. x = c) s))"
  by (induction s) (auto split: list.splits)

text \<open>
  A link sets the password of the account it was sent for within the hour and not again once the password has
  changed (the signatures over the old and the new hash being different).
\<close>

theorem reset_link_once:
  assumes "GetUser db (ac_username u) = Some u" and "ac_active u" and "CHR ''|'' \<notin> set (ac_username u)"
    and "int64 (now + resetTokenTTL)" and "t \<le> now + resetTokenTTL"
    and "mac (reset_message (ac_username u) (now + resetTokenTTL) @ ''|'' @ hash) \<noteq>
         mac (reset_message (ac_username u) (now + resetTokenTTL) @ ''|'' @ ac_hash u)"
  shows "verifyResetToken mac t (resetToken mac now u) db = ac_username u \<and>
    verifyResetToken mac t (resetToken mac now u) (SetUserPassword (ac_username u) hash db) = []"
proof -
  let ?msg = "reset_message (ac_username u) (now + resetTokenTTL)"
  have parts: "token_parts (resetToken mac now u) = Some (?msg, mac (?msg @ ''|'' @ ac_hash u))"
    by (simp add: resetToken_def Let_def)
  have bars: "split_on (CHR ''|'') ?msg = [''pwreset'', ac_username u, itoa (now + resetTokenTTL)]"
    using split_on_app [of "CHR ''|''" "''pwreset''"] assms(3)
    by (simp add: reset_message_def split_on_app split_on_word)
  have "GetUser (SetUserPassword n hash db) n = map_option (\<lambda>v. v\<lparr>ac_hash := hash, ac_sessionRev := ac_sessionRev v + 1\<rparr>) (GetUser db n)" for n
  proof -
    have "find (\<lambda>v. ac_username v = n) (update_where (\<lambda>v. ac_username v = n) (\<lambda>v. v\<lparr>ac_hash := hash, ac_sessionRev := ac_sessionRev v + 1\<rparr>) us) =
        map_option (\<lambda>v. v\<lparr>ac_hash := hash, ac_sessionRev := ac_sessionRev v + 1\<rparr>) (find (\<lambda>v. ac_username v = n) us)" for us
      by (induction us) (auto simp: update_where_def)
    then show ?thesis by (simp add: SetUserPassword_def GetUser_def upd_user_def)
  qed
  then show ?thesis
    using assms by (simp add: verifyResetToken_def parts bars int64_def)
qed

text \<open>The link of an account whose name contains the separator is refused from the start, whatever it signs.\<close>

theorem reset_link_never_reads:
  assumes "CHR ''|'' \<in> set (ac_username u)"
  shows "verifyResetToken mac t (resetToken mac now u) db = []"
proof -
  let ?msg = "reset_message (ac_username u) (now + resetTokenTTL)"
  have "token_parts (resetToken mac now u) = Some (?msg, mac (?msg @ ''|'' @ ac_hash u))"
    by (simp add: resetToken_def Let_def)
  moreover have "filter (\<lambda>x. x = CHR ''|'') (ac_username u) \<noteq> []" using assms by (auto simp: filter_empty_conv)
  then have "3 < length (split_on (CHR ''|'') ?msg)"
    by (simp add: length_split_on reset_message_def)
  then have "length (split_on (CHR ''|'') ?msg) \<noteq> 3" by simp
  ultimately show ?thesis by (auto simp: verifyResetToken_def split: list.split)
qed

section \<open>A cookie from before the table of sessions\<close>

lemma legacy_answers: "verifyLegacy h n q c e d = ([], 0) \<or> verifyLegacy h n q c e d = (n, q)"
  by (simp add: verifyLegacy_def split: option.split)

lemma has_legacy_text:
  assumes "length msg mod 3 \<noteq> 0"
  shows "signed_message mac (loose_text msg @ ''.'' @ mac msg) = Some msg" "loose_text msg @ ''.'' @ mac msg \<noteq> signed mac msg"
  using loose_text_reads [OF assms] by (simp_all add: signed_message_def token_parts_def signed_def)

text \<open>
  Property C36. The row that ends a session of the older kind is found by the text of its cookie. The same signed message has
  another text wherever its length is not a multiple of three, so after the session was ended the holder of the
  cookie is signed in again by changing one character of it.
\<close>

theorem ended_legacy_session_returns:
  assumes "inj h" and "length msg mod 3 \<noteq> 0" and "\<not> has_prefix msg ''v2|''"
    and "verify mac h t (signed mac msg) db = (user, rv)" and "user \<noteq> []"
    and "\<forall>r\<in>set (se_rows db). has_prefix (ss_ID r) ''legacy-'' \<longrightarrow> ss_ID r = legacySessionID h (signed mac msg)"
    and "apiSessionDelete h user (legacySessionID h (signed mac msg)) cookie db = ((True, own), db')"
  shows "\<exists>c. c \<noteq> signed mac msg \<and> verify mac h t c db' = (user, rv)"
proof -
  let ?c = "loose_text msg @ ''.'' @ mac msg"
  have other: "legacySessionID h ?c \<noteq> legacySessionID h (signed mac msg)"
    using has_legacy_text(2) [OF assms(2), of mac] injD [OF assms(1)] by (auto simp: legacySessionID_def)
  have ids: "map ss_ID (se_rows db') = map ss_ID (se_rows db)"
  proof -
    let ?k = "legacySessionID h (signed mac msg)"
    have "db' = upd_sess (\<lambda>r. ss_ID r = ?k \<and> ss_Username r = user \<and> \<not> ss_Revoked r) (\<lambda>r. r\<lparr>ss_Revoked := True\<rparr>) db"
      using assms(7) by (simp add: apiSessionDelete_def Let_def)
    then show ?thesis by (simp add: upd_sess_def update_where_def)
  qed
  then have "ss_ID ` set (se_rows db') = ss_ID ` set (se_rows db)" by (metis set_map)
  moreover have "legacySessionID h ?c \<notin> ss_ID ` set (se_rows db)"
  proof
    assume "legacySessionID h ?c \<in> ss_ID ` set (se_rows db)"
    then obtain q where q: "q \<in> set (se_rows db)" "ss_ID q = legacySessionID h ?c" by auto
    then have "has_prefix (ss_ID q) ''legacy-''" using legacy_prefix by metis
    then show False using assms(6) q other by simp
  qed
  ultimately have "legacySessionID h ?c \<notin> ss_ID ` set (se_rows db')" by blast
  then have "find (\<lambda>r. ss_ID r = legacySessionID h ?c) (se_rows db') = None" unfolding find_None_iff by (auto simp: image_iff)
  then have none: "verifyLegacy h n q ?c e db' = (n, q)" for n q e by (simp only: verifyLegacy_def option.case)
  have some: "n = user \<and> q = rv" if "verifyLegacy h n q c e d = (user, rv)" for n q c e d
    using that legacy_answers [of h n q c e d] assms(5) by auto
  obtain m front e till where m: "signed_message mac (signed mac msg) = Some m" "cut_last (CHR ''|'') m = Some (front, e)" "atoi e = Some till"
    "t < till" "if has_prefix m ''v2|'' then verify_managed front till db = (user, rv) else verify_older h (signed mac msg) m front till db = (user, rv)"
    by (rule verify_cases [OF assms(4,5)])
  have msg: "m = msg" using m(1) by simp
  have "verify mac h t ?c db' = verify_older h ?c msg front till db'"
    using m(2,3,4) assms(3) unfolding msg verify_def has_legacy_text(1) [OF assms(2)] by simp
  moreover have "verify_older h (signed mac msg) msg front till db = (user, rv)" using m(5) msg assms(3) by simp
  then have "verify_older h ?c msg front till db' = (user, rv)"
    unfolding verify_older_def none using assms(5) by (auto split: option.splits if_splits dest: some)
  ultimately have "verify mac h t ?c db' = (user, rv)" by simp
  then show ?thesis using has_legacy_text(2) [OF assms(2), of mac] by blast
qed

section \<open>A portal with one session\<close>

definition demo_sess :: sessDb where
  "demo_sess = \<lparr>se_acct = demo_accounts,
     se_rows = [\<lparr>ss_ID = ''s1'', ss_Username = ''cas'', ss_Revision = 1, ss_CreatedAt = 10, ss_LastSeen = 10, ss_ExpiresAt = 100,
       ss_Revoked = False\<rparr>]\<rparr>"

abbreviation demo_cas :: accountRow where
  "demo_cas \<equiv> demo_account ''cas'' ''user'' True 3"

definition demo_mac :: "string \<Rightarrow> string" where "demo_mac msg = CHR ''s'' # msg"

definition demo_sess_run :: sessRun where
  "demo_sess_run = \<lparr>sr_db = demo_sess, sr_made = [''s1''], sr_revs = rev_pairs demo_accounts\<rparr>"

lemma demo_sess_user: "se_user demo_sess ''cas'' = Some demo_cas"
  by (simp add: se_user_def demo_sess_def demo_found)

lemma issued_cookie_accepted_witness:
  "\<exists>c db'. newManagedSession demo_mac 20 ''s2'' demo_cas 200 [] demo_sess = (Some c, db') \<and>
     active_session demo_mac id 150 ''2026-03-03'' c db' = ''cas''"
proof -
  let ?db = "demo_sess\<lparr>se_rows := se_rows demo_sess @ [\<lparr>ss_ID = ''s2'', ss_Username = ''cas'', ss_Revision = ac_sessionRev demo_cas, ss_CreatedAt = 20,
    ss_LastSeen = 20, ss_ExpiresAt = 200, ss_Revoked = False\<rparr>]\<rparr>"
  have new: "newManagedSession demo_mac 20 ''s2'' demo_cas 200 [] demo_sess = (Some (managedCookie demo_mac demo_cas ''s2'' 200), ?db)"
    by (simp add: newManagedSession_def Let_def demo_sess_def demo_accounts_users demo_account_def)
  have "ids_unique demo_sess" "CHR ''|'' \<notin> set ''s2'' \<union> set []" "int64 (ac_sessionRev demo_cas)" "int64 200"
    by (simp_all add: ids_unique_def demo_sess_def demo_account_def int64_def)
  from issued_cookie_accepted [OF new this, of 150 id "''2026-03-03''"]
  have "active_session demo_mac id 150 ''2026-03-03'' (managedCookie demo_mac demo_cas ''s2'' 200) ?db = ''cas''"
    using demo_sess_user by (simp add: se_user_def demo_account_def accountExpired_def)
  then show ?thesis using new by blast
qed

lemma ended_session_stays_out_witness:
  "\<exists>db. apiSessionDelete id ''cas'' ''s1'' [] demo_sess = ((True, False), db) \<and>
     active_session demo_mac id 20 ''2026-03-03'' (managedCookie demo_mac demo_cas ''s1'' 100) (purgeSessions 15 db) = []"
proof -
  let ?db = "upd_sess (\<lambda>r. ss_ID r = ''s1'' \<and> ss_Username r = ''cas'' \<and> \<not> ss_Revoked r) (\<lambda>r. r\<lparr>ss_Revoked := True\<rparr>) demo_sess"
  let ?st = "demo_sess_run\<lparr>sr_db := ?db\<rparr>"
  have kick: "apiSessionDelete id ''cas'' ''s1'' [] (sr_db demo_sess_run) = ((True, False), ?db)"
    by (simp add: apiSessionDelete_def Let_def demo_sess_run_def demo_sess_def sessionID_def before_dot_def b64_decode_def
        has_prefix_def legacySessionID_def)
  have start: "ids_unique (sr_db demo_sess_run)" "''s1'' \<in> set (sr_made demo_sess_run)" "\<not> has_prefix ''s1'' ''legacy-''"
    by (simp_all add: ids_unique_def demo_sess_run_def demo_sess_def has_prefix_def)
  have run: "(sess_step demo_mac id)\<^sup>*\<^sup>* ?st (?st\<lparr>sr_db := purgeSessions 15 (sr_db ?st)\<rparr>)"
    by (rule r_into_rtranclp) (rule sess_step.purge)
  have named: "sessionID id (managedCookie demo_mac demo_cas ''s1'' 100) = ''s1''" by (rule managed_cookie_id) simp
  from ended_session_stays_out [OF start kick run named] kick show ?thesis by (simp add: demo_sess_run_def)
qed


lemma owner_token_names_its_owner_witness:
  "parseOwnerToken (\<lambda>k m. k @ m) ''key'' 50 (mintOwnerToken (\<lambda>k m. k @ m) ''key'' 10 4 ''a|b'') =
     Some \<lparr>oc_OU = 4, oc_User = ''a|b'', oc_IssuedAt = 10\<rparr>"
proof -
  have "''key'' \<noteq> []" "(0 :: int) \<le> 4" "int64 4" "\<not> ((4 :: int) = 0 \<and> ''a|b'' = [])" "int64 (10 + ownerTokenTTL)" "50 \<le> 10 + ownerTokenTTL"
    by (simp_all add: int64_def ownerTokenTTL_def)
  from owner_token_names_its_owner [OF this] show ?thesis by blast
qed

lemma reset_link_once_witness:
  "verifyResetToken demo_mac 20 (resetToken demo_mac 10 demo_cas) demo_accounts = ''cas'' \<and>
   verifyResetToken demo_mac 20 (resetToken demo_mac 10 demo_cas) (SetUserPassword ''cas'' ''new'' demo_accounts) = []"
proof -
  have name: "ac_username demo_cas = ''cas''" by (simp add: demo_account_def)
  have "GetUser demo_accounts (ac_username demo_cas) = Some demo_cas" "ac_active demo_cas" "CHR ''|'' \<notin> set (ac_username demo_cas)"
    "int64 (10 + resetTokenTTL)" "20 \<le> 10 + resetTokenTTL"
    "demo_mac (reset_message (ac_username demo_cas) (10 + resetTokenTTL) @ ''|'' @ ''new'') \<noteq>
     demo_mac (reset_message (ac_username demo_cas) (10 + resetTokenTTL) @ ''|'' @ ac_hash demo_cas)"
    by (simp_all add: demo_found name int64_def resetTokenTTL_def demo_mac_def) (simp_all add: demo_account_def)
  from reset_link_once [OF this] show ?thesis by (simp add: name)
qed

lemma reset_link_never_reads_witness:
  "verifyResetToken demo_mac 10 (resetToken demo_mac 10 (demo_account ''a|b'' ''user'' True 3)) demo_accounts = []"
  by (rule reset_link_never_reads) (simp add: demo_account_def)

definition demo_old_message :: string where "demo_old_message = ''v1|bob|1|60''"

lemma ended_legacy_session_returns_witness:
  "\<exists>db c. apiSessionDelete id ''bob'' (legacySessionID id (signed demo_mac demo_old_message)) []
       (demo_sess\<lparr>se_rows := [\<lparr>ss_ID = legacySessionID id (signed demo_mac demo_old_message), ss_Username = ''bob'', ss_Revision = 1,
          ss_CreatedAt = 10, ss_LastSeen = 10, ss_ExpiresAt = 60, ss_Revoked = False\<rparr>]\<rparr>) = ((True, False), db) \<and>
     c \<noteq> signed demo_mac demo_old_message \<and> verify demo_mac id 20 c db = (''bob'', 1)"
proof -
  let ?c = "signed demo_mac demo_old_message"
  let ?k = "legacySessionID id ?c"
  let ?db = "demo_sess\<lparr>se_rows := [\<lparr>ss_ID = ?k, ss_Username = ''bob'', ss_Revision = 1,
    ss_CreatedAt = 10, ss_LastSeen = 10, ss_ExpiresAt = 60, ss_Revoked = False\<rparr>]\<rparr>"
  let ?hit = "\<lambda>r. ss_ID r = ?k \<and> ss_Username r = ''bob'' \<and> \<not> ss_Revoked r"
  have own: "?k \<noteq> sessionID id []"
    by (simp add: sessionID_def before_dot_def b64_decode_def has_prefix_def legacySessionID_def signed_def)
  have kick: "apiSessionDelete id ''bob'' ?k [] ?db = ((True, False), upd_sess ?hit (\<lambda>r. r\<lparr>ss_Revoked := True\<rparr>) ?db)"
    using own by (simp add: apiSessionDelete_def Let_def)
  have msg: "demo_old_message = ''v1|bob|'' @ itoa 1 @ ''|'' @ itoa 60" by code_simp
  have cuts: "cut_last (CHR ''|'') demo_old_message = Some (''v1|bob|'' @ itoa 1, itoa 60)"
    "cut_last (CHR ''|'') (''v1|bob|'' @ itoa 1) = Some (''v1|bob'', itoa 1)" by (simp_all add: cut_last_Some msg)
  have pre: "\<not> has_prefix demo_old_message ''v2|''" "has_prefix demo_old_message ''v1|''"
    by (simp_all add: has_prefix_def demo_old_message_def)
  have v: "verify demo_mac id 20 ?c ?db = (''bob'', 1)"
    unfolding verify_def verify_older_def using pre by (simp add: cuts verifyLegacy_def del: append.simps)
  have "inj (id :: string \<Rightarrow> string)" "length demo_old_message mod 3 \<noteq> 0" "''bob'' \<noteq> []"
    "\<forall>r\<in>set (se_rows ?db). has_prefix (ss_ID r) ''legacy-'' \<longrightarrow> ss_ID r = legacySessionID id (signed demo_mac demo_old_message)"
    by (simp_all add: demo_old_message_def)
  from ended_legacy_session_returns [OF this(1,2) pre(1) v this(3,4) kick] kick show ?thesis by blast
qed

end
