(* ===== verification/Sso_Rules.thy ===== *)
theory Sso_Rules
  imports Accounts
begin

text \<open>
  The rules that give a single-sign-on identity its role and unit (internal/ssorules/rules.go), their storage
  (sso_rules_store.go) and the write of what they decide (applyAssignment of identity.go). Whether a role is
  privileged is part of the defaults of a provider. Letters outside ASCII compare without folding; the JSON
  text of the stored list is not modelled, the list is.
\<close>

section \<open>Rules\<close>

record ssoRule =
  rl_ID :: int
  rl_Ord :: int
  rl_Enabled :: bool
  rl_Attr :: string
  rl_Value :: string
  rl_TargetRole :: string
  rl_TargetGroup :: int
  rl_KeepOnMiss :: bool
  rl_CaseInsensitive :: bool
  rl_Note :: string

record ssoFacts =
  fa_Groups :: "string list"
  fa_Attrs :: "string \<Rightarrow> string list"

record ssoCurrent =
  cu_Exists :: bool
  cu_Role :: string
  cu_Group :: int

record ssoDefaults =
  df_Role :: string
  df_Group :: int
  df_AllowAdminRole :: bool
  df_PrivilegedRoles :: "string list"

record ssoOutcome =
  ot_Role :: string
  ot_Group :: int
  ot_Matched :: bool
  ot_RuleID :: int
  ot_Deny :: bool
  ot_DenyReason :: string
  ot_AdminBlocked :: bool

definition no_outcome :: ssoOutcome where
  "no_outcome = \<lparr>ot_Role = [], ot_Group = 0, ot_Matched = False, ot_RuleID = 0, ot_Deny = False, ot_DenyReason = [], ot_AdminBlocked = False\<rparr>"

definition fact_values :: "string \<Rightarrow> ssoFacts \<Rightarrow> string list" where
  "fact_values attr f = (if attr = [] then fa_Groups f else fa_Attrs f attr)"

definition matches :: "ssoRule \<Rightarrow> ssoFacts \<Rightarrow> bool" where
  "matches r f \<longleftrightarrow>
     list_ex (\<lambda>v. v = rl_Value r \<or> rl_CaseInsensitive r \<and> to_lower v = to_lower (rl_Value r)) (fact_values (rl_Attr r) f)"

definition rule_less :: "ssoRule \<Rightarrow> ssoRule \<Rightarrow> bool" where
  "rule_less a b \<longleftrightarrow> rl_Ord a < rl_Ord b \<or> rl_Ord a = rl_Ord b \<and> rl_ID a < rl_ID b"

definition better_match :: "ssoFacts \<Rightarrow> ssoRule \<Rightarrow> ssoRule option \<Rightarrow> ssoRule option" where
  "better_match f r best =
     (if \<not> rl_Enabled r \<or> \<not> matches r f then best
      else case best of None \<Rightarrow> Some r | Some b \<Rightarrow> if rule_less r b then Some r else best)"

definition firstMatch :: "ssoRule list \<Rightarrow> ssoFacts \<Rightarrow> ssoRule option" where
  "firstMatch rules f = fold (better_match f) rules None"

definition anyKeepOnMiss :: "ssoRule list \<Rightarrow> bool" where
  "anyKeepOnMiss rules = list_ex (\<lambda>r. rl_Enabled r \<and> rl_KeepOnMiss r) rules"

definition dropBlockedRole :: "ssoOutcome \<Rightarrow> ssoDefaults \<Rightarrow> ssoOutcome" where
  "dropBlockedRole out d =
     (if ot_Role out \<noteq> [] \<and> ot_Role out \<in> set (df_PrivilegedRoles d) \<and> \<not> df_AllowAdminRole d
      then out\<lparr>ot_Role := [], ot_AdminBlocked := True\<rparr> else out)"

definition withDefaults :: "ssoOutcome \<Rightarrow> ssoCurrent \<Rightarrow> ssoDefaults \<Rightarrow> ssoOutcome" where
  "withDefaults out cur d =
     (let out1 = (if ot_Role out = [] \<and> cu_Exists cur then out\<lparr>ot_Role := cu_Role cur\<rparr> else out);
          out2 = (if ot_Role out1 = [] then dropBlockedRole (out1\<lparr>ot_Role := df_Role d\<rparr>) d else out1);
          out3 = (if ot_Group out2 = 0 \<and> cu_Exists cur then out2\<lparr>ot_Group := cu_Group cur\<rparr> else out2)
      in if ot_Group out3 = 0 then out3\<lparr>ot_Group := df_Group d\<rparr> else out3)"

definition apply_rule :: "ssoRule \<Rightarrow> ssoCurrent \<Rightarrow> ssoDefaults \<Rightarrow> ssoOutcome" where
  "apply_rule r cur d =
     withDefaults (dropBlockedRole (no_outcome\<lparr>ot_Matched := True, ot_RuleID := rl_ID r, ot_Role := rl_TargetRole r,
       ot_Group := rl_TargetGroup r\<rparr>) d) cur d"

definition Resolve :: "ssoRule list \<Rightarrow> ssoFacts \<Rightarrow> ssoCurrent \<Rightarrow> ssoDefaults \<Rightarrow> ssoOutcome" where
  "Resolve rules f cur d =
     (case firstMatch rules f of
        Some m \<Rightarrow> apply_rule m cur d
      | None \<Rightarrow>
          if cu_Exists cur \<and> anyKeepOnMiss rules then no_outcome\<lparr>ot_Role := cu_Role cur, ot_Group := cu_Group cur\<rparr>
          else if cu_Exists cur then withDefaults no_outcome cur d
          else if df_Group d = 0 then no_outcome\<lparr>ot_Deny := True, ot_DenyReason := ''no rule matched and this provider has no default group''\<rparr>
          else dropBlockedRole (no_outcome\<lparr>ot_Role := df_Role d, ot_Group := df_Group d\<rparr>) d)"

section \<open>Rules that cannot win\<close>

text \<open>The insertion sort moves an element down past greater ones; the sorted part is kept in reverse.\<close>

fun sink :: "ssoRule \<Rightarrow> ssoRule list \<Rightarrow> ssoRule list" where
  "sink x [] = [x]"
| "sink x (y # ys) = (if rule_less x y then y # sink x ys else x # y # ys)"

definition ordered :: "ssoRule list \<Rightarrow> ssoRule list" where
  "ordered rules = rev (fold sink rules [])"

definition shadow_key :: "ssoRule \<Rightarrow> string" where
  "shadow_key r = rl_Attr r @ CHR 0x00 # rl_Value r"

fun shadow_scan :: "string list \<Rightarrow> ssoRule list \<Rightarrow> int list" where
  "shadow_scan seen [] = []"
| "shadow_scan seen (r # rs) =
     (if \<not> rl_Enabled r then shadow_scan seen rs
      else if shadow_key r \<in> set seen then rl_ID r # shadow_scan seen rs
      else shadow_scan (shadow_key r # seen) rs)"

definition Shadowed :: "ssoRule list \<Rightarrow> int list" where
  "Shadowed rules = shadow_scan [] (ordered rules)"

section \<open>Storage\<close>

record storedRule = ssoRule +
  sr_ProviderID :: int

definition SSORules :: "storedRule list \<Rightarrow> storedRule list" where
  "SSORules stored = stable_sort (\<lambda>a b. rl_Ord a < rl_Ord b) stored"

fun renumber :: "int \<Rightarrow> storedRule list \<Rightarrow> storedRule list" where
  "renumber i [] = []"
| "renumber i (r # rs) = r\<lparr>rl_Ord := i, rl_ID := i + 1, rl_Attr := trim_space (rl_Attr r)\<rparr> # renumber (i + 1) rs"

text \<open>A rule may only name a unit whose policies resolve.\<close>

definition bad_target :: "ouGroupRow list \<Rightarrow> storedRule \<Rightarrow> bool" where
  "bad_target units r \<longleftrightarrow>
     rl_TargetGroup r \<noteq> 0 \<and> (case policyChain (sn_graph (loadOUPolicySnapshot units)) (rl_TargetGroup r) of Inl _ \<Rightarrow> True | Inr _ \<Rightarrow> False)"

definition SaveSSORules :: "ouGroupRow list \<Rightarrow> storedRule list \<Rightarrow> storedRule list option" where
  "SaveSSORules units rules = (if list_ex (bad_target units) (renumber 0 rules) then None else Some (renumber 0 rules))"

definition DeleteRulesOfProvider :: "ouGroupRow list \<Rightarrow> int \<Rightarrow> storedRule list \<Rightarrow> storedRule list option" where
  "DeleteRulesOfProvider units pid stored =
     (let all = SSORules stored; kept = filter (\<lambda>r. sr_ProviderID r \<noteq> pid) all
      in if length kept = length all then Some stored else SaveSSORules units kept)"

definition rulesFor :: "int \<Rightarrow> storedRule list \<Rightarrow> ssoRule list" where
  "rulesFor pid stored =
     map ssoRule.truncate (filter (\<lambda>r. sr_ProviderID r = 0 \<or> sr_ProviderID r = pid) (SSORules stored))"

section \<open>Writing the decision\<close>

definition privilegedRoles :: "string list" where
  "privilegedRoles = map fst (filter (\<lambda>(_, perms). PermManage \<in> set perms) roleRegistry)"

text \<open>The role and unit of an account as the rules see them.\<close>

definition Current :: "acctDb \<Rightarrow> string \<Rightarrow> ssoCurrent" where
  "Current db name =
     (case GetUser db name of
        None \<Rightarrow> \<lparr>cu_Exists = False, cu_Role = [], cu_Group = 0\<rparr>
      | Some u \<Rightarrow> \<lparr>cu_Exists = True, cu_Role = EffRole u, cu_Group = ac_group u\<rparr>)"

definition applyAssignment :: "string \<Rightarrow> string \<Rightarrow> int \<Rightarrow> acctDb \<Rightarrow> ouWriteErr + acctDb" where
  "applyAssignment name role g db =
     (case GetUser db name of
        None \<Rightarrow> Inl OuNoRows
      | Some u \<Rightarrow>
          (case (if g = 0 then Inr [] else policyChain (sn_graph (loadOUPolicySnapshot (og_rows (ad_org db)))) g) of
             Inl e \<Rightarrow> Inl (OuTree e)
           | Inr _ \<Rightarrow>
               let nextRole = (if role \<noteq> [] then validRole role else ac_role u); nextGroup = (if g \<noteq> 0 then g else ac_group u)
               in if nextRole = ac_role u \<and> nextGroup = ac_group u then Inr db
                  else Inr (upd_user name (\<lambda>v. v\<lparr>ac_role := nextRole, ac_group := nextGroup, ac_sessionRev := ac_sessionRev v + 1\<rparr>) db)))"

section \<open>The first match is the least match\<close>

definition candidates :: "ssoRule list \<Rightarrow> ssoFacts \<Rightarrow> ssoRule list" where
  "candidates rules f = filter (\<lambda>r. rl_Enabled r \<and> matches r f) rules"

lemma rule_less_irrefl: "\<not> rule_less a a"
  by (simp add: rule_less_def)

lemma rule_less_trans: "\<not> rule_less a b \<Longrightarrow> rule_less c b \<Longrightarrow> rule_less c a"
  by (auto simp: rule_less_def)

lemma rule_less_total: "rl_ID a \<noteq> rl_ID b \<Longrightarrow> rule_less a b \<or> rule_less b a"
  by (auto simp: rule_less_def)

lemma better_fold:
  "fold (better_match f) rules (Some b) = Some m \<Longrightarrow>
   m \<in> insert b (set (candidates rules f)) \<and> (\<forall>r\<in>insert b (set (candidates rules f)). \<not> rule_less r m)"
proof (induction rules arbitrary: b)
  case Nil
  then show ?case by (simp add: candidates_def rule_less_irrefl)
next
  case (Cons r rules)
  show ?case
  proof (cases "rl_Enabled r \<and> matches r f")
    case False
    then have "better_match f r (Some b) = Some b" by (auto simp: better_match_def)
    then show ?thesis using Cons False by (auto simp: candidates_def)
  next
    case True
    let ?b = "if rule_less r b then r else b"
    have "better_match f r (Some b) = Some ?b" using True by (simp add: better_match_def)
    then have m: "m \<in> insert ?b (set (candidates rules f))" "\<forall>q\<in>insert ?b (set (candidates rules f)). \<not> rule_less q m"
      using Cons.IH [of ?b] Cons.prems by auto
    have "\<not> rule_less r m \<and> \<not> rule_less b m"
      using m(2) by (cases "rule_less r b") (auto simp: rule_less_def)
    then show ?thesis using m True by (auto simp: candidates_def split: if_splits)
  qed
qed

lemma firstMatch_None: "firstMatch rules f = None \<longleftrightarrow> candidates rules f = []"
proof (induction rules)
  case (Cons r rules)
  have some: "fold (better_match f) rules (Some b) \<noteq> None" for b
    by (induction rules arbitrary: b) (auto simp: better_match_def)
  show ?case using Cons some by (auto simp: firstMatch_def candidates_def better_match_def)
qed (simp add: firstMatch_def candidates_def)

lemma firstMatch_least:
  assumes "firstMatch rules f = Some m"
  shows "m \<in> set (candidates rules f)" "\<forall>r\<in>set (candidates rules f). \<not> rule_less r m"
proof -
  have "m \<in> set (candidates rules f) \<and> (\<forall>r\<in>set (candidates rules f). \<not> rule_less r m)"
    using assms
  proof (induction rules)
    case (Cons r rules)
    show ?case
    proof (cases "rl_Enabled r \<and> matches r f")
      case True
      then have "fold (better_match f) rules (Some r) = Some m" using Cons.prems by (simp add: firstMatch_def better_match_def)
      from better_fold [OF this] show ?thesis using True by (auto simp: candidates_def)
    next
      case False
      then show ?thesis using Cons by (auto simp: firstMatch_def better_match_def candidates_def)
    qed
  qed (simp add: firstMatch_def)
  then show "m \<in> set (candidates rules f)" "\<forall>r\<in>set (candidates rules f). \<not> rule_less r m" by simp_all
qed

lemma least_unique:
  assumes "distinct (map rl_ID rules)" "m \<in> set rules" "m' \<in> set rules" "\<not> rule_less m m'" "\<not> rule_less m' m"
  shows "m = m'"
  using rule_less_total [of m m'] assms by (auto simp: distinct_map inj_on_def)

lemma firstMatch_permuted:
  assumes "mset rules = mset rules'" "distinct (map rl_ID rules)"
  shows "firstMatch rules f = firstMatch rules' f"
proof -
  have set: "set (candidates rules f) = set (candidates rules' f)"
    using mset_eq_setD [OF assms(1)] by (auto simp: candidates_def)
  show ?thesis
  proof (cases "firstMatch rules f")
    case None
    then show ?thesis using set firstMatch_None by (metis set_empty)
  next
    case (Some m)
    then have "firstMatch rules' f \<noteq> None" using set firstMatch_None [of rules f] firstMatch_None [of rules' f] by auto
    then obtain m' where m': "firstMatch rules' f = Some m'" by blast
    have "m = m'"
    proof (rule least_unique [OF assms(2)])
      show "m \<in> set rules" "m' \<in> set rules"
        using firstMatch_least(1) [OF Some] firstMatch_least(1) [OF m'] set by (auto simp: candidates_def)
      show "\<not> rule_less m m'" "\<not> rule_less m' m"
        using firstMatch_least [OF Some] firstMatch_least [OF m'] set by auto
    qed
    then show ?thesis using Some m' by simp
  qed
qed


section \<open>No privileged role without the opt-in\<close>

lemma dropped_role: "ot_Role (dropBlockedRole out d) \<noteq> [] \<Longrightarrow> \<not> df_AllowAdminRole d \<Longrightarrow> ot_Role (dropBlockedRole out d) \<notin> set (df_PrivilegedRoles d)"
  by (auto simp: dropBlockedRole_def split: if_splits)

lemma defaulted_role:
  assumes "\<not> df_AllowAdminRole d" "ot_Role out \<noteq> [] \<longrightarrow> ot_Role out \<notin> set (df_PrivilegedRoles d)"
    "ot_Role (withDefaults out cur d) \<noteq> []" "ot_Role (withDefaults out cur d) \<in> set (df_PrivilegedRoles d)"
  shows "cu_Exists cur \<and> ot_Role (withDefaults out cur d) = cu_Role cur"
proof -
  let ?out1 = "if ot_Role out = [] \<and> cu_Exists cur then out\<lparr>ot_Role := cu_Role cur\<rparr> else out"
  let ?out2 = "if ot_Role ?out1 = [] then dropBlockedRole (?out1\<lparr>ot_Role := df_Role d\<rparr>) d else ?out1"
  have role: "ot_Role (withDefaults out cur d) = ot_Role ?out2" unfolding withDefaults_def Let_def by simp
  have "ot_Role ?out1 \<noteq> []"
  proof
    assume e: "ot_Role ?out1 = []"
    then have "ot_Role ?out2 = ot_Role (dropBlockedRole (?out1\<lparr>ot_Role := df_Role d\<rparr>) d)" by simp
    then show False using dropped_role [of "?out1\<lparr>ot_Role := df_Role d\<rparr>" d] assms(1,3,4) role by simp
  qed
  then have "ot_Role (withDefaults out cur d) = ot_Role ?out1" using role by simp
  then show ?thesis using assms(2,3,4) by (auto split: if_splits)
qed

text \<open>
  Property C11. Whatever the rules and the defaults of a provider say, an identity ends with a privileged role only when the
  provider may grant one or the account held that very role before.
\<close>

theorem no_elevation_without_opt_in:
  assumes "\<not> df_AllowAdminRole d" and "ot_Role (Resolve rules f cur d) \<in> set (df_PrivilegedRoles d)"
    and "ot_Role (Resolve rules f cur d) \<noteq> []"
  shows "cu_Exists cur \<and> cu_Role cur = ot_Role (Resolve rules f cur d)"
proof (cases "firstMatch rules f")
  case (Some m)
  let ?out = "dropBlockedRole (no_outcome\<lparr>ot_Matched := True, ot_RuleID := rl_ID m, ot_Role := rl_TargetRole m, ot_Group := rl_TargetGroup m\<rparr>) d"
  have "Resolve rules f cur d = withDefaults ?out cur d" using Some by (simp add: Resolve_def apply_rule_def)
  then show ?thesis using defaulted_role [OF assms(1), of ?out cur] dropped_role assms by metis
next
  case None
  show ?thesis
  proof (cases "cu_Exists cur")
    case True
    show ?thesis
    proof (cases "anyKeepOnMiss rules")
      case False
      then have "Resolve rules f cur d = withDefaults no_outcome cur d" using None True by (simp add: Resolve_def)
      then show ?thesis using defaulted_role [OF assms(1), of no_outcome cur] assms by (simp add: no_outcome_def)
    qed (use None True in \<open>simp add: Resolve_def\<close>)
  next
    case False
    then have "df_Group d \<noteq> 0 \<Longrightarrow> Resolve rules f cur d = dropBlockedRole (no_outcome\<lparr>ot_Role := df_Role d, ot_Group := df_Group d\<rparr>) d"
      "df_Group d = 0 \<Longrightarrow> ot_Role (Resolve rules f cur d) = []"
      using None by (simp_all add: Resolve_def no_outcome_def)
    then show ?thesis using assms dropped_role by metis
  qed
qed

text \<open>
  A new account no rule speaks for is refused where the provider has no default unit; one for which a rule
  names only a role is let in and gets no unit, which the policies read as the Default OU.
\<close>

theorem role_rule_skips_refusal:
  assumes "\<not> cu_Exists cur" and "df_Group d = 0"
  shows "(firstMatch rules f = None \<longrightarrow> ot_Deny (Resolve rules f cur d)) \<and>
    (\<forall>m. firstMatch rules f = Some m \<longrightarrow> rl_TargetGroup m = 0 \<longrightarrow>
       \<not> ot_Deny (Resolve rules f cur d) \<and> ot_Group (Resolve rules f cur d) = 0)"
  using assms by (auto simp: Resolve_def apply_rule_def withDefaults_def dropBlockedRole_def no_outcome_def Let_def)

section \<open>What the warning about unreachable rules means\<close>

lemma sink_set [simp]: "set (sink x ys) = insert x (set ys)"
  by (induction ys) auto

lemma sink_mset [simp]: "mset (sink x ys) = add_mset x (mset ys)"
  by (induction ys) auto

lemma fold_sink_mset: "mset (fold sink rules acc) = mset rules + mset acc"
  by (induction rules arbitrary: acc) auto

lemma ordered_mset [simp]: "mset (ordered rules) = mset rules"
  by (simp add: ordered_def fold_sink_mset)

lemma sink_sorted:
  "sorted_wrt (\<lambda>a b. \<not> rule_less a b) ys \<Longrightarrow> sorted_wrt (\<lambda>a b. \<not> rule_less a b) (sink x ys)"
proof (induction ys)
  case (Cons y ys)
  show ?case
  proof (cases "rule_less x y")
    case True
    then have "\<not> rule_less y x" by (auto simp: rule_less_def)
    then show ?thesis using Cons True by auto
  next
    case False
    have "\<not> rule_less x z" if "z \<in> set ys" for z
    proof -
      have "\<not> rule_less y z" using Cons.prems that by simp
      then show ?thesis using False by (auto simp: rule_less_def)
    qed
    then show ?thesis using Cons.prems False by auto
  qed
qed simp

lemma ordered_sorted: "sorted_wrt (\<lambda>a b. \<not> rule_less b a) (ordered rules)"
proof -
  have "sorted_wrt (\<lambda>a b. \<not> rule_less a b) (fold sink rules acc)" if "sorted_wrt (\<lambda>a b. \<not> rule_less a b) acc" for acc
    using that by (induction rules arbitrary: acc) (auto simp: sink_sorted)
  from this [of "[]"] show ?thesis by (simp add: ordered_def sorted_wrt_rev)
qed

lemma shadow_scan_earlier:
  "k \<in> set (shadow_scan seen rs) \<Longrightarrow> \<exists>as r bs. rs = as @ r # bs \<and> rl_ID r = k \<and> rl_Enabled r \<and>
     (shadow_key r \<in> set seen \<or> (\<exists>a\<in>set as. rl_Enabled a \<and> shadow_key a = shadow_key r))"
proof (induction seen rs rule: shadow_scan.induct)
  case (2 seen r rs)
  note IH = "2.IH" and pre = "2.prems"
  let ?Q = "\<lambda>as q. rl_ID q = k \<and> rl_Enabled q \<and> (shadow_key q \<in> set seen \<or> (\<exists>a\<in>set as. rl_Enabled a \<and> shadow_key a = shadow_key q))"
  have cons: "\<exists>as q bs. r # rs = as @ q # bs \<and> ?Q as q" if "rs = as @ q # bs" "?Q (r # as) q" for as q bs
    using that by (intro exI [of _ "r # as"] exI [of _ q] exI [of _ bs]) simp
  consider (off) "\<not> rl_Enabled r" | (here) "rl_Enabled r" "shadow_key r \<in> set seen" "k = rl_ID r"
    | (later) "rl_Enabled r" "shadow_key r \<in> set seen" "k \<in> set (shadow_scan seen rs)"
    | (fresh) "rl_Enabled r" "shadow_key r \<notin> set seen" using pre by (auto split: if_splits)
  then show ?case
  proof cases
    case off
    then have "k \<in> set (shadow_scan seen rs)" using pre by simp
    from IH(1) [OF off this] obtain as q bs where "rs = as @ q # bs" "?Q as q" by blast
    then show ?thesis by (intro cons) auto
  next
    case here
    then show ?thesis by (intro exI [of _ "[]"] exI [of _ r] exI [of _ rs]) auto
  next
    case later
    from IH(2) [OF _ later(2,3)] later(1) obtain as q bs where "rs = as @ q # bs" "?Q as q" by blast
    then show ?thesis by (intro cons) auto
  next
    case fresh
    then have "k \<in> set (shadow_scan (shadow_key r # seen) rs)" using pre by simp
    from IH(3) [OF _ fresh(2) this] fresh(1) obtain as q bs where q: "rs = as @ q # bs" "rl_ID q = k" "rl_Enabled q"
      "shadow_key q \<in> set (shadow_key r # seen) \<or> (\<exists>a\<in>set as. rl_Enabled a \<and> shadow_key a = shadow_key q)" by blast
    then have "?Q (r # as) q" using fresh(1) by auto
    then show ?thesis using q(1) by (intro cons)
  qed
qed simp
lemma shadow_key_parts:
  assumes "CHR 0x00 \<notin> set (rl_Attr a)" "CHR 0x00 \<notin> set (rl_Attr b)" "shadow_key a = shadow_key b"
  shows "rl_Attr a = rl_Attr b \<and> rl_Value a = rl_Value b"
proof -
  have "takeWhile (\<lambda>c. c \<noteq> CHR 0x00) (shadow_key r) = rl_Attr r" if "CHR 0x00 \<notin> set (rl_Attr r)" for r :: ssoRule
    using that unfolding shadow_key_def by (subst takeWhile_append2) auto
  then have "rl_Attr a = rl_Attr b" using assms by metis
  then show ?thesis using assms(3) by (simp add: shadow_key_def)
qed

text \<open>
  Where every comparison is exact, a rule the warning names never decides: for every identity it matches an
  earlier enabled rule does too.
\<close>

theorem warned_rule_never_decides:
  assumes "distinct (map rl_ID rules)" and "\<forall>r\<in>set rules. \<not> rl_CaseInsensitive r \<and> CHR 0x00 \<notin> set (rl_Attr r)"
    and "k \<in> set (Shadowed rules)" and "firstMatch rules f = Some m"
  shows "rl_ID m \<noteq> k"
proof
  assume k: "rl_ID m = k"
  obtain as r bs a where r: "ordered rules = as @ r # bs" "rl_ID r = k" "a \<in> set as" "rl_Enabled a" "shadow_key a = shadow_key r"
    using shadow_scan_earlier [OF assms(3) [unfolded Shadowed_def]] by auto
  have "set (ordered rules) = set rules" by (metis ordered_mset set_mset_mset)
  then have mem: "a \<in> set rules" "r \<in> set rules" using r(1,3) by auto
  have m: "m \<in> set rules" "matches m f" using firstMatch_least(1) [OF assms(4)] by (auto simp: candidates_def)
  have "m = r" using assms(1) m(1) mem(2) k r(2) by (auto simp: distinct_map inj_on_def)
  moreover have "rl_Attr a = rl_Attr r \<and> rl_Value a = rl_Value r" using shadow_key_parts [OF _ _ r(5)] assms(2) mem by blast
  ultimately have "a \<in> set (candidates rules f)" using m(2) mem(1) r(4) assms(2) mem by (auto simp: candidates_def matches_def)
  then have "\<not> rule_less a m" using firstMatch_least(2) [OF assms(4)] by simp
  moreover have "\<not> rule_less m a" using ordered_sorted [of rules] r(1,3) \<open>m = r\<close> by (auto simp: sorted_wrt_append)
  ultimately have "a = m" using least_unique [OF assms(1) mem(1) m(1)] by simp
  moreover have "distinct (map rl_ID (ordered rules))"
    using assms(1) mset_eq_imp_distinct_iff [of "map rl_ID (ordered rules)" "map rl_ID rules"] by simp
  ultimately show False using r(1,3) \<open>m = r\<close> by auto
qed

definition demo_sso_rule :: "int \<Rightarrow> string \<Rightarrow> bool \<Rightarrow> string \<Rightarrow> int \<Rightarrow> ssoRule" where
  "demo_sso_rule i v ci role g = \<lparr>rl_ID = i, rl_Ord = i, rl_Enabled = True, rl_Attr = [], rl_Value = v, rl_TargetRole = role, rl_TargetGroup = g,
     rl_KeepOnMiss = False, rl_CaseInsensitive = ci, rl_Note = []\<rparr>"

text \<open>A rule that ignores case is warned of behind an exact one with the same value, and it decides all the same.\<close>

theorem warned_rule_decides:
  "2 \<in> set (Shadowed [demo_sso_rule 1 ''staff'' False ''user'' 3, demo_sso_rule 2 ''staff'' True ''editor'' 4]) \<and>
   firstMatch [demo_sso_rule 1 ''staff'' False ''user'' 3, demo_sso_rule 2 ''staff'' True ''editor'' 4] \<lparr>fa_Groups = [''Staff''], fa_Attrs = (\<lambda>_. [])\<rparr> =
     Some (demo_sso_rule 2 ''staff'' True ''editor'' 4)"
proof -
  have lower: "to_lower ''Staff'' = ''staff''" "to_lower ''staff'' = ''staff''" by code_simp+
  show ?thesis
    by (simp add: Shadowed_def ordered_def demo_sso_rule_def rule_less_def shadow_key_def firstMatch_def better_match_def matches_def
        fact_values_def lower)
qed

section \<open>The stored list\<close>

lemma renumber_nth:
  "i < length rules \<Longrightarrow> renumber k rules ! i = (rules ! i)\<lparr>rl_Ord := k + int i, rl_ID := k + int i + 1, rl_Attr := trim_space (rl_Attr (rules ! i))\<rparr>"
proof (induction rules arbitrary: k i)
  case (Cons r rs)
  then show ?case by (cases i) (simp_all add: algebra_simps)
qed simp

lemma renumber_length [simp]: "length (renumber k rules) = length rules"
  by (induction k rules rule: renumber.induct) auto

lemma renumber_least: "r \<in> set (renumber k rules) \<Longrightarrow> k \<le> rl_Ord r \<and> rl_ID r = rl_Ord r + 1"
  by (induction k rules rule: renumber.induct) auto

lemma stable_sort_renumber: "stable_sort (\<lambda>a b. rl_Ord a < rl_Ord b) (renumber k rules) = renumber k rules"
proof (induction k rules rule: renumber.induct)
  case (2 i r rs)
  have "ins_by (\<lambda>a b. rl_Ord a < rl_Ord b) x ys = x # ys" if "\<forall>y\<in>set ys. \<not> rl_Ord y < rl_Ord x" for x :: storedRule and ys
    using that by (cases ys) auto
  moreover have "\<forall>y\<in>set (renumber (i + 1) rs). \<not> rl_Ord y < i" using renumber_least by fastforce
  ultimately show ?case using 2 by simp
qed simp

lemma renumber_ids: "distinct (map rl_ID (renumber k rules))"
proof (induction k rules rule: renumber.induct)
  case (2 i r rs)
  then show ?case using renumber_least [of _ "i + 1" rs] by force
qed simp

text \<open>
  A saved list is read back in the order it was submitted, its order numbers and identifiers are its positions,
  every unit it names resolves, and deleting a provider leaves the rules of the others in their order.
\<close>

theorem saved_rules_read_back:
  assumes "SaveSSORules units rules = Some stored"
  shows "SSORules stored = stored \<and> length stored = length rules \<and> distinct (map rl_ID (rulesFor pid stored)) \<and>
    (\<forall>i<length rules. stored ! i = (rules ! i)\<lparr>rl_Ord := int i, rl_ID := int i + 1, rl_Attr := trim_space (rl_Attr (rules ! i))\<rparr>) \<and>
    (\<forall>r\<in>set stored. rl_TargetGroup r = 0 \<or> (\<exists>chain. policyChain (sn_graph (loadOUPolicySnapshot units)) (rl_TargetGroup r) = Inr chain))"
proof -
  have s: "stored = renumber 0 rules" "\<not> list_ex (bad_target units) (renumber 0 rules)"
    using assms by (auto simp: SaveSSORules_def split: if_splits)
  have "SSORules stored = stored" using stable_sort_renumber by (simp add: SSORules_def s(1))
  moreover have "distinct (map rl_ID (rulesFor pid stored))"
    using renumber_ids [of 0 rules] \<open>SSORules stored = stored\<close>
    by (simp add: rulesFor_def s(1) comp_def ssoRule.defs distinct_map_filter)
  moreover have "\<forall>r\<in>set stored. rl_TargetGroup r = 0 \<or> (\<exists>chain. policyChain (sn_graph (loadOUPolicySnapshot units)) (rl_TargetGroup r) = Inr chain)"
  proof (intro ballI)
    fix r assume "r \<in> set stored"
    then have "\<not> bad_target units r" using s by (simp add: list_ex_iff)
    then show "rl_TargetGroup r = 0 \<or> (\<exists>chain. policyChain (sn_graph (loadOUPolicySnapshot units)) (rl_TargetGroup r) = Inr chain)"
      by (cases "policyChain (sn_graph (loadOUPolicySnapshot units)) (rl_TargetGroup r)") (auto simp: bad_target_def)
  qed
  ultimately show ?thesis using renumber_nth [of _ rules 0] by (simp add: s(1))
qed

section \<open>Writing the decision\<close>

text \<open>
  Property C37. The write has no guard for the last administrator: a rule that gives the only one another role takes the
  role from it, and no administrator is left.
\<close>

theorem rule_demotes_last_admin:
  assumes "GetUser db name = Some u" and "IsAdmin u" and "CountAdmins db = 1" and "role \<noteq> []" and "validRole role \<noteq> ''admin''"
  shows "\<exists>db'. applyAssignment name role 0 db = Inr db' \<and> CountAdmins db' = 0"
proof -
  let ?f = "\<lambda>v. v\<lparr>ac_role := validRole role, ac_group := ac_group u, ac_sessionRev := ac_sessionRev v + 1\<rparr>"
  have "applyAssignment name role 0 db = Inr (upd_user name ?f db)"
    using assms by (auto simp: applyAssignment_def Let_def IsAdmin_role)
  moreover have "CountAdmins (upd_user name ?f db) = 0"
  proof -
    have one: "length (filter (\<lambda>w. ac_role w = ''admin'') (ad_users db)) = 1" using assms(3) by (simp add: CountAdmins_def)
    then obtain w where w: "filter (\<lambda>w. ac_role w = ''admin'') (ad_users db) = [w]" by (auto simp: length_Suc_conv)
    have "u \<in> set (filter (\<lambda>w. ac_role w = ''admin'') (ad_users db))" using GetUserD [OF assms(1)] assms(2) by (simp add: IsAdmin_role)
    then have "w = u" using w by simp
    have "ac_username v = name" if "v \<in> set (ad_users db)" "ac_role v = ''admin''" for v
    proof -
      have "v \<in> set (filter (\<lambda>w. ac_role w = ''admin'') (ad_users db))" using that by simp
      then show ?thesis using w \<open>w = u\<close> GetUserD [OF assms(1)] by simp
    qed
    then have "filter (\<lambda>v. ac_role v = ''admin'') (ad_users (upd_user name ?f db)) = []"
      using assms(5) by (auto simp: filter_empty_conv upd_user_def update_where_def split: if_splits)
    then show ?thesis by (simp add: CountAdmins_def)
  qed
  ultimately show ?thesis by blast
qed

section \<open>A provider with two rules\<close>

definition demo_defaults :: ssoDefaults where
  "demo_defaults = \<lparr>df_Role = ''admin'', df_Group = 0, df_AllowAdminRole = False, df_PrivilegedRoles = privilegedRoles\<rparr>"

definition demo_facts :: "string \<Rightarrow> ssoFacts" where
  "demo_facts g = \<lparr>fa_Groups = [g], fa_Attrs = (\<lambda>_. [])\<rparr>"

definition demo_current :: "bool \<Rightarrow> ssoCurrent" where
  "demo_current known = \<lparr>cu_Exists = known, cu_Role = (if known then ''admin'' else []), cu_Group = 0\<rparr>"

lemma demo_sso_match:
  "firstMatch [demo_sso_rule 2 ''staff'' False ''admin'' 0, demo_sso_rule 1 ''lead'' False ''editor'' 4] (demo_facts ''staff'') =
     Some (demo_sso_rule 2 ''staff'' False ''admin'' 0)"
  by (simp add: firstMatch_def better_match_def matches_def fact_values_def demo_facts_def demo_sso_rule_def)

lemma demo_privileged: "privilegedRoles = [''admin'']"
  by (simp add: privilegedRoles_def roleRegistry_def go_const)


lemma no_elevation_without_opt_in_witness:
  "ot_Role (Resolve [demo_sso_rule 2 ''staff'' False ''admin'' 0, demo_sso_rule 1 ''lead'' False ''editor'' 4] (demo_facts ''staff'')
     (demo_current True) demo_defaults) = ''admin'' \<and> cu_Role (demo_current True) = ''admin''"
proof -
  let ?out = "Resolve [demo_sso_rule 2 ''staff'' False ''admin'' 0, demo_sso_rule 1 ''lead'' False ''editor'' 4] (demo_facts ''staff'')
    (demo_current True) demo_defaults"
  have role: "ot_Role ?out = ''admin''"
    unfolding Resolve_def demo_sso_match option.case
    by (simp add: apply_rule_def withDefaults_def dropBlockedRole_def no_outcome_def demo_sso_rule_def
        demo_defaults_def demo_current_def demo_privileged Let_def)
  have "\<not> df_AllowAdminRole demo_defaults" "ot_Role ?out \<in> set (df_PrivilegedRoles demo_defaults)" "ot_Role ?out \<noteq> []"
    by (simp_all add: role) (simp_all add: demo_defaults_def demo_privileged)
  from no_elevation_without_opt_in [OF this] role show ?thesis by simp
qed

lemma role_rule_skips_refusal_witness:
  "\<not> ot_Deny (Resolve [demo_sso_rule 2 ''staff'' False ''admin'' 0, demo_sso_rule 1 ''lead'' False ''editor'' 4] (demo_facts ''staff'')
     (demo_current False) demo_defaults) \<and>
   ot_Deny (Resolve [] (demo_facts ''staff'') (demo_current False) demo_defaults)"
proof -
  have new: "\<not> cu_Exists (demo_current False)" "df_Group demo_defaults = 0" by (simp_all add: demo_current_def demo_defaults_def)
  have "rl_TargetGroup (demo_sso_rule 2 ''staff'' False ''admin'' 0) = 0" by (simp add: demo_sso_rule_def)
  then show ?thesis using role_rule_skips_refusal [OF new] demo_sso_match by (simp add: firstMatch_def)
qed

lemma saved_rules_read_back_witness:
  "\<exists>stored. SaveSSORules [] [ssoRule.extend (demo_sso_rule 9 ''staff'' False ''editor'' 0) (storedRule.fields 4)] = Some stored \<and>
     SSORules stored = stored \<and> length stored = 1"
proof -
  let ?rules = "[ssoRule.extend (demo_sso_rule 9 ''staff'' False ''editor'' 0) (storedRule.fields 4)]"
  have "SaveSSORules [] ?rules = Some (renumber 0 ?rules)"
    by (simp add: SaveSSORules_def bad_target_def demo_sso_rule_def ssoRule.defs storedRule.defs)
  from saved_rules_read_back [OF this] this show ?thesis by simp
qed

lemma rule_demotes_last_admin_witness:
  "\<exists>db'. applyAssignment ''ann'' ''user'' 0 (SetUserRole ''bob'' ''user'' demo_accounts) = Inr db' \<and> CountAdmins db' = 0"
proof -
  let ?db = "SetUserRole ''bob'' ''user'' demo_accounts"
  have rows: "ad_users ?db = [demo_account ''ann'' ''admin'' True 4, (demo_account ''bob'' ''admin'' False 0)\<lparr>ac_role := ''user''\<rparr>,
      demo_account ''cas'' ''user'' True 3]"
    by (simp add: SetUserRole_def upd_user_def update_where_def demo_accounts_users demo_account_def)
  have "GetUser ?db ''ann'' = Some (demo_account ''ann'' ''admin'' True 4)" "IsAdmin (demo_account ''ann'' ''admin'' True 4)"
    "CountAdmins ?db = 1" "''user'' \<noteq> []" "validRole ''user'' \<noteq> ''admin''"
    by (simp_all add: GetUser_def CountAdmins_def rows IsAdmin_role demo_account_def validRole_def)
  from rule_demotes_last_admin [OF this] show ?thesis .
qed

end
